(* ===== verification/Prelude.thy ===== *)
theory Prelude
  imports Main "HOL-Library.Word"
begin

unbundle bit_operations_syntax

text \<open>
  Shared material of the development: the machine integer types of
  \<^verbatim>\<open>src/include/types.h\<close>, the outcome of a kernel routine that may stop the
  machine, the search loop over a fixed table that most services are written with, and the
  generic lemmas on lists, words and outcomes that the component theories use.
\<close>

section \<open>Machine integers\<close>

type_synonym u8 = "8 word"
type_synonym u16 = "16 word"
type_synonym u32 = "32 word"
type_synonym u64 = "64 word"
type_synonym addr = "64 word"

text \<open>
  The C type \<open>int\<close> is modelled by \<^typ>\<open>int\<close> where the code only stores status codes,
  descriptors and loop indices; a conversion from an unsigned value is written \<open>sint\<close>.
\<close>

named_theorems inv_defs "definitions of the state invariants"
named_theorems op_defs "definitions of the operations of a component"

section \<open>Outcomes\<close>

text \<open>
  A routine that reaches \<^verbatim>\<open>panic\<close> (\<^verbatim>\<open>src/kernel/panic.c\<close>) never returns, one that
  takes a spinlock which is already held spins for ever when nobody else runs, and one that
  dereferences a pointer outside its object has no defined behaviour. These three are values
  of the model.
\<close>

datatype kfail = Panic | Spin | Fault

type_synonym 'a res = "kfail + 'a"

definition rbind :: "'a res \<Rightarrow> ('a \<Rightarrow> 'b res) \<Rightarrow> 'b res" where
  "rbind m f = (case m of Inl e \<Rightarrow> Inl e | Inr x \<Rightarrow> f x)"

lemma rbind_simps [simp]:
  "rbind (Inl e) f = Inl e"
  "rbind (Inr x) f = f x"
  by (simp_all add: rbind_def)

lemma rbind_Inr_iff: "rbind m f = Inr y \<longleftrightarrow> (\<exists>x. m = Inr x \<and> f x = Inr y)"
  by (cases m) auto

section \<open>The first index of a table\<close>

text \<open>
  The loop \<^verbatim>\<open>for (i = 0; i < N; i++) if (P(tab[i])) ...\<close> that leaves at its first hit.
\<close>

fun first_idx :: "('a \<Rightarrow> bool) \<Rightarrow> 'a list \<Rightarrow> nat option" where
  "first_idx P [] = None"
| "first_idx P (x # xs) = (if P x then Some 0 else map_option Suc (first_idx P xs))"

lemma first_idx_None_iff: "first_idx P xs = None \<longleftrightarrow> (\<forall>x\<in>set xs. \<not> P x)"
  by (induction xs) auto

lemma first_idx_SomeD:
  "first_idx P xs = Some i \<Longrightarrow> i < length xs \<and> P (xs ! i) \<and> (\<forall>j<i. \<not> P (xs ! j))"
proof (induction xs arbitrary: i)
  case (Cons x xs)
  show ?case
  proof (cases "P x")
    case False
    with Cons.prems obtain k where k: "first_idx P xs = Some k" "i = Suc k" by auto
    from Cons.IH [OF k(1)] k(2) False show ?thesis
      by (auto simp: less_Suc_eq_0_disj)
  qed (use Cons.prems in auto)
qed simp

lemma first_idx_SomeI:
  assumes "i < length xs" "P (xs ! i)" "\<forall>j<i. \<not> P (xs ! j)"
  shows "first_idx P xs = Some i"
proof (cases "first_idx P xs")
  case None
  with assms show ?thesis by (auto simp: first_idx_None_iff)
next
  case (Some k)
  from first_idx_SomeD [OF this] assms have "k = i" by (metis nat_neq_iff)
  with Some show ?thesis by simp
qed

lemma first_idx_Some_iff:
  "first_idx P xs = Some i \<longleftrightarrow> i < length xs \<and> P (xs ! i) \<and> (\<forall>j<i. \<not> P (xs ! j))"
  by (blast dest: first_idx_SomeD intro: first_idx_SomeI)

lemma first_idx_map: "first_idx P (map f xs) = first_idx (\<lambda>x. P (f x)) xs"
  by (induction xs) auto

lemma first_idx_less: "first_idx P xs = Some i \<Longrightarrow> i < length xs"
  by (simp add: first_idx_Some_iff)

lemma first_idx_hit: "first_idx P xs = Some i \<Longrightarrow> P (xs ! i)"
  by (simp add: first_idx_Some_iff)

lemma first_idx_exists: "x \<in> set xs \<Longrightarrow> P x \<Longrightarrow> \<exists>i. first_idx P xs = Some i"
  using first_idx_None_iff [of P xs] by (cases "first_idx P xs") auto

section \<open>Taking a free slot of a fixed table\<close>

text \<open>
  Most services keep a static array whose entries carry a \<open>used\<close> flag, and serve a request
  by claiming the first entry whose flag is clear. \<open>slot_alloc used init xs\<close> is that loop:
  \<open>None\<close> when the table is full, otherwise the index and the table with the entry
  initialised by \<open>init\<close>, which may depend on the index.
\<close>

definition slot_alloc :: "('e \<Rightarrow> bool) \<Rightarrow> (nat \<Rightarrow> 'e \<Rightarrow> 'e) \<Rightarrow> 'e list \<Rightarrow> (nat \<times> 'e list) option" where
  "slot_alloc used init xs =
     (case first_idx (\<lambda>e. \<not> used e) xs of
        None \<Rightarrow> None
      | Some i \<Rightarrow> Some (i, xs[i := init i (xs ! i)]))"

definition n_used :: "('e \<Rightarrow> bool) \<Rightarrow> 'e list \<Rightarrow> nat" where
  "n_used used xs = length (filter used xs)"

lemma n_used_le: "n_used used xs \<le> length xs"
  by (simp add: n_used_def)

lemma n_used_update_new:
  assumes "i < length xs" "\<not> used (xs ! i)" "used y"
  shows "n_used used (xs[i := y]) = Suc (n_used used xs)"
  using assms
proof (induction xs arbitrary: i)
  case (Cons x xs)
  then show ?case by (cases i) (auto simp: n_used_def)
qed simp

lemma n_used_update_same:
  assumes "i < length xs" "used (xs ! i) = used y"
  shows "n_used used (xs[i := y]) = n_used used xs"
  using assms
proof (induction xs arbitrary: i)
  case (Cons x xs)
  then show ?case by (cases i) (auto simp: n_used_def)
qed simp

lemma n_used_update_drop:
  assumes "i < length xs" "used (xs ! i)" "\<not> used y"
  shows "Suc (n_used used (xs[i := y])) = n_used used xs"
  using assms
proof (induction xs arbitrary: i)
  case (Cons x xs)
  then show ?case by (cases i) (auto simp: n_used_def)
qed simp

text \<open>The contract a table offers its clients, and what follows from it once.\<close>

locale slot_table =
  fixes used :: "'e \<Rightarrow> bool"
    and init :: "'a \<Rightarrow> nat \<Rightarrow> 'e \<Rightarrow> 'e"
  assumes used_init: "used (init a i e)"
begin

lemma alloc_None_iff: "slot_alloc used (init a) xs = None \<longleftrightarrow> (\<forall>e\<in>set xs. used e)"
  using first_idx_None_iff [of "\<lambda>e. \<not> used e" xs]
  by (auto simp: slot_alloc_def split: option.splits)

lemma alloc_SomeD:
  assumes "slot_alloc used (init a) xs = Some (i, ys)"
  shows "i < length xs" "\<not> used (xs ! i)" "\<And>j. j < i \<Longrightarrow> used (xs ! j)"
    and "ys = xs[i := init a i (xs ! i)]"
  using assms
  by (auto simp: slot_alloc_def first_idx_Some_iff split: option.splits)

lemma alloc_frame:
  assumes "slot_alloc used (init a) xs = Some (i, ys)"
  shows "length ys = length xs" "ys ! i = init a i (xs ! i)" "\<And>j. j \<noteq> i \<Longrightarrow> ys ! j = xs ! j"
  using alloc_SomeD [OF assms] by auto

lemma alloc_fresh:
  assumes "slot_alloc used (init a) xs = Some (i, ys)"
  shows "used (ys ! i)" "\<not> used (xs ! i)"
  using alloc_SomeD [OF assms] used_init by auto

lemma alloc_count:
  assumes "slot_alloc used (init a) xs = Some (i, ys)"
  shows "n_used used ys = Suc (n_used used xs)"
  using alloc_SomeD [OF assms] by (simp add: n_used_update_new used_init)

lemma alloc_succeeds: "n_used used xs < length xs \<Longrightarrow> \<exists>i ys. slot_alloc used (init a) xs = Some (i, ys)"
proof -
  assume "n_used used xs < length xs"
  then have "\<not> (\<forall>e\<in>set xs. used e)"
    by (metis filter_True less_irrefl n_used_def)
  then have "slot_alloc used (init a) xs \<noteq> None"
    by (simp add: alloc_None_iff)
  then show ?thesis by auto
qed

end

text \<open>A table of \<open>n\<close> entries in which entry \<open>i\<close> satisfies \<open>P i\<close>.\<close>

definition table_ok :: "(nat \<Rightarrow> 'e \<Rightarrow> bool) \<Rightarrow> nat \<Rightarrow> 'e list \<Rightarrow> bool" where
  "table_ok P n xs \<longleftrightarrow> length xs = n \<and> (\<forall>i<n. P i (xs ! i))"

lemma table_ok_length: "table_ok P n xs \<Longrightarrow> length xs = n"
  by (simp add: table_ok_def)

lemma table_ok_nth: "table_ok P n xs \<Longrightarrow> i < n \<Longrightarrow> P i (xs ! i)"
  by (simp add: table_ok_def)

lemma table_ok_update: "table_ok P n xs \<Longrightarrow> P i x \<Longrightarrow> table_ok P n (xs[i := x])"
  by (metis length_list_update nth_list_update_eq nth_list_update_neq table_ok_def)

lemma table_ok_replicate: "(\<And>i. i < n \<Longrightarrow> P i x) \<Longrightarrow> table_ok P n (replicate n x)"
  by (simp add: table_ok_def)

section \<open>Slices of a circular array\<close>

text \<open>
  \<open>ring_slice m d t n\<close>: the \<open>n\<close> entries of an array \<open>d\<close> of \<open>m\<close> slots from slot \<open>t\<close> on,
  going round. It is the abstract value of every circular buffer of the system.
\<close>

definition ring_slice :: "nat \<Rightarrow> (nat \<Rightarrow> 'a) \<Rightarrow> nat \<Rightarrow> nat \<Rightarrow> 'a list" where
  "ring_slice m d t n = map (\<lambda>k. d ((t + k) mod m)) [0..<n]"

lemma length_ring_slice [simp]: "length (ring_slice m d t n) = n"
  by (simp add: ring_slice_def)

lemma ring_slice_0 [simp]: "ring_slice m d t 0 = []"
  by (simp add: ring_slice_def)

lemma mod_add_neq:
  assumes "(i :: nat) < j" "j < i + m"
  shows "(t + i) mod m \<noteq> (t + j) mod m"
proof
  assume "(t + i) mod m = (t + j) mod m"
  then have "m dvd (t + j) - (t + i)"
    using assms by (metis add_le_cancel_left less_imp_le mod_eq_dvd_iff_nat)
  then have "m dvd j - i" by simp
  then show False using assms by (auto dest: dvd_imp_le)
qed

lemma ring_slice_upd:
  assumes "n + k < m"
  shows "ring_slice m (d((t + n + k) mod m := b)) t n = ring_slice m d t n"
proof -
  have "(t + j) mod m \<noteq> (t + (n + k)) mod m" if "j < n" for j
    using that assms by (intro mod_add_neq) auto
  then show ?thesis by (auto simp: ring_slice_def add.assoc)
qed

lemma ring_slice_snoc: "ring_slice m d t (Suc n) = ring_slice m d t n @ [d ((t + n) mod m)]"
  by (simp add: ring_slice_def)

lemma ring_slice_Cons: "ring_slice m d t (Suc n) = d (t mod m) # ring_slice m d ((t + 1) mod m) n"
proof -
  have "ring_slice m d t (Suc n) = d (t mod m) # map (\<lambda>k. d ((t + Suc k) mod m)) [0..<n]"
    by (simp add: ring_slice_def map_upt_Suc del: upt_Suc)
  also have "map (\<lambda>k. d ((t + Suc k) mod m)) [0..<n] = ring_slice m d ((t + 1) mod m) n"
    by (simp add: ring_slice_def mod_add_left_eq add.assoc)
  finally show ?thesis .
qed

lemma ring_slice_append:
  "ring_slice m d t (i + n) = ring_slice m d t i @ ring_slice m d ((t + i) mod m) n"
  by (induction n) (simp_all add: ring_slice_def mod_add_left_eq add.assoc)

text \<open>Writing at the slot after the slice and taking the slot at its start.\<close>

lemma ring_slice_push:
  "n < m \<Longrightarrow> ring_slice m (d((t + n) mod m := b)) t (Suc n) = ring_slice m d t n @ [b]"
  using ring_slice_upd [of n 0 m d t b] by (simp add: ring_slice_snoc)

lemma ring_slice_pop:
  "t < m \<Longrightarrow> 0 < n \<Longrightarrow> ring_slice m d ((t + 1) mod m) (n - 1) = tl (ring_slice m d t n)"
  by (cases n) (simp_all add: ring_slice_Cons)

lemma ring_slice_hd: "t < m \<Longrightarrow> 0 < n \<Longrightarrow> hd (ring_slice m d t n) = d t"
  by (cases n) (simp_all add: ring_slice_Cons)

section \<open>Lists and words\<close>

lemma nth_map_upt_shift [simp]: "k < n \<Longrightarrow> map f [a..<a + n] ! k = f (a + k)"
  by simp

lemma unat_less_iff_numeral: "(x :: 'a::len word) < y \<longleftrightarrow> unat x < unat y"
  by (simp add: word_less_nat_alt)

lemma unat_Suc_word: "unat (x :: 'a::len word) + 1 < 2 ^ LENGTH('a) \<Longrightarrow> unat (x + 1) = unat x + 1"
  by (simp add: unat_word_ariths)

lemma unat_sub_le: "(y :: 'a::len word) \<le> x \<Longrightarrow> unat (x - y) = unat x - unat y"
  by (rule unat_sub)

lemma unat_add_small:
  "unat (x :: 'a::len word) + unat y < 2 ^ LENGTH('a) \<Longrightarrow> unat (x + y) = unat x + unat y"
  by (simp add: unat_word_ariths)

lemma unat_of_nat_small: "n < 2 ^ LENGTH('a) \<Longrightarrow> unat (of_nat n :: 'a::len word) = n"
  by (simp add: unat_of_nat)

lemma unat_pred: "x \<noteq> 0 \<Longrightarrow> unat (x - 1 :: 'a::len word) = unat x - 1"
  by (rule unat_minus_one)

lemma unat_pos: "0 < unat (x :: 'a::len word) \<longleftrightarrow> x \<noteq> 0"
  by (simp add: unat_gt_0)

lemma sint_small: "unat (x :: 32 word) < 2147483648 \<Longrightarrow> sint x = int (unat x)"
proof -
  assume a: "unat x < 2147483648"
  then have "int (unat x) < 2147483648" by linarith
  then have "uint x < 2147483648" by simp
  then have "signed_take_bit 31 (uint x) = uint x"
    by (intro signed_take_bit_int_eq_self) (auto intro: order_trans [of _ 0])
  then show ?thesis by (simp add: sint_uint)
qed

end
