(* ===== verification/Spinlock.thy ===== *)
theory Spinlock
  imports Prelude
begin

text \<open>
  The spinlock of \<^verbatim>\<open>src/kernel/spinlock.c\<close>: the sequential meaning of its four
  operations, which the services use around their critical sections, and the interleaved
  meaning, in which any number of processors run the two loops of \<open>spinlock_lock\<close> step
  by step and at most one of them is inside its critical section.
\<close>

section \<open>The lock word and the operations\<close>

record spinlock =
  locked :: int

definition spinlock_init :: spinlock where
  "spinlock_init = \<lparr>locked = 0\<rparr>"

text \<open>\<^verbatim>\<open>__atomic_exchange_n\<close>: the old value, and the new one stored.\<close>

definition atomic_exchange :: "spinlock \<Rightarrow> int \<Rightarrow> int \<times> spinlock" where
  "atomic_exchange l v = (locked l, l\<lparr>locked := v\<rparr>)"

text \<open>
  With nobody else running, the outer loop returns at its first exchange or never: a failed
  exchange leaves the word at 1, and the inner loop reads the same 1 for ever.
\<close>

definition spinlock_lock :: "spinlock \<Rightarrow> spinlock res" where
  "spinlock_lock l = (let (old, l') = atomic_exchange l 1 in if old = 0 then Inr l' else Inl Spin)"

definition spinlock_unlock :: "spinlock \<Rightarrow> spinlock" where
  "spinlock_unlock l = l\<lparr>locked := 0\<rparr>"

definition spinlock_try_lock :: "spinlock \<Rightarrow> bool \<times> spinlock" where
  "spinlock_try_lock l = (let (old, l') = atomic_exchange l 1 in (old = 0, l'))"

definition spinlock_acquire :: "spinlock \<Rightarrow> spinlock res" where
  "spinlock_acquire l = spinlock_lock l"

definition spinlock_release :: "spinlock \<Rightarrow> spinlock" where
  "spinlock_release l = spinlock_unlock l"

abbreviation lock_free :: "spinlock \<Rightarrow> bool" where
  "lock_free l \<equiv> locked l = 0"

lemma lock_free_init [simp]: "lock_free spinlock_init"
  by (simp add: spinlock_init_def)

lemma spinlock_lock_free [simp]: "lock_free l \<Longrightarrow> spinlock_lock l = Inr (l\<lparr>locked := 1\<rparr>)"
  by (simp add: spinlock_lock_def atomic_exchange_def)

lemma spinlock_lock_held [simp]: "\<not> lock_free l \<Longrightarrow> spinlock_lock l = Inl Spin"
  by (simp add: spinlock_lock_def atomic_exchange_def)

lemma spinlock_lock_Inr_iff: "spinlock_lock l = Inr l' \<longleftrightarrow> lock_free l \<and> l' = l\<lparr>locked := 1\<rparr>"
  by (cases "lock_free l") auto

lemma locked_unlock [simp]: "locked (spinlock_unlock l) = 0"
  by (simp add: spinlock_unlock_def)

lemma unlock_lock [simp]: "spinlock_unlock (l\<lparr>locked := v\<rparr>) = spinlock_unlock l"
  by (simp add: spinlock_unlock_def)

lemma unlock_free [simp]: "lock_free l \<Longrightarrow> spinlock_unlock l = l"
  by (simp add: spinlock_unlock_def)

lemma try_lock_simps:
  "lock_free l \<Longrightarrow> spinlock_try_lock l = (True, l\<lparr>locked := 1\<rparr>)"
  "\<not> lock_free l \<Longrightarrow> spinlock_try_lock l = (False, l\<lparr>locked := 1\<rparr>)"
  by (simp_all add: spinlock_try_lock_def atomic_exchange_def)

section \<open>Interleaving\<close>

text \<open>
  Each processor is outside the lock, about to execute the exchange of
  \<open>spinlock_lock\<close>, in its inner \<^verbatim>\<open>while (lock->locked)\<close> loop, or inside the
  critical section. One step is one atomic access to the lock word.
\<close>

datatype spin_pc = Outside | Exchanging | Waiting | Inside

record spin_sys =
  sp_lock :: spinlock
  sp_pc :: "nat \<Rightarrow> spin_pc"

definition spin_start :: spin_sys where
  "spin_start = \<lparr>sp_lock = spinlock_init, sp_pc = (\<lambda>_. Outside)\<rparr>"

definition set_pc :: "nat \<Rightarrow> spin_pc \<Rightarrow> spin_sys \<Rightarrow> spin_sys" where
  "set_pc i p s = s\<lparr>sp_pc := (sp_pc s)(i := p)\<rparr>"

inductive spin_step :: "spin_sys \<Rightarrow> spin_sys \<Rightarrow> bool" where
  enter: "sp_pc s i = Outside \<Longrightarrow> spin_step s (set_pc i Exchanging s)"
| exchange_won: "sp_pc s i = Exchanging \<Longrightarrow> atomic_exchange (sp_lock s) 1 = (0, l') \<Longrightarrow>
     spin_step s (set_pc i Inside (s\<lparr>sp_lock := l'\<rparr>))"
| exchange_lost: "sp_pc s i = Exchanging \<Longrightarrow> atomic_exchange (sp_lock s) 1 = (v, l') \<Longrightarrow> v \<noteq> 0 \<Longrightarrow>
     spin_step s (set_pc i Waiting (s\<lparr>sp_lock := l'\<rparr>))"
| pause: "sp_pc s i = Waiting \<Longrightarrow> locked (sp_lock s) \<noteq> 0 \<Longrightarrow> spin_step s s"
| retry: "sp_pc s i = Waiting \<Longrightarrow> locked (sp_lock s) = 0 \<Longrightarrow> spin_step s (set_pc i Exchanging s)"
| try_lock: "sp_pc s i = Outside \<Longrightarrow> spinlock_try_lock (sp_lock s) = (ok, l') \<Longrightarrow>
     spin_step s (set_pc i (if ok then Inside else Outside) (s\<lparr>sp_lock := l'\<rparr>))"
| unlock: "sp_pc s i = Inside \<Longrightarrow>
     spin_step s (set_pc i Outside (s\<lparr>sp_lock := spinlock_unlock (sp_lock s)\<rparr>))"

text \<open>
  The lock word and the program counters agree: nobody is inside while the word is 0, and
  exactly one processor is inside while it is not.
\<close>

definition inside :: "spin_sys \<Rightarrow> nat set" where
  "inside s = {i. sp_pc s i = Inside}"

definition spin_inv :: "spin_sys \<Rightarrow> bool" where
  [inv_defs]: "spin_inv s \<longleftrightarrow>
     (if lock_free (sp_lock s) then inside s = {} else \<exists>i. inside s = {i})"

lemma inside_set_pc [simp]:
  "inside (set_pc i p s) = (if p = Inside then insert i (inside s) else inside s - {i})"
  by (auto simp: inside_def set_pc_def)

lemma inside_lock [simp]: "inside (s\<lparr>sp_lock := l\<rparr>) = inside s"
  by (simp add: inside_def)

lemma sp_lock_set_pc [simp]: "sp_lock (set_pc i p s) = sp_lock s"
  by (simp add: set_pc_def)

lemma not_inside: "sp_pc s i \<noteq> Inside \<Longrightarrow> inside s - {i} = inside s"
  by (auto simp: inside_def)

lemma spin_inv_start: "spin_inv spin_start"
  by (simp add: spin_inv_def spin_start_def inside_def)

lemma spin_inv_step: "spin_step s t \<Longrightarrow> spin_inv s \<Longrightarrow> spin_inv t"
proof (induction rule: spin_step.induct)
  case (try_lock s i ok l')
  then show ?case
    by (cases "lock_free (sp_lock s)") (auto simp: spin_inv_def try_lock_simps not_inside)
next
  case (unlock s i)
  then have "i \<in> inside s" by (simp add: inside_def)
  with unlock show ?case by (auto simp: spin_inv_def split: if_splits)
qed (auto simp: spin_inv_def atomic_exchange_def not_inside)

lemma spin_inv_unique: "spin_inv s \<Longrightarrow> sp_pc s i = Inside \<Longrightarrow> sp_pc s j = Inside \<Longrightarrow> i = j"
proof -
  assume "spin_inv s" "sp_pc s i = Inside" "sp_pc s j = Inside"
  then have "i \<in> inside s" "j \<in> inside s" "inside s = {} \<or> (\<exists>k. inside s = {k})"
    by (auto simp: inside_def spin_inv_def split: if_splits)
  then show "i = j" by auto
qed

text \<open>
  The contract every lock of the kernel meets: an invariant of its steps under which at most
  one party holds it.
\<close>

locale lock_protocol =
  fixes start :: 's and step :: "'s \<Rightarrow> 's \<Rightarrow> bool" and inv :: "'s \<Rightarrow> bool" and holds :: "'s \<Rightarrow> 'i \<Rightarrow> bool"
  assumes start_inv: "inv start"
    and step_inv: "step s t \<Longrightarrow> inv s \<Longrightarrow> inv t"
    and inv_unique: "inv s \<Longrightarrow> holds s i \<Longrightarrow> holds s j \<Longrightarrow> i = j"
begin

lemma reach_inv: "step\<^sup>*\<^sup>* start s \<Longrightarrow> inv s"
  by (induction rule: rtranclp_induct) (auto intro: start_inv step_inv)

lemma mutual_exclusion: "step\<^sup>*\<^sup>* start s \<Longrightarrow> holds s i \<Longrightarrow> holds s j \<Longrightarrow> i = j"
  using reach_inv inv_unique by blast

end

interpretation spin_protocol: lock_protocol spin_start spin_step spin_inv "\<lambda>s i. sp_pc s i = Inside"
  by unfold_locales (auto intro: spin_inv_start spin_inv_step dest: spin_inv_unique)

text \<open>
  C13. Mutual exclusion of the spinlock: however the atomic accesses of any number of processors
  interleave, at most one of them is inside the critical section.
\<close>

theorem spinlock_mutual_exclusion:
  assumes "spin_step\<^sup>*\<^sup>* spin_start s" "sp_pc s i = Inside" "sp_pc s j = Inside"
  shows "i = j"
  using assms by (rule spin_protocol.mutual_exclusion)

definition spin_example :: spin_sys where
  "spin_example = \<lparr>sp_lock = \<lparr>locked = 1\<rparr>, sp_pc = (\<lambda>_. Outside)(3 := Inside)\<rparr>"

lemma spin_example_reach: "spin_step\<^sup>*\<^sup>* spin_start spin_example"
proof -
  have "spin_step spin_start (set_pc 3 Inside (spin_start\<lparr>sp_lock := \<lparr>locked = 1\<rparr>\<rparr>))"
    using spin_step.try_lock [of spin_start 3 True "\<lparr>locked = 1\<rparr>"]
    by (simp add: spin_start_def spinlock_init_def try_lock_simps)
  moreover have "set_pc 3 Inside (spin_start\<lparr>sp_lock := \<lparr>locked = 1\<rparr>\<rparr>) = spin_example"
    by (simp add: spin_start_def set_pc_def spin_example_def)
  ultimately show ?thesis by (simp add: r_into_rtranclp)
qed

theorem spinlock_mutual_exclusion_witness:
  "sp_pc spin_example 3 = Inside \<and> sp_pc spin_example 5 \<noteq> Inside"
proof -
  have i: "sp_pc spin_example 3 = Inside" by (simp add: spin_example_def)
  from spinlock_mutual_exclusion [OF spin_example_reach i, of 5] i show ?thesis by auto
qed

section \<open>Atomic operations\<close>

text \<open>\<^verbatim>\<open>src/kernel/atomic.c\<close>, on the 32-bit word the pointer designates.\<close>

definition atomic_inc :: "u32 \<Rightarrow> u32" where
  "atomic_inc v = v + 1"

definition atomic_dec :: "u32 \<Rightarrow> u32" where
  "atomic_dec v = v - 1"

text \<open>
  The compare-exchange writes the new value when the old one matched; \<open>expected\<close> keeps
  \<open>old_val\<close> on success and receives the value found on failure.
\<close>

definition atomic_cas :: "u32 \<Rightarrow> u32 \<Rightarrow> u32 \<Rightarrow> u32 \<times> u32" where
  "atomic_cas v old_val new_val = (if v = old_val then (old_val, new_val) else (v, v))"

definition atomic_load :: "u32 \<Rightarrow> u32" where
  "atomic_load v = v"

definition atomic_store :: "u32 \<Rightarrow> u32 \<Rightarrow> u32" where
  "atomic_store v value = value"

lemma atomic_cas_returns_old: "fst (atomic_cas v old new) = v"
  by (simp add: atomic_cas_def)

lemma atomic_cas_stores: "snd (atomic_cas v old new) = (if fst (atomic_cas v old new) = old then new else v)"
  by (auto simp: atomic_cas_def)

end
