(* ===== verification/RingBuffer.thy ===== *)
theory RingBuffer
  imports Spinlock
begin

text \<open>
  The circular byte buffer of \<^verbatim>\<open>src/services/ring_buffer.c\<close>. The 4096-byte array is a
  function from indices; every index the code forms is reduced modulo the size, and the
  well-formedness invariant records that the two positions stay inside the array. The
  abstract value of a buffer is the list of the bytes between \<open>tail\<close> and \<open>head\<close>.
\<close>

section \<open>Data\<close>

definition RING_BUFFER_SIZE :: nat where
  "RING_BUFFER_SIZE = 4096"

record ring_buffer =
  rb_data :: "nat \<Rightarrow> u8"
  rb_head :: u32
  rb_tail :: u32
  rb_count :: u32
  rb_lock :: spinlock

section \<open>Operations\<close>

definition ring_buffer_init :: ring_buffer where
  "ring_buffer_init = \<lparr>rb_data = (\<lambda>_. 0), rb_head = 0, rb_tail = 0, rb_count = 0,
     rb_lock = spinlock_init\<rparr>"

definition rb_next :: "u32 \<Rightarrow> u32" where
  "rb_next p = (p + 1) mod of_nat RING_BUFFER_SIZE"

text \<open>The copy loop of the write: one byte at the head, then the head moves.\<close>

fun rb_put :: "u8 list \<Rightarrow> ring_buffer \<Rightarrow> ring_buffer" where
  "rb_put [] rb = rb"
| "rb_put (b # bs) rb =
     rb_put bs (rb\<lparr>rb_data := (rb_data rb)(unat (rb_head rb) := b), rb_head := rb_next (rb_head rb)\<rparr>)"

text \<open>The copy loop of the read: \<open>n\<close> bytes from the tail.\<close>

fun rb_get :: "nat \<Rightarrow> ring_buffer \<Rightarrow> u8 list \<times> ring_buffer" where
  "rb_get 0 rb = ([], rb)"
| "rb_get (Suc n) rb =
     (let b = rb_data rb (unat (rb_tail rb));
          (bs, rb') = rb_get n (rb\<lparr>rb_tail := rb_next (rb_tail rb)\<rparr>)
      in (b # bs, rb'))"

text \<open>
  \<open>data\<close> is \<open>None\<close> for a null pointer. A source buffer shorter than \<open>len\<close> is read out of
  bounds, which is a fault.
\<close>

definition ring_buffer_write :: "ring_buffer \<Rightarrow> u8 list option \<Rightarrow> u32 \<Rightarrow> (int \<times> ring_buffer) res" where
  "ring_buffer_write rb data len =
     (case data of None \<Rightarrow> Inr (-1, rb)
      | Some bs \<Rightarrow>
          if len = 0 then Inr (-1, rb)
          else rbind (spinlock_lock (rb_lock rb)) (\<lambda>l.
            let rb1 = rb\<lparr>rb_lock := l\<rparr>;
                available = of_nat RING_BUFFER_SIZE - rb_count rb1
            in if len > available then Inr (-1, rb1\<lparr>rb_lock := spinlock_unlock l\<rparr>)
               else if length bs < unat len then Inl Fault
               else let rb2 = rb_put (take (unat len) bs) rb1;
                        rb3 = rb2\<lparr>rb_count := rb_count rb2 + len\<rparr>
                    in Inr (sint len, rb3\<lparr>rb_lock := spinlock_unlock (rb_lock rb3)\<rparr>)))"

text \<open>\<open>null_dst\<close> says that the destination pointer is null; the result lists the bytes stored there.\<close>

definition ring_buffer_read :: "ring_buffer \<Rightarrow> bool \<Rightarrow> u32 \<Rightarrow> (int \<times> u8 list \<times> ring_buffer) res" where
  "ring_buffer_read rb null_dst len =
     (if null_dst \<or> len = 0 then Inr (-1, [], rb)
      else rbind (spinlock_lock (rb_lock rb)) (\<lambda>l.
        let rb1 = rb\<lparr>rb_lock := l\<rparr>;
            n = (if len > rb_count rb1 then rb_count rb1 else len);
            (bs, rb2) = rb_get (unat n) rb1;
            rb3 = rb2\<lparr>rb_count := rb_count rb2 - n\<rparr>
        in Inr (sint n, bs, rb3\<lparr>rb_lock := spinlock_unlock (rb_lock rb3)\<rparr>)))"

definition ring_buffer_count :: "ring_buffer \<Rightarrow> (u32 \<times> ring_buffer) res" where
  "ring_buffer_count rb =
     rbind (spinlock_lock (rb_lock rb)) (\<lambda>l. Inr (rb_count rb, rb\<lparr>rb_lock := spinlock_unlock l\<rparr>))"

definition ring_buffer_is_empty :: "ring_buffer \<Rightarrow> (bool \<times> ring_buffer) res" where
  "ring_buffer_is_empty rb = rbind (ring_buffer_count rb) (\<lambda>(c, rb'). Inr (c = 0, rb'))"

definition ring_buffer_is_full :: "ring_buffer \<Rightarrow> (bool \<times> ring_buffer) res" where
  "ring_buffer_is_full rb =
     rbind (ring_buffer_count rb) (\<lambda>(c, rb'). Inr (c \<ge> of_nat RING_BUFFER_SIZE, rb'))"

section \<open>Invariant and abstract value\<close>

definition rb_wf :: "ring_buffer \<Rightarrow> bool" where
  [inv_defs]: "rb_wf rb \<longleftrightarrow>
     unat (rb_head rb) < RING_BUFFER_SIZE \<and> unat (rb_tail rb) < RING_BUFFER_SIZE \<and>
     unat (rb_count rb) \<le> RING_BUFFER_SIZE \<and>
     (unat (rb_tail rb) + unat (rb_count rb)) mod RING_BUFFER_SIZE = unat (rb_head rb) \<and>
     lock_free (rb_lock rb)"

definition rb_list :: "ring_buffer \<Rightarrow> u8 list" where
  "rb_list rb = ring_slice RING_BUFFER_SIZE (rb_data rb) (unat (rb_tail rb)) (unat (rb_count rb))"

lemma length_rb_list [simp]: "length (rb_list rb) = unat (rb_count rb)"
  by (simp add: rb_list_def)

lemma unat_rb_next: "unat p < RING_BUFFER_SIZE \<Longrightarrow> unat (rb_next p) = (unat p + 1) mod RING_BUFFER_SIZE"
  by (simp add: rb_next_def unat_mod RING_BUFFER_SIZE_def unat_word_ariths)

lemma rb_put_frame [simp]:
  "rb_tail (rb_put bs rb) = rb_tail rb" "rb_count (rb_put bs rb) = rb_count rb"
  "rb_lock (rb_put bs rb) = rb_lock rb"
  by (induction bs arbitrary: rb) auto

lemma rb_get_frame [simp]:
  "rb_head (snd (rb_get n rb)) = rb_head rb" "rb_count (snd (rb_get n rb)) = rb_count rb"
  "rb_lock (snd (rb_get n rb)) = rb_lock rb" "rb_data (snd (rb_get n rb)) = rb_data rb"
  by (induction n arbitrary: rb) (auto simp: Let_def split_beta)

lemma rb_put_spec:
  assumes "unat (rb_head rb) = (t + n) mod RING_BUFFER_SIZE" "n + length bs \<le> RING_BUFFER_SIZE"
  shows "unat (rb_head (rb_put bs rb)) = (t + n + length bs) mod RING_BUFFER_SIZE \<and>
     ring_slice RING_BUFFER_SIZE (rb_data (rb_put bs rb)) t (n + length bs) = ring_slice RING_BUFFER_SIZE (rb_data rb) t n @ bs"
  using assms
proof (induction bs arbitrary: rb n)
  case (Cons b bs)
  let ?rb = "rb\<lparr>rb_data := (rb_data rb)(unat (rb_head rb) := b), rb_head := rb_next (rb_head rb)\<rparr>"
  have lt: "unat (rb_head rb) < RING_BUFFER_SIZE"
    using Cons.prems(1) by (simp add: RING_BUFFER_SIZE_def)
  have h: "unat (rb_head ?rb) = (t + Suc n) mod RING_BUFFER_SIZE"
    using Cons.prems(1) by (simp add: unat_rb_next [OF lt] mod_Suc_eq)
  have slice: "ring_slice RING_BUFFER_SIZE (rb_data ?rb) t (Suc n) = ring_slice RING_BUFFER_SIZE (rb_data rb) t n @ [b]"
    using Cons.prems ring_slice_upd [of n 0 RING_BUFFER_SIZE "rb_data rb" t b] by (simp add: ring_slice_snoc)
  have "Suc n + length bs \<le> RING_BUFFER_SIZE" using Cons.prems(2) by simp
  from Cons.IH [OF h this, unfolded slice] show ?case
    by (simp only: rb_put.simps list.size add_Suc_right add_Suc append_assoc append.simps add_0_right simp_thms)
qed simp

lemma rb_get_spec:
  assumes "unat (rb_tail rb) < RING_BUFFER_SIZE"
  shows "fst (rb_get n rb) = ring_slice RING_BUFFER_SIZE (rb_data rb) (unat (rb_tail rb)) n \<and>
     unat (rb_tail (snd (rb_get n rb))) = (unat (rb_tail rb) + n) mod RING_BUFFER_SIZE"
  using assms
proof (induction n arbitrary: rb)
  case (Suc n)
  let ?rb = "rb\<lparr>rb_tail := rb_next (rb_tail rb)\<rparr>"
  have t: "unat (rb_tail ?rb) = (unat (rb_tail rb) + 1) mod RING_BUFFER_SIZE"
    using Suc.prems by (simp add: unat_rb_next)
  then have "unat (rb_tail ?rb) < RING_BUFFER_SIZE" by (simp add: RING_BUFFER_SIZE_def)
  from Suc.IH [OF this] t Suc.prems show ?case
    by (simp add: Let_def split_beta ring_slice_Cons mod_add_left_eq add.assoc)
qed (simp add: ring_slice_def)

section \<open>The operations on the abstract value\<close>

lemma unat_size: "unat (of_nat RING_BUFFER_SIZE :: u32) = RING_BUFFER_SIZE"
  by (simp add: RING_BUFFER_SIZE_def)

lemma unat_available:
  "unat (rb_count rb) \<le> RING_BUFFER_SIZE \<Longrightarrow>
     unat (of_nat RING_BUFFER_SIZE - rb_count rb) = RING_BUFFER_SIZE - unat (rb_count rb)"
  by (subst unat_sub) (simp_all add: word_le_nat_alt unat_size)

lemma rb_wf_init [simp]: "rb_wf ring_buffer_init"
  by (simp add: rb_wf_def ring_buffer_init_def RING_BUFFER_SIZE_def)

lemma rb_list_init [simp]: "rb_list ring_buffer_init = []"
  by (simp add: rb_list_def ring_buffer_init_def ring_slice_def)

lemma write_null: "ring_buffer_write rb None len = Inr (-1, rb)"
  by (simp add: ring_buffer_write_def)

lemma write_full:
  assumes "rb_wf rb" "len \<noteq> 0" "RING_BUFFER_SIZE < unat (rb_count rb) + unat len"
  shows "ring_buffer_write rb (Some bs) len = Inr (-1, rb)"
proof -
  have "of_nat RING_BUFFER_SIZE - rb_count rb < len"
    using assms by (auto simp: word_less_nat_alt unat_available rb_wf_def)
  with assms show ?thesis by (simp add: ring_buffer_write_def rb_wf_def Let_def)
qed

lemma write_fits:
  assumes wf: "rb_wf rb" and len: "len \<noteq> 0" "unat len \<le> length bs"
    and fits: "unat (rb_count rb) + unat len \<le> RING_BUFFER_SIZE"
  shows "\<exists>rb'. ring_buffer_write rb (Some bs) len = Inr (int (unat len), rb') \<and> rb_wf rb' \<and>
     rb_list rb' = rb_list rb @ take (unat len) bs"
proof -
  let ?bs = "take (unat len) bs"
  let ?rb1 = "rb\<lparr>rb_lock := (rb_lock rb)\<lparr>locked := 1\<rparr>\<rparr>"
  let ?rb2 = "rb_put ?bs ?rb1"
  let ?rb3 = "?rb2\<lparr>rb_count := rb_count ?rb2 + len, rb_lock := spinlock_unlock (rb_lock rb)\<rparr>"
  have lbs: "length ?bs = unat len" using len(2) by simp
  have space: "\<not> of_nat RING_BUFFER_SIZE - rb_count rb < len"
    using assms by (simp add: word_less_nat_alt unat_available rb_wf_def)
  have cnt: "unat (rb_count rb + len) = unat (rb_count rb) + unat len"
    using fits by (intro unat_add_small) (simp add: RING_BUFFER_SIZE_def)
  have head: "unat (rb_head ?rb1) = (unat (rb_tail rb) + unat (rb_count rb)) mod RING_BUFFER_SIZE"
    using wf by (simp add: rb_wf_def)
  note put = rb_put_spec [OF head, of ?bs, unfolded lbs, OF fits]
  have "rb_wf ?rb3"
    using wf put cnt fits by (simp add: rb_wf_def add.assoc RING_BUFFER_SIZE_def)
  moreover have "rb_list ?rb3 = rb_list rb @ ?bs"
    using put cnt by (simp add: rb_list_def)
  moreover have "sint len = int (unat len)"
    using fits by (intro sint_small) (simp add: RING_BUFFER_SIZE_def)
  then have "ring_buffer_write rb (Some bs) len = Inr (int (unat len), ?rb3)"
    using wf len space by (simp add: ring_buffer_write_def rb_wf_def Let_def)
  ultimately show ?thesis by blast
qed

lemma read_nothing: "null_dst \<or> len = 0 \<Longrightarrow> ring_buffer_read rb null_dst len = Inr (-1, [], rb)"
  by (simp add: ring_buffer_read_def)

lemma read_spec:
  assumes wf: "rb_wf rb" and len: "len \<noteq> 0"
  defines "m \<equiv> min (unat len) (unat (rb_count rb))"
  shows "\<exists>rb'. ring_buffer_read rb False len = Inr (int m, take m (rb_list rb), rb') \<and> rb_wf rb' \<and>
     rb_list rb' = drop m (rb_list rb)"
proof -
  define n where "n = (if len > rb_count rb then rb_count rb else len)"
  have m: "unat n = m" by (simp add: n_def m_def word_less_nat_alt)
  have le: "m \<le> unat (rb_count rb)" by (simp add: m_def)
  let ?rb1 = "rb\<lparr>rb_lock := (rb_lock rb)\<lparr>locked := 1\<rparr>\<rparr>"
  let ?rb2 = "snd (rb_get m ?rb1)"
  let ?rb3 = "?rb2\<lparr>rb_count := rb_count ?rb2 - n, rb_lock := spinlock_unlock (rb_lock rb)\<rparr>"
  have tail: "unat (rb_tail ?rb1) < RING_BUFFER_SIZE" using wf by (simp add: rb_wf_def)
  note get = rb_get_spec [OF tail, of m]
  have cnt: "unat (rb_count rb - n) = unat (rb_count rb) - m"
    using le by (subst unat_sub) (simp_all add: word_le_nat_alt m)
  have split: "rb_list rb = ring_slice RING_BUFFER_SIZE (rb_data rb) (unat (rb_tail rb)) m @
      ring_slice RING_BUFFER_SIZE (rb_data rb) ((unat (rb_tail rb) + m) mod RING_BUFFER_SIZE) (unat (rb_count rb) - m)"
    using le by (simp add: rb_list_def flip: ring_slice_append)
  have "((unat (rb_tail rb) + m) mod RING_BUFFER_SIZE + (unat (rb_count rb) - m)) mod RING_BUFFER_SIZE
      = (unat (rb_tail rb) + unat (rb_count rb)) mod RING_BUFFER_SIZE"
    unfolding mod_add_left_eq using le by simp
  moreover have "(unat (rb_tail rb) + m) mod RING_BUFFER_SIZE < RING_BUFFER_SIZE"
    by (simp add: RING_BUFFER_SIZE_def)
  ultimately have "rb_wf ?rb3"
    using wf get cnt by (auto simp: rb_wf_def)
  moreover have "rb_list ?rb3 = drop m (rb_list rb)"
    using get cnt unfolding split by (simp add: rb_list_def)
  moreover have "sint n = int m"
    using m le wf by (subst sint_small) (simp_all add: RING_BUFFER_SIZE_def rb_wf_def)
  moreover have "fst (rb_get m ?rb1) = take m (rb_list rb)"
    using get unfolding split by simp
  ultimately have "ring_buffer_read rb False len = Inr (int m, take m (rb_list rb), ?rb3)"
    using wf len m
    by (cases "rb_count rb < len") (auto simp: ring_buffer_read_def rb_wf_def Let_def split_beta n_def)
  with \<open>rb_wf ?rb3\<close> \<open>rb_list ?rb3 = drop m (rb_list rb)\<close> show ?thesis by blast
qed

lemma count_spec: "rb_wf rb \<Longrightarrow> ring_buffer_count rb = Inr (rb_count rb, rb)"
  by (simp add: ring_buffer_count_def rb_wf_def)

lemma is_empty_spec: "rb_wf rb \<Longrightarrow> ring_buffer_is_empty rb = Inr (rb_list rb = [], rb)"
  by (simp add: ring_buffer_is_empty_def count_spec flip: length_0_conv) (simp add: unat_eq_zero)

lemma is_full_spec: "rb_wf rb \<Longrightarrow> ring_buffer_is_full rb = Inr (length (rb_list rb) = RING_BUFFER_SIZE, rb)"
  by (auto simp: ring_buffer_is_full_def count_spec word_le_nat_alt unat_size rb_wf_def)

section \<open>The byte queue a client sees\<close>

datatype queue_op = QWrite "u8 list" | QRead u32

text \<open>
  A run of writes and reads, with the bytes that were accepted and the bytes that were
  delivered, in order. A write that is refused (a negative status) contributes nothing.
\<close>

fun queue_run :: "('q \<Rightarrow> u8 list \<Rightarrow> (int \<times> 'q) res) \<Rightarrow> ('q \<Rightarrow> u32 \<Rightarrow> (int \<times> u8 list \<times> 'q) res) \<Rightarrow>
    queue_op list \<Rightarrow> 'q \<Rightarrow> (u8 list \<times> u8 list \<times> 'q) res" where
  "queue_run wr rd [] q = Inr ([], [], q)"
| "queue_run wr rd (QWrite bs # ops) q =
     rbind (wr q bs) (\<lambda>(st, q1). rbind (queue_run wr rd ops q1) (\<lambda>(acc, del, q2).
       Inr ((if st < 0 then [] else bs) @ acc, del, q2)))"
| "queue_run wr rd (QRead n # ops) q =
     rbind (rd q n) (\<lambda>(st, bs, q1). rbind (queue_run wr rd ops q1) (\<lambda>(acc, del, q2).
       Inr (acc, bs @ del, q2)))"

definition queue_op_ok :: "queue_op \<Rightarrow> bool" where
  "queue_op_ok op = (case op of QWrite bs \<Rightarrow> bs \<noteq> [] \<and> length bs < 2 ^ 32 | QRead n \<Rightarrow> n \<noteq> 0)"

locale byte_queue =
  fixes inv :: "'q \<Rightarrow> bool"
    and content :: "'q \<Rightarrow> u8 list"
    and capacity :: nat
    and wr :: "'q \<Rightarrow> u8 list \<Rightarrow> (int \<times> 'q) res"
    and rd :: "'q \<Rightarrow> u32 \<Rightarrow> (int \<times> u8 list \<times> 'q) res"
  assumes bounded: "inv q \<Longrightarrow> length (content q) \<le> capacity"
    and wr_fits: "inv q \<Longrightarrow> bs \<noteq> [] \<Longrightarrow> length (content q) + length bs \<le> capacity \<Longrightarrow>
      \<exists>q'. wr q bs = Inr (int (length bs), q') \<and> inv q' \<and> content q' = content q @ bs"
    and wr_full: "inv q \<Longrightarrow> bs \<noteq> [] \<Longrightarrow> length bs < 2 ^ 32 \<Longrightarrow>
      capacity < length (content q) + length bs \<Longrightarrow> wr q bs = Inr (-1, q)"
    and rd_prefix: "inv q \<Longrightarrow> n \<noteq> 0 \<Longrightarrow> \<exists>q'. rd q n =
      Inr (int (min (unat n) (length (content q))), take (unat n) (content q), q') \<and> inv q' \<and>
      content q' = drop (unat n) (content q)"
begin

lemma run_stream:
  assumes "inv q" "list_all queue_op_ok ops"
  shows "\<exists>acc del q'. queue_run wr rd ops q = Inr (acc, del, q') \<and> inv q' \<and>
     content q @ acc = del @ content q'"
  using assms
proof (induction ops arbitrary: q)
  case (Cons op ops)
  show ?case
  proof (cases op)
    case (QWrite bs)
    with Cons.prems have bs: "bs \<noteq> []" "length bs < 2 ^ 32" by (auto simp: queue_op_ok_def)
    show ?thesis
    proof (cases "length (content q) + length bs \<le> capacity")
      case True
      from wr_fits [OF Cons.prems(1) bs(1) True] obtain q1
        where q1: "wr q bs = Inr (int (length bs), q1)" "inv q1" "content q1 = content q @ bs" by blast
      from Cons.IH [OF q1(2)] Cons.prems(2) obtain acc del q2
        where "queue_run wr rd ops q1 = Inr (acc, del, q2)" "inv q2" "content q1 @ acc = del @ content q2"
        by auto
      with q1 QWrite show ?thesis by simp
    next
      case False
      then have "wr q bs = Inr (-1, q)" using wr_full [OF Cons.prems(1) bs] by simp
      with Cons.IH [OF Cons.prems(1)] Cons.prems(2) QWrite show ?thesis by auto
    qed
  next
    case (QRead n)
    with Cons.prems have "n \<noteq> 0" by (simp add: queue_op_ok_def)
    from rd_prefix [OF Cons.prems(1) this] obtain st q1
      where q1: "rd q n = Inr (st, take (unat n) (content q), q1)" "inv q1"
        "content q1 = drop (unat n) (content q)" by blast
    from Cons.IH [OF q1(2)] Cons.prems(2) obtain acc del q2
      where q2: "queue_run wr rd ops q1 = Inr (acc, del, q2)" "inv q2" "content q1 @ acc = del @ content q2"
      by auto
    have "content q @ acc = (take (unat n) (content q) @ del) @ content q2"
      unfolding append_assoc q2(3) [symmetric] q1(3) by simp
    with q1 q2 QRead show ?thesis by simp
  qed
qed simp

end

text \<open>The ring buffer provides that interface, with the length of the data as its third argument.\<close>

definition rb_write_all :: "ring_buffer \<Rightarrow> u8 list \<Rightarrow> (int \<times> ring_buffer) res" where
  "rb_write_all rb bs = ring_buffer_write rb (Some bs) (of_nat (length bs))"

definition rb_read_upto :: "ring_buffer \<Rightarrow> u32 \<Rightarrow> (int \<times> u8 list \<times> ring_buffer) res" where
  "rb_read_upto rb n = ring_buffer_read rb False n"

lemma len_word: "length (bs :: u8 list) < 2 ^ 32 \<Longrightarrow> unat (of_nat (length bs) :: u32) = length bs"
  by (simp add: unat_of_nat)

interpretation rbq: byte_queue rb_wf rb_list RING_BUFFER_SIZE rb_write_all rb_read_upto
proof
  fix q bs assume wf: "rb_wf q" and ne: "(bs :: u8 list) \<noteq> []"
    and fits: "length (rb_list q) + length bs \<le> RING_BUFFER_SIZE"
  then have len: "unat (of_nat (length bs) :: u32) = length bs"
    by (intro len_word) (simp add: RING_BUFFER_SIZE_def)
  then have nz: "of_nat (length bs) \<noteq> (0 :: u32)" using ne by (auto simp flip: unat_eq_zero)
  show "\<exists>q'. rb_write_all q bs = Inr (int (length bs), q') \<and> rb_wf q' \<and> rb_list q' = rb_list q @ bs"
    using write_fits [OF wf nz, of bs] fits len by (simp add: rb_write_all_def)
next
  fix q bs assume wf: "rb_wf q" and ne: "(bs :: u8 list) \<noteq> []" and lt: "length bs < 2 ^ 32"
    and over: "RING_BUFFER_SIZE < length (rb_list q) + length bs"
  have nz: "of_nat (length bs) \<noteq> (0 :: u32)" using ne len_word [OF lt] by (auto simp flip: unat_eq_zero)
  show "rb_write_all q bs = Inr (-1, q)"
    using write_full [OF wf nz] over len_word [OF lt] by (simp add: rb_write_all_def)
next
  fix q and n :: u32 assume wf: "rb_wf q" and nz: "n \<noteq> 0"
  show "\<exists>q'. rb_read_upto q n = Inr (int (min (unat n) (length (rb_list q))), take (unat n) (rb_list q), q') \<and>
      rb_wf q' \<and> rb_list q' = drop (unat n) (rb_list q)"
    using read_spec [OF wf nz] by (cases "unat n \<le> unat (rb_count q)") (simp_all add: rb_read_upto_def)
qed (simp add: rb_wf_def)

end
