(* ===== verification/Ipc.thy ===== *)
theory Ipc
  imports RingBuffer
begin

text \<open>
  Pipes and message queues, \<^verbatim>\<open>src/services/ipc.c\<close>: a table of 32 pipes, each a ring
  buffer with two descriptors, and a table of 16 message queues, each a circular array of 16
  messages of at most 256 bytes.
\<close>

section \<open>Data\<close>

definition IPC_MAX_PIPES :: nat where "IPC_MAX_PIPES = 32"
definition IPC_MAX_MSGQS :: nat where "IPC_MAX_MSGQS = 16"
definition IPC_MAX_MSG_SIZE :: nat where "IPC_MAX_MSG_SIZE = 256"

record pipe =
  p_used :: int
  p_read_end :: int
  p_write_end :: int
  p_buffer :: ring_buffer
  p_lock :: spinlock

text \<open>\<open>mq_messages i j\<close> is byte \<open>j\<close> of slot \<open>i\<close>.\<close>

record msg_queue =
  mq_used :: int
  mq_key :: u32
  mq_messages :: "nat \<Rightarrow> nat \<Rightarrow> u8"
  mq_msg_lens :: "nat \<Rightarrow> u32"
  mq_head :: u32
  mq_tail :: u32
  mq_count :: u32
  mq_lock :: spinlock

record ipc_state =
  pipes :: "pipe list"
  msg_queues :: "msg_queue list"

definition zero_pipe :: pipe where
  "zero_pipe = \<lparr>p_used = 0, p_read_end = 0, p_write_end = 0, p_buffer = ring_buffer_init,
     p_lock = spinlock_init\<rparr>"

definition zero_msg_queue :: msg_queue where
  "zero_msg_queue = \<lparr>mq_used = 0, mq_key = 0, mq_messages = (\<lambda>_ _. 0), mq_msg_lens = (\<lambda>_. 0),
     mq_head = 0, mq_tail = 0, mq_count = 0, mq_lock = spinlock_init\<rparr>"

definition ipc_init :: ipc_state where
  "ipc_init = \<lparr>pipes = replicate IPC_MAX_PIPES zero_pipe,
     msg_queues = replicate IPC_MAX_MSGQS zero_msg_queue\<rparr>"

section \<open>Pipes\<close>

definition claim_pipe :: "unit \<Rightarrow> nat \<Rightarrow> pipe \<Rightarrow> pipe" where
  "claim_pipe u i p = p\<lparr>p_used := 1, p_buffer := ring_buffer_init, p_lock := spinlock_init,
     p_read_end := int i + 100, p_write_end := int i + 200\<rparr>"

abbreviation pipe_used :: "pipe \<Rightarrow> bool" where
  "pipe_used p \<equiv> p_used p \<noteq> 0"

text \<open>The status, the two descriptors stored in \<open>pipefd\<close> on success, and the new state.\<close>

definition pipe_create :: "bool \<Rightarrow> ipc_state \<Rightarrow> int \<times> (int \<times> int) option \<times> ipc_state" where
  "pipe_create null_fds s =
     (if null_fds then (-1, None, s)
      else case slot_alloc pipe_used (claim_pipe ()) (pipes s) of
             None \<Rightarrow> (-1, None, s)
           | Some (i, ps) \<Rightarrow> (0, Some (p_read_end (ps ! i), p_write_end (ps ! i)), s\<lparr>pipes := ps\<rparr>))"

definition find_pipe_by_fd :: "pipe list \<Rightarrow> int \<Rightarrow> nat option" where
  "find_pipe_by_fd ps fd = first_idx (\<lambda>p. pipe_used p \<and> (p_read_end p = fd \<or> p_write_end p = fd)) ps"

definition set_pipe :: "nat \<Rightarrow> pipe \<Rightarrow> ipc_state \<Rightarrow> ipc_state" where
  "set_pipe i p s = s\<lparr>pipes := (pipes s)[i := p]\<rparr>"

definition pipe_write :: "int \<Rightarrow> u8 list option \<Rightarrow> u32 \<Rightarrow> ipc_state \<Rightarrow> (int \<times> ipc_state) res" where
  "pipe_write fd data len s =
     (case find_pipe_by_fd (pipes s) fd of
        None \<Rightarrow> Inr (-1, s)
      | Some i \<Rightarrow>
          let p = pipes s ! i in
          if data = None \<or> len = 0 then Inr (-1, s)
          else if p_write_end p \<noteq> fd then Inr (-1, s)
          else rbind (ring_buffer_write (p_buffer p) data len) (\<lambda>(st, rb).
                 Inr (st, set_pipe i (p\<lparr>p_buffer := rb\<rparr>) s)))"

definition pipe_read :: "int \<Rightarrow> bool \<Rightarrow> u32 \<Rightarrow> ipc_state \<Rightarrow> (int \<times> u8 list \<times> ipc_state) res" where
  "pipe_read fd null_dst len s =
     (case find_pipe_by_fd (pipes s) fd of
        None \<Rightarrow> Inr (-1, [], s)
      | Some i \<Rightarrow>
          let p = pipes s ! i in
          if null_dst \<or> len = 0 then Inr (-1, [], s)
          else if p_read_end p \<noteq> fd then Inr (-1, [], s)
          else rbind (ring_buffer_read (p_buffer p) null_dst len) (\<lambda>(st, bs, rb).
                 Inr (st, bs, set_pipe i (p\<lparr>p_buffer := rb\<rparr>) s)))"

definition pipe_close :: "int \<Rightarrow> ipc_state \<Rightarrow> int \<times> ipc_state" where
  "pipe_close fd s =
     (case find_pipe_by_fd (pipes s) fd of
        None \<Rightarrow> (-1, s)
      | Some i \<Rightarrow>
          let p0 = pipes s ! i;
              p1 = (if p_read_end p0 = fd then p0\<lparr>p_read_end := -1\<rparr> else p0);
              p2 = (if p_write_end p1 = fd then p1\<lparr>p_write_end := -1\<rparr> else p1);
              p3 = (if p_read_end p2 < 0 \<and> p_write_end p2 < 0 then p2\<lparr>p_used := 0\<rparr> else p2)
          in (0, set_pipe i p3 s))"

section \<open>Message queues\<close>

abbreviation msgq_used :: "msg_queue \<Rightarrow> bool" where
  "msgq_used q \<equiv> mq_used q \<noteq> 0"

definition claim_msgq :: "u32 \<Rightarrow> nat \<Rightarrow> msg_queue \<Rightarrow> msg_queue" where
  "claim_msgq key i q = q\<lparr>mq_used := 1, mq_key := key, mq_head := 0, mq_tail := 0, mq_count := 0,
     mq_lock := spinlock_init\<rparr>"

definition msgq_create :: "u32 \<Rightarrow> ipc_state \<Rightarrow> int \<times> ipc_state" where
  "msgq_create key s =
     (case slot_alloc msgq_used (claim_msgq key) (msg_queues s) of
        None \<Rightarrow> (-1, s)
      | Some (i, qs) \<Rightarrow> (int i, s\<lparr>msg_queues := qs\<rparr>))"

definition msgq_valid :: "int \<Rightarrow> ipc_state \<Rightarrow> bool" where
  "msgq_valid msqid s \<longleftrightarrow> 0 \<le> msqid \<and> msqid < int IPC_MAX_MSGQS \<and> msgq_used (msg_queues s ! nat msqid)"

definition set_msgq :: "int \<Rightarrow> msg_queue \<Rightarrow> ipc_state \<Rightarrow> ipc_state" where
  "set_msgq i q s = s\<lparr>msg_queues := (msg_queues s)[nat i := q]\<rparr>"

definition mq_next :: "u32 \<Rightarrow> u32" where
  "mq_next p = (p + 1) mod of_nat IPC_MAX_MSGQS"

text \<open>\<open>mq_store\<close> is the \<^verbatim>\<open>memcpy\<close> into slot \<open>idx\<close>: the first bytes change, the rest stay.\<close>

definition mq_store :: "u8 list \<Rightarrow> (nat \<Rightarrow> u8) \<Rightarrow> nat \<Rightarrow> u8" where
  "mq_store bs old j = (if j < length bs then bs ! j else old j)"

definition msgq_put :: "u8 list \<Rightarrow> u32 \<Rightarrow> msg_queue \<Rightarrow> msg_queue" where
  "msgq_put bs len q =
     (let idx = unat (mq_head q) in
      q\<lparr>mq_messages := (mq_messages q)(idx := mq_store (take (unat len) bs) (mq_messages q idx)),
        mq_msg_lens := (mq_msg_lens q)(idx := len),
        mq_head := mq_next (mq_head q), mq_count := mq_count q + 1\<rparr>)"

definition msgq_send :: "int \<Rightarrow> u8 list option \<Rightarrow> u32 \<Rightarrow> ipc_state \<Rightarrow> (int \<times> ipc_state) res" where
  "msgq_send msqid msg len s =
     (if \<not> msgq_valid msqid s then Inr (-1, s)
      else case msg of None \<Rightarrow> Inr (-1, s)
      | Some bs \<Rightarrow>
        if len = 0 \<or> len > of_nat IPC_MAX_MSG_SIZE then Inr (-1, s)
        else let q = msg_queues s ! nat msqid in
          rbind (spinlock_lock (mq_lock q)) (\<lambda>l.
            if mq_count q \<ge> of_nat IPC_MAX_MSGQS
            then Inr (-1, set_msgq msqid (q\<lparr>mq_lock := spinlock_unlock l\<rparr>) s)
            else if length bs < unat len then Inl Fault
            else Inr (0, set_msgq msqid ((msgq_put bs len q)\<lparr>mq_lock := spinlock_unlock l\<rparr>) s)))"

definition msgq_recv :: "int \<Rightarrow> bool \<Rightarrow> u32 \<Rightarrow> ipc_state \<Rightarrow> (int \<times> u8 list \<times> ipc_state) res" where
  "msgq_recv msqid null_dst max_len s =
     (if \<not> msgq_valid msqid s then Inr (-1, [], s)
      else if null_dst \<or> max_len = 0 then Inr (-1, [], s)
      else let q = msg_queues s ! nat msqid in
        rbind (spinlock_lock (mq_lock q)) (\<lambda>l.
          if mq_count q = 0 then Inr (-1, [], set_msgq msqid (q\<lparr>mq_lock := spinlock_unlock l\<rparr>) s)
          else let idx = unat (mq_tail q);
                   len0 = mq_msg_lens q idx;
                   len = (if len0 > max_len then max_len else len0);
                   bs = map (mq_messages q idx) [0..<unat len];
                   q' = q\<lparr>mq_tail := mq_next (mq_tail q), mq_count := mq_count q - 1,
                          mq_lock := spinlock_unlock l\<rparr>
               in Inr (sint len, bs, set_msgq msqid q' s)))"

definition msgq_destroy :: "int \<Rightarrow> ipc_state \<Rightarrow> int \<times> ipc_state" where
  "msgq_destroy msqid s =
     (if msqid < 0 \<or> msqid \<ge> int IPC_MAX_MSGQS then (-1, s)
      else (0, set_msgq msqid ((msg_queues s ! nat msqid)\<lparr>mq_used := 0\<rparr>) s))"

section \<open>Invariants\<close>

text \<open>
  A live pipe at index \<open>i\<close> has its own two descriptors or -1 for an end that was closed, never
  two closed ends, and a well-formed buffer.
\<close>

definition pipe_wf :: "nat \<Rightarrow> pipe \<Rightarrow> bool" where
  [inv_defs]: "pipe_wf i p \<longleftrightarrow> (pipe_used p \<longrightarrow>
     p_read_end p \<in> {-1, int i + 100} \<and> p_write_end p \<in> {-1, int i + 200} \<and>
     (p_read_end p \<noteq> -1 \<or> p_write_end p \<noteq> -1) \<and> rb_wf (p_buffer p))"

definition msgq_wf :: "msg_queue \<Rightarrow> bool" where
  [inv_defs]: "msgq_wf q \<longleftrightarrow> (msgq_used q \<longrightarrow>
     unat (mq_head q) < IPC_MAX_MSGQS \<and> unat (mq_tail q) < IPC_MAX_MSGQS \<and>
     unat (mq_count q) \<le> IPC_MAX_MSGQS \<and>
     (unat (mq_tail q) + unat (mq_count q)) mod IPC_MAX_MSGQS = unat (mq_head q) \<and>
     (\<forall>k < unat (mq_count q). unat (mq_msg_lens q ((unat (mq_tail q) + k) mod IPC_MAX_MSGQS)) \<le> IPC_MAX_MSG_SIZE) \<and>
     lock_free (mq_lock q))"

definition ipc_wf :: "ipc_state \<Rightarrow> bool" where
  [inv_defs]: "ipc_wf s \<longleftrightarrow>
     table_ok pipe_wf IPC_MAX_PIPES (pipes s) \<and> table_ok (\<lambda>_. msgq_wf) IPC_MAX_MSGQS (msg_queues s)"

text \<open>The messages of a queue, oldest first.\<close>

definition mq_slot :: "msg_queue \<Rightarrow> nat \<Rightarrow> u8 list" where
  "mq_slot q i = map (mq_messages q i) [0..<unat (mq_msg_lens q i)]"

definition mq_list :: "msg_queue \<Rightarrow> u8 list list" where
  "mq_list q = ring_slice IPC_MAX_MSGQS (mq_slot q) (unat (mq_tail q)) (unat (mq_count q))"

interpretation pipe_slots: slot_table pipe_used claim_pipe
  by unfold_locales (simp add: claim_pipe_def)

interpretation msgq_slots: slot_table msgq_used claim_msgq
  by unfold_locales (simp add: claim_msgq_def)

section \<open>Pipes: descriptors and streams\<close>

lemmas ipc_consts = IPC_MAX_PIPES_def IPC_MAX_MSGQS_def IPC_MAX_MSG_SIZE_def

lemma ipc_wf_init [simp]: "ipc_wf ipc_init"
  by (simp add: ipc_wf_def ipc_init_def table_ok_replicate pipe_wf_def msgq_wf_def zero_pipe_def zero_msg_queue_def)

lemma ipc_wf_set_pipe:
  "ipc_wf s \<Longrightarrow> pipe_wf i p \<Longrightarrow> ipc_wf (set_pipe i p s)"
  by (simp add: ipc_wf_def set_pipe_def table_ok_update)

lemma pipe_wf_buffer: "pipe_wf i p \<Longrightarrow> rb_wf rb \<Longrightarrow> pipe_wf i (p\<lparr>p_buffer := rb\<rparr>)"
  by (simp add: pipe_wf_def)

lemma find_pipe_SomeD:
  assumes "ipc_wf s" "find_pipe_by_fd (pipes s) fd = Some i"
  shows "i < IPC_MAX_PIPES" "pipe_used (pipes s ! i)" "pipe_wf i (pipes s ! i)"
    "p_read_end (pipes s ! i) = fd \<or> p_write_end (pipes s ! i) = fd"
  using assms by (auto simp: find_pipe_by_fd_def first_idx_Some_iff ipc_wf_def table_ok_def)

text \<open>A non-negative descriptor belongs to at most one pipe, whatever the others hold.\<close>

lemma find_pipe_owner:
  assumes wf: "ipc_wf s" and i: "i < IPC_MAX_PIPES" "pipe_used (pipes s ! i)"
    and fd: "p_read_end (pipes s ! i) = fd \<or> p_write_end (pipes s ! i) = fd" "0 \<le> fd"
  shows "find_pipe_by_fd (pipes s) fd = Some i"
  unfolding find_pipe_by_fd_def
proof (rule first_idx_SomeI)
  have own: "fd = int i + 100 \<or> fd = int i + 200"
    using assms by (auto simp: ipc_wf_def pipe_wf_def dest: table_ok_nth)
  show "\<forall>j<i. \<not> (pipe_used (pipes s ! j) \<and> (p_read_end (pipes s ! j) = fd \<or> p_write_end (pipes s ! j) = fd))"
  proof (intro allI impI notI)
    fix j assume j: "j < i" and hit: "pipe_used (pipes s ! j) \<and> (p_read_end (pipes s ! j) = fd \<or> p_write_end (pipes s ! j) = fd)"
    with i(1) have "j < IPC_MAX_PIPES" by simp
    with wf have "pipe_wf j (pipes s ! j)" by (auto simp: ipc_wf_def dest: table_ok_nth)
    with hit fd(2) have "fd = int j + 100 \<or> fd = int j + 200" by (auto simp: pipe_wf_def)
    with own j i(1) show False by (auto simp: IPC_MAX_PIPES_def)
  qed
qed (use assms in \<open>auto simp: ipc_wf_def table_ok_length\<close>)

text \<open>Pipe \<open>i\<close> is live with both ends open; its stream is the content of its buffer.\<close>

definition pipe_open :: "nat \<Rightarrow> ipc_state \<Rightarrow> bool" where
  "pipe_open i s \<longleftrightarrow> ipc_wf s \<and> i < IPC_MAX_PIPES \<and> pipe_used (pipes s ! i) \<and>
     p_read_end (pipes s ! i) = int i + 100 \<and> p_write_end (pipes s ! i) = int i + 200"

definition pipe_stream :: "nat \<Rightarrow> ipc_state \<Rightarrow> u8 list" where
  "pipe_stream i s = rb_list (p_buffer (pipes s ! i))"

lemma pipe_open_wf: "pipe_open i s \<Longrightarrow> rb_wf (p_buffer (pipes s ! i))"
  by (auto simp: pipe_open_def ipc_wf_def pipe_wf_def dest: table_ok_nth)

lemma pipe_open_find:
  assumes "pipe_open i s"
  shows "find_pipe_by_fd (pipes s) (int i + 100) = Some i" "find_pipe_by_fd (pipes s) (int i + 200) = Some i"
  using assms by (auto intro!: find_pipe_owner simp: pipe_open_def)

lemma pipe_open_set_buffer:
  assumes "pipe_open i s" "rb_wf rb"
  shows "pipe_open i (set_pipe i ((pipes s ! i)\<lparr>p_buffer := rb\<rparr>) s)"
    and "pipe_stream i (set_pipe i ((pipes s ! i)\<lparr>p_buffer := rb\<rparr>) s) = rb_list rb"
  using assms
  by (auto simp: pipe_open_def pipe_stream_def set_pipe_def ipc_wf_def table_ok_length
      intro!: table_ok_update pipe_wf_buffer dest: table_ok_nth)

lemma pipe_write_open:
  assumes "pipe_open i s" "data \<noteq> None" "len \<noteq> 0"
  shows "pipe_write (int i + 200) data len s =
    rbind (ring_buffer_write (p_buffer (pipes s ! i)) data len) (\<lambda>(st, rb).
      Inr (st, set_pipe i ((pipes s ! i)\<lparr>p_buffer := rb\<rparr>) s))"
  using assms pipe_open_find [OF assms(1)] by (auto simp: pipe_write_def pipe_open_def Let_def)

lemma pipe_read_open:
  assumes "pipe_open i s" "len \<noteq> 0"
  shows "pipe_read (int i + 100) False len s =
    rbind (ring_buffer_read (p_buffer (pipes s ! i)) False len) (\<lambda>(st, bs, rb).
      Inr (st, bs, set_pipe i ((pipes s ! i)\<lparr>p_buffer := rb\<rparr>) s))"
  using assms pipe_open_find [OF assms(1)] by (simp add: pipe_read_def pipe_open_def Let_def)

text \<open>The ends of an open pipe as a byte queue.\<close>

definition pipe_put :: "nat \<Rightarrow> ipc_state \<Rightarrow> u8 list \<Rightarrow> (int \<times> ipc_state) res" where
  "pipe_put i s bs = pipe_write (int i + 200) (Some bs) (of_nat (length bs)) s"

definition pipe_take :: "nat \<Rightarrow> ipc_state \<Rightarrow> u32 \<Rightarrow> (int \<times> u8 list \<times> ipc_state) res" where
  "pipe_take i s n = pipe_read (int i + 100) False n s"

interpretation pipe_queue: byte_queue "pipe_open i" "pipe_stream i" RING_BUFFER_SIZE "pipe_put i" "pipe_take i"
  for i
proof
  fix q assume "pipe_open i q"
  then show "length (pipe_stream i q) \<le> RING_BUFFER_SIZE"
    using rbq.bounded [OF pipe_open_wf] by (simp add: pipe_stream_def)
next
  fix q bs assume o: "pipe_open i q" and ne: "(bs :: u8 list) \<noteq> []"
    and fits: "length (pipe_stream i q) + length bs \<le> RING_BUFFER_SIZE"
  have nz: "of_nat (length bs) \<noteq> (0 :: u32)"
    using fits ne len_word [of bs] by (auto simp: RING_BUFFER_SIZE_def simp flip: unat_eq_zero)
  from rbq.wr_fits [OF pipe_open_wf [OF o] ne] fits obtain rb where
    rb: "rb_write_all (p_buffer (pipes q ! i)) bs = Inr (int (length bs), rb)" "rb_wf rb"
      "rb_list rb = rb_list (p_buffer (pipes q ! i)) @ bs"
    unfolding pipe_stream_def by blast
  then show "\<exists>q'. pipe_put i q bs = Inr (int (length bs), q') \<and> pipe_open i q' \<and> pipe_stream i q' = pipe_stream i q @ bs"
    using pipe_open_set_buffer [OF o rb(2)] pipe_write_open [OF o _ nz]
    by (simp add: pipe_put_def pipe_stream_def rb_write_all_def)
next
  fix q bs assume o: "pipe_open i q" and ne: "(bs :: u8 list) \<noteq> []" and lt: "length bs < 2 ^ 32"
    and over: "RING_BUFFER_SIZE < length (pipe_stream i q) + length bs"
  have nz: "of_nat (length bs) \<noteq> (0 :: u32)" using ne len_word [OF lt] by (auto simp flip: unat_eq_zero)
  have "rb_write_all (p_buffer (pipes q ! i)) bs = Inr (-1, p_buffer (pipes q ! i))"
    using rbq.wr_full [OF pipe_open_wf [OF o] ne lt] over by (simp add: pipe_stream_def)
  then show "pipe_put i q bs = Inr (-1, q)"
    using pipe_write_open [OF o _ nz] by (simp add: pipe_put_def rb_write_all_def set_pipe_def)
next
  fix q and n :: u32 assume o: "pipe_open i q" and nz: "n \<noteq> 0"
  from rbq.rd_prefix [OF pipe_open_wf [OF o] nz] obtain rb where
    rb: "rb_read_upto (p_buffer (pipes q ! i)) n =
        Inr (int (min (unat n) (length (pipe_stream i q))), take (unat n) (pipe_stream i q), rb)"
      "rb_wf rb" "rb_list rb = drop (unat n) (pipe_stream i q)"
    unfolding pipe_stream_def by blast
  then show "\<exists>q'. pipe_take i q n = Inr (int (min (unat n) (length (pipe_stream i q))), take (unat n) (pipe_stream i q), q') \<and>
      pipe_open i q' \<and> pipe_stream i q' = drop (unat n) (pipe_stream i q)"
    using pipe_open_set_buffer [OF o rb(2)] pipe_read_open [OF o nz]
    by (simp add: pipe_take_def rb_read_upto_def)
qed


text \<open>The remaining operations keep the invariant too.\<close>

lemma pipe_create_wf:
  assumes wf: "ipc_wf s" and c: "pipe_create n s = (st, fds, s')"
  shows "ipc_wf s'"
proof -
  have ok: "ipc_wf (s\<lparr>pipes := ps\<rparr>)" if "slot_alloc pipe_used (claim_pipe ()) (pipes s) = Some (i, ps)" for i ps
  proof -
    have "pipe_wf i (claim_pipe () i p)" for p by (simp add: claim_pipe_def pipe_wf_def)
    with pipe_slots.alloc_SomeD [OF that] wf show ?thesis by (simp add: ipc_wf_def table_ok_update)
  qed
  with wf c show ?thesis by (auto simp: pipe_create_def split: if_splits option.splits)
qed

lemma pipe_create_open:
  assumes wf: "ipc_wf s" and c: "pipe_create False s = (0, Some (r, w), s')"
  shows "\<exists>i. r = int i + 100 \<and> w = int i + 200 \<and> pipe_open i s' \<and> pipe_stream i s' = [] \<and>
    \<not> pipe_used (pipes s ! i)"
proof -
  from c obtain i ps where a: "slot_alloc pipe_used (claim_pipe ()) (pipes s) = Some (i, ps)"
    and s': "s' = s\<lparr>pipes := ps\<rparr>" and fds: "r = p_read_end (ps ! i)" "w = p_write_end (ps ! i)"
    by (auto simp: pipe_create_def split: option.splits)
  from pipe_slots.alloc_frame [OF a] pipe_slots.alloc_SomeD [OF a] wf pipe_create_wf [OF wf c]
  show ?thesis
    by (auto simp: s' fds pipe_open_def pipe_stream_def claim_pipe_def ipc_wf_def table_ok_length)
qed

lemma pipe_close_wf: "ipc_wf s \<Longrightarrow> ipc_wf (snd (pipe_close fd s))"
proof (cases "find_pipe_by_fd (pipes s) fd")
  case (Some i)
  assume wf: "ipc_wf s"
  note p = find_pipe_SomeD [OF wf Some]
  show ?thesis
    unfolding pipe_close_def Some option.case Let_def snd_conv
    by (rule ipc_wf_set_pipe [OF wf]) (use p in \<open>auto simp: pipe_wf_def\<close>)
qed (simp add: pipe_close_def)

section \<open>Message queues: first in, first out\<close>

lemma unat_mq_next: "unat p < IPC_MAX_MSGQS \<Longrightarrow> unat (mq_next p) = (unat p + 1) mod IPC_MAX_MSGQS"
  by (simp add: mq_next_def unat_mod IPC_MAX_MSGQS_def unat_word_ariths)

lemma mq_slot_put:
  assumes "unat len \<le> length bs"
  shows "mq_slot (msgq_put bs len q) = (mq_slot q)(unat (mq_head q) := take (unat len) bs)"
proof
  fix i show "mq_slot (msgq_put bs len q) i = ((mq_slot q)(unat (mq_head q) := take (unat len) bs)) i"
    using assms by (auto simp: mq_slot_def msgq_put_def Let_def mq_store_def intro!: nth_equalityI)
qed

lemma msgq_put_spec:
  assumes wf: "msgq_wf q" and u: "msgq_used q" and room: "unat (mq_count q) < IPC_MAX_MSGQS"
    and len: "unat len \<le> IPC_MAX_MSG_SIZE" "unat len \<le> length bs"
  shows "msgq_wf (msgq_put bs len q)" "mq_list (msgq_put bs len q) = mq_list q @ [take (unat len) bs]"
proof -
  let ?t = "unat (mq_tail q)" and ?n = "unat (mq_count q)"
  have head: "(?t + ?n) mod IPC_MAX_MSGQS = unat (mq_head q)" using wf u by (simp add: msgq_wf_def)
  have cnt: "unat (mq_count q + 1) = Suc ?n"
    using room by (subst unat_Suc_word) (simp_all add: IPC_MAX_MSGQS_def)
  have hn: "unat (mq_next (mq_head q)) = (?t + Suc ?n) mod IPC_MAX_MSGQS"
    using wf u by (simp add: unat_mq_next msgq_wf_def mod_Suc_eq flip: head)
  show "mq_list (msgq_put bs len q) = mq_list q @ [take (unat len) bs]"
    using cnt ring_slice_push [OF room, of "mq_slot q" ?t "take (unat len) bs"]
    by (simp add: mq_list_def mq_slot_put [OF len(2)] head) (simp add: msgq_put_def Let_def)
  have lens: "unat (mq_msg_lens (msgq_put bs len q) ((?t + k) mod IPC_MAX_MSGQS)) \<le> IPC_MAX_MSG_SIZE"
    if "k < Suc ?n" for k
    using that wf u len(1) head by (cases "k = ?n") (auto simp: msgq_wf_def msgq_put_def Let_def)
  have "(?t + Suc ?n) mod IPC_MAX_MSGQS < IPC_MAX_MSGQS" by (simp add: IPC_MAX_MSGQS_def)
  with lens show "msgq_wf (msgq_put bs len q)"
    using wf u room cnt hn unfolding msgq_wf_def
    by (simp add: msgq_put_def Let_def del: fun_upd_apply)
qed

lemma msgq_wf_lock: "msgq_wf q \<Longrightarrow> lock_free l \<Longrightarrow> msgq_wf (q\<lparr>mq_lock := l\<rparr>)"
  by (simp add: msgq_wf_def)

lemma mq_list_lock [simp]: "mq_list (q\<lparr>mq_lock := l\<rparr>) = mq_list q"
  by (simp add: mq_list_def mq_slot_def [abs_def])

lemma ipc_wf_msgq: "ipc_wf s \<Longrightarrow> msgq_valid i s \<Longrightarrow> msgq_wf (msg_queues s ! nat i)"
  by (auto simp: ipc_wf_def msgq_valid_def dest: table_ok_nth [where i = "nat i"])

lemma ipc_wf_set_msgq: "ipc_wf s \<Longrightarrow> msgq_wf q \<Longrightarrow> ipc_wf (set_msgq i q s)"
  by (simp add: ipc_wf_def set_msgq_def table_ok_update)

lemma msgq_valid_length: "ipc_wf s \<Longrightarrow> msgq_valid i s \<Longrightarrow> nat i < length (msg_queues s)"
  by (auto simp: ipc_wf_def msgq_valid_def nat_less_iff dest: table_ok_length)

lemma set_msgq_get [simp]:
  "nat i < length (msg_queues s) \<Longrightarrow> msg_queues (set_msgq i q s) ! nat i = q"
  by (simp add: set_msgq_def)

lemma send_spec:
  assumes wf: "ipc_wf s" and v: "msgq_valid i s" and len: "len \<noteq> 0" "unat len \<le> IPC_MAX_MSG_SIZE" "unat len \<le> length bs"
    and room: "length (mq_list (msg_queues s ! nat i)) < IPC_MAX_MSGQS"
  shows "\<exists>s'. msgq_send i (Some bs) len s = Inr (0, s') \<and> ipc_wf s' \<and> msgq_valid i s' \<and>
    mq_list (msg_queues s' ! nat i) = mq_list (msg_queues s ! nat i) @ [take (unat len) bs]"
proof -
  let ?q = "msg_queues s ! nat i"
  let ?q' = "(msgq_put bs len ?q)\<lparr>mq_lock := spinlock_unlock (mq_lock ?q)\<rparr>"
  have q: "msgq_wf ?q" "msgq_used ?q" "lock_free (mq_lock ?q)"
    using ipc_wf_msgq [OF wf v] v by (auto simp: msgq_valid_def msgq_wf_def)
  have room': "unat (mq_count ?q) < IPC_MAX_MSGQS" using room by (simp add: mq_list_def)
  note put = msgq_put_spec [OF q(1,2) room' len(2,3)]
  have nl: "\<not> len > of_nat IPC_MAX_MSG_SIZE" using len(2) by (simp add: word_less_nat_alt IPC_MAX_MSG_SIZE_def)
  have nf: "\<not> mq_count ?q \<ge> of_nat IPC_MAX_MSGQS" using room' by (simp add: word_le_nat_alt IPC_MAX_MSGQS_def)
  have "msgq_send i (Some bs) len s = Inr (0, set_msgq i ?q' s)"
    using v len q nl nf by (simp add: msgq_send_def Let_def)
  moreover have "ipc_wf (set_msgq i ?q' s)" using put(1) by (intro ipc_wf_set_msgq wf msgq_wf_lock) auto
  moreover have "mq_used ?q' = mq_used ?q" by (simp add: msgq_put_def Let_def)
  ultimately show ?thesis using msgq_valid_length [OF wf v] put(2) v by (simp add: msgq_valid_def)
qed

lemma recv_spec:
  assumes wf: "ipc_wf s" and v: "msgq_valid i s" and ne: "mq_list (msg_queues s ! nat i) = m # ms" and max: "max_len \<noteq> 0"
  shows "\<exists>s'. msgq_recv i False max_len s = Inr (int (min (length m) (unat max_len)), take (unat max_len) m, s') \<and>
    ipc_wf s' \<and> msgq_valid i s' \<and> mq_list (msg_queues s' ! nat i) = ms"
proof -
  let ?q = "msg_queues s ! nat i"
  let ?t = "unat (mq_tail ?q)" and ?n = "unat (mq_count ?q)"
  define len where "len = (if mq_msg_lens ?q ?t > max_len then max_len else mq_msg_lens ?q ?t)"
  let ?q' = "?q\<lparr>mq_tail := mq_next (mq_tail ?q), mq_count := mq_count ?q - 1, mq_lock := spinlock_unlock (mq_lock ?q)\<rparr>"
  have q: "msgq_wf ?q" "msgq_used ?q" "lock_free (mq_lock ?q)" "?t < IPC_MAX_MSGQS"
    using ipc_wf_msgq [OF wf v] v by (auto simp: msgq_valid_def msgq_wf_def)
  have n: "0 < ?n" using ne by (cases ?n) (auto simp: mq_list_def)
  have nz: "mq_count ?q \<noteq> 0" using n by auto
  have cnt: "unat (mq_count ?q - 1) = ?n - 1"
    using n by (subst unat_sub) (simp_all add: word_le_nat_alt)
  have tn: "unat (mq_next (mq_tail ?q)) = (?t + 1) mod IPC_MAX_MSGQS" using q by (simp add: unat_mq_next)
  have m: "mq_slot ?q ?t = m" using ne ring_slice_hd [OF q(4) n, of "mq_slot ?q"] by (simp add: mq_list_def)
  have "mq_list ?q' = tl (mq_list ?q)"
    using cnt tn ring_slice_pop [OF q(4) n, of "mq_slot ?q"] by (simp add: mq_list_def mq_slot_def [abs_def])
  then have ms: "mq_list ?q' = ms" using ne by simp
  have lenm: "length m = unat (mq_msg_lens ?q ?t)" using m by (auto simp: mq_slot_def)
  have b: "unat (mq_msg_lens ?q ?t) \<le> IPC_MAX_MSG_SIZE"
    using q n by (force simp: msgq_wf_def)
  have len: "unat len = min (length m) (unat max_len)" by (auto simp: len_def lenm word_less_nat_alt)
  then have bytes: "map (mq_messages ?q ?t) [0..<unat len] = take (unat max_len) m"
    using lenm by (simp add: take_map mq_slot_def min_def flip: m)
  have sl: "sint len = int (min (length m) (unat max_len))"
    using len lenm b by (subst sint_small) (auto simp: IPC_MAX_MSG_SIZE_def min_def)
  have "msgq_recv i False max_len s = Inr (sint len, map (mq_messages ?q ?t) [0..<unat len], set_msgq i ?q' s)"
    using v max q nz by (simp add: msgq_recv_def Let_def len_def)
  moreover have "msgq_wf ?q'"
  proof -
    have lt: "(?t + 1) mod IPC_MAX_MSGQS < IPC_MAX_MSGQS" by (simp add: IPC_MAX_MSGQS_def)
    have hd: "((?t + 1) mod IPC_MAX_MSGQS + (?n - 1)) mod IPC_MAX_MSGQS = unat (mq_head ?q)"
      unfolding mod_add_left_eq using n q(1,2) by (simp add: msgq_wf_def)
    have lens: "unat (mq_msg_lens ?q (((?t + 1) mod IPC_MAX_MSGQS + k) mod IPC_MAX_MSGQS)) \<le> IPC_MAX_MSG_SIZE"
      if "k < ?n - 1" for k
    proof -
      have "((?t + 1) mod IPC_MAX_MSGQS + k) mod IPC_MAX_MSGQS = (?t + Suc k) mod IPC_MAX_MSGQS"
        unfolding mod_add_left_eq by simp
      moreover have "Suc k < ?n" using that by simp
      ultimately show ?thesis using q(1,2) unfolding msgq_wf_def by metis
    qed
    have "?n - 1 \<le> IPC_MAX_MSGQS" "unat (mq_head ?q) < IPC_MAX_MSGQS"
      using q(1,2) le_trans [OF diff_le_self [of ?n 1]] by (simp_all add: msgq_wf_def)
    with lt hd lens show ?thesis unfolding msgq_wf_def by (simp add: cnt tn)
  qed
  ultimately show ?thesis
    using ms v msgq_valid_length [OF wf v] ipc_wf_set_msgq [OF wf, of ?q' i] bytes sl
    by (auto simp: msgq_valid_def)
qed

section \<open>Properties\<close>

lemma create_init: "pipe_create False ipc_init =
    (0, Some (100, 200), ipc_init\<lparr>pipes := (pipes ipc_init)[0 := claim_pipe () 0 zero_pipe]\<rparr>)"
proof -
  have "first_idx (\<lambda>e. \<not> pipe_used e) (pipes ipc_init) = Some 0"
    by (rule first_idx_SomeI) (simp_all add: ipc_init_def IPC_MAX_PIPES_def zero_pipe_def)
  then show ?thesis
    by (simp add: pipe_create_def slot_alloc_def) (simp add: ipc_init_def IPC_MAX_PIPES_def claim_pipe_def)
qed

text \<open>
  C15. A pipe is a reliable byte stream. From the moment \<open>pipe_create\<close> returns the two
  descriptors, any sequence of writes to the write end and reads from the read end runs to
  completion, never deadlocks on the buffer's lock, and delivers exactly the accepted bytes, in
  order: what was delivered followed by what is still buffered is what was accepted.
\<close>

theorem pipe_stream_fifo:
  assumes "ipc_wf s" and "pipe_create False s = (0, Some (r, w), s1)" and "list_all queue_op_ok ops"
  shows "\<exists>i acc del s2. r = int i + 100 \<and> w = int i + 200 \<and>
    queue_run (pipe_put i) (pipe_take i) ops s1 = Inr (acc, del, s2) \<and>
    ipc_wf s2 \<and> acc = del @ pipe_stream i s2"
proof -
  from pipe_create_open [OF assms(1,2)] obtain i where
    i: "r = int i + 100" "w = int i + 200" "pipe_open i s1" "pipe_stream i s1 = []" by blast
  from pipe_queue.run_stream [OF i(3) assms(3)] i show ?thesis by (auto simp: pipe_open_def)
qed

theorem pipe_stream_fifo_witness:
  "\<exists>i acc del s2. (100 :: int) = int i + 100 \<and> (200 :: int) = int i + 200 \<and>
    queue_run (pipe_put i) (pipe_take i) [QWrite [1, 2, 3], QRead 2]
      (ipc_init\<lparr>pipes := (pipes ipc_init)[0 := claim_pipe () 0 zero_pipe]\<rparr>) = Inr (acc, del, s2) \<and>
    ipc_wf s2 \<and> acc = del @ pipe_stream i s2"
  by (rule pipe_stream_fifo [OF ipc_wf_init create_init]) (simp add: queue_op_ok_def)

text \<open>
  C37. Message queues are first in, first out. Sending a message of at most 256 bytes to a
  queue that is not full appends it; the next receive removes the oldest message and returns
  its first \<open>max_len\<close> bytes, so a short receive drops the rest of that message and nothing else.
\<close>

theorem msgq_send_recv_fifo:
  assumes "ipc_wf s" "msgq_valid i s" "len \<noteq> 0" "unat len \<le> IPC_MAX_MSG_SIZE" "unat len \<le> length bs"
    and "length (mq_list (msg_queues s ! nat i)) < IPC_MAX_MSGQS" "max_len \<noteq> 0"
  shows "\<exists>s1 s2 m ms. msgq_send i (Some bs) len s = Inr (0, s1) \<and>
    mq_list (msg_queues s ! nat i) @ [take (unat len) bs] = m # ms \<and>
    msgq_recv i False max_len s1 = Inr (int (min (length m) (unat max_len)), take (unat max_len) m, s2) \<and>
    ipc_wf s2 \<and> mq_list (msg_queues s2 ! nat i) = ms"
proof -
  from send_spec [OF assms(1-6)] obtain s1 where
    s1: "msgq_send i (Some bs) len s = Inr (0, s1)" "ipc_wf s1" "msgq_valid i s1"
      "mq_list (msg_queues s1 ! nat i) = mq_list (msg_queues s ! nat i) @ [take (unat len) bs]" by blast
  then obtain m ms where m: "mq_list (msg_queues s1 ! nat i) = m # ms"
    by (metis append_is_Nil_conv list.distinct(1) neq_Nil_conv)
  from recv_spec [OF s1(2,3) m assms(7)] s1 m show ?thesis by metis
qed

definition one_queue :: ipc_state where
  "one_queue = ipc_init\<lparr>msg_queues := (msg_queues ipc_init)[0 := claim_msgq 7 0 zero_msg_queue]\<rparr>"

lemma one_queue_ok: "ipc_wf one_queue" "msgq_valid 0 one_queue" "mq_list (msg_queues one_queue ! 0) = []"
proof -
  have "msgq_wf (claim_msgq 7 0 zero_msg_queue)"
    by (simp add: msgq_wf_def claim_msgq_def zero_msg_queue_def IPC_MAX_MSGQS_def)
  then show "ipc_wf one_queue" using ipc_wf_init by (simp add: ipc_wf_def one_queue_def table_ok_update)
qed (simp_all add: msgq_valid_def one_queue_def ipc_init_def IPC_MAX_MSGQS_def claim_msgq_def mq_list_def)

theorem msgq_send_recv_fifo_witness:
  "\<exists>s1 s2 m ms. msgq_send 0 (Some [10, 20, 30]) 3 one_queue = Inr (0, s1) \<and>
    mq_list (msg_queues one_queue ! nat 0) @ [take (unat (3 :: u32)) [10, 20, 30]] = m # ms \<and>
    msgq_recv 0 False 2 s1 = Inr (int (min (length m) (unat (2 :: u32))), take (unat (2 :: u32)) m, s2) \<and>
    ipc_wf s2 \<and> mq_list (msg_queues s2 ! nat 0) = ms"
  by (rule msgq_send_recv_fifo)
    (simp_all add: one_queue_ok IPC_MAX_MSG_SIZE_def IPC_MAX_MSGQS_def)

text \<open>
  Descriptor -1 aliases a closed read end. After the read end of an open pipe is closed,
  \<open>pipe_read\<close> on that descriptor fails, but \<open>pipe_read(-1, ...)\<close> on the same state still
  finds a pipe through the -1 that \<open>pipe_close\<close> stored, and returns that pipe's bytes.
\<close>

theorem pipe_read_minus_one_aliases:
  assumes "pipe_open i s" "\<forall>j < IPC_MAX_PIPES. j \<noteq> i \<longrightarrow> \<not> pipe_used (pipes s ! j)" "len \<noteq> 0"
  shows "\<exists>s1 st bs s2. pipe_close (int i + 100) s = (0, s1) \<and>
    pipe_read (int i + 100) False len s1 = Inr (-1, [], s1) \<and>
    pipe_read (-1) False len s1 = Inr (st, bs, s2) \<and> bs = take (unat len) (pipe_stream i s)"
proof -
  let ?p = "(pipes s ! i)\<lparr>p_read_end := -1\<rparr>"
  let ?s1 = "set_pipe i ?p s"
  have i: "i < IPC_MAX_PIPES" "pipe_used (pipes s ! i)" "p_read_end (pipes s ! i) = int i + 100"
    "p_write_end (pipes s ! i) = int i + 200" "length (pipes s) = IPC_MAX_PIPES"
    using assms(1) by (auto simp: pipe_open_def ipc_wf_def dest: table_ok_length)
  have close: "pipe_close (int i + 100) s = (0, ?s1)"
    using pipe_open_find [OF assms(1)] i by (simp add: pipe_close_def Let_def)
  have nth: "pipes ?s1 ! j = (if j = i then ?p else pipes s ! j)" if "j < IPC_MAX_PIPES" for j
    using that i by (simp add: set_pipe_def nth_list_update)
  have "\<not> (pipe_used (pipes ?s1 ! j) \<and> (p_read_end (pipes ?s1 ! j) = int i + 100 \<or> p_write_end (pipes ?s1 ! j) = int i + 100))"
    if "j < IPC_MAX_PIPES" for j
    using assms(2) i nth [OF that] that by (cases "j = i") auto
  moreover have "length (pipes ?s1) = IPC_MAX_PIPES" using i(5) by (simp add: set_pipe_def)
  ultimately have none: "find_pipe_by_fd (pipes ?s1) (int i + 100) = None"
    unfolding find_pipe_by_fd_def first_idx_None_iff by (metis in_set_conv_nth)
  have some: "find_pipe_by_fd (pipes ?s1) (-1) = Some i"
    unfolding find_pipe_by_fd_def
    by (rule first_idx_SomeI) (use assms(2) i nth in \<open>auto simp: set_pipe_def\<close>)
  from read_spec [OF pipe_open_wf [OF assms(1)] assms(3)] obtain rb where
    "ring_buffer_read (p_buffer (pipes s ! i)) False len =
       Inr (int (min (unat len) (unat (rb_count (p_buffer (pipes s ! i))))), take (unat len) (pipe_stream i s), rb)"
    by (cases "unat len \<le> unat (rb_count (p_buffer (pipes s ! i)))") (auto simp: pipe_stream_def)
  with some nth [OF i(1)] assms(3) have
    "\<exists>st s2. pipe_read (-1) False len ?s1 = Inr (st, take (unat len) (pipe_stream i s), s2)"
    by (simp add: pipe_read_def Let_def)
  moreover have "pipe_read (int i + 100) False len ?s1 = Inr (-1, [], ?s1)"
    using none by (simp add: pipe_read_def)
  ultimately show ?thesis using close by blast
qed

definition first_pipe :: ipc_state where
  "first_pipe = ipc_init\<lparr>pipes := (pipes ipc_init)[0 := claim_pipe () 0 zero_pipe]\<rparr>"

theorem pipe_read_minus_one_aliases_witness:
  "\<exists>s1 st bs s2. pipe_close (int 0 + 100) first_pipe = (0, s1) \<and>
    pipe_read (int 0 + 100) False 4 s1 = Inr (-1, [], s1) \<and>
    pipe_read (-1) False 4 s1 = Inr (st, bs, s2) \<and> bs = take (unat (4 :: u32)) (pipe_stream 0 first_pipe)"
proof (rule pipe_read_minus_one_aliases)
  show "pipe_open 0 first_pipe"
    using pipe_create_wf [OF ipc_wf_init create_init]
    by (simp add: pipe_open_def first_pipe_def) (simp add: ipc_init_def IPC_MAX_PIPES_def claim_pipe_def)
qed (simp_all add: first_pipe_def ipc_init_def zero_pipe_def nth_list_update)

end
