(* ===== verification/Pmm.thy ===== *)
theory Pmm
  imports Prelude
begin

text \<open>
  The physical page allocator of \<^verbatim>\<open>src/kernel/memory.c\<close>: a bump pointer and two
  counters. The end of the kernel image, which the linker provides, is an argument of
  \<open>memory_init\<close>.
\<close>

section \<open>Data and operations\<close>

definition PAGE_SIZE :: u64 where "PAGE_SIZE = 4096"
definition TOTAL_MEMORY :: u64 where "TOTAL_MEMORY = 128 * 1024 * 1024"

record memory_map =
  total_memory :: u64
  usable_memory :: u64
  next_free_page :: u64
  total_pages :: u64
  free_pages :: u64

definition memory_init :: "u64 \<Rightarrow> memory_map" where
  "memory_init kernel_end =
     (let total = TOTAL_MEMORY; usable = total; pages = usable div PAGE_SIZE in
      \<lparr>total_memory = total, usable_memory = usable,
       next_free_page = (kernel_end + PAGE_SIZE - 1) AND NOT (PAGE_SIZE - 1),
       total_pages = pages, free_pages = pages\<rparr>)"

definition pmm_alloc_page :: "memory_map \<Rightarrow> addr \<times> memory_map" where
  "pmm_alloc_page m =
     (if free_pages m = 0 then (0, m)
      else (next_free_page m,
            m\<lparr>next_free_page := next_free_page m + PAGE_SIZE, free_pages := free_pages m - 1\<rparr>))"

definition pmm_free_page :: "addr \<Rightarrow> memory_map \<Rightarrow> memory_map" where
  "pmm_free_page a m =
     (if a \<ge> next_free_page m then m\<lparr>free_pages := free_pages m + 1\<rparr> else m)"

text \<open>The self-test: \<open>None\<close> when an allocation failed, otherwise whether it passed.\<close>

definition test_memory_allocator :: "memory_map \<Rightarrow> bool option \<times> memory_map" where
  "test_memory_allocator m =
     (let (page1, m1) = pmm_alloc_page m; (page2, m2) = pmm_alloc_page m1; (page3, m3) = pmm_alloc_page m2
      in if page1 = 0 \<or> page2 = 0 \<or> page3 = 0 then (None, m3)
         else if page2 = page1 + PAGE_SIZE \<and> page3 = page2 + PAGE_SIZE
         then (Some True, pmm_free_page page3 (pmm_free_page page2 (pmm_free_page page1 m3)))
         else (Some False, m3))"

text \<open>\<open>n\<close> allocations in a row.\<close>

fun pmm_alloc_pages :: "nat \<Rightarrow> memory_map \<Rightarrow> addr list \<times> memory_map" where
  "pmm_alloc_pages 0 m = ([], m)"
| "pmm_alloc_pages (Suc n) m =
     (let (a, m1) = pmm_alloc_page m; (as, m2) = pmm_alloc_pages n m1 in (a # as, m2))"

section \<open>Alignment and distinctness\<close>

lemma and_not_mask: "w AND NOT (4095 :: u64) = w - w mod 4096"
proof -
  have m: "w AND 4095 = w mod 4096"
    using take_bit_eq_mask [of 12 w] take_bit_eq_mod [of 12 w] by (simp add: mask_eq_exp_minus_1)
  have "(w AND NOT 4095) + (w AND 4095) = (w AND NOT 4095) OR (w AND 4095)"
    by (rule disjunctive_add_eq_or) (rule bit_eqI, auto simp: bit_simps)
  also have "\<dots> = w" by (rule bit_eqI) (auto simp: bit_simps)
  finally show ?thesis using m by (metis add_diff_cancel_right')
qed

lemma unat_page_size [simp]: "unat PAGE_SIZE = 4096"
  by (simp add: PAGE_SIZE_def)

lemma memory_init_next:
  assumes "unat kernel_end + 4095 < 2 ^ 64"
  shows "unat (next_free_page (memory_init kernel_end)) = (unat kernel_end + 4095) div 4096 * 4096"
proof -
  let ?w = "kernel_end + 4095"
  have w: "unat ?w = unat kernel_end + 4095" using assms by (subst unat_add_small) simp_all
  have "next_free_page (memory_init kernel_end) = ?w - ?w mod 4096"
    by (simp add: memory_init_def Let_def PAGE_SIZE_def add.commute flip: and_not_mask)
  moreover have "unat (?w - ?w mod 4096) = unat ?w - unat ?w mod 4096"
    by (subst unat_sub) (simp_all add: word_le_nat_alt unat_mod)
  ultimately show ?thesis by (simp add: w minus_mod_eq_div_mult)
qed

text \<open>
  The allocator is well formed while the bump pointer is page-aligned and non-zero and the
  pages that are left cannot carry it past the end of the address space.
\<close>

definition pmm_wf :: "memory_map \<Rightarrow> bool" where
  [inv_defs]: "pmm_wf m \<longleftrightarrow> 4096 dvd unat (next_free_page m) \<and> 0 < unat (next_free_page m) \<and>
     unat (next_free_page m) + 4096 * unat (free_pages m) < 2 ^ 64"

lemma pmm_alloc_cases:
  assumes "pmm_wf m"
  shows "if free_pages m = 0 then pmm_alloc_page m = (0, m)
    else fst (pmm_alloc_page m) = next_free_page m \<and> pmm_wf (snd (pmm_alloc_page m)) \<and>
      unat (next_free_page (snd (pmm_alloc_page m))) = unat (next_free_page m) + 4096 \<and>
      unat (free_pages (snd (pmm_alloc_page m))) = unat (free_pages m) - 1"
proof (cases "free_pages m = 0")
  case False
  then have fp: "0 < unat (free_pages m)" by (simp add: unat_gt_0)
  have sub: "unat (free_pages m - 1) = unat (free_pages m) - 1"
    using fp by (subst unat_sub) (simp_all add: word_le_nat_alt)
  have add: "unat (next_free_page m + PAGE_SIZE) = unat (next_free_page m) + 4096"
    using assms fp by (subst unat_add_small) (auto simp: pmm_wf_def)
  from assms fp sub add False show ?thesis
    by (auto simp: pmm_alloc_page_def pmm_wf_def)
qed (simp add: pmm_alloc_page_def)

lemma pmm_alloc_wf: "pmm_wf m \<Longrightarrow> pmm_wf (snd (pmm_alloc_page m))"
  using pmm_alloc_cases [of m] by (cases "free_pages m = 0") auto

lemma pmm_alloc_nonzero: "pmm_wf m \<Longrightarrow> fst (pmm_alloc_page m) = 0 \<longleftrightarrow> free_pages m = 0"
  by (auto simp: pmm_alloc_page_def pmm_wf_def)

lemma pmm_alloc_pages_spec:
  assumes "pmm_wf m" "n \<le> unat (free_pages m)"
  shows "map unat (fst (pmm_alloc_pages n m)) = map (\<lambda>k. unat (next_free_page m) + 4096 * k) [0..<n] \<and>
    pmm_wf (snd (pmm_alloc_pages n m)) \<and>
    unat (free_pages (snd (pmm_alloc_pages n m))) = unat (free_pages m) - n \<and>
    unat (next_free_page (snd (pmm_alloc_pages n m))) = unat (next_free_page m) + 4096 * n"
  using assms
proof (induction n arbitrary: m)
  case (Suc n)
  obtain a m1 where a: "pmm_alloc_page m = (a, m1)" by (cases "pmm_alloc_page m")
  from Suc.prems have "free_pages m \<noteq> 0" by auto
  with pmm_alloc_cases [OF Suc.prems(1)] a have
    m1: "a = next_free_page m" "pmm_wf m1" "unat (next_free_page m1) = unat (next_free_page m) + 4096"
      "unat (free_pages m1) = unat (free_pages m) - 1" by auto
  have "map (\<lambda>k. unat (next_free_page m) + 4096 * k) [0..<Suc n] =
      unat (next_free_page m) # map (\<lambda>k. unat (next_free_page m) + 4096 + 4096 * k) [0..<n]"
    by (simp add: map_upt_Suc add.assoc del: upt_Suc)
  with Suc.IH [OF m1(2)] Suc.prems(2) a m1 show ?case by (auto simp: Let_def split_beta)
qed simp

lemma pmm_free_allocated: "a < next_free_page m \<Longrightarrow> pmm_free_page a m = m"
  by (simp add: pmm_free_page_def)

lemma memory_init_wf:
  assumes "0 < unat kernel_end" "unat kernel_end \<le> 2 ^ 63"
  shows "pmm_wf (memory_init kernel_end)"
proof -
  have b: "unat kernel_end \<le> 9223372036854775808" using assms(2) by simp
  have n: "unat (next_free_page (memory_init kernel_end)) = (unat kernel_end + 4095) div 4096 * 4096"
    by (rule memory_init_next) (use b in simp)
  have f: "unat (free_pages (memory_init kernel_end)) = 32768"
    by (simp add: memory_init_def Let_def TOTAL_MEMORY_def PAGE_SIZE_def unat_div)
  have "(unat kernel_end + 4095) div 4096 * 4096 \<le> unat kernel_end + 4095" by (rule div_times_less_eq_dividend)
  moreover have "0 < (unat kernel_end + 4095) div 4096" using assms(1) by (simp add: div_greater_zero_iff)
  ultimately show ?thesis using b by (simp add: pmm_wf_def n f)
qed

section \<open>Properties\<close>

text \<open>
  Every page handed out is page-aligned, non-null and distinct from all others: from a
  well-formed allocator, \<open>n\<close> allocations with at least \<open>n\<close> pages left return consecutive
  page addresses, and the allocator stays well formed.
\<close>

theorem pmm_pages_disjoint:
  assumes "0 < unat kernel_end" "unat kernel_end \<le> 2 ^ 63" "n \<le> 32768"
  shows "let as = fst (pmm_alloc_pages n (memory_init kernel_end)) in
    length as = n \<and> distinct as \<and> 0 \<notin> set as \<and>
    (\<forall>k < n. 4096 dvd unat (as ! k) \<and> unat kernel_end \<le> unat (as ! k)) \<and>
    (\<forall>j k. j < k \<longrightarrow> k < n \<longrightarrow> unat (as ! j) + 4096 \<le> unat (as ! k))"
proof -
  let ?m = "memory_init kernel_end"
  let ?as = "fst (pmm_alloc_pages n ?m)"
  have wf: "pmm_wf ?m" using assms by (intro memory_init_wf)
  have "unat (free_pages ?m) = 32768"
    by (simp add: memory_init_def Let_def TOTAL_MEMORY_def PAGE_SIZE_def unat_div)
  with assms(3) pmm_alloc_pages_spec [OF wf, of n]
  have eq: "map unat ?as = map (\<lambda>k. unat (next_free_page ?m) + 4096 * k) [0..<n]" by simp
  from arg_cong [OF eq, of length] have len: "length ?as = n" by simp
  have nth: "unat (?as ! k) = unat (next_free_page ?m) + 4096 * k" if "k < n" for k
    using arg_cong [OF eq, of "\<lambda>xs. xs ! k"] that len by simp
  have "distinct (map unat ?as)" unfolding eq by (simp add: distinct_map inj_on_def)
  then have d: "distinct ?as" by (simp add: distinct_map)
  have ge: "unat kernel_end \<le> unat (next_free_page ?m)"
    using memory_init_next [of kernel_end] assms(2) by simp
  have al: "4096 dvd unat (next_free_page ?m)" using wf by (simp add: pmm_wf_def)
  have "unat (?as ! k) \<noteq> 0" if "k < n" for k using nth [OF that] ge assms(1) by linarith
  then have "0 \<notin> set ?as" using len by (metis in_set_conv_nth unat_0)
  with len d nth ge al show ?thesis by (auto simp: Let_def)
qed

theorem pmm_pages_disjoint_witness:
  "let as = fst (pmm_alloc_pages 3 (memory_init 0x123456)) in
    length as = 3 \<and> distinct as \<and> 0 \<notin> set as \<and>
    (\<forall>k < 3. 4096 dvd unat (as ! k) \<and> unat (0x123456 :: u64) \<le> unat (as ! k)) \<and>
    (\<forall>j k. j < k \<longrightarrow> k < 3 \<longrightarrow> unat (as ! j) + 4096 \<le> unat (as ! k))"
  by (rule pmm_pages_disjoint) simp_all

text \<open>
  Freeing never gives a page back. A page that was allocated lies below the bump pointer,
  and \<open>pmm_free_page\<close> ignores every such address: the allocator is the same before and after.
\<close>

theorem pmm_free_is_lost:
  assumes "pmm_wf m" "free_pages m \<noteq> 0" "pmm_alloc_page m = (a, m1)"
  shows "pmm_free_page a m1 = m1"
proof (rule pmm_free_allocated)
  have "a = next_free_page m" "unat (next_free_page m1) = unat (next_free_page m) + 4096"
    using pmm_alloc_cases [OF assms(1)] assms(2,3) by auto
  then show "a < next_free_page m1" by (simp add: word_less_nat_alt)
qed

theorem pmm_free_is_lost_witness:
  "pmm_free_page 0x200000 (snd (pmm_alloc_page (memory_init 0x200000))) = snd (pmm_alloc_page (memory_init 0x200000))"
proof (rule pmm_free_is_lost)
  show "pmm_wf (memory_init 0x200000)" by (rule memory_init_wf) simp_all
qed (simp_all add: memory_init_def Let_def TOTAL_MEMORY_def PAGE_SIZE_def pmm_alloc_page_def)

end
