(* ===== verification/Heap.thy ===== *)
theory Heap
  imports Pmm Spinlock
begin

text \<open>
  The kernel heap of \<^verbatim>\<open>src/kernel/heap.c\<close>: 16-byte blocks, a bitmap with one bit per
  block, and a header in front of every allocation. Memory is typed: the bytes of the bitmap
  and the headers at their addresses are separate maps, so that the model says what the
  allocator itself reads and writes; the payload of an allocation belongs to its owner.
\<close>

section \<open>Data\<close>

definition HEAP_BLOCK_SIZE :: u64 where "HEAP_BLOCK_SIZE = 16"
definition HEAP_BITMAP_SIZE :: nat where "HEAP_BITMAP_SIZE = 8192"
definition HEAP_ALLOC_MAGIC :: u32 where "HEAP_ALLOC_MAGIC = 0xC0DEC0DE"

record heap_alloc_header =
  h_magic :: u32
  h_blocks :: u32
  h_requested_size :: u64

definition HEADER_SIZE :: u64 where "HEADER_SIZE = 16"

text \<open>
  \<open>hp_bitmap\<close> holds the bytes at the address \<open>hp_bitmap_ptr\<close>, \<open>hp_headers a\<close> the header
  stored at address \<open>a\<close>.
\<close>

record heap =
  hp_bitmap_ptr :: addr
  hp_bitmap :: "nat \<Rightarrow> u8"
  total_blocks :: u64
  used_blocks :: u64
  peak_used_blocks :: u64
  heap_start :: u64
  heap_size :: u64
  alloc_count :: u64
  free_count :: u64
  failed_allocations :: u64
  invalid_frees :: u64
  hp_lock :: spinlock
  hp_headers :: "addr \<Rightarrow> heap_alloc_header"

record heap_stats =
  st_total_blocks :: u64
  st_used_blocks :: u64
  st_peak_used_blocks :: u64
  st_alloc_count :: u64
  st_free_count :: u64
  st_failed_allocations :: u64
  st_invalid_frees :: u64

section \<open>The bitmap\<close>

definition bm_test :: "(nat \<Rightarrow> u8) \<Rightarrow> nat \<Rightarrow> bool" where
  "bm_test bm i \<longleftrightarrow> bm (i div 8) AND push_bit (i mod 8) 1 \<noteq> 0"

definition bm_set :: "(nat \<Rightarrow> u8) \<Rightarrow> nat \<Rightarrow> nat \<Rightarrow> u8" where
  "bm_set bm i = bm(i div 8 := bm (i div 8) OR push_bit (i mod 8) 1)"

definition bm_clear :: "(nat \<Rightarrow> u8) \<Rightarrow> nat \<Rightarrow> nat \<Rightarrow> u8" where
  "bm_clear bm i = bm(i div 8 := bm (i div 8) AND NOT (push_bit (i mod 8) 1))"

section \<open>Operations\<close>

definition KERNEL_HEAP_START :: u64 where "KERNEL_HEAP_START = 0x00800000"
definition KERNEL_HEAP_SIZE :: u64 where "KERNEL_HEAP_SIZE = 0x01000000"

text \<open>The static heap structure before \<open>heap_init\<close>, zeroed like all static storage.\<close>

definition kernel_heap :: heap where
  "kernel_heap = \<lparr>hp_bitmap_ptr = 0, hp_bitmap = (\<lambda>_. 0), total_blocks = 0, used_blocks = 0,
     peak_used_blocks = 0, heap_start = 0, heap_size = 0, alloc_count = 0, free_count = 0,
     failed_allocations = 0, invalid_frees = 0, hp_lock = spinlock_init,
     hp_headers = (\<lambda>_. \<lparr>h_magic = 0, h_blocks = 0, h_requested_size = 0\<rparr>)\<rparr>"

definition heap_init :: "u64 \<Rightarrow> u64 \<Rightarrow> heap \<Rightarrow> memory_map \<Rightarrow> heap \<times> memory_map" where
  "heap_init start_addr sz h m =
     (let h1 = h\<lparr>heap_start := start_addr, heap_size := sz, total_blocks := sz div HEAP_BLOCK_SIZE,
                used_blocks := 0, peak_used_blocks := 0, alloc_count := 0, free_count := 0,
                failed_allocations := 0, invalid_frees := 0\<rparr>;
          (page, m1) = pmm_alloc_page m;
          h2 = h1\<lparr>hp_bitmap_ptr := page\<rparr>
      in if page = 0 then (h2, m1)
         else (h2\<lparr>hp_bitmap := (\<lambda>i. if i < HEAP_BITMAP_SIZE then 0 else hp_bitmap h2 i),
                  hp_lock := spinlock_init\<rparr>, m1))"

text \<open>
  The search loop of \<open>kmalloc\<close> from block \<open>i\<close> on, with \<open>n\<close> blocks left to look at,
  \<open>consecutive_free\<close> and \<open>start_block\<close>.
\<close>

fun heap_scan :: "(nat \<Rightarrow> u8) \<Rightarrow> nat \<Rightarrow> nat \<Rightarrow> nat \<Rightarrow> nat \<Rightarrow> nat \<Rightarrow> nat option" where
  "heap_scan bm needed i 0 consecutive start = None"
| "heap_scan bm needed i (Suc n) consecutive start =
     (if \<not> bm_test bm i then
        (let start' = (if consecutive = 0 then i else start) in
         if consecutive + 1 = needed then Some start'
         else heap_scan bm needed (i + 1) n (consecutive + 1) start')
      else heap_scan bm needed (i + 1) n 0 start)"

fun bm_mark :: "nat \<Rightarrow> nat \<Rightarrow> (nat \<Rightarrow> u8) \<Rightarrow> nat \<Rightarrow> u8" where
  "bm_mark start 0 bm = bm"
| "bm_mark start (Suc n) bm = bm_mark (start + 1) n (bm_set bm start)"

definition block_addr :: "heap \<Rightarrow> nat \<Rightarrow> addr" where
  "block_addr h b = heap_start h + of_nat b * HEAP_BLOCK_SIZE"

definition kmalloc :: "u64 \<Rightarrow> heap \<Rightarrow> (addr \<times> heap) res" where
  "kmalloc sz h =
     (if sz = 0 then Inr (0, h)
      else let total_size = sz + HEADER_SIZE in
        if total_size < sz then Inr (0, h\<lparr>failed_allocations := failed_allocations h + 1\<rparr>)
        else let blocks_needed = (total_size + HEAP_BLOCK_SIZE - 1) div HEAP_BLOCK_SIZE in
          rbind (spinlock_lock (hp_lock h)) (\<lambda>l.
            case heap_scan (hp_bitmap h) (unat blocks_needed) 0 (unat (total_blocks h)) 0 0 of
              None \<Rightarrow> Inr (0, h\<lparr>hp_lock := spinlock_unlock l,
                              failed_allocations := failed_allocations h + 1\<rparr>)
            | Some start_block \<Rightarrow>
                let used = used_blocks h + blocks_needed;
                    header = block_addr h start_block
                in Inr (header + HEADER_SIZE,
                     h\<lparr>hp_bitmap := bm_mark start_block (unat blocks_needed) (hp_bitmap h),
                       used_blocks := used,
                       peak_used_blocks := (if used > peak_used_blocks h then used else peak_used_blocks h),
                       alloc_count := alloc_count h + 1,
                       hp_lock := spinlock_unlock l,
                       hp_headers := (hp_headers h)(header :=
                         \<lparr>h_magic = HEAP_ALLOC_MAGIC, h_blocks = ucast blocks_needed,
                          h_requested_size = sz\<rparr>)\<rparr>)))"

text \<open>The loop of \<open>kfree\<close> over the blocks of the allocation; the assertion is its panic.\<close>

fun free_blocks :: "nat \<Rightarrow> nat \<Rightarrow> nat \<Rightarrow> (nat \<Rightarrow> u8) \<Rightarrow> u64 \<Rightarrow> ((nat \<Rightarrow> u8) \<times> u64) res" where
  "free_blocks tot block 0 bm used = Inr (bm, used)"
| "free_blocks tot block (Suc n) bm used =
     (if block \<ge> tot then Inr (bm, used)
      else if bm_test bm block then
        (if used > 0 then free_blocks tot (block + 1) n (bm_clear bm block) (used - 1) else Inl Panic)
      else free_blocks tot (block + 1) n bm used)"

definition kfree :: "addr \<Rightarrow> heap \<Rightarrow> heap res" where
  "kfree ptr h =
     (if ptr = 0 then Inr h
      else let a = ptr - HEADER_SIZE in
        if a < heap_start h \<or> a \<ge> heap_start h + heap_size h
        then Inr (h\<lparr>invalid_frees := invalid_frees h + 1\<rparr>)
        else rbind (spinlock_lock (hp_lock h)) (\<lambda>l.
          let header = hp_headers h a in
          if h_magic header \<noteq> HEAP_ALLOC_MAGIC \<or> h_blocks header = 0
          then Inr (h\<lparr>invalid_frees := invalid_frees h + 1, hp_lock := spinlock_unlock l\<rparr>)
          else let start_block = (a - heap_start h) div HEAP_BLOCK_SIZE in
            rbind (free_blocks (unat (total_blocks h)) (unat start_block) (unat (h_blocks header))
                     (hp_bitmap h) (used_blocks h)) (\<lambda>(bm, used).
              Inr (h\<lparr>hp_bitmap := bm, used_blocks := used,
                     hp_headers := (hp_headers h)(a := \<lparr>h_magic = 0, h_blocks = 0, h_requested_size = 0\<rparr>),
                     free_count := free_count h + 1, hp_lock := spinlock_unlock l\<rparr>))))"

definition ksize :: "addr \<Rightarrow> heap \<Rightarrow> u64" where
  "ksize ptr h =
     (if ptr = 0 then 0
      else let header = hp_headers h (ptr - HEADER_SIZE) in
        if h_magic header \<noteq> HEAP_ALLOC_MAGIC then 0 else h_requested_size header)"

definition heap_get_stats :: "heap \<Rightarrow> (heap_stats \<times> heap) res" where
  "heap_get_stats h =
     rbind (spinlock_lock (hp_lock h)) (\<lambda>l.
       Inr (\<lparr>st_total_blocks = total_blocks h, st_used_blocks = used_blocks h,
             st_peak_used_blocks = peak_used_blocks h, st_alloc_count = alloc_count h,
             st_free_count = free_count h, st_failed_allocations = failed_allocations h,
             st_invalid_frees = invalid_frees h\<rparr>, h\<lparr>hp_lock := spinlock_unlock l\<rparr>))"

text \<open>
  The self-test: allocate 50 times 64 bytes, stop at a failure (\<open>None\<close>), free everything, and
  report whether no block is left in use.
\<close>

fun alloc_many :: "nat \<Rightarrow> u64 \<Rightarrow> heap \<Rightarrow> (addr list option \<times> heap) res" where
  "alloc_many 0 sz h = Inr (Some [], h)"
| "alloc_many (Suc n) sz h =
     rbind (kmalloc sz h) (\<lambda>(p, h1).
       if p = 0 then Inr (None, h1)
       else rbind (alloc_many n sz h1) (\<lambda>(ps, h2). Inr (map_option ((#) p) ps, h2)))"

fun free_many :: "addr list \<Rightarrow> heap \<Rightarrow> heap res" where
  "free_many [] h = Inr h"
| "free_many (p # ps) h = rbind (kfree p h) (free_many ps)"

definition test_heap_allocator :: "heap \<Rightarrow> (bool option \<times> heap) res" where
  "test_heap_allocator h =
     rbind (alloc_many 50 64 h) (\<lambda>(ps, h1).
       case ps of None \<Rightarrow> Inr (None, h1)
       | Some blocks \<Rightarrow> rbind (free_many blocks h1) (\<lambda>h2. Inr (Some (used_blocks h2 = 0), h2)))"

section \<open>Bit lemmas\<close>

lemma bm_test_bit: "bm_test bm i \<longleftrightarrow> bit (bm (i div 8)) (i mod 8)"
  by (simp add: bm_test_def and_exp_eq_0_iff_not_bit)

lemma bit_shifted_one: "k < 8 \<Longrightarrow> bit (push_bit k (1 :: u8)) j \<longleftrightarrow> j = k"
  by (auto simp: bit_push_bit_iff bit_1_iff simp del: push_bit_of_1)

lemma block_index_eq: "(j :: nat) div 8 = i div 8 \<Longrightarrow> j mod 8 = i mod 8 \<longleftrightarrow> j = i"
  by (metis div_mult_mod_eq)

lemma block_mask_bit: "bit (push_bit (i mod 8) (1 :: u8)) (j mod 8) \<longleftrightarrow> j mod 8 = i mod 8"
  by (rule bit_shifted_one) simp

lemma bm_test_set [simp]: "bm_test (bm_set bm i) j \<longleftrightarrow> j = i \<or> bm_test bm j"
proof (cases "j div 8 = i div 8")
  case True
  with block_mask_bit [of i j] block_index_eq [OF True] show ?thesis
    by (simp add: bm_test_bit bm_set_def bit_or_iff True disj_commute del: push_bit_of_1)
next
  case False
  then have "j \<noteq> i" by auto
  with False show ?thesis by (simp add: bm_test_bit bm_set_def)
qed

lemma bm_test_clear [simp]: "bm_test (bm_clear bm i) j \<longleftrightarrow> j \<noteq> i \<and> bm_test bm j"
proof (cases "j div 8 = i div 8")
  case True
  with block_mask_bit [of i j] block_index_eq [OF True] show ?thesis
    by (simp add: bm_test_bit bm_clear_def bit_and_iff bit_not_iff True conj_commute del: push_bit_of_1)
next
  case False
  then have "j \<noteq> i" by auto
  with False show ?thesis by (simp add: bm_test_bit bm_clear_def)
qed

lemma bm_test_mark [simp]: "bm_test (bm_mark s n bm) j \<longleftrightarrow> (s \<le> j \<and> j < s + n) \<or> bm_test bm j"
  by (induction n arbitrary: s bm) auto

lemma bm_eqI:
  assumes "\<And>j. bm_test bm j = bm_test bm' j"
  shows "bm = bm'"
proof
  fix k
  have "bit (bm k) i = bit (bm' k) i" if "i < 8" for i
    using assms [of "8 * k + i"] that by (simp add: bm_test_bit)
  then show "bm k = bm' k" by (intro bit_word_eqI) simp
qed

section \<open>The search loop is first fit\<close>

definition run_blocked :: "(nat \<Rightarrow> u8) \<Rightarrow> nat \<Rightarrow> nat \<Rightarrow> bool" where
  "run_blocked bm n t \<longleftrightarrow> (\<exists>k. t \<le> k \<and> k < t + n \<and> bm_test bm k)"

lemma heap_scan_0: "heap_scan bm 0 i n c st = None"
  by (induction n arbitrary: i c st) (auto simp: Let_def)

definition scan_ok :: "(nat \<Rightarrow> u8) \<Rightarrow> nat \<Rightarrow> nat \<Rightarrow> nat option \<Rightarrow> bool" where
  "scan_ok bm needed lim r \<longleftrightarrow> (case r of
      None \<Rightarrow> \<forall>t. t + needed \<le> lim \<longrightarrow> run_blocked bm needed t
    | Some s \<Rightarrow> s + needed \<le> lim \<and> \<not> run_blocked bm needed s \<and> (\<forall>t < s. run_blocked bm needed t))"

lemma heap_scan_spec:
  assumes "c < needed" "c \<le> i" "0 < c \<longrightarrow> st + c = i" "\<forall>k. i - c \<le> k \<longrightarrow> k < i \<longrightarrow> \<not> bm_test bm k"
    and "\<forall>t < i - c. run_blocked bm needed t"
  shows "scan_ok bm needed (i + n) (heap_scan bm needed i n c st)"
  using assms
proof (induction n arbitrary: i c st)
  case 0
  then show ?case by (auto simp: scan_ok_def)
next
  case (Suc n)
  show ?case
  proof (cases "bm_test bm i")
    case True
    have "run_blocked bm needed t" if t: "t < i + 1" for t
    proof (cases "t < i - c")
      case False
      with t Suc.prems(1,2) have "t \<le> i" "i < t + needed" by auto
      with True show ?thesis by (auto simp: run_blocked_def)
    qed (use Suc.prems(5) in simp)
    with Suc.IH [of 0 "i + 1" st] True Suc.prems(1) show ?thesis by simp
  next
    case free_i: False
    define st' where "st' = (if c = 0 then i else st)"
    have st: "st' + c = i" using Suc.prems(3) by (auto simp: st'_def)
    have free: "\<forall>k. i - c \<le> k \<longrightarrow> k < i + 1 \<longrightarrow> \<not> bm_test bm k"
      using Suc.prems(4) free_i by (auto simp: less_Suc_eq)
    show ?thesis
    proof (cases "c + 1 = needed")
      case True
      have eq: "heap_scan bm needed i (Suc n) c st = Some st'"
        using True free_i by (simp add: Let_def st'_def)
      have sc: "st' = i - c" using st by arith
      have "\<not> run_blocked bm needed st'"
        using free Suc.prems(2) unfolding sc run_blocked_def True [symmetric] by auto
      moreover have "st' + needed \<le> i + Suc n" using st True by arith
      moreover have "\<forall>t < st'. run_blocked bm needed t" using Suc.prems(5) unfolding sc .
      ultimately show ?thesis unfolding eq scan_ok_def option.case by blast
    next
      case False
      have eq: "heap_scan bm needed i (Suc n) c st = heap_scan bm needed (i + 1) n (c + 1) st'"
        using False free_i by (simp add: Let_def st'_def)
      have "scan_ok bm needed (i + 1 + n) (heap_scan bm needed (i + 1) n (c + 1) st')"
        by (rule Suc.IH) (use False Suc.prems st free in auto)
      then show ?thesis unfolding eq by simp
    qed
  qed
qed

lemma free_blocks_spec:
  assumes "\<And>k. b \<le> k \<Longrightarrow> k < b + n \<Longrightarrow> bm_test bm k" "b + n \<le> tot" "n \<le> unat used"
  shows "\<exists>bm'. free_blocks tot b n bm used = Inr (bm', used - of_nat n) \<and>
    (\<forall>k. bm_test bm' k \<longleftrightarrow> bm_test bm k \<and> \<not> (b \<le> k \<and> k < b + n))"
  using assms
proof (induction n arbitrary: b bm used)
  case (Suc n)
  have nz: "used \<noteq> 0" using Suc.prems(3) by auto
  then have pos: "used > 0" by (simp add: word_gt_0)
  have n1: "n \<le> unat (used - 1)" using Suc.prems(3) unat_pred [OF nz] by simp
  have set1: "\<And>k. b + 1 \<le> k \<Longrightarrow> k < b + 1 + n \<Longrightarrow> bm_test (bm_clear bm b) k" using Suc.prems(1) by simp
  have "b + 1 + n \<le> tot" using Suc.prems(2) by simp
  from Suc.IH [of "b + 1" "bm_clear bm b", OF set1 this n1] obtain bm' where
    ih: "free_blocks tot (b + 1) n (bm_clear bm b) (used - 1) = Inr (bm', (used - 1) - of_nat n)"
      "\<forall>k. bm_test bm' k \<longleftrightarrow> bm_test (bm_clear bm b) k \<and> \<not> (b + 1 \<le> k \<and> k < b + 1 + n)"
    by blast
  have t: "bm_test bm b" using Suc.prems(1) [of b] by simp
  have lt: "\<not> tot \<le> b" using Suc.prems(2) by simp
  have w: "used - of_nat (Suc n) = (used - 1) - of_nat n" by simp
  have "free_blocks tot b (Suc n) bm used = Inr (bm', used - of_nat (Suc n))"
    using t lt pos ih(1) w by (simp del: of_nat_Suc)
  moreover have "bm_test bm' k \<longleftrightarrow> bm_test bm k \<and> \<not> (b \<le> k \<and> k < b + Suc n)" for k
    using spec [OF ih(2), of k] by (simp add: less_Suc_eq_le) linarith
  ultimately show ?case by blast
qed simp

section \<open>Invariant\<close>

text \<open>
  The heap against the set of live allocations, each a start block, a number of blocks and
  the size that was asked for.
\<close>

type_synonym allocation = "nat \<times> nat \<times> u64"

definition heap_geometry :: "heap \<Rightarrow> bool" where
  [inv_defs]: "heap_geometry h \<longleftrightarrow> total_blocks h = heap_size h div HEAP_BLOCK_SIZE \<and>
     unat (heap_start h) + unat (heap_size h) < 2 ^ 64 \<and> unat (total_blocks h) < 2 ^ 32"

definition used_set :: "heap \<Rightarrow> nat set" where
  "used_set h = {b. b < unat (total_blocks h) \<and> bm_test (hp_bitmap h) b}"

definition alloc_ok :: "heap \<Rightarrow> allocation \<Rightarrow> bool" where
  "alloc_ok h = (\<lambda>(s, n, sz). 0 < n \<and> s + n \<le> unat (total_blocks h) \<and> 0 < unat sz \<and>
     unat sz + 16 \<le> 16 * n \<and>
     hp_headers h (block_addr h s) = \<lparr>h_magic = HEAP_ALLOC_MAGIC, h_blocks = of_nat n, h_requested_size = sz\<rparr>)"

definition blocks_of :: "allocation \<Rightarrow> nat set" where
  "blocks_of = (\<lambda>(s, n, sz). {s..<s + n})"

definition heap_inv :: "heap \<Rightarrow> allocation set \<Rightarrow> bool" where
  [inv_defs]: "heap_inv h L \<longleftrightarrow> heap_geometry h \<and> lock_free (hp_lock h) \<and>
     (\<forall>a \<in> L. alloc_ok h a) \<and>
     (\<forall>a \<in> L. \<forall>b \<in> L. a \<noteq> b \<longrightarrow> blocks_of a \<inter> blocks_of b = {}) \<and>
     used_set h = (\<Union>a \<in> L. blocks_of a) \<and>
     unat (used_blocks h) = card (used_set h) \<and> used_blocks h \<le> peak_used_blocks h"

lemma block_size_simp [simp]: "unat HEAP_BLOCK_SIZE = 16" "unat HEADER_SIZE = 16"
  by (simp_all add: HEAP_BLOCK_SIZE_def HEADER_SIZE_def)

lemma finite_used_set [simp]: "finite (used_set h)"
  by (simp add: used_set_def)

lemma card_used_set: "card (used_set h) \<le> unat (total_blocks h)"
  using card_mono [of "{..<unat (total_blocks h)}" "used_set h"] by (auto simp: used_set_def)

lemma geometry_bound: "heap_geometry h \<Longrightarrow> 16 * unat (total_blocks h) \<le> unat (heap_size h)"
  by (simp add: heap_geometry_def unat_div)

lemma unat_block_addr:
  assumes "heap_geometry h" "b \<le> unat (total_blocks h)"
  shows "unat (block_addr h b) = unat (heap_start h) + 16 * b"
proof -
  have lt: "unat (heap_start h) + 16 * b < 2 ^ 64"
    using assms geometry_bound [OF assms(1)] by (simp add: heap_geometry_def)
  have "unat (of_nat b * HEAP_BLOCK_SIZE :: u64) = unat (of_nat (16 * b) :: u64)"
    by (simp add: HEAP_BLOCK_SIZE_def mult.commute)
  also have "\<dots> = 16 * b" using lt by (intro unat_of_nat_small) simp
  finally have "unat (of_nat b * HEAP_BLOCK_SIZE :: u64) = 16 * b" .
  with lt show ?thesis unfolding block_addr_def by (subst unat_add_small) simp_all
qed

lemma unat_user_ptr:
  assumes "heap_geometry h" "b < unat (total_blocks h)"
  shows "unat (block_addr h b + HEADER_SIZE) = unat (heap_start h) + 16 * b + 16"
proof -
  have "unat (block_addr h b) = unat (heap_start h) + 16 * b" using assms by (simp add: unat_block_addr)
  moreover have "unat (heap_start h) + 16 * b + 16 < 2 ^ 64"
    using assms geometry_bound [OF assms(1)] by (simp add: heap_geometry_def)
  ultimately show ?thesis by (subst unat_add_small) simp_all
qed

lemma block_addr_inj:
  assumes "heap_geometry h" "b \<le> unat (total_blocks h)" "c \<le> unat (total_blocks h)" "block_addr h b = block_addr h c"
  shows "b = c"
proof -
  have "16 * b = 16 * c"
    using unat_block_addr [OF assms(1,2)] unat_block_addr [OF assms(1,3)] unfolding assms(4) by linarith
  then show ?thesis by simp
qed

section \<open>Allocation\<close>

definition blocks_for :: "u64 \<Rightarrow> u64" where
  "blocks_for sz = (sz + HEADER_SIZE + HEAP_BLOCK_SIZE - 1) div HEAP_BLOCK_SIZE"

lemma no_wrap_iff: "\<not> sz + HEADER_SIZE < sz \<longleftrightarrow> unat sz + 16 < 2 ^ 64"
proof
  assume "\<not> sz + HEADER_SIZE < sz"
  then have "unat sz \<le> (unat sz + 16) mod 2 ^ 64"
    by (simp add: word_less_nat_alt unat_word_ariths HEADER_SIZE_def)
  moreover have "unat sz < 2 ^ 64" using unsigned_less [of sz, where 'a = nat] by simp
  moreover have "(unat sz + 16) mod 2 ^ 64 = unat sz + 16 - 2 ^ 64" if "2 ^ 64 \<le> unat sz + 16"
    using that calculation(2) by (subst le_mod_geq) simp_all
  ultimately show "unat sz + 16 < 2 ^ 64" by (cases "2 ^ 64 \<le> unat sz + 16") simp_all
next
  assume a: "unat sz + 16 < 2 ^ 64"
  then have "unat (sz + HEADER_SIZE) = unat sz + 16" by (subst unat_add_small) simp_all
  then show "\<not> sz + HEADER_SIZE < sz" by (simp add: word_less_nat_alt)
qed

lemma blocks_for_bound:
  assumes "unat sz + 16 < 2 ^ 64"
  shows "unat (blocks_for sz) = 0 \<or> unat sz + 16 \<le> 16 * unat (blocks_for sz)"
proof -
  have u: "unat (blocks_for sz) = ((unat sz + 31) mod 2 ^ 64) div 16"
  proof -
    have "blocks_for sz = (sz + 31) div 16"
      by (simp add: blocks_for_def HEADER_SIZE_def HEAP_BLOCK_SIZE_def add.commute)
    then show ?thesis by (simp add: unat_div unat_word_ariths)
  qed
  show ?thesis
  proof (cases "unat sz + 31 < 2 ^ 64")
    case True
    then have "unat (blocks_for sz) = (unat sz + 31) div 16" using u by simp
    then show ?thesis by linarith
  next
    case False
    then have "(unat sz + 31) mod 2 ^ 64 = unat sz + 31 - 2 ^ 64" using assms by (simp add: mod_if)
    then have "(unat sz + 31) mod 2 ^ 64 < 16" using assms by simp
    then show ?thesis using u by simp
  qed
qed

definition heap_fail :: "heap \<Rightarrow> heap" where
  "heap_fail h = h\<lparr>failed_allocations := failed_allocations h + 1\<rparr>"

definition heap_take :: "nat \<Rightarrow> u64 \<Rightarrow> heap \<Rightarrow> heap" where
  "heap_take s sz h =
     (let used = used_blocks h + blocks_for sz in
      h\<lparr>hp_bitmap := bm_mark s (unat (blocks_for sz)) (hp_bitmap h), used_blocks := used,
        peak_used_blocks := (if used > peak_used_blocks h then used else peak_used_blocks h),
        alloc_count := alloc_count h + 1,
        hp_headers := (hp_headers h)(block_addr h s :=
          \<lparr>h_magic = HEAP_ALLOC_MAGIC, h_blocks = ucast (blocks_for sz), h_requested_size = sz\<rparr>)\<rparr>)"

lemma kmalloc_unfold:
  assumes "lock_free (hp_lock h)" "sz \<noteq> 0"
  shows "kmalloc sz h =
    (if sz + HEADER_SIZE < sz then Inr (0, heap_fail h)
     else case heap_scan (hp_bitmap h) (unat (blocks_for sz)) 0 (unat (total_blocks h)) 0 0 of
       None \<Rightarrow> Inr (0, heap_fail h)
     | Some s \<Rightarrow> Inr (block_addr h s + HEADER_SIZE, heap_take s sz h))"
  using assms
  by (auto simp: kmalloc_def Let_def heap_fail_def heap_take_def blocks_for_def split: option.splits)

lemma heap_fail_frame [simp]:
  "heap_geometry (heap_fail h) = heap_geometry h" "alloc_ok (heap_fail h) = alloc_ok h"
  "used_set (heap_fail h) = used_set h" "hp_lock (heap_fail h) = hp_lock h"
  "used_blocks (heap_fail h) = used_blocks h" "peak_used_blocks (heap_fail h) = peak_used_blocks h"
  by (simp_all add: heap_fail_def heap_geometry_def alloc_ok_def used_set_def block_addr_def)

lemma heap_inv_fail: "heap_inv h L \<Longrightarrow> heap_inv (heap_fail h) L"
  by (simp add: heap_inv_def)

lemma heap_take_frame [simp]:
  "heap_start (heap_take s sz h) = heap_start h" "heap_size (heap_take s sz h) = heap_size h"
  "total_blocks (heap_take s sz h) = total_blocks h" "hp_lock (heap_take s sz h) = hp_lock h"
  "block_addr (heap_take s sz h) b = block_addr h b" "heap_geometry (heap_take s sz h) = heap_geometry h"
  by (simp_all add: heap_take_def Let_def block_addr_def heap_geometry_def)

lemma heap_take_inv:
  assumes inv: "heap_inv h L" and sz: "sz \<noteq> 0" "unat sz + 16 < 2 ^ 64"
    and n: "n = unat (blocks_for sz)" "0 < n"
    and s: "s + n \<le> unat (total_blocks h)" "\<not> run_blocked (hp_bitmap h) n s"
  shows "heap_inv (heap_take s sz h) (insert (s, n, sz) L)"
    and "\<forall>a \<in> L. blocks_of a \<inter> {s..<s + n} = {}"
proof -
  let ?h = "heap_take s sz h"
  have geo: "heap_geometry h" using inv by (simp add: heap_inv_def)
  have b32: "unat (total_blocks h) < 2 ^ 32" using geo unfolding heap_geometry_def by blast
  have us: "used_set ?h = used_set h \<union> {s..<s + n}"
    using s n by (auto simp: used_set_def heap_take_def Let_def)
  have free: "used_set h \<inter> {s..<s + n} = {}" using s(2) by (auto simp: run_blocked_def used_set_def)
  show dis: "\<forall>a \<in> L. blocks_of a \<inter> {s..<s + n} = {}" using inv free by (auto simp: heap_inv_def)
  have card: "card (used_set ?h) = card (used_set h) + n"
    unfolding us using free by (subst card_Un_disjoint) auto
  have "card (used_set ?h) \<le> unat (total_blocks h)" using card_used_set [of ?h] by simp
  then have used: "unat (used_blocks h + blocks_for sz) = card (used_set h) + n"
    using inv n b32 card by (subst unat_add_small) (simp_all add: heap_inv_def)
  have le: "unat sz + 16 \<le> 16 * n" using blocks_for_bound [OF sz(2)] n by auto
  have hb: "(ucast (blocks_for sz) :: u32) = of_nat n" unfolding n by simp
  have new: "alloc_ok ?h (s, n, sz)"
    using n s le sz hb by (simp add: alloc_ok_def unat_pos) (simp add: heap_take_def Let_def)
  have old: "alloc_ok ?h a" if "a \<in> L" for a
  proof -
    obtain s' n' sz' where a: "a = (s', n', sz')" by (cases a)
    from that inv have ok: "alloc_ok h a" by (auto simp: heap_inv_def)
    have "s' \<noteq> s"
      using dis that n(2) ok by (auto simp: a blocks_of_def alloc_ok_def)
    then have "block_addr h s' \<noteq> block_addr h s"
      using block_addr_inj [OF geo, of s' s] ok s n by (auto simp: a alloc_ok_def)
    then show ?thesis using ok by (simp add: a alloc_ok_def) (simp add: heap_take_def Let_def)
  qed
  have "used_blocks ?h = used_blocks h + blocks_for sz" by (simp add: heap_take_def Let_def)
  moreover have "used_blocks ?h \<le> peak_used_blocks ?h"
    by (simp add: heap_take_def Let_def linorder_not_less)
  moreover have "used_set ?h = (\<Union>a \<in> insert (s, n, sz) L. blocks_of a)"
    using us inv by (auto simp: heap_inv_def blocks_of_def)
  moreover have "blocks_of (s, n, sz) = {s..<s + n}" by (simp add: blocks_of_def)
  ultimately show "heap_inv ?h (insert (s, n, sz) L)"
    using inv dis new old used card unfolding heap_inv_def
    by (simp add: Int_commute)
qed

lemma kmalloc_cases:
  assumes inv: "heap_inv h L" and sz: "sz \<noteq> 0"
  obtains (failed) "kmalloc sz h = Inr (0, heap_fail h)" "heap_inv (heap_fail h) L"
      "2 ^ 64 \<le> unat sz + 16 \<or> blocks_for sz = 0 \<or>
        (\<forall>t. t + unat (blocks_for sz) \<le> unat (total_blocks h) \<longrightarrow> run_blocked (hp_bitmap h) (unat (blocks_for sz)) t)"
  | (fits) s n where "kmalloc sz h = Inr (block_addr h s + HEADER_SIZE, heap_take s sz h)"
      "n = unat (blocks_for sz)" "0 < n" "unat sz + 16 < 2 ^ 64" "s + n \<le> unat (total_blocks h)"
      "\<not> run_blocked (hp_bitmap h) n s" "\<forall>t < s. run_blocked (hp_bitmap h) n t"
      "heap_inv (heap_take s sz h) (insert (s, n, sz) L)" "\<forall>a \<in> L. blocks_of a \<inter> {s..<s + n} = {}"
proof -
  have lf: "lock_free (hp_lock h)" using inv by (simp add: heap_inv_def)
  let ?n = "unat (blocks_for sz)"
  let ?r = "heap_scan (hp_bitmap h) ?n 0 (unat (total_blocks h)) 0 0"
  show thesis
  proof (cases "unat sz + 16 < 2 ^ 64")
    case False
    then have "kmalloc sz h = Inr (0, heap_fail h)"
      using no_wrap_iff [of sz] by (simp add: kmalloc_unfold [OF lf sz])
    with False show thesis by (intro failed heap_inv_fail inv) auto
  next
    case True
    then have nw: "\<not> sz + HEADER_SIZE < sz" using no_wrap_iff by blast
    show thesis
    proof (cases "?n = 0")
      case True
      then have "kmalloc sz h = Inr (0, heap_fail h)"
        using nw by (simp add: kmalloc_unfold [OF lf sz] heap_scan_0)
      then show thesis by (rule failed [OF _ heap_inv_fail [OF inv]]) (use True in \<open>simp add: unat_eq_zero\<close>)
    next
      case False
      then have ok: "scan_ok (hp_bitmap h) ?n (unat (total_blocks h)) ?r"
        using heap_scan_spec [of 0 ?n 0 0 "hp_bitmap h" "unat (total_blocks h)"] by simp
      show thesis
      proof (cases ?r)
        case None
        then have "kmalloc sz h = Inr (0, heap_fail h)" using nw by (simp add: kmalloc_unfold [OF lf sz])
        then show thesis
          by (rule failed [OF _ heap_inv_fail [OF inv]]) (use ok None in \<open>simp add: scan_ok_def\<close>)
      next
        case (Some s)
        have "kmalloc sz h = Inr (block_addr h s + HEADER_SIZE, heap_take s sz h)"
          using Some nw by (simp add: kmalloc_unfold [OF lf sz])
        moreover have s: "s + ?n \<le> unat (total_blocks h)" "\<not> run_blocked (hp_bitmap h) ?n s"
          "\<forall>t < s. run_blocked (hp_bitmap h) ?n t" using ok Some by (auto simp: scan_ok_def)
        ultimately show thesis
          using False heap_take_inv [OF inv sz True refl _ s(1,2)] True by (intro fits [of s ?n]) auto
      qed
    qed
  qed
qed

section \<open>Release\<close>

definition heap_release :: "nat \<Rightarrow> nat \<Rightarrow> (nat \<Rightarrow> u8) \<Rightarrow> heap \<Rightarrow> heap" where
  "heap_release s n bm h = h\<lparr>hp_bitmap := bm, used_blocks := used_blocks h - of_nat n,
     hp_headers := (hp_headers h)(block_addr h s := \<lparr>h_magic = 0, h_blocks = 0, h_requested_size = 0\<rparr>),
     free_count := free_count h + 1\<rparr>"

lemma heap_release_frame [simp]:
  "heap_start (heap_release s n bm h) = heap_start h" "heap_size (heap_release s n bm h) = heap_size h"
  "total_blocks (heap_release s n bm h) = total_blocks h" "hp_lock (heap_release s n bm h) = hp_lock h"
  "block_addr (heap_release s n bm h) b = block_addr h b" "heap_geometry (heap_release s n bm h) = heap_geometry h"
  "peak_used_blocks (heap_release s n bm h) = peak_used_blocks h" "hp_bitmap (heap_release s n bm h) = bm"
  by (simp_all add: heap_release_def block_addr_def heap_geometry_def)

lemma user_ptr_simps:
  assumes geo: "heap_geometry h" and s: "s < unat (total_blocks h)"
  shows "block_addr h s + HEADER_SIZE \<noteq> 0" "block_addr h s + HEADER_SIZE - HEADER_SIZE = block_addr h s"
    "\<not> block_addr h s < heap_start h" "\<not> heap_start h + heap_size h \<le> block_addr h s"
    "unat ((block_addr h s - heap_start h) div HEAP_BLOCK_SIZE) = s"
proof -
  have a: "unat (block_addr h s) = unat (heap_start h) + 16 * s"
    using assms by (intro unat_block_addr) auto
  have "unat (block_addr h s + HEADER_SIZE) > 0" using unat_user_ptr [OF assms] by simp
  then show "block_addr h s + HEADER_SIZE \<noteq> 0" by (simp add: unat_pos)
  show ge: "\<not> block_addr h s < heap_start h" using a by (simp add: word_less_nat_alt)
  have "unat (heap_start h + heap_size h) = unat (heap_start h) + unat (heap_size h)"
    using geo by (intro unat_add_small) (simp add: heap_geometry_def)
  then show "\<not> heap_start h + heap_size h \<le> block_addr h s"
    using a s geometry_bound [OF geo] by (simp add: word_le_nat_alt)
  have "unat (block_addr h s - heap_start h) = 16 * s"
    using a ge by (subst unat_sub) (simp_all add: word_le_nat_alt)
  then show "unat ((block_addr h s - heap_start h) div HEAP_BLOCK_SIZE) = s" by (simp add: unat_div)
qed simp

lemma kfree_live:
  assumes inv: "heap_inv h L" and a: "(s, n, sz) \<in> L"
  shows "\<exists>bm. kfree (block_addr h s + HEADER_SIZE) h = Inr (heap_release s n bm h) \<and>
    (\<forall>k. bm_test bm k \<longleftrightarrow> bm_test (hp_bitmap h) k \<and> k \<notin> {s..<s + n}) \<and>
    heap_inv (heap_release s n bm h) (L - {(s, n, sz)})"
proof -
  have geo: "heap_geometry h" and ok: "alloc_ok h (s, n, sz)" and lf: "lock_free (hp_lock h)"
    using inv a by (auto simp: heap_inv_def)
  have sub: "{s..<s + n} \<subseteq> used_set h" using inv a by (force simp: heap_inv_def blocks_of_def)
  have s: "s < unat (total_blocks h)" "0 < n" "s + n \<le> unat (total_blocks h)" using ok by (auto simp: alloc_ok_def)
  have b32: "unat (total_blocks h) < 2 ^ 32" using geo unfolding heap_geometry_def by blast
  have n32: "unat (of_nat n :: u32) = n"
    using s b32 by (intro unat_of_nat_small) simp
  then have nz: "of_nat n \<noteq> (0 :: u32)" using s by (metis unat_0 less_not_refl)
  have nu: "n \<le> unat (used_blocks h)"
    using card_mono [OF finite_used_set sub] inv by (simp add: heap_inv_def)
  obtain bm where bm: "free_blocks (unat (total_blocks h)) s n (hp_bitmap h) (used_blocks h) =
      Inr (bm, used_blocks h - of_nat n)"
    "\<forall>k. bm_test bm k \<longleftrightarrow> bm_test (hp_bitmap h) k \<and> \<not> (s \<le> k \<and> k < s + n)"
    using free_blocks_spec [OF _ s(3) nu, of "hp_bitmap h"] sub by (force simp: used_set_def)
  let ?h = "heap_release s n bm h"
  have "kfree (block_addr h s + HEADER_SIZE) h = Inr ?h"
    using ok lf user_ptr_simps [OF geo s(1)] bm(1) n32 nz
    by (simp add: kfree_def Let_def alloc_ok_def heap_release_def)
  moreover have "\<forall>k. bm_test bm k \<longleftrightarrow> bm_test (hp_bitmap h) k \<and> k \<notin> {s..<s + n}" using bm(2) by simp
  moreover have "heap_inv ?h (L - {(s, n, sz)})"
  proof -
    have us: "used_set ?h = used_set h - {s..<s + n}"
    proof (rule set_eqI)
      show "k \<in> used_set ?h \<longleftrightarrow> k \<in> used_set h - {s..<s + n}" for k
        using spec [OF bm(2), of k] by (auto simp: used_set_def)
    qed
    have bo: "blocks_of (s, n, sz) = {s..<s + n}" by (simp add: blocks_of_def)
    have dis: "blocks_of b \<inter> {s..<s + n} = {}" if "b \<in> L" "b \<noteq> (s, n, sz)" for b
      using inv a that unfolding heap_inv_def bo [symmetric] by blast
    have "used_set h = (\<Union>b \<in> L. blocks_of b)" using inv by (simp add: heap_inv_def)
    then have un: "used_set h - {s..<s + n} = (\<Union>b \<in> L - {(s, n, sz)}. blocks_of b)"
      using dis bo by blast
    have card: "card (used_set ?h) = card (used_set h) - n"
      unfolding us using sub by (subst card_Diff_subset) auto
    have ub: "unat (used_blocks h - of_nat n) = unat (used_blocks h) - n"
    proof -
      have "n < 2 ^ 64" using nu unsigned_less [of "used_blocks h", where 'a = nat] by simp
      then have "unat (of_nat n :: u64) = n" by (intro unat_of_nat_small) simp
      with nu show ?thesis by (subst unat_sub) (simp_all add: word_le_nat_alt)
    qed
    have "unat (used_blocks h) \<le> unat (peak_used_blocks h)"
      using inv unfolding heap_inv_def word_le_nat_alt by blast
    with ub have "used_blocks h - of_nat n \<le> peak_used_blocks h"
      unfolding word_le_nat_alt by linarith
    moreover have "alloc_ok ?h b" if "b \<in> L - {(s, n, sz)}" for b
    proof -
      obtain s' n' sz' where b: "b = (s', n', sz')" by (cases b)
      have okb: "alloc_ok h b" and "blocks_of b \<inter> {s..<s + n} = {}"
        using inv that dis by (auto simp: heap_inv_def)
      then have "s' \<noteq> s" using s(2) okb by (auto simp: b blocks_of_def alloc_ok_def)
      then have "block_addr h s' \<noteq> block_addr h s"
        using block_addr_inj [OF geo, of s' s] okb s by (auto simp: b alloc_ok_def)
      then show ?thesis using okb by (simp add: b alloc_ok_def) (simp add: heap_release_def)
    qed
    moreover have "used_blocks ?h = used_blocks h - of_nat n" by (simp add: heap_release_def)
    ultimately show ?thesis
      using inv us un card ub unfolding heap_inv_def by simp
  qed
  ultimately show ?thesis by blast
qed

text \<open>A pointer whose header does not carry the magic number is refused.\<close>

lemma kfree_stale:
  assumes "heap_geometry h" "lock_free (hp_lock h)" "s < unat (total_blocks h)"
    and "h_magic (hp_headers h (block_addr h s)) \<noteq> HEAP_ALLOC_MAGIC"
  shows "kfree (block_addr h s + HEADER_SIZE) h = Inr (h\<lparr>invalid_frees := invalid_frees h + 1\<rparr>)"
  using assms user_ptr_simps [OF assms(1,3)] by (simp add: kfree_def Let_def)

section \<open>The allocator interface\<close>

text \<open>
  What clients of an allocator rely on: an allocation is refused with a null pointer or adds a
  region, releasing a live region removes it, nothing gets stuck, and live regions are disjoint
  and stay where they are.
\<close>

datatype heap_cmd = Alloc u64 | Release nat

fun heap_run :: "(u64 \<Rightarrow> 'h \<Rightarrow> (addr \<times> 'h) res) \<Rightarrow> (addr \<Rightarrow> 'h \<Rightarrow> 'h res) \<Rightarrow>
    heap_cmd list \<Rightarrow> addr list \<Rightarrow> 'h \<Rightarrow> (addr list \<times> 'h) res" where
  "heap_run al fr [] ps h = Inr (ps, h)"
| "heap_run al fr (Alloc sz # cs) ps h =
     rbind (al sz h) (\<lambda>(p, h1). heap_run al fr cs (if p = 0 then ps else ps @ [p]) h1)"
| "heap_run al fr (Release i # cs) ps h =
     (if i < length ps
      then rbind (fr (ps ! i) h) (\<lambda>h1. heap_run al fr cs (take i ps @ drop (Suc i) ps) h1)
      else heap_run al fr cs ps h)"

lemma set_remove_nth:
  "distinct xs \<Longrightarrow> i < length xs \<Longrightarrow> set (take i xs @ drop (Suc i) xs) = set xs - {xs ! i}"
  by (subst (3) id_take_nth_drop [of i xs], simp, subst (asm) id_take_nth_drop [of i xs], auto)

lemma distinct_remove_nth: "distinct xs \<Longrightarrow> distinct (take i xs @ drop (Suc i) xs)"
  using set_take_disj_set_drop_if_distinct [of xs i "Suc i"] by simp

locale allocator =
  fixes inv :: "'h \<Rightarrow> 'a set \<Rightarrow> bool" and ptr :: "'h \<Rightarrow> 'a \<Rightarrow> addr" and arena :: "'h \<Rightarrow> addr \<times> u64"
    and al :: "u64 \<Rightarrow> 'h \<Rightarrow> (addr \<times> 'h) res" and fr :: "addr \<Rightarrow> 'h \<Rightarrow> 'h res"
  assumes al_outcome: "inv h L \<Longrightarrow>
      (\<exists>h'. al sz h = Inr (0, h') \<and> inv h' L \<and> ptr h' = ptr h \<and> arena h' = arena h) \<or>
      (\<exists>a h'. al sz h = Inr (ptr h a, h') \<and> a \<notin> L \<and> ptr h a \<noteq> 0 \<and> inv h' (insert a L) \<and> ptr h' = ptr h \<and> arena h' = arena h)"
    and fr_outcome: "inv h L \<Longrightarrow> a \<in> L \<Longrightarrow>
      \<exists>h'. fr (ptr h a) h = Inr h' \<and> inv h' (L - {a}) \<and> ptr h' = ptr h \<and> arena h' = arena h"
begin

lemma run_live:
  assumes "inv h (set as)" "distinct as" "ps = map (ptr h) as"
  shows "\<exists>bs h'. heap_run al fr cs ps h = Inr (map (ptr h') bs, h') \<and> inv h' (set bs) \<and> distinct bs \<and> ptr h' = ptr h \<and> arena h' = arena h"
  using assms
proof (induction cs arbitrary: as ps h)
  case (Cons c cs)
  show ?case
  proof (cases c)
    case (Alloc sz)
    from al_outcome [OF Cons.prems(1), of sz] show ?thesis
    proof (elim disjE exE conjE)
      fix h1 assume h1: "al sz h = Inr (0, h1)" "inv h1 (set as)" "ptr h1 = ptr h" "arena h1 = arena h"
      from Cons.IH [OF h1(2) Cons.prems(2), of ps] h1 Cons.prems(3) Alloc show ?thesis by simp
    next
      fix a h1 assume h1: "al sz h = Inr (ptr h a, h1)" "a \<notin> set as" "ptr h a \<noteq> 0"
        "inv h1 (insert a (set as))" "ptr h1 = ptr h" "arena h1 = arena h"
      from Cons.IH [of h1 "as @ [a]" "ps @ [ptr h a]"] h1 Cons.prems(2,3) Alloc show ?thesis by simp
    qed
  next
    case (Release i)
    show ?thesis
    proof (cases "i < length as")
      case True
      from fr_outcome [OF Cons.prems(1), of "as ! i"] True obtain h1
        where h1: "fr (ptr h (as ! i)) h = Inr h1" "inv h1 (set as - {as ! i})" "ptr h1 = ptr h" "arena h1 = arena h" by auto
      let ?as = "take i as @ drop (Suc i) as"
      have "inv h1 (set ?as)" using h1(2) by (simp only: set_remove_nth [OF Cons.prems(2) True])
      from Cons.IH [OF this distinct_remove_nth [OF Cons.prems(2)], of "take i ps @ drop (Suc i) ps"]
      show ?thesis using h1 Cons.prems(3) True Release by (simp add: take_map drop_map)
    qed (use Cons.IH [OF Cons.prems] Cons.prems(3) Release in simp)
  qed
qed auto

end

definition user_ptr :: "heap \<Rightarrow> allocation \<Rightarrow> addr" where
  "user_ptr h = (\<lambda>(s, n, sz). block_addr h s + HEADER_SIZE)"

lemma user_ptr_frame [simp]:
  "user_ptr (heap_fail h) = user_ptr h" "user_ptr (heap_take s sz h) = user_ptr h"
  "user_ptr (heap_release s n bm h) = user_ptr h"
  by (simp_all add: user_ptr_def heap_fail_def block_addr_def fun_eq_iff)

definition heap_arena :: "heap \<Rightarrow> addr \<times> u64" where
  "heap_arena h = (heap_start h, heap_size h)"

lemma heap_arena_frame [simp]:
  "heap_arena (heap_fail h) = heap_arena h" "heap_arena (heap_take s sz h) = heap_arena h"
  "heap_arena (heap_release s n bm h) = heap_arena h"
  by (simp_all add: heap_arena_def heap_fail_def)

interpretation kheap: allocator heap_inv user_ptr heap_arena kmalloc kfree
proof
  fix h L sz assume inv: "heap_inv h L"
  show "(\<exists>h'. kmalloc sz h = Inr (0, h') \<and> heap_inv h' L \<and> user_ptr h' = user_ptr h \<and> heap_arena h' = heap_arena h) \<or>
    (\<exists>a h'. kmalloc sz h = Inr (user_ptr h a, h') \<and> a \<notin> L \<and> user_ptr h a \<noteq> 0 \<and>
       heap_inv h' (insert a L) \<and> user_ptr h' = user_ptr h \<and> heap_arena h' = heap_arena h)"
  proof (cases "sz = 0")
    case False
    from inv False show ?thesis
    proof (cases rule: kmalloc_cases)
      case (fits s n)
      have geo: "heap_geometry h" using inv by (simp add: heap_inv_def)
      have "s < unat (total_blocks h)" using fits by simp
      moreover have "(s, n, sz) \<notin> L" using fits(3,9) by (force simp: blocks_of_def)
      ultimately show ?thesis
        using fits(1,8) user_ptr_simps(1) [OF geo, of s]
        by (intro disjI2 exI [of _ "(s, n, sz)"]) (simp add: user_ptr_def [of h])
    qed simp
  qed (use inv in \<open>simp add: kmalloc_def\<close>)
next
  fix h L and a :: allocation assume inv: "heap_inv h L" and a: "a \<in> L"
  obtain s n sz where "a = (s, n, sz)" by (cases a)
  with kfree_live [OF inv, of s n sz] a
  show "\<exists>h'. kfree (user_ptr h a) h = Inr h' \<and> heap_inv h' (L - {a}) \<and> user_ptr h' = user_ptr h \<and> heap_arena h' = heap_arena h"
    by (auto simp: user_ptr_def [of h])
qed

lemma region_layout:
  assumes inv: "heap_inv h L" and a: "a \<in> L"
  obtains s n sz where "a = (s, n, sz)" "unat (user_ptr h a) = unat (heap_start h) + 16 * s + 16"
    "ksize (user_ptr h a) h = sz" "0 < unat sz" "unat sz + 16 \<le> 16 * n" "s + n \<le> unat (total_blocks h)" "0 < n"
proof -
  obtain s n sz where a3: "a = (s, n, sz)" by (cases a)
  have geo: "heap_geometry h" and ok: "alloc_ok h (s, n, sz)" using inv a a3 by (auto simp: heap_inv_def)
  then have s: "s < unat (total_blocks h)" by (auto simp: alloc_ok_def)
  have "ksize (user_ptr h a) h = sz"
    using ok user_ptr_simps(1,2) [OF geo s] by (simp add: ksize_def user_ptr_def a3 Let_def alloc_ok_def)
  with that [OF a3] ok unat_user_ptr [OF geo s] show thesis by (auto simp: user_ptr_def a3 alloc_ok_def)
qed

lemma region_inside:
  assumes "heap_inv h L" "a \<in> L"
  shows "0 < unat (ksize (user_ptr h a) h) \<and> unat (heap_start h) + 16 \<le> unat (user_ptr h a) \<and>
    unat (user_ptr h a) + unat (ksize (user_ptr h a) h) \<le> unat (heap_start h) + unat (heap_size h)"
  using assms
proof (cases rule: region_layout)
  case (1 s n sz)
  have "16 * unat (total_blocks h) \<le> unat (heap_size h)"
    using assms(1) geometry_bound by (auto simp: heap_inv_def)
  then show ?thesis unfolding 1(2,3) using 1(4-6) by linarith
qed

lemma intervals_disjoint:
  assumes "{s..<s + n} \<inter> {s'..<s' + n'} = {}" "0 < n" "0 < n'"
  shows "s + n \<le> s' \<or> s' + n' \<le> (s :: nat)"
proof (rule ccontr)
  assume "\<not> (s + n \<le> s' \<or> s' + n' \<le> s)"
  then have "max s s' \<in> {s..<s + n} \<inter> {s'..<s' + n'}" using assms(2,3) by auto
  with assms(1) show False by blast
qed

lemma regions_disjoint:
  assumes inv: "heap_inv h L" and ab: "a \<in> L" "b \<in> L" "a \<noteq> b"
  shows "unat (user_ptr h a) + unat (ksize (user_ptr h a) h) \<le> unat (user_ptr h b) \<or>
    unat (user_ptr h b) + unat (ksize (user_ptr h b) h) \<le> unat (user_ptr h a)"
proof -
  from region_layout [OF inv ab(1)] obtain s n sz where A: "a = (s, n, sz)"
    "unat (user_ptr h a) = unat (heap_start h) + 16 * s + 16" "ksize (user_ptr h a) h = sz"
    "unat sz + 16 \<le> 16 * n" "0 < n" by metis
  from region_layout [OF inv ab(2)] obtain s' n' sz' where B: "b = (s', n', sz')"
    "unat (user_ptr h b) = unat (heap_start h) + 16 * s' + 16" "ksize (user_ptr h b) h = sz'"
    "unat sz' + 16 \<le> 16 * n'" "0 < n'" by metis
  have "{s..<s + n} \<inter> {s'..<s' + n'} = {}" using inv ab A(1) B(1) by (force simp: heap_inv_def blocks_of_def)
  then have "s + n \<le> s' \<or> s' + n' \<le> s"
    using A(5) B(5) by (rule intervals_disjoint)
  with A B show ?thesis by auto
qed

section \<open>Properties\<close>

text \<open>
  \<open>heap_init\<close> on a heap that fits the address space establishes the invariant, provided the
  bitmap bytes it does not clear are clear already.
\<close>

definition heap_init_pre :: "u64 \<Rightarrow> u64 \<Rightarrow> heap \<Rightarrow> memory_map \<Rightarrow> bool" where
  "heap_init_pre start sz h m \<longleftrightarrow> fst (pmm_alloc_page m) \<noteq> 0 \<and> unat start + unat sz < 2 ^ 64 \<and> unat sz < 2 ^ 36 \<and>
     (\<forall>i \<in> {HEAP_BITMAP_SIZE..unat sz div 128}. hp_bitmap h i = 0)"

lemma heap_init_inv:
  assumes "heap_init_pre start sz h m"
  shows "heap_inv (fst (heap_init start sz h m)) {}"
proof -
  let ?h = "fst (heap_init start sz h m)"
  have f: "total_blocks ?h = sz div HEAP_BLOCK_SIZE" "heap_start ?h = start" "heap_size ?h = sz"
    "used_blocks ?h = 0" "lock_free (hp_lock ?h)"
    "hp_bitmap ?h = (\<lambda>i. if i < HEAP_BITMAP_SIZE then 0 else hp_bitmap h i)"
    using assms by (auto simp: heap_init_pre_def heap_init_def Let_def split_beta spinlock_init_def)
  have tb: "unat (total_blocks ?h) = unat sz div 16" by (simp add: f unat_div)
  have "unat sz div 16 < 2 ^ 32"
    using assms by (intro less_mult_imp_div_less) (simp add: heap_init_pre_def)
  then have "heap_geometry ?h"
    using assms tb unfolding heap_geometry_def f(2,3) by (simp add: heap_init_pre_def f(1))
  moreover have "\<not> bm_test (hp_bitmap ?h) b" if "b < unat sz div 16" for b
  proof -
    have "b div 8 \<le> unat sz div 128" using that by simp
    then have "hp_bitmap ?h (b div 8) = 0" using assms by (auto simp: f heap_init_pre_def)
    then show ?thesis by (simp add: bm_test_bit)
  qed
  then have "used_set ?h = {}" by (auto simp: used_set_def tb)
  ultimately show ?thesis by (simp add: heap_inv_def f)
qed

lemma heap_init_geometry:
  "heap_start (fst (heap_init start sz h m)) = start" "heap_size (fst (heap_init start sz h m)) = sz"
  by (simp_all add: heap_init_def Let_def split_beta)


lemma boot_heap_pre: "heap_init_pre KERNEL_HEAP_START KERNEL_HEAP_SIZE kernel_heap (memory_init 0x200000)"
  by (simp add: heap_init_pre_def kernel_heap_def memory_init_def pmm_alloc_page_def Let_def TOTAL_MEMORY_def
    PAGE_SIZE_def KERNEL_HEAP_START_def KERNEL_HEAP_SIZE_def)

definition boot_heap :: heap where
  "boot_heap = fst (heap_init KERNEL_HEAP_START KERNEL_HEAP_SIZE kernel_heap (memory_init 0x200000))"

lemma boot_heap_inv: "heap_inv boot_heap {}"
  unfolding boot_heap_def by (rule heap_init_inv [OF boot_heap_pre])

lemma boot_heap_simps:
  "total_blocks boot_heap = 0x100000" "heap_start boot_heap = 0x800000" "lock_free (hp_lock boot_heap)"
  "hp_bitmap boot_heap = (\<lambda>_. 0)"
  by (simp_all add: boot_heap_def heap_init_def kernel_heap_def memory_init_def pmm_alloc_page_def Let_def
    TOTAL_MEMORY_def PAGE_SIZE_def KERNEL_HEAP_START_def KERNEL_HEAP_SIZE_def HEAP_BLOCK_SIZE_def spinlock_init_def fun_eq_iff)


text \<open>
  C16. Allocation is first fit. A request is refused exactly when its size wraps around or no run
  of free blocks is long enough; otherwise the block returned is the lowest run that fits, its
  bits (and no others) are set, and all allocations made before are untouched.
\<close>

theorem kmalloc_first_fit:
  assumes "heap_inv h L" "sz \<noteq> 0"
  shows "(\<exists>s. kmalloc sz h = Inr (block_addr h s + HEADER_SIZE, heap_take s sz h) \<and>
      0 < unat (blocks_for sz) \<and> s + unat (blocks_for sz) \<le> unat (total_blocks h) \<and>
      \<not> run_blocked (hp_bitmap h) (unat (blocks_for sz)) s \<and>
      (\<forall>t < s. run_blocked (hp_bitmap h) (unat (blocks_for sz)) t) \<and>
      heap_inv (heap_take s sz h) (insert (s, unat (blocks_for sz), sz) L)) \<or>
    kmalloc sz h = Inr (0, heap_fail h) \<and> heap_inv (heap_fail h) L \<and>
      (2 ^ 64 \<le> unat sz + 16 \<or> blocks_for sz = 0 \<or>
       (\<forall>t. t + unat (blocks_for sz) \<le> unat (total_blocks h) \<longrightarrow> run_blocked (hp_bitmap h) (unat (blocks_for sz)) t))"
  using assms by (cases rule: kmalloc_cases) blast+

theorem kmalloc_first_fit_witness:
  "(\<exists>s. kmalloc 100 boot_heap = Inr (block_addr boot_heap s + HEADER_SIZE, heap_take s 100 boot_heap) \<and>
      0 < unat (blocks_for 100) \<and> s + unat (blocks_for 100) \<le> unat (total_blocks boot_heap) \<and>
      \<not> run_blocked (hp_bitmap boot_heap) (unat (blocks_for 100)) s \<and>
      (\<forall>t < s. run_blocked (hp_bitmap boot_heap) (unat (blocks_for 100)) t) \<and>
      heap_inv (heap_take s 100 boot_heap) (insert (s, unat (blocks_for 100), 100) {}))"
proof -
  have "(100 :: u64) \<noteq> 0" by simp
  from kmalloc_first_fit [OF boot_heap_inv this] show ?thesis
  proof (elim disjE conjE)
    assume "\<forall>t. t + unat (blocks_for 100) \<le> unat (total_blocks boot_heap) \<longrightarrow>
      run_blocked (hp_bitmap boot_heap) (unat (blocks_for 100)) t"
    from spec [OF this, of 0] show ?thesis
      by (simp add: boot_heap_simps run_blocked_def bm_test_bit blocks_for_def HEADER_SIZE_def HEAP_BLOCK_SIZE_def)
  qed (simp_all add: blocks_for_def HEADER_SIZE_def HEAP_BLOCK_SIZE_def)
qed

text \<open>
  Allocating and releasing again leaves bitmap and block count as they were, and a second
  release of the same pointer is refused: it only counts an invalid free.
\<close>

theorem kmalloc_kfree_roundtrip:
  assumes "heap_inv h L" "sz \<noteq> 0" "kmalloc sz h = Inr (p, h1)" "p \<noteq> 0"
  shows "\<exists>h2. kfree p h1 = Inr h2 \<and> hp_bitmap h2 = hp_bitmap h \<and> used_blocks h2 = used_blocks h \<and> heap_inv h2 L \<and>
    kfree p h2 = Inr (h2\<lparr>invalid_frees := invalid_frees h2 + 1\<rparr>)"
  using assms(1,2)
proof (cases rule: kmalloc_cases)
  case (fits s n)
  with assms(3) have ph: "p = block_addr h s + HEADER_SIZE" "h1 = heap_take s sz h" by auto
  obtain bm where bm: "kfree p h1 = Inr (heap_release s n bm h1)"
    "\<forall>k. bm_test bm k \<longleftrightarrow> bm_test (hp_bitmap h1) k \<and> k \<notin> {s..<s + n}"
    "heap_inv (heap_release s n bm h1) (insert (s, n, sz) L - {(s, n, sz)})"
    using kfree_live [OF fits(8), of s n sz] ph by auto
  let ?h = "heap_release s n bm h1"
  have "bm = hp_bitmap h"
  proof (rule bm_eqI)
    fix k
    have "\<not> bm_test (hp_bitmap h) k" if "k \<in> {s..<s + n}" using fits(6) that by (auto simp: run_blocked_def)
    then show "bm_test bm k = bm_test (hp_bitmap h) k"
      using spec [OF bm(2), of k] fits(2) by (auto simp: ph heap_take_def Let_def)
  qed
  moreover have "used_blocks ?h = used_blocks h"
    by (simp add: heap_release_def ph heap_take_def Let_def fits(2))
  moreover have "heap_inv ?h L"
  proof -
    have "(s, n, sz) \<notin> L" using fits(3,9) by (force simp: blocks_of_def)
    then show ?thesis using bm(3) by simp
  qed
  moreover have "kfree p ?h = Inr (?h\<lparr>invalid_frees := invalid_frees ?h + 1\<rparr>)"
    using kfree_stale [of ?h s] bm(3) fits(3,5) ph
    by (simp add: heap_inv_def) (simp add: heap_release_def HEAP_ALLOC_MAGIC_def)
  ultimately show ?thesis using bm(1) by (intro exI [of _ ?h]) simp
qed (use assms in simp)

lemma heap_scan_empty:
  assumes "0 < n" "n \<le> tot"
  shows "heap_scan (\<lambda>_. 0) n 0 tot 0 0 = Some 0"
proof -
  have nb: "\<not> run_blocked (\<lambda>_. 0) n t" for t by (simp add: run_blocked_def bm_test_bit)
  have "scan_ok (\<lambda>_. 0) n tot (heap_scan (\<lambda>_. 0) n 0 tot 0 0)"
    using heap_scan_spec [of 0 n 0 0 "\<lambda>_. 0" tot] assms by simp
  with nb assms show ?thesis
    by (cases "heap_scan (\<lambda>_. 0) n 0 tot 0 0") (auto simp: scan_ok_def dest: spec [of _ 0])
qed

lemma boot_heap_alloc:
  assumes "sz \<noteq> 0" "unat sz + 32 \<le> 0x1000000"
  shows "kmalloc sz boot_heap = Inr (0x800010, heap_take 0 sz boot_heap)"
proof -
  have nw: "\<not> sz + HEADER_SIZE < sz" using no_wrap_iff [of sz] assms(2) by simp
  have "blocks_for sz = (sz + 31) div 16"
    by (simp add: blocks_for_def HEADER_SIZE_def HEAP_BLOCK_SIZE_def add.commute)
  moreover have "unat (sz + 31) = unat sz + 31" using assms(2) by (subst unat_add_small) simp_all
  ultimately have "unat (blocks_for sz) = (unat sz + 31) div 16" by (simp add: unat_div)
  then have "0 < unat (blocks_for sz)" "unat (blocks_for sz) \<le> 0x100000" using assms(2) by simp_all
  then show ?thesis
    unfolding kmalloc_unfold [OF boot_heap_simps(3) assms(1)]
    using nw by (simp add: boot_heap_simps heap_scan_empty block_addr_def HEADER_SIZE_def)
qed

theorem kmalloc_kfree_roundtrip_witness:
  "\<exists>h2. kfree 0x800010 (heap_take 0 100 boot_heap) = Inr h2 \<and> hp_bitmap h2 = hp_bitmap boot_heap \<and>
    used_blocks h2 = used_blocks boot_heap \<and> heap_inv h2 {} \<and>
    kfree 0x800010 h2 = Inr (h2\<lparr>invalid_frees := invalid_frees h2 + 1\<rparr>)"
  by (rule kmalloc_kfree_roundtrip [OF boot_heap_inv _ boot_heap_alloc [of 100]]) simp_all

text \<open>
  The bitmap of the kernel's 16 MB heap does not fit the page allocated for it: the byte of
  block 32768 is the first byte of the next page the page allocator hands out, and \<open>heap_init\<close>
  itself clears that page; the byte of block 65536 is past the bytes that \<open>heap_init\<close> clears.
\<close>

theorem heap_bitmap_overruns_page:
  assumes "pmm_wf m" "2 \<le> unat (free_pages m)"
    and "heap_init KERNEL_HEAP_START KERNEL_HEAP_SIZE h m = (h', m')"
  shows "unat (fst (pmm_alloc_page m')) = unat (hp_bitmap_ptr h') + 32768 div 8 \<and>
    32768 < unat (total_blocks h') \<and> 32768 div 8 < HEAP_BITMAP_SIZE \<and> hp_bitmap h' (32768 div 8) = 0 \<and>
    65536 < unat (total_blocks h') \<and> hp_bitmap h' (65536 div 8) = hp_bitmap h (65536 div 8)"
proof -
  have nz: "free_pages m \<noteq> 0" using assms(2) by auto
  have np: "fst (pmm_alloc_page m) \<noteq> 0" using pmm_alloc_nonzero [OF assms(1)] nz by simp
  obtain pg m1 where pg: "pmm_alloc_page m = (pg, m1)" by (cases "pmm_alloc_page m")
  have h': "m' = m1" "hp_bitmap_ptr h' = pg" "total_blocks h' = 0x100000"
    "hp_bitmap h' = (\<lambda>i. if i < 8192 then 0 else hp_bitmap h i)"
    using assms(3) np pg by (auto simp: heap_init_def Let_def KERNEL_HEAP_SIZE_def HEAP_BLOCK_SIZE_def HEAP_BITMAP_SIZE_def)
  have "pg = next_free_page m" "unat (next_free_page m1) = unat (next_free_page m) + 4096"
    "unat (free_pages m1) = unat (free_pages m) - 1"
    using pmm_alloc_cases [OF assms(1)] nz pg by auto
  moreover from this assms(2) have "free_pages m1 \<noteq> 0" by auto
  ultimately have "unat (fst (pmm_alloc_page m1)) = unat pg + 4096" by (simp add: pmm_alloc_page_def)
  with h' show ?thesis by (simp add: HEAP_BITMAP_SIZE_def)
qed

theorem heap_bitmap_overruns_page_witness:
  "unat (fst (pmm_alloc_page (snd (heap_init KERNEL_HEAP_START KERNEL_HEAP_SIZE kernel_heap (memory_init 0x200000))))) =
     unat (hp_bitmap_ptr boot_heap) + 32768 div 8"
  using heap_bitmap_overruns_page [OF memory_init_wf [of "0x200000"],
      where h = kernel_heap and h' = boot_heap
        and m' = "snd (heap_init KERNEL_HEAP_START KERNEL_HEAP_SIZE kernel_heap (memory_init 0x200000))"]
  by (simp add: boot_heap_def) (simp add: memory_init_def Let_def TOTAL_MEMORY_def PAGE_SIZE_def)

end
