(* ===== verification/Sync.thy ===== *)
theory Sync
  imports Spinlock
begin

text \<open>
  The recursive mutex of \<^verbatim>\<open>src/kernel/sync.c\<close>. A thread is the address of its
  control block, 0 the null pointer; \<open>current_thread\<close> is an argument. The waiting loop of
  \<open>mutex_lock\<close> gives the processor away in \<open>thread_yield\<close>; what the other threads
  do to the mutex meanwhile is a list of functions, one per yield.
\<close>

section \<open>Data and operations\<close>

record mutex =
  mx_lock :: spinlock
  mx_owner :: addr
  recursion_count :: u32

record mutex_stats =
  lock_calls :: u64
  try_lock_calls :: u64
  unlock_calls :: u64
  contention_loops :: u64
  owner_violations :: u64

definition mutex_init :: mutex where
  "mutex_init = \<lparr>mx_lock = spinlock_init, mx_owner = 0, recursion_count = 0\<rparr>"

definition mutex_stats0 :: mutex_stats where
  "mutex_stats0 = \<lparr>lock_calls = 0, try_lock_calls = 0, unlock_calls = 0, contention_loops = 0, owner_violations = 0\<rparr>"

text \<open>
  The loop waiting for ownership, with the spinlock held in \<open>m\<close>. When the list of yields is
  used up, the call has not returned yet: \<open>Inl Spin\<close>.
\<close>

fun mutex_wait :: "addr \<Rightarrow> (mutex \<times> mutex_stats \<Rightarrow> mutex \<times> mutex_stats) list \<Rightarrow> mutex \<Rightarrow> mutex_stats \<Rightarrow>
    (mutex \<times> mutex_stats) res" where
  "mutex_wait cur [] m st =
     (if mx_owner m \<noteq> 0 then Inl Spin
      else Inr (m\<lparr>mx_owner := cur, recursion_count := 1, mx_lock := spinlock_unlock (mx_lock m)\<rparr>, st))"
| "mutex_wait cur (yield # ys) m st =
     (if mx_owner m \<noteq> 0 then
        (let (m1, st1) = yield (m\<lparr>mx_lock := spinlock_unlock (mx_lock m)\<rparr>,
                                st\<lparr>contention_loops := contention_loops st + 1\<rparr>)
         in rbind (spinlock_lock (mx_lock m1)) (\<lambda>l. mutex_wait cur ys (m1\<lparr>mx_lock := l\<rparr>) st1))
      else Inr (m\<lparr>mx_owner := cur, recursion_count := 1, mx_lock := spinlock_unlock (mx_lock m)\<rparr>, st))"

definition mutex_lock :: "addr \<Rightarrow> (mutex \<times> mutex_stats \<Rightarrow> mutex \<times> mutex_stats) list \<Rightarrow> mutex \<times> mutex_stats \<Rightarrow>
    (mutex \<times> mutex_stats) res" where
  "mutex_lock cur ys = (\<lambda>(m, st).
     let st1 = st\<lparr>lock_calls := lock_calls st + 1\<rparr> in
     rbind (spinlock_lock (mx_lock m)) (\<lambda>l.
       if mx_owner m = cur
       then Inr (m\<lparr>recursion_count := recursion_count m + 1, mx_lock := spinlock_unlock l\<rparr>, st1)
       else mutex_wait cur ys (m\<lparr>mx_lock := l\<rparr>) st1))"

definition mutex_unlock :: "addr \<Rightarrow> mutex \<times> mutex_stats \<Rightarrow> (mutex \<times> mutex_stats) res" where
  "mutex_unlock cur = (\<lambda>(m, st).
     let st1 = st\<lparr>unlock_calls := unlock_calls st + 1\<rparr> in
     rbind (spinlock_lock (mx_lock m)) (\<lambda>l.
       if mx_owner m \<noteq> cur
       then Inr (m\<lparr>mx_lock := spinlock_unlock l\<rparr>, st1\<lparr>owner_violations := owner_violations st1 + 1\<rparr>)
       else let rc = recursion_count m - 1
            in Inr (m\<lparr>recursion_count := rc, mx_owner := (if rc = 0 then 0 else mx_owner m),
                      mx_lock := spinlock_unlock l\<rparr>, st1)))"

definition mutex_try_lock :: "addr \<Rightarrow> mutex \<times> mutex_stats \<Rightarrow> bool \<times> mutex \<times> mutex_stats" where
  "mutex_try_lock cur = (\<lambda>(m, st).
     let st1 = st\<lparr>try_lock_calls := try_lock_calls st + 1\<rparr>;
         (ok, l) = spinlock_try_lock (mx_lock m)
     in if \<not> ok then (False, m\<lparr>mx_lock := l\<rparr>, st1)
        else if mx_owner m = cur
        then (True, m\<lparr>recursion_count := recursion_count m + 1, mx_lock := spinlock_unlock l\<rparr>, st1)
        else if mx_owner m \<noteq> 0 then (False, m\<lparr>mx_lock := spinlock_unlock l\<rparr>, st1)
        else (True, m\<lparr>mx_owner := cur, recursion_count := 1, mx_lock := spinlock_unlock l\<rparr>, st1))"

definition mutex_get_stats :: "bool \<Rightarrow> mutex_stats \<Rightarrow> mutex_stats option" where
  "mutex_get_stats null_stats st = (if null_stats then None else Some st)"

section \<open>Behaviour of single calls\<close>

definition take_mutex :: "addr \<Rightarrow> mutex \<Rightarrow> mutex" where
  "take_mutex cur m = m\<lparr>mx_owner := cur, recursion_count := 1\<rparr>"

definition nest_mutex :: "mutex \<Rightarrow> mutex" where
  "nest_mutex m = m\<lparr>recursion_count := recursion_count m + 1\<rparr>"

definition drop_mutex :: "mutex \<Rightarrow> mutex" where
  "drop_mutex m = m\<lparr>recursion_count := recursion_count m - 1,
     mx_owner := (if recursion_count m = 1 then 0 else mx_owner m)\<rparr>"

lemma mutex_lock_uncontended:
  assumes "lock_free (mx_lock m)"
  shows "mx_owner m = cur \<Longrightarrow> \<exists>st'. mutex_lock cur ys (m, st) = Inr (nest_mutex m, st')"
    and "mx_owner m = 0 \<Longrightarrow> cur \<noteq> 0 \<Longrightarrow> \<exists>st'. mutex_lock cur ys (m, st) = Inr (take_mutex cur m, st')"
    and "mx_owner m \<noteq> cur \<Longrightarrow> mx_owner m \<noteq> 0 \<Longrightarrow> mutex_lock cur [] (m, st) = Inl Spin"
  using assms by (auto simp: mutex_lock_def Let_def nest_mutex_def take_mutex_def intro!: exI, cases ys, auto)

lemma mutex_unlock_cases:
  assumes "lock_free (mx_lock m)"
  shows "\<exists>st'. mutex_unlock cur (m, st) = Inr (if mx_owner m = cur then drop_mutex m else m, st')"
  using assms by (simp add: mutex_unlock_def Let_def drop_mutex_def)

lemma mutex_try_lock_cases:
  assumes "lock_free (mx_lock m)" "cur \<noteq> 0"
  shows "\<exists>st'. mutex_try_lock cur (m, st) =
    (if mx_owner m = cur then (True, nest_mutex m, st')
     else if mx_owner m = 0 then (True, take_mutex cur m, st') else (False, m, st'))"
  using assms by (auto simp: mutex_try_lock_def try_lock_simps Let_def nest_mutex_def take_mutex_def)

section \<open>Interleaved threads\<close>

text \<open>
  Any number of threads call the operations on one mutex. \<open>ms_held t\<close> counts the locks that
  thread \<open>t\<close> has been granted and not given back. A call that has to wait is not a step;
  the step is its return. The recursion counter has 32 bits, so a thread that nests deeper than
  that is not covered.
\<close>

record mutex_sys =
  ms_mutex :: mutex
  ms_stats :: mutex_stats
  ms_held :: "addr \<Rightarrow> nat"

definition mutex_start :: mutex_sys where
  "mutex_start = \<lparr>ms_mutex = mutex_init, ms_stats = mutex_stats0, ms_held = (\<lambda>_. 0)\<rparr>"

inductive mutex_step :: "mutex_sys \<Rightarrow> mutex_sys \<Rightarrow> bool" where
  lock: "t \<noteq> 0 \<Longrightarrow> ms_held s t < 2 ^ 32 - 1 \<Longrightarrow> mutex_lock t [] (ms_mutex s, ms_stats s) = Inr (m, st) \<Longrightarrow>
    mutex_step s \<lparr>ms_mutex = m, ms_stats = st, ms_held = (ms_held s)(t := ms_held s t + 1)\<rparr>"
| try_lock: "t \<noteq> 0 \<Longrightarrow> ms_held s t < 2 ^ 32 - 1 \<Longrightarrow> mutex_try_lock t (ms_mutex s, ms_stats s) = (ok, m, st) \<Longrightarrow>
    mutex_step s \<lparr>ms_mutex = m, ms_stats = st, ms_held = (ms_held s)(t := ms_held s t + (if ok then 1 else 0))\<rparr>"
| unlock: "t \<noteq> 0 \<Longrightarrow> mutex_unlock t (ms_mutex s, ms_stats s) = Inr (m, st) \<Longrightarrow>
    mutex_step s \<lparr>ms_mutex = m, ms_stats = st, ms_held = (ms_held s)(t := ms_held s t - 1)\<rparr>"

definition mutex_inv :: "mutex_sys \<Rightarrow> bool" where
  [inv_defs]: "mutex_inv s \<longleftrightarrow> lock_free (mx_lock (ms_mutex s)) \<and>
     (let w = mx_owner (ms_mutex s) in
      (\<forall>t. t \<noteq> w \<longrightarrow> ms_held s t = 0) \<and>
      ms_held s w = unat (recursion_count (ms_mutex s)) \<and> (w = 0 \<longleftrightarrow> ms_held s w = 0))"

lemma frame_mutex [simp]:
  "mx_lock (nest_mutex m) = mx_lock m" "mx_owner (nest_mutex m) = mx_owner m"
  "mx_lock (take_mutex c m) = mx_lock m" "mx_owner (take_mutex c m) = c" "recursion_count (take_mutex c m) = 1"
  "mx_lock (drop_mutex m) = mx_lock m"
  "mx_owner (drop_mutex m) = (if recursion_count m = 1 then 0 else mx_owner m)"
  "recursion_count (drop_mutex m) = recursion_count m - 1"
  "recursion_count (nest_mutex m) = recursion_count m + 1"
  by (simp_all add: nest_mutex_def take_mutex_def drop_mutex_def)

lemma mutex_inv_start: "mutex_inv mutex_start"
  by (simp add: mutex_inv_def mutex_start_def mutex_init_def spinlock_init_def)

lemma mutex_inv_grant:
  assumes "mutex_inv s" "t \<noteq> 0" "ms_held s t < 2 ^ 32 - 1" "mx_owner (ms_mutex s) = t \<or> mx_owner (ms_mutex s) = 0"
    and "m = (if mx_owner (ms_mutex s) = t then nest_mutex (ms_mutex s) else take_mutex t (ms_mutex s))"
  shows "mutex_inv \<lparr>ms_mutex = m, ms_stats = st, ms_held = (ms_held s)(t := Suc (ms_held s t))\<rparr>"
proof (cases "mx_owner (ms_mutex s) = t")
  case True
  then have "unat (recursion_count (ms_mutex s) + 1) = Suc (unat (recursion_count (ms_mutex s)))"
    using assms(1,3) by (subst unat_add_small) (simp_all add: mutex_inv_def Let_def)
  with True assms show ?thesis by (simp add: mutex_inv_def Let_def)
next
  case False
  with assms have "mx_owner (ms_mutex s) = 0" by simp
  with assms have "ms_held s u = 0" for u by (cases "u = 0") (simp_all add: mutex_inv_def Let_def)
  with False assms show ?thesis by (simp add: mutex_inv_def Let_def)
qed

lemma mutex_inv_drop:
  assumes "mutex_inv s" "t \<noteq> 0" "m = (if mx_owner (ms_mutex s) = t then drop_mutex (ms_mutex s) else ms_mutex s)"
  shows "mutex_inv \<lparr>ms_mutex = m, ms_stats = st, ms_held = (ms_held s)(t := ms_held s t - 1)\<rparr>"
proof (cases "mx_owner (ms_mutex s) = t")
  case True
  let ?r = "recursion_count (ms_mutex s)"
  have nz: "?r \<noteq> 0" using True assms by (auto simp: mutex_inv_def Let_def)
  then have u: "unat (?r - 1) = unat ?r - 1" by (rule unat_pred)
  have "unat ?r = 1 \<longleftrightarrow> ?r = 1" by (simp add: word_unat_eq_iff)
  with True u assms nz show ?thesis
    by (cases "?r = 1") (auto simp: mutex_inv_def Let_def unat_eq_zero)
qed (use assms in \<open>auto simp: mutex_inv_def Let_def fun_upd_idem_iff\<close>)

lemma mutex_inv_step: "mutex_step s s' \<Longrightarrow> mutex_inv s \<Longrightarrow> mutex_inv s'"
proof (induction rule: mutex_step.induct)
  case (lock t s m st)
  then have lf: "lock_free (mx_lock (ms_mutex s))" by (simp add: mutex_inv_def)
  note c = mutex_lock_uncontended [OF lf, where cur = t and st = "ms_stats s"]
  have "mx_owner (ms_mutex s) = t \<or> mx_owner (ms_mutex s) = 0"
    using c(3) lock.hyps(3) by force
  moreover have "m = (if mx_owner (ms_mutex s) = t then nest_mutex (ms_mutex s) else take_mutex t (ms_mutex s))"
    using c(1) [of "[]"] c(2) [of "[]"] lock calculation by (cases "mx_owner (ms_mutex s) = t") auto
  ultimately show ?case using mutex_inv_grant [OF lock.prems lock.hyps(1,2)] by simp
next
  case (try_lock t s ok m st)
  then have lf: "lock_free (mx_lock (ms_mutex s))" by (simp add: mutex_inv_def)
  obtain st' where c: "(ok, m, st) =
      (if mx_owner (ms_mutex s) = t then (True, nest_mutex (ms_mutex s), st')
       else if mx_owner (ms_mutex s) = 0 then (True, take_mutex t (ms_mutex s), st') else (False, ms_mutex s, st'))"
    using mutex_try_lock_cases [OF lf try_lock.hyps(1), of "ms_stats s"] try_lock.hyps(3) by auto
  show ?case
  proof (cases ok)
    case True
    with c show ?thesis
      using mutex_inv_grant [OF try_lock.prems try_lock.hyps(1,2), of m st] by (auto split: if_splits)
  next
    case False
    with c have "m = ms_mutex s" by (auto split: if_splits)
    with try_lock.prems False show ?thesis by (simp add: mutex_inv_def)
  qed
next
  case (unlock t s m st)
  then have lf: "lock_free (mx_lock (ms_mutex s))" by (simp add: mutex_inv_def)
  have "m = (if mx_owner (ms_mutex s) = t then drop_mutex (ms_mutex s) else ms_mutex s)"
    using mutex_unlock_cases [OF lf, of t "ms_stats s"] unlock.hyps(2) by auto
  then show ?case by (rule mutex_inv_drop [OF unlock.prems unlock.hyps(1)])
qed

lemma mutex_inv_holder: "mutex_inv s \<Longrightarrow> 0 < ms_held s t \<Longrightarrow> mx_owner (ms_mutex s) = t"
  unfolding mutex_inv_def Let_def by (metis less_numeral_extra(3))

interpretation mutex_protocol: lock_protocol mutex_start mutex_step mutex_inv "\<lambda>s t. 0 < ms_held s t"
  by unfold_locales (auto intro: mutex_inv_start mutex_inv_step dest: mutex_inv_holder)

section \<open>Waiting\<close>

text \<open>Whether the mutex is found free at one of the yields, and well-behaved until then.\<close>

fun comes_free :: "(mutex \<times> mutex_stats \<Rightarrow> mutex \<times> mutex_stats) list \<Rightarrow> mutex \<Rightarrow> mutex_stats \<Rightarrow> bool" where
  "comes_free [] m st \<longleftrightarrow> mx_owner m = 0"
| "comes_free (yield # ys) m st \<longleftrightarrow> mx_owner m = 0 \<or>
     (let (m1, st1) = yield (m, st\<lparr>contention_loops := contention_loops st + 1\<rparr>)
      in lock_free (mx_lock m1) \<and> comes_free ys m1 st1)"

lemma mutex_wait_spec:
  assumes "lock_free (mx_lock m)"
  shows "if comes_free ys m st
    then \<exists>m' st'. mutex_wait cur ys (m\<lparr>mx_lock := (mx_lock m)\<lparr>locked := 1\<rparr>\<rparr>) st = Inr (m', st') \<and>
      mx_owner m' = cur \<and> recursion_count m' = 1 \<and> lock_free (mx_lock m')
    else mutex_wait cur ys (m\<lparr>mx_lock := (mx_lock m)\<lparr>locked := 1\<rparr>\<rparr>) st = Inl Spin"
  using assms
proof (induction ys arbitrary: m st)
  case (Cons y ys)
  obtain m1 st1 where y: "y (m, st\<lparr>contention_loops := contention_loops st + 1\<rparr>) = (m1, st1)"
    by (cases "y (m, st\<lparr>contention_loops := contention_loops st + 1\<rparr>)")
  from Cons.prems Cons.IH [of m1 st1] y show ?case
    by (cases "lock_free (mx_lock m1)") (auto simp: spinlock_lock_def atomic_exchange_def)
qed auto

section \<open>Properties\<close>

text \<open>
  C14. Mutual exclusion of the recursive mutex: in every state that any interleaving of lock,
  try-lock and unlock calls (by owners or not) can reach, two threads that hold the mutex are
  the same thread, and the recursion counter is exactly the number of locks it still owes.
\<close>

theorem mutex_mutual_exclusion:
  assumes "mutex_step\<^sup>*\<^sup>* mutex_start s" "0 < ms_held s i" "0 < ms_held s j"
  shows "i = j \<and> mx_owner (ms_mutex s) = i \<and> unat (recursion_count (ms_mutex s)) = ms_held s i"
proof -
  have inv: "mutex_inv s" using assms(1) by (rule mutex_protocol.reach_inv)
  then have "mx_owner (ms_mutex s) = i" using assms(2) by (rule mutex_inv_holder)
  with inv mutex_protocol.mutual_exclusion [OF assms] show ?thesis by (simp add: mutex_inv_def Let_def)
qed

definition mutex_example :: mutex_sys where
  "mutex_example = \<lparr>ms_mutex = take_mutex 7 mutex_init, ms_stats = mutex_stats0\<lparr>lock_calls := 1\<rparr>,
     ms_held = (\<lambda>_. 0)(7 := 1)\<rparr>"

lemma mutex_example_reach: "mutex_step\<^sup>*\<^sup>* mutex_start mutex_example"
proof -
  have "mutex_step mutex_start mutex_example"
    using mutex_step.lock [of 7 mutex_start "take_mutex 7 mutex_init" "mutex_stats0\<lparr>lock_calls := 1\<rparr>"]
    by (simp add: mutex_example_def mutex_start_def mutex_lock_def mutex_init_def take_mutex_def
        mutex_stats0_def spinlock_init_def spinlock_unlock_def)
  then show ?thesis by (rule r_into_rtranclp)
qed

theorem mutex_mutual_exclusion_witness:
  "ms_held mutex_example 7 = 1 \<and> mx_owner (ms_mutex mutex_example) = 7"
  using mutex_mutual_exclusion [OF mutex_example_reach, of 7 7] by (simp add: mutex_example_def)

text \<open>
  A contended \<open>mutex_lock\<close> returns, as owner with count 1 and the spinlock free, exactly
  when one of its yields finds the mutex free; until then it keeps yielding and never gives up
  or takes the mutex from its owner.
\<close>

theorem mutex_lock_waits:
  assumes "lock_free (mx_lock m)" "mx_owner m \<noteq> cur"
  shows "if comes_free ys m (st\<lparr>lock_calls := lock_calls st + 1\<rparr>)
    then \<exists>m' st'. mutex_lock cur ys (m, st) = Inr (m', st') \<and>
      mx_owner m' = cur \<and> recursion_count m' = 1 \<and> lock_free (mx_lock m')
    else mutex_lock cur ys (m, st) = Inl Spin"
  using assms mutex_wait_spec [OF assms(1), of ys "st\<lparr>lock_calls := lock_calls st + 1\<rparr>" cur]
  by (auto simp: mutex_lock_def Let_def split: if_splits)

theorem mutex_lock_waits_witness:
  "\<exists>m' st'. mutex_lock 9 [\<lambda>x. x, \<lambda>(m, st). (drop_mutex m, st)] (take_mutex 7 mutex_init, mutex_stats0) = Inr (m', st') \<and>
    mx_owner m' = 9 \<and> recursion_count m' = 1 \<and> lock_free (mx_lock m')"
  using mutex_lock_waits [of "take_mutex 7 mutex_init" 9 "[\<lambda>x. x, \<lambda>(m, st). (drop_mutex m, st)]" mutex_stats0]
  by (simp add: mutex_init_def take_mutex_def drop_mutex_def spinlock_init_def)

text \<open>
  Without a current thread (\<open>current_thread\<close> is null, as before the first
  \<open>schedule\<close>) \<open>mutex_lock\<close> returns on a free mutex but does not take it: the null
  owner is taken for a recursive lock, so another thread's lock succeeds right after.
\<close>

theorem mutex_lock_without_thread:
  assumes "lock_free (mx_lock m)" "mx_owner m = 0" "t \<noteq> 0"
  shows "\<exists>m1 st1 m2 st2. mutex_lock 0 [] (m, st) = Inr (m1, st1) \<and> mx_owner m1 = 0 \<and>
    mutex_lock t [] (m1, st1) = Inr (m2, st2) \<and> mx_owner m2 = t"
proof -
  obtain st1 where 1: "mutex_lock 0 [] (m, st) = Inr (nest_mutex m, st1)"
    using mutex_lock_uncontended(1) [OF assms(1), of 0 "[]" st] assms(2) by auto
  obtain st2 where "mutex_lock t [] (nest_mutex m, st1) = Inr (take_mutex t (nest_mutex m), st2)"
    using mutex_lock_uncontended(2) [of "nest_mutex m" t "[]" st1] assms by auto
  with 1 assms show ?thesis by fastforce
qed

theorem mutex_lock_without_thread_witness:
  "\<exists>m1 st1 m2 st2. mutex_lock 0 [] (mutex_init, mutex_stats0) = Inr (m1, st1) \<and> mx_owner m1 = 0 \<and>
    mutex_lock 5 [] (m1, st1) = Inr (m2, st2) \<and> mx_owner m2 = 5"
  by (rule mutex_lock_without_thread) (simp_all add: mutex_init_def spinlock_init_def)

end
