(* ===== verification/CString.thy ===== *)
theory CString
  imports Prelude "HOL-Library.Sublist"
begin

text \<open>
  The string functions of \<^verbatim>\<open>src/kernel/string.c\<close>. An argument is the list of bytes of
  the object it points into, from the pointer to the end of the object; reading or writing
  past the end is \<open>Inl Fault\<close>. Functions that return a pointer return its offset.
\<close>

section \<open>Definitions\<close>

fun memset :: "u8 list \<Rightarrow> u8 \<Rightarrow> nat \<Rightarrow> u8 list res" where
  "memset s c 0 = Inr s"
| "memset [] c (Suc n) = Inl Fault"
| "memset (x # s) c (Suc n) = rbind (memset s c n) (\<lambda>s'. Inr (c # s'))"

fun memcpy :: "u8 list \<Rightarrow> u8 list \<Rightarrow> nat \<Rightarrow> u8 list res" where
  "memcpy d s 0 = Inr d"
| "memcpy (x # d) (y # s) (Suc n) = rbind (memcpy d s n) (\<lambda>d'. Inr (y # d'))"
| "memcpy d s (Suc n) = Inl Fault"

fun strcmp :: "u8 list \<Rightarrow> u8 list \<Rightarrow> int res" where
  "strcmp (a # s) (b # t) = (if a \<noteq> 0 \<and> a = b then strcmp s t else Inr (int (unat a) - int (unat b)))"
| "strcmp s t = Inl Fault"

fun strncmp :: "u8 list \<Rightarrow> u8 list \<Rightarrow> nat \<Rightarrow> int res" where
  "strncmp s t 0 = Inr 0"
| "strncmp (a # s) (b # t) (Suc n) =
     (if a \<noteq> b then Inr (int (unat a) - int (unat b)) else if a = 0 then Inr 0 else strncmp s t n)"
| "strncmp s t (Suc n) = Inl Fault"

fun strncpy :: "u8 list \<Rightarrow> u8 list \<Rightarrow> nat \<Rightarrow> u8 list res" where
  "strncpy dest src 0 = Inr dest"
| "strncpy (d # dest) (c # src) (Suc n) =
     (if c \<noteq> 0 then rbind (strncpy dest src n) (\<lambda>r. Inr (c # r)) else memset (d # dest) 0 (Suc n))"
| "strncpy dest src (Suc n) = Inl Fault"

fun strlen :: "u8 list \<Rightarrow> nat res" where
  "strlen [] = Inl Fault"
| "strlen (c # s) = (if c = 0 then Inr 0 else rbind (strlen s) (\<lambda>n. Inr (Suc n)))"

text \<open>The copy loop of \<open>strncat\<close>, from the terminator of \<open>dest\<close> on, with the final terminator.\<close>

fun strncat_copy :: "u8 list \<Rightarrow> u8 list \<Rightarrow> nat \<Rightarrow> u8 list res" where
  "strncat_copy (d # dest) src 0 = Inr (0 # dest)"
| "strncat_copy (d # dest) (c # src) (Suc n) =
     (if c \<noteq> 0 then rbind (strncat_copy dest src n) (\<lambda>r. Inr (c # r)) else Inr (0 # dest))"
| "strncat_copy dest src n = Inl Fault"

definition strncat :: "u8 list \<Rightarrow> u8 list \<Rightarrow> nat \<Rightarrow> u8 list res" where
  "strncat dest src n =
     rbind (strlen dest) (\<lambda>dlen. rbind (strncat_copy (drop dlen dest) src n) (\<lambda>r. Inr (take dlen dest @ r)))"

fun strchr_from :: "nat \<Rightarrow> u8 list \<Rightarrow> u8 \<Rightarrow> nat option res" where
  "strchr_from i [] ch = Inl Fault"
| "strchr_from i (c # s) ch =
     (if c = 0 then Inr (if ch = 0 then Some i else None)
      else if c = ch then Inr (Some i) else strchr_from (Suc i) s ch)"

definition strchr :: "u8 list \<Rightarrow> u8 \<Rightarrow> nat option res" where
  "strchr s ch = strchr_from 0 s ch"

fun strrchr_from :: "nat \<Rightarrow> nat option \<Rightarrow> u8 list \<Rightarrow> u8 \<Rightarrow> nat option res" where
  "strrchr_from i found [] ch = Inl Fault"
| "strrchr_from i found (c # s) ch =
     (if c = 0 then Inr (if ch = 0 then Some i else found)
      else strrchr_from (Suc i) (if c = ch then Some i else found) s ch)"

definition strrchr :: "u8 list \<Rightarrow> u8 \<Rightarrow> nat option res" where
  "strrchr s ch = strrchr_from 0 None s ch"

text \<open>The inner loop of \<open>strstr\<close>: whether the needle is at this place of the haystack.\<close>

fun str_here :: "u8 list \<Rightarrow> u8 list \<Rightarrow> bool res" where
  "str_here h [] = Inl Fault"
| "str_here [] (c # t) = (if c = 0 then Inr True else Inl Fault)"
| "str_here (a # h) (c # t) = (if c = 0 then Inr True else if a = c then str_here h t else Inr False)"

fun strstr_from :: "nat \<Rightarrow> u8 list \<Rightarrow> u8 list \<Rightarrow> nat option res" where
  "strstr_from i [] t = Inl Fault"
| "strstr_from i (a # h) t =
     (if a = 0 then Inr None
      else rbind (str_here (a # h) t) (\<lambda>b. if b then Inr (Some i) else strstr_from (Suc i) h t))"

definition strstr :: "u8 list \<Rightarrow> u8 list \<Rightarrow> nat option res" where
  "strstr h t = (case t of [] \<Rightarrow> Inl Fault | c # _ \<Rightarrow> if c = 0 then Inr (Some 0) else strstr_from 0 h t)"

section \<open>C strings\<close>

text \<open>The object holds the string \<open>s\<close>, its terminator, and possibly more bytes.\<close>

definition plain :: "u8 list \<Rightarrow> bool" where
  "plain s \<longleftrightarrow> 0 \<notin> set s"

lemma plain_simps [simp]: "plain []" "plain (c # s) \<longleftrightarrow> c \<noteq> 0 \<and> plain s" "plain (s @ t) \<longleftrightarrow> plain s \<and> plain t"
  by (auto simp: plain_def)

lemma plain_take: "plain s \<Longrightarrow> plain (take n s)"
  by (auto simp: plain_def dest: in_set_takeD)

definition cstr :: "string \<Rightarrow> u8 list" where
  "cstr s = map of_char s"

lemma memset_spec: "n \<le> length s \<Longrightarrow> memset s c n = Inr (replicate n c @ drop n s)"
  by (induction s c n rule: memset.induct) auto

lemma memset_fault: "length s < n \<Longrightarrow> memset s c n = Inl Fault"
  by (induction s c n rule: memset.induct) auto

lemma memcpy_spec: "n \<le> length d \<Longrightarrow> n \<le> length s \<Longrightarrow> memcpy d s n = Inr (take n s @ drop n d)"
  by (induction d s n rule: memcpy.induct) auto

lemma strlen_spec: "plain s \<Longrightarrow> strlen (s @ 0 # r) = Inr (length s)"
  by (induction s) auto

lemma uint_pos: "a \<noteq> 0 \<Longrightarrow> 0 < uint (a :: 'a::len word)"
  using uint_nonnegative [of a] unsigned_eq_0_iff [of a, where 'a = int] by linarith

lemma strcmp_spec:
  "plain s \<Longrightarrow> plain t \<Longrightarrow> \<exists>d. strcmp (s @ 0 # r) (t @ 0 # q) = Inr d \<and> (d = 0 \<longleftrightarrow> s = t) \<and>
     (d < 0 \<longleftrightarrow> (s, t) \<in> lexord {(a, b). a < b})"
proof (induction s arbitrary: t)
  case Nil
  then show ?case by (cases t) (auto dest: uint_pos)
next
  case (Cons a s)
  show ?case
  proof (cases t)
    case Nil
    with Cons.prems show ?thesis by (auto dest: uint_pos)
  next
    case (Cons b t')
    with Cons.IH [of t'] Cons.prems show ?thesis
      by (auto simp: word_less_def word_uint_eq_iff)
  qed
qed

lemma strncpy_spec:
  assumes "plain s" "n \<le> length d"
  shows "strncpy d (s @ 0 # r) n = Inr (take n s @ replicate (n - length s) 0 @ drop n d)"
  using assms
proof (induction s arbitrary: d n)
  case Nil
  then show ?case by (cases n; cases d) (auto simp: memset_spec)
next
  case (Cons c s)
  then show ?case by (cases n; cases d) auto
qed

text \<open>
  The idiom \<open>strncpy(dst, src, k); dst[k] = 0\<close> on a buffer of \<open>k + 1\<close> bytes: the buffer then
  holds the string \<open>take k src\<close>, and the string functions see exactly that.
\<close>

lemma strncpy_truncates:
  assumes "plain s" "length d = Suc k" "strncpy d (s @ 0 # r) k = Inr d'"
  shows "\<exists>q. d'[k := 0] = take k s @ 0 # q"
proof -
  have "d' = take k s @ replicate (k - length s) 0 @ drop k d" using strncpy_spec [OF assms(1), of k d r] assms by simp
  moreover have "drop k d = [d ! k]" using Cons_nth_drop_Suc [of k d] assms(2) by simp
  ultimately have "d'[k := 0] = take k s @ replicate (k - length s) 0 @ [0]"
    by (simp add: list_update_append not_less min_def)
  also have "\<dots> = take k s @ 0 # replicate (k - length s) 0" by (simp add: replicate_append_same)
  finally show ?thesis by blast
qed

lemma strchr_from_spec:
  assumes "plain s" "ch \<noteq> 0"
  shows "strchr_from i (s @ 0 # r) ch = Inr (map_option ((+) i) (first_idx (\<lambda>c. c = ch) s))"
  using assms(1)
proof (induction s arbitrary: i)
  case (Cons c s)
  then show ?case by (cases "c = ch") (auto simp: option.map_comp comp_def intro!: arg_cong [where f = "\<lambda>f. map_option f _"])
qed (use assms in simp)

lemma strrchr_from_spec:
  assumes "plain s" "ch \<noteq> 0"
  shows "\<exists>f. strrchr_from i found (s @ 0 # r) ch = Inr f \<and>
    (if ch \<in> set s then \<exists>k < length s. f = Some (i + k) \<and> s ! k = ch \<and> ch \<notin> set (drop (Suc k) s) else f = found)"
  using assms(1)
proof (induction s arbitrary: i found)
  case (Cons c s)
  let ?found = "if c = ch then Some i else found"
  from Cons obtain f where f: "strrchr_from (Suc i) ?found (s @ 0 # r) ch = Inr f"
    "if ch \<in> set s then \<exists>k < length s. f = Some (Suc i + k) \<and> s ! k = ch \<and> ch \<notin> set (drop (Suc k) s) else f = ?found"
    by fastforce
  show ?case
  proof (cases "ch \<in> set s")
    case True
    with f(2) obtain k where "k < length s" "f = Some (i + Suc k)" "s ! k = ch" "ch \<notin> set (drop (Suc k) s)" by auto
    with f(1) Cons.prems True show ?thesis by (intro exI [of _ f]) (auto intro!: exI [of _ "Suc k"])
  qed (use f Cons.prems in \<open>auto intro!: exI [of _ 0]\<close>)
qed (use assms in simp)

lemma str_here_spec: "plain h \<Longrightarrow> plain t \<Longrightarrow> str_here (h @ 0 # r) (t @ 0 # q) = Inr (take (length t) h = t)"
proof (induction t arbitrary: h)
  case (Cons c t)
  then show ?case by (cases h) auto
next
  case Nil
  then show ?case by (cases h) auto
qed

lemma strstr_from_spec:
  assumes "plain h" "plain t" "t \<noteq> []"
  shows "strstr_from i (h @ 0 # r) (t @ 0 # q) =
    Inr (map_option ((+) i) (first_idx (\<lambda>k. take (length t) (drop k h) = t) [0..<length h]))"
  using assms(1)
proof (induction h arbitrary: i)
  case (Cons a h)
  have "first_idx (\<lambda>k. take (length t) (drop k (a # h)) = t) [Suc 0..<Suc (length h)] =
      first_idx (\<lambda>k. take (length t) (drop k h) = t) [0..<length h]"
    unfolding map_Suc_upt [symmetric] by (simp add: first_idx_map)
  with Cons str_here_spec [of "a # h" t r q] assms(2) show ?case
    by (auto simp: upt_conv_Cons option.map_comp comp_def simp del: upt_Suc intro: option.map_cong)
qed simp

section \<open>Properties\<close>

text \<open>
  On C strings the comparison functions are the lexicographic order on bytes: \<open>strcmp\<close>
  returns 0 exactly for equal strings and a negative number exactly when the first string is
  smaller, whatever bytes follow the terminators.
\<close>

theorem strcmp_lexicographic:
  assumes "plain s" "plain t"
  shows "\<exists>d. strcmp (s @ 0 # r) (t @ 0 # q) = Inr d \<and> (d = 0 \<longleftrightarrow> s = t) \<and>
    (d < 0 \<longleftrightarrow> (s, t) \<in> lexord {(a, b). a < b})"
  using assms by (rule strcmp_spec)

theorem strcmp_lexicographic_witness:
  "\<exists>d. strcmp (cstr ''net'' @ [0]) (cstr ''vfs'' @ [0, 7]) = Inr d \<and> d \<noteq> 0 \<and> d < 0"
  using strcmp_lexicographic [of "cstr ''net''" "cstr ''vfs''" "[]" "[7]"] by (auto simp: cstr_def plain_def)

text \<open>
  \<open>strstr\<close> returns the first place of the haystack where the needle occurs, and reports
  its absence exactly when it occurs nowhere; it never reads past the terminators.
\<close>

theorem strstr_first_occurrence:
  assumes "plain h" "plain t"
  shows "\<exists>k. strstr (h @ 0 # r) (t @ 0 # q) = Inr k \<and>
    (case k of None \<Rightarrow> \<not> sublist t h
     | Some i \<Rightarrow> take (length t) (drop i h) = t \<and> (\<forall>j < i. take (length t) (drop j h) \<noteq> t))"
proof (cases "t = []")
  case False
  then have c: "hd t \<noteq> 0" using assms(2) by (cases t) auto
  let ?k = "first_idx (\<lambda>k. take (length t) (drop k h) = t) [0..<length h]"
  have eq: "strstr (h @ 0 # r) (t @ 0 # q) = Inr (map_option ((+) 0) ?k)"
    using False c strstr_from_spec [OF assms False, of 0 r q] by (cases t) (auto simp: strstr_def)
  have "\<not> sublist t h" if "?k = None"
  proof
    assume "sublist t h"
    then obtain u v where h: "h = u @ t @ v" by (auto simp: sublist_def)
    then have "length u < length h" "take (length t) (drop (length u) h) = t" using False by auto
    with that show False by (auto simp: first_idx_None_iff)
  qed
  with eq show ?thesis by (cases ?k) (auto simp: first_idx_Some_iff)
qed (simp add: strstr_def)

theorem strstr_first_occurrence_witness:
  "\<exists>k. strstr (cstr ''/mnt/disk'' @ [0]) (cstr ''/d'' @ [0]) = Inr k \<and>
    (case k of None \<Rightarrow> \<not> sublist (cstr ''/d'') (cstr ''/mnt/disk'')
     | Some i \<Rightarrow> take (length (cstr ''/d'')) (drop i (cstr ''/mnt/disk'')) = cstr ''/d'' \<and>
         (\<forall>j < i. take (length (cstr ''/d'')) (drop j (cstr ''/mnt/disk'')) \<noteq> cstr ''/d''))"
  by (rule strstr_first_occurrence) (simp_all add: cstr_def)

text \<open>
  The bounded copy that every table of the system uses, \<open>strncpy(dst, src, k)\<close> followed by
  \<open>dst[k] = 0\<close> on a buffer of \<open>k + 1\<close> bytes, never writes outside the buffer and leaves it
  holding the first \<open>k\<close> bytes of the source: a string of that length, equal to the source
  under \<open>strcmp\<close> exactly when the source fits.
\<close>

theorem strncpy_bounded_copy:
  assumes "plain s" "length d = Suc k"
  shows "\<exists>d'. strncpy d (s @ 0 # r) k = Inr d' \<and> length d' = Suc k \<and>
    strlen (d'[k := 0]) = Inr (min k (length s)) \<and>
    (strcmp (d'[k := 0]) (s @ 0 # r) = Inr 0 \<longleftrightarrow> length s \<le> k)"
proof -
  obtain d' where d': "strncpy d (s @ 0 # r) k = Inr d'"
    "d' = take k s @ replicate (k - length s) 0 @ drop k d" using strncpy_spec [OF assms(1), of k d r] assms(2) by simp
  from strncpy_truncates [OF assms d'(1)] obtain q where q: "d'[k := 0] = take k s @ 0 # q" by blast
  have p: "plain (take k s)" using assms(1) by (rule plain_take)
  have "take k s = s \<longleftrightarrow> length s \<le> k" by (metis length_take min.absorb2 min.cobounded1 take_all_iff)
  with strcmp_spec [OF p assms(1), of q r] q have "strcmp (d'[k := 0]) (s @ 0 # r) = Inr 0 \<longleftrightarrow> length s \<le> k" by auto
  moreover have "strlen (d'[k := 0]) = Inr (min k (length s))" using strlen_spec [OF p] q by (simp add: min.commute)
  moreover have "length d' = Suc k" using d'(2) assms(2) by simp
  ultimately show ?thesis using d'(1) by blast
qed

theorem strncpy_bounded_copy_witness:
  "\<exists>d'. strncpy (replicate 4 1) (cstr ''fat32'' @ [0]) 3 = Inr d' \<and> length d' = Suc 3 \<and>
    strlen (d'[3 := 0]) = Inr (min 3 (length (cstr ''fat32''))) \<and>
    (strcmp (d'[3 := 0]) (cstr ''fat32'' @ [0]) = Inr 0 \<longleftrightarrow> length (cstr ''fat32'') \<le> 3)"
  by (rule strncpy_bounded_copy) (simp_all add: cstr_def)

end
