(* ===== verification/Process.thy ===== *)
theory Process
  imports Heap
begin

text \<open>
  Process control blocks and the ready queue of \<^verbatim>\<open>src/kernel/process.c\<close>, with the
  kernel stacks of \<^verbatim>\<open>src/kernel/stack.c\<close>. The control blocks live in a store
  indexed by address; the ready queue is the doubly linked list that the code threads through
  them, with 0 as the null pointer. The heap and the page allocator are part of the state.
\<close>

section \<open>Data\<close>

datatype thread_state = THREAD_READY | THREAD_RUNNING | THREAD_BLOCKED | THREAD_EXITED

record pcb =
  pid :: u32
  p_magic :: u32
  p_state :: thread_state
  p_stack :: addr
  stack_top :: u64
  rsp :: u64
  rip :: u64
  p_arg :: u64
  p_regs :: "u64 list"
  rflags :: u64
  p_uid :: u32
  p_gid :: u32
  pending_signals :: u32
  blocked_signals :: u32
  signal_handlers :: "addr list"
  next_ready :: addr
  prev_ready :: addr
  in_ready_queue :: u8

text \<open>The block after \<open>memset(pcb, 0, sizeof(pcb_t))\<close>; the 15 general registers are one list.\<close>

definition pcb_zero :: pcb where
  "pcb_zero = \<lparr>pid = 0, p_magic = 0, p_state = THREAD_READY, p_stack = 0, stack_top = 0, rsp = 0, rip = 0,
     p_arg = 0, p_regs = replicate 15 0, rflags = 0, p_uid = 0, p_gid = 0, pending_signals = 0,
     blocked_signals = 0, signal_handlers = replicate 32 0, next_ready = 0, prev_ready = 0, in_ready_queue = 0\<rparr>"

definition SIZEOF_PCB :: u64 where "SIZEOF_PCB = 480"
definition PCB_MAGIC :: u32 where "PCB_MAGIC = 0x50434231"
definition KERNEL_STACK_SIZE :: u64 where "KERNEL_STACK_SIZE = 0x1000"

record process_stats =
  live_threads :: u32
  ready_threads :: u32
  running_threads :: u32
  blocked_threads :: u32
  exited_threads :: u32
  total_created :: u32
  total_destroyed :: u32

definition process_stats0 :: process_stats where
  "process_stats0 = \<lparr>live_threads = 0, ready_threads = 0, running_threads = 0, blocked_threads = 0,
     exited_threads = 0, total_created = 0, total_destroyed = 0\<rparr>"

text \<open>
  The globals of the process manager, the store of control blocks, the 64-bit words of stack
  memory, and the two allocators.
\<close>

record proc =
  pcbs :: "addr \<Rightarrow> pcb"
  stack_mem :: "addr \<Rightarrow> u64"
  current_thread :: addr
  next_pid :: u32
  ready_queue_head :: addr
  ready_queue_tail :: addr
  ready_queue_count :: u32
  pstats :: process_stats
  pheap :: heap
  pmem :: memory_map

definition upd_pcb :: "addr \<Rightarrow> (pcb \<Rightarrow> pcb) \<Rightarrow> proc \<Rightarrow> proc" where
  "upd_pcb a f s = s\<lparr>pcbs := (pcbs s)(a := f (pcbs s a))\<rparr>"

section \<open>Kernel stacks\<close>

text \<open>The page is cleared before anyone checks it for null.\<close>

definition kernel_stack_alloc :: "proc \<Rightarrow> addr \<times> proc" where
  "kernel_stack_alloc s =
     (let (stack, m) = pmm_alloc_page (pmem s) in
      (stack, s\<lparr>pmem := m,
        stack_mem := (\<lambda>a. if unat stack \<le> unat a \<and> unat a < unat stack + 4096 then 0 else stack_mem s a)\<rparr>))"

definition kernel_stack_free :: "addr \<Rightarrow> proc \<Rightarrow> proc" where
  "kernel_stack_free stack s = s\<lparr>pmem := pmm_free_page stack (pmem s)\<rparr>"

section \<open>Creation\<close>

text \<open>\<open>*stack_top-- = v\<close>\<close>

definition push_word :: "u64 \<Rightarrow> addr \<times> (addr \<Rightarrow> u64) \<Rightarrow> addr \<times> (addr \<Rightarrow> u64)" where
  "push_word v = (\<lambda>(st, m). (st - 8, m(st := v)))"

fun push_zeros :: "nat \<Rightarrow> addr \<times> (addr \<Rightarrow> u64) \<Rightarrow> addr \<times> (addr \<Rightarrow> u64)" where
  "push_zeros 0 c = c"
| "push_zeros (Suc n) c = push_zeros n (push_word 0 c)"

definition initial_frame :: "addr \<Rightarrow> u64 \<Rightarrow> u64 \<Rightarrow> (addr \<Rightarrow> u64) \<Rightarrow> addr \<times> (addr \<Rightarrow> u64)" where
  "initial_frame stack entry arg m =
     (let top = stack + 8 * (KERNEL_STACK_SIZE div 8 - 1);
          (st, m1) = push_word 0x10 (top, m);
          st = st - 8;
          m2 = m1(st := st + 8);
          c = push_word 0x202 (st, m2);
          c = push_word 0x08 c;
          c = push_word entry c;
          c = push_word arg c;
          (st, m3) = push_zeros 14 c
      in (st, m3(st := 0)))"

definition pcb_create :: "u64 \<Rightarrow> u64 \<Rightarrow> proc \<Rightarrow> (addr \<times> proc) res" where
  "pcb_create entry arg s =
     rbind (kmalloc SIZEOF_PCB (pheap s)) (\<lambda>(p, h).
       if p = 0 then Inr (0, s\<lparr>pheap := h\<rparr>)
       else
         let s1 = (s\<lparr>pheap := h, next_pid := next_pid s + 1, pcbs := (pcbs s)(p := pcb_zero\<lparr>pid := next_pid s,
                     p_magic := PCB_MAGIC, p_state := THREAD_READY, p_arg := arg, next_ready := 0, prev_ready := 0,
                     in_ready_queue := 0\<rparr>)\<rparr>);
             (stack, s2) = kernel_stack_alloc s1;
             s3 = upd_pcb p (p_stack_update (\<lambda>_. stack)) s2
         in if stack = 0 then rbind (kfree p (pheap s3)) (\<lambda>h1. Inr (0, s3\<lparr>pheap := h1\<rparr>))
            else let (st, m) = initial_frame stack entry arg (stack_mem s3);
                     s4 = upd_pcb p (rsp_update (\<lambda>_. st)) (s3\<lparr>stack_mem := m\<rparr>);
                     ps = pstats s4
                 in Inr (p, s4\<lparr>pstats := ps\<lparr>total_created := total_created ps + 1,
                                          live_threads := live_threads ps + 1\<rparr>\<rparr>))"

definition thread_create :: "u64 \<Rightarrow> u64 \<Rightarrow> proc \<Rightarrow> (addr \<times> proc) res" where
  "thread_create entry arg s = pcb_create entry arg s"

section \<open>The ready queue\<close>

definition pcb_add_to_ready_queue :: "addr \<Rightarrow> proc \<Rightarrow> proc res" where
  "pcb_add_to_ready_queue p s =
     (if p = 0 then Inr s
      else if p_magic (pcbs s p) \<noteq> PCB_MAGIC then Inl Panic
      else if p_state (pcbs s p) = THREAD_EXITED \<or> in_ready_queue (pcbs s p) \<noteq> 0 then Inr s
      else
        let s1 = upd_pcb p (\<lambda>b. b\<lparr>p_state := THREAD_READY, next_ready := 0\<rparr>) s;
            s2 = (if ready_queue_tail s1 = 0
                  then upd_pcb p (prev_ready_update (\<lambda>_. 0)) (s1\<lparr>ready_queue_head := p, ready_queue_tail := p\<rparr>)
                  else let t = ready_queue_tail s1 in
                    (upd_pcb t (next_ready_update (\<lambda>_. p)) (upd_pcb p (prev_ready_update (\<lambda>_. t)) s1))\<lparr>ready_queue_tail := p\<rparr>)
        in Inr ((upd_pcb p (in_ready_queue_update (\<lambda>_. 1)) s2)\<lparr>ready_queue_count := ready_queue_count s2 + 1\<rparr>))"

definition pcb_remove_from_ready_queue :: "addr \<Rightarrow> proc \<Rightarrow> proc res" where
  "pcb_remove_from_ready_queue p s =
     (if p = 0 then Inr s
      else if p_magic (pcbs s p) \<noteq> PCB_MAGIC then Inl Panic
      else if in_ready_queue (pcbs s p) = 0 then Inr s
      else
        let prev = prev_ready (pcbs s p);
            s1 = (if prev \<noteq> 0 then upd_pcb prev (next_ready_update (\<lambda>_. next_ready (pcbs s p))) s
                  else s\<lparr>ready_queue_head := next_ready (pcbs s p)\<rparr>);
            nxt = next_ready (pcbs s1 p);
            s2 = (if nxt \<noteq> 0 then upd_pcb nxt (prev_ready_update (\<lambda>_. prev_ready (pcbs s1 p))) s1
                  else s1\<lparr>ready_queue_tail := prev_ready (pcbs s1 p)\<rparr>);
            s3 = upd_pcb p (\<lambda>b. b\<lparr>next_ready := 0, prev_ready := 0, in_ready_queue := 0\<rparr>) s2
        in if \<not> ready_queue_count s3 > 0 then Inl Panic
           else Inr (s3\<lparr>ready_queue_count := ready_queue_count s3 - 1\<rparr>))"

definition pcb_get_next_ready :: "proc \<Rightarrow> (addr \<times> proc) res" where
  "pcb_get_next_ready s =
     (if ready_queue_head s \<noteq> 0
      then let p = ready_queue_head s in rbind (pcb_remove_from_ready_queue p s) (\<lambda>s1. Inr (p, s1))
      else Inr (0, s))"

definition pcb_get_ready_queue_count :: "proc \<Rightarrow> u32" where
  "pcb_get_ready_queue_count s = ready_queue_count s"

section \<open>Destruction and bookkeeping\<close>

definition pcb_destroy :: "addr \<Rightarrow> proc \<Rightarrow> proc res" where
  "pcb_destroy p s =
     (if p = 0 then Inr s
      else if p_magic (pcbs s p) \<noteq> PCB_MAGIC then Inl Panic
      else rbind (if in_ready_queue (pcbs s p) \<noteq> 0 then pcb_remove_from_ready_queue p s else Inr s) (\<lambda>s1.
        let s2 = (if p_stack (pcbs s1 p) \<noteq> 0 then kernel_stack_free (p_stack (pcbs s1 p)) s1 else s1);
            s3 = upd_pcb p (p_magic_update (\<lambda>_. 0)) s2;
            ps = pstats s3;
            ps1 = (if live_threads ps > 0 then ps\<lparr>live_threads := live_threads ps - 1\<rparr> else ps);
            s4 = s3\<lparr>pstats := ps1\<lparr>total_destroyed := total_destroyed ps1 + 1\<rparr>\<rparr>
        in rbind (kfree p (pheap s4)) (\<lambda>h. Inr (s4\<lparr>pheap := h\<rparr>))))"

definition process_init :: "proc \<Rightarrow> proc" where
  "process_init s = s\<lparr>ready_queue_head := 0, ready_queue_tail := 0, ready_queue_count := 0,
     current_thread := 0, pstats := process_stats0\<rparr>"

definition scheduler_set_current :: "addr \<Rightarrow> proc \<Rightarrow> proc" where
  "scheduler_set_current p s = s\<lparr>current_thread := p\<rparr>"

definition process_get_stats :: "bool \<Rightarrow> proc \<Rightarrow> process_stats option" where
  "process_get_stats null_stats s =
     (if null_stats then None
      else let c = current_thread s in
        Some ((pstats s)\<lparr>ready_threads := ready_queue_count s,
          running_threads := (if c \<noteq> 0 \<and> p_state (pcbs s c) = THREAD_RUNNING then 1 else 0),
          blocked_threads := (if c \<noteq> 0 \<and> p_state (pcbs s c) = THREAD_BLOCKED then 1 else 0)\<rparr>))"

section \<open>The linked list as a list\<close>

definition first_or :: "addr list \<Rightarrow> addr \<Rightarrow> addr" where
  "first_or xs d = (if xs = [] then d else hd xs)"

definition last_or :: "addr list \<Rightarrow> addr \<Rightarrow> addr" where
  "last_or xs d = (if xs = [] then d else last xs)"

lemma ends_simps [simp]:
  "first_or [] d = d" "first_or (x # xs) d = x" "last_or [] d = d" "last_or (xs @ [x]) d = x"
  "first_or (xs @ ys) d = first_or xs (first_or ys d)" "last_or (x # xs) d = last_or xs x"
  "last_or (xs @ x # ys) d = last_or ys x"
  by (auto simp: first_or_def last_or_def)

text \<open>The blocks \<open>xs\<close> are chained, after \<open>p\<close> and before \<open>n\<close>.\<close>

fun links :: "(addr \<Rightarrow> pcb) \<Rightarrow> addr \<Rightarrow> addr list \<Rightarrow> addr \<Rightarrow> bool" where
  "links M p [] n \<longleftrightarrow> True"
| "links M p (x # xs) n \<longleftrightarrow> prev_ready (M x) = p \<and> next_ready (M x) = first_or xs n \<and> links M x xs n"

lemma links_append:
  "links M p (xs @ ys) n \<longleftrightarrow> links M p xs (first_or ys n) \<and> links M (last_or xs p) ys n"
  by (induction xs arbitrary: p) auto

lemma links_cong:
  assumes "\<And>x. x \<in> set xs \<Longrightarrow> prev_ready (M x) = prev_ready (N x) \<and> next_ready (M x) = next_ready (N x)"
  shows "links M p xs n = links N p xs n"
  using assms by (induction xs arbitrary: p) auto

lemma links_other: "a \<notin> set xs \<Longrightarrow> links (M(a := b)) p xs n = links M p xs n"
  by (rule links_cong) auto

lemma links_set_next:
  assumes "links M p (xs @ [t]) n" "t \<notin> set xs"
  shows "links (M(t := (M t)\<lparr>next_ready := n'\<rparr>)) p (xs @ [t]) n'"
  using assms by (simp add: links_append links_other)

lemma links_set_prev:
  assumes "links M p (x # xs) n" "x \<notin> set xs"
  shows "links (M(x := (M x)\<lparr>prev_ready := p'\<rparr>)) p' (x # xs) n"
  using assms by (simp add: links_other)

text \<open>
  The queue holds exactly the blocks \<open>xs\<close>, in order, among the live blocks \<open>T\<close>: every live
  block carries the magic number and knows whether it is queued.
\<close>

definition queue_inv :: "proc \<Rightarrow> addr set \<Rightarrow> addr list \<Rightarrow> bool" where
  [inv_defs]: "queue_inv s T xs \<longleftrightarrow> distinct xs \<and> set xs \<subseteq> T \<and> 0 \<notin> T \<and>
     ready_queue_head s = first_or xs 0 \<and> ready_queue_tail s = last_or xs 0 \<and> links (pcbs s) 0 xs 0 \<and>
     unat (ready_queue_count s) = length xs \<and>
     (\<forall>a \<in> T. p_magic (pcbs s a) = PCB_MAGIC \<and> (in_ready_queue (pcbs s a) \<noteq> 0 \<longleftrightarrow> a \<in> set xs))"

lemma upd_pcb_simps [simp]:
  "pcbs (upd_pcb a f s) = (pcbs s)(a := f (pcbs s a))" "ready_queue_head (upd_pcb a f s) = ready_queue_head s"
  "ready_queue_tail (upd_pcb a f s) = ready_queue_tail s" "ready_queue_count (upd_pcb a f s) = ready_queue_count s"
  "current_thread (upd_pcb a f s) = current_thread s" "pheap (upd_pcb a f s) = pheap s" "pmem (upd_pcb a f s) = pmem s"
  "next_pid (upd_pcb a f s) = next_pid s" "stack_mem (upd_pcb a f s) = stack_mem s" "pstats (upd_pcb a f s) = pstats s"
  by (simp_all add: upd_pcb_def)

text \<open>What the queue operations leave alone: everything but the links, flags and states.\<close>

definition same_but_queue :: "proc \<Rightarrow> proc \<Rightarrow> bool" where
  "same_but_queue s s' \<longleftrightarrow> current_thread s' = current_thread s \<and> pheap s' = pheap s \<and> pmem s' = pmem s \<and>
     next_pid s' = next_pid s \<and> stack_mem s' = stack_mem s \<and> pstats s' = pstats s \<and>
     (\<forall>a. p_magic (pcbs s' a) = p_magic (pcbs s a) \<and> p_stack (pcbs s' a) = p_stack (pcbs s a) \<and>
        rsp (pcbs s' a) = rsp (pcbs s a) \<and> pid (pcbs s' a) = pid (pcbs s a))"

lemma add_fresh:
  assumes inv: "queue_inv s T xs" and p: "p \<in> T" "p \<notin> set xs" "p_state (pcbs s p) \<noteq> THREAD_EXITED"
    and len: "length xs + 1 < 2 ^ 32"
  shows "\<exists>s'. pcb_add_to_ready_queue p s = Inr s' \<and> queue_inv s' T (xs @ [p]) \<and> same_but_queue s s' \<and>
    (\<forall>a. p_state (pcbs s' a) = (if a = p then THREAD_READY else p_state (pcbs s a)))"
proof -
  have c: "unat (ready_queue_count s + 1) = length xs + 1"
    using inv len by (subst unat_Suc_word) (simp_all add: queue_inv_def)
  have en: "p \<noteq> 0" "p_magic (pcbs s p) = PCB_MAGIC" "in_ready_queue (pcbs s p) = 0"
    using inv p by (auto simp: queue_inv_def)
  show ?thesis
  proof (cases xs rule: rev_cases)
    case Nil
    with inv p c en show ?thesis
      by (auto simp: pcb_add_to_ready_queue_def Let_def queue_inv_def same_but_queue_def)
  next
    case (snoc ys t)
    have t: "t \<noteq> 0" "t \<noteq> p" "t \<notin> set ys" "ready_queue_tail s = t" "t \<in> T"
      using inv p snoc by (auto simp: queue_inv_def)
    define M where "M = pcbs s"
    define b where "b = (M p)\<lparr>p_state := THREAD_READY, next_ready := 0, prev_ready := t, in_ready_queue := 1\<rparr>"
    define M' where "M' = M(t := (M t)\<lparr>next_ready := p\<rparr>, p := b)"
    have "links M 0 (ys @ [t]) 0" using inv snoc by (simp add: queue_inv_def M_def)
    then have "links (M(t := (M t)\<lparr>next_ready := p\<rparr>)) 0 (ys @ [t]) p" using t(3) by (rule links_set_next)
    then have "links M' 0 (xs @ [p]) 0"
      using p(2) snoc t(2) by (simp add: M'_def links_append links_other b_def)
    moreover have "pcb_add_to_ready_queue p s =
      Inr (s\<lparr>pcbs := M', ready_queue_tail := p, ready_queue_count := ready_queue_count s + 1\<rparr>)"
      using en p(3) t by (simp add: pcb_add_to_ready_queue_def Let_def M'_def M_def b_def upd_pcb_def fun_upd_twist)
    ultimately show ?thesis
      using inv p c t snoc en by (auto simp: queue_inv_def same_but_queue_def M'_def M_def b_def)
  qed
qed

lemma remove_queued:
  assumes inv: "queue_inv s T (ys @ p # zs)"
  shows "\<exists>s'. pcb_remove_from_ready_queue p s = Inr s' \<and> queue_inv s' T (ys @ zs) \<and> same_but_queue s s' \<and>
    (\<forall>a. p_state (pcbs s' a) = p_state (pcbs s a))"
proof -
  define M where "M = pcbs s"
  define q where "q = last_or ys 0"
  define r where "r = first_or zs 0"
  have T: "p \<in> T" "set ys \<subseteq> T" "set zs \<subseteq> T" "0 \<notin> T" "distinct (ys @ p # zs)" using inv by (auto simp: queue_inv_def)
  have en: "p \<noteq> 0" "p_magic (M p) = PCB_MAGIC" "in_ready_queue (M p) \<noteq> 0" "ready_queue_count s \<noteq> 0"
    using inv T by (auto simp: queue_inv_def M_def)
  have L: "links M 0 ys p" "prev_ready (M p) = q" "next_ready (M p) = r" "links M p zs 0"
    using inv by (auto simp: queue_inv_def M_def q_def r_def links_append)
  have "ys \<noteq> [] \<Longrightarrow> q \<in> set ys" "zs \<noteq> [] \<Longrightarrow> r \<in> set zs" by (auto simp: q_def r_def last_or_def first_or_def)
  moreover have "0 \<notin> set ys" "0 \<notin> set zs" using T by auto
  ultimately have q: "q = 0 \<longleftrightarrow> ys = []" "ys \<noteq> [] \<Longrightarrow> q \<in> set ys \<and> q \<noteq> p"
    and r: "r = 0 \<longleftrightarrow> zs = []" "zs \<noteq> [] \<Longrightarrow> r \<in> set zs \<and> r \<noteq> p"
    using T by (auto simp: q_def r_def)
  have far: "r \<noteq> 0 \<Longrightarrow> r \<notin> set ys" "q \<noteq> 0 \<Longrightarrow> q \<notin> set zs" using q r T(5) by auto
  define M1 where "M1 = (if q \<noteq> 0 then M(q := (M q)\<lparr>next_ready := r\<rparr>) else M)"
  define M2 where "M2 = (if r \<noteq> 0 then M1(r := (M1 r)\<lparr>prev_ready := q\<rparr>) else M1)"
  define M3 where "M3 = M2(p := (M2 p)\<lparr>next_ready := 0, prev_ready := 0, in_ready_queue := 0\<rparr>)"
  have M1p: "M1 p = M p" using q by (auto simp: M1_def)
  have "links M1 0 ys r"
  proof (cases ys rule: rev_cases)
    case (snoc us u)
    then have "links (M(u := (M u)\<lparr>next_ready := r\<rparr>)) 0 (us @ [u]) r"
      using L(1) T(5) by (intro links_set_next) auto
    then show ?thesis using snoc q by (simp add: M1_def q_def)
  qed simp
  moreover have "links M2 0 ys r = links M1 0 ys r" "links M3 0 ys r = links M2 0 ys r"
    using far T(5) by (auto simp: M2_def M3_def links_other)
  moreover have "links M1 p zs 0" using L(4) far by (simp add: M1_def links_other)
  then have "links M2 q zs 0"
  proof (cases zs)
    case (Cons v vs)
    then have "links (M1(v := (M1 v)\<lparr>prev_ready := q\<rparr>)) q (v # vs) 0"
      using \<open>links M1 p zs 0\<close> T(5) by (intro links_set_prev) auto
    then show ?thesis using Cons r by (simp add: M2_def r_def)
  qed simp
  moreover have "links M3 q zs 0 = links M2 q zs 0" using T(5) by (simp add: M3_def links_other)
  ultimately have lk: "links M3 0 (ys @ zs) 0" by (simp add: links_append q_def r_def)
  have "pcb_remove_from_ready_queue p s =
    Inr (s\<lparr>pcbs := M3, ready_queue_head := (if q \<noteq> 0 then ready_queue_head s else r),
       ready_queue_tail := (if r \<noteq> 0 then ready_queue_tail s else q), ready_queue_count := ready_queue_count s - 1\<rparr>)"
  proof -
    define s1 where "s1 = s\<lparr>pcbs := M1, ready_queue_head := (if q \<noteq> 0 then ready_queue_head s else r)\<rparr>"
    define s2 where "s2 = s1\<lparr>pcbs := M2, ready_queue_tail := (if r \<noteq> 0 then ready_queue_tail s else q)\<rparr>"
    have 1: "(if q \<noteq> 0 then upd_pcb q (next_ready_update (\<lambda>_. r)) s else s\<lparr>ready_queue_head := r\<rparr>) = s1"
      by (simp add: s1_def M1_def M_def upd_pcb_def)
    have 2: "(if r \<noteq> 0 then upd_pcb r (prev_ready_update (\<lambda>_. q)) s1 else s1\<lparr>ready_queue_tail := q\<rparr>) = s2"
      by (simp add: s2_def M2_def s1_def upd_pcb_def)
    have n: "next_ready (pcbs s1 p) = r" "prev_ready (pcbs s1 p) = q" using L(2,3) M1p by (simp_all add: s1_def)
    have "0 < ready_queue_count s" using en(4) by (simp add: word_gt_0)
    then show ?thesis
      using en(1-3)
      unfolding pcb_remove_from_ready_queue_def Let_def L(2,3) [unfolded M_def] 1 n 2 unfolding M_def
      by (simp add: s2_def s1_def M3_def upd_pcb_def)
  qed
  moreover have frame: "p_magic (M3 a) = p_magic (M a)" "p_stack (M3 a) = p_stack (M a)" "p_state (M3 a) = p_state (M a)"
    "rsp (M3 a) = rsp (M a)" "pid (M3 a) = pid (M a)"
    "in_ready_queue (M3 a) = (if a = p then 0 else in_ready_queue (M a))" for a
    by (auto simp: M3_def M2_def M1_def)
  moreover have "unat (ready_queue_count s - 1) = length (ys @ zs)"
    using inv unat_pred [OF en(4)] by (simp add: queue_inv_def)
  moreover have "(if q \<noteq> 0 then ready_queue_head s else r) = first_or (ys @ zs) 0"
    "(if r \<noteq> 0 then ready_queue_tail s else q) = last_or (ys @ zs) 0"
    using inv q r by (auto simp: queue_inv_def q_def r_def first_or_def last_or_def)
  ultimately show ?thesis
    using inv lk T(5) by (auto simp: queue_inv_def same_but_queue_def frame M_def [symmetric])
qed

lemma next_ready_spec:
  assumes "queue_inv s T xs"
  shows "case xs of [] \<Rightarrow> pcb_get_next_ready s = Inr (0, s)
    | x # ys \<Rightarrow> \<exists>s'. pcb_get_next_ready s = Inr (x, s') \<and> queue_inv s' T ys \<and> same_but_queue s s' \<and>
        (\<forall>a. p_state (pcbs s' a) = p_state (pcbs s a))"
proof (cases xs)
  case (Cons x ys)
  with assms have "ready_queue_head s = x" "x \<noteq> 0" by (auto simp: queue_inv_def)
  with remove_queued [of s T "[]" x ys] assms Cons show ?thesis by (auto simp: pcb_get_next_ready_def Let_def)
qed (use assms in \<open>simp add: pcb_get_next_ready_def queue_inv_def\<close>)

section \<open>The queue interface\<close>

text \<open>
  What the scheduler relies on: an idle element can be put at the end, the first element can be
  taken, and an element that was put or taken does not change which others are idle.
\<close>

fun put_all :: "('a \<Rightarrow> 's \<Rightarrow> 's res) \<Rightarrow> 'a list \<Rightarrow> 's \<Rightarrow> 's res" where
  "put_all put [] s = Inr s"
| "put_all put (a # as) s = rbind (put a s) (put_all put as)"

fun get_n :: "('s \<Rightarrow> ('a \<times> 's) res) \<Rightarrow> nat \<Rightarrow> 's \<Rightarrow> ('a list \<times> 's) res" where
  "get_n get 0 s = Inr ([], s)"
| "get_n get (Suc n) s = rbind (get s) (\<lambda>(a, s1). rbind (get_n get n s1) (\<lambda>(as, s2). Inr (a # as, s2)))"

locale thread_queue =
  fixes inv :: "'s \<Rightarrow> 'a list \<Rightarrow> bool" and idle :: "'s \<Rightarrow> 'a set"
    and put :: "'a \<Rightarrow> 's \<Rightarrow> 's res" and get :: "'s \<Rightarrow> ('a \<times> 's) res"
  assumes put_end: "inv s xs \<Longrightarrow> a \<in> idle s \<Longrightarrow> \<exists>s'. put a s = Inr s' \<and> inv s' (xs @ [a]) \<and> idle s - {a} \<subseteq> idle s'"
    and get_first: "inv s (x # xs) \<Longrightarrow> \<exists>s'. get s = Inr (x, s') \<and> inv s' xs"
begin

lemma put_all_end:
  assumes "inv s xs" "distinct as" "set as \<subseteq> idle s"
  shows "\<exists>s'. put_all put as s = Inr s' \<and> inv s' (xs @ as)"
  using assms
proof (induction as arbitrary: s xs)
  case (Cons a as)
  from put_end [OF Cons.prems(1), of a] Cons.prems(3) obtain s1
    where s1: "put a s = Inr s1" "inv s1 (xs @ [a])" "idle s - {a} \<subseteq> idle s1" by auto
  with Cons.IH [OF s1(2)] Cons.prems show ?case by auto
qed simp

lemma get_n_all: "inv s xs \<Longrightarrow> \<exists>s'. get_n get (length xs) s = Inr (xs, s') \<and> inv s' []"
proof (induction xs arbitrary: s)
  case (Cons x xs)
  from get_first [OF Cons.prems] obtain s1 where "get s = Inr (x, s1)" "inv s1 xs" by blast
  with Cons.IH show ?case by fastforce
qed simp

lemma put_get_fifo:
  assumes "inv s xs" "distinct as" "set as \<subseteq> idle s"
  shows "\<exists>s' s''. put_all put as s = Inr s' \<and> get_n get (length xs + length as) s' = Inr (xs @ as, s'') \<and> inv s'' []"
proof -
  from put_all_end [OF assms] obtain s' where s': "put_all put as s = Inr s'" "inv s' (xs @ as)" by blast
  with get_n_all [OF s'(2)] show ?thesis by auto
qed

end

definition idle_threads :: "addr set \<Rightarrow> proc \<Rightarrow> addr set" where
  "idle_threads T s = {a \<in> T. in_ready_queue (pcbs s a) = 0 \<and> p_state (pcbs s a) \<noteq> THREAD_EXITED}"

definition small_set :: "addr set \<Rightarrow> bool" where
  "small_set T \<longleftrightarrow> finite T \<and> card T < 2 ^ 32"

lemma queue_length:
  assumes "queue_inv s T xs" "small_set T" "p \<in> T" "p \<notin> set xs"
  shows "length xs + 1 < 2 ^ 32"
proof -
  have "card (set (p # xs)) \<le> card T" using assms by (intro card_mono) (auto simp: queue_inv_def small_set_def)
  moreover have "card (set (p # xs)) = length xs + 1" using assms by (simp add: queue_inv_def distinct_card)
  ultimately show ?thesis using assms(2) by (simp add: small_set_def)
qed

interpretation ready_queue: thread_queue "\<lambda>s xs. queue_inv s T xs \<and> small_set T" "idle_threads T"
    pcb_add_to_ready_queue pcb_get_next_ready for T
proof
  fix s xs a assume inv: "queue_inv s T xs \<and> small_set T" and a: "a \<in> idle_threads T s"
  then have p: "a \<in> T" "a \<notin> set xs" "p_state (pcbs s a) \<noteq> THREAD_EXITED"
    by (auto simp: idle_threads_def queue_inv_def)
  with add_fresh [of s T xs a] queue_length [of s T xs a] inv obtain s' where
    s': "pcb_add_to_ready_queue a s = Inr s'" "queue_inv s' T (xs @ [a])"
      "\<forall>b. p_state (pcbs s' b) = (if b = a then THREAD_READY else p_state (pcbs s b))" by blast
  moreover have "idle_threads T s - {a} \<subseteq> idle_threads T s'"
    using inv s'(2,3) by (auto simp: idle_threads_def queue_inv_def)
  ultimately show "\<exists>s'. pcb_add_to_ready_queue a s = Inr s' \<and> (queue_inv s' T (xs @ [a]) \<and> small_set T) \<and>
      idle_threads T s - {a} \<subseteq> idle_threads T s'" using inv by blast
next
  fix s x xs assume "queue_inv s T (x # xs) \<and> small_set T"
  with next_ready_spec [of s T "x # xs"]
  show "\<exists>s'. pcb_get_next_ready s = Inr (x, s') \<and> (queue_inv s' T xs \<and> small_set T)" by auto
qed

section \<open>Threads and the allocators\<close>

text \<open>
  The live threads \<open>T\<close> are allocations of the heap, so there are fewer than \<open>2 ^ 32\<close> of
  them and the queue counter cannot wrap.
\<close>

definition proc_inv :: "proc \<Rightarrow> addr set \<Rightarrow> addr list \<Rightarrow> bool" where
  [inv_defs]: "proc_inv s T xs \<longleftrightarrow> queue_inv s T xs \<and> pmm_wf (pmem s) \<and>
     (\<forall>a \<in> T. unat (p_stack (pcbs s a)) < unat (next_free_page (pmem s))) \<and>
     (\<exists>L. heap_inv (pheap s) L \<and> T \<subseteq> user_ptr (pheap s) ` L)"

lemma live_allocations:
  assumes "heap_inv h L"
  shows "finite L \<and> card L \<le> unat (total_blocks h)"
proof -
  have 1: "fst a < unat (total_blocks h) \<and> fst a \<in> blocks_of a" if "a \<in> L" for a
    using assms that by (cases a) (auto simp: heap_inv_def alloc_ok_def blocks_of_def)
  have "inj_on fst L"
  proof (rule inj_onI, rule ccontr)
    fix a b assume ab: "a \<in> L" "b \<in> L" "fst a = fst b" "a \<noteq> b"
    then have "blocks_of a \<inter> blocks_of b = {}" using assms unfolding heap_inv_def by blast
    moreover have "fst a \<in> blocks_of a" "fst a \<in> blocks_of b" using 1 [OF ab(1)] 1 [OF ab(2)] ab(3) by auto
    ultimately show False by blast
  qed
  moreover have sub: "fst ` L \<subseteq> {..<unat (total_blocks h)}" using 1 by auto
  ultimately have "card L \<le> card {..<unat (total_blocks h)}" by (intro card_inj_on_le) auto
  moreover have "finite L" using \<open>inj_on fst L\<close> sub by (rule inj_on_finite) simp
  ultimately show ?thesis by simp
qed

lemma proc_inv_small: "proc_inv s T xs \<Longrightarrow> small_set T"
proof -
  assume "proc_inv s T xs"
  then obtain L where L: "heap_inv (pheap s) L" "T \<subseteq> user_ptr (pheap s) ` L" by (auto simp: proc_inv_def)
  have "finite L" "card L \<le> unat (total_blocks (pheap s))" using live_allocations [OF L(1)] by auto
  moreover have "unat (total_blocks (pheap s)) < 2 ^ 32" using L(1) unfolding heap_inv_def heap_geometry_def by blast
  moreover have "card T \<le> card L" using \<open>finite L\<close> L(2) by (meson card_image_le card_mono finite_imageI order_trans)
  ultimately show ?thesis using L(2) by (auto simp: small_set_def intro: finite_subset)
qed

lemma user_ptr_inj:
  assumes "heap_inv h L" "a \<in> L" "b \<in> L" "user_ptr h a = user_ptr h b"
  shows "a = b"
proof (rule ccontr)
  assume "a \<noteq> b"
  then show False
    using regions_disjoint [OF assms(1-3)] region_inside [OF assms(1,2)] region_inside [OF assms(1,3)] assms(4) by auto
qed

lemma kmalloc_thread:
  assumes "heap_inv h L" "T \<subseteq> user_ptr h ` L"
  obtains (failed) h' where "kmalloc sz h = Inr (0, h')" "heap_inv h' L" "T \<subseteq> user_ptr h' ` L"
  | (fits) p a h' where "kmalloc sz h = Inr (p, h')" "p \<noteq> 0" "p = user_ptr h' a" "p \<notin> T" "a \<notin> L"
      "heap_inv h' (insert a L)" "T \<subseteq> user_ptr h' ` L"
proof -
  from kheap.al_outcome [OF assms(1), of sz] show thesis
  proof (elim disjE exE conjE)
    fix h' assume h': "kmalloc sz h = Inr (0, h')" "heap_inv h' L" "user_ptr h' = user_ptr h"
    show thesis by (rule failed [OF h'(1,2)]) (use assms(2) h'(3) in simp)
  next
    fix a h' assume h': "kmalloc sz h = Inr (user_ptr h a, h')" "a \<notin> L" "user_ptr h a \<noteq> 0"
      "heap_inv h' (insert a L)" "user_ptr h' = user_ptr h"
    have "user_ptr h a \<notin> T"
    proof
      assume "user_ptr h a \<in> T"
      then obtain b where "b \<in> L" "user_ptr h' a = user_ptr h' b" using assms(2) h'(5) by auto
      then show False using user_ptr_inj [OF h'(4), of a b] h'(2) by auto
    qed
    then show thesis using assms(2) h' by (intro fits [of "user_ptr h a" h' a]) auto
  qed
qed

lemma kfree_thread:
  assumes "heap_inv h L" "a \<in> L" "T \<subseteq> user_ptr h ` L"
  shows "\<exists>h'. kfree (user_ptr h a) h = Inr h' \<and> heap_inv h' (L - {a}) \<and> T - {user_ptr h a} \<subseteq> user_ptr h' ` (L - {a})"
  using kheap.fr_outcome [OF assms(1,2)] assms(3) by fastforce

lemma pmm_alloc_next:
  assumes "pmm_wf m"
  shows "unat (next_free_page m) \<le> unat (next_free_page (snd (pmm_alloc_page m)))"
    and "fst (pmm_alloc_page m) \<noteq> 0 \<Longrightarrow> unat (fst (pmm_alloc_page m)) < unat (next_free_page (snd (pmm_alloc_page m)))"
  using pmm_alloc_cases [OF assms] by (auto split: if_splits)

lemma stack_alloc_simps [simp]:
  "pcbs (snd (kernel_stack_alloc s)) = pcbs s" "ready_queue_head (snd (kernel_stack_alloc s)) = ready_queue_head s"
  "ready_queue_tail (snd (kernel_stack_alloc s)) = ready_queue_tail s"
  "ready_queue_count (snd (kernel_stack_alloc s)) = ready_queue_count s"
  "current_thread (snd (kernel_stack_alloc s)) = current_thread s" "pheap (snd (kernel_stack_alloc s)) = pheap s"
  "pmem (snd (kernel_stack_alloc s)) = snd (pmm_alloc_page (pmem s))"
  "fst (kernel_stack_alloc s) = fst (pmm_alloc_page (pmem s))"
  by (simp_all add: kernel_stack_alloc_def split_beta)

lemma queue_inv_cong:
  assumes "queue_inv s T xs" "ready_queue_head s' = ready_queue_head s" "ready_queue_tail s' = ready_queue_tail s"
    "ready_queue_count s' = ready_queue_count s"
    "\<And>a. a \<in> T \<Longrightarrow> next_ready (pcbs s' a) = next_ready (pcbs s a) \<and> prev_ready (pcbs s' a) = prev_ready (pcbs s a) \<and>
       p_magic (pcbs s' a) = p_magic (pcbs s a) \<and> in_ready_queue (pcbs s' a) = in_ready_queue (pcbs s a)"
  shows "queue_inv s' T xs"
proof -
  have "links (pcbs s') 0 xs 0 = links (pcbs s) 0 xs 0"
    using assms(1,5) by (intro links_cong) (auto simp: queue_inv_def)
  with assms show ?thesis by (auto simp: queue_inv_def)
qed

lemma queue_inv_insert:
  assumes "queue_inv s T xs" "p \<noteq> 0" "p_magic (pcbs s p) = PCB_MAGIC" "in_ready_queue (pcbs s p) = 0" "p \<notin> T"
  shows "queue_inv s (insert p T) xs"
  using assms by (auto simp: queue_inv_def)

lemma create_inv:
  assumes inv: "proc_inv s T xs"
  obtains (failed) s' where "pcb_create entry arg s = Inr (0, s')" "proc_inv s' T xs" "current_thread s' = current_thread s"
      "\<forall>a \<in> T. p_state (pcbs s' a) = p_state (pcbs s a)"
  | (created) p s' where "pcb_create entry arg s = Inr (p, s')" "p \<noteq> 0" "p \<notin> T" "proc_inv s' (insert p T) xs"
      "current_thread s' = current_thread s" "p_state (pcbs s' p) = THREAD_READY"
      "\<forall>a. a \<noteq> p \<longrightarrow> pcbs s' a = pcbs s a"
proof -
  from inv obtain L where L: "heap_inv (pheap s) L" "T \<subseteq> user_ptr (pheap s) ` L" and q: "queue_inv s T xs"
    and pw: "pmm_wf (pmem s)" and below: "\<forall>a \<in> T. unat (p_stack (pcbs s a)) < unat (next_free_page (pmem s))"
    by (auto simp: proc_inv_def)
  from L show thesis
  proof (cases rule: kmalloc_thread [where sz = SIZEOF_PCB])
    case (failed h')
    then have "pcb_create entry arg s = Inr (0, s\<lparr>pheap := h'\<rparr>)" by (simp add: pcb_create_def)
    moreover have "queue_inv (s\<lparr>pheap := h'\<rparr>) T xs" by (rule queue_inv_cong [OF q]) auto
    then have "proc_inv (s\<lparr>pheap := h'\<rparr>) T xs" using failed pw below by (auto simp: proc_inv_def)
    ultimately show thesis by (rule that(1)) simp_all
  next
    case (fits p a h')
    define b where "b = pcb_zero\<lparr>pid := next_pid s, p_magic := PCB_MAGIC, p_state := THREAD_READY, p_arg := arg,
      next_ready := 0, prev_ready := 0, in_ready_queue := 0\<rparr>"
    define s1 where "s1 = s\<lparr>pheap := h', next_pid := next_pid s + 1, pcbs := (pcbs s)(p := b)\<rparr>"
    obtain stack s2 where st: "kernel_stack_alloc s1 = (stack, s2)" by (cases "kernel_stack_alloc s1")
    define s3 where "s3 = upd_pcb p (p_stack_update (\<lambda>_. stack)) s2"
    have s2: "pcbs s2 = (pcbs s)(p := b)" "pheap s2 = h'" "current_thread s2 = current_thread s"
      "ready_queue_head s2 = ready_queue_head s" "ready_queue_tail s2 = ready_queue_tail s"
      "ready_queue_count s2 = ready_queue_count s" "pmm_wf (pmem s2)"
      using pmm_alloc_wf [OF pw] stack_alloc_simps [of s1] unfolding st by (simp_all add: s1_def)
    have nx: "unat (next_free_page (pmem s)) \<le> unat (next_free_page (pmem s2))"
      "stack \<noteq> 0 \<Longrightarrow> unat stack < unat (next_free_page (pmem s2))"
      using pmm_alloc_next [OF pw] stack_alloc_simps(7,8) [of s1] unfolding st by (simp_all add: s1_def)
    have below3: "\<forall>a \<in> T. unat (p_stack (pcbs s3 a)) < unat (next_free_page (pmem s3))"
      using below nx(1) fits(4) by (fastforce simp: s3_def s2)
    have q3: "queue_inv s3 T xs"
      using fits(4) by (intro queue_inv_cong [OF q]) (auto simp: s3_def s2)
    have pre: "pcb_create entry arg s = (if stack = 0 then rbind (kfree p (pheap s3)) (\<lambda>h1. Inr (0, s3\<lparr>pheap := h1\<rparr>))
        else let (st, m) = initial_frame stack entry arg (stack_mem s3);
                     s4 = upd_pcb p (rsp_update (\<lambda>_. st)) (s3\<lparr>stack_mem := m\<rparr>); ps = pstats s4
                 in Inr (p, s4\<lparr>pstats := ps\<lparr>total_created := total_created ps + 1, live_threads := live_threads ps + 1\<rparr>\<rparr>))"
      using fits(1,2) st by (simp add: pcb_create_def s3_def s1_def b_def Let_def)
    show thesis
    proof (cases "stack = 0")
      case True
      obtain h1 where h1: "kfree p h' = Inr h1" "heap_inv h1 L" "T \<subseteq> user_ptr h1 ` L"
        using kfree_thread [OF fits(6), of a T] fits(3-5,7) by auto
      have "queue_inv (s3\<lparr>pheap := h1\<rparr>) T xs" by (rule queue_inv_cong [OF q3]) auto
      then have "proc_inv (s3\<lparr>pheap := h1\<rparr>) T xs" using h1 s2 below3 by (auto simp: proc_inv_def s3_def)
      with pre h1(1) True s2 show thesis by (intro that(1) [of "s3\<lparr>pheap := h1\<rparr>"]) (auto simp: s3_def fits(4))
    next
      case False
      obtain r m where fr: "initial_frame stack entry arg (stack_mem s3) = (r, m)"
        by (cases "initial_frame stack entry arg (stack_mem s3)")
      define s4 where "s4 = upd_pcb p (rsp_update (\<lambda>_. r)) (s3\<lparr>stack_mem := m\<rparr>)"
      define s5 where "s5 = s4\<lparr>pstats := (pstats s4)\<lparr>total_created := total_created (pstats s4) + 1,
        live_threads := live_threads (pstats s4) + 1\<rparr>\<rparr>"
      have eq: "pcb_create entry arg s = Inr (p, s5)" using False fr by (simp add: pre s5_def s4_def Let_def)
      have "queue_inv s5 T xs" by (rule queue_inv_cong [OF q3]) (auto simp: s5_def s4_def s3_def)
      then have "queue_inv s5 (insert p T) xs"
        using fits(2,4) by (intro queue_inv_insert) (simp_all add: s5_def s4_def s3_def s2 b_def)
      moreover have "heap_inv (pheap s5) (insert a L) \<and> insert p T \<subseteq> user_ptr (pheap s5) ` insert a L"
        using fits(3,6,7) by (auto simp: s5_def s4_def s3_def s2)
      moreover have "\<forall>a \<in> insert p T. unat (p_stack (pcbs s5 a)) < unat (next_free_page (pmem s5))"
        using below3 nx(2) [OF False] fits(4) by (auto simp: s5_def s4_def s3_def)
      moreover have "pmm_wf (pmem s5)" by (simp add: s5_def s4_def s3_def s2)
      ultimately have "proc_inv s5 (insert p T) xs" unfolding proc_inv_def by blast
      then show thesis using fits(2,4)
        by (intro that(2) [OF eq]) (simp_all add: s5_def s4_def s3_def s2 b_def)
    qed
  qed
qed

lemma remove1_filter: "distinct xs \<Longrightarrow> xs = ys @ p # zs \<Longrightarrow> ys @ zs = filter ((\<noteq>) p) xs"
proof -
  assume "distinct xs" "xs = ys @ p # zs"
  moreover from this have "filter ((\<noteq>) p) ys = ys" "filter ((\<noteq>) p) zs = zs" by (auto intro!: filter_True)
  ultimately show ?thesis by simp
qed

lemma unlink_thread:
  assumes inv: "queue_inv s T xs" and p: "p \<in> T"
  shows "\<exists>s'. (if in_ready_queue (pcbs s p) \<noteq> 0 then pcb_remove_from_ready_queue p s else Inr s) = Inr s' \<and>
    queue_inv s' T (filter ((\<noteq>) p) xs) \<and> same_but_queue s s' \<and> (\<forall>a. p_state (pcbs s' a) = p_state (pcbs s a))"
proof (cases "p \<in> set xs")
  case True
  then obtain ys zs where xs: "xs = ys @ p # zs" by (auto simp: in_set_conv_decomp)
  have "ys @ zs = filter ((\<noteq>) p) xs" using inv by (intro remove1_filter [OF _ xs]) (simp add: queue_inv_def)
  with remove_queued [of s T ys p zs] inv True p show ?thesis unfolding xs by (auto simp: queue_inv_def)
next
  case False
  then have "filter ((\<noteq>) p) xs = xs" by (auto intro: filter_True)
  with inv p False show ?thesis by (auto simp: queue_inv_def same_but_queue_def)
qed

lemma queue_inv_forget:
  "queue_inv s T xs \<Longrightarrow> p \<notin> set xs \<Longrightarrow> queue_inv s (T - {p}) xs"
  by (auto simp: queue_inv_def)

lemma destroy_inv:
  assumes inv: "proc_inv s T xs" and p: "p \<in> T"
  shows "\<exists>s'. pcb_destroy p s = Inr s' \<and> proc_inv s' (T - {p}) (filter ((\<noteq>) p) xs) \<and>
    current_thread s' = current_thread s \<and> (\<forall>a. p_state (pcbs s' a) = p_state (pcbs s a))"
proof -
  from inv obtain L where L: "heap_inv (pheap s) L" "T \<subseteq> user_ptr (pheap s) ` L" and q: "queue_inv s T xs"
    and pw: "pmm_wf (pmem s)" and below: "\<forall>a \<in> T. unat (p_stack (pcbs s a)) < unat (next_free_page (pmem s))"
    by (auto simp: proc_inv_def)
  have en: "p \<noteq> 0" "p_magic (pcbs s p) = PCB_MAGIC" using q p by (auto simp: queue_inv_def)
  from unlink_thread [OF q p] obtain s1 where
    s1: "(if in_ready_queue (pcbs s p) \<noteq> 0 then pcb_remove_from_ready_queue p s else Inr s) = Inr s1"
      "queue_inv s1 T (filter ((\<noteq>) p) xs)" "same_but_queue s s1" "\<forall>a. p_state (pcbs s1 a) = p_state (pcbs s a)" by blast
  have fr: "pheap s1 = pheap s" "pmem s1 = pmem s" "current_thread s1 = current_thread s"
    "\<And>a. p_stack (pcbs s1 a) = p_stack (pcbs s a)" using s1(3) by (auto simp: same_but_queue_def)
  have free: "(if p_stack (pcbs s1 p) \<noteq> 0 then kernel_stack_free (p_stack (pcbs s1 p)) s1 else s1) = s1"
    using below p by (simp add: kernel_stack_free_def fr pmm_free_allocated word_less_nat_alt)
  obtain a where a: "a \<in> L" "p = user_ptr (pheap s) a" using L(2) p by auto
  from kfree_thread [OF L(1) a(1) L(2)] a obtain h where
    h: "kfree p (pheap s) = Inr h" "heap_inv h (L - {a})" "T - {p} \<subseteq> user_ptr h ` (L - {a})" by auto
  define s3 where "s3 = upd_pcb p (p_magic_update (\<lambda>_. 0)) s1"
  obtain ps where eq: "pcb_destroy p s = Inr (s3\<lparr>pstats := ps, pheap := h\<rparr>)"
    using en h(1) unfolding pcb_destroy_def s1(1) rbind_simps Let_def free s3_def by (simp add: fr Let_def)
  let ?s = "s3\<lparr>pstats := ps, pheap := h\<rparr>"
  have "queue_inv s1 (T - {p}) (filter ((\<noteq>) p) xs)" using s1(2) by (rule queue_inv_forget) simp
  then have "queue_inv ?s (T - {p}) (filter ((\<noteq>) p) xs)" by (rule queue_inv_cong) (auto simp: s3_def)
  then have "proc_inv ?s (T - {p}) (filter ((\<noteq>) p) xs)"
    using h(2,3) pw below by (auto simp: proc_inv_def s3_def fr)
  moreover have "p_state (pcbs ?s b) = p_state (pcbs s b)" for b using s1(4) by (simp add: s3_def)
  moreover have "current_thread ?s = current_thread s" by (simp add: s3_def fr)
  ultimately show ?thesis using eq by blast
qed

section \<open>Properties\<close>

definition proc0 :: proc where
  "proc0 = \<lparr>pcbs = (\<lambda>_. pcb_zero), stack_mem = (\<lambda>_. 0), current_thread = 0, next_pid = 1, ready_queue_head = 0,
     ready_queue_tail = 0, ready_queue_count = 0, pstats = process_stats0, pheap = boot_heap,
     pmem = memory_init 0x200000\<rparr>"

lemma proc0_inv: "proc_inv proc0 {} []"
proof -
  have "queue_inv proc0 {} []" by (simp add: queue_inv_def proc0_def)
  moreover have "pmm_wf (pmem proc0)" unfolding proc0_def by (simp add: memory_init_wf)
  moreover have "heap_inv (pheap proc0) {}" by (simp add: proc0_def boot_heap_inv)
  ultimately show ?thesis by (auto simp: proc_inv_def)
qed

text \<open>
  The linked ready queue is a FIFO queue: adding idle threads and then taking as many threads
  as are queued returns the queued threads followed by the added ones, each exactly once and in
  that order, without a panic.
\<close>

theorem ready_queue_fifo:
  assumes "queue_inv s T xs" "small_set T" "distinct as" "set as \<subseteq> idle_threads T s"
  shows "\<exists>s' s''. put_all pcb_add_to_ready_queue as s = Inr s' \<and>
    get_n pcb_get_next_ready (length xs + length as) s' = Inr (xs @ as, s'') \<and> queue_inv s'' T []"
  using ready_queue.put_get_fifo [where T = T, of s xs as] assms by auto

definition three_threads :: proc where
  "three_threads = proc0\<lparr>pcbs := \<lambda>_. pcb_zero\<lparr>p_magic := PCB_MAGIC\<rparr>\<rparr>"

theorem ready_queue_fifo_witness:
  "\<exists>s' s''. put_all pcb_add_to_ready_queue [32, 16, 48] three_threads = Inr s' \<and>
    get_n pcb_get_next_ready 3 s' = Inr ([32, 16, 48], s'') \<and> queue_inv s'' {16, 32, 48} []"
proof -
  have q: "queue_inv three_threads {16, 32, 48} []"
    by (simp add: queue_inv_def three_threads_def proc0_def pcb_zero_def)
  have i: "set [32, 16, 48] \<subseteq> idle_threads {16, 32, 48} three_threads"
    by (simp add: idle_threads_def three_threads_def pcb_zero_def)
  have e: "length ([] :: addr list) + length [32 :: addr, 16, 48] = 3" by simp
  show ?thesis using ready_queue_fifo [OF q _ _ i] unfolding e by (simp add: small_set_def)
qed

lemma upto_21: "[0..<21] = [0, 1, 2, 3, 4, 5, 6, 7, 8, 9, 10, 11, 12, 13, 14, 15, 16, 17, 18, 19, 20]"
  by (simp add: upt_rec)

lemma fifteen_zeros: "replicate 15 x = [x, x, x, x, x, x, x, x, x, x, x, x, x, x, x]"
  by (simp add: eval_nat_numeral)

lemma push_zeros_14:
  "push_zeros 14 c = push_word 0 (push_word 0 (push_word 0 (push_word 0 (push_word 0 (push_word 0 (push_word 0
     (push_word 0 (push_word 0 (push_word 0 (push_word 0 (push_word 0 (push_word 0 (push_word 0 c)))))))))))))"
  by (simp add: eval_nat_numeral)

text \<open>
  A new thread starts with the interrupt frame the context switch pops: fifteen zero
  registers, the argument, the entry point, the code selector, the flags with interrupts on,
  and the stack selector. The slot of the stack pointer, however, holds 0: its value is written
  one slot lower and overwritten by the flags.
\<close>

theorem pcb_create_frame:
  assumes "kmalloc SIZEOF_PCB (pheap s) = Inr (p, h)" "p \<noteq> 0" "pmm_wf (pmem s)" "free_pages (pmem s) \<noteq> 0"
  shows "\<exists>s'. pcb_create entry arg s = Inr (p, s') \<and> pid (pcbs s' p) = next_pid s \<and> next_pid s' = next_pid s + 1 \<and>
    p_state (pcbs s' p) = THREAD_READY \<and> p_stack (pcbs s' p) = next_free_page (pmem s) \<and>
    rsp (pcbs s' p) = next_free_page (pmem s) + 8 * 491 \<and>
    map (\<lambda>k. stack_mem s' (rsp (pcbs s' p) + 8 * of_nat k)) [0..<21] =
      replicate 15 0 @ [arg, entry, 0x08, 0x202, 0, 0x10]"
proof -
  let ?st = "next_free_page (pmem s)"
  have st: "fst (pmm_alloc_page (pmem s)) = ?st" "?st \<noteq> 0" "unat ?st + 4096 < 2 ^ 64"
  proof -
    have "0 < unat (free_pages (pmem s))" using assms(4) by (simp add: unat_gt_0)
    then show "unat ?st + 4096 < 2 ^ 64" "?st \<noteq> 0" using assms(3) by (auto simp: pmm_wf_def)
  qed (use assms(4) in \<open>simp add: pmm_alloc_page_def\<close>)
  have cleared: "unat ?st \<le> unat (?st + 0xFF0) \<and> unat (?st + 0xFF0) < unat ?st + 4096"
  proof -
    have "unat (?st + 0xFF0) = unat ?st + unat (0xFF0 :: u64)" using st(3) by (intro unat_add_small) simp
    then show ?thesis by simp
  qed
  note cleared' = cleared [unfolded add.commute [of ?st]]
  show ?thesis
    using assms(1,2) st(1,2) cleared'
    by (simp add: pcb_create_def kernel_stack_alloc_def initial_frame_def push_word_def Let_def split_beta
        KERNEL_STACK_SIZE_def push_zeros_14 upto_21 fifteen_zeros)
qed

theorem pcb_create_frame_witness:
  "\<exists>s'. pcb_create 0x105000 7 proc0 = Inr (0x800010, s') \<and> pid (pcbs s' 0x800010) = 1 \<and> next_pid s' = 2 \<and>
    p_state (pcbs s' 0x800010) = THREAD_READY \<and> p_stack (pcbs s' 0x800010) = 0x200000 \<and>
    rsp (pcbs s' 0x800010) = 0x200000 + 8 * 491 \<and>
    map (\<lambda>k. stack_mem s' (rsp (pcbs s' 0x800010) + 8 * of_nat k)) [0..<21] =
      replicate 15 0 @ [7, 0x105000, 0x08, 0x202, 0, 0x10]"
proof -
  have 1: "kmalloc SIZEOF_PCB (pheap proc0) = Inr (0x800010, heap_take 0 480 boot_heap)"
    using boot_heap_alloc [of 480] by (simp add: SIZEOF_PCB_def proc0_def)
  have 2: "pmm_wf (pmem proc0)" using proc0_inv by (simp add: proc_inv_def)
  have 3: "free_pages (pmem proc0) \<noteq> 0" "next_free_page (pmem proc0) = 0x200000" "next_pid proc0 = 1"
    by (simp_all add: proc0_def memory_init_def Let_def TOTAL_MEMORY_def PAGE_SIZE_def)
  show ?thesis using pcb_create_frame [OF 1 _ 2 3(1), of "0x105000" 7] unfolding 3(2,3) by simp
qed

end
