(* ===== verification/Scheduler.thy ===== *)
theory Scheduler
  imports Process
begin

text \<open>
  The round-robin scheduler of \<^verbatim>\<open>src/kernel/scheduler.c\<close>, with \<open>thread_yield\<close> of
  \<^verbatim>\<open>thread.c\<close>, \<open>thread_exit\<close> of \<^verbatim>\<open>process.c\<close> and the timer interrupt of
  \<^verbatim>\<open>timer.c\<close>. A context switch loads the stack pointer of the processor, as the code
  does; nothing else of the processor is modelled.
\<close>

section \<open>Data and operations\<close>

definition TIME_QUANTUM_MS :: u64 where "TIME_QUANTUM_MS = 10"

record scheduler_stats =
  tick_count :: u64
  schedule_count :: u64
  context_switch_count :: u64
  idle_returns :: u64
  quantum_expirations :: u64
  yields :: u64
  add_requests :: u64
  remove_requests :: u64

record sched =
  sproc :: proc
  sstats :: scheduler_stats
  cpu_rsp :: u64
  timer_ticks :: u64

definition set_state :: "addr \<Rightarrow> thread_state \<Rightarrow> sched \<Rightarrow> sched" where
  "set_state a st k = k\<lparr>sproc := upd_pcb a (p_state_update (\<lambda>_. st)) (sproc k)\<rparr>"

definition count :: "(scheduler_stats \<Rightarrow> scheduler_stats) \<Rightarrow> sched \<Rightarrow> sched" where
  "count f k = k\<lparr>sstats := f (sstats k)\<rparr>"

definition set_current :: "addr \<Rightarrow> sched \<Rightarrow> sched" where
  "set_current a k = k\<lparr>sproc := (sproc k)\<lparr>current_thread := a\<rparr>\<rparr>"

definition context_switch_to :: "addr \<Rightarrow> sched \<Rightarrow> sched" where
  "context_switch_to thread k = (if thread = 0 then k else k\<lparr>cpu_rsp := rsp (pcbs (sproc k) thread)\<rparr>)"

definition context_switch :: "addr \<Rightarrow> addr \<Rightarrow> sched \<Rightarrow> sched" where
  "context_switch old_thread new_thread k = (if new_thread = 0 then k else context_switch_to new_thread k)"

text \<open>The second half of \<open>schedule\<close>: take the next thread, or keep the current one.\<close>

definition schedule_next :: "addr \<Rightarrow> sched \<Rightarrow> sched res" where
  "schedule_next cur k2 =
     rbind (pcb_get_next_ready (sproc k2)) (\<lambda>(nxt, s).
       let k3 = k2\<lparr>sproc := s\<rparr> in
       if nxt \<noteq> 0 then
         Inr (count (\<lambda>st. st\<lparr>context_switch_count := context_switch_count st + 1\<rparr>)
           (set_current nxt (context_switch cur nxt (set_state nxt THREAD_RUNNING k3))))
       else if p_state (pcbs (sproc k3) cur) \<noteq> THREAD_EXITED then Inr (set_state cur THREAD_RUNNING k3)
       else Inr (count (\<lambda>st. st\<lparr>idle_returns := idle_returns st + 1\<rparr>) (set_current 0 k3)))"

definition schedule :: "sched \<Rightarrow> sched res" where
  "schedule k0 =
     (let k = count (\<lambda>st. st\<lparr>schedule_count := schedule_count st + 1\<rparr>) k0;
          cur = current_thread (sproc k)
      in if cur = 0 then
           rbind (pcb_get_next_ready (sproc k)) (\<lambda>(p, s).
             let k1 = set_current p (k\<lparr>sproc := s\<rparr>) in
             if p \<noteq> 0 then
               Inr (context_switch_to p (count (\<lambda>st. st\<lparr>context_switch_count := context_switch_count st + 1\<rparr>)
                     (set_state p THREAD_RUNNING k1)))
             else Inr (count (\<lambda>st. st\<lparr>idle_returns := idle_returns st + 1\<rparr>) k1))
         else
           rbind (if p_state (pcbs (sproc k) cur) = THREAD_RUNNING
                  then (let k1 = set_state cur THREAD_READY k in
                        rbind (pcb_add_to_ready_queue cur (sproc k1)) (\<lambda>s. Inr (k1\<lparr>sproc := s\<rparr>)))
                  else Inr k) (schedule_next cur))"

definition scheduler_tick :: "sched \<Rightarrow> sched res" where
  "scheduler_tick k =
     (let k1 = count (\<lambda>st. st\<lparr>tick_count := tick_count st + 1\<rparr>) k in
      if tick_count (sstats k1) mod TIME_QUANTUM_MS = 0
      then schedule (count (\<lambda>st. st\<lparr>quantum_expirations := quantum_expirations st + 1\<rparr>) k1)
      else Inr k1)"

definition scheduler_add_thread :: "addr \<Rightarrow> sched \<Rightarrow> sched res" where
  "scheduler_add_thread thread k =
     (if thread \<noteq> 0 then
        (let k1 = count (\<lambda>st. st\<lparr>add_requests := add_requests st + 1\<rparr>) k in
         rbind (pcb_add_to_ready_queue thread (sproc k1)) (\<lambda>s. Inr (k1\<lparr>sproc := s\<rparr>)))
      else Inr k)"

definition scheduler_remove_thread :: "addr \<Rightarrow> sched \<Rightarrow> sched" where
  "scheduler_remove_thread thread k =
     (if thread \<noteq> 0
      then set_state thread THREAD_EXITED (count (\<lambda>st. st\<lparr>remove_requests := remove_requests st + 1\<rparr>) k)
      else k)"

definition scheduler_note_yield :: "sched \<Rightarrow> sched" where
  "scheduler_note_yield k = count (\<lambda>st. st\<lparr>yields := yields st + 1\<rparr>) k"

definition scheduler_get_stats :: "bool \<Rightarrow> sched \<Rightarrow> scheduler_stats option" where
  "scheduler_get_stats null_stats k = (if null_stats then None else Some (sstats k))"

definition thread_yield :: "sched \<Rightarrow> sched res" where
  "thread_yield k = schedule (scheduler_note_yield k)"

definition thread_exit :: "sched \<Rightarrow> sched res" where
  "thread_exit k =
     (let cur = current_thread (sproc k) in
      if cur = 0 then Inr k
      else if p_magic (pcbs (sproc k) cur) \<noteq> PCB_MAGIC then Inl Panic
      else let k1 = set_state cur THREAD_EXITED k;
               ps = pstats (sproc k1);
               k2 = set_current 0 (k1\<lparr>sproc := (sproc k1)\<lparr>pstats := ps\<lparr>exited_threads := exited_threads ps + 1\<rparr>\<rparr>\<rparr>)
           in rbind (pcb_destroy cur (sproc k2)) (\<lambda>s. schedule (k2\<lparr>sproc := s\<rparr>)))"

definition timer_handler :: "sched \<Rightarrow> sched res" where
  "timer_handler k = scheduler_tick (k\<lparr>timer_ticks := timer_ticks k + 1\<rparr>)"

definition timer_get_ticks :: "sched \<Rightarrow> u64" where
  "timer_get_ticks k = timer_ticks k"

section \<open>The abstract scheduler\<close>

text \<open>
  The contract: the current thread, if any, with its state, and the queue of waiting threads.
  A running thread goes to the end of the queue; a thread in another state leaves the processor
  and is not queued; an empty queue keeps a thread that has not exited.
\<close>

type_synonym abs_sched = "(addr \<times> thread_state) option \<times> addr list"

fun abs_next :: "addr list \<Rightarrow> abs_sched" where
  "abs_next [] = (None, [])"
| "abs_next (x # xs) = (Some (x, THREAD_RUNNING), xs)"

fun abs_schedule :: "abs_sched \<Rightarrow> abs_sched" where
  "abs_schedule (None, xs) = abs_next xs"
| "abs_schedule (Some (c, st), xs) =
     (if st = THREAD_RUNNING then abs_next (xs @ [c])
      else if xs = [] \<and> st \<noteq> THREAD_EXITED then (Some (c, THREAD_RUNNING), []) else abs_next xs)"

definition abs_cur :: "sched \<Rightarrow> (addr \<times> thread_state) option" where
  "abs_cur k = (let c = current_thread (sproc k) in if c = 0 then None else Some (c, p_state (pcbs (sproc k) c)))"

text \<open>A concrete state with live threads \<open>T\<close> and queue \<open>xs\<close>; a running thread is not queued.\<close>

definition sched_inv :: "sched \<Rightarrow> addr set \<Rightarrow> addr list \<Rightarrow> bool" where
  [inv_defs]: "sched_inv k T xs \<longleftrightarrow> proc_inv (sproc k) T xs \<and>
     (case abs_cur k of None \<Rightarrow> True | Some (c, st) \<Rightarrow> c \<in> T \<and> (st = THREAD_RUNNING \<longrightarrow> c \<notin> set xs))"

lemma frame_simps [simp]:
  "sproc (count f k) = sproc k" "sproc (set_state a st k) = upd_pcb a (p_state_update (\<lambda>_. st)) (sproc k)"
  "sproc (set_current a k) = (sproc k)\<lparr>current_thread := a\<rparr>" "sproc (context_switch_to a k) = sproc k"
  "sproc (context_switch a b k) = sproc k"
  by (simp_all add: count_def set_state_def set_current_def context_switch_to_def context_switch_def)

lemma proc_inv_cong:
  assumes inv: "proc_inv s T xs" and q: "queue_inv s' T ys"
    and same: "pmem s' = pmem s" "pheap s' = pheap s" "\<And>a. p_stack (pcbs s' a) = p_stack (pcbs s a)"
  shows "proc_inv s' T ys"
  using inv q unfolding proc_inv_def same by blast

lemma proc_inv_state:
  assumes "proc_inv s T xs"
  shows "proc_inv (upd_pcb a (p_state_update (\<lambda>_. st)) s) T xs"
proof (rule proc_inv_cong [OF assms])
  have "queue_inv s T xs" using assms by (simp add: proc_inv_def)
  then show "queue_inv (upd_pcb a (p_state_update (\<lambda>_. st)) s) T xs" by (rule queue_inv_cong) auto
qed auto

lemma proc_inv_current: "proc_inv (s\<lparr>current_thread := a\<rparr>) T xs = proc_inv s T xs"
  by (simp add: proc_inv_def queue_inv_def)

lemma proc_inv_pstats: "proc_inv (s\<lparr>pstats := ps\<rparr>) T xs = proc_inv s T xs"
  by (simp add: proc_inv_def queue_inv_def)

lemma proc_inv_nonzero: "proc_inv s T xs \<Longrightarrow> a \<in> T \<Longrightarrow> a \<noteq> 0"
  by (auto simp: proc_inv_def queue_inv_def)

lemma proc_inv_queue:
  assumes "proc_inv s T xs" "queue_inv s' T ys" "same_but_queue s s'"
  shows "proc_inv s' T ys"
  by (rule proc_inv_cong [OF assms(1,2)]) (use assms(3) in \<open>auto simp: same_but_queue_def\<close>)

lemma proc_add:
  assumes inv: "proc_inv s T xs" and p: "p \<in> T" "p \<notin> set xs" "p_state (pcbs s p) \<noteq> THREAD_EXITED"
  shows "\<exists>s'. pcb_add_to_ready_queue p s = Inr s' \<and> proc_inv s' T (xs @ [p]) \<and> current_thread s' = current_thread s \<and>
    (\<forall>a. rsp (pcbs s' a) = rsp (pcbs s a)) \<and>
    (\<forall>a. p_state (pcbs s' a) = (if a = p then THREAD_READY else p_state (pcbs s a)))"
proof -
  have q: "queue_inv s T xs" using inv by (simp add: proc_inv_def)
  obtain s' where s': "pcb_add_to_ready_queue p s = Inr s'" "queue_inv s' T (xs @ [p])" "same_but_queue s s'"
    "\<forall>a. p_state (pcbs s' a) = (if a = p then THREAD_READY else p_state (pcbs s a))"
    using add_fresh [OF q p queue_length [OF q proc_inv_small [OF inv] p(1,2)]] by blast
  moreover have "proc_inv s' T (xs @ [p])" by (rule proc_inv_queue [OF inv s'(2,3)])
  ultimately show ?thesis unfolding same_but_queue_def by blast
qed

lemma proc_next:
  assumes inv: "proc_inv s T xs"
  shows "\<exists>s'. pcb_get_next_ready s = Inr (first_or xs 0, s') \<and> proc_inv s' T (tl xs) \<and>
    current_thread s' = current_thread s \<and> (\<forall>a. rsp (pcbs s' a) = rsp (pcbs s a)) \<and>
    (\<forall>a. p_state (pcbs s' a) = p_state (pcbs s a))"
proof -
  have q: "queue_inv s T xs" using inv by (simp add: proc_inv_def)
  show ?thesis
  proof (cases xs)
    case (Cons x ys)
    with next_ready_spec [OF q] obtain s' where s': "pcb_get_next_ready s = Inr (x, s')" "queue_inv s' T ys"
      "same_but_queue s s'" "\<forall>a. p_state (pcbs s' a) = p_state (pcbs s a)" by auto
    moreover have "proc_inv s' T ys" by (rule proc_inv_queue [OF inv s'(2,3)])
    ultimately show ?thesis unfolding same_but_queue_def Cons ends_simps list.sel by blast
  next
    case Nil
    with next_ready_spec [OF q] have "pcb_get_next_ready s = Inr (0, s)" by simp
    then show ?thesis using inv Nil by simp
  qed
qed

text \<open>The states in which a thread \<open>x\<close> has just been put on the processor.\<close>

lemma running_now:
  assumes "proc_inv s T xs" "x \<in> T" "x \<notin> set xs" "sproc k = (upd_pcb x (p_state_update (\<lambda>_. THREAD_RUNNING)) s)\<lparr>current_thread := x\<rparr>"
  shows "sched_inv k T xs \<and> abs_cur k = Some (x, THREAD_RUNNING)"
proof -
  have "x \<noteq> 0" using assms(1,2) by (rule proc_inv_nonzero)
  then have "abs_cur k = Some (x, THREAD_RUNNING)" by (simp add: abs_cur_def assms(4))
  moreover have "proc_inv (sproc k) T xs"
    unfolding assms(4) proc_inv_current by (rule proc_inv_state [OF assms(1)])
  ultimately show ?thesis using assms(2,3) by (simp add: sched_inv_def)
qed

lemma proc_inv_queue_mem: "proc_inv s T (x # xs) \<Longrightarrow> x \<in> T \<and> x \<notin> set xs \<and> x \<noteq> 0"
  by (auto simp: proc_inv_def queue_inv_def)

lemma schedule_idle:
  assumes inv: "sched_inv k T xs" and c: "current_thread (sproc k) = 0"
  shows "\<exists>k'. schedule k = Inr k' \<and> sched_inv k' T (snd (abs_next xs)) \<and> abs_cur k' = fst (abs_next xs) \<and>
    (xs \<noteq> [] \<longrightarrow> cpu_rsp k' = rsp (pcbs (sproc k) (hd xs)))"
proof -
  have pi: "proc_inv (sproc k) T xs" using inv by (simp add: sched_inv_def)
  from proc_next [OF pi] obtain s where s: "pcb_get_next_ready (sproc k) = Inr (first_or xs 0, s)"
    "proc_inv s T (tl xs)" "\<forall>a. rsp (pcbs s a) = rsp (pcbs (sproc k) a)" by blast
  show ?thesis
  proof (cases xs)
    case Nil
    with s c show ?thesis
      by (auto simp: schedule_def Let_def sched_inv_def abs_cur_def proc_inv_current)
  next
    case (Cons x ys)
    with pi proc_inv_queue_mem have x: "x \<in> T" "x \<notin> set ys" "x \<noteq> 0" by blast+
    let ?k = "context_switch_to x (count (\<lambda>st. st\<lparr>context_switch_count := context_switch_count st + 1\<rparr>)
      (set_state x THREAD_RUNNING (set_current x
        (count (\<lambda>st. st\<lparr>schedule_count := schedule_count st + 1\<rparr>) k\<lparr>sproc := s\<rparr>))))"
    have "schedule k = Inr ?k" using s(1) Cons c x(3) by (simp add: schedule_def Let_def)
    moreover have "sched_inv ?k T ys \<and> abs_cur ?k = Some (x, THREAD_RUNNING)"
      using s(2) Cons x by (intro running_now [of s]) (simp_all add: upd_pcb_def)
    moreover have "cpu_rsp ?k = rsp (pcbs (sproc k) x)"
      using s(3) x(3) by (simp add: context_switch_to_def)
    ultimately show ?thesis using Cons by auto
  qed
qed

lemma schedule_dispatch:
  assumes pi: "proc_inv (sproc k2) T q" and c: "cur \<in> T" "current_thread (sproc k2) = cur"
  shows "\<exists>k'. schedule_next cur k2 = Inr k' \<and>
    (let a = (if q = [] \<and> p_state (pcbs (sproc k2) cur) \<noteq> THREAD_EXITED then (Some (cur, THREAD_RUNNING), []) else abs_next q)
     in sched_inv k' T (snd a) \<and> abs_cur k' = fst a) \<and> (q \<noteq> [] \<longrightarrow> cpu_rsp k' = rsp (pcbs (sproc k2) (hd q)))"
proof -
  from proc_next [OF pi] obtain s where s: "pcb_get_next_ready (sproc k2) = Inr (first_or q 0, s)"
    "proc_inv s T (tl q)" "\<forall>a. rsp (pcbs s a) = rsp (pcbs (sproc k2) a)" "current_thread s = cur"
    "\<forall>a. p_state (pcbs s a) = p_state (pcbs (sproc k2) a)" using c by blast
  have nz: "cur \<noteq> 0" using pi c(1) by (rule proc_inv_nonzero)
  show ?thesis
  proof (cases q)
    case Nil
    show ?thesis
    proof (cases "p_state (pcbs (sproc k2) cur) = THREAD_EXITED")
      case True
      let ?k = "count (\<lambda>st. st\<lparr>idle_returns := idle_returns st + 1\<rparr>) (set_current 0 (k2\<lparr>sproc := s\<rparr>))"
      have "sched_inv ?k T []" "abs_cur ?k = None"
        using s(2) Nil by (simp_all add: sched_inv_def abs_cur_def proc_inv_current)
      then show ?thesis using True Nil s(1,5) by (simp add: schedule_next_def)
    next
      case False
      let ?k = "set_state cur THREAD_RUNNING (k2\<lparr>sproc := s\<rparr>)"
      have "sched_inv ?k T [] \<and> abs_cur ?k = Some (cur, THREAD_RUNNING)"
        using s(2,4) c Nil by (intro running_now [of s]) (simp_all add: upd_pcb_def)
      then show ?thesis using False Nil s(1,5) by (simp add: schedule_next_def)
    qed
  next
    case (Cons x ys)
    with pi proc_inv_queue_mem have x: "x \<in> T" "x \<notin> set ys" "x \<noteq> 0" by blast+
    let ?k = "count (\<lambda>st. st\<lparr>context_switch_count := context_switch_count st + 1\<rparr>)
          (set_current x (context_switch cur x (set_state x THREAD_RUNNING (k2\<lparr>sproc := s\<rparr>))))"
    have "sched_inv ?k T ys \<and> abs_cur ?k = Some (x, THREAD_RUNNING)"
      using s(2) Cons x by (intro running_now [of s]) (simp_all add: upd_pcb_def)
    moreover have "cpu_rsp ?k = rsp (pcbs (sproc k2) x)"
      using s(3) x(3) by (simp add: context_switch_def context_switch_to_def count_def set_current_def)
    ultimately show ?thesis using Cons s(1) x(3) by (simp add: schedule_next_def)
  qed
qed

lemma schedule_spec:
  assumes inv: "sched_inv k T xs"
  shows "\<exists>k'. schedule k = Inr k' \<and> sched_inv k' T (snd (abs_schedule (abs_cur k, xs))) \<and>
    abs_cur k' = fst (abs_schedule (abs_cur k, xs))"
proof (cases "current_thread (sproc k) = 0")
  case True
  then have "abs_cur k = None" by (simp add: abs_cur_def)
  with schedule_idle [OF inv True] show ?thesis by auto
next
  case nz: False
  let ?c = "current_thread (sproc k)" and ?k = "count (\<lambda>st. st\<lparr>schedule_count := schedule_count st + 1\<rparr>) k"
  have cur: "abs_cur k = Some (?c, p_state (pcbs (sproc k) ?c))" using nz by (simp add: abs_cur_def Let_def)
  have pi: "proc_inv (sproc k) T xs" and c: "?c \<in> T" using inv cur by (auto simp: sched_inv_def)
  show ?thesis
  proof (cases "p_state (pcbs (sproc k) ?c) = THREAD_RUNNING")
    case True
    let ?k1 = "set_state ?c THREAD_READY ?k"
    have nq: "?c \<notin> set xs" using inv cur True by (auto simp: sched_inv_def)
    have "proc_inv (sproc ?k1) T xs" using proc_inv_state [OF pi] by simp
    from proc_add [OF this c nq] obtain s where s: "pcb_add_to_ready_queue ?c (sproc ?k1) = Inr s"
      "proc_inv s T (xs @ [?c])" "current_thread s = ?c" by auto
    have "proc_inv (sproc (?k1\<lparr>sproc := s\<rparr>)) T (xs @ [?c])" "current_thread (sproc (?k1\<lparr>sproc := s\<rparr>)) = ?c"
      using s by simp_all
    from schedule_dispatch [OF this(1) c this(2)] show ?thesis
      using nz True s(1) by (auto simp: schedule_def Let_def cur)
  next
    case False
    have pk: "proc_inv (sproc ?k) T xs" "current_thread (sproc ?k) = ?c" using pi by simp_all
    from schedule_dispatch [OF pk(1) c pk(2)] show ?thesis
      using nz False by (auto simp: schedule_def Let_def cur split: if_splits)
  qed
qed

section \<open>Every operation keeps the invariant\<close>

lemma count_inv [simp]: "sched_inv (count f k) T xs = sched_inv k T xs" "abs_cur (count f k) = abs_cur k"
  by (simp_all add: sched_inv_def abs_cur_def Let_def)

lemma ticks_inv [simp]: "sched_inv (k\<lparr>timer_ticks := n\<rparr>) T xs = sched_inv k T xs"
  by (simp add: sched_inv_def abs_cur_def Let_def)

lemma schedule_keeps: "sched_inv k T xs \<Longrightarrow> \<exists>k' xs'. schedule k = Inr k' \<and> sched_inv k' T xs'"
  using schedule_spec by blast

lemma tick_keeps: "sched_inv k T xs \<Longrightarrow> \<exists>k' xs'. timer_handler k = Inr k' \<and> sched_inv k' T xs'"
  using schedule_keeps by (auto simp: timer_handler_def scheduler_tick_def Let_def)

lemma yield_keeps: "sched_inv k T xs \<Longrightarrow> \<exists>k' xs'. thread_yield k = Inr k' \<and> sched_inv k' T xs'"
  using schedule_keeps by (simp add: thread_yield_def scheduler_note_yield_def)

lemma exit_keeps:
  assumes inv: "sched_inv k T xs"
  shows "\<exists>k' xs'. thread_exit k = Inr k' \<and> sched_inv k' (T - {current_thread (sproc k)}) xs'"
proof (cases "current_thread (sproc k) = 0")
  case False
  let ?c = "current_thread (sproc k)"
  have c: "?c \<in> T" and pi: "proc_inv (sproc k) T xs" using inv False by (auto simp: sched_inv_def abs_cur_def Let_def)
  then have m: "p_magic (pcbs (sproc k) ?c) = PCB_MAGIC" by (auto simp: proc_inv_def queue_inv_def)
  define k1 where "k1 = set_state ?c THREAD_EXITED k"
  define k2 where "k2 = set_current 0 (k1\<lparr>sproc := (sproc k1)\<lparr>pstats :=
    (pstats (sproc k1))\<lparr>exited_threads := exited_threads (pstats (sproc k1)) + 1\<rparr>\<rparr>\<rparr>)"
  have "proc_inv (sproc k2) T xs"
    using proc_inv_state [OF pi] by (simp add: k2_def k1_def proc_inv_current proc_inv_pstats)
  from destroy_inv [OF this c] obtain s where s: "pcb_destroy ?c (sproc k2) = Inr s"
    "proc_inv s (T - {?c}) (filter ((\<noteq>) ?c) xs)" "current_thread s = 0" by (auto simp: k2_def)
  then have "sched_inv (k2\<lparr>sproc := s\<rparr>) (T - {?c}) (filter ((\<noteq>) ?c) xs)" by (simp add: sched_inv_def abs_cur_def)
  from schedule_keeps [OF this] s(1) m False show ?thesis
    by (fastforce simp: thread_exit_def Let_def k2_def k1_def)
next
  case True
  have "0 \<notin> T" using inv by (auto simp: sched_inv_def proc_inv_def queue_inv_def)
  then show ?thesis using inv True by (auto simp: thread_exit_def)
qed

lemma add_keeps:
  assumes inv: "sched_inv k T xs" and a: "a \<in> T"
  shows "\<exists>k' xs'. scheduler_add_thread a k = Inr k' \<and> sched_inv k' T xs'"
proof -
  have pi: "proc_inv (sproc k) T xs" using inv by (simp add: sched_inv_def)
  have en: "a \<noteq> 0" "p_magic (pcbs (sproc k) a) = PCB_MAGIC" "in_ready_queue (pcbs (sproc k) a) \<noteq> 0 \<longleftrightarrow> a \<in> set xs"
    using pi a by (auto simp: proc_inv_def queue_inv_def)
  show ?thesis
  proof (cases "a \<in> set xs \<or> p_state (pcbs (sproc k) a) = THREAD_EXITED")
    case True
    then have "pcb_add_to_ready_queue a (sproc k) = Inr (sproc k)" using en by (auto simp: pcb_add_to_ready_queue_def)
    then have "scheduler_add_thread a k = Inr (count (\<lambda>st. st\<lparr>add_requests := add_requests st + 1\<rparr>) k)"
      using en by (simp add: scheduler_add_thread_def count_def)
    then show ?thesis using inv by auto
  next
    case False
    with proc_add [OF pi a] obtain s where s: "pcb_add_to_ready_queue a (sproc k) = Inr s" "proc_inv s T (xs @ [a])"
      "current_thread s = current_thread (sproc k)"
      "\<forall>b. p_state (pcbs s b) = (if b = a then THREAD_READY else p_state (pcbs (sproc k) b))" by blast
    let ?k = "count (\<lambda>st. st\<lparr>add_requests := add_requests st + 1\<rparr>) k\<lparr>sproc := s\<rparr>"
    have "sched_inv ?k T (xs @ [a])"
      using s inv by (auto simp: sched_inv_def abs_cur_def Let_def)
    then show ?thesis using s(1) en by (auto simp: scheduler_add_thread_def)
  qed
qed

lemma remove_keeps:
  assumes "sched_inv k T xs"
  shows "sched_inv (scheduler_remove_thread a k) T xs"
  using assms proc_inv_state [of "sproc k" T xs a THREAD_EXITED]
  by (auto simp: scheduler_remove_thread_def sched_inv_def abs_cur_def Let_def)

lemma create_keeps:
  assumes inv: "sched_inv k T xs"
  obtains (failed) s where "thread_create e arg (sproc k) = Inr (0, s)" "sched_inv (k\<lparr>sproc := s\<rparr>) T xs"
  | (created) p s where "thread_create e arg (sproc k) = Inr (p, s)" "p \<noteq> 0" "sched_inv (k\<lparr>sproc := s\<rparr>) (insert p T) xs"
proof -
  have pi: "proc_inv (sproc k) T xs" using inv by (simp add: sched_inv_def)
  show thesis
  proof (cases rule: create_inv [OF pi, of e arg])
    case (1 s)
    have "sched_inv (k\<lparr>sproc := s\<rparr>) T xs"
      using 1(2-4) inv by (auto simp: sched_inv_def abs_cur_def Let_def)
    with 1(1) show thesis by (intro failed) (auto simp: thread_create_def)
  next
    case (2 p s)
    have "sched_inv (k\<lparr>sproc := s\<rparr>) (insert p T) xs"
      using 2(3-7) inv by (auto simp: sched_inv_def abs_cur_def Let_def)
    with 2(1,2) show thesis by (intro created) (auto simp: thread_create_def)
  qed
qed

section \<open>Properties\<close>

text \<open>
  A system of threads driven by its clients and the timer; threads are named by their position
  in the list of live threads.
\<close>

datatype thread_cmd = TCreate u64 u64 | TAdd nat | TRemove nat | TTick | TYield | TExit

fun thread_run :: "thread_cmd list \<Rightarrow> addr list \<Rightarrow> sched \<Rightarrow> (addr list \<times> sched) res" where
  "thread_run [] ts k = Inr (ts, k)"
| "thread_run (TCreate e arg # cs) ts k =
     rbind (thread_create e arg (sproc k)) (\<lambda>(p, s). thread_run cs (if p = 0 then ts else p # ts) (k\<lparr>sproc := s\<rparr>))"
| "thread_run (TAdd i # cs) ts k =
     (if i < length ts then rbind (scheduler_add_thread (ts ! i) k) (thread_run cs ts) else thread_run cs ts k)"
| "thread_run (TRemove i # cs) ts k =
     (if i < length ts then thread_run cs ts (scheduler_remove_thread (ts ! i) k) else thread_run cs ts k)"
| "thread_run (TTick # cs) ts k = rbind (timer_handler k) (thread_run cs ts)"
| "thread_run (TYield # cs) ts k = rbind (thread_yield k) (thread_run cs ts)"
| "thread_run (TExit # cs) ts k =
     rbind (thread_exit k) (thread_run cs (filter (\<lambda>t. t \<noteq> current_thread (sproc k)) ts))"

lemma thread_run_safe:
  assumes "sched_inv k (set ts) xs"
  shows "\<exists>ts' k' xs'. thread_run cs ts k = Inr (ts', k') \<and> sched_inv k' (set ts') xs'"
  using assms
proof (induction cs arbitrary: ts k xs)
  case (Cons c cs)
  show ?case
  proof (cases c)
    case (TCreate e arg)
    from Cons.prems show ?thesis
    proof (cases rule: create_keeps [where e = e and arg = arg])
      case (failed s)
      with Cons.IH [OF failed(2)] TCreate show ?thesis by simp
    next
      case (created p s)
      with Cons.IH [of "k\<lparr>sproc := s\<rparr>" "p # ts"] TCreate show ?thesis by simp
    qed
  next
    case (TAdd i)
    with add_keeps [OF Cons.prems, of "ts ! i"] Cons.IH Cons.prems show ?thesis by fastforce
  next
    case (TRemove i)
    with remove_keeps [OF Cons.prems] Cons.IH Cons.prems show ?thesis by fastforce
  next
    case TTick
    with tick_keeps [OF Cons.prems] Cons.IH show ?thesis by fastforce
  next
    case TYield
    with yield_keeps [OF Cons.prems] Cons.IH show ?thesis by fastforce
  next
    case TExit
    from exit_keeps [OF Cons.prems] obtain k1 xs1 where
      k1: "thread_exit k = Inr k1" "sched_inv k1 (set ts - {current_thread (sproc k)}) xs1" by blast
    have "set (filter (\<lambda>t. t \<noteq> current_thread (sproc k)) ts) = set ts - {current_thread (sproc k)}" by auto
    with k1 Cons.IH [of k1 "filter (\<lambda>t. t \<noteq> current_thread (sproc k)) ts"] TExit show ?thesis by simp
  qed
qed auto

definition sched0 :: sched where
  "sched0 = \<lparr>sproc = proc0, sstats = \<lparr>tick_count = 0, schedule_count = 0, context_switch_count = 0, idle_returns = 0,
     quantum_expirations = 0, yields = 0, add_requests = 0, remove_requests = 0\<rparr>, cpu_rsp = 0, timer_ticks = 0\<rparr>"

lemma sched0_inv: "sched_inv sched0 {} []"
  using proc0_inv by (simp add: sched_inv_def sched0_def abs_cur_def proc0_def)



text \<open>
  C4. \<open>schedule\<close> implements the abstract scheduler: whatever the linked queue looks like, the
  new current thread, its state and the new queue are those of \<open>abs_schedule\<close>.
\<close>

theorem schedule_refines:
  assumes "sched_inv k T xs"
  shows "\<exists>k'. schedule k = Inr k' \<and> sched_inv k' T (snd (abs_schedule (abs_cur k, xs))) \<and>
    abs_cur k' = fst (abs_schedule (abs_cur k, xs))"
  using assms by (rule schedule_spec)

theorem schedule_refines_witness:
  "\<exists>k'. schedule sched0 = Inr k' \<and> sched_inv k' {} [] \<and> abs_cur k' = None"
  using schedule_refines [OF sched0_inv] by (simp add: abs_cur_def sched0_def proc0_def)

text \<open>\<open>n\<close> calls of \<open>schedule\<close> in a row.\<close>

fun schedule_n :: "nat \<Rightarrow> sched \<Rightarrow> sched res" where
  "schedule_n 0 k = Inr k"
| "schedule_n (Suc n) k = rbind (schedule k) (schedule_n n)"

lemma schedule_rotates:
  assumes "sched_inv k T xs" "abs_cur k = Some (c, THREAD_RUNNING)"
  shows "\<exists>k'. schedule_n n k = Inr k' \<and> sched_inv k' T (tl (rotate n (c # xs))) \<and>
    abs_cur k' = Some (hd (rotate n (c # xs)), THREAD_RUNNING)"
  using assms
proof (induction n arbitrary: k c xs)
  case (Suc n)
  obtain y ys where y: "xs @ [c] = y # ys" by (cases "xs @ [c]") auto
  from schedule_spec [OF Suc.prems(1)] Suc.prems(2) y obtain k1
    where k1: "schedule k = Inr k1" "sched_inv k1 T ys" "abs_cur k1 = Some (y, THREAD_RUNNING)" by auto
  from Suc.IH [OF k1(2,3)] have ih: "\<exists>k'. schedule_n n k1 = Inr k' \<and> sched_inv k' T (tl (rotate n (y # ys))) \<and>
    abs_cur k' = Some (hd (rotate n (y # ys)), THREAD_RUNNING)" .
  have "rotate (Suc n) (c # xs) = rotate n (y # ys)"
    unfolding rotate_Suc by (simp add: rotate1_rotate_swap y)
  with ih k1(1) show ?case by simp
qed simp

text \<open>
  A concrete system: two threads whose control blocks are the first two allocations of the
  heap, the first one running and the second one waiting.
\<close>

definition two_heap :: heap where
  "two_heap = heap_take 31 480 (heap_take 0 480 boot_heap)"

lemma two_heap_inv: "heap_inv two_heap {(31, 31, 480), (0, 31, 480)}"
proof -
  have n: "unat (blocks_for 480) = 31" by (simp add: blocks_for_def HEADER_SIZE_def HEAP_BLOCK_SIZE_def)
  have 1: "heap_inv (heap_take 0 480 boot_heap) {(0, 31, 480)}"
    using n by (intro heap_take_inv(1) [OF boot_heap_inv]) (simp_all add: boot_heap_simps run_blocked_def bm_test_bit)
  have "hp_bitmap (heap_take 0 480 boot_heap) = bm_mark 0 31 (\<lambda>_. 0)"
    using n by (simp add: heap_take_def Let_def boot_heap_simps)
  then show ?thesis unfolding two_heap_def
    using n by (intro heap_take_inv(1) [OF 1]) (simp_all add: boot_heap_simps run_blocked_def, simp add: bm_test_bit)
qed

definition two_sched :: sched where
  "two_sched = sched0\<lparr>sproc := proc0\<lparr>pheap := two_heap, current_thread := 0x800010, ready_queue_head := 0x800200,
     ready_queue_tail := 0x800200, ready_queue_count := 1,
     pcbs := (\<lambda>_. pcb_zero\<lparr>p_magic := PCB_MAGIC\<rparr>)(0x800010 := pcb_zero\<lparr>p_magic := PCB_MAGIC, p_state := THREAD_RUNNING\<rparr>,
       0x800200 := pcb_zero\<lparr>p_magic := PCB_MAGIC, in_ready_queue := 1\<rparr>)\<rparr>\<rparr>"

lemma two_sched_cur: "abs_cur two_sched = Some (0x800010, THREAD_RUNNING)"
  by (simp add: abs_cur_def two_sched_def sched0_def proc0_def)

lemma two_sched_inv: "sched_inv two_sched {0x800010, 0x800200} [0x800200]"
proof -
  let ?s = "sproc two_sched"
  have "queue_inv ?s {0x800010, 0x800200} [0x800200]"
    by (simp add: queue_inv_def two_sched_def proc0_def pcb_zero_def)
  moreover have m: "pmm_wf (pmem ?s)" "unat (next_free_page (pmem ?s)) > 0"
    using proc0_inv by (auto simp: proc_inv_def two_sched_def pmm_wf_def)
  moreover have "\<forall>a \<in> {0x800010, 0x800200}. unat (p_stack (pcbs ?s a)) < unat (next_free_page (pmem ?s))"
    using m(2) by (simp add: two_sched_def pcb_zero_def)
  moreover have "heap_inv (pheap ?s) {(31, 31, 480), (0, 31, 480)}" by (simp add: two_sched_def two_heap_inv)
  moreover have "{0x800010, 0x800200} \<subseteq> user_ptr (pheap ?s) ` {(31, 31, 480), (0, 31, 480)}"
    by (simp add: two_sched_def user_ptr_def two_heap_def block_addr_def boot_heap_simps HEADER_SIZE_def HEAP_BLOCK_SIZE_def)
  ultimately have "proc_inv ?s {0x800010, 0x800200} [0x800200]" unfolding proc_inv_def by blast
  then show ?thesis by (simp add: sched_inv_def two_sched_cur)
qed

text \<open>
  C34. Round robin: with a running thread \<open>c\<close> and waiting threads \<open>xs\<close>, the thread that runs
  after \<open>n\<close> calls of \<open>schedule\<close> is the one at position \<open>n\<close> of the cycle \<open>c # xs\<close>.
  So every waiting thread gets the processor within \<open>length xs\<close> calls and none gets it twice
  before all others had their turn.
\<close>

theorem round_robin:
  assumes "sched_inv k T xs" "abs_cur k = Some (c, THREAD_RUNNING)"
  shows "\<exists>k'. schedule_n n k = Inr k' \<and>
    abs_cur k' = Some ((c # xs) ! (n mod (length xs + 1)), THREAD_RUNNING)"
proof -
  have "hd (rotate n (c # xs)) = (c # xs) ! (n mod (length xs + 1))"
    using hd_rotate_conv_nth [of "c # xs" n] by simp
  with schedule_rotates [OF assms, of n] show ?thesis by auto
qed

theorem round_robin_witness:
  "\<exists>k'. schedule_n 5 two_sched = Inr k' \<and> abs_cur k' = Some (0x800200, THREAD_RUNNING)"
  using round_robin [OF two_sched_inv two_sched_cur, of 5]
  by (simp add: numeral_2_eq_2 [symmetric] del: schedule_n.simps)

text \<open>
  \<open>scheduler_remove_thread\<close> does not take a queued thread off the queue. A thread that
  was removed while it waits at the head of the queue is put back on the processor, as running,
  by the next \<open>schedule\<close> of an idle processor.
\<close>

theorem removed_thread_runs:
  assumes "sched_inv k T (x # xs)" "current_thread (sproc k) = 0"
  shows "p_state (pcbs (sproc (scheduler_remove_thread x k)) x) = THREAD_EXITED \<and>
    (\<exists>k'. schedule (scheduler_remove_thread x k) = Inr k' \<and> abs_cur k' = Some (x, THREAD_RUNNING))"
proof -
  have "x \<noteq> 0" using assms(1) proc_inv_queue_mem by (auto simp: sched_inv_def)
  then have "p_state (pcbs (sproc (scheduler_remove_thread x k)) x) = THREAD_EXITED"
    "abs_cur (scheduler_remove_thread x k) = None"
    using assms(2) by (simp_all add: scheduler_remove_thread_def abs_cur_def)
  with schedule_spec [OF remove_keeps [OF assms(1)], of x] show ?thesis by auto
qed

theorem removed_thread_runs_witness:
  "\<exists>k'. schedule (scheduler_remove_thread 0x800200 (set_current 0 two_sched)) = Inr k' \<and>
    abs_cur k' = Some (0x800200, THREAD_RUNNING)"
proof -
  have "proc_inv (sproc two_sched) {0x800010, 0x800200} [0x800200]" using two_sched_inv by (simp add: sched_inv_def)
  then have "sched_inv (set_current 0 two_sched) {0x800010, 0x800200} [0x800200]"
    by (simp add: sched_inv_def abs_cur_def proc_inv_current)
  from removed_thread_runs [OF this] show ?thesis by simp
qed

end
