(* ===== verification/Security.thy ===== *)
theory Security
  imports CString Scheduler
begin

text \<open>
  The security model of \<^verbatim>\<open>src/services/security.c\<close>, the table of user names of
  \<^verbatim>\<open>uid_table.c\<close> and the signal interface of \<^verbatim>\<open>signal.c\<close>. Names in a
  fixed buffer are the byte strings the buffer holds (\<open>strncpy_bounded_copy\<close> of the string
  functions relates the two).
\<close>

section \<open>Data\<close>

definition MAX_UID :: u32 where "MAX_UID = 65536"
definition MAX_GID :: u32 where "MAX_GID = 65536"
definition ROOT_UID :: u32 where "ROOT_UID = 0"
definition ROOT_GID :: u32 where "ROOT_GID = 0"
definition PERM_READ :: u32 where "PERM_READ = 0x04"
definition PERM_WRITE :: u32 where "PERM_WRITE = 0x02"
definition PERM_EXEC :: u32 where "PERM_EXEC = 0x01"

record security_ctx =
  sc_uid :: u32
  sc_gid :: u32
  sc_mode :: u16

definition PERM_OWNER :: "u16 \<Rightarrow> u32" where "PERM_OWNER m = drop_bit 6 (ucast m) AND 0x07"
definition PERM_GROUP :: "u16 \<Rightarrow> u32" where "PERM_GROUP m = drop_bit 3 (ucast m) AND 0x07"
definition PERM_OTHER :: "u16 \<Rightarrow> u32" where "PERM_OTHER m = drop_bit 0 (ucast m) AND 0x07"

definition MAX_USERS :: nat where "MAX_USERS = 32"

record uid_entry =
  ue_uid :: u32
  ue_name :: "u8 list"
  ue_used :: bool

definition uid_entry0 :: uid_entry where
  "uid_entry0 = \<lparr>ue_uid = 0, ue_name = [], ue_used = False\<rparr>"

record security =
  current_uid :: u32
  current_gid :: u32
  uid_table :: "uid_entry list"

section \<open>The table of users\<close>

definition uid_register :: "u32 \<Rightarrow> u8 list option \<Rightarrow> uid_entry list \<Rightarrow> int \<times> uid_entry list" where
  "uid_register uid name t =
     (case name of None \<Rightarrow> (-1, t)
      | Some nm \<Rightarrow>
          if uid \<ge> MAX_UID then (-1, t)
          else case first_idx (\<lambda>e. ue_used e \<and> ue_uid e = uid) t of
            Some i \<Rightarrow> (0, t[i := (t ! i)\<lparr>ue_uid := uid, ue_name := take 31 nm\<rparr>])
          | None \<Rightarrow>
              (case first_idx (\<lambda>e. \<not> ue_used e) t of
                 None \<Rightarrow> (-1, t)
               | Some i \<Rightarrow> (0, t[i := \<lparr>ue_uid = uid, ue_name = take 31 nm, ue_used = True\<rparr>])))"

definition uid_table_init :: "uid_entry list" where
  "uid_table_init = snd (uid_register ROOT_UID (Some (cstr ''root'')) (replicate MAX_USERS uid_entry0))"

definition uid_lookup_name :: "u32 \<Rightarrow> uid_entry list \<Rightarrow> u8 list" where
  "uid_lookup_name uid t =
     (case first_idx (\<lambda>e. ue_used e \<and> ue_uid e = uid) t of Some i \<Rightarrow> ue_name (t ! i) | None \<Rightarrow> cstr ''unknown'')"

section \<open>Checks and identities\<close>

definition security_init :: security where
  "security_init = \<lparr>current_uid = ROOT_UID, current_gid = ROOT_GID, uid_table = uid_table_init\<rparr>"

definition security_check :: "security_ctx option \<Rightarrow> u32 \<Rightarrow> security \<Rightarrow> int" where
  "security_check obj operation s =
     (case obj of None \<Rightarrow> -1
      | Some ob \<Rightarrow>
          if current_uid s = ROOT_UID then 0
          else let p0 = 0;
                   p1 = (if operation AND PERM_READ \<noteq> 0 then p0 OR PERM_READ else p0);
                   p2 = (if operation AND PERM_WRITE \<noteq> 0 then p1 OR PERM_WRITE else p1);
                   perm_bits = (if operation AND PERM_EXEC \<noteq> 0 then p2 OR PERM_EXEC else p2)
               in if sc_uid ob = current_uid s then
                    (if PERM_OWNER (sc_mode ob) AND perm_bits = perm_bits then 0 else -1)
                  else if sc_gid ob = current_gid s then
                    (if PERM_GROUP (sc_mode ob) AND perm_bits = perm_bits then 0 else -1)
                  else if PERM_OTHER (sc_mode ob) AND perm_bits = perm_bits then 0 else -1)"

definition security_set_uid :: "u32 \<Rightarrow> security \<Rightarrow> int \<times> security" where
  "security_set_uid uid s =
     (if uid \<ge> MAX_UID then (-1, s)
      else if current_uid s \<noteq> ROOT_UID \<and> uid \<noteq> current_uid s then (-1, s)
      else (0, s\<lparr>current_uid := uid\<rparr>))"

definition security_set_gid :: "u32 \<Rightarrow> security \<Rightarrow> int \<times> security" where
  "security_set_gid gid s =
     (if gid \<ge> MAX_GID then (-1, s)
      else if current_uid s \<noteq> ROOT_UID \<and> gid \<noteq> current_gid s then (-1, s)
      else (0, s\<lparr>current_gid := gid\<rparr>))"

definition security_get_uid :: "security \<Rightarrow> u32" where
  "security_get_uid s = current_uid s"

definition security_get_gid :: "security \<Rightarrow> u32" where
  "security_get_gid s = current_gid s"

section \<open>Signals\<close>

definition MAX_SIGNALS :: u32 where "MAX_SIGNALS = 32"

definition signal_register_handler :: "u32 \<Rightarrow> addr \<Rightarrow> proc \<Rightarrow> int \<times> proc" where
  "signal_register_handler sig handler s =
     (if current_thread s = 0 \<or> sig \<ge> MAX_SIGNALS then (-1, s)
      else (0, upd_pcb (current_thread s) (\<lambda>b. b\<lparr>signal_handlers := (signal_handlers b)[unat sig := handler]\<rparr>) s))"

definition signal_default_handler :: "int \<Rightarrow> sched \<Rightarrow> sched res" where
  "signal_default_handler sig k = (if sig = 9 \<or> sig = 15 \<or> sig = 2 then thread_exit k else Inr k)"

definition signal_send :: "u32 \<Rightarrow> u32 \<Rightarrow> int" where
  "signal_send target sig = (if sig \<ge> MAX_SIGNALS \<or> sig = 0 then -1 else 0)"

definition signal_deliver :: "addr \<Rightarrow> int" where
  "signal_deliver p = 0"

section \<open>Permission bits\<close>

text \<open>The classic rule: each of read, write and execute that is asked for is granted by the class.\<close>

definition class_bits :: "security_ctx \<Rightarrow> security \<Rightarrow> u32" where
  "class_bits ob s = (if sc_uid ob = current_uid s then PERM_OWNER (sc_mode ob)
     else if sc_gid ob = current_gid s then PERM_GROUP (sc_mode ob) else PERM_OTHER (sc_mode ob))"

definition grants :: "u32 \<Rightarrow> u32 \<Rightarrow> bool" where
  "grants cls operation \<longleftrightarrow> (\<forall>i < 3. bit operation i \<longrightarrow> bit cls i)"

lemma low_bits: "(operation :: u32) AND 4 \<noteq> 0 \<longleftrightarrow> bit operation 2" "operation AND 2 \<noteq> 0 \<longleftrightarrow> bit operation 1"
  "operation AND 1 \<noteq> 0 \<longleftrightarrow> bit operation 0"
  using and_exp_eq_0_iff_not_bit [of operation 2] and_exp_eq_0_iff_not_bit [of operation 1]
    and_exp_eq_0_iff_not_bit [of operation 0] by simp_all

lemma perm_bits_eq:
  "(let p0 = 0; p1 = (if operation AND PERM_READ \<noteq> 0 then p0 OR PERM_READ else p0);
       p2 = (if operation AND PERM_WRITE \<noteq> 0 then p1 OR PERM_WRITE else p1)
    in (if operation AND PERM_EXEC \<noteq> 0 then p2 OR PERM_EXEC else p2)) = take_bit 3 operation"
proof (rule bit_word_eqI)
  fix n :: nat assume "n < LENGTH(32)"
  have b: "bit (4 :: u32) n \<longleftrightarrow> n = 2" "bit (2 :: u32) n \<longleftrightarrow> n = 1" "bit (1 :: u32) n \<longleftrightarrow> n = 0"
    using bit_exp_iff [of 2 n, where 'a = "32 word"] bit_exp_iff [of 1 n, where 'a = "32 word"] by (auto simp: bit_1_iff)
  have c: "n < 3 \<longleftrightarrow> n = 0 \<or> n = 1 \<or> n = 2" by auto
  show "bit (let p0 = 0; p1 = (if operation AND PERM_READ \<noteq> 0 then p0 OR PERM_READ else p0);
       p2 = (if operation AND PERM_WRITE \<noteq> 0 then p1 OR PERM_WRITE else p1)
    in (if operation AND PERM_EXEC \<noteq> 0 then p2 OR PERM_EXEC else p2)) n = bit (take_bit 3 operation) n"
    unfolding PERM_READ_def PERM_WRITE_def PERM_EXEC_def low_bits Let_def bit_take_bit_iff c
    by (auto simp: bit_or_iff b simp del: bit_numeral_word_iff intro: gr0I)
qed

lemma and_subset: "x AND y = y \<longleftrightarrow> (\<forall>i. bit y i \<longrightarrow> bit (x :: u32) i)"
proof
  assume "x AND y = y"
  then show "\<forall>i. bit y i \<longrightarrow> bit x i" using bit_and_iff [of x y] by metis
next
  assume "\<forall>i. bit y i \<longrightarrow> bit x i"
  then show "x AND y = y" by (intro bit_word_eqI) (auto simp: bit_and_iff)
qed

lemma class_grants: "x AND take_bit 3 operation = take_bit 3 operation \<longleftrightarrow> grants x operation"
  by (auto simp: and_subset grants_def bit_take_bit_iff)

lemma security_check_spec:
  "security_check (Some ob) operation s = 0 \<longleftrightarrow> current_uid s = ROOT_UID \<or> grants (class_bits ob s) operation"
  unfolding security_check_def option.case class_bits_def
  using perm_bits_eq [of operation] by (simp add: Let_def class_grants)

section \<open>The table keeps what was registered\<close>

text \<open>A user number occurs at most once among the used entries.\<close>

definition uid_table_ok :: "uid_entry list \<Rightarrow> bool" where
  [inv_defs]: "uid_table_ok t \<longleftrightarrow> length t = MAX_USERS \<and>
     (\<forall>i j. i < length t \<longrightarrow> j < length t \<longrightarrow> ue_used (t ! i) \<longrightarrow> ue_used (t ! j) \<longrightarrow> ue_uid (t ! i) = ue_uid (t ! j) \<longrightarrow> i = j) \<and>
     (\<forall>e \<in> set t. length (ue_name e) \<le> 31)"

definition user_of :: "u32 \<Rightarrow> uid_entry list \<Rightarrow> u8 list option" where
  "user_of uid t = map_option (\<lambda>i. ue_name (t ! i)) (first_idx (\<lambda>e. ue_used e \<and> ue_uid e = uid) t)"

lemma lookup_user_of: "uid_lookup_name uid t = (case user_of uid t of Some n \<Rightarrow> n | None \<Rightarrow> cstr ''unknown'')"
  by (simp add: uid_lookup_name_def user_of_def split: option.split)

lemma user_of_Some:
  assumes "uid_table_ok t"
  shows "user_of uid t = Some n \<longleftrightarrow> (\<exists>i < length t. ue_used (t ! i) \<and> ue_uid (t ! i) = uid \<and> ue_name (t ! i) = n)"
proof
  assume "\<exists>i < length t. ue_used (t ! i) \<and> ue_uid (t ! i) = uid \<and> ue_name (t ! i) = n"
  then obtain i where i: "i < length t" "ue_used (t ! i)" "ue_uid (t ! i) = uid" "ue_name (t ! i) = n" by blast
  have "\<not> (ue_used (t ! j) \<and> ue_uid (t ! j) = uid)" if "j < i" for j
    using assms i that unfolding uid_table_ok_def by (metis less_trans nat_neq_iff)
  with i have "first_idx (\<lambda>e. ue_used e \<and> ue_uid e = uid) t = Some i" by (intro first_idx_SomeI) auto
  with i show "user_of uid t = Some n" by (simp add: user_of_def)
qed (auto simp: user_of_def first_idx_Some_iff)

text \<open>Registering writes one entry: the user's own, or a free one.\<close>

lemma uid_register_cases:
  assumes "uid_register uid (Some nm) t = (r, t')" "uid < MAX_UID"
  obtains (full) "r = -1" "t' = t" "user_of uid t = None" "\<forall>e \<in> set t. ue_used e"
  | (put) i where "r = 0" "i < length t" "t' = t[i := \<lparr>ue_uid = uid, ue_name = take 31 nm, ue_used = True\<rparr>]"
      "ue_used (t ! i) \<longrightarrow> ue_uid (t ! i) = uid" "\<not> ue_used (t ! i) \<longrightarrow> user_of uid t = None"
proof (cases "first_idx (\<lambda>e. ue_used e \<and> ue_uid e = uid) t")
  case (Some i)
  with assms have "r = 0" "t' = t[i := (t ! i)\<lparr>ue_uid := uid, ue_name := take 31 nm\<rparr>]"
    by (auto simp: uid_register_def linorder_not_le [symmetric])
  moreover have "i < length t" "ue_used (t ! i)" "ue_uid (t ! i) = uid" using Some by (auto simp: first_idx_Some_iff)
  moreover from this have "(t ! i)\<lparr>ue_uid := uid, ue_name := take 31 nm\<rparr> = \<lparr>ue_uid = uid, ue_name = take 31 nm, ue_used = True\<rparr>"
    by (cases "t ! i") simp
  ultimately show thesis by (intro put [of i]) auto
next
  case none: None
  then have u: "user_of uid t = None" by (simp add: user_of_def)
  show thesis
  proof (cases "first_idx (\<lambda>e. \<not> ue_used e) t")
    case None
    with none assms have "r = -1" "t' = t" by (auto simp: uid_register_def linorder_not_le [symmetric])
    with None u show thesis by (intro full) (auto simp: first_idx_None_iff)
  next
    case (Some i)
    with none assms have "r = 0" "t' = t[i := \<lparr>ue_uid = uid, ue_name = take 31 nm, ue_used = True\<rparr>]"
      by (auto simp: uid_register_def linorder_not_le [symmetric])
    with Some u show thesis by (intro put [of i]) (auto simp: first_idx_Some_iff)
  qed
qed

lemma uid_put:
  assumes ok: "uid_table_ok t" and i: "i < length t" "ue_used (t ! i) \<longrightarrow> ue_uid (t ! i) = uid"
    "\<not> ue_used (t ! i) \<longrightarrow> user_of uid t = None"
    and t': "t' = t[i := \<lparr>ue_uid = uid, ue_name = nm, ue_used = True\<rparr>]" and nm: "length nm \<le> 31"
  shows "uid_table_ok t'" "user_of v t' = (if v = uid then Some nm else user_of v t)"
proof -
  have none: "\<not> (ue_used (t ! j) \<and> ue_uid (t ! j) = uid)" if "j < length t" "j \<noteq> i" for j
  proof (cases "ue_used (t ! i)")
    case True
    with that i ok show ?thesis by (auto simp: uid_table_ok_def)
  next
    case False
    with i(3) have "user_of uid t = None" by simp
    then show ?thesis using that by (auto simp: user_of_def first_idx_None_iff)
  qed
  show ok': "uid_table_ok t'"
    unfolding uid_table_ok_def
  proof (intro conjI allI impI ballI)
    fix a b assume "a < length t'" "b < length t'" "ue_used (t' ! a)" "ue_used (t' ! b)" "ue_uid (t' ! a) = ue_uid (t' ! b)"
    then show "a = b" using ok none i(1) by (auto simp: t' uid_table_ok_def nth_list_update split: if_splits)
  next
    fix e assume "e \<in> set t'"
    then have "e \<in> set t \<or> e = \<lparr>ue_uid = uid, ue_name = nm, ue_used = True\<rparr>"
      using set_update_subset_insert [of t i] unfolding t' by blast
    then show "length (ue_name e) \<le> 31" using ok nm by (auto simp: uid_table_ok_def)
  qed (use ok in \<open>simp add: t' uid_table_ok_def\<close>)
  show "user_of v t' = (if v = uid then Some nm else user_of v t)"
  proof (cases "v = uid")
    case True
    then show ?thesis using i(1) by (simp add: user_of_Some [OF ok']) (auto simp: t' intro!: exI [of _ i])
  next
    case False
    have "(ue_used (t' ! j) \<and> ue_uid (t' ! j) = v \<and> ue_name (t' ! j) = n) \<longleftrightarrow>
        (ue_used (t ! j) \<and> ue_uid (t ! j) = v \<and> ue_name (t ! j) = n)" if "j < length t" for j n
      using False i(1,2) that by (cases "j = i") (auto simp: t')
    moreover have "length t' = length t" by (simp add: t')
    ultimately have "user_of v t' = Some n \<longleftrightarrow> user_of v t = Some n" for n
      unfolding user_of_Some [OF ok] user_of_Some [OF ok'] by metis
    then show ?thesis using False by (metis not_None_eq)
  qed
qed

lemma uid_table_init_ok: "uid_table_ok uid_table_init"
proof -
  let ?t = "replicate MAX_USERS uid_entry0"
  have ok: "uid_table_ok ?t" by (simp add: uid_table_ok_def uid_entry0_def)
  obtain r t' where e: "uid_register ROOT_UID (Some (cstr ''root'')) ?t = (r, t')" by (cases "uid_register ROOT_UID (Some (cstr ''root'')) ?t")
  have "ROOT_UID < MAX_UID" by (simp add: ROOT_UID_def MAX_UID_def)
  from e this show ?thesis
  proof (cases rule: uid_register_cases)
    case full
    then show ?thesis using e ok by (simp add: uid_table_init_def)
  next
    case (put i)
    then show ?thesis using e uid_put(1) [OF ok put(2,4,5,3)] by (simp add: uid_table_init_def)
  qed
qed

section \<open>Properties\<close>

text \<open>
  C39. Access control is the Unix rule: a request is granted exactly when the caller is root or
  the permission bits of the one class that applies (owner before group before others) contain
  every requested bit; a missing object is refused.
\<close>

theorem security_check_unix:
  "(security_check (Some ob) operation s = 0 \<longleftrightarrow> current_uid s = ROOT_UID \<or> grants (class_bits ob s) operation) \<and>
   security_check ob' operation s \<in> {0, -1} \<and> security_check None operation s = -1"
  using security_check_spec [of ob operation s]
  by (auto simp: security_check_def Let_def split: option.split)

datatype sec_call = SetUid u32 | SetGid u32

fun sec_run :: "sec_call list \<Rightarrow> security \<Rightarrow> security" where
  "sec_run [] s = s"
| "sec_run (SetUid u # cs) s = sec_run cs (snd (security_set_uid u s))"
| "sec_run (SetGid g # cs) s = sec_run cs (snd (security_set_gid g s))"

text \<open>
  Privileges are never regained: once the user is not root, no sequence of \<open>setuid\<close> and
  \<open>setgid\<close> calls changes user or group, so every access decision stays the same.
\<close>

theorem no_privilege_escalation:
  assumes "current_uid s \<noteq> ROOT_UID"
  shows "sec_run cs s = s"
  using assms by (induction cs s rule: sec_run.induct) (auto simp: security_set_uid_def security_set_gid_def)

theorem no_privilege_escalation_witness:
  "sec_run [SetUid 0, SetGid 0, SetUid 1001] (snd (security_set_uid 1000 security_init)) =
    snd (security_set_uid 1000 security_init)"
  by (rule no_privilege_escalation) (simp add: security_set_uid_def security_init_def ROOT_UID_def MAX_UID_def)

text \<open>
  The user table is a bounded map: registering a valid user either succeeds, and then
  looking the user up gives the (truncated) name while all other users keep theirs, or fails
  because the table is full of other users and changes nothing.
\<close>

theorem uid_table_map:
  assumes "uid_table_ok t" "uid < MAX_UID" "uid_register uid (Some nm) t = (r, t')"
  shows "uid_table_ok t' \<and>
    (if r = 0 then \<forall>v. uid_lookup_name v t' = (if v = uid then take 31 nm else uid_lookup_name v t)
     else t' = t \<and> uid_lookup_name uid t = cstr ''unknown'' \<and> (\<forall>e \<in> set t. ue_used e))"
  using assms(3,2)
proof (cases rule: uid_register_cases)
  case full
  then show ?thesis using assms(1) by (simp add: lookup_user_of)
next
  case (put i)
  have l: "length (take 31 nm) \<le> 31" by simp
  show ?thesis using put(1) uid_put [OF assms(1) put(2,4,5,3) l] by (simp add: lookup_user_of)
qed

theorem uid_table_map_witness:
  "uid_table_ok (snd (uid_register 7 (Some (cstr ''ana'')) uid_table_init))"
proof -
  have "(7 :: u32) < MAX_UID" by (simp add: MAX_UID_def)
  from uid_table_map [OF uid_table_init_ok this surjective_pairing, of "cstr ''ana''"] show ?thesis by blast
qed

end
