(* ===== verification/Services.thy ===== *)
theory Services
  imports Security
begin

text \<open>
  The service manager of \<^verbatim>\<open>src/services/service_mgr.c\<close>, the configuration parser of
  \<^verbatim>\<open>config_parser.c\<close> and the init process of \<^verbatim>\<open>init.c\<close>. The tick counter of the
  timer is an argument of the operations that read it.
\<close>

section \<open>Data\<close>

definition MAX_SERVICES :: nat where "MAX_SERVICES = 16"
definition SVC_NAME_LEN :: nat where "SVC_NAME_LEN = 32"
definition SVC_MAX_CRASHES :: u32 where "SVC_MAX_CRASHES = 5"
definition INIT_CHECK_INTERVAL :: u64 where "INIT_CHECK_INTERVAL = 5000"

datatype svc_state = SVC_STOPPED | SVC_RUNNING | SVC_CRASHED | SVC_RESTARTING

record service =
  svc_name :: "u8 list"
  svc_state :: svc_state
  svc_pid :: u32
  crash_count :: u32
  backoff_delay :: u32
  last_start :: u64
  svc_enabled :: bool

definition service0 :: service where
  "service0 = \<lparr>svc_name = [], svc_state = SVC_STOPPED, svc_pid = 0, crash_count = 0, backoff_delay = 0,
     last_start = 0, svc_enabled = False\<rparr>"

record service_mgr =
  services :: "service list"
  service_count :: nat

section \<open>Operations\<close>

definition service_mgr_init :: service_mgr where
  "service_mgr_init = \<lparr>services = replicate MAX_SERVICES service0, service_count = 0\<rparr>"

definition service_mgr_register :: "u8 list option \<Rightarrow> service_mgr \<Rightarrow> int \<times> service_mgr" where
  "service_mgr_register name m =
     (case name of None \<Rightarrow> (-1, m)
      | Some nm \<Rightarrow>
          if service_count m \<ge> MAX_SERVICES then (-1, m)
          else (0, m\<lparr>services := (services m)[service_count m :=
                   \<lparr>svc_name = take (SVC_NAME_LEN - 1) nm, svc_state = SVC_STOPPED, svc_pid = 0, crash_count = 0,
                    backoff_delay = 2000, last_start = 0, svc_enabled = True\<rparr>],
                 service_count := service_count m + 1\<rparr>))"

text \<open>The search loops run over the registered entries and stop at the first with the name.\<close>

definition find_service :: "u8 list \<Rightarrow> service_mgr \<Rightarrow> nat option" where
  "find_service nm m = first_idx (\<lambda>s. svc_name s = nm) (take (service_count m) (services m))"

definition upd_service :: "nat \<Rightarrow> (service \<Rightarrow> service) \<Rightarrow> service_mgr \<Rightarrow> service_mgr" where
  "upd_service i f m = m\<lparr>services := (services m)[i := f (services m ! i)]\<rparr>"

definition service_mgr_start :: "u64 \<Rightarrow> u8 list option \<Rightarrow> service_mgr \<Rightarrow> int \<times> service_mgr" where
  "service_mgr_start now name m =
     (case name of None \<Rightarrow> (-1, m)
      | Some nm \<Rightarrow>
          (case find_service nm m of None \<Rightarrow> (-1, m)
           | Some i \<Rightarrow> (0, upd_service i (\<lambda>s. s\<lparr>svc_state := SVC_RUNNING, svc_pid := of_nat i + 100,
                              last_start := now, crash_count := 0\<rparr>) m)))"

definition service_mgr_stop :: "u8 list option \<Rightarrow> service_mgr \<Rightarrow> service_mgr" where
  "service_mgr_stop name m =
     (case name of None \<Rightarrow> m
      | Some nm \<Rightarrow>
          (case find_service nm m of None \<Rightarrow> m
           | Some i \<Rightarrow> upd_service i (\<lambda>s. s\<lparr>svc_state := SVC_STOPPED, svc_pid := 0\<rparr>) m))"

definition service_restart :: "u64 \<Rightarrow> service \<Rightarrow> service" where
  "service_restart now s =
     (if crash_count s \<ge> SVC_MAX_CRASHES then s\<lparr>svc_enabled := False, svc_state := SVC_STOPPED\<rparr>
      else let s1 = s\<lparr>svc_state := SVC_RESTARTING, crash_count := crash_count s + 1, backoff_delay := backoff_delay s * 2\<rparr>
           in s1\<lparr>svc_state := SVC_RUNNING, svc_pid := svc_pid s1 + 1, last_start := now\<rparr>)"

definition check_service :: "u64 \<Rightarrow> service \<Rightarrow> service" where
  "check_service now s =
     (if \<not> svc_enabled s then s else if svc_state s = SVC_CRASHED then service_restart now s else s)"

definition service_mgr_check_all :: "u64 \<Rightarrow> service_mgr \<Rightarrow> service_mgr" where
  "service_mgr_check_all now m =
     m\<lparr>services := map (check_service now) (take (service_count m) (services m)) @ drop (service_count m) (services m)\<rparr>"

definition service_mgr_simulate_crash :: "u8 list option \<Rightarrow> service_mgr \<Rightarrow> service_mgr" where
  "service_mgr_simulate_crash name m =
     (case name of None \<Rightarrow> m
      | Some nm \<Rightarrow>
          (case find_service nm m of None \<Rightarrow> m
           | Some i \<Rightarrow> upd_service i (\<lambda>s. s\<lparr>svc_state := SVC_CRASHED, svc_pid := 0\<rparr>) m))"

section \<open>The configuration parser\<close>

definition default_config :: "u8 list" where
  "default_config = cstr ''# Madar OS init configuration'' @ [10] @ cstr ''service=vfs'' @ [10] @
     cstr ''service=fat32'' @ [10] @ cstr ''service=ipc'' @ [10] @ cstr ''service=net'' @ [10] @
     cstr ''service=security'' @ [10]"

definition config_line :: "u64 \<Rightarrow> u8 list \<Rightarrow> service_mgr \<Rightarrow> service_mgr" where
  "config_line now line m =
     (if take 8 line = cstr ''service=''
      then let svc = take (SVC_NAME_LEN - 1) (drop 8 line)
           in snd (service_mgr_start now (Some svc) (snd (service_mgr_register (Some svc) m)))
      else m)"

text \<open>The character loop, with the characters that are left and the line read so far.\<close>

fun config_loop :: "u64 \<Rightarrow> u8 list \<Rightarrow> u8 list \<Rightarrow> service_mgr \<Rightarrow> service_mgr" where
  "config_loop now [] line m = m"
| "config_loop now (c # p) line m =
     (if c = 10 \<or> length line \<ge> 63 then config_loop now p [] (config_line now line m)
      else config_loop now p (line @ [c]) m)"

definition config_parse :: "u64 \<Rightarrow> service_mgr \<Rightarrow> int \<times> service_mgr" where
  "config_parse now m = (0, config_loop now default_config [] m)"

section \<open>Init\<close>

definition init_start :: "u64 \<Rightarrow> service_mgr" where
  "init_start now = snd (config_parse now service_mgr_init)"

text \<open>One round of the endless loop: the tick counter it reads, the time of the last check, the table.\<close>

definition init_main_loop :: "u64 \<Rightarrow> u64 \<times> service_mgr \<Rightarrow> u64 \<times> service_mgr" where
  "init_main_loop now = (\<lambda>(last_check, m).
     if now - last_check \<ge> INIT_CHECK_INTERVAL then (now, service_mgr_check_all now m) else (last_check, m))"

section \<open>Parsing by lines\<close>

lemma config_loop_line:
  assumes "10 \<notin> set l" "length line + length l < 63"
  shows "config_loop now (l @ 10 # p) line m = config_loop now p [] (config_line now (line @ l) m)"
  using assms by (induction l arbitrary: line) auto

lemma config_loop_lines:
  assumes "\<forall>l \<in> set ls. 10 \<notin> set l \<and> length l < 63"
  shows "config_loop now (concat (map (\<lambda>l. l @ [10]) ls) @ rest) [] m = config_loop now rest [] (foldl (\<lambda>m l. config_line now l m) m ls)"
  using assms by (induction ls arbitrary: m) (auto simp: config_loop_line)

section \<open>The table\<close>

definition mgr_ok :: "service_mgr \<Rightarrow> bool" where
  [inv_defs]: "mgr_ok m \<longleftrightarrow> length (services m) = MAX_SERVICES \<and> service_count m \<le> MAX_SERVICES \<and>
     (\<forall>i < service_count m. length (svc_name (services m ! i)) \<le> 31)"

lemma find_service_Some:
  "mgr_ok m \<Longrightarrow> find_service nm m = Some i \<longleftrightarrow> i < service_count m \<and> svc_name (services m ! i) = nm \<and>
     (\<forall>j < i. svc_name (services m ! j) \<noteq> nm)"
  by (auto simp: find_service_def first_idx_Some_iff mgr_ok_def)

lemma upd_service_ok:
  "mgr_ok m \<Longrightarrow> i < service_count m \<Longrightarrow> (\<And>s. svc_name (f s) = svc_name s) \<Longrightarrow> mgr_ok (upd_service i f m)"
  by (auto simp: mgr_ok_def upd_service_def nth_list_update)

lemma find_upd [simp]:
  assumes "\<And>s. svc_name (f s) = svc_name s"
  shows "find_service nm (upd_service i f m) = find_service nm m"
proof -
  have "map svc_name ((services m)[i := f (services m ! i)]) = map svc_name (services m)"
    using assms by (simp add: map_update list_update_same_conv) (metis list_update_beyond list_update_id map_update not_le nth_map)
  then have "map svc_name (take n ((services m)[i := f (services m ! i)])) = map svc_name (take n (services m))" for n
    by (metis take_map)
  then have "first_idx (\<lambda>x. x = nm) (map svc_name (take n ((services m)[i := f (services m ! i)]))) =
      first_idx (\<lambda>x. x = nm) (map svc_name (take n (services m)))" for n by simp
  then show ?thesis by (simp add: find_service_def upd_service_def first_idx_map)
qed

section \<open>Crashes and restarts\<close>

text \<open>A service crashes \<open>n\<close> times, and the manager checks after each crash.\<close>

fun crash_rounds :: "nat \<Rightarrow> u64 \<Rightarrow> u8 list \<Rightarrow> service_mgr \<Rightarrow> service_mgr" where
  "crash_rounds 0 now nm m = m"
| "crash_rounds (Suc n) now nm m = service_mgr_check_all now (service_mgr_simulate_crash (Some nm) (crash_rounds n now nm m))"

definition crash_once :: "u64 \<Rightarrow> service \<Rightarrow> service" where
  "crash_once now s = check_service now (s\<lparr>svc_state := SVC_CRASHED, svc_pid := 0\<rparr>)"

lemma check_name [simp]: "svc_name (check_service now s) = svc_name s"
  by (simp add: check_service_def service_restart_def Let_def)

lemma check_all_nth:
  "mgr_ok m \<Longrightarrow> i < service_count m \<Longrightarrow> services (service_mgr_check_all now m) ! i = check_service now (services m ! i)"
  by (simp add: service_mgr_check_all_def mgr_ok_def nth_append)

lemma check_all_ok: "mgr_ok m \<Longrightarrow> mgr_ok (service_mgr_check_all now m)"
  using check_all_nth [of m] by (auto simp: mgr_ok_def service_mgr_check_all_def nth_append)

lemma check_all_find: "mgr_ok m \<Longrightarrow> find_service nm (service_mgr_check_all now m) = find_service nm m"
  by (simp add: find_service_def service_mgr_check_all_def mgr_ok_def first_idx_map)

lemma crash_round:
  assumes "mgr_ok m" "find_service nm m = Some i"
  shows "mgr_ok (service_mgr_check_all now (service_mgr_simulate_crash (Some nm) m))"
    "find_service nm (service_mgr_check_all now (service_mgr_simulate_crash (Some nm) m)) = Some i"
    "services (service_mgr_check_all now (service_mgr_simulate_crash (Some nm) m)) ! i = crash_once now (services m ! i)"
proof -
  let ?f = "\<lambda>s. s\<lparr>svc_state := SVC_CRASHED, svc_pid := 0\<rparr>"
  have i: "i < service_count m" "i < length (services m)" using assms by (auto simp: find_service_Some mgr_ok_def)
  have e: "service_mgr_simulate_crash (Some nm) m = upd_service i ?f m"
    using assms(2) by (simp add: service_mgr_simulate_crash_def)
  have ok: "mgr_ok (upd_service i ?f m)" using assms(1) i by (intro upd_service_ok) auto
  then show "mgr_ok (service_mgr_check_all now (service_mgr_simulate_crash (Some nm) m))"
    "find_service nm (service_mgr_check_all now (service_mgr_simulate_crash (Some nm) m)) = Some i"
    unfolding e using assms(2) by (simp_all add: check_all_ok check_all_find)
  have "i < service_count (upd_service i ?f m)" using i by (simp add: upd_service_def)
  then show "services (service_mgr_check_all now (service_mgr_simulate_crash (Some nm) m)) ! i = crash_once now (services m ! i)"
    unfolding e using check_all_nth [OF ok] i by (simp add: crash_once_def) (simp add: upd_service_def)
qed

lemma crash_rounds_spec:
  assumes "mgr_ok m" "find_service nm m = Some i"
  shows "mgr_ok (crash_rounds n now nm m) \<and> find_service nm (crash_rounds n now nm m) = Some i \<and>
    services (crash_rounds n now nm m) ! i = (crash_once now ^^ n) (services m ! i)"
  by (induction n) (use assms crash_round in auto)

lemma crash_once_simps:
  "svc_enabled s \<Longrightarrow> crash_count s < 5 \<Longrightarrow> crash_once now s = s\<lparr>svc_state := SVC_RUNNING, svc_pid := 1,
     crash_count := crash_count s + 1, backoff_delay := backoff_delay s * 2, last_start := now\<rparr>"
  "svc_enabled s \<Longrightarrow> \<not> crash_count s < 5 \<Longrightarrow> crash_once now s = s\<lparr>svc_state := SVC_STOPPED, svc_pid := 0, svc_enabled := False\<rparr>"
  "\<not> svc_enabled s \<Longrightarrow> crash_once now s = s\<lparr>svc_state := SVC_CRASHED, svc_pid := 0\<rparr>"
  by (simp_all add: crash_once_def check_service_def service_restart_def SVC_MAX_CRASHES_def Let_def not_less)

lemma crash_up_to_5:
  assumes "svc_enabled s" "crash_count s = 0" "backoff_delay s = 2000" "n \<le> 5"
  shows "(crash_once now ^^ n) s = (if n = 0 then s else s\<lparr>svc_state := SVC_RUNNING, svc_pid := 1,
     crash_count := of_nat n, backoff_delay := 2000 * 2 ^ n, last_start := now\<rparr>)"
  using assms(4)
proof (induction n)
  case (Suc n)
  then have "n < 5" by simp
  then have "(of_nat n :: u32) < 5" by (simp add: word_less_nat_alt unat_of_nat)
  then show ?case using Suc assms(1-3) by (auto simp: crash_once_simps(1) add.commute mult.commute)
qed simp

lemma crash_beyond_5:
  assumes "svc_enabled s" "crash_count s = 0" "backoff_delay s = 2000"
  shows "\<not> svc_enabled ((crash_once now ^^ (n + 6)) s) \<and> svc_state ((crash_once now ^^ (n + 6)) s) \<noteq> SVC_RUNNING \<and>
    crash_count ((crash_once now ^^ (n + 6)) s) = 5 \<and> backoff_delay ((crash_once now ^^ (n + 6)) s) = 64000"
proof (induction n)
  case 0
  have "(crash_once now ^^ 6) s = crash_once now ((crash_once now ^^ 5) s)" by (simp add: eval_nat_numeral)
  then show ?case using crash_up_to_5 [OF assms, of 5] assms(1) by (simp add: crash_once_simps(2))
next
  case (Suc n)
  have "(crash_once now ^^ (Suc n + 6)) s = crash_once now ((crash_once now ^^ (n + 6)) s)" by (simp only: add_Suc funpow.simps comp_apply)
  with Suc show ?case by (simp add: crash_once_simps(3))
qed

section \<open>Properties\<close>

text \<open>
  The parser that reads the configuration character by character through a 64-byte line
  buffer processes exactly the lines of the text, in order, as long as they fit the buffer.
\<close>

theorem config_by_lines:
  assumes "\<forall>l \<in> set ls. 10 \<notin> set l \<and> length l < 63"
  shows "config_loop now (concat (map (\<lambda>l. l @ [10]) ls)) [] m = foldl (\<lambda>m l. config_line now l m) m ls"
  using config_loop_lines [OF assms, of now "[]" m] by simp

theorem config_by_lines_witness:
  "config_loop 3 (concat (map (\<lambda>l. l @ [10]) [cstr ''service=a'', cstr ''x'', cstr ''service=b''])) [] service_mgr_init =
    foldl (\<lambda>m l. config_line 3 l m) service_mgr_init [cstr ''service=a'', cstr ''x'', cstr ''service=b'']"
  by (rule config_by_lines) (simp add: cstr_def)

text \<open>
  Init brings up the system: after \<open>init_start\<close> exactly the five services of the built-in
  configuration are registered, in that order, and all of them run.
\<close>

theorem init_starts_services:
  "service_count (init_start now) = 5 \<and>
   map svc_name (take 5 (services (init_start now))) = map cstr [''vfs'', ''fat32'', ''ipc'', ''net'', ''security''] \<and>
   map svc_state (take 5 (services (init_start now))) = replicate 5 SVC_RUNNING \<and>
   map svc_enabled (take 5 (services (init_start now))) = replicate 5 True"
  by code_simp



end
