(* ===== verification/Vfs.thy ===== *)
theory Vfs
  imports Security
begin

text \<open>
  The virtual file system of \<^verbatim>\<open>src/services/vfs.c\<close>. Inodes live in a store indexed by
  address, linked by the parent, sibling and child pointers of the code; file contents are
  bytes of memory. Paths are byte strings without the terminator. The mount callback of a file
  system is code the table of file systems points to; it is an argument of \<open>vfs_mount\<close>.
\<close>

section \<open>Data\<close>

definition VFS_MAX_OPEN_FILES :: nat where "VFS_MAX_OPEN_FILES = 64"
definition VFS_MAX_NAME_LEN :: nat where "VFS_MAX_NAME_LEN = 128"
definition VFS_MAX_PATH_LEN :: nat where "VFS_MAX_PATH_LEN = 512"
definition VFS_TYPE_FILE :: u32 where "VFS_TYPE_FILE = 1"
definition VFS_TYPE_DIR :: u32 where "VFS_TYPE_DIR = 2"
definition VFS_O_RDONLY :: u32 where "VFS_O_RDONLY = 1"
definition VFS_O_WRONLY :: u32 where "VFS_O_WRONLY = 2"
definition VFS_O_RDWR :: u32 where "VFS_O_RDWR = 3"
definition VFS_O_TRUNC :: u32 where "VFS_O_TRUNC = 0x10"

record vfs_inode =
  ino :: u32
  i_type :: u32
  i_size :: u32
  i_name :: "u8 list"
  ref_count :: u32
  i_sec :: security_ctx
  fs_data :: addr
  i_parent :: addr
  next_sibling :: addr
  first_child :: addr

definition SIZEOF_INODE :: u64 where "SIZEOF_INODE = 192"

record vfs_file =
  vf_used :: bool
  vf_flags :: u32
  vf_offset :: u32
  vf_inode :: addr

definition vfs_file0 :: vfs_file where
  "vfs_file0 = \<lparr>vf_used = False, vf_flags = 0, vf_offset = 0, vf_inode = 0\<rparr>"

text \<open>A registered file system: its name and, if it has one, the number of its mount callback.\<close>

record vfs_ops =
  ops_name :: "u8 list"
  ops_mount :: "nat option"

record vfs =
  root_inode :: addr
  inodes :: "addr \<Rightarrow> vfs_inode"
  vbytes :: "addr \<Rightarrow> u8"
  open_files :: "vfs_file list"
  registered_fs :: "vfs_ops list"
  vfs_lock :: spinlock
  next_ino :: u32
  vheap :: heap
  vsec :: security

definition upd_inode :: "addr \<Rightarrow> (vfs_inode \<Rightarrow> vfs_inode) \<Rightarrow> vfs \<Rightarrow> vfs" where
  "upd_inode a f s = s\<lparr>inodes := (inodes s)(a := f (inodes s a))\<rparr>"

definition upd_file :: "nat \<Rightarrow> (vfs_file \<Rightarrow> vfs_file) \<Rightarrow> vfs \<Rightarrow> vfs" where
  "upd_file i f s = s\<lparr>open_files := (open_files s)[i := f (open_files s ! i)]\<rparr>"

fun put_bytes :: "(addr \<Rightarrow> u8) \<Rightarrow> addr \<Rightarrow> u8 list \<Rightarrow> addr \<Rightarrow> u8" where
  "put_bytes m a [] = m"
| "put_bytes m a (x # xs) = put_bytes (m(a := x)) (a + 1) xs"

definition get_bytes :: "(addr \<Rightarrow> u8) \<Rightarrow> addr \<Rightarrow> nat \<Rightarrow> u8 list" where
  "get_bytes m a n = map (\<lambda>k. m (a + of_nat k)) [0..<n]"

section \<open>Inodes\<close>

definition alloc_inode :: "u32 \<Rightarrow> vfs \<Rightarrow> (addr \<times> vfs) res" where
  "alloc_inode ty s =
     rbind (kmalloc SIZEOF_INODE (vheap s)) (\<lambda>(p, h).
       if p = 0 then Inr (0, s\<lparr>vheap := h\<rparr>)
       else Inr (p, s\<lparr>vheap := h, next_ino := next_ino s + 1, inodes := (inodes s)(p :=
              \<lparr>ino = next_ino s, i_type = ty, i_size = 0, i_name = [], ref_count = 1,
               i_sec = \<lparr>sc_uid = ROOT_UID, sc_gid = ROOT_GID, sc_mode = 0x1ED\<rparr>,
               fs_data = 0, i_parent = 0, next_sibling = 0, first_child = 0\<rparr>)\<rparr>))"

definition free_inode :: "addr \<Rightarrow> vfs \<Rightarrow> vfs res" where
  "free_inode p s =
     (if p = 0 then Inr s
      else let s1 = upd_inode p (\<lambda>i. i\<lparr>ref_count := ref_count i - 1\<rparr>) s
           in if ref_count (inodes s1 p) = 0 then rbind (kfree p (vheap s1)) (\<lambda>h. Inr (s1\<lparr>vheap := h\<rparr>))
              else Inr s1)"

section \<open>Path lookup\<close>

text \<open>\<open>strcmp(name, part) == 0\<close> for a name in memory, at the data pointer of a nameless inode.\<close>

fun cstr_at :: "(addr \<Rightarrow> u8) \<Rightarrow> addr \<Rightarrow> u8 list \<Rightarrow> bool" where
  "cstr_at m a [] \<longleftrightarrow> m a = 0"
| "cstr_at m a (c # cs) \<longleftrightarrow> m a = c \<and> cstr_at m (a + 1) cs"

definition child_named :: "vfs \<Rightarrow> u8 list \<Rightarrow> addr \<Rightarrow> bool" where
  "child_named s part c =
     (if i_name (inodes s c) \<noteq> [] then i_name (inodes s c) = part
      else fs_data (inodes s c) \<noteq> 0 \<and> cstr_at (vbytes s) (fs_data (inodes s c)) part)"

text \<open>The search along the sibling pointers; a cyclic chain would never end.\<close>

partial_function (option) find_child :: "vfs \<Rightarrow> u8 list \<Rightarrow> addr \<Rightarrow> addr option" where
  "find_child s part c =
     (if c = 0 then Some 0 else if child_named s part c then Some c
      else find_child s part (next_sibling (inodes s c)))"

fun take_comp :: "nat \<Rightarrow> u8 list \<Rightarrow> u8 list \<times> u8 list" where
  "take_comp 0 p = ([], p)"
| "take_comp (Suc n) [] = ([], [])"
| "take_comp (Suc n) (c # p) = (if c = 47 then ([], c # p) else let (q, r) = take_comp n p in (c # q, r))"

lemma take_comp_length: "length (snd (take_comp n p)) \<le> length p"
  by (induction n p rule: take_comp.induct) (auto simp: Let_def split_beta)

lemma take_comp_progress: "length (dropWhile ((=) 47) (snd (take_comp (Suc n) (c # p)))) < Suc (length p)"
proof (cases "c = 47")
  case True
  then show ?thesis by (simp add: le_imp_less_Suc length_dropWhile_le)
next
  case False
  then show ?thesis
    using le_trans [OF length_dropWhile_le take_comp_length, of "(=) 47" n p] by (simp add: split_beta Let_def less_Suc_eq_le)
qed

lemma lookup_decreases:
  "(part, r) = take_comp (VFS_MAX_NAME_LEN - 1) (c # p) \<Longrightarrow> length (dropWhile ((=) 47) r) < Suc (length p)"
proof -
  assume "(part, r) = take_comp (VFS_MAX_NAME_LEN - 1) (c # p)"
  moreover have "VFS_MAX_NAME_LEN - 1 = Suc 126" by (simp add: VFS_MAX_NAME_LEN_def)
  ultimately have "r = snd (take_comp (Suc 126) (c # p))" by (metis snd_conv)
  then show ?thesis using take_comp_progress by blast
qed

function lookup_loop :: "vfs \<Rightarrow> addr \<Rightarrow> u8 list \<Rightarrow> addr res" where
  "lookup_loop s cur [] = Inr cur"
| "lookup_loop s cur (c # p) =
     (let (part, r) = take_comp (VFS_MAX_NAME_LEN - 1) (c # p);
          rest = dropWhile ((=) 47) r
      in if part = [] \<or> part = [46] then lookup_loop s cur rest
         else if cur = 0 then Inl Fault
         else if part = [46, 46] then lookup_loop s (if i_parent (inodes s cur) \<noteq> 0 then i_parent (inodes s cur) else cur) rest
         else case find_child s part (first_child (inodes s cur)) of
           None \<Rightarrow> Inl Spin
         | Some f \<Rightarrow> if f = 0 then Inr 0 else lookup_loop s f rest)"
  by pat_completeness auto
termination
  by (relation "measure (\<lambda>(s, cur, p). length p)") (auto dest: lookup_decreases [simplified])

definition lookup_path :: "u8 list option \<Rightarrow> vfs \<Rightarrow> addr res" where
  "lookup_path path s =
     (case path of None \<Rightarrow> Inr 0 | Some [] \<Rightarrow> Inr 0
      | Some (c # p) \<Rightarrow>
          if c \<noteq> 47 then Inr 0 else if p = [] then Inr (root_inode s) else lookup_loop s (root_inode s) p)"

section \<open>File descriptors\<close>

definition alloc_fd :: "vfs \<Rightarrow> int \<times> vfs" where
  "alloc_fd s =
     (case first_idx (\<lambda>f. \<not> vf_used f) (open_files s) of
        Some i \<Rightarrow> (int i, upd_file i (\<lambda>f. f\<lparr>vf_used := True, vf_offset := 0\<rparr>) s)
      | None \<Rightarrow> (-1, s))"

definition free_fd :: "nat \<Rightarrow> vfs \<Rightarrow> vfs res" where
  "free_fd fd s =
     (if fd < VFS_MAX_OPEN_FILES then
        rbind (if vf_inode (open_files s ! fd) \<noteq> 0 then free_inode (vf_inode (open_files s ! fd)) s else Inr s)
          (\<lambda>s1. Inr (upd_file fd (\<lambda>_. vfs_file0) s1))
      else Inr s)"

text \<open>\<open>fd < 0 || fd >= VFS_MAX_OPEN_FILES || !open_files[fd].used\<close>, negated.\<close>

definition fd_open :: "int \<Rightarrow> vfs \<Rightarrow> bool" where
  "fd_open fd s \<longleftrightarrow> 0 \<le> fd \<and> fd < int VFS_MAX_OPEN_FILES \<and> vf_used (open_files s ! nat fd)"

section \<open>Operations\<close>

definition vfs_init :: "vfs \<Rightarrow> vfs res" where
  "vfs_init s =
     rbind (alloc_inode VFS_TYPE_DIR (s\<lparr>vfs_lock := spinlock_init, open_files := replicate VFS_MAX_OPEN_FILES vfs_file0\<rparr>))
       (\<lambda>(p, s1).
         let s2 = s1\<lparr>root_inode := p\<rparr> in
         if p = 0 then Inr s2 else Inr (upd_inode p (\<lambda>i. i\<lparr>i_sec := (i_sec i)\<lparr>sc_mode := 0x1ED\<rparr>\<rparr>) s2))"

definition vfs_register_fs :: "vfs_ops option \<Rightarrow> vfs \<Rightarrow> int \<times> vfs" where
  "vfs_register_fs ops s =
     (case ops of None \<Rightarrow> (-1, s)
      | Some ob \<Rightarrow> if length (registered_fs s) \<ge> 8 then (-1, s)
                 else (0, s\<lparr>registered_fs := registered_fs s @ [ob]\<rparr>))"

text \<open>
  The split of a path at its last slash, after copying it into the 512-byte buffer: the path of
  the parent and the name, cut to its buffer.
\<close>

definition split_path :: "u8 list \<Rightarrow> (u8 list \<times> u8 list) option" where
  "split_path path =
     (let pp = take (VFS_MAX_PATH_LEN - 1) path in
      case strrchr (pp @ [0]) 47 of
        Inr (Some k) \<Rightarrow> Some (if k = 0 then take 1 pp else take k pp, take (VFS_MAX_NAME_LEN - 1) (drop (Suc k) pp))
      | _ \<Rightarrow> None)"

text \<open>Link a new inode in front of the children of its parent.\<close>

definition link_child :: "addr \<Rightarrow> addr \<Rightarrow> vfs \<Rightarrow> vfs" where
  "link_child parent child s =
     (let s1 = upd_inode child (\<lambda>i. i\<lparr>i_parent := parent\<rparr>) s;
          s2 = upd_inode child (\<lambda>i. i\<lparr>next_sibling := first_child (inodes s1 parent)\<rparr>) s1
      in upd_inode parent (\<lambda>i. i\<lparr>first_child := child\<rparr>) s2)"

definition vfs_mkdir :: "u8 list option \<Rightarrow> vfs \<Rightarrow> (int \<times> vfs) res" where
  "vfs_mkdir path s =
     (case path of None \<Rightarrow> Inr (-1, s) | Some [] \<Rightarrow> Inr (-1, s)
      | Some (c # p) \<Rightarrow>
          if c \<noteq> 47 then Inr (-1, s)
          else case split_path (c # p) of None \<Rightarrow> Inr (-1, s)
          | Some (parent_path, name) \<Rightarrow>
              rbind (lookup_path (Some parent_path) s) (\<lambda>parent.
                if parent = 0 then Inr (-1, s)
                else rbind (alloc_inode VFS_TYPE_DIR s) (\<lambda>(child, s1).
                  if child = 0 then Inr (-1, s1)
                  else Inr (0, link_child parent child (upd_inode child (\<lambda>i. i\<lparr>i_name := name\<rparr>) s1)))))"

text \<open>\<open>memcpy(dst, data, len)\<close> from a buffer of the caller.\<close>

definition copy_in :: "u8 list option \<Rightarrow> u32 \<Rightarrow> addr \<Rightarrow> vfs \<Rightarrow> vfs res" where
  "copy_in data len dst s =
     (case data of None \<Rightarrow> Inl Fault
      | Some bs \<Rightarrow> if unat len \<le> length bs then Inr (s\<lparr>vbytes := put_bytes (vbytes s) dst (take (unat len) bs)\<rparr>)
                  else Inl Fault)"

definition overwrite_file :: "addr \<Rightarrow> u8 list option \<Rightarrow> u32 \<Rightarrow> vfs \<Rightarrow> (int \<times> vfs) res" where
  "overwrite_file f data len s =
     rbind (if fs_data (inodes s f) \<noteq> 0
            then rbind (kfree (fs_data (inodes s f)) (vheap s)) (\<lambda>h. Inr (s\<lparr>vheap := h\<rparr>)) else Inr s) (\<lambda>s1.
       let s2 = upd_inode f (\<lambda>i. i\<lparr>fs_data := 0, i_size := len\<rparr>) s1 in
       if len > 0 then
         rbind (kmalloc (ucast len) (vheap s2)) (\<lambda>(p, h).
           let s3 = upd_inode f (\<lambda>i. i\<lparr>fs_data := p\<rparr>) (s2\<lparr>vheap := h\<rparr>) in
           if p = 0 then Inr (-1, upd_inode f (\<lambda>i. i\<lparr>i_size := 0\<rparr>) s3)
           else rbind (copy_in data len p s3) (\<lambda>s4. Inr (0, s4)))
       else Inr (0, s2))"

definition new_file :: "addr \<Rightarrow> u8 list \<Rightarrow> u8 list option \<Rightarrow> u32 \<Rightarrow> vfs \<Rightarrow> (int \<times> vfs) res" where
  "new_file parent name data len s =
     rbind (alloc_inode VFS_TYPE_FILE s) (\<lambda>(child, s1).
       if child = 0 then Inr (-1, s1)
       else let s2 = upd_inode child (\<lambda>i. i\<lparr>i_name := name, i_size := len\<rparr>) s1 in
         if len > 0 then
           rbind (kmalloc (ucast len) (vheap s2)) (\<lambda>(p, h).
             let s3 = upd_inode child (\<lambda>i. i\<lparr>fs_data := p\<rparr>) (s2\<lparr>vheap := h\<rparr>) in
             if p = 0 then rbind (kfree child (vheap s3)) (\<lambda>h1. Inr (-1, s3\<lparr>vheap := h1\<rparr>))
             else rbind (copy_in data len p s3) (\<lambda>s4. Inr (0, link_child parent child s4)))
         else Inr (0, link_child parent child s2))"

definition vfs_create_file :: "u8 list option \<Rightarrow> u8 list option \<Rightarrow> u32 \<Rightarrow> vfs \<Rightarrow> (int \<times> vfs) res" where
  "vfs_create_file path data len s =
     (case path of None \<Rightarrow> Inr (-1, s) | Some [] \<Rightarrow> Inr (-1, s)
      | Some (c # p) \<Rightarrow>
          if c \<noteq> 47 then Inr (-1, s)
          else case split_path (c # p) of None \<Rightarrow> Inr (-1, s)
          | Some (parent_path, name) \<Rightarrow>
              if name = [] then Inr (-1, s)
              else rbind (lookup_path (Some parent_path) s) (\<lambda>parent.
                if parent = 0 \<or> i_type (inodes s parent) \<noteq> VFS_TYPE_DIR then Inr (-1, s)
                else rbind (lookup_path (Some (c # p)) s) (\<lambda>existing.
                  if existing \<noteq> 0 \<and> i_type (inodes s existing) = VFS_TYPE_FILE
                  then overwrite_file existing data len s
                  else new_file parent name data len s)))"

definition vfs_mount :: "(nat \<Rightarrow> addr \<Rightarrow> vfs \<Rightarrow> int \<times> vfs) \<Rightarrow> u8 list option \<Rightarrow> u8 list option \<Rightarrow> vfs \<Rightarrow> (int \<times> vfs) res" where
  "vfs_mount callback fs_name mount_path s =
     (case fs_name of None \<Rightarrow> Inr (-1, s)
      | Some nm \<Rightarrow>
          if mount_path = None then Inr (-1, s)
          else case first_idx (\<lambda>ob. ops_name ob = nm) (registered_fs s) of None \<Rightarrow> Inr (-1, s)
          | Some i \<Rightarrow>
              rbind (lookup_path mount_path s) (\<lambda>mnt0.
                rbind (if mnt0 = 0
                       then rbind (vfs_mkdir mount_path s) (\<lambda>(_, s1).
                              rbind (lookup_path mount_path s1) (\<lambda>mnt. Inr (mnt, s1)))
                       else Inr (mnt0, s)) (\<lambda>(mnt, s2).
                  if mnt = 0 then Inr (-1, s2)
                  else case ops_mount (registered_fs s ! i) of
                    Some f \<Rightarrow> Inr (callback f mnt s2) | None \<Rightarrow> Inr (0, s2))))"

definition open_perm :: "u32 \<Rightarrow> u32" where
  "open_perm flags =
     (let p0 = 0;
          p1 = (if flags AND VFS_O_RDONLY \<noteq> 0 then p0 OR PERM_READ else p0);
          p2 = (if flags AND VFS_O_WRONLY \<noteq> 0 then p1 OR PERM_WRITE else p1)
      in if flags AND VFS_O_RDWR \<noteq> 0 then p2 OR (PERM_READ OR PERM_WRITE) else p2)"

definition vfs_open :: "u8 list option \<Rightarrow> u32 \<Rightarrow> vfs \<Rightarrow> (int \<times> vfs) res" where
  "vfs_open path flags s =
     rbind (spinlock_lock (vfs_lock s)) (\<lambda>l.
       let s0 = s\<lparr>vfs_lock := l\<rparr>; unlock = (\<lambda>t. t\<lparr>vfs_lock := spinlock_unlock (vfs_lock t)\<rparr>) in
       rbind (lookup_path path s0) (\<lambda>i.
         if i = 0 then Inr (-1, unlock s0)
         else if security_check (Some (i_sec (inodes s0 i))) (open_perm flags) (vsec s0) \<noteq> 0 then Inr (-1, unlock s0)
         else let (fd, s1) = alloc_fd s0 in
           if fd < 0 then Inr (-1, unlock s1)
           else let s2 = upd_file (nat fd) (\<lambda>f. f\<lparr>vf_flags := flags, vf_inode := i\<rparr>) s1;
                    s3 = upd_inode i (\<lambda>n. n\<lparr>ref_count := ref_count n + 1\<rparr>) s2;
                    s4 = (if flags AND VFS_O_TRUNC \<noteq> 0 then upd_inode i (\<lambda>n. n\<lparr>i_size := 0\<rparr>) s3 else s3)
                in Inr (fd, unlock s4)))"

definition vfs_read :: "int \<Rightarrow> bool \<Rightarrow> u32 \<Rightarrow> vfs \<Rightarrow> int \<times> u8 list \<times> vfs" where
  "vfs_read fd null_buf len s =
     (if \<not> fd_open fd s then (-1, [], s)
      else if null_buf \<or> len = 0 then (-1, [], s)
      else let file = open_files s ! nat fd in
        if vf_flags file AND (VFS_O_RDONLY OR VFS_O_RDWR) = 0 then (-1, [], s)
        else if vf_inode file = 0 then (-1, [], s)
        else let i = inodes s (vf_inode file) in
          if i_type i \<noteq> VFS_TYPE_FILE then (-1, [], s)
          else if fs_data i \<noteq> 0 then
            (let avail = i_size i - vf_offset file;
                 n = (if len > avail then avail else len);
                 bs = get_bytes (vbytes s) (fs_data i + ucast (vf_offset file)) (unat n)
             in (sint n, bs, upd_file (nat fd) (\<lambda>f. f\<lparr>vf_offset := vf_offset f + n\<rparr>) s))
          else (-1, [], s))"

definition vfs_write :: "int \<Rightarrow> u8 list option \<Rightarrow> u32 \<Rightarrow> vfs \<Rightarrow> (int \<times> vfs) res" where
  "vfs_write fd buf len s =
     (if \<not> fd_open fd s then Inr (-1, s)
      else if buf = None \<or> len = 0 then Inr (-1, s)
      else let file = open_files s ! nat fd in
        if vf_flags file AND (VFS_O_WRONLY OR VFS_O_RDWR) = 0 then Inr (-1, s)
        else if vf_inode file = 0 then Inr (-1, s)
        else let i = inodes s (vf_inode file) in
          if i_type i \<noteq> VFS_TYPE_FILE then Inr (-1, s)
          else if fs_data i \<noteq> 0 then
            (let max_write = 4096 - vf_offset file;
                 n = (if len > max_write then max_write else len)
             in rbind (copy_in buf n (fs_data i + ucast (vf_offset file)) s) (\<lambda>s1.
                  let s2 = upd_file (nat fd) (\<lambda>f. f\<lparr>vf_offset := vf_offset f + n\<rparr>) s1;
                      new = vf_offset file + n
                  in Inr (sint n, if new > i_size i then upd_inode (vf_inode file) (\<lambda>x. x\<lparr>i_size := new\<rparr>) s2 else s2)))
          else Inr (-1, s))"

definition vfs_close :: "int \<Rightarrow> vfs \<Rightarrow> (int \<times> vfs) res" where
  "vfs_close fd s = (if \<not> fd_open fd s then Inr (-1, s) else rbind (free_fd (nat fd) s) (\<lambda>s1. Inr (0, s1)))"

text \<open>Offsets are added as 32-bit integers.\<close>

definition vfs_seek :: "int \<Rightarrow> u32 \<Rightarrow> int \<Rightarrow> vfs \<Rightarrow> (int \<times> vfs) res" where
  "vfs_seek fd off whence s =
     (if \<not> fd_open fd s then Inr (-1, s)
      else let file = open_files s ! nat fd;
               go = (\<lambda>new_off. Inr (0, upd_file (nat fd) (\<lambda>f. f\<lparr>vf_offset := (if sint new_off < 0 then 0 else new_off)\<rparr>) s))
           in if whence = 0 then go off
              else if whence = 1 then go (vf_offset file + off)
              else if whence = 2 then (if vf_inode file = 0 then Inl Fault else go (i_size (inodes s (vf_inode file)) + off))
              else Inr (-1, s))"

partial_function (option) nth_child :: "vfs \<Rightarrow> u32 \<Rightarrow> u32 \<Rightarrow> addr \<Rightarrow> addr option" where
  "nth_child s idx i c =
     (if c = 0 then Some 0 else if i = idx then Some c else nth_child s idx (i + 1) (next_sibling (inodes s c)))"

text \<open>The bytes of the C string at an address, cut to the name buffer.\<close>

fun name_at :: "nat \<Rightarrow> (addr \<Rightarrow> u8) \<Rightarrow> addr \<Rightarrow> u8 list" where
  "name_at 0 m a = []"
| "name_at (Suc n) m a = (if m a = 0 then [] else m a # name_at n m (a + 1))"

definition vfs_readdir :: "u8 list option \<Rightarrow> u32 \<Rightarrow> bool \<Rightarrow> vfs \<Rightarrow> (int \<times> u8 list) res" where
  "vfs_readdir path idx null_out s =
     (if path = None \<or> null_out then Inr (-1, [])
      else rbind (lookup_path path s) (\<lambda>dir.
        if dir = 0 \<or> i_type (inodes s dir) \<noteq> VFS_TYPE_DIR then Inr (-1, [])
        else case nth_child s idx 0 (first_child (inodes s dir)) of
          None \<Rightarrow> Inl Spin
        | Some c \<Rightarrow>
            if c = 0 then Inr (-1, [])
            else if i_name (inodes s c) \<noteq> [] then Inr (0, take (VFS_MAX_NAME_LEN - 1) (i_name (inodes s c)))
            else if fs_data (inodes s c) \<noteq> 0 then Inr (0, name_at (VFS_MAX_NAME_LEN - 1) (vbytes s) (fs_data (inodes s c)))
            else Inr (0, [])))"

section \<open>Paths as lists of components\<close>

function comps :: "u8 list \<Rightarrow> u8 list list" where
  "comps [] = []"
| "comps (c # p) =
     (let (part, r) = take_comp (VFS_MAX_NAME_LEN - 1) (c # p)
      in (if part = [] then [] else [part]) @ comps (dropWhile ((=) 47) r))"
  by pat_completeness auto
termination
  by (relation "measure length") (auto dest: lookup_decreases [simplified])

fun walk :: "vfs \<Rightarrow> addr \<Rightarrow> u8 list list \<Rightarrow> addr res" where
  "walk s cur [] = Inr cur"
| "walk s cur (k # ks) =
     (if k = [46] then walk s cur ks
      else if cur = 0 then Inl Fault
      else if k = [46, 46] then walk s (if i_parent (inodes s cur) \<noteq> 0 then i_parent (inodes s cur) else cur) ks
      else case find_child s k (first_child (inodes s cur)) of
        None \<Rightarrow> Inl Spin | Some f \<Rightarrow> if f = 0 then Inr 0 else walk s f ks)"

lemma name_len: "VFS_MAX_NAME_LEN - Suc 0 = Suc 126"
  by (simp add: VFS_MAX_NAME_LEN_def)

lemma lookup_loop_walk: "lookup_loop s cur p = walk s cur (comps p)"
proof (induction p arbitrary: cur rule: comps.induct)
  case (2 c p)
  obtain part r where pr: "take_comp (VFS_MAX_NAME_LEN - 1) (c # p) = (part, r)" by fastforce
  have ih: "lookup_loop s cur' (dropWhile ((=) 47) r) = walk s cur' (comps (dropWhile ((=) 47) r))" for cur'
    using 2 [OF pr [symmetric] refl] .
  show ?case
    unfolding lookup_loop.simps comps.simps pr Let_def prod.case ih by (auto split: option.split)
qed simp

lemma take_comp_slash: "take_comp (Suc n) (47 # q) = ([], 47 # q)"
  by simp

lemma comps_slash: "comps (47 # p) = comps (dropWhile ((=) 47) p)"
proof -
  have "take_comp (VFS_MAX_NAME_LEN - 1) (47 # p) = ([], 47 # p)"
    unfolding One_nat_def name_len by (rule take_comp_slash)
  then show ?thesis unfolding comps.simps by simp
qed

lemma comps_skip: "comps (dropWhile ((=) 47) p) = comps p"
proof (cases p)
  case (Cons c q)
  show ?thesis
  proof (cases "c = 47")
    case True
    then show ?thesis unfolding Cons by (simp only: dropWhile.simps simp_thms if_True comps_slash)
  next
    case False
    then show ?thesis unfolding Cons by (simp only: dropWhile.simps if_False eq_commute [of 47 c])
  qed
qed simp

text \<open>What \<open>take_comp\<close> leaves: nothing, or a slash, or the part that did not fit the buffer.\<close>

lemma take_comp_append:
  assumes "take_comp n p = (part, r)"
  shows "take_comp n (p @ 47 # q) = (part, r @ 47 # q)"
  using assms by (induction n p arbitrary: part r rule: take_comp.induct) (auto simp: Let_def split: prod.splits)

lemma comps_append: "comps (p @ 47 # q) = comps p @ comps q"
proof (induction p rule: comps.induct)
  case 1
  show ?case by (simp only: append_Nil comps_slash comps_skip comps.simps(1))
next
  case (2 c p)
  obtain part r where pr: "take_comp (VFS_MAX_NAME_LEN - 1) (c # p) = (part, r)" by fastforce
  have "take_comp (VFS_MAX_NAME_LEN - 1) (c # p @ 47 # q) = (part, r @ 47 # q)"
    using take_comp_append [OF pr, of q] by simp
  moreover have "comps (dropWhile ((=) 47) (r @ 47 # q)) = comps (dropWhile ((=) 47) r) @ comps q"
  proof (cases "\<exists>x \<in> set r. x \<noteq> 47")
    case True
    then have "dropWhile ((=) 47) (r @ 47 # q) = dropWhile ((=) 47) r @ 47 # q"
      by (metis (full_types) dropWhile_append1)
    then show ?thesis using 2 [OF pr [symmetric] refl] by simp
  next
    case False
    then have "dropWhile ((=) 47) (r @ 47 # q) = dropWhile ((=) 47) q" "dropWhile ((=) 47) r = []"
      by (auto simp: dropWhile_append2)
    then show ?thesis by (simp only: comps_skip comps.simps append_Nil)
  qed
  ultimately show ?case unfolding append_Cons comps.simps pr Let_def prod.case by simp
qed

lemma take_comp_whole: "47 \<notin> set p \<Longrightarrow> length p \<le> n \<Longrightarrow> take_comp n p = (p, [])"
  by (induction n p rule: take_comp.induct) auto

lemma comps_single: "47 \<notin> set p \<Longrightarrow> p \<noteq> [] \<Longrightarrow> length p \<le> 127 \<Longrightarrow> comps p = [p]"
  by (cases p) (simp_all add: VFS_MAX_NAME_LEN_def take_comp_whole del: take_comp.simps)

lemma split_path_spec:
  assumes "plain (pre @ 47 # name)" "length (pre @ 47 # name) \<le> 511" "47 \<notin> set name" "length name \<le> 127"
  shows "split_path (pre @ 47 # name) = Some (if pre = [] then [47] else pre, name)"
proof -
  have "(47 :: u8) \<noteq> 0" by simp
  then obtain f where f: "strrchr_from 0 None ((pre @ 47 # name) @ [0]) 47 = Inr f"
    "\<exists>k < length (pre @ 47 # name). f = Some k \<and> (pre @ 47 # name) ! k = 47 \<and> 47 \<notin> set (drop (Suc k) (pre @ 47 # name))"
    using strrchr_from_spec [OF assms(1), of 47 0 None "[]"] by auto
  then obtain k where k: "f = Some k" "k < length (pre @ 47 # name)" "(pre @ 47 # name) ! k = 47" "47 \<notin> set (drop (Suc k) (pre @ 47 # name))"
    by auto
  have "k = length pre"
  proof (rule linorder_cases [of k "length pre"])
    assume "k < length pre"
    then have "47 \<in> set (drop (Suc k) (pre @ 47 # name))" by simp
    with k(4) show ?thesis by simp
  next
    assume "k > length pre"
    then have "(pre @ 47 # name) ! k \<in> set name" using k(2) by (auto simp: nth_append nth_Cons')
    with k(3) assms(3) show ?thesis by simp
  qed
  moreover have "take 511 (pre @ 47 # name) = pre @ 47 # name" using assms(2) by (intro take_all) simp
  ultimately show ?thesis
    using f(1) k(1) assms(4) by (simp add: split_path_def strrchr_def VFS_MAX_PATH_LEN_def VFS_MAX_NAME_LEN_def)
qed

section \<open>The invariant\<close>

text \<open>Pointers that are live allocations of the heap.\<close>

definition owns :: "heap \<Rightarrow> addr set \<Rightarrow> bool" where
  "owns h X \<longleftrightarrow> (\<exists>L. heap_inv h L \<and> X \<subseteq> user_ptr h ` L)"

lemma owns_kmalloc:
  assumes "owns h X"
  obtains (failed) h' where "kmalloc sz h = Inr (0, h')" "owns h' X"
  | (fits) p h' where "kmalloc sz h = Inr (p, h')" "p \<noteq> 0" "p \<notin> X" "owns h' (insert p X)"
proof -
  from assms obtain L where L: "heap_inv h L" "X \<subseteq> user_ptr h ` L" by (auto simp: owns_def)
  then show thesis
  proof (cases rule: kmalloc_thread [where sz = sz])
    case (failed h')
    then show thesis by (intro that(1)) (auto simp: owns_def)
  next
    case (fits p a h')
    then have "owns h' (insert p X)" unfolding owns_def by blast
    with fits show thesis by (intro that(2))
  qed
qed

lemma owns_kfree:
  assumes "owns h X" "p \<in> X"
  obtains h' where "kfree p h = Inr h'" "owns h' (X - {p})"
proof -
  from assms obtain L where L: "heap_inv h L" "X \<subseteq> user_ptr h ` L" by (auto simp: owns_def)
  with assms(2) obtain a where a: "a \<in> L" "p = user_ptr h a" by blast
  from kfree_thread [OF L(1) a(1) L(2)] a(2) that show thesis unfolding owns_def by blast
qed

text \<open>
  \<open>N\<close> is the set of live inodes. Pointers stay inside it, sibling chains decrease a rank (so
  every search ends).
\<close>

definition vfs_tree :: "(addr \<Rightarrow> nat) \<Rightarrow> vfs \<Rightarrow> addr set \<Rightarrow> bool" where
  "vfs_tree rk s N \<longleftrightarrow> root_inode s \<in> N \<and> 0 \<notin> N \<and>
     (\<forall>a \<in> N. i_parent (inodes s a) \<in> insert 0 N \<and> next_sibling (inodes s a) \<in> insert 0 N \<and>
        first_child (inodes s a) \<in> insert 0 N \<and>
        (next_sibling (inodes s a) \<noteq> 0 \<longrightarrow> rk (next_sibling (inodes s a)) < rk a))"

definition opens :: "vfs \<Rightarrow> addr \<Rightarrow> nat" where
  "opens s a = length (filter (\<lambda>f. vf_used f \<and> vf_inode f = a) (open_files s))"

definition fds_ok :: "vfs \<Rightarrow> addr set \<Rightarrow> bool" where
  "fds_ok s N \<longleftrightarrow> length (open_files s) = VFS_MAX_OPEN_FILES \<and>
     (\<forall>f \<in> set (open_files s). vf_used f \<longrightarrow> vf_inode f \<in> N) \<and>
     (\<forall>a \<in> N. ref_count (inodes s a) = of_nat (Suc (opens s a)))"

definition data_blocks :: "vfs \<Rightarrow> addr set \<Rightarrow> addr set" where
  "data_blocks s N = (\<lambda>a. fs_data (inodes s a)) ` N - {0}"

definition data_ok :: "vfs \<Rightarrow> addr set \<Rightarrow> bool" where
  "data_ok s N \<longleftrightarrow> data_blocks s N \<inter> N = {} \<and>
     (\<forall>a \<in> N. \<forall>b \<in> N. fs_data (inodes s a) = fs_data (inodes s b) \<longrightarrow> fs_data (inodes s a) \<noteq> 0 \<longrightarrow> a = b)"

definition vfs_core :: "vfs \<Rightarrow> addr set \<Rightarrow> bool" where
  [inv_defs]: "vfs_core s N \<longleftrightarrow> (\<exists>rk. vfs_tree rk s N) \<and> fds_ok s N \<and> data_ok s N \<and>
     owns (vheap s) (N \<union> data_blocks s N) \<and> lock_free (vfs_lock s)"

text \<open>Files have names, and an inode without a name (the root, a directory made with a trailing slash) has no data.\<close>

definition named :: "vfs \<Rightarrow> addr set \<Rightarrow> bool" where
  "named s N \<longleftrightarrow> (\<forall>a \<in> N. i_name (inodes s a) = [] \<longrightarrow> fs_data (inodes s a) = 0 \<and> i_type (inodes s a) \<noteq> VFS_TYPE_FILE)"

definition vfs_inv :: "vfs \<Rightarrow> addr set \<Rightarrow> bool" where
  [inv_defs]: "vfs_inv s N \<longleftrightarrow> vfs_core s N \<and> named s N"

lemma find_child_ends:
  assumes "vfs_tree rk s N"
  shows "c \<in> insert 0 N \<Longrightarrow> \<exists>r \<in> insert 0 N. find_child s part c = Some r"
proof (induction "rk c" arbitrary: c rule: less_induct)
  case less
  show ?case
  proof (cases "c = 0 \<or> child_named s part c \<or> next_sibling (inodes s c) = 0")
    case True
    with less.prems show ?thesis by (auto simp: find_child.simps [of s part c] find_child.simps [of s part 0])
  next
    case False
    with less.prems assms have "next_sibling (inodes s c) \<in> insert 0 N" "rk (next_sibling (inodes s c)) < rk c"
      by (auto simp: vfs_tree_def)
    with less.hyps False show ?thesis by (simp add: find_child.simps [of s part c])
  qed
qed

lemma nth_child_ends:
  assumes "vfs_tree rk s N"
  shows "c \<in> insert 0 N \<Longrightarrow> \<exists>r \<in> insert 0 N. nth_child s idx i c = Some r"
proof (induction "rk c" arbitrary: c i rule: less_induct)
  case less
  show ?case
  proof (cases "c = 0 \<or> i = idx \<or> next_sibling (inodes s c) = 0")
    case True
    with less.prems show ?thesis by (auto simp: nth_child.simps [of s idx i c] nth_child.simps [of s idx "i + 1" 0])
  next
    case False
    with less.prems assms have "next_sibling (inodes s c) \<in> insert 0 N" "rk (next_sibling (inodes s c)) < rk c"
      by (auto simp: vfs_tree_def)
    with less.hyps False show ?thesis by (simp add: nth_child.simps [of s idx i c])
  qed
qed

lemma walk_ends:
  assumes "vfs_tree rk s N"
  shows "cur \<in> N \<Longrightarrow> \<exists>r \<in> insert 0 N. walk s cur ks = Inr r"
proof (induction ks arbitrary: cur)
  case (Cons k ks)
  have nz: "cur \<noteq> 0" and fc: "first_child (inodes s cur) \<in> insert 0 N" and pa: "i_parent (inodes s cur) \<in> insert 0 N"
    using assms Cons.prems by (auto simp: vfs_tree_def)
  from find_child_ends [OF assms fc, of k] obtain r where r: "find_child s k (first_child (inodes s cur)) = Some r" "r \<in> insert 0 N"
    by blast
  show ?case using Cons.IH [OF Cons.prems] Cons.IH [of r] Cons.IH [of "i_parent (inodes s cur)"] r nz pa by auto
qed auto

lemma lookup_path_ends:
  assumes "vfs_tree rk s N"
  shows "\<exists>r \<in> insert 0 N. lookup_path path s = Inr r"
  using assms walk_ends [OF assms, of "root_inode s"]
  by (auto simp: lookup_path_def lookup_loop_walk vfs_tree_def split: option.splits list.splits)

lemma upd_simps [simp]:
  "inodes (upd_inode a f s) = (inodes s)(a := f (inodes s a))" "root_inode (upd_inode a f s) = root_inode s"
  "open_files (upd_inode a f s) = open_files s" "vheap (upd_inode a f s) = vheap s" "vfs_lock (upd_inode a f s) = vfs_lock s"
  "vbytes (upd_inode a f s) = vbytes s" "vsec (upd_inode a f s) = vsec s"
  "open_files (upd_file i g s) = (open_files s)[i := g (open_files s ! i)]" "inodes (upd_file i g s) = inodes s"
  "root_inode (upd_file i g s) = root_inode s" "vheap (upd_file i g s) = vheap s" "vfs_lock (upd_file i g s) = vfs_lock s"
  "vbytes (upd_file i g s) = vbytes s" "vsec (upd_file i g s) = vsec s"
  by (simp_all add: upd_inode_def upd_file_def)

text \<open>The invariant looks only at the links, data pointers and counts of the live inodes.\<close>

lemma vfs_core_same:
  assumes inv: "vfs_core s N"
    and eq: "root_inode t = root_inode s" "open_files t = open_files s" "vheap t = vheap s" "lock_free (vfs_lock t)"
    and nodes: "\<forall>a \<in> N. i_parent (inodes t a) = i_parent (inodes s a) \<and> next_sibling (inodes t a) = next_sibling (inodes s a) \<and>
       first_child (inodes t a) = first_child (inodes s a) \<and> fs_data (inodes t a) = fs_data (inodes s a) \<and>
       ref_count (inodes t a) = ref_count (inodes s a)"
  shows "vfs_core t N"
proof -
  have "data_blocks t N = data_blocks s N" using nodes by (auto simp: data_blocks_def image_iff)
  moreover have "data_ok s N" "fds_ok s N" "owns (vheap s) (N \<union> data_blocks s N)" using inv by (auto simp: vfs_core_def)
  ultimately have "data_ok t N \<and> fds_ok t N \<and> owns (vheap t) (N \<union> data_blocks t N)"
    using nodes eq by (simp add: data_ok_def fds_ok_def opens_def)
  moreover obtain rk where "vfs_tree rk s N" using inv by (auto simp: vfs_core_def)
  then have "vfs_tree rk t N" using nodes eq(1) by (simp add: vfs_tree_def)
  ultimately show ?thesis using eq(4) by (auto simp: vfs_core_def)
qed

definition orphan :: "vfs \<Rightarrow> addr set \<Rightarrow> addr \<Rightarrow> bool" where
  "orphan s N p \<longleftrightarrow> p \<notin> N \<and> p \<noteq> 0 \<and> i_parent (inodes s p) = 0 \<and> next_sibling (inodes s p) = 0 \<and> first_child (inodes s p) = 0 \<and>
     fs_data (inodes s p) = 0"

lemma opens_outside: "fds_ok s N \<Longrightarrow> p \<notin> N \<Longrightarrow> opens s p = 0"
  by (auto simp: opens_def fds_ok_def filter_empty_conv)

lemma data_blocks_insert: "data_blocks s (insert p N) = data_blocks s N \<union> ({fs_data (inodes s p)} - {0})"
  by (auto simp: data_blocks_def)

lemma alloc_inode_core:
  assumes inv: "vfs_core s N"
  obtains (failed) h' where "alloc_inode ty s = Inr (0, s\<lparr>vheap := h'\<rparr>)" "vfs_core (s\<lparr>vheap := h'\<rparr>) N"
  | (fits) p s' where "alloc_inode ty s = Inr (p, s')" "orphan s' N p" "vfs_core s' (insert p N)"
      "\<forall>a. a \<noteq> p \<longrightarrow> inodes s' a = inodes s a" "root_inode s' = root_inode s" "vbytes s' = vbytes s"
      "open_files s' = open_files s" "vsec s' = vsec s" "ref_count (inodes s' p) = 1" "i_type (inodes s' p) = ty"
      "i_sec (inodes s' p) = \<lparr>sc_uid = ROOT_UID, sc_gid = ROOT_GID, sc_mode = 0x1ED\<rparr>"
proof -
  obtain rk where tree: "vfs_tree rk s N" using inv by (auto simp: vfs_core_def)
  have own: "owns (vheap s) (N \<union> data_blocks s N)" and fds: "fds_ok s N" and dat: "data_ok s N" and lf: "lock_free (vfs_lock s)"
    using inv by (auto simp: vfs_core_def)
  from own show thesis
  proof (cases rule: owns_kmalloc [where sz = SIZEOF_INODE])
    case (failed h')
    from inv failed(2) have "vfs_core (s\<lparr>vheap := h'\<rparr>) N"
      by (auto simp: vfs_core_def vfs_tree_def fds_ok_def opens_def data_ok_def data_blocks_def)
    with failed(1) show thesis by (intro that(1)) (simp_all add: alloc_inode_def)
  next
    case (fits p h')
    let ?n = "\<lparr>ino = next_ino s, i_type = ty, i_size = 0, i_name = [], ref_count = 1,
               i_sec = \<lparr>sc_uid = ROOT_UID, sc_gid = ROOT_GID, sc_mode = 0x1ED\<rparr>,
               fs_data = 0, i_parent = 0, next_sibling = 0, first_child = 0\<rparr>"
    let ?s = "s\<lparr>vheap := h', next_ino := next_ino s + 1, inodes := (inodes s)(p := ?n)\<rparr>"
    have pN: "p \<notin> N" using fits by simp
    have db: "data_blocks ?s (insert p N) = data_blocks s N" using pN by (auto simp: data_blocks_def)
    have "vfs_tree rk ?s (insert p N)" using tree fits(2) pN by (auto simp: vfs_tree_def)
    moreover have "fds_ok ?s (insert p N)" using fds pN opens_outside [OF fds pN] by (auto simp: fds_ok_def opens_def)
    moreover have "data_ok ?s (insert p N)" using dat fits(3) pN unfolding data_ok_def db by auto
    moreover have "owns h' (insert p N \<union> data_blocks ?s (insert p N))" unfolding db using fits(4) by simp
    ultimately have "vfs_core ?s (insert p N)" using lf by (auto simp: vfs_core_def)
    then show thesis using fits pN by (intro that(2) [of p ?s]) (simp_all add: alloc_inode_def orphan_def)
  qed
qed

lemma link_child_inodes:
  assumes "child \<noteq> parent"
  shows "inodes (link_child parent child s) = (inodes s)
     (child := (inodes s child)\<lparr>i_parent := parent, next_sibling := first_child (inodes s parent)\<rparr>,
      parent := (inodes s parent)\<lparr>first_child := child\<rparr>)"
  using assms by (simp add: link_child_def Let_def)

lemma link_child_same [simp]:
  "root_inode (link_child p c s) = root_inode s" "open_files (link_child p c s) = open_files s"
  "vheap (link_child p c s) = vheap s" "vfs_lock (link_child p c s) = vfs_lock s"
  "vbytes (link_child p c s) = vbytes s" "vsec (link_child p c s) = vsec s"
  by (simp_all add: link_child_def Let_def)

lemma link_child_named: "c \<noteq> p \<Longrightarrow> named s N \<Longrightarrow> named (link_child p c s) N"
  by (auto simp: named_def link_child_inodes)

lemma link_child_core:
  assumes inv: "vfs_core s (insert c N)" and c: "c \<notin> N" "c \<noteq> 0" and p: "p \<in> N"
    and closed: "\<forall>a \<in> N. next_sibling (inodes s a) \<noteq> c \<and> first_child (inodes s a) \<noteq> c"
  shows "vfs_core (link_child p c s) (insert c N)"
proof -
  let ?t = "link_child p c s"
  obtain rk where tree: "vfs_tree rk s (insert c N)" using inv by (auto simp: vfs_core_def)
  have ne: "c \<noteq> p" using c p by auto
  note nodes = link_child_inodes [OF ne, of s]
  let ?rk = "rk(c := Suc (rk (first_child (inodes s p))))"
  have old: "i_parent (inodes s a) \<in> insert 0 (insert c N)" "next_sibling (inodes s a) \<in> insert 0 N"
    "first_child (inodes s a) \<in> insert 0 N" "next_sibling (inodes s a) \<noteq> 0 \<longrightarrow> rk (next_sibling (inodes s a)) < rk a" if "a \<in> N" for a
    using tree closed that unfolding vfs_tree_def by blast+
  have new: "root_inode s \<in> insert c N" "0 \<notin> insert c N"
    "first_child (inodes s c) \<in> insert 0 (insert c N)"
    using tree by (auto simp: vfs_tree_def)
  have "vfs_tree ?rk ?t (insert c N)"
    unfolding vfs_tree_def
  proof (intro conjI ballI)
    fix a assume "a \<in> insert c N"
    then consider "a = c" | "a = p" | "a \<in> N" "a \<noteq> c" "a \<noteq> p" by auto
    then show "i_parent (inodes ?t a) \<in> insert 0 (insert c N)" "next_sibling (inodes ?t a) \<in> insert 0 (insert c N)"
      "first_child (inodes ?t a) \<in> insert 0 (insert c N)"
      "next_sibling (inodes ?t a) \<noteq> 0 \<longrightarrow> ?rk (next_sibling (inodes ?t a)) < ?rk a"
      using ne c p old [of a] old [OF p] new
      by (cases; auto simp: nodes)+
  qed (use new in auto)
  moreover have db: "data_blocks ?t (insert c N) = data_blocks s (insert c N)"
    unfolding data_blocks_def nodes using ne by (auto simp: image_iff)
  have "fs_data (inodes ?t a) = fs_data (inodes s a)" "ref_count (inodes ?t a) = ref_count (inodes s a)" for a
    unfolding nodes using ne by auto
  then have "data_ok ?t (insert c N)" "fds_ok ?t (insert c N)"
    using inv db unfolding vfs_core_def by (simp_all add: data_ok_def fds_ok_def opens_def)
  ultimately show ?thesis using inv db by (auto simp: vfs_core_def)
qed

section \<open>Every operation returns and keeps the invariant\<close>

lemma vfs_mkdir_inv:
  assumes inv: "vfs_inv s N"
  shows "\<exists>r t N'. vfs_mkdir path s = Inr (r, t) \<and> vfs_inv t N'"
proof -
  have core: "vfs_core s N" and nm: "named s N" using inv by (auto simp: vfs_inv_def)
  then obtain rk where tree: "vfs_tree rk s N" by (auto simp: vfs_core_def)
  show ?thesis
  proof (cases "\<exists>p parent_path name. path = Some (47 # p) \<and> split_path (47 # p) = Some (parent_path, name)")
    case False
    then show ?thesis using inv by (auto simp: vfs_mkdir_def split: option.splits list.splits)
  next
    case True
    then obtain p parent_path name where p: "path = Some (47 # p)" "split_path (47 # p) = Some (parent_path, name)" by blast
    obtain d where d: "lookup_path (Some parent_path) s = Inr d" "d \<in> insert 0 N" using lookup_path_ends [OF tree] by blast
    show ?thesis
    proof (cases "d = 0")
      case True
      then show ?thesis using p d inv by (auto simp: vfs_mkdir_def)
    next
      case False
      from core show ?thesis
      proof (cases rule: alloc_inode_core [where ty = VFS_TYPE_DIR])
        case (failed h')
        then show ?thesis using p d False nm by (fastforce simp: vfs_mkdir_def vfs_inv_def named_def)
      next
        case (fits c t)
        let ?t = "upd_inode c (\<lambda>i. i\<lparr>i_name := name\<rparr>) t"
        have c: "c \<notin> N" "c \<noteq> 0" "fs_data (inodes t c) = 0" using fits(2) by (auto simp: orphan_def)
        have "vfs_core ?t (insert c N)"
          by (rule vfs_core_same [OF fits(3)]) (use fits(3) c in \<open>auto simp: vfs_core_def\<close>)
        moreover have "\<forall>a \<in> N. next_sibling (inodes ?t a) \<noteq> c \<and> first_child (inodes ?t a) \<noteq> c"
          using tree c fits(4) by (auto simp: vfs_tree_def)
        ultimately have "vfs_core (link_child d c ?t) (insert c N)" using c d(2) False by (intro link_child_core) auto
        moreover have "named (link_child d c ?t) (insert c N)"
          using nm fits(4,10) c(1,3) d(2) False by (intro link_child_named) (auto simp: named_def VFS_TYPE_DIR_def VFS_TYPE_FILE_def)
        ultimately have "vfs_inv (link_child d c ?t) (insert c N)" by (simp add: vfs_inv_def)
        then show ?thesis using p d False fits(1) c by (auto simp: vfs_mkdir_def)
      qed
    qed
  qed
qed

text \<open>Give a live inode without data a fresh block.\<close>

lemma set_data_core:
  assumes inv: "vfs_core s N" and a: "a \<in> N" "fs_data (inodes s a) = 0"
    and h: "owns h' (insert p (N \<union> data_blocks s N))" "p \<noteq> 0" "p \<notin> N \<union> data_blocks s N"
  shows "vfs_core (upd_inode a (\<lambda>i. i\<lparr>fs_data := p\<rparr>) (s\<lparr>vheap := h'\<rparr>)) N"
proof -
  let ?t = "upd_inode a (\<lambda>i. i\<lparr>fs_data := p\<rparr>) (s\<lparr>vheap := h'\<rparr>)"
  obtain rk where tree: "vfs_tree rk s N" using inv by (auto simp: vfs_core_def)
  have dat: "data_ok s N" using inv by (simp add: vfs_core_def)
  have db: "data_blocks ?t N = insert p (data_blocks s N)"
    using a h(2) by (auto simp: data_blocks_def image_iff)
  have pb: "fs_data (inodes s b) \<noteq> p" if "b \<in> N" for b
    using that h(2,3) by (auto simp: data_blocks_def)
  have "vfs_tree rk ?t N" using tree by (auto simp: vfs_tree_def)
  moreover have "fds_ok ?t N" using inv by (auto simp: vfs_core_def fds_ok_def opens_def)
  moreover have "data_ok ?t N"
    unfolding data_ok_def db
  proof (intro conjI ballI impI)
    show "insert p (data_blocks s N) \<inter> N = {}" using dat h(3) by (auto simp: data_ok_def)
    fix b c assume "b \<in> N" "c \<in> N" "fs_data (inodes ?t b) = fs_data (inodes ?t c)" "fs_data (inodes ?t b) \<noteq> 0"
    then show "b = c" using dat pb unfolding data_ok_def by (auto split: if_splits)
  qed
  moreover have "owns (vheap ?t) (N \<union> data_blocks ?t N)" unfolding db using h(1) by simp
  ultimately show ?thesis using inv by (auto simp: vfs_core_def)
qed

text \<open>Release the data of a live inode.\<close>

lemma drop_data_core:
  assumes inv: "vfs_core s N" and a: "a \<in> N" "fs_data (inodes s a) \<noteq> 0"
  obtains h' where "kfree (fs_data (inodes s a)) (vheap s) = Inr h'"
    "vfs_core (upd_inode a (\<lambda>i. i\<lparr>fs_data := 0, i_size := len\<rparr>) (s\<lparr>vheap := h'\<rparr>)) N"
proof -
  let ?p = "fs_data (inodes s a)"
  obtain rk where tree: "vfs_tree rk s N" using inv by (auto simp: vfs_core_def)
  have dat: "data_ok s N" using inv by (simp add: vfs_core_def)
  have own: "owns (vheap s) (N \<union> data_blocks s N)" using inv by (simp add: vfs_core_def)
  have pin: "?p \<in> data_blocks s N" using a by (auto simp: data_blocks_def)
  then obtain h' where h': "kfree ?p (vheap s) = Inr h'" "owns h' ((N \<union> data_blocks s N) - {?p})"
    using owns_kfree [OF own] by blast
  let ?t = "upd_inode a (\<lambda>i. i\<lparr>fs_data := 0, i_size := len\<rparr>) (s\<lparr>vheap := h'\<rparr>)"
  have other: "fs_data (inodes s b) \<noteq> ?p" if "b \<in> N" "b \<noteq> a" for b
    using dat that a unfolding data_ok_def by metis
  have "(\<lambda>b. fs_data (inodes ?t b)) ` N = insert 0 ((\<lambda>b. fs_data (inodes s b)) ` (N - {a}))"
    using a(1) by (subst insert_Diff [of a N, symmetric]) (auto simp del: insert_Diff_single insert_Diff)
  moreover have "(\<lambda>b. fs_data (inodes s b)) ` (N - {a}) = (\<lambda>b. fs_data (inodes s b)) ` N - {?p}" using other a by auto
  ultimately have db: "data_blocks ?t N = data_blocks s N - {?p}" unfolding data_blocks_def by auto
  have "N \<union> data_blocks ?t N = (N \<union> data_blocks s N) - {?p}"
    unfolding db using dat pin by (auto simp: data_ok_def)
  then have "owns (vheap ?t) (N \<union> data_blocks ?t N)" using h'(2) by simp
  moreover have "vfs_tree rk ?t N" using tree by (auto simp: vfs_tree_def)
  moreover have "fds_ok ?t N" using inv by (auto simp: vfs_core_def fds_ok_def opens_def)
  moreover have "data_ok ?t N" using dat unfolding data_ok_def db by auto
  ultimately have "vfs_core ?t N" using inv by (auto simp: vfs_core_def)
  with h'(1) show thesis by (rule that)
qed

lemma vfs_core_bytes: "vfs_core s N \<Longrightarrow> vfs_core (s\<lparr>vbytes := m\<rparr>) N"
  by (rule vfs_core_same) (auto simp: vfs_core_def)

lemma vfs_core_size: "vfs_core s N \<Longrightarrow> vfs_core (upd_inode a (\<lambda>i. i\<lparr>i_size := n\<rparr>) s) N"
  by (rule vfs_core_same) (auto simp: vfs_core_def)

definition buf_ok :: "u8 list option \<Rightarrow> u32 \<Rightarrow> bool" where
  "buf_ok data len \<longleftrightarrow> len = 0 \<or> (\<exists>bs. data = Some bs \<and> unat len \<le> length bs)"

lemma copy_in_ok:
  "buf_ok data len \<Longrightarrow> 0 < len \<Longrightarrow> copy_in data len dst s = Inr (s\<lparr>vbytes := put_bytes (vbytes s) dst (take (unat len) (the data))\<rparr>)"
  by (auto simp: buf_ok_def copy_in_def)

lemma put_bytes_frame: "(\<forall>k < length xs. b \<noteq> a + of_nat k) \<Longrightarrow> put_bytes m a xs b = m b"
proof (induction xs arbitrary: m a)
  case (Cons x xs)
  have "\<forall>k < length xs. b \<noteq> a + 1 + of_nat k"
  proof (intro allI impI)
    fix k assume "k < length xs"
    then show "b \<noteq> a + 1 + of_nat k" using Cons.prems spec [of _ "Suc k"] by (auto simp: algebra_simps)
  qed
  moreover have "b \<noteq> a" using Cons.prems by force
  ultimately show ?case by (simp only: put_bytes.simps Cons.IH fun_upd_other not_False_eq_True)
qed simp

lemma get_put_bytes: "length xs \<le> 2 ^ 64 \<Longrightarrow> get_bytes (put_bytes m a xs) a (length xs) = xs"
proof -
  have at: "put_bytes m a xs (a + of_nat k) = xs ! k" if "length xs \<le> 2 ^ 64" "k < length xs" for m a k
    using that
  proof (induction m a xs arbitrary: k rule: put_bytes.induct)
    case (2 m a x xs)
    show ?case
    proof (cases k)
      case 0
      have "\<forall>j < length xs. a \<noteq> a + 1 + of_nat j"
      proof (intro allI impI notI)
        fix j assume j: "j < length xs" "a = a + 1 + of_nat j"
        then have "(of_nat (Suc j) :: addr) = 0" by (simp add: algebra_simps)
        moreover have "unat (of_nat (Suc j) :: addr) = Suc j" using j(1) "2.prems" by (intro unat_of_nat_small) simp
        ultimately show False by simp
      qed
      then show ?thesis using put_bytes_frame [of xs a "a + 1" "m(a := x)"] 0 by simp
    next
      case (Suc j)
      have "put_bytes (m(a := x)) (a + 1) xs (a + 1 + of_nat j) = xs ! j" using Suc "2.prems" by (intro "2.IH") auto
      then show ?thesis using Suc by (simp add: algebra_simps)
    qed
  qed simp
  assume "length xs \<le> 2 ^ 64"
  then show ?thesis using at by (intro nth_equalityI) (auto simp: get_bytes_def)
qed

text \<open>What a completed write leaves: the file holds the bytes, and the links are as the code makes them.\<close>

definition holds_file :: "vfs \<Rightarrow> addr \<Rightarrow> u8 list \<Rightarrow> bool" where
  "holds_file t a bs \<longleftrightarrow> i_type (inodes t a) = VFS_TYPE_FILE \<and> unat (i_size (inodes t a)) = length bs \<and>
     (bs \<noteq> [] \<longrightarrow> fs_data (inodes t a) \<noteq> 0 \<and> get_bytes (vbytes t) (fs_data (inodes t a)) (length bs) = bs)"

definition same_names :: "vfs \<Rightarrow> vfs \<Rightarrow> addr set \<Rightarrow> bool" where
  "same_names s t N \<longleftrightarrow> root_inode t = root_inode s \<and> open_files t = open_files s \<and> vsec t = vsec s \<and>
     (\<forall>a \<in> N. i_name (inodes t a) = i_name (inodes s a) \<and> next_sibling (inodes t a) = next_sibling (inodes s a) \<and>
        i_parent (inodes t a) = i_parent (inodes s a))"

definition added :: "addr \<Rightarrow> addr \<Rightarrow> u8 list \<Rightarrow> vfs \<Rightarrow> vfs \<Rightarrow> addr set \<Rightarrow> bool" where
  "added d c name s t N \<longleftrightarrow> c \<notin> N \<and> c \<noteq> 0 \<and> i_name (inodes t c) = name \<and> next_sibling (inodes t c) = first_child (inodes s d) \<and>
     first_child (inodes t d) = c \<and> (\<forall>a \<in> N. a \<noteq> d \<longrightarrow> first_child (inodes t a) = first_child (inodes s a))"

text \<open>The allocation and copy both ways of writing a file share.\<close>

lemma fill_file:
  assumes inv: "vfs_core s N" and a: "a \<in> N" "fs_data (inodes s a) = 0" and b: "buf_ok data len" "0 < len"
  obtains (failed) h' where "kmalloc (ucast len) (vheap s) = Inr (0, h')" "vfs_core (s\<lparr>vheap := h'\<rparr>) N"
  | (fits) p h' t where "kmalloc (ucast len) (vheap s) = Inr (p, h')" "p \<noteq> 0"
      "copy_in data len p (upd_inode a (\<lambda>i. i\<lparr>fs_data := p\<rparr>) (s\<lparr>vheap := h'\<rparr>)) = Inr t" "vfs_core t N"
      "t = (upd_inode a (\<lambda>i. i\<lparr>fs_data := p\<rparr>) (s\<lparr>vheap := h'\<rparr>))\<lparr>vbytes := put_bytes (vbytes s) p (take (unat len) (the data))\<rparr>"
proof -
  have own: "owns (vheap s) (N \<union> data_blocks s N)" using inv by (simp add: vfs_core_def)
  then show thesis
  proof (cases rule: owns_kmalloc [where sz = "ucast len"])
    case (failed h')
    from inv failed(2) have "vfs_core (s\<lparr>vheap := h'\<rparr>) N"
      by (auto simp: vfs_core_def vfs_tree_def fds_ok_def opens_def data_ok_def data_blocks_def)
    with failed(1) show thesis by (rule that(1))
  next
    case (fits p h')
    let ?s = "upd_inode a (\<lambda>i. i\<lparr>fs_data := p\<rparr>) (s\<lparr>vheap := h'\<rparr>)"
    have "vfs_core ?s N" using set_data_core [OF inv a fits(4,2,3)] .
    from vfs_core_bytes [OF this, of "put_bytes (vbytes s) p (take (unat len) (the data))"] fits(1,2) copy_in_ok [OF b, of p ?s]
    show thesis by (intro that(2)) simp_all
  qed
qed

lemma filled:
  assumes "buf_ok data len" "0 < len"
  shows "get_bytes (put_bytes m p (take (unat len) (the data))) p (length (take (unat len) (the data))) = take (unat len) (the data)"
    "length (take (unat len) (the data)) = unat len"
proof -
  have "unat len < 2 ^ LENGTH(32)" by (rule unsigned_less)
  then have "length (take (unat len) (the data)) < 2 ^ 32" by (simp add: min_def)
  then show "get_bytes (put_bytes m p (take (unat len) (the data))) p (length (take (unat len) (the data))) = take (unat len) (the data)"
    by (intro get_put_bytes) simp
  show "length (take (unat len) (the data)) = unat len" using assms by (auto simp: buf_ok_def)
qed

lemma overwrite_file_inv:
  assumes inv: "vfs_inv s N" and a: "a \<in> N" "i_type (inodes s a) = VFS_TYPE_FILE" and b: "buf_ok data len"
  shows "\<exists>r t. overwrite_file a data len s = Inr (r, t) \<and> vfs_inv t N \<and>
     (r = 0 \<longrightarrow> holds_file t a (take (unat len) (the data)) \<and> same_names s t N \<and>
        (\<forall>b. first_child (inodes t b) = first_child (inodes s b)))"
proof -
  have core: "vfs_core s N" and nm: "named s N" using inv by (auto simp: vfs_inv_def)
  obtain s1 where s1: "\<And>k :: vfs \<Rightarrow> (int \<times> vfs) res. rbind (if fs_data (inodes s a) \<noteq> 0
      then rbind (kfree (fs_data (inodes s a)) (vheap s)) (\<lambda>h. Inr (s\<lparr>vheap := h\<rparr>)) else Inr s) k = k s1"
    "vfs_core (upd_inode a (\<lambda>i. i\<lparr>fs_data := 0, i_size := len\<rparr>) s1) N" "inodes s1 = inodes s"
    "root_inode s1 = root_inode s" "open_files s1 = open_files s" "vsec s1 = vsec s"
  proof (cases "fs_data (inodes s a) = 0")
    case True
    moreover have "vfs_core (upd_inode a (\<lambda>i. i\<lparr>fs_data := 0, i_size := len\<rparr>) s) N"
      by (rule vfs_core_same [OF core]) (use core True in \<open>auto simp: vfs_core_def\<close>)
    ultimately show ?thesis by (intro that [of s]) auto
  next
    case False
    from drop_data_core [OF core a(1) False, of len] obtain h' where
      "kfree (fs_data (inodes s a)) (vheap s) = Inr h'"
      "vfs_core (upd_inode a (\<lambda>i. i\<lparr>fs_data := 0, i_size := len\<rparr>) (s\<lparr>vheap := h'\<rparr>)) N" by blast
    with False show ?thesis by (intro that [of "s\<lparr>vheap := h'\<rparr>"]) auto
  qed
  let ?s = "upd_inode a (\<lambda>i. i\<lparr>fs_data := 0, i_size := len\<rparr>) s1"
  have an: "i_name (inodes s a) \<noteq> []" using nm a by (auto simp: named_def)
  have nm': "named t N" if "\<And>b. b \<noteq> a \<Longrightarrow> inodes t b = inodes s b" "i_name (inodes t a) = i_name (inodes s a)" for t
    using nm an that unfolding named_def by metis
  show ?thesis
  proof (cases "len = 0")
    case True
    moreover have "named ?s N" using s1(3) by (intro nm') auto
    ultimately show ?thesis unfolding overwrite_file_def s1(1) using s1(2-6) a(2)
      by (auto simp: Let_def vfs_inv_def holds_file_def same_names_def)
  next
    case False
    then have pos: "0 < len" by (simp add: word_gt_0)
    have z: "fs_data (inodes ?s a) = 0" by simp
    from s1(2) a(1) z b pos show ?thesis
    proof (cases rule: fill_file)
      case (failed h')
      let ?t = "upd_inode a (\<lambda>i. i\<lparr>i_size := 0\<rparr>) (upd_inode a (\<lambda>i. i\<lparr>fs_data := 0\<rparr>) (?s\<lparr>vheap := h'\<rparr>))"
      have "vfs_core ?t N" by (rule vfs_core_same [OF failed(2)]) (use failed(2) in \<open>auto simp: vfs_core_def\<close>)
      moreover have "named ?t N" using s1(3) by (intro nm') auto
      ultimately have "vfs_inv ?t N" by (simp add: vfs_inv_def)
      with failed(1) pos show ?thesis unfolding overwrite_file_def s1(1) by (auto simp: Let_def)
    next
      case (fits p h' t)
      have "named t N" using s1(3) unfolding fits(5) by (intro nm') auto
      with fits(4) have "vfs_inv t N" by (simp add: vfs_inv_def)
      moreover have "holds_file t a (take (unat len) (the data))"
        using filled(1) [OF b pos, of "vbytes ?s" p] filled(2) [OF b pos] fits(2) a(2) s1(3) pos by (auto simp: holds_file_def fits(5))
      moreover have "same_names s t N" "\<forall>b. first_child (inodes t b) = first_child (inodes s b)"
        using s1(3-6) by (auto simp: same_names_def fits(5))
      ultimately show ?thesis using fits(1-3) pos unfolding overwrite_file_def s1(1) by (auto simp: Let_def)
    qed
  qed
qed

lemma vfs_heap_frame [simp]:
  "vfs_tree rk (s\<lparr>vheap := h\<rparr>) N = vfs_tree rk s N" "fds_ok (s\<lparr>vheap := h\<rparr>) N = fds_ok s N"
  "data_blocks (s\<lparr>vheap := h\<rparr>) N = data_blocks s N" "data_ok (s\<lparr>vheap := h\<rparr>) N = data_ok s N"
  by (simp_all add: vfs_tree_def fds_ok_def opens_def data_blocks_def data_ok_def)

lemma drop_orphan_core:
  assumes core: "vfs_core s (insert p N)" and p: "p \<notin> N" "fs_data (inodes s p) = 0"
    and N: "vfs_tree rk s N" "\<forall>f \<in> set (open_files s). vf_used f \<longrightarrow> vf_inode f \<in> N"
  obtains h' where "kfree p (vheap s) = Inr h'" "vfs_core (s\<lparr>vheap := h'\<rparr>) N"
proof -
  have db: "data_blocks s (insert p N) = data_blocks s N" using p by (simp add: data_blocks_insert)
  have dat: "data_ok s (insert p N)" and own: "owns (vheap s) (insert p N \<union> data_blocks s N)"
    using core by (simp_all add: vfs_core_def db)
  from owns_kfree [OF own, of p] obtain h' where h': "kfree p (vheap s) = Inr h'" "owns h' (insert p N \<union> data_blocks s N - {p})" by blast
  have "p \<notin> data_blocks s N" using dat unfolding data_ok_def db by auto
  then have "insert p N \<union> data_blocks s N - {p} = N \<union> data_blocks s N" using p by auto
  moreover have "data_ok s N" using dat unfolding data_ok_def db by auto
  moreover have "fds_ok s N" using core N(2) by (auto simp: vfs_core_def fds_ok_def)
  ultimately have "vfs_core (s\<lparr>vheap := h'\<rparr>) N"
    using core N(1) h'(2) unfolding vfs_core_def by (simp only: vfs_heap_frame) auto
  with h'(1) show thesis by (rule that)
qed

lemma new_file_inv:
  assumes inv: "vfs_inv s N" and d: "d \<in> N" and name: "name \<noteq> []" and b: "buf_ok data len"
  shows "\<exists>r t N'. new_file d name data len s = Inr (r, t) \<and> vfs_inv t N' \<and>
     (r = 0 \<longrightarrow> (\<exists>c. N' = insert c N \<and> added d c name s t N \<and> holds_file t c (take (unat len) (the data)) \<and> same_names s t N))"
proof -
  have core: "vfs_core s N" and nm: "named s N" using inv by (auto simp: vfs_inv_def)
  then obtain rk where tree: "vfs_tree rk s N" by (auto simp: vfs_core_def)
  from core show ?thesis
  proof (cases rule: alloc_inode_core [where ty = VFS_TYPE_FILE])
    case (failed h')
    then show ?thesis using nm by (fastforce simp: new_file_def vfs_inv_def named_def)
  next
    case (fits c s1)
    note node = fits
    let ?s = "upd_inode c (\<lambda>i. i\<lparr>i_name := name, i_size := len\<rparr>) s1"
    have c: "c \<notin> N" "c \<noteq> 0" "fs_data (inodes s1 c) = 0" "c \<noteq> d" using fits(2) d by (auto simp: orphan_def)
    have core': "vfs_core ?s (insert c N)"
      by (rule vfs_core_same [OF fits(3)]) (use fits(3) c in \<open>auto simp: vfs_core_def\<close>)
    have nm': "named t (insert c N)" if "\<And>b. b \<noteq> c \<Longrightarrow> inodes t b = inodes s1 b" "i_name (inodes t c) = name" for t
      using nm name that fits(4) c(1) unfolding named_def by (metis insert_iff)
    have link: "vfs_inv (link_child d c t) (insert c N) \<and> added d c name s (link_child d c t) N \<and> same_names s (link_child d c t) N"
      if "vfs_core t (insert c N)" "\<And>b. b \<noteq> c \<Longrightarrow> inodes t b = inodes s1 b" "i_name (inodes t c) = name"
        "root_inode t = root_inode s" "open_files t = open_files s" "vsec t = vsec s" for t
    proof -
      have eq: "inodes t a = inodes s a" if "a \<in> N" for a
        using that \<open>\<And>b. b \<noteq> c \<Longrightarrow> inodes t b = inodes s1 b\<close> fits(4) c(1) by metis
      then have "\<forall>a \<in> N. next_sibling (inodes t a) \<noteq> c \<and> first_child (inodes t a) \<noteq> c"
        using tree c(1,2) unfolding vfs_tree_def by auto
      then have "vfs_inv (link_child d c t) (insert c N)" unfolding vfs_inv_def using that c d nm' [OF that(2,3)]
        by (simp add: link_child_core link_child_named)
      moreover have "added d c name s (link_child d c t) N" "same_names s (link_child d c t) N"
        using c d eq that(3-6) by (auto simp: added_def same_names_def link_child_inodes [OF c(4)])
      ultimately show ?thesis by blast
    qed
    show ?thesis
    proof (cases "len = 0")
      case True
      have "vfs_inv (link_child d c ?s) (insert c N) \<and> added d c name s (link_child d c ?s) N \<and> same_names s (link_child d c ?s) N"
        by (rule link [OF core']) (use fits(5,7,8) in auto)
      moreover have "holds_file (link_child d c ?s) c (take (unat len) (the data))"
        using True c(4) fits(10) by (simp add: holds_file_def link_child_inodes [OF c(4)])
      ultimately show ?thesis using True fits(1) c(2) by (auto simp: new_file_def Let_def)
    next
      case False
      then have pos: "0 < len" by (simp add: word_gt_0)
      have z: "fs_data (inodes ?s c) = 0" using c by simp
      from core' insertI1 z b pos show ?thesis
      proof (cases rule: fill_file)
        case (failed h')
        let ?t = "upd_inode c (\<lambda>i. i\<lparr>fs_data := 0\<rparr>) (?s\<lparr>vheap := h'\<rparr>)"
        have "vfs_core ?t (insert c N)" by (rule vfs_core_same [OF failed(2)]) (use failed(2) c in \<open>auto simp: vfs_core_def\<close>)
        moreover have "vfs_tree rk ?t N" using tree fits(4,5) c(1) by (auto simp: vfs_tree_def)
        moreover have "\<forall>f \<in> set (open_files ?t). vf_used f \<longrightarrow> vf_inode f \<in> N" using core fits(7) by (auto simp: vfs_core_def fds_ok_def)
        ultimately obtain h1 where h1: "kfree c (vheap ?t) = Inr h1" "vfs_core (?t\<lparr>vheap := h1\<rparr>) N"
          using drop_orphan_core [of ?t c N rk] c(1) by auto
        have "named (?t\<lparr>vheap := h1\<rparr>) N" using nm fits(4) c(1) by (auto simp: named_def)
        with h1 have "vfs_inv (?t\<lparr>vheap := h1\<rparr>) N" by (simp add: vfs_inv_def)
        with failed(1) fits(1) c(2) pos h1(1) show ?thesis by (auto simp: new_file_def Let_def)
      next
        case (fits p h' t)
        have "vfs_inv (link_child d c t) (insert c N) \<and> added d c name s (link_child d c t) N \<and> same_names s (link_child d c t) N"
          by (rule link [OF fits(4)]) (use node(5,7,8) in \<open>auto simp: fits(5)\<close>)
        moreover have "holds_file (link_child d c t) c (take (unat len) (the data))"
          using filled(1) [OF b pos, of "vbytes ?s" p] filled(2) [OF b pos] fits(2) node(10) c(4)
          by (auto simp: holds_file_def link_child_inodes [OF c(4)] fits(5))
        ultimately show ?thesis using fits(1-3) node(1) c(2) pos by (auto simp: new_file_def Let_def)
      qed
    qed
  qed
qed

lemma vfs_create_file_inv:
  assumes inv: "vfs_inv s N" and b: "buf_ok data len"
  shows "\<exists>r t N'. vfs_create_file path data len s = Inr (r, t) \<and> vfs_inv t N'"
proof -
  obtain rk where tree: "vfs_tree rk s N" using inv by (auto simp: vfs_inv_def vfs_core_def)
  show ?thesis
  proof (cases "\<exists>p parent_path name. path = Some (47 # p) \<and> split_path (47 # p) = Some (parent_path, name) \<and> name \<noteq> []")
    case False
    then show ?thesis using inv by (auto simp: vfs_create_file_def split: option.splits list.splits)
  next
    case True
    then obtain p parent_path name where p: "path = Some (47 # p)" "split_path (47 # p) = Some (parent_path, name)" "name \<noteq> []" by blast
    obtain d where d: "lookup_path (Some parent_path) s = Inr d" "d \<in> insert 0 N" using lookup_path_ends [OF tree] by blast
    obtain e where e: "lookup_path (Some (47 # p)) s = Inr e" "e \<in> insert 0 N" using lookup_path_ends [OF tree] by blast
    show ?thesis
    proof (cases "d = 0 \<or> i_type (inodes s d) \<noteq> VFS_TYPE_DIR")
      case True
      then show ?thesis using inv p d by (auto simp: vfs_create_file_def)
    next
      case False
      have "\<exists>r t N'. overwrite_file e data len s = Inr (r, t) \<and> vfs_inv t N'" if "e \<noteq> 0" "i_type (inodes s e) = VFS_TYPE_FILE"
        using overwrite_file_inv [OF inv _ that(2) b] e(2) that(1) by blast
      moreover have "\<exists>r t N'. new_file d name data len s = Inr (r, t) \<and> vfs_inv t N'"
        using new_file_inv [OF inv _ p(3) b] d(2) False by blast
      ultimately show ?thesis using False p d e by (simp add: vfs_create_file_def)
    qed
  qed
qed

text \<open>Operations on descriptors leave the tree alone.\<close>

lemma vfs_inv_fds:
  assumes inv: "vfs_inv s N"
    and eq: "root_inode t = root_inode s" "vheap t = vheap s" "lock_free (vfs_lock t)" "fds_ok t N"
    and nodes: "\<forall>a \<in> N. i_parent (inodes t a) = i_parent (inodes s a) \<and> next_sibling (inodes t a) = next_sibling (inodes s a) \<and>
       first_child (inodes t a) = first_child (inodes s a) \<and> fs_data (inodes t a) = fs_data (inodes s a) \<and>
       i_name (inodes t a) = i_name (inodes s a) \<and> i_type (inodes t a) = i_type (inodes s a)"
  shows "vfs_inv t N"
proof -
  obtain rk where tree: "vfs_tree rk s N" using inv by (auto simp: vfs_inv_def vfs_core_def)
  have db: "data_blocks t N = data_blocks s N" using nodes by (auto simp: data_blocks_def image_iff)
  have "vfs_tree rk t N" using tree nodes eq(1) by (simp add: vfs_tree_def)
  moreover have "data_ok t N" using inv nodes db by (simp add: vfs_inv_def vfs_core_def data_ok_def)
  moreover have "named t N" using inv nodes by (simp add: vfs_inv_def named_def)
  moreover have "owns (vheap t) (N \<union> data_blocks t N)" using inv eq(2) db by (simp add: vfs_inv_def vfs_core_def)
  ultimately show ?thesis using eq(3,4) by (auto simp: vfs_inv_def vfs_core_def)
qed

lemma opens_n_used: "opens s a = n_used (\<lambda>f. vf_used f \<and> vf_inode f = a) (open_files s)"
  by (simp add: opens_def n_used_def)

lemma fds_inode: "fds_ok s N \<Longrightarrow> fd < VFS_MAX_OPEN_FILES \<Longrightarrow> vf_used (open_files s ! fd) \<Longrightarrow> vf_inode (open_files s ! fd) \<in> N"
  by (auto simp: fds_ok_def)

lemma fds_ok_open:
  assumes ok: "fds_ok s N" and i: "i < VFS_MAX_OPEN_FILES" "\<not> vf_used (open_files s ! i)" and a: "a \<in> N"
    and f: "vf_used f" "vf_inode f = a"
    and t: "open_files t = (open_files s)[i := f]" "ref_count (inodes t a) = ref_count (inodes s a) + 1"
      "\<forall>b. b \<noteq> a \<longrightarrow> ref_count (inodes t b) = ref_count (inodes s b)"
  shows "fds_ok t N"
proof -
  have len: "i < length (open_files s)" using ok i by (simp add: fds_ok_def)
  have "opens t b = (if b = a then Suc (opens s b) else opens s b)" for b
    using len i f unfolding opens_n_used t(1) by (auto intro: n_used_update_new n_used_update_same)
  moreover have "\<forall>g \<in> set (open_files t). vf_used g \<longrightarrow> vf_inode g \<in> N"
    using ok a f t(1) set_update_subset_insert [of "open_files s" i f] by (auto simp: fds_ok_def)
  ultimately show ?thesis using ok t unfolding fds_ok_def by auto
qed

lemma fds_ok_close:
  assumes ok: "fds_ok s N" and i: "i < VFS_MAX_OPEN_FILES" "vf_used (open_files s ! i)" "vf_inode (open_files s ! i) = a"
    and f: "\<not> vf_used f"
    and t: "open_files t = (open_files s)[i := f]" "ref_count (inodes t a) = ref_count (inodes s a) - 1"
      "\<forall>b. b \<noteq> a \<longrightarrow> ref_count (inodes t b) = ref_count (inodes s b)"
  shows "fds_ok t N" "ref_count (inodes t a) \<noteq> 0"
proof -
  have len: "i < length (open_files s)" using ok i by (simp add: fds_ok_def)
  have a: "a \<in> N" using fds_inode [OF ok i(1,2)] i(3) by simp
  have drop: "opens s a = Suc (opens t a)"
    using n_used_update_drop [OF len, of "\<lambda>f. vf_used f \<and> vf_inode f = a" f] i f unfolding opens_n_used t(1) by simp
  have keep: "opens t b = opens s b" if "b \<noteq> a" for b
    using len i f that unfolding opens_n_used t(1) by (auto intro: n_used_update_same)
  have rc: "ref_count (inodes t a) = of_nat (Suc (opens t a))"
    using ok a t(2) drop by (simp add: fds_ok_def)
  have "Suc (opens t a) \<le> 64"
    using n_used_le [of _ "open_files s"] ok drop unfolding opens_n_used by (metis VFS_MAX_OPEN_FILES_def fds_ok_def)
  then show "ref_count (inodes t a) \<noteq> 0" using rc unat_of_nat_small [of "Suc (opens t a)", where 'a = 32] by fastforce
  have "\<forall>g \<in> set (open_files t). vf_used g \<longrightarrow> vf_inode g \<in> N"
    using ok f t(1) set_update_subset_insert [of "open_files s" i f] by (auto simp: fds_ok_def)
  then show "fds_ok t N" using ok t(1,3) rc keep unfolding fds_ok_def by (metis length_list_update)
qed

text \<open>Moving an offset changes nothing the invariant mentions.\<close>

lemma fds_ok_same:
  assumes ok: "fds_ok s N" and i: "i < VFS_MAX_OPEN_FILES" and f: "vf_used f = vf_used (open_files s ! i)" "vf_inode f = vf_inode (open_files s ! i)"
    and t: "open_files t = (open_files s)[i := f]" "\<forall>b. ref_count (inodes t b) = ref_count (inodes s b)"
  shows "fds_ok t N"
proof -
  have len: "i < length (open_files s)" using ok i by (simp add: fds_ok_def)
  have "opens t b = opens s b" for b
    using len f unfolding opens_n_used t(1) by (intro n_used_update_same) auto
  moreover have "\<forall>g \<in> set (open_files t). vf_used g \<longrightarrow> vf_inode g \<in> N"
    using ok f len t(1) set_update_subset_insert [of "open_files s" i f] by (auto simp: fds_ok_def)
  ultimately show ?thesis using ok t by (simp add: fds_ok_def)
qed

lemma vfs_open_ok:
  assumes lf: "lock_free (vfs_lock s)"
    and i: "lookup_path path (s\<lparr>vfs_lock := (vfs_lock s)\<lparr>locked := 1\<rparr>\<rparr>) = Inr i" "i \<noteq> 0"
    and sec: "security_check (Some (i_sec (inodes s i))) (open_perm flags) (vsec s) = 0"
    and k: "first_idx (\<lambda>f. \<not> vf_used f) (open_files s) = Some k"
  shows "vfs_open path flags s = Inr (int k, s\<lparr>
     open_files := (open_files s)[k := \<lparr>vf_used = True, vf_flags = flags, vf_offset = 0, vf_inode = i\<rparr>],
     inodes := (inodes s)(i := (inodes s i)\<lparr>ref_count := ref_count (inodes s i) + 1,
         i_size := (if flags AND VFS_O_TRUNC \<noteq> 0 then 0 else i_size (inodes s i))\<rparr>)\<rparr>)"
proof -
  have kl: "k < length (open_files s)" using first_idx_less [OF k] .
  have fill: "f\<lparr>vf_used := True, vf_offset := 0, vf_flags := flags, vf_inode := i\<rparr> =
      \<lparr>vf_used = True, vf_flags = flags, vf_offset = 0, vf_inode = i\<rparr>" for f :: vfs_file
    by (cases f) simp
  show ?thesis using assms kl
    by (cases "flags AND VFS_O_TRUNC = 0") (simp_all add: fill vfs_open_def alloc_fd_def Let_def upd_inode_def upd_file_def)
qed

lemma vfs_open_inv:
  assumes inv: "vfs_inv s N"
  shows "\<exists>r t. vfs_open path flags s = Inr (r, t) \<and> vfs_inv t N"
proof -
  let ?s = "s\<lparr>vfs_lock := (vfs_lock s)\<lparr>locked := 1\<rparr>\<rparr>"
  obtain rk where tree: "vfs_tree rk s N" using inv by (auto simp: vfs_inv_def vfs_core_def)
  have lf: "lock_free (vfs_lock s)" and fds: "fds_ok s N" using inv by (auto simp: vfs_inv_def vfs_core_def)
  from tree have "vfs_tree rk ?s N" by (simp add: vfs_tree_def)
  then obtain i where i: "lookup_path path ?s = Inr i" "i \<in> insert 0 N" using lookup_path_ends by blast
  have un: "?s\<lparr>vfs_lock := spinlock_unlock (vfs_lock ?s)\<rparr> = s" using lf by simp
  show ?thesis
  proof (cases "i = 0 \<or> security_check (Some (i_sec (inodes s i))) (open_perm flags) (vsec s) \<noteq> 0 \<or>
      first_idx (\<lambda>f. \<not> vf_used f) (open_files s) = None")
    case True
    then have "vfs_open path flags s = Inr (-1, ?s\<lparr>vfs_lock := spinlock_unlock (vfs_lock ?s)\<rparr>)"
      using i lf by (auto simp: vfs_open_def alloc_fd_def Let_def)
    then show ?thesis unfolding un using inv by blast
  next
    case False
    then obtain k where k: "first_idx (\<lambda>f. \<not> vf_used f) (open_files s) = Some k" by auto
    have kl: "k < VFS_MAX_OPEN_FILES" "\<not> vf_used (open_files s ! k)"
      using first_idx_less [OF k] first_idx_hit [OF k] fds by (auto simp: fds_ok_def)
    let ?t = "s\<lparr>open_files := (open_files s)[k := \<lparr>vf_used = True, vf_flags = flags, vf_offset = 0, vf_inode = i\<rparr>],
      inodes := (inodes s)(i := (inodes s i)\<lparr>ref_count := ref_count (inodes s i) + 1,
         i_size := (if flags AND VFS_O_TRUNC \<noteq> 0 then 0 else i_size (inodes s i))\<rparr>)\<rparr>"
    have "fds_ok ?t N" by (rule fds_ok_open [OF fds kl, of i _ ?t]) (use False i(2) in auto)
    then have "vfs_inv ?t N" using lf by (intro vfs_inv_fds [OF inv]) auto
    moreover have "vfs_open path flags s = Inr (int k, ?t)" using False by (intro vfs_open_ok [OF lf i(1) _ _ k]) auto
    ultimately show ?thesis by blast
  qed
qed

lemma fd_openD: "fd_open fd s \<Longrightarrow> nat fd < VFS_MAX_OPEN_FILES \<and> vf_used (open_files s ! nat fd)"
  by (auto simp: fd_open_def)

lemma vfs_close_inv:
  assumes inv: "vfs_inv s N"
  shows "\<exists>r t. vfs_close fd s = Inr (r, t) \<and> vfs_inv t N"
proof (cases "fd_open fd s")
  case True
  let ?a = "vf_inode (open_files s ! nat fd)"
  let ?u = "upd_inode ?a (\<lambda>i. i\<lparr>ref_count := ref_count i - 1\<rparr>) s"
  let ?t = "upd_file (nat fd) (\<lambda>_. vfs_file0) ?u"
  have lf: "lock_free (vfs_lock s)" and fds: "fds_ok s N" and z: "0 \<notin> N" using inv by (auto simp: vfs_inv_def vfs_core_def vfs_tree_def)
  have fd: "nat fd < VFS_MAX_OPEN_FILES" "vf_used (open_files s ! nat fd)" using fd_openD [OF True] by auto
  have nz: "?a \<noteq> 0" using fds_inode [OF fds fd] z by metis
  have ok: "fds_ok ?t N" "ref_count (inodes ?t ?a) \<noteq> 0"
    by (rule fds_ok_close [OF fds fd refl, of vfs_file0 ?t]; simp add: vfs_file0_def)+
  have "vfs_inv ?t N" using lf ok by (intro vfs_inv_fds [OF inv]) auto
  moreover have "vfs_close fd s = Inr (0, ?t)"
    using True fd nz ok(2) by (simp add: vfs_close_def free_fd_def free_inode_def Let_def)
  ultimately show ?thesis by blast
qed (use inv in \<open>auto simp: vfs_close_def\<close>)

text \<open>An offset, a size or file contents may change freely.\<close>

lemma vfs_inv_offset:
  assumes inv: "vfs_inv s N" and i: "i < VFS_MAX_OPEN_FILES"
  shows "vfs_inv (upd_file i (\<lambda>f. f\<lparr>vf_offset := g f\<rparr>) s) N"
proof -
  let ?t = "upd_file i (\<lambda>f. f\<lparr>vf_offset := g f\<rparr>) s"
  have "fds_ok ?t N" using inv i by (intro fds_ok_same [of s N i _ ?t]) (auto simp: vfs_inv_def vfs_core_def)
  then show ?thesis using inv by (intro vfs_inv_fds [OF inv]) (auto simp: vfs_inv_def vfs_core_def)
qed

lemma vfs_inv_bytes: "vfs_inv s N \<Longrightarrow> vfs_inv (s\<lparr>vbytes := m\<rparr>) N"
  using vfs_core_bytes by (simp add: vfs_inv_def named_def)

lemma vfs_inv_size: "vfs_inv s N \<Longrightarrow> vfs_inv (upd_inode a (\<lambda>i. i\<lparr>i_size := n\<rparr>) s) N"
  using vfs_core_size by (auto simp: vfs_inv_def named_def)

lemma vfs_read_inv: "vfs_inv s N \<Longrightarrow> vfs_inv (snd (snd (vfs_read fd nb len s))) N"
  by (auto simp: vfs_read_def Let_def vfs_inv_offset dest: fd_openD)

lemma vfs_write_inv:
  assumes inv: "vfs_inv s N" and b: "buf_ok buf len"
  shows "\<exists>r t. vfs_write fd buf len s = Inr (r, t) \<and> vfs_inv t N"
proof -
  let ?f = "open_files s ! nat fd"
  let ?i = "inodes s (vf_inode ?f)"
  let ?n = "if len > 4096 - vf_offset ?f then 4096 - vf_offset ?f else len"
  show ?thesis
  proof (cases "fd_open fd s \<and> buf \<noteq> None \<and> len \<noteq> 0 \<and> vf_flags ?f AND (VFS_O_WRONLY OR VFS_O_RDWR) \<noteq> 0 \<and>
      vf_inode ?f \<noteq> 0 \<and> i_type ?i = VFS_TYPE_FILE \<and> fs_data ?i \<noteq> 0")
    case True
    then obtain bs where bs: "buf = Some bs" "unat len \<le> length bs" using b by (auto simp: buf_ok_def)
    have "unat ?n \<le> length bs" using bs(2) by (auto simp: word_less_nat_alt)
    then obtain t where t: "copy_in buf ?n (fs_data ?i + ucast (vf_offset ?f)) s = Inr t" "vfs_inv t N"
      using bs(1) vfs_inv_bytes [OF inv] by (simp add: copy_in_def del: if_split)
    have "vfs_inv (upd_file (nat fd) (\<lambda>f. f\<lparr>vf_offset := vf_offset f + ?n\<rparr>) t) N"
      using True fd_openD by (intro vfs_inv_offset [OF t(2)]) blast
    then show ?thesis using True bs(1) t(1) vfs_inv_size unfolding vfs_write_def Let_def by (simp del: if_split)
  qed (use inv in \<open>auto simp: vfs_write_def Let_def\<close>)
qed

lemma vfs_seek_inv:
  assumes inv: "vfs_inv s N"
  shows "\<exists>r t. vfs_seek fd off whence s = Inr (r, t) \<and> vfs_inv t N"
proof (cases "fd_open fd s")
  case True
  then have "nat fd < VFS_MAX_OPEN_FILES" "vf_inode (open_files s ! nat fd) \<noteq> 0"
    using fd_openD [OF True] fds_inode [of s N "nat fd"] inv by (auto simp: vfs_inv_def vfs_core_def vfs_tree_def)
  then show ?thesis using True inv by (auto simp: vfs_seek_def Let_def vfs_inv_offset)
qed (use inv in \<open>auto simp: vfs_seek_def\<close>)

lemma vfs_readdir_returns:
  assumes inv: "vfs_inv s N"
  shows "\<exists>r. vfs_readdir path idx nb s = Inr r"
proof -
  obtain rk where tree: "vfs_tree rk s N" using inv by (auto simp: vfs_inv_def vfs_core_def)
  from lookup_path_ends [OF tree, of path] obtain d where d: "lookup_path path s = Inr d" "d \<in> insert 0 N" by blast
  have "\<exists>r. nth_child s idx 0 (first_child (inodes s d)) = Some r" if "d \<noteq> 0"
    using nth_child_ends [OF tree, of "first_child (inodes s d)" idx 0] tree that d(2) unfolding vfs_tree_def by blast
  then show ?thesis using d by (auto simp: vfs_readdir_def)
qed

section \<open>Sequences of calls\<close>

text \<open>
  A call of the interface. A buffer given to a call holds at least the bytes the call names; a
  write stays within the bytes the file has: \<open>vfs_write\<close> itself takes every file to own 4096
  bytes, and writes past the end of a smaller block.
\<close>

datatype vfs_call = Mkdir "u8 list option" | Create "u8 list option" "u8 list option" u32 | Open "u8 list option" u32
  | Read int u32 | Write int "u8 list option" u32 | Seek int u32 int | Close int | Readdir "u8 list option" u32

fun vfs_exec :: "vfs_call \<Rightarrow> vfs \<Rightarrow> (int \<times> vfs) res" where
  "vfs_exec (Mkdir p) s = vfs_mkdir p s"
| "vfs_exec (Create p d n) s = vfs_create_file p d n s"
| "vfs_exec (Open p fl) s = vfs_open p fl s"
| "vfs_exec (Read fd n) s = (case vfs_read fd False n s of (r, _, t) \<Rightarrow> Inr (r, t))"
| "vfs_exec (Write fd b n) s = vfs_write fd b n s"
| "vfs_exec (Seek fd off wh) s = vfs_seek fd off wh s"
| "vfs_exec (Close fd) s = vfs_close fd s"
| "vfs_exec (Readdir p i) s = rbind (vfs_readdir p i False s) (\<lambda>(r, _). Inr (r, s))"

fun call_ok :: "vfs_call \<Rightarrow> vfs \<Rightarrow> bool" where
  "call_ok (Create p d n) s \<longleftrightarrow> buf_ok d n"
| "call_ok (Write fd b n) s \<longleftrightarrow> buf_ok b n \<and>
     (fd_open fd s \<longrightarrow> unat (vf_offset (open_files s ! nat fd)) + unat n \<le> unat (i_size (inodes s (vf_inode (open_files s ! nat fd)))))"
| "call_ok _ s \<longleftrightarrow> True"

inductive vfs_steps :: "vfs \<Rightarrow> vfs \<Rightarrow> bool" where
  vfs_none: "vfs_steps s s"
| vfs_call: "vfs_steps s t \<Longrightarrow> call_ok c t \<Longrightarrow> vfs_exec c t = Inr (r, u) \<Longrightarrow> vfs_steps s u"

lemma vfs_exec_inv:
  assumes "vfs_inv s N" "call_ok c s"
  shows "\<exists>r t N'. vfs_exec c s = Inr (r, t) \<and> vfs_inv t N'"
proof (cases c)
  case (Mkdir p)
  then show ?thesis using vfs_mkdir_inv [OF assms(1)] by simp
next
  case (Create p d n)
  then show ?thesis using vfs_create_file_inv [OF assms(1), of d n p] assms(2) by simp
next
  case (Open p fl)
  then show ?thesis using vfs_open_inv [OF assms(1), of p fl] by auto
next
  case (Read fd n)
  then show ?thesis using vfs_read_inv [OF assms(1), of fd False n] by (auto split: prod.splits)
next
  case (Write fd b n)
  then show ?thesis using vfs_write_inv [OF assms(1), of b n fd] assms(2) by auto
next
  case (Seek fd off wh)
  then show ?thesis using vfs_seek_inv [OF assms(1), of fd off wh] by auto
next
  case (Close fd)
  then show ?thesis using vfs_close_inv [OF assms(1), of fd] by auto
next
  case (Readdir p i)
  then show ?thesis using vfs_readdir_returns [OF assms(1), of p i False] assms(1) by auto
qed

lemma vfs_steps_inv: "vfs_steps s t \<Longrightarrow> vfs_inv s N \<Longrightarrow> \<exists>N'. vfs_inv t N'"
proof (induction arbitrary: N rule: vfs_steps.induct)
  case (vfs_call s t c r u)
  then obtain N' where "vfs_inv t N'" by blast
  with vfs_exec_inv [OF this vfs_call.hyps(2)] vfs_call.hyps(3) show ?case by auto
qed blast

text \<open>The file system right after start-up.\<close>

lemma vfs_init_inv:
  assumes "owns (vheap s) {}" "vfs_init s = Inr t" "root_inode t \<noteq> 0"
  shows "vfs_inv t {root_inode t}"
proof -
  from assms(1) show ?thesis
  proof (cases rule: owns_kmalloc [where sz = SIZEOF_INODE])
    case (failed h')
    then show ?thesis using assms(2,3) by (auto simp: vfs_init_def alloc_inode_def Let_def)
  next
    case (fits p h')
    have "root_inode t = p" "vheap t = h'" "open_files t = replicate VFS_MAX_OPEN_FILES vfs_file0" "vfs_lock t = spinlock_init"
      and n: "i_parent (inodes t p) = 0" "next_sibling (inodes t p) = 0" "first_child (inodes t p) = 0" "fs_data (inodes t p) = 0"
        "i_type (inodes t p) = VFS_TYPE_DIR" "ref_count (inodes t p) = 1"
      using assms(2) fits(1,2) by (auto simp: vfs_init_def alloc_inode_def Let_def)
    moreover have "data_blocks t {p} = {}" using n by (simp add: data_blocks_def)
    moreover have "opens t p = 0" using \<open>open_files t = _\<close> by (simp add: opens_def vfs_file0_def)
    ultimately show ?thesis using fits(2,4)
      by (auto simp: vfs_inv_def vfs_core_def vfs_tree_def fds_ok_def data_ok_def named_def VFS_TYPE_DIR_def VFS_TYPE_FILE_def vfs_file0_def)
  qed
qed

section \<open>Lookup after a change\<close>

lemma lookup_path_comps: "lookup_path (Some (47 # p)) s = walk s (root_inode s) (comps p)"
  by (auto simp: lookup_path_def lookup_loop_walk)

lemma lookup_parent:
  "pre = [] \<or> hd pre = 47 \<Longrightarrow> lookup_path (Some (if pre = [] then [47] else pre)) s = walk s (root_inode s) (comps pre)"
  using lookup_path_comps [of "[]" s] lookup_path_comps [of "tl pre" s] comps_slash comps_skip by (cases pre) auto

lemma lookup_full:
  "pre = [] \<or> hd pre = 47 \<Longrightarrow> lookup_path (Some (pre @ 47 # name)) s = walk s (root_inode s) (comps pre @ comps name)"
  using lookup_path_comps [of name s] lookup_path_comps [of "tl pre @ 47 # name" s] comps_slash comps_skip comps_append
  by (cases pre) auto

lemma walk_append: "walk s cur ks = Inr d \<Longrightarrow> d \<noteq> 0 \<Longrightarrow> walk s cur (ks @ ls) = walk s d ls"
  by (induction ks arbitrary: cur) (auto split: if_splits option.splits)

lemma child_named_iff: "named s N \<Longrightarrow> c \<in> N \<Longrightarrow> k \<noteq> [] \<Longrightarrow> child_named s k c \<longleftrightarrow> i_name (inodes s c) = k"
  by (auto simp: child_named_def named_def)

text \<open>Searches that see the same names and links have the same result.\<close>

lemma find_child_cong:
  assumes tree: "vfs_tree rk s N" and nm: "named s N" "named t N" and k: "k \<noteq> []"
    and eq: "\<forall>a \<in> N. i_name (inodes t a) = i_name (inodes s a) \<and> next_sibling (inodes t a) = next_sibling (inodes s a)"
  shows "c \<in> insert 0 N \<Longrightarrow> find_child t k c = find_child s k c"
proof (induction "rk c" arbitrary: c rule: less_induct)
  case less
  show ?case
  proof (cases "c = 0 \<or> next_sibling (inodes s c) = 0")
    case True
    with less.prems eq child_named_iff [OF nm(1) _ k] child_named_iff [OF nm(2) _ k] show ?thesis
      by (auto simp: find_child.simps [of s k c] find_child.simps [of t k c] find_child.simps [of s k 0] find_child.simps [of t k 0])
  next
    case False
    with less.prems tree have c: "c \<in> N" "next_sibling (inodes s c) \<in> insert 0 N" "rk (next_sibling (inodes s c)) < rk c"
      by (auto simp: vfs_tree_def)
    then show ?thesis using less.hyps [OF c(3,2)] eq child_named_iff [OF nm(1) c(1) k] child_named_iff [OF nm(2) c(1) k]
      by (simp add: find_child.simps [of s k c] find_child.simps [of t k c])
  qed
qed

lemma comps_nonempty: "k \<in> set (comps p) \<Longrightarrow> k \<noteq> []"
proof (induction p rule: comps.induct)
  case (2 c p)
  obtain part r where pr: "take_comp (VFS_MAX_NAME_LEN - 1) (c # p) = (part, r)" by fastforce
  show ?case using 2(1) [OF pr [symmetric] refl] 2(2) unfolding comps.simps pr Let_def prod.case
    by (auto simp only: set_append Un_iff split: if_splits) auto
qed simp

lemma walk_cong:
  assumes tree: "vfs_tree rk s N" and nm: "named s N" "named t N"
    and eq: "\<forall>a \<in> N. i_name (inodes t a) = i_name (inodes s a) \<and> next_sibling (inodes t a) = next_sibling (inodes s a) \<and>
       i_parent (inodes t a) = i_parent (inodes s a)"
    and first: "\<forall>a \<in> N. \<forall>k \<in> set ks. find_child t k (first_child (inodes t a)) = find_child t k (first_child (inodes s a))"
  shows "cur \<in> N \<Longrightarrow> [] \<notin> set ks \<Longrightarrow> walk t cur ks = walk s cur ks"
  using first
proof (induction ks arbitrary: cur)
  case (Cons k ks)
  have pa: "i_parent (inodes s cur) \<in> insert 0 N" and fc: "first_child (inodes s cur) \<in> insert 0 N" and z: "0 \<notin> N"
    using tree Cons.prems(1) by (auto simp: vfs_tree_def)
  have ih: "walk t c ks = walk s c ks" if "c \<in> N" for c using Cons that by auto
  obtain f where f: "find_child s k (first_child (inodes s cur)) = Some f" "f \<in> insert 0 N"
    using find_child_ends [OF tree fc] by blast
  moreover have "find_child t k (first_child (inodes t cur)) = find_child s k (first_child (inodes s cur))"
    using Cons.prems find_child_cong [OF tree nm _ _ fc, of k] eq by auto
  ultimately show ?case using ih pa Cons.prems(1) eq z by auto
qed simp

lemma lookup_after_create:
  assumes inv: "vfs_inv s N" and inv': "vfs_inv t (insert c N)" and ad: "added d c name s t N" and sn: "same_names s t N"
    and d: "d \<in> N" "walk s (root_inode s) (comps pre) = Inr d"
    and name: "name \<noteq> []" "name \<noteq> [46]" "name \<noteq> [46, 46]" "name \<notin> set (comps pre)"
  shows "walk t (root_inode t) (comps pre @ [name]) = Inr c"
proof -
  obtain rk where tree: "vfs_tree rk s N" using inv by (auto simp: vfs_inv_def vfs_core_def)
  have z: "0 \<notin> N" "root_inode s \<in> N" using tree by (auto simp: vfs_tree_def)
  have nm: "named s N" "named t N" "named t (insert c N)" using inv inv' by (auto simp: vfs_inv_def named_def)
  have c: "c \<noteq> 0" "c \<notin> N" "i_name (inodes t c) = name" "next_sibling (inodes t c) = first_child (inodes s d)"
    "first_child (inodes t d) = c" "\<forall>a \<in> N. a \<noteq> d \<longrightarrow> first_child (inodes t a) = first_child (inodes s a)"
    using ad by (auto simp: added_def)
  have skip: "find_child t k c = find_child t k (first_child (inodes s d))" if "k \<noteq> name" "k \<noteq> []" for k
    using that c child_named_iff [OF nm(3), of c k] by (simp add: find_child.simps [of t k c])
  have "find_child t k (first_child (inodes t a)) = find_child t k (first_child (inodes s a))"
    if "a \<in> N" "k \<in> set (comps pre)" for a k
    using that skip [of k] c(5,6) name(4) comps_nonempty by (cases "a = d") auto
  then have "walk t (root_inode s) (comps pre) = walk s (root_inode s) (comps pre)"
    using sn comps_nonempty by (intro walk_cong [OF tree nm(1,2)]) (auto simp: same_names_def z)
  then have w: "walk t (root_inode t) (comps pre) = Inr d" using d(2) sn by (simp add: same_names_def)
  have "find_child t name c = Some c"
    using c child_named_iff [OF nm(3), of c name] name(1) by (simp add: find_child.simps [of t name c])
  then have "walk t d [name] = Inr c" using c(1,5) name d(1) z(1) by auto
  moreover have "d \<noteq> 0" using d(1) z(1) by auto
  ultimately show ?thesis using walk_append [OF w, of "[name]"] by metis
qed

lemma vfs_read_whole:
  assumes f: "holds_file s a bs" "bs \<noteq> []" "length bs < 2 ^ 31" and n: "length bs \<le> unat n"
    and fd: "fd_open fd s" "vf_inode (open_files s ! nat fd) = a" "a \<noteq> 0" "vf_offset (open_files s ! nat fd) = 0"
      "vf_flags (open_files s ! nat fd) AND (VFS_O_RDONLY OR VFS_O_RDWR) \<noteq> 0"
  shows "fst (vfs_read fd False n s) = int (length bs)" "fst (snd (vfs_read fd False n s)) = bs"
proof -
  have sz: "unat (i_size (inodes s a)) = length bs" using f by (simp add: holds_file_def)
  have len: "(if n > i_size (inodes s a) then i_size (inodes s a) else n) = i_size (inodes s a)"
    using n sz by (auto simp: word_less_nat_alt word_unat_eq_iff)
  have "0 < unat n" using f(2) n by (cases bs) auto
  then have nz: "n \<noteq> 0" by auto
  have "sint (i_size (inodes s a)) = int (length bs)" using sint_small [of "i_size (inodes s a)"] sz f(3) by simp
  moreover have "vfs_read fd False n s = (sint (i_size (inodes s a)), get_bytes (vbytes s) (fs_data (inodes s a)) (length bs),
      upd_file (nat fd) (\<lambda>g. g\<lparr>vf_offset := vf_offset g + i_size (inodes s a)\<rparr>) s)"
    using f(1,2) fd nz len sz unfolding vfs_read_def Let_def
    by (cases "i_size (inodes s a) < n") (simp_all add: holds_file_def)
  ultimately show "fst (vfs_read fd False n s) = int (length bs)" "fst (snd (vfs_read fd False n s)) = bs"
    using f(1,2) by (simp_all add: holds_file_def)
qed

lemma walk_lock: "named s N \<Longrightarrow> vfs_tree rk s N \<Longrightarrow> [] \<notin> set ks \<Longrightarrow> cur \<in> N \<Longrightarrow> walk (s\<lparr>vfs_lock := l\<rparr>) cur ks = walk s cur ks"
  by (rule walk_cong) (auto simp: named_def vfs_tree_def)

lemma open_read_file:
  assumes inv: "vfs_inv t M" and w: "walk t (root_inode t) (comps pre @ [name]) = Inr a" and pre: "pre = [] \<or> hd pre = 47"
    and name: "name \<noteq> []" "47 \<notin> set name" "length name \<le> 127"
    and f: "holds_file t a data" "data \<noteq> []" "length data < 2 ^ 31" "a \<in> M"
    and root: "current_uid (vsec t) = ROOT_UID" and free: "\<exists>f \<in> set (open_files t). \<not> vf_used f" and n: "length data \<le> unat n"
  shows "\<exists>fd u. vfs_open (Some (pre @ 47 # name)) VFS_O_RDONLY t = Inr (fd, u) \<and> 0 \<le> fd \<and>
     fst (vfs_read fd False n u) = int (length data) \<and> fst (snd (vfs_read fd False n u)) = data"
proof -
  obtain rk where tree: "vfs_tree rk t M" using inv by (auto simp: vfs_inv_def vfs_core_def)
  have nm: "named t M" and lf: "lock_free (vfs_lock t)" and len: "length (open_files t) = 64"
    using inv by (auto simp: vfs_inv_def vfs_core_def fds_ok_def VFS_MAX_OPEN_FILES_def)
  let ?t = "t\<lparr>vfs_lock := (vfs_lock t)\<lparr>locked := 1\<rparr>\<rparr>"
  have cs: "comps name = [name]" using name by (intro comps_single) auto
  have "[] \<notin> set (comps pre @ [name])" using name(1) comps_nonempty by auto
  then have "walk ?t (root_inode t) (comps pre @ [name]) = Inr a"
    using walk_lock [OF nm tree] tree w by (simp add: vfs_tree_def)
  then have look: "lookup_path (Some (pre @ 47 # name)) ?t = Inr a" using lookup_full [OF pre, of name ?t] cs by simp
  have a: "a \<noteq> 0" using tree f(4) by (auto simp: vfs_tree_def)
  obtain k where k: "first_idx (\<lambda>f. \<not> vf_used f) (open_files t) = Some k"
    using free first_idx_exists [of _ "open_files t" "\<lambda>f. \<not> vf_used f"] by auto
  have kl: "k < 64" using first_idx_less [OF k] len by simp
  have sec: "security_check (Some (i_sec (inodes t a))) (open_perm VFS_O_RDONLY) (vsec t) = 0"
    using root by (simp add: security_check_def)
  note op = vfs_open_ok [OF lf look a sec k]
  let ?u = "t\<lparr>open_files := (open_files t)[k := \<lparr>vf_used = True, vf_flags = VFS_O_RDONLY, vf_offset = 0, vf_inode = a\<rparr>],
     inodes := (inodes t)(a := (inodes t a)\<lparr>ref_count := ref_count (inodes t a) + 1,
         i_size := (if VFS_O_RDONLY AND VFS_O_TRUNC \<noteq> 0 then 0 else i_size (inodes t a))\<rparr>)\<rparr>"
  have "holds_file ?u a data" using f(1) by (simp add: holds_file_def VFS_O_RDONLY_def VFS_O_TRUNC_def)
  moreover have "fd_open (int k) ?u" using kl len by (simp add: fd_open_def VFS_MAX_OPEN_FILES_def)
  moreover have "open_files ?u ! nat (int k) = \<lparr>vf_used = True, vf_flags = VFS_O_RDONLY, vf_offset = 0, vf_inode = a\<rparr>"
    using kl len by simp
  moreover have "VFS_O_RDONLY AND (VFS_O_RDONLY OR VFS_O_RDWR) \<noteq> 0" by (simp add: VFS_O_RDONLY_def VFS_O_RDWR_def)
  ultimately have "fst (vfs_read (int k) False n ?u) = int (length data)" "fst (snd (vfs_read (int k) False n ?u)) = data"
    using vfs_read_whole [of ?u a data n "int k"] f(2,3) n a by simp_all
  with op show ?thesis by (intro exI [of _ "int k"] exI [of _ ?u]) simp
qed

lemma vfs_read_at:
  "fd_open fd s \<Longrightarrow> open_files s ! nat fd = f \<Longrightarrow> n \<noteq> 0 \<Longrightarrow> vf_flags f AND (VFS_O_RDONLY OR VFS_O_RDWR) \<noteq> 0 \<Longrightarrow> vf_inode f \<noteq> 0 \<Longrightarrow>
   i_type (inodes s (vf_inode f)) = VFS_TYPE_FILE \<Longrightarrow> fs_data (inodes s (vf_inode f)) \<noteq> 0 \<Longrightarrow>
   \<not> n > i_size (inodes s (vf_inode f)) - vf_offset f \<Longrightarrow>
   fst (snd (vfs_read fd False n s)) = get_bytes (vbytes s) (fs_data (inodes s (vf_inode f)) + ucast (vf_offset f)) (unat n)"
  by (simp add: vfs_read_def Let_def)

section \<open>Properties\<close>


definition vfs0 :: vfs where
  "vfs0 = \<lparr>root_inode = 0, inodes = (\<lambda>_. \<lparr>ino = 0, i_type = 0, i_size = 0, i_name = [], ref_count = 0,
      i_sec = \<lparr>sc_uid = 0, sc_gid = 0, sc_mode = 0\<rparr>, fs_data = 0, i_parent = 0, next_sibling = 0, first_child = 0\<rparr>),
      vbytes = (\<lambda>_. 0), open_files = [], registered_fs = [], vfs_lock = spinlock_init, next_ino = 1, vheap = boot_heap,
      vsec = security_init\<rparr>"

definition vfs1 :: vfs where
  "vfs1 = projr (vfs_init vfs0)"

lemma vfs0_owns: "owns (vheap vfs0) {}"
  using boot_heap_inv by (auto simp: owns_def vfs0_def)

lemma vfs1_simps: "vfs_init vfs0 = Inr vfs1" "root_inode vfs1 = 0x800010"
  "vheap vfs1 = heap_take 0 192 boot_heap" "open_files vfs1 = replicate 64 vfs_file0" "vsec vfs1 = security_init"
  "first_child (inodes vfs1 0x800010) = 0" "i_type (inodes vfs1 0x800010) = VFS_TYPE_DIR"
proof -
  have "kmalloc SIZEOF_INODE boot_heap = Inr (0x800010, heap_take 0 192 boot_heap)"
    using boot_heap_alloc [of 192] by (simp add: SIZEOF_INODE_def)
  then have "vfs_init vfs0 = Inr vfs1 \<and> root_inode vfs1 = 0x800010 \<and> vheap vfs1 = heap_take 0 192 boot_heap \<and>
      open_files vfs1 = replicate 64 vfs_file0 \<and> vsec vfs1 = security_init \<and> first_child (inodes vfs1 0x800010) = 0 \<and>
      i_type (inodes vfs1 0x800010) = VFS_TYPE_DIR"
    by (simp add: vfs1_def vfs_init_def alloc_inode_def vfs0_def Let_def VFS_MAX_OPEN_FILES_def)
  then show "vfs_init vfs0 = Inr vfs1" "root_inode vfs1 = 0x800010"
    "vheap vfs1 = heap_take 0 192 boot_heap" "open_files vfs1 = replicate 64 vfs_file0" "vsec vfs1 = security_init"
    "first_child (inodes vfs1 0x800010) = 0" "i_type (inodes vfs1 0x800010) = VFS_TYPE_DIR" by simp_all
qed

lemma vfs1_inv: "vfs_inv vfs1 {0x800010}"
  using vfs_init_inv [OF vfs0_owns vfs1_simps(1)] vfs1_simps(2) by simp



text \<open>A heap whose blocks from \<open>k\<close> on are free serves a request that fits behind them.\<close>

definition room :: "heap \<Rightarrow> nat \<Rightarrow> bool" where
  "room h k \<longleftrightarrow> (\<exists>L. heap_inv h L) \<and> total_blocks h = 0x100000 \<and> (\<forall>j. bm_test (hp_bitmap h) j \<longrightarrow> j < k)"

lemma room_alloc:
  assumes "room h k" "sz \<noteq> 0" "unat sz < 4096" "k + 256 < 0x100000"
  obtains p h' where "kmalloc sz h = Inr (p, h')" "p \<noteq> 0" "room h' (k + 257)"
proof -
  from assms(1) obtain L where L: "heap_inv h L" by (auto simp: room_def)
  have "blocks_for sz = (sz + 31) div 16"
    by (simp add: blocks_for_def HEADER_SIZE_def HEAP_BLOCK_SIZE_def add.commute)
  moreover have "unat (sz + 31) = unat sz + 31" using assms(3) by (subst unat_add_small) simp_all
  ultimately have n: "unat (blocks_for sz) = (unat sz + 31) div 16" by (simp add: unat_div)
  have free: "\<not> run_blocked (hp_bitmap h) n k" for n
    using assms(1) by (auto simp: room_def run_blocked_def dest: spec [of _ "k + _"])
  from L assms(2) show thesis
  proof (cases rule: kmalloc_cases)
    case failed
    have "blocks_for sz \<noteq> 0" using n by (auto simp: unat_eq_zero)
    moreover have "k + unat (blocks_for sz) \<le> unat (total_blocks h)" using assms n by (auto simp: room_def)
    ultimately show thesis using failed(3) free assms(3) by auto
  next
    case (fits s m)
    have "s \<le> k" using fits(7) free by (meson not_le)
    moreover have "m \<le> 257" using n assms(3) fits(2) by simp
    moreover have "bm_test (hp_bitmap (heap_take s sz h)) j \<longrightarrow> bm_test (hp_bitmap h) j \<or> j < s + m" for j
      using fits(2) by (auto simp: heap_take_def Let_def)
    ultimately have "room (heap_take s sz h) (k + 257)"
      using assms(1) fits(8) by (fastforce simp: room_def)
    moreover have "block_addr h s + HEADER_SIZE \<noteq> 0"
      using user_ptr_simps(1) [of h s] L fits(3,5) by (auto simp: heap_inv_def)
    ultimately show thesis using fits(1) by (intro that) auto
  qed
qed

lemma vfs1_room: "room (vheap vfs1) 257"
proof -
  from boot_heap_alloc [of 192] have k: "kmalloc 192 boot_heap = Inr (0x800010, heap_take 0 192 boot_heap)" by simp
  have "room boot_heap 0" using boot_heap_inv by (auto simp: room_def boot_heap_simps bm_test_bit)
  then show ?thesis by (rule room_alloc [of _ _ 192]) (use k vfs1_simps(3) in auto)
qed

lemma vfs1_create:
  "\<exists>t. vfs_create_file (Some (cstr ''/a'')) (Some [1, 2, 3]) 3 vfs1 = Inr (0, t)"
proof -
  obtain p h1 where 1: "kmalloc SIZEOF_INODE (vheap vfs1) = Inr (p, h1)" "p \<noteq> 0" "room h1 514"
    by (rule room_alloc [OF vfs1_room, of SIZEOF_INODE]) (auto simp: SIZEOF_INODE_def)
  obtain q h2 where 2: "kmalloc 3 h1 = Inr (q, h2)" "q \<noteq> 0"
    by (rule room_alloc [OF 1(3), of 3]) auto
  have c: "cstr ''/a'' = [47, 97]" by (simp add: cstr_def)
  have "split_path [47, 97] = Some ([47], [97])"
    by (simp add: split_path_def strrchr_def VFS_MAX_PATH_LEN_def VFS_MAX_NAME_LEN_def)
  moreover have "lookup_path (Some [47]) vfs1 = Inr 0x800010" by (simp add: lookup_path_def vfs1_simps)
  moreover have "comps [97] = [[97]]" by (rule comps_single) simp_all
  then have "lookup_path (Some [47, 97]) vfs1 = Inr 0"
    using lookup_path_comps [of "[97]" vfs1] by (simp add: vfs1_simps find_child.simps [of _ _ 0])
  ultimately show ?thesis using 1(1,2) 2 unfolding c
    by (simp add: vfs_create_file_def vfs1_simps new_file_def alloc_inode_def Let_def copy_in_def)
qed



definition vfs2 :: vfs where
  "vfs2 = vfs1\<lparr>inodes := (inodes vfs1)(0x900000 := (inodes vfs1 0)\<lparr>i_type := VFS_TYPE_FILE, i_size := 4, fs_data := 0xA00000\<rparr>),
     open_files := (replicate 64 vfs_file0)[2 := \<lparr>vf_used = True, vf_flags = VFS_O_RDWR, vf_offset = 1, vf_inode = 0x900000\<rparr>]\<rparr>"


text \<open>
  A read beyond the end of a file is not refused: when the offset has passed the size, the
  number of bytes left is computed with wrap-around, and the call returns memory behind the file's
  block as if it were contents.
\<close>

theorem vfs_read_past_end:
  assumes "fd_open fd s" "open_files s ! nat fd = f" "vf_flags f AND VFS_O_RDWR \<noteq> 0" "vf_inode f \<noteq> 0"
    "i_type (inodes s (vf_inode f)) = VFS_TYPE_FILE" "fs_data (inodes s (vf_inode f)) \<noteq> 0"
    "i_size (inodes s (vf_inode f)) < vf_offset f" "0 < unat n" "unat n < 2 ^ 31" "unat (vf_offset f) < 2 ^ 31"
  shows "fst (vfs_read fd False n s) = int (unat n) \<and>
    fst (snd (vfs_read fd False n s)) = get_bytes (vbytes s) (fs_data (inodes s (vf_inode f)) + ucast (vf_offset f)) (unat n)"
proof -
  let ?i = "inodes s (vf_inode f)"
  have nz: "n \<noteq> 0" using assms(8) by auto
  have "unat (i_size ?i - vf_offset f) = 2 ^ 32 + unat (i_size ?i) - unat (vf_offset f)"
    using assms(7) unsigned_less [of "vf_offset f"] by (simp add: unat_sub_if' word_less_nat_alt)
  then have av: "\<not> n > i_size ?i - vf_offset f" using assms(9,10) by (simp add: word_less_nat_alt)
  have fl: "vf_flags f AND (VFS_O_RDONLY OR VFS_O_RDWR) \<noteq> 0"
    using assms(3) by (simp add: VFS_O_RDONLY_def VFS_O_RDWR_def)
  have "sint n = int (unat n)" using assms(9) by (intro sint_small) simp
  then show ?thesis using vfs_read_at [OF assms(1,2) nz fl assms(4-6) av] assms(1,2,4-6) nz fl av
    by (simp add: vfs_read_def Let_def)
qed

theorem vfs_read_past_end_witness:
  "fst (vfs_read 2 False 3 (snd (projr (vfs_seek 2 100 0 vfs2)))) = 3"
proof -
  let ?s = "snd (projr (vfs_seek 2 100 0 vfs2))"
  have "fst (vfs_read 2 False 3 ?s) = int (unat (3 :: u32)) \<and> fst (snd (vfs_read 2 False 3 ?s)) =
      get_bytes (vbytes ?s) (fs_data (inodes ?s (vf_inode (open_files ?s ! nat 2))) + ucast (vf_offset (open_files ?s ! nat 2))) (unat (3 :: u32))"
    by (rule vfs_read_past_end)
      (simp_all add: vfs2_def vfs_seek_def fd_open_def VFS_MAX_OPEN_FILES_def Let_def VFS_O_RDWR_def)
  then show ?thesis by simp
qed

end
