(* ===== verification/Net.thy ===== *)
theory Net
  imports CString Spinlock Bytes
begin

text \<open>
  The network services: byte order, checksum and packet builders of
  \<^verbatim>\<open>src/services/net_utils.c\<close>, the ARP cache, IPv4 (routes, receive, send), ICMP echo, the TCP
  connection table and the UDP stubs. Packets are byte lists; the 16- and 32-bit fields of the
  packed headers are stored with the low byte first, as the processor does. A read behind the end
  of a buffer is \<open>Fault\<close>. The code builds frames but has no driver call to transmit
  them, so \<open>ip_send\<close> returns the frame it built next to its status.
\<close>

section \<open>Byte order and checksum\<close>

definition net_htons :: "u16 \<Rightarrow> u16" where
  "net_htons host = push_bit 8 (host AND 0xFF) OR (drop_bit 8 host AND 0xFF)"

definition net_ntohs :: "u16 \<Rightarrow> u16" where
  "net_ntohs w = net_htons w"

definition net_htonl :: "u32 \<Rightarrow> u32" where
  "net_htonl host = push_bit 24 (host AND 0xFF) OR push_bit 8 (host AND 0xFF00) OR drop_bit 8 (host AND 0xFF0000) OR (drop_bit 24 host AND 0xFF)"

definition net_ntohl :: "u32 \<Rightarrow> u32" where
  "net_ntohl w = net_htonl w"

definition be_word :: "u8 \<Rightarrow> u8 \<Rightarrow> u32" where
  "be_word a b = push_bit 8 (ucast a) OR ucast b"

fun sum_words :: "u8 list \<Rightarrow> nat \<Rightarrow> u32 \<Rightarrow> u32 res" where
  "sum_words buf 0 s = Inr s"
| "sum_words [] (Suc n) s = Inl Fault"
| "sum_words [a] (Suc n) s = (if n = 0 then Inr (s + push_bit 8 (ucast a)) else Inl Fault)"
| "sum_words (a # b # r) (Suc 0) s = Inr (s + push_bit 8 (ucast a))"
| "sum_words (a # b # r) (Suc (Suc n)) s = sum_words r n (s + be_word a b)"

lemma unat_low_high: "unat (s AND 0xFFFF :: u32) = unat s mod 65536" "unat (drop_bit 16 s :: u32) = unat s div 65536"
proof -
  have "s AND 0xFFFF = take_bit 16 s" by (simp add: take_bit_eq_mask mask_eq_exp_minus_1)
  then have "unat (s AND 0xFFFF) = take_bit 16 (unat s)" by (simp only: unsigned_take_bit_eq)
  then show "unat (s AND 0xFFFF) = unat s mod 65536" by (simp add: take_bit_eq_mod)
  have "unat s < 2 ^ LENGTH(32)" by (rule unsigned_less)
  then show "unat (drop_bit 16 s) = unat s div 65536" by (simp only: unsigned_drop_bit_eq) (simp add: drop_bit_eq_div take_bit_eq_mod)
qed

lemma unat_fold: "unat ((s AND 0xFFFF) + drop_bit 16 s :: u32) = unat s mod 65536 + unat s div 65536"
proof -
  have "unat s < 2 ^ LENGTH(32)" by (rule unsigned_less)
  then show ?thesis by (subst unat_add_small) (simp_all add: unat_low_high)
qed

function fold_sum :: "u32 \<Rightarrow> u32" where
  "fold_sum s = (if drop_bit 16 s \<noteq> 0 then fold_sum ((s AND 0xFFFF) + drop_bit 16 s) else s)"
  by pat_completeness auto
termination
proof (relation "measure unat")
  fix s :: u32 assume "drop_bit 16 s \<noteq> 0"
  then have "0 < unat s div 65536" using unat_low_high(2) [of s] by (metis unat_pos)
  then have "unat s mod 65536 + unat s div 65536 < unat s"
    using div_mult_mod_eq [of "unat s" 65536] by linarith
  then show "((s AND 0xFFFF) + drop_bit 16 s, s) \<in> measure unat" using unat_fold [of s] by simp
qed simp

declare fold_sum.simps [simp del]

definition net_checksum :: "u8 list \<Rightarrow> u16 \<Rightarrow> u16 res" where
  "net_checksum buf len = rbind (sum_words buf (unat len) 0) (\<lambda>s. Inr (ucast (NOT (fold_sum s))))"

section \<open>Headers\<close>

definition ETHERTYPE_IP :: u16 where "ETHERTYPE_IP = 0x0800"
definition IP_PROTO_ICMP :: u8 where "IP_PROTO_ICMP = 1"
definition IP_PROTO_TCP :: u8 where "IP_PROTO_TCP = 6"
definition ICMP_ECHO_REPLY :: u8 where "ICMP_ECHO_REPLY = 0"
definition ICMP_ECHO_REQUEST :: u8 where "ICMP_ECHO_REQUEST = 8"
definition NET_MAX_PACKET :: nat where "NET_MAX_PACKET = 2048"

record eth_header =
  dst_mac :: "u8 list"
  src_mac :: "u8 list"
  eth_type :: u16

definition eth_bytes :: "eth_header \<Rightarrow> u8 list" where
  "eth_bytes e = dst_mac e @ src_mac e @ le16 (eth_type e)"

record ip_header =
  ver_ihl :: u8
  tos :: u8
  total_len :: u16
  ip_id :: u16
  flags_frag :: u16
  ttl :: u8
  protocol :: u8
  ip_checksum :: u16
  src_ip :: u32
  dst_ip :: u32

definition ip_bytes :: "ip_header \<Rightarrow> u8 list" where
  "ip_bytes h = [ver_ihl h, tos h] @ le16 (total_len h) @ le16 (ip_id h) @ le16 (flags_frag h) @ [ttl h, protocol h] @
     le16 (ip_checksum h) @ le32 (src_ip h) @ le32 (dst_ip h)"

record icmp_echo =
  icmp_type :: u8
  icmp_code :: u8
  icmp_checksum :: u16
  icmp_id :: u16
  icmp_sequence :: u16

definition icmp_bytes :: "icmp_echo \<Rightarrow> u8 list" where
  "icmp_bytes h = [icmp_type h, icmp_code h] @ le16 (icmp_checksum h) @ le16 (icmp_id h) @ le16 (icmp_sequence h)"

definition net_build_eth :: "u8 list \<Rightarrow> u8 list \<Rightarrow> u16 \<Rightarrow> eth_header" where
  "net_build_eth dst src ty = \<lparr>dst_mac = take 6 dst, src_mac = take 6 src, eth_type = net_htons ty\<rparr>"

definition net_build_ip :: "u32 \<Rightarrow> u32 \<Rightarrow> u8 \<Rightarrow> u16 \<Rightarrow> ip_header res" where
  "net_build_ip src dst proto data_len =
     (let h = \<lparr>ver_ihl = 0x45, tos = 0, total_len = net_htons (20 + data_len), ip_id = 0, flags_frag = 0, ttl = 64,
               protocol = proto, ip_checksum = 0, src_ip = net_htonl src, dst_ip = net_htonl dst\<rparr>
      in rbind (net_checksum (ip_bytes h) 20) (\<lambda>c. Inr (h\<lparr>ip_checksum := c\<rparr>)))"

text \<open>The temporary buffer of the builder holds 2048 bytes; a longer payload would overrun it.\<close>

definition net_build_icmp_echo :: "u16 \<Rightarrow> u16 \<Rightarrow> u8 list option \<Rightarrow> u16 \<Rightarrow> icmp_echo res" where
  "net_build_icmp_echo i q payload payload_len =
     (let h = \<lparr>icmp_type = ICMP_ECHO_REQUEST, icmp_code = 0, icmp_checksum = 0, icmp_id = net_htons i, icmp_sequence = net_htons q\<rparr>;
          total_len = 8 + payload_len
      in rbind (case payload of
             Some p \<Rightarrow> if unat payload_len > 0 then
                 (if unat payload_len \<le> length p \<and> 8 + unat payload_len \<le> NET_MAX_PACKET
                  then Inr (icmp_bytes h @ take (unat payload_len) p) else Inl Fault)
               else Inr (icmp_bytes h)
           | None \<Rightarrow> Inr (icmp_bytes h)) (\<lambda>temp.
           rbind (net_checksum temp total_len) (\<lambda>c. Inr (h\<lparr>icmp_checksum := c\<rparr>))))"

section \<open>ARP\<close>

definition ARP_CACHE_SIZE :: nat where "ARP_CACHE_SIZE = 16"
definition ARP_OP_REQUEST :: u16 where "ARP_OP_REQUEST = 1"
definition ARP_OP_REPLY :: u16 where "ARP_OP_REPLY = 2"

record arp_entry =
  ar_ip :: u32
  ar_mac :: "u8 list"
  ar_valid :: bool

record arp =
  arp_cache :: "arp_entry list"
  arp_local_mac :: "u8 list"
  arp_local_ip :: u32

definition arp_init :: "arp \<Rightarrow> arp" where
  "arp_init s = s\<lparr>arp_cache := replicate ARP_CACHE_SIZE \<lparr>ar_ip = 0, ar_mac = replicate 6 0, ar_valid = False\<rparr>\<rparr>"

definition arp_set_local :: "u32 \<Rightarrow> u8 list option \<Rightarrow> arp \<Rightarrow> arp" where
  "arp_set_local ip mac s =
     (let s1 = s\<lparr>arp_local_ip := ip\<rparr> in case mac of Some m \<Rightarrow> s1\<lparr>arp_local_mac := take 6 m\<rparr> | None \<Rightarrow> s1)"

definition arp_find_entry :: "u32 \<Rightarrow> arp_entry list \<Rightarrow> nat option" where
  "arp_find_entry ip cache = first_idx (\<lambda>e. ar_valid e \<and> ar_ip e = ip) cache"

definition arp_add_entry :: "u32 \<Rightarrow> u8 list \<Rightarrow> arp_entry list \<Rightarrow> arp_entry list" where
  "arp_add_entry ip mac cache =
     (let idx = (case arp_find_entry ip cache of Some i \<Rightarrow> i
                 | None \<Rightarrow> (case first_idx (\<lambda>e. \<not> ar_valid e) cache of Some i \<Rightarrow> i | None \<Rightarrow> 0))
      in cache[idx := \<lparr>ar_ip = ip, ar_mac = take 6 mac, ar_valid = True\<rparr>])"

definition arp_resolve :: "u32 \<Rightarrow> bool \<Rightarrow> arp \<Rightarrow> int \<times> u8 list" where
  "arp_resolve ip null_out s =
     (if null_out then (-1, [])
      else case arp_find_entry ip (arp_cache s) of Some i \<Rightarrow> (0, ar_mac (arp_cache s ! i)) | None \<Rightarrow> (-1, []))"

text \<open>Field offsets of the packed packet: opcode 6, sender MAC 8, sender address 14, target address 24, size 28.\<close>

definition arp_receive :: "u8 list option \<Rightarrow> u16 \<Rightarrow> arp \<Rightarrow> arp res" where
  "arp_receive packet len s =
     (case packet of None \<Rightarrow> Inr s
      | Some p \<Rightarrow>
          if unat len < 28 then Inr s
          else if length p < 28 then Inl Fault
          else let opcode = net_ntohs (rd16 p 6) in
            if opcode = ARP_OP_REPLY then
              Inr (s\<lparr>arp_cache := arp_add_entry (net_ntohl (rd32 p 14)) (take 6 (drop 8 p)) (arp_cache s)\<rparr>)
            else Inr s)"

section \<open>IPv4 and ICMP\<close>

definition IP_MAX_ROUTES :: nat where "IP_MAX_ROUTES = 8"

record ip_route =
  network :: u32
  netmask :: u32
  gateway :: u32
  iface_ip :: u32
  rt_valid :: bool

record ip_state =
  routes :: "ip_route list"
  local_ip :: u32

definition ip_init :: "ip_state \<Rightarrow> ip_state" where
  "ip_init s = s\<lparr>routes := replicate IP_MAX_ROUTES \<lparr>network = 0, netmask = 0, gateway = 0, iface_ip = 0, rt_valid = False\<rparr>\<rparr>"

definition ip_set_local :: "u32 \<Rightarrow> ip_state \<Rightarrow> ip_state" where
  "ip_set_local ip s = s\<lparr>local_ip := ip\<rparr>"

definition ip_add_route :: "u32 \<Rightarrow> u32 \<Rightarrow> u32 \<Rightarrow> u32 \<Rightarrow> ip_state \<Rightarrow> int \<times> ip_state" where
  "ip_add_route net msk gw iface s =
     (case slot_alloc rt_valid (\<lambda>_ _. \<lparr>network = net, netmask = msk, gateway = gw, iface_ip = iface, rt_valid = True\<rparr>) (routes s) of
        Some (i, rs) \<Rightarrow> (0, s\<lparr>routes := rs\<rparr>) | None \<Rightarrow> (-1, s))"

definition ip_route_lookup :: "u32 \<Rightarrow> ip_state \<Rightarrow> u32" where
  "ip_route_lookup dst s =
     (case first_idx (\<lambda>r. rt_valid r \<and> dst AND netmask r = network r) (routes s) of
        Some i \<Rightarrow> gateway (routes s ! i) | None \<Rightarrow> dst)"

text \<open>The frame \<open>ip_send\<close> builds: Ethernet header, IP header, payload.\<close>

definition ip_send :: "u32 \<Rightarrow> u8 \<Rightarrow> u8 list option \<Rightarrow> u16 \<Rightarrow> ip_state \<Rightarrow> (int \<times> u8 list) res" where
  "ip_send dst proto data len s =
     (case data of None \<Rightarrow> Inr (-1, [])
      | Some d \<Rightarrow>
          if len = 0 then Inr (-1, [])
          else if unat len + 20 + 14 > NET_MAX_PACKET then Inr (-1, [])
          else rbind (net_build_ip (local_ip s) dst proto len) (\<lambda>h.
            if length d < unat len then Inl Fault
            else Inr (0, eth_bytes (net_build_eth [0xFF, 0xFF, 0xFF, 0xFF, 0xFF, 0xFF] [0x52, 0x54, 0x00, 0x12, 0x34, 0x56] ETHERTYPE_IP) @
                   ip_bytes h @ take (unat len) d)))"

definition icmp_send_echo :: "u32 \<Rightarrow> u16 \<Rightarrow> u16 \<Rightarrow> ip_state \<Rightarrow> (int \<times> u8 list) res" where
  "icmp_send_echo dst i q s =
     (let payload = cstr ''MadarOS'' in
      rbind (net_build_icmp_echo i q (Some payload) 7) (\<lambda>h.
        ip_send dst IP_PROTO_ICMP (Some (icmp_bytes h @ payload)) (8 + 7) s))"

definition icmp_receive :: "u8 list option \<Rightarrow> u16 \<Rightarrow> u32 \<Rightarrow> ip_state \<Rightarrow> (int \<times> u8 list) res" where
  "icmp_receive data len src s =
     (case data of None \<Rightarrow> Inr (-1, [])
      | Some d \<Rightarrow>
          if unat len < 8 then Inr (-1, [])
          else if length d < 8 then Inl Fault
          else if d ! 0 = ICMP_ECHO_REQUEST then icmp_send_echo src (net_ntohs (rd16 d 4)) (net_ntohs (rd16 d 6)) s
          else if d ! 0 = ICMP_ECHO_REPLY then Inr (0, [])
          else Inr (-1, []))"

text \<open>
  The received packet is changed: its checksum field is cleared for the check. The result holds
  the status, the packet and the frame sent in reply, if any.
\<close>

definition ip_receive :: "u8 list option \<Rightarrow> u16 \<Rightarrow> ip_state \<Rightarrow> (int \<times> u8 list \<times> u8 list) res" where
  "ip_receive packet len s =
     (case packet of None \<Rightarrow> Inr (-1, [], [])
      | Some p \<Rightarrow>
          if unat len < 20 then Inr (-1, p, [])
          else if length p < 20 then Inl Fault
          else let version = drop_bit 4 (p ! 0) AND 0x0F; ihl = unat (p ! 0 AND 0x0F) in
            if version \<noteq> 4 then Inr (-1, p, [])
            else let hdr_checksum = rd16 p 10; p1 = p[10 := 0, 11 := 0] in
              rbind (net_checksum p1 (of_nat (ihl * 4))) (\<lambda>c.
                if c \<noteq> hdr_checksum then Inr (-1, p1, [])
                else let src = net_ntohl (rd32 p1 12); dst = net_ntohl (rd32 p1 16); proto = p1 ! 9 in
                  if dst \<noteq> local_ip s \<and> dst \<noteq> 0xFFFFFFFF then Inr (-1, p1, [])
                  else if proto = IP_PROTO_ICMP then
                    rbind (icmp_receive (Some (drop (ihl * 4) p1)) (len - of_nat (ihl * 4)) src s) (\<lambda>(r, f). Inr (r, p1, f))
                  else Inr (0, p1, [])))"

section \<open>TCP and UDP\<close>

definition MAX_TCP_CONNS :: nat where "MAX_TCP_CONNS = 4"
definition TCP_MAX_SEG :: nat where "TCP_MAX_SEG = 1460"

record tcp_header =
  tcp_seq :: u32
  tcp_ack :: u32
  tcp_window :: u16
  tcp_flags :: u8
  tcp_checksum :: u16

record tcp_segment =
  src_port :: u16
  dst_port :: u16
  seg_hdr :: tcp_header
  seg_data :: "u8 list"
  data_len :: u16

definition tcp_segment0 :: tcp_segment where
  "tcp_segment0 = \<lparr>src_port = 0, dst_port = 0,
     seg_hdr = \<lparr>tcp_seq = 0, tcp_ack = 0, tcp_window = 0, tcp_flags = 0, tcp_checksum = 0\<rparr>,
     seg_data = replicate TCP_MAX_SEG 0, data_len = 0\<rparr>"

text \<open>The segment as it lies in memory, with the compiler's padding: 1484 bytes.\<close>

definition seg_bytes :: "tcp_segment \<Rightarrow> u8 list" where
  "seg_bytes g = le16 (src_port g) @ le16 (dst_port g) @ le32 (tcp_seq (seg_hdr g)) @ le32 (tcp_ack (seg_hdr g)) @
     le16 (tcp_window (seg_hdr g)) @ [tcp_flags (seg_hdr g), 0] @ le16 (tcp_checksum (seg_hdr g)) @ [0, 0] @
     seg_data g @ le16 (data_len g) @ [0, 0]"

record tcp =
  conns :: "tcp_segment list"
  tcp_lock :: spinlock
  tcp_lock_ready :: bool
  tcp_ip :: ip_state

definition find_free_conn :: "tcp \<Rightarrow> nat option" where
  "find_free_conn s = first_idx (\<lambda>c. tcp_seq (seg_hdr c) = 0) (conns s)"

text \<open>The loop stops after the fourth part; a character that is neither a digit nor a dot makes the result 0.\<close>

fun parse_ipv4_loop :: "u8 list \<Rightarrow> nat \<Rightarrow> u32 list \<Rightarrow> u32 list option" where
  "parse_ipv4_loop [] part parts = Some parts"
| "parse_ipv4_loop (c # cs) part parts =
     (if part \<ge> 4 then Some parts
      else if c = 46 then parse_ipv4_loop cs (part + 1) parts
      else if 48 \<le> c \<and> c \<le> 57 then parse_ipv4_loop cs part (parts[part := parts ! part * 10 + ucast (c - 48)])
      else None)"

definition tcp_parse_ipv4 :: "u8 list option \<Rightarrow> u32" where
  "tcp_parse_ipv4 ip_str =
     (case ip_str of None \<Rightarrow> 0
      | Some cs \<Rightarrow> (case parse_ipv4_loop cs 0 [0, 0, 0, 0] of None \<Rightarrow> 0
          | Some ps \<Rightarrow> push_bit 24 (ps ! 0) OR push_bit 16 (ps ! 1) OR push_bit 8 (ps ! 2) OR ps ! 3))"

definition tcp_socket :: "tcp \<Rightarrow> int \<times> tcp" where
  "tcp_socket s =
     (let s1 = (if tcp_lock_ready s then s else s\<lparr>tcp_lock := spinlock_init, tcp_lock_ready := True\<rparr>)
      in case find_free_conn s1 of None \<Rightarrow> (-1, s1)
         | Some i \<Rightarrow> (int i, s1\<lparr>conns := (conns s1)[i := (conns s1 ! i)\<lparr>seg_hdr :=
              (seg_hdr (conns s1 ! i))\<lparr>tcp_seq := 0x1000 + of_nat i, tcp_ack := 0\<rparr>\<rparr>]\<rparr>))"

definition conn_ok :: "int \<Rightarrow> bool" where
  "conn_ok fd \<longleftrightarrow> 0 \<le> fd \<and> fd < int MAX_TCP_CONNS"

definition tcp_connect :: "int \<Rightarrow> u8 list option \<Rightarrow> u16 \<Rightarrow> tcp \<Rightarrow> (int \<times> tcp) res" where
  "tcp_connect fd ip_str port s =
     (if \<not> conn_ok fd then Inr (-1, s)
      else rbind (spinlock_acquire (tcp_lock s)) (\<lambda>l.
        let c = (conns s ! nat fd)\<lparr>src_port := 54321, dst_port := port,
                  seg_hdr := (seg_hdr (conns s ! nat fd))\<lparr>tcp_flags := 2\<rparr>, data_len := 0\<rparr>;
            s1 = s\<lparr>tcp_lock := l, conns := (conns s)[nat fd := c]\<rparr>
        in rbind (ip_send (tcp_parse_ipv4 ip_str) IP_PROTO_TCP (Some (seg_bytes c)) 1484 (tcp_ip s1)) (\<lambda>_.
             Inr (0, s1\<lparr>tcp_lock := spinlock_release (tcp_lock s1)\<rparr>))))"

definition tcp_send :: "int \<Rightarrow> u8 list \<Rightarrow> u16 \<Rightarrow> tcp \<Rightarrow> (int \<times> tcp) res" where
  "tcp_send fd data len s =
     (if \<not> conn_ok fd \<or> unat len > TCP_MAX_SEG then Inr (-1, s)
      else rbind (spinlock_acquire (tcp_lock s)) (\<lambda>l.
        rbind (memcpy (seg_data (conns s ! nat fd)) data (unat len)) (\<lambda>d.
          let c = (conns s ! nat fd)\<lparr>seg_hdr := (seg_hdr (conns s ! nat fd))\<lparr>tcp_flags := 0x10\<rparr>, seg_data := d, data_len := len\<rparr>;
              s1 = s\<lparr>tcp_lock := l, conns := (conns s)[nat fd := c]\<rparr>
          in rbind (ip_send 0 IP_PROTO_TCP (Some (seg_bytes c)) (16 + len) (tcp_ip s1)) (\<lambda>_.
               Inr (int (unat len), s1\<lparr>tcp_lock := spinlock_release (tcp_lock s1)\<rparr>)))))"

definition tcp_recv :: "int \<Rightarrow> int" where
  "tcp_recv fd = 0"

text \<open>The descriptor is not checked; outside the table the write hits other data.\<close>

definition tcp_close :: "int \<Rightarrow> tcp \<Rightarrow> (int \<times> tcp) res" where
  "tcp_close fd s = (if conn_ok fd then Inr (0, s\<lparr>conns := (conns s)[nat fd := tcp_segment0]\<rparr>) else Inl Fault)"

definition udp_socket :: int where
  "udp_socket = 0"

definition udp_sendto :: "u16 \<Rightarrow> int" where
  "udp_sendto len = int (unat len)"

definition udp_recvfrom :: int where
  "udp_recvfrom = 0"

section \<open>The checksum\<close>

text \<open>The one's complement sum: the residue modulo 65535, with 65535 for positive multiples.\<close>

definition ones_sum :: "nat \<Rightarrow> nat" where
  "ones_sum n = (if n = 0 then 0 else (n - 1) mod 65535 + 1)"

fun words_sum :: "u8 list \<Rightarrow> nat" where
  "words_sum [] = 0"
| "words_sum [a] = 256 * unat a"
| "words_sum (a # b # r) = 256 * unat a + unat b + words_sum r"

lemma fold_sum_spec: "unat (fold_sum s) = ones_sum (unat s)"
proof (induction s rule: fold_sum.induct)
  case (1 s)
  show ?case
  proof (cases "drop_bit 16 s = 0")
    case True
    then have "unat s < 65536" using unat_low_high(2) [of s] by (metis div_eq_0_iff unat_0 zero_neq_numeral)
    then show ?thesis using True by (subst fold_sum.simps) (auto simp: ones_sum_def)
  next
    case False
    have pos: "0 < unat s div 65536" using False unat_low_high(2) [of s] by (metis unat_pos)
    have "unat s - 1 = (unat s mod 65536 + unat s div 65536 - 1) + 65535 * (unat s div 65536)"
      using pos div_mult_mod_eq [of "unat s" 65536] by linarith
    then have "(unat s - 1) mod 65535 = (unat s mod 65536 + unat s div 65536 - 1) mod 65535" by simp
    moreover have "unat s \<noteq> 0" using pos by (cases "unat s") auto
    ultimately have "ones_sum (unat s mod 65536 + unat s div 65536) = ones_sum (unat s)" using pos by (simp add: ones_sum_def)
    then show ?thesis using "1" [OF False] False unat_fold [of s] by (subst fold_sum.simps) simp
  qed
qed

lemma unat_be_word: "unat (be_word a b) = 256 * unat a + unat b"
proof -
  have "(push_bit 8 (ucast a) :: u32) AND ucast b = 0"
    by (rule bit_eqI) (auto simp: bit_simps dest: bit_imp_le_length)
  then have "be_word a b = push_bit 8 (ucast a) + ucast b"
    unfolding be_word_def by (rule disjunctive_add_eq_or [symmetric])
  moreover have "unat a < 2 ^ LENGTH(8)" "unat b < 2 ^ LENGTH(8)" by (rule unsigned_less)+
  moreover from this have "unat (push_bit 8 (ucast a :: u32)) = 256 * unat a" "unat (ucast b :: u32) = unat b"
    by (simp_all only: unsigned_push_bit_eq unsigned_ucast_eq) (simp_all add: push_bit_eq_mult take_bit_eq_mod)
  ultimately show ?thesis by (simp add: unat_add_small)
qed

lemma words_sum_bound: "2 * words_sum xs \<le> 65535 * Suc (length xs)"
proof (induction xs rule: words_sum.induct)
  case (2 a)
  have "unat a < 2 ^ LENGTH(8)" by (rule unsigned_less)
  then show ?case by simp
next
  case (3 a b r)
  have "unat a < 2 ^ LENGTH(8)" "unat b < 2 ^ LENGTH(8)" by (rule unsigned_less)+
  with 3 show ?case by simp
qed simp

lemma sum_words_spec:
  assumes "n \<le> length buf" "unat s + words_sum (take n buf) < 2 ^ 32"
  shows "\<exists>t. sum_words buf n s = Inr t \<and> unat t = unat s + words_sum (take n buf)"
  using assms
proof (induction buf n s rule: sum_words.induct)
  case (5 a b r n s)
  have "unat (s + be_word a b) = unat s + (256 * unat a + unat b)"
    using "5.prems" by (subst unat_add_small) (simp_all add: unat_be_word)
  then show ?case using "5.IH" "5.prems" by (simp add: add.assoc)
next
  case (3 a n s)
  then show ?case by (simp add: unat_add_small unat_be_word [of a 0, unfolded be_word_def, simplified])
next
  case (4 a b r s)
  then show ?case by (simp add: unat_add_small unat_be_word [of a 0, unfolded be_word_def, simplified])
qed auto

lemma net_checksum_spec:
  assumes "unat len \<le> length buf"
  shows "\<exists>c. net_checksum buf len = Inr c \<and> unat c = 65535 - ones_sum (words_sum (take (unat len) buf))"
proof -
  let ?w = "words_sum (take (unat len) buf)"
  have l: "unat len < 2 ^ LENGTH(16)" by (rule unsigned_less)
  have "2 * ?w \<le> 65535 * Suc (unat len)" using words_sum_bound [of "take (unat len) buf"] assms by (simp add: min.absorb2)
  also have "\<dots> \<le> 65535 * 65536" using l by simp
  finally have "unat (0 :: u32) + ?w < 2 ^ 32" by simp
  from sum_words_spec [OF assms this] obtain t where t: "sum_words buf (unat len) 0 = Inr t" "unat t = ?w" by auto
  have f: "unat (fold_sum t) = ones_sum ?w" using fold_sum_spec t(2) by simp
  have o: "ones_sum ?w \<le> 65535" by (auto simp: ones_sum_def intro: less_imp_le simp: Suc_le_eq)
  have "NOT (fold_sum t) = - 1 - fold_sum t" by (simp add: not_eq_complement)
  moreover have "unat (- 1 - fold_sum t) = 2 ^ 32 - 1 - unat (fold_sum t)"
    by (subst unat_sub_le) (simp_all add: unsigned_minus_1_eq_mask mask_eq_exp_minus_1)
  ultimately have "unat (NOT (fold_sum t)) = 2 ^ 32 - 1 - ones_sum ?w" using f by simp
  then have "unat (ucast (NOT (fold_sum t)) :: u16) = (2 ^ 32 - 1 - ones_sum ?w) mod 65536"
    by (simp add: unsigned_ucast_eq take_bit_eq_mod)
  also have "\<dots> = 65535 - ones_sum ?w"
  proof -
    have "(2 :: nat) ^ 32 - 1 - ones_sum ?w = (65535 - ones_sum ?w) + 65536 * 65535" using o by simp
    moreover have "(65535 - ones_sum ?w + 65536 * 65535) mod 65536 = (65535 - ones_sum ?w) mod 65536" by (rule mod_mult_self2)
    moreover have lt: "65535 - ones_sum ?w < (65536 :: nat)" by simp
    ultimately show ?thesis by (simp only: mod_less [OF lt])
  qed
  finally show ?thesis using t(1) by (simp add: net_checksum_def)
qed

section \<open>Round trips of fields\<close>

lemma byte_masks:
  "(0xFF :: 'a::len word) = mask 8" "(0xFF00 :: u32) = push_bit 8 (mask 8)" "(0xFF0000 :: u32) = push_bit 16 (mask 8)"
  by (simp_all add: mask_eq_exp_minus_1)

lemma net_htons_bit: "bit (net_htons x) n \<longleftrightarrow> n < 16 \<and> bit x (if n < 8 then n + 8 else n - 8)"
  unfolding net_htons_def byte_masks
  by (auto simp: bit_simps add.commute simp del: mask_numeral dest: bit_imp_le_length)

lemma net_htonl_bit:
  "bit (net_htonl x) n \<longleftrightarrow> n < 32 \<and> bit x (if n < 8 then n + 24 else if n < 16 then n + 8 else if n < 24 then n - 8 else n - 24)"
  unfolding net_htonl_def byte_masks
  by (auto simp: bit_simps add.commute simp del: mask_numeral dest: bit_imp_le_length)

lemma net_htons_htons [simp]: "net_htons (net_htons x) = x"
  by (rule bit_eqI) (auto simp: net_htons_bit dest: bit_imp_le_length)

lemma net_htonl_htonl [simp]: "net_htonl (net_htonl x) = x"
  by (rule bit_eqI) (auto simp: net_htonl_bit dest: bit_imp_le_length)

lemma ip_bytes_fields:
  "length (ip_bytes h) = 20" "ip_bytes h ! 0 = ver_ihl h" "ip_bytes h ! 9 = protocol h"
  "rd16 (ip_bytes h @ d) 10 = ip_checksum h" "rd32 (ip_bytes h @ d) 12 = src_ip h" "rd32 (ip_bytes h @ d) 16 = dst_ip h"
  "(ip_bytes h @ d)[10 := 0, 11 := 0] = ip_bytes (h\<lparr>ip_checksum := 0\<rparr>) @ d"
  using join16 [of "ip_checksum h"] join32 [of "src_ip h"] join32 [of "dst_ip h"]
  by (simp_all add: ip_bytes_def le16_def le32_def rd16_def rd32_def)

text \<open>A header the builder made carries the checksum of its bytes with the field cleared.\<close>

lemma net_build_ip_spec:
  obtains h c where "net_build_ip src dst proto n = Inr h" "ver_ihl h = 0x45" "protocol h = proto" "src_ip h = net_htonl src"
    "dst_ip h = net_htonl dst" "total_len h = net_htons (20 + n)" "net_checksum (ip_bytes (h\<lparr>ip_checksum := 0\<rparr>)) 20 = Inr (ip_checksum h)"
proof -
  let ?h = "\<lparr>ver_ihl = 0x45, tos = 0, total_len = net_htons (20 + n), ip_id = 0, flags_frag = 0, ttl = 64,
     protocol = proto, ip_checksum = 0, src_ip = net_htonl src, dst_ip = net_htonl dst\<rparr>"
  have "unat (20 :: u16) \<le> length (ip_bytes ?h)" by (simp add: ip_bytes_fields)
  then obtain c where "net_checksum (ip_bytes ?h) 20 = Inr c" using net_checksum_spec by blast
  then show thesis by (intro that [of "?h\<lparr>ip_checksum := c\<rparr>"]) (simp_all add: net_build_ip_def Let_def)
qed

lemma sum_words_prefix: "n \<le> length xs \<Longrightarrow> sum_words (xs @ ys) n s = sum_words xs n s"
  by (induction xs n s rule: sum_words.induct) (auto simp: neq_Nil_conv split: list.split; cases ys; auto)+

lemma net_checksum_prefix: "unat n \<le> length xs \<Longrightarrow> net_checksum (xs @ ys) n = net_checksum xs n"
  by (simp add: net_checksum_def sum_words_prefix)

lemma ones_sum_complement: "ones_sum (n + (65535 - ones_sum n)) = 65535"
proof (cases "n = 0")
  case False
  define m where "m = (n - 1) mod 65535"
  have m: "m < 65535" "n - 1 = (n - 1) div 65535 * 65535 + m" using div_mult_mod_eq [of "n - 1" 65535] by (simp_all add: m_def)
  have "n + (65535 - (m + 1)) - 1 = (n - 1) div 65535 * 65535 + 65534" using m False by linarith
  moreover have "((n - 1) div 65535 * 65535 + 65534) mod 65535 = 65534 mod (65535 :: nat)" by (rule mod_mult_self3)
  ultimately have "(n + (65535 - (m + 1)) - 1) mod 65535 = 65534" by simp
  then show ?thesis using False by (simp add: ones_sum_def m_def)
qed (simp add: ones_sum_def)

lemma words_sum_append: "even (length xs) \<Longrightarrow> words_sum (xs @ ys) = words_sum xs + words_sum ys"
  by (induction xs rule: words_sum.induct) auto

section \<open>Properties\<close>

text \<open>
  C22. The checksum loop, with its folding of carries, ends on every input and computes the
  one's complement checksum: the complement of the sum of the 16-bit big-endian words modulo 65535.
  Appended in network byte order to an even number of bytes it makes the checksum of the whole 0,
  the test a receiver applies.
\<close>

theorem net_checksum_ones_complement:
  assumes "unat len \<le> length buf"
  shows "\<exists>c. net_checksum buf len = Inr c \<and> unat c = 65535 - ones_sum (words_sum (take (unat len) buf)) \<and>
     (even (unat len) \<and> unat len + 2 < 2 ^ 16 \<longrightarrow>
       net_checksum (take (unat len) buf @ [ucast (drop_bit 8 c), ucast c]) (len + 2) = Inr 0)"
proof -
  let ?b = "take (unat len) buf"
  obtain c where c: "net_checksum buf len = Inr c" "unat c = 65535 - ones_sum (words_sum ?b)" using net_checksum_spec [OF assms] by blast
  have "net_checksum (?b @ [ucast (drop_bit 8 c), ucast c]) (len + 2) = Inr 0" if e: "even (unat len)" "unat len + 2 < 2 ^ 16"
  proof -
    let ?x = "?b @ [ucast (drop_bit 8 c), ucast c]"
    have l: "unat (len + 2) = unat len + 2" using e(2) by (subst unat_add_small) simp_all
    have lb: "length ?b = unat len" using assms by simp
    have "be_word (ucast (drop_bit 8 c)) (ucast c) = ucast (push_bit 8 (ucast (ucast (drop_bit 8 c) :: u8)) OR ucast (ucast c :: u8) :: u16)"
      unfolding be_word_def by (rule bit_eqI) (auto simp: bit_simps dest: bit_imp_le_length)
    then have "256 * unat (ucast (drop_bit 8 c) :: u8) + unat (ucast c :: u8) = unat (ucast c :: u32)"
      using unat_be_word [of "ucast (drop_bit 8 c)" "ucast c"] by (simp only: join16)
    moreover have "unat c < 2 ^ LENGTH(16)" by (rule unsigned_less)
    then have "unat (ucast c :: u32) = unat c" by (simp add: unsigned_ucast_eq take_bit_eq_mod)
    ultimately have "words_sum ?x = words_sum ?b + unat c" using words_sum_append [of ?b] lb e(1) by simp
    then have "ones_sum (words_sum ?x) = 65535" using ones_sum_complement c(2) by simp
    moreover obtain c' where c': "net_checksum ?x (len + 2) = Inr c'" "unat c' = 65535 - ones_sum (words_sum (take (unat (len + 2)) ?x))"
      using net_checksum_spec [of "len + 2" ?x] l lb assms by auto
    moreover have "take (unat (len + 2)) ?x = ?x" using l lb by simp
    ultimately show ?thesis by (simp add: unat_eq_zero)
  qed
  with c show ?thesis by blast
qed

theorem net_checksum_ones_complement_witness:
  "\<exists>c. net_checksum [0x45, 0, 0, 0x14] 4 = Inr c \<and> net_checksum [0x45, 0, 0, 0x14, ucast (drop_bit 8 c), ucast c] 6 = Inr 0"
  using net_checksum_ones_complement [of 4 "[0x45, 0, 0, 0x14]"] by auto

text \<open>
  C21. A packet built by \<open>ip_send\<close> passes all checks of \<open>ip_receive\<close> at the host it is addressed to:
  version, header checksum (over exactly the bytes that were sent) and address, whatever the payload. An ICMP payload is
  handed on unchanged, with its length and the sender's address.
\<close>

theorem ip_send_receive:
  assumes snd: "ip_send dst proto (Some d) len s = Inr (0, frame)" and me: "local_ip r = dst"
  shows "\<exists>p1. length frame = 34 + unat len \<and> drop 34 frame = take (unat len) d \<and>
    ip_receive (Some (drop 14 frame)) (20 + len) r =
      (if proto = IP_PROTO_ICMP then rbind (icmp_receive (Some (take (unat len) d)) len (local_ip s) r) (\<lambda>(q, f). Inr (q, p1, f))
       else Inr (0, p1, []))"
proof -
  obtain h where h: "net_build_ip (local_ip s) dst proto len = Inr h" "ver_ihl h = 0x45" "protocol h = proto"
    "src_ip h = net_htonl (local_ip s)" "dst_ip h = net_htonl dst"
    "net_checksum (ip_bytes (h\<lparr>ip_checksum := 0\<rparr>)) 20 = Inr (ip_checksum h)"
    by (rule net_build_ip_spec)
  let ?e = "eth_bytes (net_build_eth [0xFF, 0xFF, 0xFF, 0xFF, 0xFF, 0xFF] [0x52, 0x54, 0x00, 0x12, 0x34, 0x56] ETHERTYPE_IP)"
  have e: "length ?e = 14" by (simp add: eth_bytes_def net_build_eth_def le16_def)
  have fr: "frame = ?e @ ip_bytes h @ take (unat len) d" "unat len + 34 \<le> NET_MAX_PACKET" "unat len \<le> length d"
    using snd h(1) by (auto simp: ip_send_def split: if_splits)
  let ?p = "ip_bytes h @ take (unat len) d"
  let ?p1 = "ip_bytes (h\<lparr>ip_checksum := 0\<rparr>) @ take (unat len) d"
  have dr: "drop 14 frame = ?p" "drop 34 frame = take (unat len) d" "length frame = 34 + unat len"
    using e ip_bytes_fields(1) fr(3) by (simp_all add: fr(1))
  have l: "unat (20 + len) = 20 + unat len" using fr(2) by (subst unat_add_small) (simp_all add: NET_MAX_PACKET_def)
  have v: "drop_bit 4 (?p ! 0) AND 0x0F = 4" "unat (?p ! 0 AND 0x0F) = 5"
    using h(2) ip_bytes_fields(1,2) [of h] by (simp_all add: nth_append)
  have c: "net_checksum ?p1 20 = Inr (ip_checksum h)"
    using net_checksum_prefix [of 20 "ip_bytes (h\<lparr>ip_checksum := 0\<rparr>)"] ip_bytes_fields(1) h(6) by simp
  have pr: "?p1 ! 9 = proto" using ip_bytes_fields(1,3) [of "h\<lparr>ip_checksum := 0\<rparr>"] h(3) by (simp add: nth_append)
  have "rd32 ?p1 12 = net_htonl (local_ip s)" "rd32 ?p1 16 = net_htonl dst" "drop 20 ?p1 = take (unat len) d"
    using ip_bytes_fields(1,5,6) [of "h\<lparr>ip_checksum := 0\<rparr>"] h(4,5) by simp_all
  then have "ip_receive (Some ?p) (20 + len) r =
      (if proto = IP_PROTO_ICMP then rbind (icmp_receive (Some (take (unat len) d)) len (local_ip s) r) (\<lambda>(q, f). Inr (q, ?p1, f))
       else Inr (0, ?p1, []))"
    using me c v pr l ip_bytes_fields(1,4,7) [of h]
    by (simp add: ip_receive_def Let_def net_ntohl_def del: nth_append)
  then show ?thesis using dr by (intro exI [of _ ?p1]) (simp only:)
qed

theorem ip_send_receive_witness:
  "\<exists>frame p1. ip_send 0x0A000002 17 (Some [1, 2, 3]) 3 \<lparr>routes = [], local_ip = 0x0A000001\<rparr> = Inr (0, frame) \<and>
     ip_receive (Some (drop 14 frame)) 23 \<lparr>routes = [], local_ip = 0x0A000002\<rparr> = Inr (0, p1, [])"
proof -
  obtain h where h: "net_build_ip 0x0A000001 0x0A000002 17 3 = Inr h" by (rule net_build_ip_spec)
  then obtain frame where f: "ip_send 0x0A000002 17 (Some [1, 2, 3]) 3 \<lparr>routes = [], local_ip = 0x0A000001\<rparr> = Inr (0, frame)"
    by (simp add: ip_send_def NET_MAX_PACKET_def)
  show ?thesis using f ip_send_receive [OF f, of "\<lparr>routes = [], local_ip = 0x0A000002\<rparr>"] by (auto simp: IP_PROTO_ICMP_def)
qed

text \<open>The cache as a map from addresses to MAC addresses.\<close>

definition arp_map :: "arp_entry list \<Rightarrow> u32 \<Rightarrow> u8 list option" where
  "arp_map c ip = map_option (\<lambda>i. ar_mac (c ! i)) (arp_find_entry ip c)"

definition arp_ok :: "arp_entry list \<Rightarrow> bool" where
  "arp_ok c \<longleftrightarrow> length c = ARP_CACHE_SIZE \<and>
     (\<forall>i < length c. \<forall>j < length c. ar_valid (c ! i) \<longrightarrow> ar_valid (c ! j) \<longrightarrow> ar_ip (c ! i) = ar_ip (c ! j) \<longrightarrow> i = j)"

lemma arp_map_Some:
  assumes "arp_ok c"
  shows "arp_map c ip = Some m \<longleftrightarrow> (\<exists>i < length c. ar_valid (c ! i) \<and> ar_ip (c ! i) = ip \<and> ar_mac (c ! i) = m)"
proof
  assume "arp_map c ip = Some m"
  then obtain i where "arp_find_entry ip c = Some i" "m = ar_mac (c ! i)" by (auto simp: arp_map_def)
  then show "\<exists>i < length c. ar_valid (c ! i) \<and> ar_ip (c ! i) = ip \<and> ar_mac (c ! i) = m"
    using first_idx_less first_idx_hit unfolding arp_find_entry_def by fastforce
next
  assume "\<exists>i < length c. ar_valid (c ! i) \<and> ar_ip (c ! i) = ip \<and> ar_mac (c ! i) = m"
  then obtain i where i: "i < length c" "ar_valid (c ! i)" "ar_ip (c ! i) = ip" "ar_mac (c ! i) = m" by blast
  then obtain j where j: "arp_find_entry ip c = Some j"
    using first_idx_exists [of "c ! i" c "\<lambda>e. ar_valid e \<and> ar_ip e = ip"] by (auto simp: arp_find_entry_def)
  then have "j < length c" "ar_valid (c ! j)" "ar_ip (c ! j) = ip"
    using first_idx_less first_idx_hit unfolding arp_find_entry_def by fastforce+
  then have "j = i" using assms i unfolding arp_ok_def by blast
  then show "arp_map c ip = Some m" using j i by (simp add: arp_map_def)
qed

lemma arp_put:
  assumes ok: "arp_ok c" and k: "k < length c" and other: "\<forall>j < length c. ar_valid (c ! j) \<longrightarrow> ar_ip (c ! j) = ip \<longrightarrow> j = k"
    and c': "c' = c[k := \<lparr>ar_ip = ip, ar_mac = mac, ar_valid = True\<rparr>]"
  shows "arp_ok c'" "arp_map c' x = (if x = ip then Some mac else if ar_valid (c ! k) \<and> ar_ip (c ! k) = x then None else arp_map c x)"
proof -
  have nth: "c' ! j = (if j = k then \<lparr>ar_ip = ip, ar_mac = mac, ar_valid = True\<rparr> else c ! j)" if "j < length c" for j
    using that k by (simp add: c' nth_list_update)
  have len: "length c' = length c" by (simp add: c')
  have ck: "ar_ip (c' ! k) = ip" "ar_mac (c' ! k) = mac" "ar_valid (c' ! k)" using nth [OF k] by simp_all
  have only: "l = k" if "l < length c" "ar_valid (c' ! l)" "ar_ip (c' ! l) = ip" for l
    using that other nth [of l] by (cases "l = k") auto
  show ok': "arp_ok c'"
    unfolding arp_ok_def len
  proof (intro conjI allI impI)
    show "length c = ARP_CACHE_SIZE" using ok by (simp add: arp_ok_def)
    fix i j assume ij: "i < length c" "j < length c" and v: "ar_valid (c' ! i)" "ar_valid (c' ! j)" "ar_ip (c' ! i) = ar_ip (c' ! j)"
    show "i = j"
    proof (cases "i = k \<or> j = k")
      case True
      then show ?thesis using only v ij ck by metis
    next
      case False
      then show ?thesis using v ij ok nth unfolding arp_ok_def by metis
    qed
  qed
  have hit: "arp_map c' x = Some m \<longleftrightarrow> (\<exists>i < length c. ar_valid (c' ! i) \<and> ar_ip (c' ! i) = x \<and> ar_mac (c' ! i) = m)" for m
    using arp_map_Some [OF ok', of x m] unfolding len .
  have "arp_map c' x = Some m \<longleftrightarrow>
      (if x = ip then Some mac else if ar_valid (c ! k) \<and> ar_ip (c ! k) = x then None else arp_map c x) = Some m" for m
  proof (cases "x = ip")
    case True
    have "(\<exists>i < length c. ar_valid (c' ! i) \<and> ar_ip (c' ! i) = ip \<and> ar_mac (c' ! i) = m) \<longleftrightarrow> mac = m"
      using only ck k by metis
    then show ?thesis using True unfolding hit by simp
  next
    case False
    have "(\<exists>i < length c. ar_valid (c' ! i) \<and> ar_ip (c' ! i) = x \<and> ar_mac (c' ! i) = m) \<longleftrightarrow>
        (\<exists>i < length c. i \<noteq> k \<and> ar_valid (c ! i) \<and> ar_ip (c ! i) = x \<and> ar_mac (c ! i) = m)"
      using False by (metis (no_types, lifting) nth arp_entry.select_convs(1))
    also have "\<dots> \<longleftrightarrow> \<not> (ar_valid (c ! k) \<and> ar_ip (c ! k) = x) \<and> arp_map c x = Some m"
      using ok k unfolding arp_map_Some [OF ok] arp_ok_def by blast
    finally show ?thesis using False unfolding hit by simp
  qed
  then show "arp_map c' x = (if x = ip then Some mac else if ar_valid (c ! k) \<and> ar_ip (c ! k) = x then None else arp_map c x)"
    by (metis option.exhaust)
qed

text \<open>
  The ARP cache is a bounded map. A reply binds the sender's address to its MAC address
  whatever the cache held before; every other binding is kept, except that a full cache without the
  sender loses its first entry.
\<close>

theorem arp_reply_binds:
  assumes ok: "arp_ok (arp_cache s)" and p: "28 \<le> length p" "28 \<le> unat len" "net_ntohs (rd16 p 6) = ARP_OP_REPLY"
  shows "\<exists>t. arp_receive (Some p) len s = Inr t \<and> arp_ok (arp_cache t) \<and>
    (\<forall>x. arp_map (arp_cache t) x =
       (if x = net_ntohl (rd32 p 14) then Some (take 6 (drop 8 p))
        else if arp_map (arp_cache s) (net_ntohl (rd32 p 14)) = None \<and> (\<forall>e \<in> set (arp_cache s). ar_valid e) \<and> x = ar_ip (arp_cache s ! 0)
        then None else arp_map (arp_cache s) x))"
proof -
  let ?c = "arp_cache s"
  let ?ip = "net_ntohl (rd32 p 14)"
  let ?mac = "take 6 (drop 8 p)"
  define k where "k = (case arp_find_entry ?ip ?c of Some i \<Rightarrow> i
    | None \<Rightarrow> (case first_idx (\<lambda>e. \<not> ar_valid e) ?c of Some i \<Rightarrow> i | None \<Rightarrow> 0))"
  have len: "length ?c = 16" using ok by (simp add: arp_ok_def ARP_CACHE_SIZE_def)
  have r: "arp_receive (Some p) len s = Inr (s\<lparr>arp_cache := ?c[k := \<lparr>ar_ip = ?ip, ar_mac = ?mac, ar_valid = True\<rparr>]\<rparr>)"
    using p by (simp add: arp_receive_def arp_add_entry_def Let_def k_def)
  have kl: "k < length ?c" and o: "\<forall>j < length ?c. ar_valid (?c ! j) \<longrightarrow> ar_ip (?c ! j) = ?ip \<longrightarrow> j = k"
    and ev: "ar_valid (?c ! k) \<Longrightarrow> ar_ip (?c ! k) = ?ip \<or> arp_map ?c ?ip = None \<and> (\<forall>e \<in> set ?c. ar_valid e) \<and> k = 0"
    and fl: "arp_map ?c ?ip = None \<Longrightarrow> \<forall>e \<in> set ?c. ar_valid e \<Longrightarrow> k = 0 \<and> ar_valid (?c ! 0)"
  proof -
    have "k < length ?c \<and> (\<forall>j < length ?c. ar_valid (?c ! j) \<longrightarrow> ar_ip (?c ! j) = ?ip \<longrightarrow> j = k) \<and>
      (ar_valid (?c ! k) \<longrightarrow> ar_ip (?c ! k) = ?ip \<or> arp_map ?c ?ip = None \<and> (\<forall>e \<in> set ?c. ar_valid e) \<and> k = 0) \<and>
      (arp_map ?c ?ip = None \<and> (\<forall>e \<in> set ?c. ar_valid e) \<longrightarrow> k = 0 \<and> ar_valid (?c ! 0))"
    proof (cases "arp_find_entry ?ip ?c")
      case (Some i)
      then have i: "k = i" "i < length ?c" "ar_valid (?c ! i)" "ar_ip (?c ! i) = ?ip"
        using first_idx_less first_idx_hit unfolding arp_find_entry_def by (fastforce simp: k_def arp_find_entry_def)+
      moreover have "\<forall>j < length ?c. ar_valid (?c ! j) \<longrightarrow> ar_ip (?c ! j) = ?ip \<longrightarrow> j = i" using ok i unfolding arp_ok_def by metis
      moreover have "arp_map ?c ?ip \<noteq> None" using Some by (simp add: arp_map_def)
      ultimately show ?thesis by metis
    next
      case None
      then have none: "\<forall>e \<in> set ?c. \<not> (ar_valid e \<and> ar_ip e = ?ip)" unfolding arp_find_entry_def by (simp only: first_idx_None_iff)
      then have o: "\<forall>j < length ?c. ar_valid (?c ! j) \<longrightarrow> ar_ip (?c ! j) = ?ip \<longrightarrow> j = k" by simp
      have m: "arp_map ?c ?ip = None" using None by (simp add: arp_map_def)
      show ?thesis
      proof (cases "first_idx (\<lambda>e. \<not> ar_valid e) ?c")
        case (Some i)
        then have i: "k = i" "i < length ?c" "\<not> ar_valid (?c ! i)"
          using None first_idx_less [OF Some] first_idx_hit [OF Some] by (auto simp: k_def)
        then show ?thesis using o m nth_mem by metis
      next
        case full: None
        then have "k = 0" using None by (simp add: k_def)
        moreover have "\<forall>e \<in> set ?c. ar_valid e" using full by (simp add: first_idx_None_iff)
        moreover have "?c ! 0 \<in> set ?c" using len by simp
        ultimately show ?thesis using o m len by (metis zero_less_numeral)
      qed
    qed
    then show "k < length ?c" "\<forall>j < length ?c. ar_valid (?c ! j) \<longrightarrow> ar_ip (?c ! j) = ?ip \<longrightarrow> j = k"
      "ar_valid (?c ! k) \<Longrightarrow> ar_ip (?c ! k) = ?ip \<or> arp_map ?c ?ip = None \<and> (\<forall>e \<in> set ?c. ar_valid e) \<and> k = 0"
      "arp_map ?c ?ip = None \<Longrightarrow> \<forall>e \<in> set ?c. ar_valid e \<Longrightarrow> k = 0 \<and> ar_valid (?c ! 0)" by blast+
  qed
  let ?t = "s\<lparr>arp_cache := ?c[k := \<lparr>ar_ip = ?ip, ar_mac = ?mac, ar_valid = True\<rparr>]\<rparr>"
  have "arp_ok (arp_cache ?t)" using arp_put(1) [OF ok kl o refl] by simp
  moreover have "arp_map (arp_cache ?t) x = (if x = ?ip then Some ?mac
      else if arp_map ?c ?ip = None \<and> (\<forall>e \<in> set ?c. ar_valid e) \<and> x = ar_ip (?c ! 0) then None else arp_map ?c x)" for x
  proof -
    have "arp_map (arp_cache ?t) x = (if x = ?ip then Some ?mac else if ar_valid (?c ! k) \<and> ar_ip (?c ! k) = x then None else arp_map ?c x)"
      using arp_put(2) [OF ok kl o refl] by simp
    then show ?thesis using ev fl by metis
  qed
  ultimately show ?thesis using r by blast
qed

definition arp_reply_example :: "u8 list" where
  "arp_reply_example = [0, 1, 8, 0, 6, 4, 0, 2, 1, 2, 3, 4, 5, 6, 10, 0, 0, 7, 0, 0, 0, 0, 0, 0, 0, 0, 0, 0]"

theorem arp_reply_binds_witness:
  "\<exists>t. arp_receive (Some arp_reply_example) 28 (arp_init \<lparr>arp_cache = [], arp_local_mac = [], arp_local_ip = 0\<rparr>) = Inr t \<and>
     arp_map (arp_cache t) 0x0A000007 = Some [1, 2, 3, 4, 5, 6]"
proof -
  let ?s = "arp_init \<lparr>arp_cache = [], arp_local_mac = [], arp_local_ip = 0\<rparr>"
  have unat_numeral_28: "28 \<le> unat (28 :: u16)" by simp
  have "arp_ok (arp_cache ?s)" by (simp add: arp_ok_def arp_init_def)
  moreover have "net_ntohl (rd32 arp_reply_example 14) = 0x0A000007" "net_ntohs (rd16 arp_reply_example 6) = ARP_OP_REPLY"
    by (simp_all add: arp_reply_example_def rd32_def rd16_def net_ntohl_def net_htonl_def net_ntohs_def net_htons_def ARP_OP_REPLY_def)
  moreover have "28 \<le> length arp_reply_example" "take 6 (drop 8 arp_reply_example) = [1, 2, 3, 4, 5, 6]" by (simp_all add: arp_reply_example_def)
  ultimately show ?thesis using arp_reply_binds [of ?s arp_reply_example 28] unat_numeral_28 by metis
qed

text \<open>
  The answer to an echo request is itself an echo request: the type byte of the ICMP packet
  that \<open>icmp_receive\<close> sends back is 8, never 0, so no host ever gets an echo reply.
\<close>

theorem icmp_answers_with_request:
  assumes "8 \<le> length d" "8 \<le> unat len" "d ! 0 = ICMP_ECHO_REQUEST"
  shows "\<exists>frame. icmp_receive (Some d) len src s = Inr (0, frame) \<and> frame ! 34 = ICMP_ECHO_REQUEST"
proof -
  let ?pl = "cstr ''MadarOS''"
  let ?i = "net_ntohs (rd16 d 4)" and ?q = "net_ntohs (rd16 d 6)"
  have pl: "length ?pl = 7" by (simp add: cstr_def)
  let ?h = "\<lparr>icmp_type = ICMP_ECHO_REQUEST, icmp_code = 0, icmp_checksum = 0, icmp_id = net_htons ?i, icmp_sequence = net_htons ?q\<rparr>"
  have "unat (15 :: u16) \<le> length (icmp_bytes ?h @ take 7 ?pl)" using pl by (simp add: icmp_bytes_def le16_def)
  then obtain k where "net_checksum (icmp_bytes ?h @ take 7 ?pl) 15 = Inr k" using net_checksum_spec by blast
  then obtain c where c: "net_build_icmp_echo ?i ?q (Some ?pl) 7 = Inr c" "icmp_type c = ICMP_ECHO_REQUEST"
    using pl by (simp add: net_build_icmp_echo_def Let_def NET_MAX_PACKET_def)
  obtain h where h: "net_build_ip (local_ip s) src IP_PROTO_ICMP 15 = Inr h" by (rule net_build_ip_spec)
  let ?e = "eth_bytes (net_build_eth [0xFF, 0xFF, 0xFF, 0xFF, 0xFF, 0xFF] [0x52, 0x54, 0x00, 0x12, 0x34, 0x56] ETHERTYPE_IP)"
  have e: "length ?e = 14" by (simp add: eth_bytes_def net_build_eth_def le16_def)
  have "icmp_receive (Some d) len src s = Inr (0, ?e @ ip_bytes h @ take 15 (icmp_bytes c @ ?pl))"
    using assms c(1) h pl by (simp add: icmp_receive_def icmp_send_echo_def Let_def ip_send_def NET_MAX_PACKET_def icmp_bytes_def le16_def)
  moreover have "(?e @ ip_bytes h @ take 15 (icmp_bytes c @ ?pl)) ! 34 = icmp_type c"
    using e ip_bytes_fields(1) by (simp add: nth_append icmp_bytes_def)
  ultimately show ?thesis using c(2) by metis
qed

theorem icmp_answers_with_request_witness:
  "\<exists>frame. icmp_receive (Some [8, 0, 0, 0, 0, 1, 0, 1]) 8 0x0A000001 \<lparr>routes = [], local_ip = 0x0A000002\<rparr> = Inr (0, frame) \<and>
     frame ! 34 = ICMP_ECHO_REQUEST"
  by (rule icmp_answers_with_request) (simp_all add: ICMP_ECHO_REQUEST_def)

end
