(* ===== verification/Fat32.thy ===== *)
theory Fat32
  imports Vfs Bytes
begin

text \<open>
  The FAT32 reader of \<^verbatim>\<open>src/services/fat32.c\<close> and \<^verbatim>\<open>src/services/fat_dir.c\<close> over the sector interface of
  \<^verbatim>\<open>src/services/disk_io.c\<close>. The disk is an argument: the result of the ATA driver's read of a
  sector, \<open>None\<close> when it reports an error (the driver only moves bytes through I/O ports). A loop along a
  cluster chain need not end when the chain is cyclic: those loops are partial functions and a call
  that does not return is \<open>Spin\<close>. A division by zero is \<open>Fault\<close>.
\<close>

type_synonym disk = "u32 \<Rightarrow> u8 list option"

section \<open>Sectors\<close>

definition SECTOR_SIZE :: nat where "SECTOR_SIZE = 512"
definition FAT32_SECTOR_SIZE :: u32 where "FAT32_SECTOR_SIZE = 512"
definition FAT32_ENTRY_SIZE :: nat where "FAT32_ENTRY_SIZE = 32"

definition disk_io_read_sector :: "disk \<Rightarrow> u32 \<Rightarrow> u8 list option" where
  "disk_io_read_sector dk lba = dk lba"

fun read_run :: "disk \<Rightarrow> u32 \<Rightarrow> nat \<Rightarrow> u8 list option" where
  "read_run dk lba 0 = Some []"
| "read_run dk lba (Suc n) =
     (case dk lba of None \<Rightarrow> None
      | Some s \<Rightarrow> (case read_run dk (lba + 1) n of None \<Rightarrow> None | Some r \<Rightarrow> Some (s @ r)))"

definition disk_io_read_sectors :: "disk \<Rightarrow> u32 \<Rightarrow> u32 \<Rightarrow> u8 list option" where
  "disk_io_read_sectors dk lba cnt = (if cnt = 0 then None else read_run dk lba (unat cnt))"

section \<open>Mounting and the cluster chain\<close>

text \<open>The fields of the boot sector the driver reads, at their offsets in the packed structure.\<close>

record fat32_bpb =
  bytes_per_sector :: u16
  sectors_per_cluster :: u8
  reserved_sector_count :: u16
  table_count :: u8
  total_sectors_32 :: u32
  table_size_32 :: u32
  root_cluster :: u32

definition parse_bpb :: "u8 list \<Rightarrow> fat32_bpb" where
  "parse_bpb b = \<lparr>bytes_per_sector = rd16 b 11, sectors_per_cluster = b ! 13, reserved_sector_count = rd16 b 14,
     table_count = b ! 16, total_sectors_32 = rd32 b 32, table_size_32 = rd32 b 36, root_cluster = rd32 b 44\<rparr>"

record fat32_ctx =
  bpb :: fat32_bpb
  fat_start :: u32
  data_start :: u32
  total_clusters :: u32
  sectors_per_fat :: u32
  mounted :: bool

record fat32 =
  fctx :: fat32_ctx
  fheap :: heap

definition fat32_ctx0 :: fat32_ctx where
  "fat32_ctx0 = \<lparr>bpb = \<lparr>bytes_per_sector = 0, sectors_per_cluster = 0, reserved_sector_count = 0, table_count = 0,
     total_sectors_32 = 0, table_size_32 = 0, root_cluster = 0\<rparr>, fat_start = 0, data_start = 0, total_clusters = 0,
     sectors_per_fat = 0, mounted = False\<rparr>"

definition fat32_init :: "fat32 \<Rightarrow> fat32" where
  "fat32_init s = s\<lparr>fctx := fat32_ctx0\<rparr>"

definition fat32_mount :: "disk \<Rightarrow> fat32 \<Rightarrow> (int \<times> fat32) res" where
  "fat32_mount dk s =
     (case disk_io_read_sector dk 0 of None \<Rightarrow> Inr (-1, s)
      | Some sector \<Rightarrow>
          let b = parse_bpb sector;
              fs = ucast (reserved_sector_count b);
              spf = table_size_32 b;
              ds = fs + ucast (table_count b) * spf
          in if sectors_per_cluster b = 0 then Inl Fault
             else Inr (0, s\<lparr>fctx := \<lparr>bpb = b, fat_start = fs, data_start = ds,
                    total_clusters = (total_sectors_32 b - ds) div ucast (sectors_per_cluster b), sectors_per_fat = spf, mounted = True\<rparr>\<rparr>))"

definition fat32_next_cluster :: "disk \<Rightarrow> fat32_ctx \<Rightarrow> u32 \<Rightarrow> u32" where
  "fat32_next_cluster dk c cluster =
     (if \<not> mounted c \<or> cluster < 2 then 0
      else let fat_offset = cluster * 4;
               fat_sector = fat_start c + fat_offset div FAT32_SECTOR_SIZE;
               entry_offset = fat_offset mod FAT32_SECTOR_SIZE
           in case disk_io_read_sector dk fat_sector of None \<Rightarrow> 0xFFFFFFFF
              | Some sector \<Rightarrow>
                  let nxt = rd32 sector (unat entry_offset) AND 0x0FFFFFFF in if nxt \<ge> 0x0FFFFFF8 then 0 else nxt)"

definition cluster_size :: "fat32_ctx \<Rightarrow> u32" where
  "cluster_size c = ucast (sectors_per_cluster (bpb c)) * FAT32_SECTOR_SIZE"

definition fat32_read_cluster :: "disk \<Rightarrow> fat32_ctx \<Rightarrow> u32 \<Rightarrow> u8 list option" where
  "fat32_read_cluster dk c cluster =
     (if \<not> mounted c \<or> cluster < 2 then None
      else disk_io_read_sectors dk (data_start c + (cluster - 2) * ucast (sectors_per_cluster (bpb c)))
             (ucast (sectors_per_cluster (bpb c))))"

section \<open>Reading a file\<close>

fun skip_clusters :: "disk \<Rightarrow> fat32_ctx \<Rightarrow> nat \<Rightarrow> u32 \<Rightarrow> u32" where
  "skip_clusters dk c 0 cluster = cluster"
| "skip_clusters dk c (Suc n) cluster =
     (if cluster \<ge> 2 then skip_clusters dk c n (fat32_next_cluster dk c cluster) else cluster)"

text \<open>The copy loop: the bytes copied so far, and whether every cluster could be read.\<close>

partial_function (option) read_loop :: "disk \<Rightarrow> fat32_ctx \<Rightarrow> u32 \<Rightarrow> u32 \<Rightarrow> u32 \<Rightarrow> u8 list \<Rightarrow> (bool \<times> u8 list) option" where
  "read_loop dk c cluster cluster_offset len out =
     (if len > 0 \<and> cluster \<ge> 2 then
        (case fat32_read_cluster dk c cluster of None \<Rightarrow> Some (False, out)
         | Some cluster_buf \<Rightarrow>
             let avail = cluster_size c - cluster_offset;
                 to_copy = (if avail > len then len else avail)
             in read_loop dk c (fat32_next_cluster dk c cluster) 0 (len - to_copy)
                  (out @ take (unat to_copy) (drop (unat cluster_offset) cluster_buf)))
      else Some (True, out))"

definition fat32_read_file :: "disk \<Rightarrow> u32 \<Rightarrow> u32 \<Rightarrow> bool \<Rightarrow> u32 \<Rightarrow> fat32 \<Rightarrow> (int \<times> u8 list \<times> fat32) res" where
  "fat32_read_file dk start_cluster offset null_buf len s =
     (if \<not> mounted (fctx s) \<or> null_buf \<or> len = 0 then Inr (-1, [], s)
      else let cs = cluster_size (fctx s) in
        if cs = 0 then Inl Fault
        else let cluster = skip_clusters dk (fctx s) (unat (offset div cs)) start_cluster in
          if cluster < 2 then Inr (-1, [], s)
          else rbind (kmalloc (ucast cs) (fheap s)) (\<lambda>(p, h).
            if p = 0 then Inr (-1, [], s\<lparr>fheap := h\<rparr>)
            else case read_loop dk (fctx s) cluster (offset mod cs) len [] of None \<Rightarrow> Inl Spin
              | Some (ok, out) \<Rightarrow>
                  rbind (kfree p h) (\<lambda>h1. Inr (if ok then sint (of_nat (length out) :: u32) else -1, out, s\<lparr>fheap := h1\<rparr>))))"

section \<open>Directories\<close>

record fat32_dentry =
  de_name :: "u8 list"
  de_attr :: u8
  fst_clus_hi :: u16
  fst_clus_lo :: u16
  file_size :: u32

definition parse_dentry :: "u8 list \<Rightarrow> fat32_dentry" where
  "parse_dentry b = \<lparr>de_name = take 11 b, de_attr = b ! 11, fst_clus_hi = rd16 b 20, fst_clus_lo = rd16 b 26, file_size = rd32 b 28\<rparr>"

text \<open>The entries of a cluster, 32 bytes each.\<close>

definition dir_entries :: "fat32_ctx \<Rightarrow> u8 list \<Rightarrow> fat32_dentry list" where
  "dir_entries c buf = map (\<lambda>k. parse_dentry (drop (FAT32_ENTRY_SIZE * k) buf)) [0..<unat (cluster_size c) div FAT32_ENTRY_SIZE]"

definition fat32_trim_name :: "u8 list \<Rightarrow> u8 list" where
  "fat32_trim_name name =
     takeWhile ((\<noteq>) 32) (take 8 name) @ (if name ! 8 \<noteq> 32 then 46 # takeWhile ((\<noteq>) 32) (take 3 (drop 8 name)) else [])"

definition entry_hidden :: "fat32_dentry \<Rightarrow> bool" where
  "entry_hidden e \<longleftrightarrow> de_name e ! 0 = 0xE5 \<or> de_attr e = 0x0F \<or> de_attr e AND 0x08 \<noteq> 0"

datatype 'a scan = Found 'a | Finished | More nat

fun list_scan :: "nat \<Rightarrow> fat32_dentry list \<Rightarrow> u8 list list \<Rightarrow> bool \<times> u8 list list" where
  "list_scan m [] out = (False, out)"
| "list_scan m (e # es) out =
     (if de_name e ! 0 = 0 then (True, out)
      else if entry_hidden e then list_scan m es out
      else let out' = out @ [fat32_trim_name (de_name e)] in if length out' \<ge> m then (False, out') else list_scan m es out')"

partial_function (option) list_loop :: "disk \<Rightarrow> fat32_ctx \<Rightarrow> nat \<Rightarrow> u32 \<Rightarrow> u8 list list \<Rightarrow> u8 list list option" where
  "list_loop dk c m cluster out =
     (if cluster \<ge> 2 \<and> length out < m then
        (case fat32_read_cluster dk c cluster of None \<Rightarrow> Some out
         | Some buf \<Rightarrow>
             (case list_scan m (dir_entries c buf) out of (fin, out') \<Rightarrow>
                if fin then Some out' else list_loop dk c m (fat32_next_cluster dk c cluster) out'))
      else Some out)"

text \<open>The buffer for a cluster is allocated before the loop and released after it.\<close>

definition with_cluster_buf :: "'a option \<Rightarrow> 'a \<Rightarrow> fat32 \<Rightarrow> ('a \<times> fat32) res" where
  "with_cluster_buf body nomem s =
     rbind (kmalloc (ucast (cluster_size (fctx s))) (fheap s)) (\<lambda>(p, h).
       if p = 0 then Inr (nomem, s\<lparr>fheap := h\<rparr>)
       else case body of None \<Rightarrow> Inl Spin | Some x \<Rightarrow> rbind (kfree p h) (\<lambda>h1. Inr (x, s\<lparr>fheap := h1\<rparr>)))"

definition fat32_list_root :: "disk \<Rightarrow> bool \<Rightarrow> int \<Rightarrow> fat32 \<Rightarrow> ((int \<times> u8 list list) \<times> fat32) res" where
  "fat32_list_root dk null_out max_entries s =
     (if \<not> mounted (fctx s) \<or> null_out \<or> max_entries \<le> 0 then Inr ((-1, []), s)
      else with_cluster_buf
        (map_option (\<lambda>out. (int (length out), out)) (list_loop dk (fctx s) (nat max_entries) (root_cluster (bpb (fctx s))) [])) (-1, []) s)"

fun idx_scan :: "nat \<Rightarrow> nat \<Rightarrow> fat32_dentry list \<Rightarrow> fat32_dentry scan" where
  "idx_scan i cur [] = More cur"
| "idx_scan i cur (e # es) =
     (if de_name e ! 0 = 0 then Finished else if entry_hidden e then idx_scan i cur es
      else if cur = i then Found e else idx_scan i (cur + 1) es)"

partial_function (option) idx_loop :: "disk \<Rightarrow> fat32_ctx \<Rightarrow> nat \<Rightarrow> nat \<Rightarrow> u32 \<Rightarrow> fat32_dentry option option" where
  "idx_loop dk c i cur cluster =
     (if cluster \<ge> 2 then
        (case fat32_read_cluster dk c cluster of None \<Rightarrow> Some None
         | Some buf \<Rightarrow>
             (case idx_scan i cur (dir_entries c buf) of
                Found e \<Rightarrow> Some (Some e) | Finished \<Rightarrow> Some None
              | More cur' \<Rightarrow> idx_loop dk c i cur' (fat32_next_cluster dk c cluster)))
      else Some None)"

definition status_of :: "'a option \<Rightarrow> int \<times> 'a option" where
  "status_of r = (if r = None then -1 else 0, r)"

definition fat32_readdir :: "disk \<Rightarrow> u32 \<Rightarrow> u32 \<Rightarrow> bool \<Rightarrow> fat32 \<Rightarrow> ((int \<times> fat32_dentry option) \<times> fat32) res" where
  "fat32_readdir dk dir_cluster idx null_out s =
     (if null_out then Inr ((-1, None), s)
      else with_cluster_buf (map_option status_of (idx_loop dk (fctx s) (unat idx) 0 dir_cluster)) (-1, None) s)"

text \<open>The lookup compares with \<open>strcmp\<close>, which stops at a zero byte; it skips no volume label.\<close>

fun name_scan :: "u8 list \<Rightarrow> fat32_dentry list \<Rightarrow> fat32_dentry scan" where
  "name_scan nm [] = More 0"
| "name_scan nm (e # es) =
     (if de_name e ! 0 = 0 then Finished
      else if de_name e ! 0 = 0xE5 \<or> de_attr e = 0x0F then name_scan nm es
      else if takeWhile ((\<noteq>) 0) (fat32_trim_name (de_name e)) = nm then Found e else name_scan nm es)"

partial_function (option) name_loop :: "disk \<Rightarrow> fat32_ctx \<Rightarrow> u8 list \<Rightarrow> u32 \<Rightarrow> fat32_dentry option option" where
  "name_loop dk c nm cluster =
     (if cluster \<ge> 2 then
        (case fat32_read_cluster dk c cluster of None \<Rightarrow> Some None
         | Some buf \<Rightarrow>
             (case name_scan nm (dir_entries c buf) of
                Found e \<Rightarrow> Some (Some e) | Finished \<Rightarrow> Some None
              | More _ \<Rightarrow> name_loop dk c nm (fat32_next_cluster dk c cluster)))
      else Some None)"

definition fat32_lookup :: "disk \<Rightarrow> u32 \<Rightarrow> u8 list option \<Rightarrow> bool \<Rightarrow> fat32 \<Rightarrow> ((int \<times> fat32_dentry option) \<times> fat32) res" where
  "fat32_lookup dk dir_cluster name null_out s =
     (case name of None \<Rightarrow> Inr ((-1, None), s)
      | Some nm \<Rightarrow> if null_out then Inr ((-1, None), s)
                  else with_cluster_buf (map_option status_of (name_loop dk (fctx s) nm dir_cluster)) (-1, None) s)"

section \<open>The chain as a list\<close>

text \<open>Sectors have 512 bytes.\<close>

definition disk_ok :: "disk \<Rightarrow> bool" where
  "disk_ok dk \<longleftrightarrow> (\<forall>lba b. dk lba = Some b \<longrightarrow> length b = SECTOR_SIZE)"

text \<open>The clusters of a file, all readable, up to the end mark.\<close>

fun chain :: "disk \<Rightarrow> fat32_ctx \<Rightarrow> u32 \<Rightarrow> u32 list \<Rightarrow> bool" where
  "chain dk c cl [] \<longleftrightarrow> cl < 2"
| "chain dk c cl (x # xs) \<longleftrightarrow> cl = x \<and> 2 \<le> x \<and> fat32_read_cluster dk c x \<noteq> None \<and> chain dk c (fat32_next_cluster dk c x) xs"

definition chain_data :: "disk \<Rightarrow> fat32_ctx \<Rightarrow> u32 list \<Rightarrow> u8 list" where
  "chain_data dk c cls = concat (map (\<lambda>x. the (fat32_read_cluster dk c x)) cls)"

lemma read_run_length: "disk_ok dk \<Longrightarrow> read_run dk lba n = Some r \<Longrightarrow> length r = 512 * n"
  by (induction n arbitrary: lba r) (auto simp: disk_ok_def SECTOR_SIZE_def split: option.splits)

lemma unat_cluster_size: "unat (cluster_size c) = 512 * unat (sectors_per_cluster (bpb c))"
proof -
  have b: "unat (sectors_per_cluster (bpb c)) < 2 ^ LENGTH(8)" by (rule unsigned_less)
  then have "unat (ucast (sectors_per_cluster (bpb c)) :: u32) = unat (sectors_per_cluster (bpb c))"
    by (simp add: unsigned_ucast_eq take_bit_eq_mod)
  with b show ?thesis by (simp add: cluster_size_def FAT32_SECTOR_SIZE_def unat_mult_lem [THEN iffD1])
qed

lemma read_cluster_length:
  assumes "disk_ok dk" "fat32_read_cluster dk c x = Some b"
  shows "length b = unat (cluster_size c)"
proof -
  have b: "unat (sectors_per_cluster (bpb c)) < 2 ^ LENGTH(8)" by (rule unsigned_less)
  then have "unat (ucast (sectors_per_cluster (bpb c)) :: u32) = unat (sectors_per_cluster (bpb c))"
    by (simp add: unsigned_ucast_eq take_bit_eq_mod)
  then show ?thesis using assms read_run_length [OF assms(1)]
    by (auto simp: fat32_read_cluster_def disk_io_read_sectors_def unat_cluster_size split: if_splits)
qed

lemma skip_clusters_chain:
  assumes "chain dk c cl cls"
  shows "n \<le> length cls \<Longrightarrow> chain dk c (skip_clusters dk c n cl) (drop n cls)"
  using assms
proof (induction n arbitrary: cl cls)
  case (Suc n)
  then show ?case by (cases cls) auto
qed simp

lemma chain_data_length:
  assumes "disk_ok dk" "chain dk c cl cls"
  shows "length (chain_data dk c cls) = length cls * unat (cluster_size c)"
  using assms(2)
proof (induction cls arbitrary: cl)
  case (Cons x xs)
  then show ?case using read_cluster_length [OF assms(1)] by (fastforce simp: chain_data_def)
qed (simp add: chain_data_def)

lemma chain_data_drop:
  assumes "disk_ok dk" "chain dk c cl cls"
  shows "n \<le> length cls \<Longrightarrow> drop (n * unat (cluster_size c)) (chain_data dk c cls) = chain_data dk c (drop n cls)"
  using assms(2)
proof (induction n arbitrary: cl cls)
  case (Suc n)
  then obtain x xs where cls: "cls = x # xs" by (cases cls) auto
  then obtain b where b: "fat32_read_cluster dk c x = Some b" "chain dk c (fat32_next_cluster dk c x) xs" using Suc.prems by auto
  have "length b = unat (cluster_size c)" using read_cluster_length [OF assms(1) b(1)] .
  moreover have "drop (n * unat (cluster_size c)) (chain_data dk c xs) = chain_data dk c (drop n xs)"
    using Suc.IH [OF _ b(2)] Suc.prems cls by simp
  ultimately show ?case using b(1) by (simp add: cls chain_data_def)
qed simp

lemma read_loop_chain:
  assumes dk: "disk_ok dk" and cs: "0 < unat (cluster_size c)"
  shows "chain dk c cl cls \<Longrightarrow> unat coff < unat (cluster_size c) \<Longrightarrow>
    read_loop dk c cl coff len out = Some (True, out @ take (unat len) (drop (unat coff) (chain_data dk c cls)))"
proof (induction cls arbitrary: cl coff len out)
  case Nil
  then have "\<not> 2 \<le> cl" by (simp add: not_le)
  then show ?case by (subst read_loop.simps) (simp add: chain_data_def)
next
  case (Cons x xs)
  show ?case
  proof (cases "len = 0")
    case True
    then show ?thesis by (subst read_loop.simps) simp
  next
    case False
    then have pos: "0 < len" by (simp add: word_gt_0)
    from Cons.prems obtain b where b: "cl = x" "2 \<le> x" "fat32_read_cluster dk c x = Some b" "chain dk c (fat32_next_cluster dk c x) xs" by auto
    have lb: "length b = unat (cluster_size c)" using read_cluster_length [OF dk b(3)] .
    let ?av = "cluster_size c - coff"
    let ?n = "if ?av > len then len else ?av"
    have av: "unat ?av = unat (cluster_size c) - unat coff" using Cons.prems(2) by (intro unat_sub_le) (simp add: word_le_nat_alt)
    have n: "unat ?n = min (unat len) (length (drop (unat coff) b))" using av lb by (simp add: word_less_nat_alt)
    have "?n \<le> len" by (simp add: not_less)
    then have rest: "unat (len - ?n) = unat len - unat ?n" by (rule unat_sub_le)
    have z: "unat (0 :: u32) < unat (cluster_size c)" using cs by simp
    have "read_loop dk c cl coff len out =
        read_loop dk c (fat32_next_cluster dk c x) 0 (len - ?n) (out @ take (unat ?n) (drop (unat coff) b))"
      using pos b by (subst read_loop.simps) (simp add: Let_def del: if_split)
    also have "\<dots> = Some (True, (out @ take (unat ?n) (drop (unat coff) b)) @ take (unat (len - ?n)) (drop (unat (0 :: u32)) (chain_data dk c xs)))"
      by (rule Cons.IH [OF b(4) z])
    also have "(out @ take (unat ?n) (drop (unat coff) b)) @ take (unat (len - ?n)) (drop (unat (0 :: u32)) (chain_data dk c xs)) =
        out @ take (unat len) (drop (unat coff) (chain_data dk c (x # xs)))"
      using b(3) lb Cons.prems(2) unfolding rest n by (simp add: chain_data_def min_def)
    finally show ?thesis .
  qed
qed

text \<open>The live entries of a directory, in order, up to the end mark.\<close>

definition dir_listing :: "disk \<Rightarrow> fat32_ctx \<Rightarrow> u32 list \<Rightarrow> fat32_dentry list" where
  "dir_listing dk c cls = takeWhile (\<lambda>e. de_name e ! 0 \<noteq> 0) (concat (map (\<lambda>x. dir_entries c (the (fat32_read_cluster dk c x))) cls))"

definition matches :: "u8 list \<Rightarrow> fat32_dentry \<Rightarrow> bool" where
  "matches nm e \<longleftrightarrow> de_name e ! 0 \<noteq> 0xE5 \<and> de_attr e \<noteq> 0x0F \<and> takeWhile ((\<noteq>) 0) (fat32_trim_name (de_name e)) = nm"

lemma name_scan_spec:
  "name_scan nm es = (case find (matches nm) (takeWhile (\<lambda>e. de_name e ! 0 \<noteq> 0) es) of
     Some e \<Rightarrow> Found e | None \<Rightarrow> if \<exists>e \<in> set es. de_name e ! 0 = 0 then Finished else More 0)"
  by (induction es) (auto simp: matches_def)

lemma find_append: "find P (xs @ ys) = (case find P xs of Some e \<Rightarrow> Some e | None \<Rightarrow> find P ys)"
  by (induction xs) auto

lemma takeWhile_append: "takeWhile P (xs @ ys) = (if \<forall>x \<in> set xs. P x then xs @ takeWhile P ys else takeWhile P xs)"
  by (induction xs) auto

lemma name_loop_chain:
  "chain dk c cl cls \<Longrightarrow> name_loop dk c nm cl = Some (find (matches nm) (dir_listing dk c cls))"
proof (induction cls arbitrary: cl)
  case Nil
  then have "\<not> 2 \<le> cl" by (simp add: not_le)
  then show ?case by (subst name_loop.simps) (simp add: dir_listing_def)
next
  case (Cons x xs)
  then obtain b where b: "cl = x" "2 \<le> x" "fat32_read_cluster dk c x = Some b" "chain dk c (fat32_next_cluster dk c x) xs" by auto
  have l: "name_loop dk c nm cl = (case name_scan nm (dir_entries c b) of
      Found e \<Rightarrow> Some (Some e) | Finished \<Rightarrow> Some None | More _ \<Rightarrow> Some (find (matches nm) (dir_listing dk c xs)))"
    using b Cons.IH [OF b(4)] by (subst name_loop.simps) (simp cong: scan.case_cong)
  let ?es = "dir_entries c b"
  have d: "dir_listing dk c (x # xs) = (if \<forall>e \<in> set ?es. de_name e ! 0 \<noteq> 0 then ?es @ dir_listing dk c xs
      else takeWhile (\<lambda>e. de_name e ! 0 \<noteq> 0) ?es)"
    using b(3) by (simp add: dir_listing_def takeWhile_append)
  show ?case
  proof (cases "\<forall>e \<in> set ?es. de_name e ! 0 \<noteq> 0")
    case True
    then have tw: "takeWhile (\<lambda>e. de_name e ! 0 \<noteq> 0) ?es = ?es" by (simp add: takeWhile_eq_all_conv)
    show ?thesis unfolding l d name_scan_spec tw using True
      by (cases "find (matches nm) ?es") (auto simp: find_append)
  next
    case False
    show ?thesis unfolding l d name_scan_spec using False
      by (cases "find (matches nm) (takeWhile (\<lambda>e. de_name e ! 0 \<noteq> 0) ?es)") auto
  qed
qed

section \<open>Properties\<close>

text \<open>
  C17. Reading a file returns the slice of its contents: for a file whose cluster chain is finite
  and readable, the bytes delivered are those of the concatenated clusters from the
  offset on, cut at the requested length or the end of the chain, and the cluster buffer is returned to
  the heap. In particular the copy loop ends.
\<close>

theorem fat32_read_file_slice:
  assumes dk: "disk_ok dk" and mnt: "mounted (fctx s)" "sectors_per_cluster (bpb (fctx s)) \<noteq> 0"
    and ch: "chain dk (fctx s) start cls" and off: "unat offset < length (chain_data dk (fctx s) cls)" and len: "len \<noteq> 0"
    and heap: "owns (fheap s) X" "kmalloc (ucast (cluster_size (fctx s))) (fheap s) = Inr (p, h)" "p \<noteq> 0"
  shows "\<exists>h1. fat32_read_file dk start offset False len s =
      Inr (sint (of_nat (length (take (unat len) (drop (unat offset) (chain_data dk (fctx s) cls)))) :: u32),
        take (unat len) (drop (unat offset) (chain_data dk (fctx s) cls)), s\<lparr>fheap := h1\<rparr>) \<and> owns h1 X"
proof -
  let ?c = "fctx s" and ?cs = "cluster_size (fctx s)" and ?d = "chain_data dk (fctx s) cls"
  have "unat (sectors_per_cluster (bpb ?c)) > 0" using mnt(2) by (simp add: unat_pos)
  then have cs: "0 < unat ?cs" by (simp add: unat_cluster_size)
  then have cs0: "?cs \<noteq> 0" by (simp add: unat_pos)
  define k where "k = unat offset div unat ?cs"
  have q: "unat (offset div ?cs) = k" "unat (offset mod ?cs) = unat offset mod unat ?cs" by (simp_all add: unat_div unat_mod k_def)
  have "k < length cls" using off chain_data_length [OF dk ch] cs unfolding k_def by (simp add: less_mult_imp_div_less)
  moreover from this have ck: "chain dk ?c (skip_clusters dk ?c k start) (drop k cls)" using skip_clusters_chain [OF ch] by simp
  ultimately have ge: "\<not> skip_clusters dk ?c k start < 2" by (cases "drop k cls") auto
  have coff: "unat (offset mod ?cs) < unat ?cs" using cs q(2) by simp
  have "drop (unat offset) ?d = drop (unat offset mod unat ?cs) (drop (k * unat ?cs) ?d)"
    by (simp add: k_def mult.commute)
  then have "drop (unat offset) ?d = drop (unat (offset mod ?cs)) (chain_data dk ?c (drop k cls))"
    using chain_data_drop [OF dk ch, of k] \<open>k < length cls\<close> q(2) by simp
  then have rl: "read_loop dk ?c (skip_clusters dk ?c k start) (offset mod ?cs) len [] = Some (True, take (unat len) (drop (unat offset) ?d))"
    using read_loop_chain [OF dk cs ck coff, of len "[]"] by simp
  have "owns h (insert p X) \<and> p \<notin> X" using heap(1)
    by (cases rule: owns_kmalloc [where sz = "ucast ?cs"]) (use heap(2,3) in auto)
  then obtain h1 where h1: "kfree p h = Inr h1" "owns h1 (insert p X - {p})" "p \<notin> X" using owns_kfree [of h "insert p X" p] by blast
  then have "owns h1 X" by simp
  with h1(1) show ?thesis
    using mnt(1) len cs0 ge rl heap(2,3) q(1) by (auto simp: fat32_read_file_def Let_def)
qed

definition example_disk :: disk where
  "example_disk lba = Some (replicate 512 (if lba < 10 then 0xFF else 7))"

definition example_fat :: fat32 where
  "example_fat = \<lparr>fctx = fat32_ctx0\<lparr>bpb := (bpb fat32_ctx0)\<lparr>sectors_per_cluster := 1\<rparr>, fat_start := 1, data_start := 10, mounted := True\<rparr>,
     fheap = boot_heap\<rparr>"

lemma example_chain: "chain example_disk (fctx example_fat) 2 [2]" "chain_data example_disk (fctx example_fat) [2] = replicate 512 7"
proof -
  have r: "fat32_read_cluster example_disk (fctx example_fat) 2 = Some (replicate 512 7)"
    by (simp add: fat32_read_cluster_def example_fat_def fat32_ctx0_def disk_io_read_sectors_def example_disk_def)
  have "rd32 (replicate 512 0xFF) 8 = 0xFFFFFFFF" by (simp add: rd32_def)
  then have "fat32_next_cluster example_disk (fctx example_fat) 2 = 0"
    by (simp add: fat32_next_cluster_def example_fat_def fat32_ctx0_def disk_io_read_sector_def example_disk_def FAT32_SECTOR_SIZE_def Let_def)
  with r show "chain example_disk (fctx example_fat) 2 [2]" "chain_data example_disk (fctx example_fat) [2] = replicate 512 7"
    by (simp_all add: chain_data_def)
qed

theorem fat32_read_file_slice_witness:
  "\<exists>h1. fat32_read_file example_disk 2 500 False 100 example_fat = Inr (12, replicate 12 7, example_fat\<lparr>fheap := h1\<rparr>) \<and> owns h1 {}"
proof -
  have cs: "cluster_size (fctx example_fat) = 512" by (simp add: cluster_size_def example_fat_def fat32_ctx0_def FAT32_SECTOR_SIZE_def)
  have "kmalloc 512 boot_heap = Inr (0x800010, heap_take 0 512 boot_heap)" by (rule boot_heap_alloc) simp_all
  then have k: "kmalloc (ucast (cluster_size (fctx example_fat))) (fheap example_fat) = Inr (0x800010, heap_take 0 512 boot_heap)"
    unfolding cs by (simp add: example_fat_def)
  have dk: "disk_ok example_disk" by (simp add: disk_ok_def example_disk_def SECTOR_SIZE_def)
  have o: "owns (fheap example_fat) {}" using boot_heap_inv by (auto simp: owns_def example_fat_def)
  have m: "mounted (fctx example_fat)" "sectors_per_cluster (bpb (fctx example_fat)) \<noteq> 0" by (simp_all add: example_fat_def fat32_ctx0_def)
  show ?thesis using fat32_read_file_slice [OF dk m example_chain(1) _ _ o k, of 500 100] unfolding example_chain(2) by simp
qed

text \<open>
  A directory lookup returns the first live entry whose trimmed 8.3 name is the one asked
  for, among the entries before the end mark, over all clusters of the directory; there is an answer
  for every directory whose chain ends.
\<close>

theorem fat32_lookup_first:
  assumes ch: "chain dk (fctx s) dir cls"
    and heap: "owns (fheap s) X" "kmalloc (ucast (cluster_size (fctx s))) (fheap s) = Inr (p, h)" "p \<noteq> 0"
  shows "\<exists>h1. fat32_lookup dk dir (Some nm) False s =
      Inr (status_of (find (matches nm) (dir_listing dk (fctx s) cls)), s\<lparr>fheap := h1\<rparr>) \<and> owns h1 X"
proof -
  have "owns h (insert p X) \<and> p \<notin> X" using heap(1)
    by (cases rule: owns_kmalloc [where sz = "ucast (cluster_size (fctx s))"]) (use heap(2,3) in auto)
  then obtain h1 where h1: "kfree p h = Inr h1" "owns h1 (insert p X - {p})" "p \<notin> X" using owns_kfree [of h "insert p X" p] by blast
  then have "owns h1 X" by simp
  with h1(1) heap(2,3) show ?thesis
    by (intro exI [of _ h1]) (simp add: fat32_lookup_def with_cluster_buf_def name_loop_chain [OF ch])
qed

definition example_name :: "u8 list" where
  "example_name = replicate 8 7 @ 46 # replicate 3 7"

theorem fat32_lookup_first_witness:
  "\<exists>h1 e. fat32_lookup example_disk 2 (Some example_name) False example_fat = Inr ((0, Some e), example_fat\<lparr>fheap := h1\<rparr>)"
proof -
  have cs: "cluster_size (fctx example_fat) = 512" by (simp add: cluster_size_def example_fat_def fat32_ctx0_def FAT32_SECTOR_SIZE_def)
  have "kmalloc 512 boot_heap = Inr (0x800010, heap_take 0 512 boot_heap)" by (rule boot_heap_alloc) simp_all
  then have k: "kmalloc (ucast (cluster_size (fctx example_fat))) (fheap example_fat) = Inr (0x800010, heap_take 0 512 boot_heap)"
    unfolding cs by (simp add: example_fat_def)
  have o: "owns (fheap example_fat) {}" using boot_heap_inv by (auto simp: owns_def example_fat_def)
  define blk :: "u8 list" where "blk = replicate 512 7"
  define e where "e = parse_dentry blk"
  obtain r where r: "dir_entries (fctx example_fat) blk = e # r"
    by (simp add: dir_entries_def cs FAT32_ENTRY_SIZE_def upt_conv_Cons e_def)
  have en: "de_name e = replicate 11 7" "de_attr e = 7" by (simp_all add: parse_dentry_def e_def blk_def)
  then have m: "matches example_name e" "de_name e ! 0 \<noteq> 0" by (simp_all add: matches_def fat32_trim_name_def example_name_def)
  have "the (fat32_read_cluster example_disk (fctx example_fat) 2) = blk" using example_chain(2) by (simp add: chain_data_def blk_def)
  then have "dir_listing example_disk (fctx example_fat) [2] = takeWhile (\<lambda>e. de_name e ! 0 \<noteq> 0) (e # r)"
    unfolding dir_listing_def by (simp add: r)
  then have "find (matches example_name) (dir_listing example_disk (fctx example_fat) [2]) = Some e" using m by simp
  then show ?thesis using fat32_lookup_first [OF example_chain(1) o k, of example_name] by (auto simp: status_of_def)
qed

end
