(* ===== verification/Ramdisk.thy ===== *)
theory Ramdisk
  imports Vfs
begin

text \<open>
  The RAM disk of \<^verbatim>\<open>src/services/ramdisk.c\<close>: a table of files next to the virtual file system, which gets
  a copy of every file. The read, write and readdir callbacks get the table entry the
  inode's data pointer refers to (its index, \<open>None\<close> for a null pointer).
\<close>

definition RAMDISK_BLOCK_SIZE :: u32 where "RAMDISK_BLOCK_SIZE = 4096"
definition RAMDISK_MAX_FILES :: nat where "RAMDISK_MAX_FILES = 32"

record ramdisk_file =
  rf_name :: "u8 list"
  rf_size :: u32
  rf_data :: addr
  rf_used :: bool

definition ramdisk_file0 :: ramdisk_file where
  "ramdisk_file0 = \<lparr>rf_name = [], rf_size = 0, rf_data = 0, rf_used = False\<rparr>"

record ramdisk =
  ramdisk_files :: "ramdisk_file list"
  ramdisk_initialized :: bool
  rvfs :: vfs

definition ramdisk_init :: "ramdisk \<Rightarrow> int \<times> ramdisk" where
  "ramdisk_init s = (0, s\<lparr>ramdisk_files := replicate RAMDISK_MAX_FILES ramdisk_file0, ramdisk_initialized := True\<rparr>)"

definition find_free_file :: "ramdisk \<Rightarrow> nat option" where
  "find_free_file s = first_idx (\<lambda>f. \<not> rf_used f) (ramdisk_files s)"

definition upd_rfile :: "nat \<Rightarrow> (ramdisk_file \<Rightarrow> ramdisk_file) \<Rightarrow> ramdisk \<Rightarrow> ramdisk" where
  "upd_rfile i g s = s\<lparr>ramdisk_files := (ramdisk_files s)[i := g (ramdisk_files s ! i)]\<rparr>"

text \<open>The copy of the data the table keeps; without memory the file is empty.\<close>

definition store_data :: "nat \<Rightarrow> u8 list option \<Rightarrow> u32 \<Rightarrow> ramdisk \<Rightarrow> ramdisk res" where
  "store_data i data len s =
     (if len > 0 \<and> data \<noteq> None then
        rbind (kmalloc (ucast len) (vheap (rvfs s))) (\<lambda>(p, h).
          let s1 = upd_rfile i (\<lambda>f. f\<lparr>rf_data := p\<rparr>) (s\<lparr>rvfs := (rvfs s)\<lparr>vheap := h\<rparr>\<rparr>) in
          if p \<noteq> 0 then rbind (copy_in data len p (rvfs s1)) (\<lambda>v. Inr (s1\<lparr>rvfs := v\<rparr>))
          else Inr (upd_rfile i (\<lambda>f. f\<lparr>rf_size := 0\<rparr>) s1))
      else Inr (upd_rfile i (\<lambda>f. f\<lparr>rf_data := 0, rf_size := 0\<rparr>) s))"

definition ramdisk_create_file :: "u8 list option \<Rightarrow> u8 list option \<Rightarrow> u32 \<Rightarrow> ramdisk \<Rightarrow> (int \<times> ramdisk) res" where
  "ramdisk_create_file path data len s =
     (case path of None \<Rightarrow> Inr (-1, s)
      | Some p \<Rightarrow>
          if \<not> ramdisk_initialized s then Inr (-1, s)
          else case find_free_file s of None \<Rightarrow> Inr (-1, s)
          | Some i \<Rightarrow>
              rbind (store_data i data len (upd_rfile i (\<lambda>f. f\<lparr>rf_name := take (VFS_MAX_NAME_LEN - 1) p, rf_size := len, rf_used := True\<rparr>) s))
                (\<lambda>s1. rbind (vfs_create_file path data len (rvfs s1)) (\<lambda>(_, v). Inr (0, s1\<lparr>rvfs := v\<rparr>))))"

definition ramdisk_vfs_read :: "nat option \<Rightarrow> u32 \<Rightarrow> bool \<Rightarrow> u32 \<Rightarrow> ramdisk \<Rightarrow> int \<times> u8 list" where
  "ramdisk_vfs_read fi offset null_buf len s =
     (case fi of None \<Rightarrow> (-1, [])
      | Some i \<Rightarrow>
          let f = ramdisk_files s ! i in
          if \<not> rf_used f \<or> null_buf then (-1, [])
          else if offset \<ge> rf_size f then (0, [])
          else let n = (if offset + len > rf_size f then rf_size f - offset else len)
               in (sint n, get_bytes (vbytes (rvfs s)) (rf_data f + ucast offset) (unat n)))"

definition ramdisk_vfs_write :: "nat option \<Rightarrow> u32 \<Rightarrow> u8 list option \<Rightarrow> u32 \<Rightarrow> ramdisk \<Rightarrow> (int \<times> ramdisk) res" where
  "ramdisk_vfs_write fi offset buf len s =
     (case fi of None \<Rightarrow> Inr (-1, s)
      | Some i \<Rightarrow>
          if \<not> rf_used (ramdisk_files s ! i) \<or> buf = None then Inr (-1, s)
          else let n = (if offset + len > RAMDISK_BLOCK_SIZE then RAMDISK_BLOCK_SIZE - offset else len) in
            rbind (if rf_data (ramdisk_files s ! i) = 0 then
                     rbind (kmalloc (ucast RAMDISK_BLOCK_SIZE) (vheap (rvfs s))) (\<lambda>(p, h).
                       let s1 = upd_rfile i (\<lambda>f. f\<lparr>rf_data := p\<rparr>) (s\<lparr>rvfs := (rvfs s)\<lparr>vheap := h\<rparr>\<rparr>) in
                       if p = 0 then Inr (False, s1)
                       else Inr (True, s1\<lparr>rvfs := (rvfs s1)\<lparr>vbytes := put_bytes (vbytes (rvfs s1)) p (replicate (unat RAMDISK_BLOCK_SIZE) 0)\<rparr>\<rparr>))
                   else Inr (True, s)) (\<lambda>(ok, s2).
              if \<not> ok then Inr (-1, s2)
              else rbind (copy_in buf n (rf_data (ramdisk_files s2 ! i) + ucast offset) (rvfs s2)) (\<lambda>v.
                let s3 = s2\<lparr>rvfs := v\<rparr> in
                Inr (sint n, if offset + n > rf_size (ramdisk_files s3 ! i)
                             then upd_rfile i (\<lambda>f. f\<lparr>rf_size := offset + n\<rparr>) s3 else s3))))"

definition ramdisk_vfs_readdir :: "u32 \<Rightarrow> ramdisk \<Rightarrow> int \<times> u8 list" where
  "ramdisk_vfs_readdir idx s =
     (let used = filter rf_used (ramdisk_files s) in
      if unat idx < length used then (0, take (VFS_MAX_NAME_LEN - 1) (rf_name (used ! unat idx))) else (-1, []))"

definition ramdisk_ops :: vfs_ops where
  "ramdisk_ops = \<lparr>ops_name = cstr ''ramdisk'', ops_mount = None\<rparr>"

definition ramdisk_mount :: "ramdisk \<Rightarrow> int \<times> ramdisk" where
  "ramdisk_mount s = (0, s\<lparr>rvfs := snd (vfs_register_fs (Some ramdisk_ops) (rvfs s))\<rparr>)"

section \<open>What the callbacks deliver\<close>

text \<open>A read never goes past the file, unless the 32-bit sum of offset and length wraps around.\<close>

lemma ramdisk_read_within:
  assumes "i < length (ramdisk_files s)" "rf_used (ramdisk_files s ! i)" "unat offset + unat len < 2 ^ 32"
    and sz: "unat (rf_size (ramdisk_files s ! i)) < 2 ^ 31"
  shows "snd (ramdisk_vfs_read (Some i) offset False len s) =
     take (unat len) (drop (unat offset) (get_bytes (vbytes (rvfs s)) (rf_data (ramdisk_files s ! i)) (unat (rf_size (ramdisk_files s ! i)))))"
proof -
  let ?f = "ramdisk_files s ! i"
  have sum: "unat (offset + len) = unat offset + unat len" using assms(3) by (subst unat_add_small) simp_all
  have adv: "rf_data ?f + ucast offset + of_nat k = rf_data ?f + of_nat (unat offset + k)" for k
    by (simp add: add.assoc)
  show ?thesis
  proof (cases "rf_size ?f \<le> offset")
    case True
    then show ?thesis using assms(2) by (simp add: ramdisk_vfs_read_def Let_def get_bytes_def word_le_nat_alt)
  next
    case False
    then have lt: "unat offset < unat (rf_size ?f)" by (simp add: word_le_nat_alt)
    let ?n = "if offset + len > rf_size ?f then rf_size ?f - offset else len"
    have "unat (rf_size ?f - offset) = unat (rf_size ?f) - unat offset" using lt by (intro unat_sub_le) (simp add: word_le_nat_alt)
    then have n: "unat ?n = min (unat len) (unat (rf_size ?f) - unat offset)" using sum by (auto simp: word_less_nat_alt)
    have "snd (ramdisk_vfs_read (Some i) offset False len s) = get_bytes (vbytes (rvfs s)) (rf_data ?f + ucast offset) (unat ?n)"
      using False assms(2) by (simp add: ramdisk_vfs_read_def Let_def)
    also have "\<dots> = take (unat len) (drop (unat offset) (get_bytes (vbytes (rvfs s)) (rf_data ?f) (unat (rf_size ?f))))"
      unfolding n by (rule nth_equalityI) (auto simp: get_bytes_def adv)
    finally show ?thesis .
  qed
qed

text \<open>The files are listed in the order of the table.\<close>

lemma ramdisk_listing:
  "map (\<lambda>k. snd (ramdisk_vfs_readdir (of_nat k) s)) [0..<length (filter rf_used (ramdisk_files s))] =
     map (\<lambda>f. take (VFS_MAX_NAME_LEN - 1) (rf_name f)) (filter rf_used (ramdisk_files s))"
  if "length (ramdisk_files s) = RAMDISK_MAX_FILES"
proof -
  have "length (filter rf_used (ramdisk_files s)) \<le> 32" using that length_filter_le [of rf_used "ramdisk_files s"] by (simp add: RAMDISK_MAX_FILES_def)
  then have "unat (of_nat k :: u32) = k" if "k < length (filter rf_used (ramdisk_files s))" for k using that by (intro unat_of_nat_small) simp
  then show ?thesis by (intro nth_equalityI) (auto simp: ramdisk_vfs_readdir_def Let_def)
qed

end
