(* ===== verification/Wm.thy ===== *)
theory Wm
  imports CString "HOL-Library.Multiset"
begin

text \<open>
  The window manager: the window table and stacking order of \<^verbatim>\<open>src/gui/wm_core.c\<close> and
  \<^verbatim>\<open>src/gui/window_list.c\<close>, and the mouse handling of \<^verbatim>\<open>src/gui/wm_events.c\<close>. Screen size and title
  height come from the graphics back end and the theme and are part of the state. Painting
  is represented by the windows painted, in order. Coordinates are integers.
\<close>

section \<open>Windows\<close>

definition WM_MAX_WINDOWS :: nat where "WM_MAX_WINDOWS = 64"
definition WM_TITLE_MAX :: nat where "WM_TITLE_MAX = 64"

datatype wm_state = WM_NORMAL | WM_MINIMIZED | WM_MAXIMIZED

record wm_window =
  w_used :: bool
  w_id :: u32
  w_x :: int
  w_y :: int
  w_w :: int
  w_h :: int
  z_index :: int
  w_state :: wm_state
  opacity :: u8
  is_glass :: bool
  corner_radius :: int
  w_title :: "u8 list"

definition wm_window0 :: wm_window where
  "wm_window0 = \<lparr>w_used = False, w_id = 0, w_x = 0, w_y = 0, w_w = 0, w_h = 0, z_index = 0, w_state = WM_NORMAL,
     opacity = 0, is_glass = False, corner_radius = 0, w_title = []\<rparr>"

record wm =
  g_windows :: "wm_window list"
  g_next_id :: u32
  gfx_width :: int
  gfx_height :: int
  title_height :: int
  dragging_id :: u32
  drag_offset_x :: int
  drag_offset_y :: int
  is_dragging :: bool

definition wm_init :: "wm \<Rightarrow> wm" where
  "wm_init s = s\<lparr>g_windows := replicate WM_MAX_WINDOWS wm_window0, g_next_id := 1\<rparr>"

definition wm_get_by_id :: "u32 \<Rightarrow> wm \<Rightarrow> nat option" where
  "wm_get_by_id i s = first_idx (\<lambda>w. w_used w \<and> w_id w = i) (g_windows s)"

definition wm_get_count :: "wm_window list \<Rightarrow> int" where
  "wm_get_count ws = int (length (filter w_used ws))"

definition upd_window :: "nat \<Rightarrow> (wm_window \<Rightarrow> wm_window) \<Rightarrow> wm \<Rightarrow> wm" where
  "upd_window k f s = s\<lparr>g_windows := (g_windows s)[k := f (g_windows s ! k)]\<rparr>"

text \<open>The entry is marked used before the windows are counted, so the first window gets level 1.\<close>

definition wm_create :: "u8 list option \<Rightarrow> int \<Rightarrow> int \<Rightarrow> int \<Rightarrow> int \<Rightarrow> wm \<Rightarrow> int \<times> wm" where
  "wm_create ttl x y w h s =
     (if w < 80 \<or> h < 50 then (-1, s)
      else case first_idx (\<lambda>v. \<not> w_used v) (g_windows s) of None \<Rightarrow> (-1, s)
      | Some k \<Rightarrow>
          let s1 = upd_window k (\<lambda>v. v\<lparr>w_used := True, w_id := g_next_id s, w_x := x, w_y := y, w_w := w, w_h := h,
                     w_state := WM_NORMAL, opacity := 255\<rparr>) s;
              s2 = upd_window k (\<lambda>v. v\<lparr>z_index := wm_get_count (g_windows s1), is_glass := False, corner_radius := 12,
                     w_title := (case ttl of Some t \<Rightarrow> take (WM_TITLE_MAX - 1) t | None \<Rightarrow> [])\<rparr>) s1
          in (sint (g_next_id s), s2\<lparr>g_next_id := g_next_id s + 1\<rparr>))"

definition wm_create_glass :: "u8 list option \<Rightarrow> int \<Rightarrow> int \<Rightarrow> int \<Rightarrow> int \<Rightarrow> wm \<Rightarrow> int \<times> wm" where
  "wm_create_glass ttl x y w h s =
     (let (i, s1) = wm_create ttl x y w h s in
      if i > 0 then (case wm_get_by_id (word_of_int i) s1 of
          Some k \<Rightarrow> (i, upd_window k (\<lambda>v. v\<lparr>is_glass := True, opacity := 220\<rparr>) s1) | None \<Rightarrow> (i, s1))
      else (i, s1))"

definition wm_move :: "u32 \<Rightarrow> int \<Rightarrow> int \<Rightarrow> wm \<Rightarrow> int \<times> wm" where
  "wm_move i x y s = (case wm_get_by_id i s of None \<Rightarrow> (-1, s) | Some k \<Rightarrow> (0, upd_window k (\<lambda>v. v\<lparr>w_x := x, w_y := y\<rparr>) s))"

definition wm_resize :: "u32 \<Rightarrow> int \<Rightarrow> int \<Rightarrow> wm \<Rightarrow> int \<times> wm" where
  "wm_resize i w h s =
     (case wm_get_by_id i s of None \<Rightarrow> (-1, s)
      | Some k \<Rightarrow> if w < 80 \<or> h < 50 then (-1, s)
                  else (0, upd_window k (\<lambda>v. v\<lparr>w_state := (if w_state v = WM_MAXIMIZED then WM_NORMAL else w_state v), w_w := w, w_h := h\<rparr>) s))"

definition wm_minimize :: "u32 \<Rightarrow> wm \<Rightarrow> int \<times> wm" where
  "wm_minimize i s =
     (case wm_get_by_id i s of None \<Rightarrow> (-1, s)
      | Some k \<Rightarrow> if w_state (g_windows s ! k) = WM_MINIMIZED then (0, s) else (0, upd_window k (\<lambda>v. v\<lparr>w_state := WM_MINIMIZED\<rparr>) s))"

definition wm_maximize :: "u32 \<Rightarrow> wm \<Rightarrow> int \<times> wm" where
  "wm_maximize i s =
     (case wm_get_by_id i s of None \<Rightarrow> (-1, s)
      | Some k \<Rightarrow>
          (0, if w_state (g_windows s ! k) = WM_MAXIMIZED
              then upd_window k (\<lambda>v. v\<lparr>w_state := WM_NORMAL, w_x := (if w_x v > 0 then w_x v else 100),
                     w_y := (if w_y v > 40 then w_y v else 100), w_w := 400, w_h := 300\<rparr>) s
              else upd_window k (\<lambda>v. v\<lparr>w_state := WM_MAXIMIZED, w_x := 12, w_y := 12, w_w := gfx_width s - 24, w_h := gfx_height s - 72\<rparr>) s))"

text \<open>One pass of the compaction gives the windows on a level the next free levels.\<close>

fun compact_pass :: "int \<Rightarrow> wm_window list \<Rightarrow> int \<Rightarrow> wm_window list \<times> int" where
  "compact_pass p [] z = ([], z)"
| "compact_pass p (w # ws) z =
     (if w_used w \<and> z_index w = p then (case compact_pass p ws (z + 1) of (r, z') \<Rightarrow> (w\<lparr>z_index := z\<rparr> # r, z'))
      else (case compact_pass p ws z of (r, z') \<Rightarrow> (w # r, z')))"

fun compact_loop :: "nat \<Rightarrow> nat \<Rightarrow> wm_window list \<Rightarrow> int \<Rightarrow> wm_window list" where
  "compact_loop p 0 ws z = ws"
| "compact_loop p (Suc n) ws z = (case compact_pass (int p) ws z of (ws', z') \<Rightarrow> compact_loop (Suc p) n ws' z')"

definition wm_compact_z :: "wm_window list \<Rightarrow> wm_window list" where
  "wm_compact_z ws = compact_loop 0 (length ws) ws 0"

definition wm_close :: "u32 \<Rightarrow> wm \<Rightarrow> int \<times> wm" where
  "wm_close i s =
     (case wm_get_by_id i s of None \<Rightarrow> (-1, s)
      | Some k \<Rightarrow> let s1 = upd_window k (\<lambda>v. v\<lparr>w_used := False\<rparr>) s in (0, s1\<lparr>g_windows := wm_compact_z (g_windows s1)\<rparr>))"

fun max_z :: "int \<Rightarrow> wm_window list \<Rightarrow> int" where
  "max_z m [] = m"
| "max_z m (w # ws) = max_z (if w_used w \<and> z_index w > m then z_index w else m) ws"

definition wm_raise :: "u32 \<Rightarrow> wm \<Rightarrow> int \<times> wm" where
  "wm_raise i s =
     (case wm_get_by_id i s of None \<Rightarrow> (-1, s)
      | Some k \<Rightarrow> let s1 = upd_window k (\<lambda>v. v\<lparr>z_index := max_z 0 (g_windows s) + 1\<rparr>) s
                  in (0, s1\<lparr>g_windows := wm_compact_z (g_windows s1)\<rparr>))"

text \<open>The search for the topmost window that satisfies a test: index and level of the best so far.\<close>

fun best_window :: "(wm_window \<Rightarrow> bool) \<Rightarrow> nat \<Rightarrow> wm_window list \<Rightarrow> nat option \<Rightarrow> int \<Rightarrow> nat option" where
  "best_window hit i [] best bestz = best"
| "best_window hit i (w # ws) best bestz =
     (if w_used w \<and> w_state w \<noteq> WM_MINIMIZED \<and> hit w \<and> z_index w > bestz
      then best_window hit (Suc i) ws (Some i) (z_index w) else best_window hit (Suc i) ws best bestz)"

definition in_window :: "int \<Rightarrow> int \<Rightarrow> wm_window \<Rightarrow> bool" where
  "in_window x y w \<longleftrightarrow> x \<ge> w_x w \<and> y \<ge> w_y w \<and> x < w_x w + w_w w \<and> y < w_y w + w_h w"

definition in_titlebar :: "int \<Rightarrow> int \<Rightarrow> wm_window \<Rightarrow> bool" where
  "in_titlebar x y w \<longleftrightarrow> x \<ge> w_x w \<and> x < w_x w + w_w w \<and> y \<ge> w_y w \<and> y < w_y w + 34"

definition wm_window_at :: "int \<Rightarrow> int \<Rightarrow> wm \<Rightarrow> int \<times> u32 option" where
  "wm_window_at x y s =
     (case best_window (in_window x y) 0 (g_windows s) None (-1) of None \<Rightarrow> (-1, None) | Some k \<Rightarrow> (0, Some (w_id (g_windows s ! k))))"

definition wm_window_at_titlebar :: "int \<Rightarrow> int \<Rightarrow> wm \<Rightarrow> int \<times> u32 option" where
  "wm_window_at_titlebar x y s =
     (case best_window (in_titlebar x y) 0 (g_windows s) None (-1) of None \<Rightarrow> (-1, None) | Some k \<Rightarrow> (0, Some (w_id (g_windows s ! k))))"

definition wm_draw_all :: "wm \<Rightarrow> wm_window list" where
  "wm_draw_all s =
     concat (map (\<lambda>z. filter (\<lambda>w. w_used w \<and> z_index w = int z \<and> w_state w \<noteq> WM_MINIMIZED) (g_windows s)) [0..<Suc WM_MAX_WINDOWS])"

definition in_button :: "int \<Rightarrow> int \<Rightarrow> int \<Rightarrow> int \<Rightarrow> int \<Rightarrow> bool" where
  "in_button x y bx bty sz \<longleftrightarrow> x \<ge> bx \<and> x < bx + sz \<and> y \<ge> bty \<and> y < bty + sz"

definition wm_check_button_hit :: "int \<Rightarrow> int \<Rightarrow> u32 \<Rightarrow> wm \<Rightarrow> int \<times> int option" where
  "wm_check_button_hit x y i s =
     (case wm_get_by_id i s of None \<Rightarrow> (-1, None)
      | Some k \<Rightarrow>
          let w = g_windows s ! k; sz = 26; bty = w_y w + (34 - sz) div 2;
              close_x = w_x w + w_w w - sz - 10; maximize_x = close_x - sz; minimize_x = maximize_x - sz
          in if in_button x y minimize_x bty sz then (0, Some 1)
             else if in_button x y maximize_x bty sz then (0, Some 2)
             else if in_button x y close_x bty sz then (0, Some 3)
             else (-1, None))"

section \<open>Mouse events\<close>

text \<open>Division in C rounds toward zero.\<close>

definition half :: "int \<Rightarrow> int" where
  "half n = (if n < 0 then - ((- n) div 2) else n div 2)"

definition control_button_size :: "wm \<Rightarrow> int" where
  "control_button_size s = (if title_height s > 28 then title_height s - 8 else title_height s - 4)"

definition wm_handle_click :: "int \<Rightarrow> int \<Rightarrow> wm \<Rightarrow> int \<times> u32 option" where
  "wm_handle_click x y s = wm_window_at x y s"

definition wm_handle_mouse_down :: "int \<Rightarrow> int \<Rightarrow> wm \<Rightarrow> int \<times> u32 option \<times> wm" where
  "wm_handle_mouse_down x y s =
     (case wm_window_at x y s of
        (r, None) \<Rightarrow> (-1, None, s)
      | (r, Some wid) \<Rightarrow>
          (case wm_get_by_id wid s of None \<Rightarrow> (-1, None, s)
           | Some k \<Rightarrow>
               let w = g_windows s ! k; sz = control_button_size s; bty = w_y w + half (title_height s - sz);
                   close_x = w_x w + w_w w - sz - 8; max_x = close_x - sz; min_x = max_x - sz
               in if in_button x y close_x bty sz then (1, Some 0, snd (wm_close wid s))
                  else if in_button x y max_x bty sz then (0, Some wid, snd (wm_raise wid (snd (wm_maximize wid s))))
                  else if in_button x y min_x bty sz then (0, Some wid, snd (wm_minimize wid s))
                  else let s1 = (if y \<ge> w_y w \<and> y < w_y w + title_height s
                                 then s\<lparr>dragging_id := wid, drag_offset_x := x - w_x w, drag_offset_y := y - w_y w, is_dragging := True\<rparr>
                                 else s)
                       in (0, Some wid, snd (wm_raise wid s1))))"

text \<open>The corrections of a dragged window's position, one after the other.\<close>

definition drag_clip :: "wm \<Rightarrow> wm_window \<Rightarrow> wm_window" where
  "drag_clip s v0 =
     (let max_x = gfx_width s - 60; max_y = gfx_height s - 60;
          v1 = (if w_x v0 < 0 then v0\<lparr>w_x := 0\<rparr> else v0);
          v2 = (if w_y v1 < 0 then v1\<lparr>w_y := 0\<rparr> else v1);
          v3 = (if w_x v2 > max_x then v2\<lparr>w_x := max_x\<rparr> else v2);
          v4 = (if w_y v3 > max_y then v3\<lparr>w_y := max_y\<rparr> else v3);
          v5 = (if w_x v4 + w_w v4 < 80 then v4\<lparr>w_x := 80 - w_w v4\<rparr> else v4)
      in if w_y v5 + title_height s < title_height s then v5\<lparr>w_y := 0\<rparr> else v5)"

definition wm_handle_mouse_move :: "int \<Rightarrow> int \<Rightarrow> wm \<Rightarrow> int \<times> wm" where
  "wm_handle_mouse_move x y s =
     (if \<not> is_dragging s then (0, s)
      else case wm_get_by_id (dragging_id s) s of None \<Rightarrow> (-1, s\<lparr>is_dragging := False\<rparr>)
      | Some k \<Rightarrow> (0, upd_window k (\<lambda>v. drag_clip s (v\<lparr>w_x := x - drag_offset_x s, w_y := y - drag_offset_y s\<rparr>)) s))"

definition wm_handle_mouse_up :: "wm \<Rightarrow> int \<times> wm" where
  "wm_handle_mouse_up s = (if \<not> is_dragging s then (-1, s) else (0, s\<lparr>is_dragging := False, dragging_id := 0\<rparr>))"

section \<open>Compaction\<close>

definition levels :: "wm_window list \<Rightarrow> int list" where
  "levels ws = map z_index (filter w_used ws)"

text \<open>The number of windows below a level.\<close>

definition below :: "wm_window list \<Rightarrow> int \<Rightarrow> int" where
  "below ws q = int (length (filter (\<lambda>z. z < q) (levels ws)))"

definition stack_ok :: "wm_window list \<Rightarrow> bool" where
  "stack_ok ws \<longleftrightarrow> distinct (levels ws) \<and> (\<forall>z \<in> set (levels ws). 0 \<le> z)"

lemma below_le: "stack_ok ws \<Longrightarrow> 0 \<le> q \<Longrightarrow> below ws q \<le> q"
proof -
  assume a: "stack_ok ws" "0 \<le> q"
  then have "distinct (filter (\<lambda>z. z < q) (levels ws))" "set (filter (\<lambda>z. z < q) (levels ws)) \<subseteq> {0..<q}" by (auto simp: stack_ok_def)
  then have "length (filter (\<lambda>z. z < q) (levels ws)) \<le> card {0..<q}" by (metis card_mono distinct_card finite_atLeastLessThan_int)
  then show ?thesis using a(2) by (simp add: below_def)
qed

lemma filter_eq_distinct: "distinct xs \<Longrightarrow> length (filter (\<lambda>x. x = a) xs) = (if a \<in> set xs then 1 else 0)"
  by (induction xs) auto

lemma below_Suc: "stack_ok ws \<Longrightarrow> below ws (q + 1) = below ws q + (if q \<in> set (levels ws) then 1 else 0)"
proof -
  assume "stack_ok ws"
  have "length (filter (\<lambda>z. z < q + 1) xs) = length (filter (\<lambda>z. z < q) xs) + length (filter (\<lambda>z. z = q) xs)" for xs :: "int list"
    by (induction xs) auto
  then show ?thesis using \<open>stack_ok ws\<close> by (simp add: below_def stack_ok_def filter_eq_distinct)
qed

lemma below_mono: "q \<le> r \<Longrightarrow> below ws q \<le> below ws r"
  by (induction ws) (auto simp: below_def levels_def)

lemma below_less: "stack_ok ws \<Longrightarrow> q \<in> set (levels ws) \<Longrightarrow> q < r \<Longrightarrow> below ws q < below ws r"
  using below_Suc [of ws q] below_mono [of "q + 1" r ws] by simp

lemma compact_pass_spec:
  "length (filter (\<lambda>w. w_used w \<and> z_index w = p) ws) \<le> 1 \<Longrightarrow>
   compact_pass p ws z = (map (\<lambda>w. if w_used w \<and> z_index w = p then w\<lparr>z_index := z\<rparr> else w) ws,
     z + int (length (filter (\<lambda>w. w_used w \<and> z_index w = p) ws)))"
proof (induction ws arbitrary: z)
  case (Cons w ws)
  show ?case
  proof (cases "w_used w \<and> z_index w = p")
    case True
    with Cons.prems have none: "filter (\<lambda>w. w_used w \<and> z_index w = p) ws = []" by simp
    then have "map (\<lambda>w. if w_used w \<and> z_index w = p then w\<lparr>z_index := q\<rparr> else w) ws = ws" for q
      by (intro map_idI) (auto simp: filter_empty_conv)
    then show ?thesis using True none Cons.IH [of "z + 1"] by simp
  next
    case False
    then show ?thesis using Cons by auto
  qed
qed simp

definition compact_one :: "wm_window list \<Rightarrow> int \<Rightarrow> wm_window \<Rightarrow> wm_window" where
  "compact_one ws q w = (if w_used w \<and> z_index w < q then w\<lparr>z_index := below ws (z_index w)\<rparr> else w)"

definition compacted :: "wm_window list \<Rightarrow> int \<Rightarrow> wm_window list" where
  "compacted ws q = map (compact_one ws q) ws"

lemma compact_step:
  assumes ok: "stack_ok ws" and p: "0 \<le> p"
  shows "compact_pass p (compacted ws p) (below ws p) = (compacted ws (p + 1), below ws (p + 1))"
proof -
  have lt: "below ws (z_index w) < p" if "w \<in> set ws" "w_used w" "z_index w < p" for w
    using that ok below_le [OF ok, of "z_index w"] by (force simp: stack_ok_def levels_def)
  have same: "(w_used (compact_one ws p w) \<and> z_index (compact_one ws p w) = p) = (w_used w \<and> z_index w = p)" if "w \<in> set ws" for w
    using lt [OF that] by (auto simp: compact_one_def)
  have "filter (\<lambda>w. w_used (compact_one ws p w) \<and> z_index (compact_one ws p w) = p) ws = filter (\<lambda>w. w_used w \<and> z_index w = p) ws"
    by (rule filter_cong [OF refl]) (rule same)
  then have "length (filter (\<lambda>w. w_used w \<and> z_index w = p) (compacted ws p)) = length (filter (\<lambda>w. w_used w \<and> z_index w = p) ws)"
    unfolding compacted_def filter_map length_map o_def by simp
  moreover have "length (filter (\<lambda>w. w_used w \<and> z_index w = p) ws) = length (filter (\<lambda>z. z = p) (levels ws))"
    unfolding levels_def by (induction ws) auto
  ultimately have len: "length (filter (\<lambda>w. w_used w \<and> z_index w = p) (compacted ws p)) = (if p \<in> set (levels ws) then 1 else 0)"
    using ok by (simp add: stack_ok_def filter_eq_distinct)
  have "map (\<lambda>w. if w_used w \<and> z_index w = p then w\<lparr>z_index := below ws p\<rparr> else w) (compacted ws p) = compacted ws (p + 1)"
    unfolding compacted_def map_map using lt by (intro map_cong) (auto simp: compact_one_def)
  then show ?thesis using compact_pass_spec [of p "compacted ws p" "below ws p"] len below_Suc [OF ok, of p] by simp
qed

lemma compact_loop_spec:
  assumes ok: "stack_ok ws"
  shows "compact_loop p n (compacted ws (int p)) (below ws (int p)) = compacted ws (int (p + n))"
proof (induction n arbitrary: p)
  case (Suc n)
  show ?case using compact_step [OF ok, of "int p"] Suc.IH [of "Suc p"] by (simp add: add.commute)
qed simp

lemma wm_compact_z_spec:
  assumes ok: "stack_ok ws"
  shows "wm_compact_z ws = compacted ws (int (length ws))"
proof -
  have "compacted ws 0 = ws"
    unfolding compacted_def using ok by (intro map_idI) (auto simp: stack_ok_def levels_def compact_one_def)
  moreover have "below ws 0 = 0" using ok below_le [OF ok, of 0] by (simp add: below_def)
  ultimately show ?thesis using compact_loop_spec [OF ok, of 0 "length ws"] by (simp add: wm_compact_z_def)
qed

text \<open>Compaction keeps the order of the windows, whatever their levels.\<close>

lemma compacted_less:
  assumes ok: "stack_ok ws" and v: "v \<in> set ws" "w_used v" and w: "w \<in> set ws" "w_used w" and lt: "z_index v < z_index w"
  shows "z_index (compact_one ws q v) < z_index (compact_one ws q w)"
proof -
  have "z_index v \<in> set (levels ws)" using v by (auto simp: levels_def)
  then have "below ws (z_index v) < below ws (z_index w)" "below ws (z_index v) \<le> z_index v"
    using below_less [OF ok _ lt] below_le [OF ok] ok by (auto simp: stack_ok_def)
  then show ?thesis using v w lt by (auto simp: compact_one_def)
qed

lemma compact_one_same [simp]:
  "w_used (compact_one ws q w) = w_used w" "w_state (compact_one ws q w) = w_state w" "w_id (compact_one ws q w) = w_id w"
  "w_x (compact_one ws q w) = w_x w" "w_y (compact_one ws q w) = w_y w" "w_w (compact_one ws q w) = w_w w" "w_h (compact_one ws q w) = w_h w"
  by (simp_all add: compact_one_def)

section \<open>The topmost window\<close>

lemma best_stays: "\<forall>w \<in> set ws. w_used w \<longrightarrow> z_index w \<le> bestz \<Longrightarrow> best_window hit i ws best bestz = best"
  by (induction ws arbitrary: i) auto

lemma best_top:
  assumes "k < length ws" "w_used (ws ! k)" "w_state (ws ! k) \<noteq> WM_MINIMIZED" "hit (ws ! k)" "bestz < z_index (ws ! k)"
    "\<forall>j < length ws. j \<noteq> k \<longrightarrow> w_used (ws ! j) \<longrightarrow> z_index (ws ! j) < z_index (ws ! k)"
  shows "best_window hit i ws best bestz = Some (i + k)"
  using assms
proof (induction ws arbitrary: i k best bestz)
  case (Cons w ws)
  show ?case
  proof (cases k)
    case 0
    have "\<forall>v \<in> set ws. w_used v \<longrightarrow> z_index v \<le> z_index w"
      using Cons.prems(6) 0 by (metis Suc_less_eq in_set_conv_nth length_Cons less_imp_le nat.distinct(1) nth_Cons_0 nth_Cons_Suc)
    then show ?thesis using Cons.prems 0 by (simp add: best_stays)
  next
    case (Suc m)
    have rest: "\<forall>j < length ws. j \<noteq> m \<longrightarrow> w_used (ws ! j) \<longrightarrow> z_index (ws ! j) < z_index (ws ! m)"
      using Cons.prems(6) Suc by (metis Suc_less_eq length_Cons nat.inject nth_Cons_Suc)
    have w: "w_used w \<longrightarrow> z_index w < z_index (ws ! m)" using Cons.prems(6) Suc by force
    show ?thesis using Cons.prems Suc w Cons.IH [of m _ "Suc i"] rest by simp
  qed
qed simp

lemma max_z_start: "m \<le> max_z m ws"
proof (induction ws arbitrary: m)
  case (Cons w ws)
  show ?case using Cons [of m] Cons [of "z_index w"] by auto
qed simp

lemma max_z_ge: "w \<in> set ws \<Longrightarrow> w_used w \<Longrightarrow> z_index w \<le> max_z m ws"
proof (induction ws arbitrary: m)
  case (Cons v ws)
  then show ?case using max_z_start [of "z_index v" ws] max_z_start [of m ws] by auto
qed simp

lemma max_z_bound: "\<forall>w \<in> set ws. w_used w \<longrightarrow> z_index w \<le> b \<Longrightarrow> m \<le> b \<Longrightarrow> max_z m ws \<le> b"
  by (induction ws arbitrary: m) auto

section \<open>The invariant of the stack\<close>

text \<open>Levels are distinct and lie between 0 and the number of windows; at most 62 windows are open.\<close>

definition wm_ok :: "wm_window list \<Rightarrow> bool" where
  "wm_ok ws \<longleftrightarrow> length ws = WM_MAX_WINDOWS \<and> stack_ok ws \<and> (\<forall>z \<in> set (levels ws). z \<le> int (length (levels ws))) \<and> length (levels ws) \<le> 62"

lemma wm_ok_levels: "wm_ok ws \<Longrightarrow> length vs = length ws \<Longrightarrow> levels vs = levels ws \<Longrightarrow> wm_ok vs"
  by (simp add: wm_ok_def stack_ok_def)

definition level_of :: "wm_window \<Rightarrow> int list" where
  "level_of w = (if w_used w then [z_index w] else [])"

lemma levels_append: "levels (xs @ w # ys) = levels xs @ level_of w @ levels ys"
  by (simp add: levels_def level_of_def)

lemma levels_split:
  assumes "k < length ws"
  shows "levels ws = levels (take k ws) @ level_of (ws ! k) @ levels (drop (Suc k) ws)"
    and "levels (ws[k := v]) = levels (take k ws) @ level_of v @ levels (drop (Suc k) ws)"
  using levels_append [of "take k ws" "ws ! k" "drop (Suc k) ws"] levels_append [of "take k ws" v] assms
  by (simp_all add: id_take_nth_drop [OF assms, symmetric] upd_conv_take_nth_drop)

lemma levels_update:
  "k < length ws \<Longrightarrow> w_used v = w_used (ws ! k) \<Longrightarrow> z_index v = z_index (ws ! k) \<Longrightarrow> levels (ws[k := v]) = levels ws"
  using levels_split(1) [of k ws] levels_split(2) [of k ws v] by (simp add: level_of_def)

lemma levels_compacted:
  assumes "\<forall>z \<in> set (levels ws). z < q"
  shows "levels (compacted ws q) = map (below ws) (levels ws)"
proof -
  have "levels (compacted ws q) = map (\<lambda>w. z_index (compact_one ws q w)) (filter w_used ws)"
    unfolding levels_def compacted_def filter_map map_map o_def by simp
  also have "\<dots> = map (below ws) (levels ws)"
    unfolding levels_def map_map using assms by (intro map_cong) (auto simp: compact_one_def levels_def)
  finally show ?thesis .
qed

lemma compact_ok:
  assumes ok: "stack_ok ws" and len: "length ws = WM_MAX_WINDOWS" "length (levels ws) \<le> 62" and lt: "\<forall>z \<in> set (levels ws). z < 64"
  shows "wm_ok (wm_compact_z ws)"
proof -
  have c: "wm_compact_z ws = compacted ws 64" using wm_compact_z_spec [OF ok] len by (simp add: WM_MAX_WINDOWS_def)
  have l: "levels (wm_compact_z ws) = map (below ws) (levels ws)" unfolding c by (rule levels_compacted [OF lt])
  have "inj_on (below ws) (set (levels ws))"
    by (rule inj_onI) (metis below_less ok less_irrefl linorder_cases)
  then have "distinct (levels (wm_compact_z ws))" unfolding l using ok by (simp add: distinct_map stack_ok_def)
  moreover have "0 \<le> below ws q" "below ws q \<le> int (length (levels ws))" for q by (simp_all add: below_def)
  ultimately show ?thesis using len unfolding wm_ok_def stack_ok_def l by (auto simp: c compacted_def)
qed

lemma found_window:
  assumes "wm_get_by_id i s = Some k"
  shows "k < length (g_windows s)" "w_used (g_windows s ! k)" "w_id (g_windows s ! k) = i"
  using assms first_idx_less first_idx_hit unfolding wm_get_by_id_def by fastforce+

lemma upd_window_ok:
  assumes "wm_ok (g_windows s)" "wm_get_by_id i s = Some k" "\<And>v. w_used (f v) = w_used v" "\<And>v. z_index (f v) = z_index v"
  shows "wm_ok (g_windows (upd_window k f s))"
  using assms found_window(1) [OF assms(2)] by (auto simp: upd_window_def intro!: wm_ok_levels [OF assms(1)] levels_update)

lemma wm_create_ok:
  assumes ok: "wm_ok (g_windows s)" and room: "length (levels (g_windows s)) < 62"
  shows "wm_ok (g_windows (snd (wm_create ttl x y w h s)))"
proof (cases "w < 80 \<or> h < 50 \<or> first_idx (\<lambda>v. \<not> w_used v) (g_windows s) = None")
  case True
  then show ?thesis using ok by (auto simp: wm_create_def)
next
  case False
  then obtain k where k: "first_idx (\<lambda>v. \<not> w_used v) (g_windows s) = Some k" by auto
  let ?ws = "g_windows s"
  have kl: "k < length ?ws" "\<not> w_used (?ws ! k)" using first_idx_less [OF k] first_idx_hit [OF k] by auto
  let ?m = "length (levels ?ws)"
  have old: "levels ?ws = levels (take k ?ws) @ levels (drop (Suc k) ?ws)"
    using levels_split(1) [OF kl(1)] kl(2) by (simp add: level_of_def)
  have count_levels: "wm_get_count vs = int (length (levels vs))" for vs by (simp add: wm_get_count_def levels_def)
  have cnt: "wm_get_count (?ws[k := v]) = int (Suc ?m)" if "w_used v" for v
    using levels_split(2) [OF kl(1), of v] old that unfolding count_levels by (simp add: level_of_def)
  obtain v where v: "g_windows (snd (wm_create ttl x y w h s)) = ?ws[k := v]" "w_used v" "z_index v = int (Suc ?m)"
    using False k kl(1) cnt by (simp add: wm_create_def Let_def upd_window_def)
  have new: "levels (?ws[k := v]) = levels (take k ?ws) @ int (Suc ?m) # levels (drop (Suc k) ?ws)"
    using levels_split(2) [OF kl(1), of v] v by (simp add: level_of_def)
  have b: "z \<le> int ?m" "0 \<le> z" if "z \<in> set (levels ?ws)" for z using ok that by (auto simp: wm_ok_def stack_ok_def)
  have st: "set (levels ?ws) = set (levels (take k ?ws)) \<union> set (levels (drop (Suc k) ?ws))" using old by (metis set_append)
  have d: "distinct (levels (take k ?ws) @ levels (drop (Suc k) ?ws))" using ok old unfolding wm_ok_def stack_ok_def by metis
  have m: "length (levels (?ws[k := v])) = Suc ?m" using old new by (metis add_Suc_right length_Cons length_append)
  have sn: "set (levels (?ws[k := v])) = insert (int (Suc ?m)) (set (levels ?ws))" unfolding new st by auto
  have fresh: "int (Suc ?m) \<notin> set (levels ?ws)" using b by force
  have "distinct (levels (?ws[k := v]))" unfolding new using d fresh unfolding st by auto
  moreover have "\<forall>z \<in> set (levels (?ws[k := v])). 0 \<le> z \<and> z \<le> int (Suc ?m)" unfolding sn using b by force
  ultimately show ?thesis using ok room unfolding v(1) wm_ok_def stack_ok_def m by simp
qed

lemma wm_close_ok:
  assumes ok: "wm_ok (g_windows s)"
  shows "wm_ok (g_windows (snd (wm_close i s)))"
proof (cases "wm_get_by_id i s")
  case (Some k)
  note k = found_window [OF Some]
  let ?ws = "g_windows s"
  let ?vs = "?ws[k := (?ws ! k)\<lparr>w_used := False\<rparr>]"
  have l: "levels ?ws = levels (take k ?ws) @ z_index (?ws ! k) # levels (drop (Suc k) ?ws)" "levels ?vs = levels (take k ?ws) @ levels (drop (Suc k) ?ws)"
    using levels_split(1) [OF k(1)] levels_split(2) [OF k(1)] k(2) by (simp_all add: level_of_def)
  have sub: "set (levels ?vs) \<subseteq> set (levels ?ws)" unfolding l by auto
  have "stack_ok ?vs" using ok sub l unfolding wm_ok_def stack_ok_def by auto
  moreover have "length (levels ?vs) \<le> 62" using ok l by (simp add: wm_ok_def)
  moreover have "\<forall>z \<in> set (levels ?vs). z < 64" using ok sub by (force simp: wm_ok_def)
  ultimately have "wm_ok (wm_compact_z ?vs)" using ok by (intro compact_ok) (simp_all add: wm_ok_def)
  then show ?thesis using Some by (simp add: wm_close_def Let_def upd_window_def)
qed (use ok in \<open>simp add: wm_close_def\<close>)

text \<open>Raising gives the window a level above all others; compaction follows.\<close>

lemma raised_stack:
  assumes ok: "stack_ok (g_windows s)" and k: "wm_get_by_id i s = Some k"
  defines "vs \<equiv> (g_windows s)[k := (g_windows s ! k)\<lparr>z_index := max_z 0 (g_windows s) + 1\<rparr>]"
  shows "stack_ok vs" "length (levels vs) = length (levels (g_windows s))"
    "\<forall>z \<in> set (levels vs). z \<le> max_z 0 (g_windows s) + 1"
    "\<forall>j < length vs. j \<noteq> k \<longrightarrow> w_used (vs ! j) \<longrightarrow> z_index (vs ! j) < z_index (vs ! k)"
    "g_windows (snd (wm_raise i s)) = wm_compact_z vs"
proof -
  note kk = found_window [OF k]
  let ?ws = "g_windows s"
  let ?m = "max_z 0 ?ws"
  have l: "levels ?ws = levels (take k ?ws) @ z_index (?ws ! k) # levels (drop (Suc k) ?ws)" "levels vs = levels (take k ?ws) @ (?m + 1) # levels (drop (Suc k) ?ws)"
    using levels_split(1) [OF kk(1)] levels_split(2) [OF kk(1)] kk(2) by (simp_all add: level_of_def vs_def)
  have b: "z \<le> ?m" if "z \<in> set (levels ?ws)" for z using that max_z_ge by (auto simp: levels_def)
  have m0: "0 \<le> ?m" by (rule max_z_start)
  have sub: "set (levels (take k ?ws)) \<union> set (levels (drop (Suc k) ?ws)) \<subseteq> set (levels ?ws)" unfolding l(1) by auto
  show "stack_ok vs" using ok b m0 sub unfolding stack_ok_def l by fastforce
  show "length (levels vs) = length (levels ?ws)" unfolding l by simp
  show "\<forall>z \<in> set (levels vs). z \<le> ?m + 1" using b sub unfolding l(2) by fastforce
  show "\<forall>j < length vs. j \<noteq> k \<longrightarrow> w_used (vs ! j) \<longrightarrow> z_index (vs ! j) < z_index (vs ! k)"
    using max_z_ge [of _ ?ws 0] kk(1) by (force simp: vs_def)
  show "g_windows (snd (wm_raise i s)) = wm_compact_z vs" using k by (simp add: wm_raise_def Let_def upd_window_def vs_def)
qed

lemma wm_raise_ok:
  assumes ok: "wm_ok (g_windows s)"
  shows "wm_ok (g_windows (snd (wm_raise i s)))"
proof (cases "wm_get_by_id i s")
  case (Some k)
  have so: "stack_ok (g_windows s)" using ok by (simp add: wm_ok_def)
  note r = raised_stack [OF so Some]
  have "max_z 0 (g_windows s) \<le> 62" using ok by (intro max_z_bound) (auto simp: wm_ok_def levels_def)
  then show ?thesis using r ok unfolding r(5) by (intro compact_ok) (force simp: wm_ok_def)+
qed (use ok in \<open>simp add: wm_raise_def\<close>)

section \<open>Painting\<close>

definition visible :: "wm_window \<Rightarrow> bool" where
  "visible w \<longleftrightarrow> w_used w \<and> w_state w \<noteq> WM_MINIMIZED"

lemma paint_levels:
  "mset (concat (map (\<lambda>z. filter (\<lambda>w. w_used w \<and> z_index w = int z \<and> w_state w \<noteq> WM_MINIMIZED) ws) [0..<n])) =
     mset (filter (\<lambda>w. visible w \<and> 0 \<le> z_index w \<and> z_index w < int n) ws)"
  "sorted (map z_index (concat (map (\<lambda>z. filter (\<lambda>w. w_used w \<and> z_index w = int z \<and> w_state w \<noteq> WM_MINIMIZED) ws) [0..<n])))"
proof (induction n)
  case (Suc n)
  let ?f = "\<lambda>z. filter (\<lambda>w. w_used w \<and> z_index w = int z \<and> w_state w \<noteq> WM_MINIMIZED) ws"
  {
    case 1
    have "mset (filter (\<lambda>w. visible w \<and> 0 \<le> z_index w \<and> z_index w < int (Suc n)) vs) =
        mset (filter (\<lambda>w. visible w \<and> 0 \<le> z_index w \<and> z_index w < int n) vs) +
        mset (filter (\<lambda>w. w_used w \<and> z_index w = int n \<and> w_state w \<noteq> WM_MINIMIZED) vs)" for vs
      by (induction vs) (auto simp: visible_def)
    then show ?case using Suc.IH(1) by simp
  next
    case 2
    have "\<forall>w \<in> set (concat (map ?f [0..<n])). z_index w < int n" by auto
    moreover have "sorted (map z_index (filter (\<lambda>w. w_used w \<and> z_index w = int n \<and> w_state w \<noteq> WM_MINIMIZED) vs))" for vs
      by (induction vs) auto
    ultimately show ?case using Suc.IH(2) by (auto simp: sorted_append less_imp_le)
  }
qed simp_all

section \<open>Properties\<close>

datatype wm_call = Create "u8 list option" int int int int | Glass "u8 list option" int int int int | Close u32 | Raise u32
  | Move u32 int int | Resize u32 int int | Minimize u32 | Maximize u32 | MouseDown int int | MouseMove int int | MouseUp

fun wm_exec :: "wm_call \<Rightarrow> wm \<Rightarrow> wm" where
  "wm_exec (Create t x y w h) s = snd (wm_create t x y w h s)"
| "wm_exec (Glass t x y w h) s = snd (wm_create_glass t x y w h s)"
| "wm_exec (Close i) s = snd (wm_close i s)"
| "wm_exec (Raise i) s = snd (wm_raise i s)"
| "wm_exec (Move i x y) s = snd (wm_move i x y s)"
| "wm_exec (Resize i w h) s = snd (wm_resize i w h s)"
| "wm_exec (Minimize i) s = snd (wm_minimize i s)"
| "wm_exec (Maximize i) s = snd (wm_maximize i s)"
| "wm_exec (MouseDown x y) s = snd (snd (wm_handle_mouse_down x y s))"
| "wm_exec (MouseMove x y) s = snd (wm_handle_mouse_move x y s)"
| "wm_exec MouseUp s = snd (wm_handle_mouse_up s)"

fun opens_window :: "wm_call \<Rightarrow> bool" where
  "opens_window (Create t x y w h) = True" | "opens_window (Glass t x y w h) = True" | "opens_window _ = False"

text \<open>Sequences of calls that never open more than 62 windows at a time.\<close>

fun wm_run :: "wm_call list \<Rightarrow> wm \<Rightarrow> wm option" where
  "wm_run [] s = Some s"
| "wm_run (c # cs) s = (if opens_window c \<and> wm_get_count (g_windows s) \<ge> 62 then None else wm_run cs (wm_exec c s))"

lemma move_ok: "wm_ok (g_windows s) \<Longrightarrow> wm_ok (g_windows (snd (wm_move i x y s)))"
  by (auto simp: wm_move_def upd_window_ok split: option.split)

lemma resize_ok: "wm_ok (g_windows s) \<Longrightarrow> wm_ok (g_windows (snd (wm_resize i w h s)))"
  by (auto simp: wm_resize_def upd_window_ok split: option.split)

lemma minimize_ok: "wm_ok (g_windows s) \<Longrightarrow> wm_ok (g_windows (snd (wm_minimize i s)))"
  by (auto simp: wm_minimize_def upd_window_ok split: option.split)

lemma maximize_ok: "wm_ok (g_windows s) \<Longrightarrow> wm_ok (g_windows (snd (wm_maximize i s)))"
  by (auto simp: wm_maximize_def upd_window_ok split: option.split)

lemma glass_ok: "wm_ok (g_windows s) \<Longrightarrow> length (levels (g_windows s)) < 62 \<Longrightarrow> wm_ok (g_windows (snd (wm_create_glass t x y w h s)))"
  using wm_create_ok [of s t x y w h]
  by (auto simp: wm_create_glass_def upd_window_ok split: option.split prod.splits)

lemma drag_clip_same [simp]: "w_used (drag_clip s v) = w_used v" "z_index (drag_clip s v) = z_index v"
  by (simp_all add: drag_clip_def Let_def)

lemma mouse_ok:
  assumes "wm_ok (g_windows s)"
  shows "wm_ok (g_windows (snd (snd (wm_handle_mouse_down x y s))))" "wm_ok (g_windows (snd (wm_handle_mouse_move x y s)))"
    "wm_ok (g_windows (snd (wm_handle_mouse_up s)))"
  using assms
  by (auto simp: wm_handle_mouse_down_def wm_handle_mouse_move_def wm_handle_mouse_up_def Let_def upd_window_ok wm_close_ok wm_raise_ok
      maximize_ok minimize_ok split: option.split prod.split)

lemmas wm_call_ok = wm_create_ok glass_ok wm_close_ok wm_raise_ok move_ok resize_ok minimize_ok maximize_ok mouse_ok

lemma wm_run_ok: "wm_run cs s = Some t \<Longrightarrow> wm_ok (g_windows s) \<Longrightarrow> wm_ok (g_windows t)"
proof (induction cs arbitrary: s)
  case (Cons c cs)
  have "length (levels (g_windows s)) < 62" if "opens_window c"
    using Cons.prems(1) that by (auto simp: wm_get_count_def levels_def split: if_splits)
  then have "wm_ok (g_windows (wm_exec c s))" using Cons.prems(2) by (cases c) (simp_all add: wm_call_ok)
  then show ?case using Cons by (auto split: if_splits)
qed simp

text \<open>
  C27. While at most 62 windows are open, every sequence of window operations and mouse events keeps
  the stack in order: levels are distinct, and painting shows each window that is not
  minimized exactly once, from the lowest level to the highest.
\<close>

theorem wm_paints_stack:
  assumes "wm_run cs (wm_init s) = Some t"
  shows "distinct (levels (g_windows t)) \<and> mset (wm_draw_all t) = mset (filter visible (g_windows t)) \<and> sorted (map z_index (wm_draw_all t))"
proof -
  have "wm_ok (g_windows (wm_init s))" by (simp add: wm_ok_def stack_ok_def levels_def wm_init_def wm_window0_def)
  with assms have ok: "wm_ok (g_windows t)" by (rule wm_run_ok)
  have "0 \<le> z_index w \<and> z_index w < int (Suc WM_MAX_WINDOWS)" if "w \<in> set (g_windows t)" "w_used w" for w
    using ok that by (force simp: wm_ok_def stack_ok_def levels_def WM_MAX_WINDOWS_def)
  then have "filter (\<lambda>w. visible w \<and> 0 \<le> z_index w \<and> z_index w < int (Suc WM_MAX_WINDOWS)) (g_windows t) = filter visible (g_windows t)"
    by (intro filter_cong) (auto simp: visible_def)
  then show ?thesis using ok paint_levels [of "g_windows t" "Suc WM_MAX_WINDOWS"] unfolding wm_draw_all_def wm_ok_def stack_ok_def by metis
qed

definition wm_example :: wm where
  "wm_example = \<lparr>g_windows = [], g_next_id = 0, gfx_width = 1024, gfx_height = 768, title_height = 34, dragging_id = 0,
     drag_offset_x = 0, drag_offset_y = 0, is_dragging = False\<rparr>"

theorem wm_paints_stack_witness:
  "\<exists>t. wm_run [Create None 0 0 100 100, Create None 20 20 100 100, Raise 1, Close 2, Glass None 5 5 90 90] (wm_init wm_example) = Some t \<and>
     distinct (levels (g_windows t)) \<and> mset (wm_draw_all t) = mset (filter visible (g_windows t))"
proof -
  let ?cs = "[Create None 0 0 100 100, Create None 20 20 100 100, Raise 1, Close 2, Glass None 5 5 90 90]"
  have "wm_run ?cs (wm_init wm_example) \<noteq> None" by code_simp
  then obtain t where t: "wm_run ?cs (wm_init wm_example) = Some t" by blast
  with wm_paints_stack [OF t] show ?thesis by blast
qed

text \<open>
  Raising a window brings it to the front: afterwards the window found under any point of the
  raised window is that window itself, whatever other windows cover the point, if levels were
  distinct before. This holds for any number of windows and all levels.
\<close>

theorem wm_raise_front:
  assumes ok: "stack_ok (g_windows s)" and k: "wm_get_by_id i s = Some k"
    and vis: "w_state (g_windows s ! k) \<noteq> WM_MINIMIZED" "in_window x y (g_windows s ! k)"
  shows "wm_window_at x y (snd (wm_raise i s)) = (0, Some i)"
proof -
  note kk = found_window [OF k]
  note r = raised_stack [OF ok k]
  define vs where "vs = (g_windows s)[k := (g_windows s ! k)\<lparr>z_index := max_z 0 (g_windows s) + 1\<rparr>]"
  have vk: "vs ! k = (g_windows s ! k)\<lparr>z_index := max_z 0 (g_windows s) + 1\<rparr>" "k < length vs" using kk(1) by (simp_all add: vs_def)
  let ?us = "compacted vs (int (length vs))"
  have us: "g_windows (snd (wm_raise i s)) = ?us" using r(5) wm_compact_z_spec [OF r(1)] by (simp only: vs_def)
  have nth: "?us ! j = compact_one vs (int (length vs)) (vs ! j)" if "j < length vs" for j using that by (simp add: compacted_def)
  have len: "length ?us = length vs" by (simp add: compacted_def)
  have sv: "stack_ok vs" using r(1) by (simp only: vs_def)
  have top: "\<forall>j < length ?us. j \<noteq> k \<longrightarrow> w_used (?us ! j) \<longrightarrow> z_index (?us ! j) < z_index (?us ! k)"
  proof (intro allI impI)
    fix j assume j: "j < length ?us" "j \<noteq> k" "w_used (?us ! j)"
    then have "w_used (vs ! j)" "z_index (vs ! j) < z_index (vs ! k)" using r(4) nth len unfolding vs_def [symmetric] by auto
    moreover have "w_used (vs ! k)" using vk kk(2) by simp
    moreover have "vs ! j \<in> set vs" "vs ! k \<in> set vs" using j(1) vk(2) len by simp_all
    ultimately have "z_index (compact_one vs (int (length vs)) (vs ! j)) < z_index (compact_one vs (int (length vs)) (vs ! k))"
      by (intro compacted_less [OF sv])
    then show "z_index (?us ! j) < z_index (?us ! k)" using nth [OF vk(2)] nth [of j] j(1) len by simp
  qed
  have z0: "0 \<le> z_index (?us ! k)"
    using nth [OF vk(2)] vk max_z_start [of 0 "g_windows s"] by (simp add: compact_one_def below_def)
  have "best_window (in_window x y) 0 ?us None (-1) = Some (0 + k)"
    using kk(2) vis vk nth [OF vk(2)] len z0 top by (intro best_top) (simp_all add: in_window_def)
  then show ?thesis unfolding wm_window_at_def us using nth [OF vk(2)] vk kk(3) by simp
qed

theorem wm_raise_front_witness:
  "wm_window_at 30 30 (snd (wm_raise 1 (wm_exec (Create None 20 20 100 100) (wm_exec (Create None 0 0 100 100) (wm_init wm_example))))) = (0, Some 1)"
proof (rule wm_raise_front)
  let ?s = "wm_exec (Create None 20 20 100 100) (wm_exec (Create None 0 0 100 100) (wm_init wm_example))"
  have "wm_run [Create None 0 0 100 100, Create None 20 20 100 100] (wm_init wm_example) = Some ?s" by code_simp
  moreover have "wm_ok (g_windows (wm_init wm_example))" by (simp add: wm_ok_def stack_ok_def levels_def wm_init_def wm_window0_def)
  ultimately show "stack_ok (g_windows ?s)" using wm_run_ok by (fastforce simp: wm_ok_def)
  show "wm_get_by_id 1 ?s = Some 0" by code_simp
  show "w_state (g_windows ?s ! 0) \<noteq> WM_MINIMIZED" by code_simp
  show "in_window 30 30 (g_windows ?s ! 0)" by code_simp
qed

text \<open>
  Beyond that number the stack breaks: when a window has reached level 64, the window raised
  next gets a level that neither compaction nor painting ever looks at, and it disappears from
  the screen although it is open and not minimized.
\<close>

theorem wm_raised_window_vanishes:
  assumes ok: "stack_ok (g_windows s)" "length (g_windows s) = WM_MAX_WINDOWS" and k: "wm_get_by_id i s = Some k"
    and high: "w \<in> set (g_windows s)" "w_used w" "64 \<le> z_index w"
  shows "g_windows (snd (wm_raise i s)) ! k \<notin> set (wm_draw_all (snd (wm_raise i s)))"
proof -
  note kk = found_window [OF k]
  note r = raised_stack [OF ok(1) k]
  define vs where "vs = (g_windows s)[k := (g_windows s ! k)\<lparr>z_index := max_z 0 (g_windows s) + 1\<rparr>]"
  have us: "g_windows (snd (wm_raise i s)) = compacted vs 64"
    using r(5) wm_compact_z_spec [OF r(1)] ok(2) by (simp add: vs_def WM_MAX_WINDOWS_def)
  have "64 \<le> max_z 0 (g_windows s)" using max_z_ge [OF high(1,2), of 0] high(3) by simp
  then have "z_index (compacted vs 64 ! k) \<ge> 65" using kk(1) by (simp add: compacted_def compact_one_def vs_def)
  then show ?thesis unfolding wm_draw_all_def us by (auto simp: WM_MAX_WINDOWS_def)
qed

fun open_many :: "nat \<Rightarrow> wm \<Rightarrow> wm" where
  "open_many 0 s = s"
| "open_many (Suc n) s = open_many n (wm_exec (Create None 0 0 100 100) s)"

theorem wm_raised_window_vanishes_witness:
  "g_windows (snd (wm_raise 1 (open_many 64 (wm_init wm_example)))) ! 0 \<notin> set (wm_draw_all (snd (wm_raise 1 (open_many 64 (wm_init wm_example)))))"
proof -
  let ?s = "open_many 64 (wm_init wm_example)"
  have "(let s = ?s in levels (g_windows s) = map int [1..<65] \<and> length (g_windows s) = WM_MAX_WINDOWS \<and> wm_get_by_id 1 s = Some 0 \<and>
      w_used (g_windows s ! 63) \<and> 64 \<le> z_index (g_windows s ! 63))" by code_simp
  then have e: "levels (g_windows ?s) = map int [1..<65]" "length (g_windows ?s) = WM_MAX_WINDOWS" "wm_get_by_id 1 ?s = Some 0"
    "w_used (g_windows ?s ! 63)" "64 \<le> z_index (g_windows ?s ! 63)" unfolding Let_def by blast+
  have "stack_ok (g_windows ?s)" using e(1) by (auto simp: stack_ok_def distinct_map)
  moreover have "g_windows ?s ! 63 \<in> set (g_windows ?s)" using e(2) by (intro nth_mem) (simp add: WM_MAX_WINDOWS_def)
  ultimately show ?thesis using wm_raised_window_vanishes [OF _ e(2,3) _ e(4,5)] by blast
qed

end
