(* ===== verification/Console.thy ===== *)
theory Console
  imports CString
begin

text \<open>
  The kernel console: the text screen of \<^verbatim>\<open>src/kernel/vga.c\<close>, the serial line of \<^verbatim>\<open>src/kernel/serial.c\<close> and the formatted
  output of \<^verbatim>\<open>src/kernel/kprintf.c\<close> to both. Screen memory is a map from cell numbers to cells, the
  serial line is the list of bytes sent; the wait for the transmitter is left out. The variable
  arguments of \<open>kprintf\<close> are a list; taking an argument that is not there, or of the wrong
  kind, is \<open>Fault\<close>, and so is reading the format past its terminator.
\<close>

section \<open>The text screen\<close>

definition VGA_WIDTH :: nat where "VGA_WIDTH = 80"
definition VGA_HEIGHT :: nat where "VGA_HEIGHT = 25"

record vga =
  vga_buffer :: "nat \<Rightarrow> u16"
  vga_color :: u8
  cursor_pos :: u16

text \<open>A character is a signed byte, so the conversion to a cell copies its sign.\<close>

definition vga_cell :: "u8 \<Rightarrow> u8 \<Rightarrow> u16" where
  "vga_cell color c = scast c OR push_bit 8 (ucast color)"

definition blank_cells :: "u8 \<Rightarrow> nat list \<Rightarrow> (nat \<Rightarrow> u16) \<Rightarrow> nat \<Rightarrow> u16" where
  "blank_cells color is b = fold (\<lambda>i b. b(i := vga_cell color 32)) is b"

definition scroll_up :: "(nat \<Rightarrow> u16) \<Rightarrow> nat \<Rightarrow> u16" where
  "scroll_up b = fold (\<lambda>i b. b(i := b (i + VGA_WIDTH))) [0..<VGA_WIDTH * (VGA_HEIGHT - 1)] b"

definition vga_clear :: "vga \<Rightarrow> vga" where
  "vga_clear v = v\<lparr>vga_buffer := blank_cells (vga_color v) [0..<VGA_WIDTH * VGA_HEIGHT] (vga_buffer v), cursor_pos := 0\<rparr>"

definition vga_init :: "vga \<Rightarrow> vga" where
  "vga_init v = vga_clear v"

definition vga_putc :: "u8 \<Rightarrow> vga \<Rightarrow> vga" where
  "vga_putc c v =
     (let v1 = (if c = 10 then v\<lparr>cursor_pos := cursor_pos v + (80 - cursor_pos v mod 80)\<rparr>
                else v\<lparr>vga_buffer := (vga_buffer v)(unat (cursor_pos v) := vga_cell (vga_color v) c), cursor_pos := cursor_pos v + 1\<rparr>)
      in if unat (cursor_pos v1) \<ge> VGA_WIDTH * VGA_HEIGHT
         then v1\<lparr>vga_buffer := blank_cells (vga_color v1) [VGA_WIDTH * (VGA_HEIGHT - 1)..<VGA_WIDTH * VGA_HEIGHT] (scroll_up (vga_buffer v1)),
                 cursor_pos := of_nat (VGA_WIDTH * (VGA_HEIGHT - 1))\<rparr>
         else v1)"

fun vga_puts :: "u8 list \<Rightarrow> vga \<Rightarrow> vga" where
  "vga_puts [] v = v"
| "vga_puts (c # cs) v = vga_puts cs (vga_putc c v)"

definition vga_set_color :: "u8 \<Rightarrow> u8 \<Rightarrow> vga \<Rightarrow> vga" where
  "vga_set_color fg bg v = v\<lparr>vga_color := push_bit 4 bg OR fg\<rparr>"

section \<open>The serial line\<close>

record console =
  con_vga :: vga
  con_serial :: "u8 list"

definition serial_putc :: "u8 \<Rightarrow> console \<Rightarrow> console" where
  "serial_putc c k = k\<lparr>con_serial := con_serial k @ [c]\<rparr>"

fun serial_puts :: "u8 list \<Rightarrow> console \<Rightarrow> console" where
  "serial_puts [] k = k"
| "serial_puts (c # cs) k = serial_puts cs (serial_putc c (if c = 10 then serial_putc 13 k else k))"

section \<open>Formatted output\<close>

definition emit_char :: "u8 \<Rightarrow> console \<Rightarrow> console" where
  "emit_char c k = serial_putc c (k\<lparr>con_vga := vga_putc c (con_vga k)\<rparr>)"

definition emit_str :: "u8 list \<Rightarrow> console \<Rightarrow> console" where
  "emit_str str k = serial_puts str (k\<lparr>con_vga := vga_puts str (con_vga k)\<rparr>)"

definition itoa_digit :: "u64 \<Rightarrow> bool \<Rightarrow> u8" where
  "itoa_digit digit uppercase = (if digit < 10 then 48 + ucast digit else (if uppercase then 65 else 97) + ucast digit - 10)"

text \<open>The digits, lowest first. The base is 10 or 16.\<close>

function itoa_loop :: "u64 \<Rightarrow> u64 \<Rightarrow> bool \<Rightarrow> u8 list" where
  "itoa_loop v base uppercase =
     (if v > 0 \<and> base > 1 then itoa_digit (v mod base) uppercase # itoa_loop (v div base) base uppercase else [])"
  by pat_completeness auto
termination
proof (relation "measure (\<lambda>(v, base, uppercase). unat v)", simp)
  fix v base :: u64 and uppercase :: bool
  assume "v > 0 \<and> base > 1"
  then have "0 < unat v" "1 < unat base" by (auto simp: word_less_nat_alt)
  then show "((v div base, base, uppercase), v, base, uppercase) \<in> measure (\<lambda>(v, base, uppercase). unat v)"
    by (simp add: unat_div)
qed

text \<open>The exchange of the first and last characters, moving inwards.\<close>

function swap_ends :: "nat \<Rightarrow> nat \<Rightarrow> 'a list \<Rightarrow> 'a list" where
  "swap_ends low p xs = (if low < p then swap_ends (low + 1) (p - 1) (xs[low := xs ! p, p := xs ! low]) else xs)"
  by pat_completeness auto
termination by (relation "measure (\<lambda>(low, p, xs). p - low)") auto

definition itoa_base :: "u64 \<Rightarrow> u64 \<Rightarrow> bool \<Rightarrow> u8 list" where
  "itoa_base v base uppercase =
     (if v = 0 then [48] else let str = itoa_loop v base uppercase in swap_ends 0 (length str - 1) str)"

fun pad_loop :: "nat \<Rightarrow> u8 \<Rightarrow> console \<Rightarrow> console" where
  "pad_loop 0 pad k = k"
| "pad_loop (Suc n) pad k = pad_loop n pad (emit_char pad k)"

definition emit_padded :: "u8 list \<Rightarrow> int \<Rightarrow> u8 \<Rightarrow> console \<Rightarrow> console" where
  "emit_padded buffer width pad k = emit_str buffer (pad_loop (nat (width - int (length buffer))) pad k)"

datatype karg = ArgInt u64 | ArgStr "u8 list option"

fun width_loop :: "int \<Rightarrow> u8 list \<Rightarrow> int \<times> u8 list" where
  "width_loop w [] = (w, [])"
| "width_loop w (c # f) = (if c \<ge> 48 \<and> c \<le> 57 then width_loop (w * 10 + (uint c - 48)) f else (w, c # f))"

definition with_int :: "karg list \<Rightarrow> (u64 \<Rightarrow> console) \<Rightarrow> (karg list \<times> console) res" where
  "with_int args g = (case args of ArgInt v # as \<Rightarrow> Inr (as, g v) | _ \<Rightarrow> Inl Fault)"

definition conv_long :: "u8 \<Rightarrow> int \<Rightarrow> u8 \<Rightarrow> karg list \<Rightarrow> console \<Rightarrow> (karg list \<times> console) res" where
  "conv_long c width pad args k =
     (if c = 117 then with_int args (\<lambda>v. emit_padded (itoa_base v 10 False) width pad k)
      else if c = 120 \<or> c = 88 then with_int args (\<lambda>v. emit_padded (itoa_base v 16 (c = 88)) width pad k)
      else Inr (args, k))"

text \<open>The negation of a negative number wraps around in 32 bits; the result is then extended with its sign.\<close>

definition conv_char :: "u8 \<Rightarrow> int \<Rightarrow> u8 \<Rightarrow> karg list \<Rightarrow> console \<Rightarrow> (karg list \<times> console) res" where
  "conv_char c width pad args k =
     (if c = 115 then (case args of ArgStr s # as \<Rightarrow> Inr (as, emit_str (case s of Some b \<Rightarrow> b | None \<Rightarrow> cstr ''(null)'') k) | _ \<Rightarrow> Inl Fault)
      else if c = 100 then with_int args (\<lambda>v.
        let num = (ucast v :: u32) in
        if sint num < 0 then emit_padded (itoa_base (scast (- num)) 10 False) width pad (emit_char 45 k)
        else emit_padded (itoa_base (scast num) 10 False) width pad k)
      else if c = 117 then with_int args (\<lambda>v. emit_padded (itoa_base (ucast (ucast v :: u32)) 10 False) width pad k)
      else if c = 120 \<or> c = 88 then with_int args (\<lambda>v. emit_padded (itoa_base (ucast (ucast v :: u32)) 16 (c = 88)) width pad k)
      else if c = 99 then with_int args (\<lambda>v. emit_char (ucast v) k)
      else Inr (args, k))"

lemma width_loop_length: "length (snd (width_loop w f)) \<le> length f"
  by (induction w f rule: width_loop.induct) (auto simp: le_Suc_eq)

text \<open>A directive after the percent sign: the rest of the format, the arguments left and the console.\<close>

definition directive :: "u8 list \<Rightarrow> karg list \<Rightarrow> console \<Rightarrow> (u8 list \<times> karg list \<times> console) res" where
  "directive f args k =
     (if f \<noteq> [] \<and> hd f = 37 then Inr (tl f, args, emit_char 37 k)
      else
        let (pad, f1) = (if f \<noteq> [] \<and> hd f = 48 then (48, tl f) else (32, f));
            (width, f2) = width_loop 0 f1
        in case f2 of [] \<Rightarrow> Inl Fault
           | c # f3 \<Rightarrow>
             if c = 108 then
               (case f3 of [] \<Rightarrow> Inl Fault
                | c2 # f4 \<Rightarrow>
                  if c2 = 108 then (case f4 of [] \<Rightarrow> Inl Fault
                    | c3 # f5 \<Rightarrow> rbind (conv_long c3 width pad args k) (\<lambda>(as, k1). Inr (f5, as, k1)))
                  else Inr (f4, args, k))
             else rbind (conv_char c width pad args k) (\<lambda>(as, k1). Inr (f3, as, k1)))"

lemma directive_shorter: "directive f args k = Inr (f', as, k') \<Longrightarrow> length f' \<le> length f"
  using width_loop_length [of 0 f] width_loop_length [of 0 "tl f"]
  by (auto simp: directive_def Let_def rbind_Inr_iff split: if_splits list.splits prod.splits)

function kprintf_loop :: "u8 list \<Rightarrow> karg list \<Rightarrow> console \<Rightarrow> console res" where
  "kprintf_loop [] args k = Inr k"
| "kprintf_loop (c # f) args k =
     (if c = 37 then (case directive f args k of Inl e \<Rightarrow> Inl e | Inr (f', as, k1) \<Rightarrow> kprintf_loop f' as k1)
      else kprintf_loop f args (emit_char c k))"
  by pat_completeness auto
termination
  by (relation "measure (\<lambda>(f, args, k). length f)") (auto simp: less_Suc_eq_le dest: directive_shorter)

definition kprintf :: "u8 list \<Rightarrow> karg list \<Rightarrow> console \<Rightarrow> (int \<times> console) res" where
  "kprintf format args k = rbind (kprintf_loop format args k) (\<lambda>k1. Inr (0, k1))"

definition kprintf_early :: "u8 list \<Rightarrow> console \<Rightarrow> console" where
  "kprintf_early str k = serial_puts str k"

section \<open>Numbers\<close>

lemma swap_ends_nth:
  "p < length xs \<Longrightarrow> k < length xs \<Longrightarrow> swap_ends low p xs ! k = (if low \<le> k \<and> k \<le> p then xs ! (low + p - k) else xs ! k)"
proof (induction low p xs rule: swap_ends.induct)
  case (1 low p xs)
  let ?ys = "xs[low := xs ! p, p := xs ! low]"
  show ?case
  proof (cases "low < p")
    case True
    then have "swap_ends low p xs ! k = (if low + 1 \<le> k \<and> k \<le> p - 1 then ?ys ! (low + 1 + (p - 1) - k) else ?ys ! k)"
      using "1.IH" "1.prems" by (subst swap_ends.simps) simp
    moreover have "low + 1 + (p - 1) - k = low + p - k" using True by simp
    ultimately show ?thesis using True "1.prems" by (auto simp: nth_list_update)
  next
    case False
    then have "low + p - k = k" if "low \<le> k" "k \<le> p" using that by linarith
    then show ?thesis using False by (subst swap_ends.simps) simp
  qed
qed

lemma swap_ends_length [simp]: "length (swap_ends low p xs) = length xs"
  by (induction low p xs rule: swap_ends.induct) (subst swap_ends.simps, simp del: swap_ends.simps)

declare swap_ends.simps [simp del] itoa_loop.simps [simp del]

lemma swap_ends_rev: "xs \<noteq> [] \<Longrightarrow> swap_ends 0 (length xs - 1) xs = rev xs"
  by (rule nth_equalityI) (auto simp: swap_ends_nth rev_nth)

definition digit_val :: "u8 \<Rightarrow> nat" where
  "digit_val c = (if c < 58 then unat c - 48 else if c < 91 then unat c - 55 else unat c - 87)"

text \<open>The number a string of digits stands for.\<close>

definition num_val :: "nat \<Rightarrow> u8 list \<Rightarrow> nat" where
  "num_val base cs = foldl (\<lambda>a c. a * base + digit_val c) 0 cs"

fun low_val :: "nat \<Rightarrow> u8 list \<Rightarrow> nat" where
  "low_val base [] = 0"
| "low_val base (c # cs) = digit_val c + base * low_val base cs"

lemma num_val_rev: "num_val base (rev cs) = low_val base cs"
  by (induction cs) (auto simp: num_val_def)

lemma digit_val_itoa:
  assumes "d < 16"
  shows "digit_val (itoa_digit d up) = unat d" "d \<noteq> 0 \<Longrightarrow> itoa_digit d up \<noteq> 48"
proof -
  have u: "unat d < 16" using assms by (simp add: word_less_nat_alt)
  then have d: "d = of_nat (unat d)" by simp
  have t: "\<forall>n < 16. digit_val (itoa_digit (of_nat n) True) = n \<and> (n \<noteq> 0 \<longrightarrow> itoa_digit (of_nat n) True \<noteq> 48)" by code_simp
  have f: "\<forall>n < 16. digit_val (itoa_digit (of_nat n) False) = n \<and> (n \<noteq> 0 \<longrightarrow> itoa_digit (of_nat n) False \<noteq> 48)" by code_simp
  have "\<forall>n < 16. digit_val (itoa_digit (of_nat n) up) = n \<and> (n \<noteq> 0 \<longrightarrow> itoa_digit (of_nat n) up \<noteq> 48)"
  proof (cases up)
    case True
    then have "up = True" by simp
    then show ?thesis using t by (simp only:)
  next
    case False
    then have "up = False" by simp
    then show ?thesis using f by (simp only:)
  qed
  then have "digit_val (itoa_digit (of_nat (unat d)) up) = unat d \<and> (unat d \<noteq> 0 \<longrightarrow> itoa_digit (of_nat (unat d)) up \<noteq> 48)"
    using u by blast
  then show "digit_val (itoa_digit d up) = unat d" "d \<noteq> 0 \<Longrightarrow> itoa_digit d up \<noteq> 48" by (simp_all add: unat_eq_zero)
qed

lemma itoa_loop_val:
  assumes base: "1 < base" "base \<le> 16"
  shows "low_val (unat base) (itoa_loop v base up) = unat v"
proof (induction "unat v" arbitrary: v rule: less_induct)
  case less
  have b: "1 < unat base" using base(1) by (simp add: word_less_nat_alt)
  show ?case
  proof (cases "v = 0")
    case False
    then have "unat (v div base) < unat v" using b unat_eq_zero [of v] by (simp add: unat_div del: unat_eq_zero)
    from less [OF this] have IH: "low_val (unat base) (itoa_loop (v div base) base up) = unat v div unat base" by (simp add: unat_div)
    have "unat v mod unat base < unat base" using b by simp
    then have "v mod base < 16" using base(2) by (simp add: word_less_nat_alt word_le_nat_alt unat_mod)
    then show ?thesis using False base IH by (subst itoa_loop.simps) (simp add: digit_val_itoa unat_mod word_neq_0_conv [symmetric])
  qed (simp add: itoa_loop.simps)
qed

lemma itoa_loop_length:
  assumes base: "1 < base"
  shows "unat v < unat base ^ n \<Longrightarrow> length (itoa_loop v base up) \<le> n"
proof (induction n arbitrary: v)
  case 0
  then show ?case by (simp add: itoa_loop.simps unat_eq_zero)
next
  case (Suc n)
  have "unat (v div base) < unat base ^ n" using Suc.prems by (simp add: unat_div less_mult_imp_div_less mult.commute)
  from Suc.IH [OF this] show ?case by (subst itoa_loop.simps) simp
qed

lemma itoa_loop_last:
  assumes base: "1 < base" "base \<le> 16"
  shows "v \<noteq> 0 \<Longrightarrow> itoa_loop v base up \<noteq> [] \<and> last (itoa_loop v base up) \<noteq> 48"
proof (induction "unat v" arbitrary: v rule: less_induct)
  case less
  have b: "1 < unat base" using base(1) by (simp add: word_less_nat_alt)
  have e: "itoa_loop v base up = itoa_digit (v mod base) up # itoa_loop (v div base) base up"
    using less.prems base by (subst itoa_loop.simps) (simp add: word_neq_0_conv [symmetric])
  have pos: "0 < unat v" using less.prems by (simp add: unat_pos)
  show ?case
  proof (cases "v div base = 0")
    case True
    then have "unat v div unat base = 0" by (metis unat_div unat_0)
    then have lt: "unat v < unat base" using b by (simp add: div_eq_0_iff)
    then have m: "v mod base = v" by (metis mod_less unat_mod word_unat_eq_iff)
    have "v < 16" using lt base(2) by (simp add: word_less_nat_alt word_le_nat_alt)
    then have "itoa_digit v up \<noteq> 48" using digit_val_itoa(2) less.prems by blast
    then show ?thesis unfolding e True m by (simp add: itoa_loop.simps)
  next
    case False
    have "unat (v div base) < unat v" using b pos by (simp add: unat_div)
    from less.hyps [OF this False] show ?thesis unfolding e by simp
  qed
qed

lemma itoa_spec:
  assumes base: "base = 10 \<or> base = 16"
  shows "num_val (unat base) (itoa_base v base up) = unat v" "length (itoa_base v base up) \<le> 20" "v \<noteq> 0 \<Longrightarrow> hd (itoa_base v base up) \<noteq> 48"
proof -
  have b: "1 < base" "base \<le> 16" using base by auto
  have "unat v < 2 ^ LENGTH(64)" by (rule unsigned_less)
  also have "(2 :: nat) ^ LENGTH(64) \<le> 10 ^ 20" by simp
  also have "(10 :: nat) ^ 20 \<le> unat base ^ 20" using base by (intro power_mono) auto
  finally have len: "length (itoa_loop v base up) \<le> 20" using itoa_loop_length [OF b(1)] by blast
  have r: "itoa_base v base up = rev (itoa_loop v base up)" if "v \<noteq> 0"
    using itoa_loop_last [OF b that] that by (simp add: itoa_base_def Let_def swap_ends_rev [unfolded One_nat_def])
  show "num_val (unat base) (itoa_base v base up) = unat v"
    using itoa_loop_val [OF b, of v up] r by (cases "v = 0") (simp_all add: num_val_rev, simp add: itoa_base_def num_val_def digit_val_def)
  show "length (itoa_base v base up) \<le> 20" using len r by (cases "v = 0") (simp_all add: itoa_base_def)
  show "hd (itoa_base v base up) \<noteq> 48" if "v \<noteq> 0" using itoa_loop_last [OF b that] r [OF that] by (simp add: hd_rev)
qed

section \<open>What the screen shows\<close>

lemma blank_cells_nth: "blank_cells color is b k = (if k \<in> set is then vga_cell color 32 else b k)"
  unfolding blank_cells_def by (induction "is" arbitrary: b) auto

lemma blank_range: "blank_cells color [i..<j] b k = (if i \<le> k \<and> k < j then vga_cell color 32 else b k)"
  by (simp only: blank_cells_nth set_upt atLeastLessThan_iff)

lemma scroll_upto: "fold (\<lambda>i b. b(i := b (i + w))) [0..<n] b k = (if k < n then b (k + w) else b k)" if "0 < (w :: nat)"
proof (induction n arbitrary: k)
  case (Suc n)
  then show ?case using that by (auto simp: less_Suc_eq)
qed simp

lemma scroll_up_nth: "scroll_up b k = (if k < 1920 then b (k + 80) else b k)"
  unfolding scroll_up_def by (simp add: scroll_upto VGA_WIDTH_def VGA_HEIGHT_def)

text \<open>
  The text as a list of lines, the last of which is being written: a newline starts a line, and so
  does the character that fills one.
\<close>

definition type_char :: "u8 list list \<Rightarrow> u8 \<Rightarrow> u8 list list" where
  "type_char ls c =
     (if c = 10 then ls @ [[]]
      else let l = last ls @ [c] in if length l = VGA_WIDTH then butlast ls @ [l, []] else butlast ls @ [l])"

definition text_lines :: "u8 list \<Rightarrow> u8 list list" where
  "text_lines cs = foldl type_char [[]] cs"

definition line_cell :: "u8 \<Rightarrow> u8 list \<Rightarrow> nat \<Rightarrow> u16" where
  "line_cell color l col = vga_cell color (if col < length l then l ! col else 32)"

text \<open>The last 25 lines, from the top of the screen.\<close>

definition visible_lines :: "u8 list list \<Rightarrow> u8 list list" where
  "visible_lines ls = drop (length ls - VGA_HEIGHT) ls"

definition row_cell :: "u8 \<Rightarrow> u8 list list \<Rightarrow> nat \<Rightarrow> nat \<Rightarrow> u16" where
  "row_cell color V row col = (if row < length V then line_cell color (V ! row) col else vga_cell color 32)"

definition screen_is :: "u8 \<Rightarrow> (nat \<Rightarrow> u16) \<Rightarrow> u8 list list \<Rightarrow> bool" where
  "screen_is color b V \<longleftrightarrow> (\<forall>row < VGA_HEIGHT. \<forall>col < VGA_WIDTH. b (VGA_WIDTH * row + col) = row_cell color V row col)"

lemmas vga_dims = VGA_WIDTH_def VGA_HEIGHT_def

lemma cell_number: "col < 80 \<Longrightarrow> col' < 80 \<Longrightarrow> 80 * row + col = 80 * row' + (col' :: nat) \<longleftrightarrow> row = row' \<and> col = col'"
  by (metis (no_types) add_left_cancel div_less div_mult_self4 mod_less mod_mult_self4 zero_neq_numeral add_cancel_right_right)

lemma screen_put:
  assumes s: "screen_is color b V" and V: "V \<noteq> []" "length V \<le> 25" "length (last V) < 80"
  shows "screen_is color (b(80 * (length V - 1) + length (last V) := vga_cell color c)) (butlast V @ [last V @ [c]])"
  unfolding screen_is_def vga_dims
proof (intro allI impI)
  fix row col :: nat assume r: "row < 25" "col < 80"
  then have old: "b (80 * row + col) = row_cell color V row col" using s by (simp add: screen_is_def vga_dims)
  have lastV: "V ! (length V - 1) = last V" using V(1) by (simp add: last_conv_nth)
  have hit: "80 * row + col = 80 * (length V - 1) + length (last V) \<longleftrightarrow> row = length V - 1 \<and> col = length (last V)"
    using cell_number [OF r(2) V(3)] .
  have new: "row_cell color (butlast V @ [last V @ [c]]) row col = (if row = length V - 1 \<and> col = length (last V) then vga_cell color c else row_cell color V row col)"
  proof (cases "row = length V - 1")
    case True
    then have "(butlast V @ [last V @ [c]]) ! row = last V @ [c]" "row < length V" using V(1) by (simp_all add: nth_append)
    then show ?thesis using True lastV V(1) by (simp add: row_cell_def line_cell_def nth_append less_Suc_eq)
  next
    case False
    then show ?thesis using V(1) by (cases "row < length V - 1") (auto simp: row_cell_def nth_append nth_butlast)
  qed
  show "(b(80 * (length V - 1) + length (last V) := vga_cell color c)) (80 * row + col) = row_cell color (butlast V @ [last V @ [c]]) row col"
    unfolding new fun_upd_def hit using old by simp
qed

lemma screen_new: "screen_is color b V \<Longrightarrow> screen_is color b (V @ [[]])"
  by (auto simp: screen_is_def row_cell_def line_cell_def nth_append less_Suc_eq)

lemma screen_scroll:
  assumes s: "screen_is color b V" and V: "length V = 25"
  shows "screen_is color (blank_cells color [1920..<2000] (scroll_up b)) (tl V @ [[]])"
  unfolding screen_is_def vga_dims
proof (intro allI impI)
  fix row col :: nat assume r: "row < 25" "col < 80"
  show "blank_cells color [1920..<2000] (scroll_up b) (80 * row + col) = row_cell color (tl V @ [[]]) row col"
  proof (cases "row < 24")
    case True
    then have "80 * row + col < 1920" using r by linarith
    then have "blank_cells color [1920..<2000] (scroll_up b) (80 * row + col) = b (80 * Suc row + col)"
      unfolding blank_range scroll_up_nth by (simp add: add.commute add.left_commute)
    also have "\<dots> = row_cell color V (Suc row) col" using s True r(2) unfolding screen_is_def vga_dims by (metis Suc_less_eq eval_nat_numeral(3) semiring_norm(26) semiring_norm(27) semiring_norm(28))
    also have "\<dots> = row_cell color (tl V @ [[]]) row col" using True V by (simp add: row_cell_def nth_append nth_tl)
    finally show ?thesis .
  next
    case False
    then have "row = 24" using r by simp
    then show ?thesis using r V unfolding blank_range by (simp add: row_cell_def line_cell_def nth_append)
  qed
qed

text \<open>The screen shows the text, and the cursor is where the next character goes.\<close>

definition displays :: "u8 \<Rightarrow> vga \<Rightarrow> u8 list list \<Rightarrow> bool" where
  "displays color v ls \<longleftrightarrow> ls \<noteq> [] \<and> length (last ls) < VGA_WIDTH \<and> vga_color v = color \<and>
     unat (cursor_pos v) = VGA_WIDTH * (length (visible_lines ls) - 1) + length (last ls) \<and> screen_is color (vga_buffer v) (visible_lines ls)"

lemma visible_facts:
  assumes "ls \<noteq> []"
  shows "visible_lines ls \<noteq> []" "length (visible_lines ls) \<le> 25" "last (visible_lines ls) = last ls"
    "visible_lines (butlast ls @ [l]) = butlast (visible_lines ls) @ [l]"
    "visible_lines (ls @ [l]) = (if length (visible_lines ls) < 25 then visible_lines ls @ [l] else tl (visible_lines ls) @ [l])"
proof -
  have p: "length ls - 25 < length ls" using assms by (cases ls) auto
  then show "visible_lines ls \<noteq> []" "length (visible_lines ls) \<le> 25" "last (visible_lines ls) = last ls"
    by (simp_all add: visible_lines_def vga_dims)
  show "visible_lines (butlast ls @ [l]) = butlast (visible_lines ls) @ [l]"
    using p by (simp add: visible_lines_def vga_dims drop_butlast)
  show "visible_lines (ls @ [l]) = (if length (visible_lines ls) < 25 then visible_lines ls @ [l] else tl (visible_lines ls) @ [l])"
  proof (cases "length ls < 25")
    case False
    then have "Suc (length ls) - 25 = Suc (length ls - 25)" by simp
    then show ?thesis using False p by (simp add: visible_lines_def vga_dims drop_Suc tl_drop)
  qed (simp add: visible_lines_def vga_dims)
qed

text \<open>The cursor at the end of a line: the next line is started, and the screen scrolled if it is full.\<close>

definition line_feed :: "vga \<Rightarrow> vga" where
  "line_feed v = (if unat (cursor_pos v) \<ge> 2000
     then v\<lparr>vga_buffer := blank_cells (vga_color v) [1920..<2000] (scroll_up (vga_buffer v)), cursor_pos := 1920\<rparr> else v)"

lemma line_feed_displays:
  assumes ls: "ls \<noteq> []" and c: "vga_color v = color" and pos: "unat (cursor_pos v) = 80 * length (visible_lines ls)"
    and s: "screen_is color (vga_buffer v) (visible_lines ls)"
  shows "displays color (line_feed v) (ls @ [[]])"
proof (cases "length (visible_lines ls) < 25")
  case True
  then show ?thesis using c pos screen_new [OF s] visible_facts(5) [OF ls, of "[]"]
    by (simp add: displays_def line_feed_def vga_dims)
next
  case False
  then have n: "length (visible_lines ls) = 25" using visible_facts(2) [OF ls] by simp
  then show ?thesis using c pos screen_scroll [OF s n] visible_facts(5) [OF ls, of "[]"]
    by (simp add: displays_def line_feed_def vga_dims)
qed

lemma vga_putc_feed:
  "vga_putc c v = line_feed (if c = 10 then v\<lparr>cursor_pos := cursor_pos v + (80 - cursor_pos v mod 80)\<rparr>
     else v\<lparr>vga_buffer := (vga_buffer v)(unat (cursor_pos v) := vga_cell (vga_color v) c), cursor_pos := cursor_pos v + 1\<rparr>)"
  by (simp add: vga_putc_def line_feed_def Let_def vga_dims)

lemma vga_putc_displays:
  assumes d: "displays color v ls"
  shows "displays color (vga_putc c v) (type_char ls c)"
proof -
  let ?n = "length (visible_lines ls)" and ?k = "length (last ls)"
  have ls: "ls \<noteq> []" and k: "?k < 80" and col: "vga_color v = color" and pos: "unat (cursor_pos v) = 80 * (?n - 1) + ?k"
    and s: "screen_is color (vga_buffer v) (visible_lines ls)" using d by (auto simp: displays_def vga_dims)
  note vf = visible_facts [OF ls]
  have n: "0 < ?n" "?n \<le> 25" using vf(1,2) by simp_all
  show ?thesis
  proof (cases "c = 10")
    case True
    have "unat (cursor_pos v mod 80) = ?k" using pos k by (simp add: unat_mod)
    then have m: "unat (80 - cursor_pos v mod 80) = 80 - ?k" using k by (subst unat_sub) (simp_all add: word_le_nat_alt)
    have "unat (cursor_pos v + (80 - cursor_pos v mod 80)) = 80 * (?n - 1) + ?k + (80 - ?k)"
      using pos k m n by (subst unat_add_small) simp_all
    also have "\<dots> = 80 * ?n" using n k by (cases ?n) simp_all
    finally show ?thesis using True col s unfolding vga_putc_feed by (simp add: type_char_def line_feed_displays [OF ls])
  next
    case False
    let ?v = "v\<lparr>vga_buffer := (vga_buffer v)(unat (cursor_pos v) := vga_cell (vga_color v) c), cursor_pos := cursor_pos v + 1\<rparr>"
    let ?ls = "butlast ls @ [last ls @ [c]]"
    have vis: "visible_lines ?ls = butlast (visible_lines ls) @ [last (visible_lines ls) @ [c]]" using vf(3,4) by simp
    have ln: "length (visible_lines ?ls) = ?n" unfolding vis using n by simp
    have s': "screen_is color (vga_buffer ?v) (visible_lines ?ls)"
      unfolding vis using screen_put [OF s vf(1,2), of c] k pos col vf(3) by simp
    have p': "unat (cursor_pos ?v) = 80 * (?n - 1) + ?k + 1" using pos k n by (simp add: unat_add_small)
    show ?thesis
    proof (cases "?k + 1 = 80")
      case True
      then have "unat (cursor_pos ?v) = 80 * length (visible_lines ?ls)" using p' n ln by (simp add: diff_mult_distrib2)
      from line_feed_displays [OF _ _ this s'] have "displays color (line_feed ?v) (?ls @ [[]])" using col by simp
      then show ?thesis using False True unfolding vga_putc_feed by (simp add: type_char_def vga_dims Let_def)
    next
      case neq: False
      then have "80 * (?n - 1) + ?k + 1 < 2000" using k n by linarith
      then have "line_feed ?v = ?v" unfolding line_feed_def p' by simp
      moreover have "displays color ?v ?ls" using s' p' ln neq k col by (simp add: displays_def vga_dims)
      ultimately show ?thesis using False neq unfolding vga_putc_feed by (simp add: type_char_def vga_dims Let_def)
    qed
  qed
qed

text \<open>
  C23. The text screen is a terminal: after \<open>vga_clear\<close>, whatever is printed, it shows the last 25 lines
  of the text, wrapped at 80 characters and filled with blanks, and the cursor stands at the end
  of the text; no cell outside the screen is ever written.
\<close>

theorem vga_shows_text:
  "let v' = vga_puts cs (vga_clear v); ls = text_lines cs; V = visible_lines ls in
     screen_is (vga_color v) (vga_buffer v') V \<and> unat (cursor_pos v') = VGA_WIDTH * (length V - 1) + length (last V) \<and>
     length V \<in> {1..VGA_HEIGHT} \<and> length (last V) < VGA_WIDTH"
proof -
  have "displays color v ls \<Longrightarrow> displays color (vga_puts cs v) (foldl type_char ls cs)" for color v ls
    by (induction cs arbitrary: v ls) (simp_all add: vga_putc_displays)
  moreover have "displays (vga_color v) (vga_clear v) [[]]"
    by (simp add: displays_def vga_clear_def vga_dims visible_lines_def screen_is_def blank_range row_cell_def line_cell_def)
  ultimately have "displays (vga_color v) (vga_puts cs (vga_clear v)) (text_lines cs)" by (simp add: text_lines_def vga_clear_def)
  then show ?thesis using visible_facts [of "text_lines cs"] by (auto simp: displays_def Let_def vga_dims Suc_le_eq)
qed

text \<open>
  C36. Printed numbers can be read back: for every 64-bit number \<open>%llu\<close> and \<open>%llx\<close> put on screen and
  serial line the digits of exactly that number, without leading zeros and at most 20 of them, so that the
  buffer of 32 bytes is large enough.
\<close>

theorem kprintf_number_roundtrip:
  "\<exists>s t. kprintf (cstr ''%llu'') [ArgInt v] k = Inr (0, emit_str s k) \<and> num_val 10 s = unat v \<and>
     kprintf (cstr ''%llx'') [ArgInt v] k = Inr (0, emit_str t k) \<and> num_val 16 t = unat v \<and>
     length s \<le> 20 \<and> length t \<le> 20 \<and> (v = 0 \<or> hd s \<noteq> 48 \<and> hd t \<noteq> 48)"
proof -
  have "kprintf (cstr ''%llu'') [ArgInt v] k = Inr (0, emit_str (itoa_base v 10 False) k)"
    "kprintf (cstr ''%llx'') [ArgInt v] k = Inr (0, emit_str (itoa_base v 16 False) k)"
    by (simp_all add: kprintf_def cstr_def directive_def conv_long_def with_int_def emit_padded_def)
  then show ?thesis using itoa_spec [of 10 v False] itoa_spec [of 16 v False]
    by (intro exI [of _ "itoa_base v 10 False"] exI [of _ "itoa_base v 16 False"]) auto
qed

text \<open>
  The smallest 32-bit integer is printed wrongly: \<open>%d\<close> negates it in 32 bits, which leaves it
  negative, and prints the sign-extended value as an unsigned 64-bit number.
\<close>

theorem kprintf_int_min:
  "kprintf (cstr ''%d'') [ArgInt 0x80000000] k = Inr (0, emit_str (cstr ''18446744071562067968'') (emit_char 45 k))"
proof -
  have "itoa_base (scast (- (ucast (0x80000000 :: u64) :: u32))) 10 False = cstr ''18446744071562067968''" by code_simp
  moreover have "sint (ucast (0x80000000 :: u64) :: u32) < 0" by code_simp
  ultimately show ?thesis by (simp add: kprintf_def cstr_def directive_def conv_char_def with_int_def emit_padded_def Let_def)
qed

text \<open>A format that ends in a percent sign is read past its terminator.\<close>

lemma kprintf_trailing_percent: "37 \<notin> set f \<Longrightarrow> kprintf (f @ [37]) args k = Inl Fault"
proof -
  have "37 \<notin> set f \<Longrightarrow> kprintf_loop (f @ [37]) args k = Inl Fault" for k
    by (induction f arbitrary: k) (auto simp: directive_def)
  then show "37 \<notin> set f \<Longrightarrow> kprintf (f @ [37]) args k = Inl Fault" by (simp add: kprintf_def)
qed

text \<open>A byte of a multi-byte character has its sign bit set: its cell loses the colour.\<close>

lemma vga_high_char:
  assumes "bit c 7"
  shows "vga_cell color c = 0xFF00 OR ucast c"
proof (rule bit_word_eqI)
  fix n assume n: "n < LENGTH(16)"
  have m: "(0xFF00 :: u16) = push_bit 8 (mask 8)" by (simp add: mask_eq_exp_minus_1)
  show "bit (vga_cell color c) n \<longleftrightarrow> bit (0xFF00 OR ucast c :: u16) n"
    unfolding vga_cell_def m using n assms by (cases "n < 7"; cases "n = 7") (auto simp: bit_simps min_def)
qed

end
