(* ===== verification/Pe.thy ===== *)
theory Pe
  imports Bytes CString
begin

text \<open>
  The loader's view of Windows executables: the parser of \<^verbatim>\<open>src/compat/pe_parser.c\<close> and the checks of
  \<^verbatim>\<open>src/compat/pe_validator.c\<close>. A file is a byte list; every header the code overlays on the file is a
  \<open>view\<close>, which is \<open>Fault\<close> when it leaves the file. Offsets are 32-bit and wrap around.
\<close>

section \<open>Structures\<close>

definition PE_DOS_MAGIC :: u16 where "PE_DOS_MAGIC = 0x5A4D"
definition PE_NT_SIGNATURE :: u32 where "PE_NT_SIGNATURE = 0x00004550"
definition PE_OPT_MAGIC_PE32_PLUS :: u16 where "PE_OPT_MAGIC_PE32_PLUS = 0x20B"
definition PE_MAX_SECTIONS :: nat where "PE_MAX_SECTIONS = 16"
definition PE_MAX_DATA_DIRECTORIES :: nat where "PE_MAX_DATA_DIRECTORIES = 16"
definition PE_MACHINE_AMD64 :: u16 where "PE_MACHINE_AMD64 = 0x8664"
definition PE_DIR_ENTRY_EXPORT :: nat where "PE_DIR_ENTRY_EXPORT = 0"
definition PE_DIR_ENTRY_IMPORT :: nat where "PE_DIR_ENTRY_IMPORT = 1"
definition PE_DIR_ENTRY_BASERELOC :: nat where "PE_DIR_ENTRY_BASERELOC = 5"
definition PE_DIR_ENTRY_TLS :: nat where "PE_DIR_ENTRY_TLS = 9"
definition PE_SUBSYSTEM_CONSOLE :: u16 where "PE_SUBSYSTEM_CONSOLE = 3"
definition PE_SUBSYSTEM_GUI :: u16 where "PE_SUBSYSTEM_GUI = 2"

record pe_dos_header =
  e_magic :: u16
  e_lfanew :: u32

definition parse_dos :: "u8 list \<Rightarrow> pe_dos_header" where
  "parse_dos b = \<lparr>e_magic = rd16 b 0, e_lfanew = rd32 b 60\<rparr>"

record pe_coff_header =
  machine :: u16
  number_of_sections :: u16
  size_of_optional_header :: u16

definition parse_coff :: "u8 list \<Rightarrow> pe_coff_header" where
  "parse_coff b = \<lparr>machine = rd16 b 0, number_of_sections = rd16 b 2, size_of_optional_header = rd16 b 16\<rparr>"

record pe_optional_header64 =
  opt_magic :: u16
  address_of_entry_point :: u32
  opt_image_base :: u64
  opt_section_alignment :: u32
  opt_file_alignment :: u32
  opt_size_of_image :: u32
  opt_size_of_headers :: u32
  opt_subsystem :: u16
  opt_stack_reserve :: u64
  opt_stack_commit :: u64
  number_of_rva_and_sizes :: u32

definition parse_opt :: "u8 list \<Rightarrow> pe_optional_header64" where
  "parse_opt b = \<lparr>opt_magic = rd16 b 0, address_of_entry_point = rd32 b 16, opt_image_base = rd64 b 24,
     opt_section_alignment = rd32 b 32, opt_file_alignment = rd32 b 36, opt_size_of_image = rd32 b 56, opt_size_of_headers = rd32 b 60,
     opt_subsystem = rd16 b 68, opt_stack_reserve = rd64 b 72, opt_stack_commit = rd64 b 80, number_of_rva_and_sizes = rd32 b 108\<rparr>"

record pe_section_info =
  s_name :: "u8 list"
  s_rva :: u32
  virtual_size :: u32
  raw_size :: u32
  raw_offset :: u32
  s_characteristics :: u32

text \<open>A section header in the file: name, virtual size and address, raw size and offset, flags.\<close>

definition parse_section :: "u8 list \<Rightarrow> pe_section_info" where
  "parse_section b = \<lparr>s_name = take 8 b, s_rva = rd32 b 12, virtual_size = rd32 b 8, raw_size = rd32 b 16, raw_offset = rd32 b 20,
     s_characteristics = rd32 b 36\<rparr>"

record pe_directory_entry =
  d_rva :: u32
  d_size :: u32

record pe_image_info =
  valid :: bool
  image_base :: u64
  entry_point :: u64
  size_of_image :: u32
  size_of_headers :: u32
  section_alignment :: u32
  file_alignment :: u32
  section_count :: u16
  subsystem :: u16
  size_of_stack_reserve :: u64
  size_of_stack_commit :: u64
  sections :: "pe_section_info list"
  data_dirs :: "pe_directory_entry list"
  has_imports :: bool
  has_exports :: bool
  has_relocs :: bool
  has_tls :: bool

definition pe_section0 :: pe_section_info where
  "pe_section0 = \<lparr>s_name = [], s_rva = 0, virtual_size = 0, raw_size = 0, raw_offset = 0, s_characteristics = 0\<rparr>"

definition pe_image_info0 :: pe_image_info where
  "pe_image_info0 = \<lparr>valid = False, image_base = 0, entry_point = 0, size_of_image = 0, size_of_headers = 0, section_alignment = 0,
     file_alignment = 0, section_count = 0, subsystem = 0, size_of_stack_reserve = 0, size_of_stack_commit = 0,
     sections = replicate PE_MAX_SECTIONS pe_section0, data_dirs = replicate PE_MAX_DATA_DIRECTORIES \<lparr>d_rva = 0, d_size = 0\<rparr>,
     has_imports = False, has_exports = False, has_relocs = False, has_tls = False\<rparr>"

section \<open>Parsing\<close>

definition safe_range :: "u32 \<Rightarrow> u32 \<Rightarrow> u32 \<Rightarrow> bool" where
  "safe_range off sz fsize = (if off > fsize then False else if sz > fsize - off then False else True)"

definition view :: "u8 list \<Rightarrow> nat \<Rightarrow> nat \<Rightarrow> u8 list res" where
  "view d off n = (if off + n \<le> length d then Inr (take n (drop off d)) else Inl Fault)"

definition pe_rva_to_offset :: "pe_image_info \<Rightarrow> u32 \<Rightarrow> u32 option" where
  "pe_rva_to_offset info rva =
     (if rva < size_of_headers info then Some rva
      else case first_idx (\<lambda>s. raw_size s > 0 \<and> rva \<ge> s_rva s \<and> rva < s_rva s + virtual_size s) (take (unat (section_count info)) (sections info)) of
        Some i \<Rightarrow> (let s = sections info ! i in Some (raw_offset s + (rva - s_rva s)))
      | None \<Rightarrow> None)"

definition pe_get_directory_name :: "int \<Rightarrow> string" where
  "pe_get_directory_name i =
     (if 0 \<le> i \<and> i < 15 then [''EXPORT'', ''IMPORT'', ''RESOURCE'', ''EXCEPTION'', ''SECURITY'', ''BASERELOC'', ''DEBUG'', ''ARCHITECTURE'',
         ''GLOBALPTR'', ''TLS'', ''LOAD_CONFIG'', ''BOUND_IMPORT'', ''IAT'', ''DELAY_IMPORT'', ''COM_DESCRIPTOR''] ! nat i
      else ''UNKNOWN'')"

text \<open>The data directories, when they lie in the file; otherwise the table stays zero.\<close>

definition parse_dirs :: "u8 list \<Rightarrow> u32 \<Rightarrow> u32 \<Rightarrow> u32 \<Rightarrow> pe_directory_entry list res" where
  "parse_dirs d data_dir_off declared fsize =
     (let num_dirs = (if unat declared > PE_MAX_DATA_DIRECTORIES then PE_MAX_DATA_DIRECTORIES else unat declared);
          empty = replicate PE_MAX_DATA_DIRECTORIES \<lparr>d_rva = 0, d_size = 0\<rparr>
      in if safe_range data_dir_off (of_nat (num_dirs * 8)) fsize then
           rbind (view d (unat data_dir_off) (num_dirs * 8)) (\<lambda>b.
             Inr (map (\<lambda>i. \<lparr>d_rva = rd32 b (8 * i), d_size = rd32 b (8 * i + 4)\<rparr>) [0..<num_dirs] @ drop num_dirs empty))
         else Inr empty)"

definition dir_present :: "pe_directory_entry list \<Rightarrow> nat \<Rightarrow> bool" where
  "dir_present ds i \<longleftrightarrow> d_rva (ds ! i) \<noteq> 0 \<and> d_size (ds ! i) \<noteq> 0"

text \<open>The part of the parser after the optional header has been accepted.\<close>

definition pe_build :: "u8 list \<Rightarrow> u32 \<Rightarrow> u32 \<Rightarrow> pe_coff_header \<Rightarrow> pe_optional_header64 \<Rightarrow> (int \<times> pe_image_info) res" where
  "pe_build d fsize opt_off coff opt =
     (let sec_off = opt_off + ucast (size_of_optional_header coff);
          n = unat (number_of_sections coff)
      in if \<not> safe_range sec_off (of_nat (n * 40)) fsize then Inr (-1, pe_image_info0)
         else rbind (view d (unat sec_off) (n * 40)) (\<lambda>tbl.
           rbind (parse_dirs d (opt_off + 112) (number_of_rva_and_sizes opt) fsize) (\<lambda>dirs.
             Inr (0, \<lparr>valid = True, image_base = opt_image_base opt, entry_point = opt_image_base opt + ucast (address_of_entry_point opt),
               size_of_image = opt_size_of_image opt, size_of_headers = opt_size_of_headers opt,
               section_alignment = opt_section_alignment opt, file_alignment = opt_file_alignment opt,
               section_count = number_of_sections coff, subsystem = opt_subsystem opt,
               size_of_stack_reserve = opt_stack_reserve opt, size_of_stack_commit = opt_stack_commit opt,
               sections = map (\<lambda>i. parse_section (take 40 (drop (40 * i) tbl))) [0..<n] @ drop n (sections pe_image_info0),
               data_dirs = dirs, has_imports = dir_present dirs PE_DIR_ENTRY_IMPORT, has_exports = dir_present dirs PE_DIR_ENTRY_EXPORT,
               has_relocs = dir_present dirs PE_DIR_ENTRY_BASERELOC, has_tls = dir_present dirs PE_DIR_ENTRY_TLS\<rparr>))))"

definition pe_parse_image :: "u8 list option \<Rightarrow> u32 \<Rightarrow> (int \<times> pe_image_info) res" where
  "pe_parse_image file_data fsize =
     (case file_data of None \<Rightarrow> Inr (-1, pe_image_info0)
      | Some d \<Rightarrow>
        if fsize < 64 then Inr (-1, pe_image_info0)
        else rbind (view d 0 64) (\<lambda>b0. let dos = parse_dos b0 in
          if e_magic dos \<noteq> PE_DOS_MAGIC then Inr (-1, pe_image_info0)
          else if \<not> safe_range (e_lfanew dos) 24 fsize then Inr (-1, pe_image_info0)
          else rbind (view d (unat (e_lfanew dos)) 4) (\<lambda>b1.
            if rd32 b1 0 \<noteq> PE_NT_SIGNATURE then Inr (-1, pe_image_info0)
            else rbind (view d (unat (e_lfanew dos) + 4) 20) (\<lambda>b2. let coff = parse_coff b2 in
              if machine coff \<noteq> PE_MACHINE_AMD64 then Inr (-1, pe_image_info0)
              else if number_of_sections coff = 0 \<or> unat (number_of_sections coff) > PE_MAX_SECTIONS then Inr (-1, pe_image_info0)
              else let opt_off = e_lfanew dos + 24 in
                if \<not> safe_range opt_off (ucast (size_of_optional_header coff)) fsize then Inr (-1, pe_image_info0)
                else if unat (size_of_optional_header coff) < 112 then Inr (-1, pe_image_info0)
                else rbind (view d (unat opt_off) 112) (\<lambda>b3. let opt = parse_opt b3 in
                  if opt_magic opt \<noteq> PE_OPT_MAGIC_PE32_PLUS then Inr (-1, pe_image_info0)
                  else if opt_section_alignment opt < 512 \<or> opt_file_alignment opt < 512 then Inr (-1, pe_image_info0)
                  else if opt_size_of_image opt AND (opt_section_alignment opt - 1) \<noteq> 0 then Inr (-1, pe_image_info0)
                  else if opt_size_of_image opt = 0 then Inr (-1, pe_image_info0)
                  else pe_build d fsize opt_off coff opt)))))"

section \<open>Validation\<close>

definition section_ok :: "pe_image_info \<Rightarrow> u32 \<Rightarrow> nat \<Rightarrow> bool" where
  "section_ok info fsize i \<longleftrightarrow>
     (let s = sections info ! i; sec_end = s_rva s + virtual_size s in
      s_rva s AND (section_alignment info - 1) = 0 \<and> \<not> sec_end > size_of_image info \<and>
      (raw_size s > 0 \<longrightarrow> \<not> raw_offset s \<ge> fsize \<and> \<not> raw_size s > fsize - raw_offset s) \<and>
      (\<forall>j < i. let s2 = sections info ! j; s2_end = s_rva s2 + virtual_size s2 in \<not> (s_rva s < s2_end \<and> s_rva s2 < sec_end)))"

definition pe_validate_image :: "bool \<Rightarrow> u32 \<Rightarrow> pe_image_info \<Rightarrow> int" where
  "pe_validate_image null_data fsize info =
     (if null_data \<or> \<not> valid info then -1
      else if size_of_image info = 0 \<or> size_of_headers info = 0 then -1
      else if entry_point info < image_base info then -1
      else if size_of_headers info > size_of_image info then -1
      else if size_of_headers info > fsize then -1
      else if section_count info = 0 then -1
      else if \<forall>i < unat (section_count info). section_ok info fsize i then 0 else -1)"

definition pe_validate_headers :: "bool \<Rightarrow> u32 \<Rightarrow> pe_image_info \<Rightarrow> int" where
  "pe_validate_headers null_data fsize info = pe_validate_image null_data fsize info"

definition pe_validate_sections :: "pe_image_info \<Rightarrow> int" where
  "pe_validate_sections info =
     (if \<not> valid info then -1
      else if \<exists>i < unat (section_count info). virtual_size (sections info ! i) = 0 \<and> raw_size (sections info ! i) = 0 then -1 else 0)"

record pe_validation_result =
  header_ok :: bool
  section_table_ok :: bool
  alignment_ok :: bool
  overlapping_sections :: bool
  valid_machine :: bool
  valid_opt_magic :: bool
  valid_subsystem :: bool
  image_size_ok :: bool
  entry_point_ok :: bool

definition pe_validation0 :: pe_validation_result where
  "pe_validation0 = \<lparr>header_ok = False, section_table_ok = False, alignment_ok = False, overlapping_sections = False, valid_machine = False,
     valid_opt_magic = False, valid_subsystem = False, image_size_ok = False, entry_point_ok = False\<rparr>"

text \<open>The flags of the full report; the message string is left out.\<close>

definition pe_validate_full :: "bool \<Rightarrow> u32 \<Rightarrow> pe_image_info \<Rightarrow> int \<times> pe_validation_result" where
  "pe_validate_full null_data fsize info =
     (if null_data \<or> \<not> valid info then (-1, pe_validation0)
      else let n = unat (section_count info); s = (\<lambda>i. sections info ! i);
               r = \<lparr>header_ok = \<not> size_of_headers info > fsize \<and> \<not> size_of_headers info < 200,
                    section_table_ok = True,
                    alignment_ok = \<not> size_of_headers info > size_of_image info \<and>
                      (\<forall>i < n. s_rva (s i) AND (section_alignment info - 1) = 0),
                    overlapping_sections = (\<exists>i < n. \<exists>j < i. s_rva (s i) < s_rva (s j) + virtual_size (s j) \<and> s_rva (s j) < s_rva (s i) + virtual_size (s i)),
                    valid_machine = True, valid_opt_magic = True,
                    valid_subsystem = (subsystem info = PE_SUBSYSTEM_CONSOLE \<or> subsystem info = PE_SUBSYSTEM_GUI),
                    image_size_ok = (\<forall>i < n. \<not> (virtual_size (s i) > 0 \<and> s_rva (s i) + virtual_size (s i) > size_of_image info)),
                    entry_point_ok = \<not> entry_point info < image_base info\<rparr>
           in (if header_ok r \<and> section_table_ok r \<and> alignment_ok r \<and> \<not> overlapping_sections r \<and> image_size_ok r \<and> entry_point_ok r then 0 else -1, r))"

section \<open>Properties\<close>

lemma safe_range_iff: "safe_range off sz fsize \<longleftrightarrow> unat off + unat sz \<le> unat fsize"
proof (cases "off \<le> fsize")
  case True
  then have "unat (fsize - off) = unat fsize - unat off" "unat off \<le> unat fsize" by (simp_all add: unat_sub_le word_le_nat_alt)
  then show ?thesis using True by (auto simp: safe_range_def word_less_nat_alt)
qed (auto simp: safe_range_def word_le_nat_alt word_less_nat_alt)

lemma view_ok: "off + n \<le> length d \<Longrightarrow> view d off n = Inr (take n (drop off d))"
  by (simp add: view_def)

lemma parse_dirs_ok:
  assumes "unat fsize \<le> length d"
  shows "\<exists>ds. parse_dirs d off declared fsize = Inr ds \<and> length ds = PE_MAX_DATA_DIRECTORIES"
proof -
  let ?n = "if unat declared > PE_MAX_DATA_DIRECTORIES then PE_MAX_DATA_DIRECTORIES else unat declared"
  have n: "?n \<le> 16" by (simp add: PE_MAX_DATA_DIRECTORIES_def)
  then have "unat (of_nat (?n * 8) :: u32) = ?n * 8" by (intro unat_of_nat_small) simp
  then have "view d (unat off) (?n * 8) = Inr (take (?n * 8) (drop (unat off) d))" if "safe_range off (of_nat (?n * 8)) fsize"
    using that assms unfolding safe_range_iff by (intro view_ok) linarith
  then show ?thesis using n by (auto simp: parse_dirs_def Let_def PE_MAX_DATA_DIRECTORIES_def)
qed

definition image_wf :: "pe_image_info \<Rightarrow> bool" where
  "image_wf info \<longleftrightarrow> length (sections info) = PE_MAX_SECTIONS \<and> length (data_dirs info) = PE_MAX_DATA_DIRECTORIES \<and>
     unat (section_count info) \<le> PE_MAX_SECTIONS"

lemma image_wf0: "image_wf pe_image_info0"
  by (simp add: image_wf_def pe_image_info0_def)

definition parse_ok :: "(int \<times> pe_image_info) res \<Rightarrow> bool" where
  "parse_ok x \<longleftrightarrow> (\<exists>r info. x = Inr (r, info) \<and> image_wf info \<and> (r = 0 \<or> r = -1) \<and> (valid info \<longleftrightarrow> r = 0))"

lemma parse_ok_fail: "parse_ok (Inr (-1, pe_image_info0))"
  using image_wf0 by (simp add: parse_ok_def pe_image_info0_def)

lemma parse_ok_view: "off + n \<le> length d \<Longrightarrow> (\<And>b. parse_ok (f b)) \<Longrightarrow> parse_ok (rbind (view d off n) f)"
  by (simp add: view_ok)

lemma pe_build_ok:
  assumes "unat fsize \<le> length d" "unat (number_of_sections coff) \<le> PE_MAX_SECTIONS"
  shows "parse_ok (pe_build d fsize opt_off coff opt)"
proof -
  let ?n = "unat (number_of_sections coff)"
  let ?so = "opt_off + ucast (size_of_optional_header coff)"
  have n: "?n \<le> 16" using assms(2) by (simp add: PE_MAX_SECTIONS_def)
  then have u: "unat (of_nat (?n * 40) :: u32) = ?n * 40" by (intro unat_of_nat_small) simp
  obtain ds where ds: "parse_dirs d (opt_off + 112) (number_of_rva_and_sizes opt) fsize = Inr ds" "length ds = PE_MAX_DATA_DIRECTORIES"
    using parse_dirs_ok [OF assms(1)] by blast
  show ?thesis
  proof (cases "safe_range ?so (of_nat (?n * 40)) fsize")
    case True
    then have "view d (unat ?so) (?n * 40) = Inr (take (?n * 40) (drop (unat ?so) d))"
      using assms(1) u unfolding safe_range_iff by (intro view_ok) linarith
    then show ?thesis using True ds n
      by (simp add: parse_ok_def pe_build_def Let_def image_wf_def PE_MAX_SECTIONS_def pe_image_info0_def)
  next
    case False
    then show ?thesis using parse_ok_fail by (simp add: pe_build_def Let_def)
  qed
qed

text \<open>
  C20. The parser is memory safe on every input: whatever bytes a file of the given size contains, no header,
  table or directory is read outside the file, and the tables it fills stay within their 16
  entries. It reports success exactly when it marks the image valid.
\<close>

theorem pe_parse_safe:
  assumes size: "unat fsize \<le> length d"
  shows "\<exists>r info. pe_parse_image (Some d) fsize = Inr (r, info) \<and> image_wf info \<and> (r = 0 \<or> r = -1) \<and> (valid info \<longleftrightarrow> r = 0)"
proof -
  have "parse_ok (pe_parse_image (Some d) fsize)"
  proof (cases "fsize < 64")
    case True
    then show ?thesis using parse_ok_fail by (simp add: pe_parse_image_def)
  next
    case False
    then have v0: "view d 0 64 = Inr (take 64 d)" using size by (simp add: not_less word_le_nat_alt view_def)
    define dos where "dos = parse_dos (take 64 d)"
    have pos: "unat (e_lfanew dos) + 24 \<le> length d" "unat (e_lfanew dos + 24) = unat (e_lfanew dos) + 24" if "safe_range (e_lfanew dos) 24 fsize"
    proof -
      have a: "unat (e_lfanew dos) + 24 \<le> unat fsize" using that by (simp add: safe_range_iff)
      then show "unat (e_lfanew dos) + 24 \<le> length d" using size by simp
      have "unat fsize < 2 ^ LENGTH(32)" by (rule unsigned_less)
      with a show "unat (e_lfanew dos + 24) = unat (e_lfanew dos) + 24" by (subst unat_add_small) simp_all
    qed
    have opt: "unat (e_lfanew dos + 24) + 112 \<le> length d"
      if "safe_range (e_lfanew dos) 24 fsize" "safe_range (e_lfanew dos + 24) (ucast h) fsize" "\<not> unat (h :: u16) < 112" for h
    proof -
      have "unat h < 2 ^ LENGTH(16)" by (rule unsigned_less)
      then have "unat (ucast h :: u32) = unat h" by (simp add: unsigned_ucast_eq take_bit_eq_mod)
      then show ?thesis using that pos(2) [OF that(1)] size by (simp add: safe_range_iff)
    qed
    show ?thesis
      unfolding pe_parse_image_def option.case Let_def
      using False v0 pos opt
      by (auto simp: dos_def [symmetric] parse_ok_fail not_less intro!: parse_ok_view pe_build_ok [OF size])
  qed
  then show ?thesis by (simp add: parse_ok_def)
qed

theorem pe_parse_safe_witness:
  "\<exists>r info. pe_parse_image (Some (cstr ''MZ'' @ replicate 58 0 @ [64, 0, 0, 0] @ replicate 200 1)) 264 = Inr (r, info) \<and> image_wf info"
proof -
  let ?d = "cstr ''MZ'' @ replicate 58 0 @ [64, 0, 0, 0] @ replicate 200 1"
  have "unat (264 :: u32) \<le> length ?d" by (simp add: cstr_def)
  from pe_parse_safe [OF this] show ?thesis by blast
qed


definition pe_example :: pe_image_info where
  "pe_example = pe_image_info0\<lparr>valid := True, size_of_image := 0x4000, size_of_headers := 0x400, section_alignment := 0x1000,
     section_count := 2, sections := [pe_section0\<lparr>s_rva := 0x1000, virtual_size := 0x1000, raw_size := 0x200, raw_offset := 0x400\<rparr>,
       pe_section0\<lparr>s_rva := 0x2000, virtual_size := 0x800\<rparr>]\<rparr>"


text \<open>
  The end of a section is computed with wrap-around, so validation accepts an image with a
  section far outside it.
\<close>

theorem pe_validate_accepts_wrap:
  "\<exists>info. pe_validate_image False 0x1000 info = 0 \<and> 0 < unat (section_count info) \<and>
     unat (size_of_image info) < unat (s_rva (sections info ! 0)) \<and> 0 < unat (virtual_size (sections info ! 0))"
proof -
  let ?i = "pe_example\<lparr>section_count := 1, sections := [pe_section0\<lparr>s_rva := 0xFFFFF000, virtual_size := 0x2000\<rparr>]\<rparr>"
  have "pe_validate_image False 0x1000 ?i = 0 \<and> 0 < unat (section_count ?i) \<and>
     unat (size_of_image ?i) < unat (s_rva (sections ?i ! 0)) \<and> 0 < unat (virtual_size (sections ?i ! 0))"
    by (simp add: pe_validate_image_def section_ok_def pe_example_def pe_image_info0_def pe_section0_def Let_def)
  then show ?thesis by blast
qed

end
