(* ===== verification/PeLoader.thy ===== *)
theory PeLoader
  imports Vfs Pe
begin

text \<open>
  The loader of \<^verbatim>\<open>src/compat/pe_loader.c\<close>: a parsed and validated executable is copied from the file into a
  block of the kernel heap and its relocations are applied there. The state is the heap and the
  bytes of memory. A read outside the file and a write outside the block are \<open>Fault\<close>.
\<close>

section \<open>Loading\<close>

record pe_loaded_image =
  li_base :: addr
  li_entry :: u64
  mapped_size :: u32
  actual_load_base :: u32
  li_loaded :: bool
  relocs_applied :: bool

definition pe_loaded0 :: pe_loaded_image where
  "pe_loaded0 = \<lparr>li_base = 0, li_entry = 0, mapped_size = 0, actual_load_base = 0, li_loaded = False, relocs_applied = False\<rparr>"

record loader =
  lheap :: heap
  lbytes :: "addr \<Rightarrow> u8"

text \<open>\<open>memcpy\<close> from offset \<open>off\<close> of the file to offset \<open>dst\<close> of a block of \<open>bsize\<close> bytes at \<open>mem\<close>.\<close>

definition copy_file :: "u8 list \<Rightarrow> u32 \<Rightarrow> u32 \<Rightarrow> addr \<Rightarrow> u32 \<Rightarrow> u32 \<Rightarrow> (addr \<Rightarrow> u8) \<Rightarrow> (addr \<Rightarrow> u8) res" where
  "copy_file d off n mem bsize dst m =
     (if unat off + unat n \<le> length d \<and> unat dst + unat n \<le> unat bsize
      then Inr (put_bytes m (mem + ucast dst) (take (unat n) (drop (unat off) d))) else Inl Fault)"

fun load_sections :: "u8 list \<Rightarrow> u32 \<Rightarrow> u32 \<Rightarrow> addr \<Rightarrow> pe_section_info list \<Rightarrow> (addr \<Rightarrow> u8) \<Rightarrow> (bool \<times> (addr \<Rightarrow> u8)) res" where
  "load_sections d fsize isize mem [] m = Inr (True, m)"
| "load_sections d fsize isize mem (s # ss) m =
     (if raw_size s = 0 then load_sections d fsize isize mem ss m
      else if raw_offset s + raw_size s > fsize then Inr (False, m)
      else if s_rva s + raw_size s > isize then Inr (False, m)
      else rbind (copy_file d (raw_offset s) (raw_size s) mem isize (s_rva s) m) (load_sections d fsize isize mem ss))"

definition pe_load_image :: "u8 list option \<Rightarrow> u32 \<Rightarrow> pe_image_info \<Rightarrow> pe_loaded_image \<Rightarrow> loader \<Rightarrow> (int \<times> pe_loaded_image \<times> loader) res" where
  "pe_load_image file_data fsize info out s =
     (case file_data of None \<Rightarrow> Inr (-1, out, s)
      | Some d \<Rightarrow>
        if \<not> valid info then Inr (-1, out, s)
        else if size_of_image info = 0 \<or> size_of_image info > 16 * 1024 * 1024 then Inr (-1, out, s)
        else rbind (kmalloc (ucast (size_of_image info)) (lheap s)) (\<lambda>(mem, h).
          if mem = 0 then Inr (-1, pe_loaded0, s\<lparr>lheap := h\<rparr>)
          else
            let m0 = put_bytes (lbytes s) mem (replicate (unat (size_of_image info)) 0);
                hdr_copy = (if size_of_headers info > fsize then fsize else size_of_headers info)
            in rbind (copy_file d 0 hdr_copy mem (size_of_image info) 0 m0) (\<lambda>m1.
               rbind (load_sections d fsize (size_of_image info) mem (take (unat (section_count info)) (sections info)) m1) (\<lambda>(ok, m2).
                 if \<not> ok then rbind (kfree mem h) (\<lambda>h1. Inr (-1, pe_loaded0, \<lparr>lheap = h1, lbytes = m2\<rparr>))
                 else Inr (0, \<lparr>li_base = mem, li_entry = mem + ucast (ucast (entry_point info - image_base info) :: u32),
                               mapped_size = size_of_image info, actual_load_base = ucast mem, li_loaded = True, relocs_applied = False\<rparr>,
                           \<lparr>lheap = h, lbytes = m2\<rparr>)))))"

definition pe_unload_image :: "pe_loaded_image \<Rightarrow> loader \<Rightarrow> (pe_loaded_image \<times> loader) res" where
  "pe_unload_image img s =
     rbind (if li_base img \<noteq> 0 then rbind (kfree (li_base img) (lheap s)) (\<lambda>h. Inr (s\<lparr>lheap := h\<rparr>)) else Inr s) (\<lambda>s1.
       Inr (img\<lparr>li_base := 0, li_entry := 0, mapped_size := 0, li_loaded := False, relocs_applied := False\<rparr>, s1))"

text \<open>Imports are resolved elsewhere; the entry point of the loader is a stub.\<close>

definition pe_resolve_imports :: "pe_loaded_image \<Rightarrow> pe_image_info \<Rightarrow> u8 list \<Rightarrow> u32 \<Rightarrow> int" where
  "pe_resolve_imports img info file_data fsize = 0"

section \<open>Relocations\<close>

definition PE_REL_BASED_ABSOLUTE :: u16 where "PE_REL_BASED_ABSOLUTE = 0"
definition PE_REL_BASED_HIGH :: u16 where "PE_REL_BASED_HIGH = 1"
definition PE_REL_BASED_LOW :: u16 where "PE_REL_BASED_LOW = 2"
definition PE_REL_BASED_HIGHLOW :: u16 where "PE_REL_BASED_HIGHLOW = 3"
definition PE_REL_BASED_DIR64 :: u16 where "PE_REL_BASED_DIR64 = 10"

definition le64 :: "u64 \<Rightarrow> u8 list" where
  "le64 w = le32 (ucast w) @ le32 (ucast (drop_bit 32 w))"

text \<open>The field of the given width at offset \<open>off\<close> of the image is replaced.\<close>

definition patch_bytes :: "pe_loaded_image \<Rightarrow> nat \<Rightarrow> nat \<Rightarrow> (u8 list \<Rightarrow> u8 list) \<Rightarrow> (addr \<Rightarrow> u8) \<Rightarrow> (addr \<Rightarrow> u8) res" where
  "patch_bytes img off n f m =
     (if off + n \<le> unat (mapped_size img)
      then Inr (put_bytes m (li_base img + of_nat off) (f (get_bytes m (li_base img + of_nat off) n))) else Inl Fault)"

definition apply_reloc :: "pe_loaded_image \<Rightarrow> u64 \<Rightarrow> u32 \<Rightarrow> u16 \<Rightarrow> (addr \<Rightarrow> u8) \<Rightarrow> (addr \<Rightarrow> u8) res" where
  "apply_reloc img delta page_rva entry m =
     (let ty = drop_bit 12 entry AND 0xF; off = unat page_rva + unat (entry AND 0xFFF) in
      if ty = PE_REL_BASED_ABSOLUTE then Inr m
      else if ty = PE_REL_BASED_DIR64 then patch_bytes img off 8 (\<lambda>b. le64 (rd64 b 0 + delta)) m
      else if ty = PE_REL_BASED_HIGHLOW then patch_bytes img off 4 (\<lambda>b. le32 (rd32 b 0 + ucast delta)) m
      else if ty = PE_REL_BASED_HIGH then patch_bytes img off 2 (\<lambda>b. le16 (rd16 b 0 + ucast (drop_bit 16 delta))) m
      else if ty = PE_REL_BASED_LOW then patch_bytes img off 2 (\<lambda>b. le16 (rd16 b 0 + ucast delta)) m
      else Inr m)"

definition read_file :: "u8 list \<Rightarrow> u32 \<Rightarrow> u32 \<Rightarrow> nat \<Rightarrow> u8 list res" where
  "read_file d fsize pos n = (if unat pos + n \<le> unat fsize then view d (unat pos) n else Inl Fault)"

fun reloc_entries :: "u8 list \<Rightarrow> u32 \<Rightarrow> pe_loaded_image \<Rightarrow> u64 \<Rightarrow> u32 \<Rightarrow> u32 \<Rightarrow> nat \<Rightarrow> u32 \<Rightarrow> (addr \<Rightarrow> u8) \<Rightarrow> (u32 \<times> (addr \<Rightarrow> u8)) res" where
  "reloc_entries d fsize img delta page_rva entries_end 0 pos m = Inr (pos, m)"
| "reloc_entries d fsize img delta page_rva entries_end (Suc n) pos m =
     (if pos + 2 \<le> entries_end then
        rbind (read_file d fsize pos 2) (\<lambda>b.
          rbind (apply_reloc img delta page_rva (rd16 b 0) m) (reloc_entries d fsize img delta page_rva entries_end n (pos + 2)))
      else Inr (pos, m))"

lemma reloc_entries_pos:
  "reloc_entries d fsize img delta page_rva entries_end n pos m = Inr (pos', m') \<Longrightarrow> unat pos \<le> unat pos'"
proof (induction n arbitrary: pos m)
  case (Suc n)
  show ?case
  proof (cases "pos + 2 \<le> entries_end")
    case True
    with Suc.prems obtain b m1 where b: "read_file d fsize pos 2 = Inr b" "reloc_entries d fsize img delta page_rva entries_end n (pos + 2) m1 = Inr (pos', m')"
      by (auto simp: rbind_Inr_iff)
    have "unat fsize < 2 ^ LENGTH(32)" by (rule unsigned_less)
    with b(1) have "unat (pos + 2) = unat pos + 2" by (subst unat_add_small) (auto simp: read_file_def split: if_splits)
    with Suc.IH [OF b(2)] show ?thesis by simp
  qed (use Suc.prems in auto)
qed simp

function reloc_blocks :: "u8 list \<Rightarrow> u32 \<Rightarrow> pe_loaded_image \<Rightarrow> u64 \<Rightarrow> u32 \<Rightarrow> u32 \<Rightarrow> (addr \<Rightarrow> u8) \<Rightarrow> (addr \<Rightarrow> u8) res" where
  "reloc_blocks d fsize img delta end_pos pos m =
     (if unat pos + 8 \<le> unat end_pos then
        (case read_file d fsize pos 8 of Inl e \<Rightarrow> Inl e
         | Inr b \<Rightarrow>
           let page_rva = rd32 b 0; block_size = rd32 b 4 in
           if block_size < 8 then Inr m
           else (case reloc_entries d fsize img delta page_rva (pos + block_size) (unat ((block_size - 8) div 2)) (pos + 8) m of
                   Inl e \<Rightarrow> Inl e
                 | Inr (pos', m') \<Rightarrow> reloc_blocks d fsize img delta end_pos pos' m'))
      else Inr m)"
  by pat_completeness auto
termination
proof (relation "measure (\<lambda>(d, fsize, img, delta, end_pos, pos, m). 2 ^ 32 - unat pos)", goal_cases)
  case (2 d fsize img delta end_pos pos m b page_rva block_size pm pos' m')
  have "unat end_pos < 2 ^ LENGTH(32)" by (rule unsigned_less)
  then have "unat (pos + 8) = unat pos + 8" using 2(1) by (subst unat_add_small) simp_all
  moreover have "unat (pos + 8) \<le> unat pos'" using 2 reloc_entries_pos by metis
  ultimately show ?case using \<open>unat end_pos < 2 ^ LENGTH(32)\<close> 2(1) by simp
qed simp

definition pe_apply_relocations :: "u8 list option \<Rightarrow> u32 \<Rightarrow> pe_image_info \<Rightarrow> pe_loaded_image \<Rightarrow> loader \<Rightarrow> (int \<times> pe_loaded_image \<times> loader) res" where
  "pe_apply_relocations file_data fsize info img s =
     (case file_data of None \<Rightarrow> Inr (-1, img, s)
      | Some d \<Rightarrow>
        if li_base img = 0 then Inr (-1, img, s)
        else if \<not> has_relocs info then Inr (0, img, s)
        else
          let dir = data_dirs info ! PE_DIR_ENTRY_BASERELOC; reloc_rva = d_rva dir; reloc_size = d_size dir in
          if reloc_rva = 0 \<or> reloc_size = 0 then Inr (0, img, s)
          else case pe_rva_to_offset info reloc_rva of None \<Rightarrow> Inr (-1, img, s)
          | Some reloc_off \<Rightarrow>
              if reloc_off > fsize \<or> reloc_size > fsize - reloc_off then Inr (-1, img, s)
              else let delta = li_base img - image_base info in
                if delta = 0 then Inr (0, img\<lparr>relocs_applied := True\<rparr>, s)
                else rbind (reloc_blocks d fsize img delta (reloc_off + reloc_size) reloc_off (lbytes s)) (\<lambda>m.
                  Inr (0, img\<lparr>relocs_applied := True\<rparr>, s\<lparr>lbytes := m\<rparr>)))"

section \<open>The loaded image\<close>

lemma put_bytes_rel:
  assumes "off + length xs \<le> 2 ^ 64" "k < 2 ^ 64"
  shows "put_bytes m (a + of_nat off) xs (a + of_nat k) = (if off \<le> k \<and> k < off + length xs then xs ! (k - off) else m (a + of_nat k))"
proof (cases "off \<le> k \<and> k < off + length xs")
  case True
  then have e: "a + of_nat k = a + of_nat off + of_nat (k - off)" by (simp add: of_nat_diff)
  have "get_bytes (put_bytes m (a + of_nat off) xs) (a + of_nat off) (length xs) ! (k - off) = xs ! (k - off)"
    using assms(1) by (subst get_put_bytes) simp_all
  moreover have "k - off < length xs" using True by linarith
  ultimately have "put_bytes m (a + of_nat off) xs (a + of_nat off + of_nat (k - off)) = xs ! (k - off)" by (simp add: get_bytes_def)
  then show ?thesis using True unfolding e [symmetric] by simp
next
  case False
  have "a + of_nat k \<noteq> a + of_nat off + of_nat j" if "j < length xs" for j
  proof
    assume "a + of_nat k = a + of_nat off + of_nat j"
    then have "(of_nat k :: addr) = of_nat (off + j)" by simp
    moreover have "off + j < 2 ^ 64" using that assms(1) by linarith
    moreover from this have "unat (of_nat (off + j) :: addr) = off + j" by (intro unat_of_nat_small) simp
    moreover have "unat (of_nat k :: addr) = k" using assms(2) by (intro unat_of_nat_small) simp
    ultimately have "k = off + j" by metis
    then show False using False that by simp
  qed
  then show ?thesis using False by (subst put_bytes_frame) auto
qed

definition sec_bytes :: "u8 list \<Rightarrow> pe_section_info \<Rightarrow> u8 list" where
  "sec_bytes d s = take (unat (raw_size s)) (drop (unat (raw_offset s)) d)"

text \<open>The raw data of the section lies in the file and fits the image at its address.\<close>

definition sec_fits :: "u8 list \<Rightarrow> u32 \<Rightarrow> u32 \<Rightarrow> pe_section_info \<Rightarrow> bool" where
  "sec_fits d fsize isize s \<longleftrightarrow> (raw_size s > 0 \<longrightarrow> unat (raw_offset s) + unat (raw_size s) \<le> unat fsize) \<and>
     unat (s_rva s) + unat (raw_size s) \<le> unat isize"

definition sec_range :: "pe_section_info \<Rightarrow> nat set" where
  "sec_range s = {unat (s_rva s)..<unat (s_rva s) + unat (raw_size s)}"

lemma load_sections_Cons:
  assumes "sec_fits d fsize isize s" "length d = unat fsize"
  shows "load_sections d fsize isize mem (s # ss) m =
    load_sections d fsize isize mem ss (put_bytes m (mem + of_nat (unat (s_rva s))) (sec_bytes d s))"
proof (cases "raw_size s = 0")
  case False
  then have f: "unat (raw_offset s) + unat (raw_size s) \<le> unat fsize" "unat (s_rva s) + unat (raw_size s) \<le> unat isize"
    using assms(1) by (auto simp: sec_fits_def word_neq_0_conv)
  have "unat fsize < 2 ^ LENGTH(32)" "unat isize < 2 ^ LENGTH(32)" by (rule unsigned_less)+
  with f have "unat (raw_offset s + raw_size s) = unat (raw_offset s) + unat (raw_size s)" "unat (s_rva s + raw_size s) = unat (s_rva s) + unat (raw_size s)"
    by (simp_all add: unat_add_small)
  then have "\<not> raw_offset s + raw_size s > fsize" "\<not> s_rva s + raw_size s > isize" using f by (simp_all add: word_less_nat_alt)
  then show ?thesis using False f assms(2) by (simp add: copy_file_def sec_bytes_def)
qed (simp add: sec_bytes_def)

lemma load_sections_spec:
  assumes "\<forall>s \<in> set ss. sec_fits d fsize isize s" "length d = unat fsize"
  shows "\<exists>m'. load_sections d fsize isize mem ss m = Inr (True, m') \<and>
    (\<forall>k < 2 ^ 64. (\<forall>s \<in> set ss. k \<notin> sec_range s) \<longrightarrow> m' (mem + of_nat k) = m (mem + of_nat k)) \<and>
    (sorted_wrt (\<lambda>s t. sec_range s \<inter> sec_range t = {}) ss \<longrightarrow>
       (\<forall>s \<in> set ss. \<forall>k < unat (raw_size s). m' (mem + of_nat (unat (s_rva s) + k)) = sec_bytes d s ! k))"
  using assms(1)
proof (induction ss arbitrary: m)
  case (Cons s ss)
  let ?m = "put_bytes m (mem + of_nat (unat (s_rva s))) (sec_bytes d s)"
  have f: "sec_fits d fsize isize s" using Cons.prems by simp
  from Cons.IH [of ?m] Cons.prems obtain m' where m': "load_sections d fsize isize mem ss ?m = Inr (True, m')"
    "\<forall>k < 2 ^ 64. (\<forall>s \<in> set ss. k \<notin> sec_range s) \<longrightarrow> m' (mem + of_nat k) = ?m (mem + of_nat k)"
    "sorted_wrt (\<lambda>s t. sec_range s \<inter> sec_range t = {}) ss \<longrightarrow>
       (\<forall>s \<in> set ss. \<forall>k < unat (raw_size s). m' (mem + of_nat (unat (s_rva s) + k)) = sec_bytes d s ! k)" by auto
  have len: "length (sec_bytes d s) = unat (raw_size s)"
    using f assms(2) by (cases "raw_size s = 0") (auto simp: sec_bytes_def sec_fits_def word_neq_0_conv)
  have "unat isize < 2 ^ LENGTH(32)" by (rule unsigned_less)
  then have b: "unat (s_rva s) + unat (raw_size s) < 2 ^ 32" using f by (simp add: sec_fits_def)
  have at: "?m (mem + of_nat k) = (if k \<in> sec_range s then sec_bytes d s ! (k - unat (s_rva s)) else m (mem + of_nat k))" if "k < 2 ^ 64" for k
    using put_bytes_rel [of "unat (s_rva s)" "sec_bytes d s" k m mem] that b len by (simp add: sec_range_def)
  have out: "m' (mem + of_nat k) = m (mem + of_nat k)" if "k < 2 ^ 64" "\<forall>t \<in> set (s # ss). k \<notin> sec_range t" for k
    using m'(2) at [OF that(1)] that by simp
  have own: "m' (mem + of_nat (unat (s_rva s) + k)) = sec_bytes d s ! k"
    if "k < unat (raw_size s)" "\<forall>t \<in> set ss. sec_range s \<inter> sec_range t = {}" for k
  proof -
    have r: "unat (s_rva s) + k \<in> sec_range s" "unat (s_rva s) + k < 2 ^ 64" using that(1) b by (auto simp: sec_range_def)
    then have "\<forall>t \<in> set ss. unat (s_rva s) + k \<notin> sec_range t" using that(2) by blast
    then have "m' (mem + of_nat (unat (s_rva s) + k)) = ?m (mem + of_nat (unat (s_rva s) + k))" using m'(2) r(2) by blast
    also have "\<dots> = sec_bytes d s ! k" using at [OF r(2)] r(1) by simp
    finally show ?thesis .
  qed
  show ?case
    using m'(1,3) out own by (intro exI [of _ m']) (simp only: load_sections_Cons [OF f assms(2)] sorted_wrt.simps set_simps, auto)
qed simp

lemma validated_sections:
  assumes ok: "pe_validate_image False fsize info = 0" and wf: "image_wf info"
    and small: "\<forall>k < unat (section_count info). unat (s_rva (sections info ! k)) + unat (virtual_size (sections info ! k)) < 2 ^ 32 \<and>
      raw_size (sections info ! k) \<le> virtual_size (sections info ! k)"
  shows "\<forall>s \<in> set (take (unat (section_count info)) (sections info)). sec_fits d fsize (size_of_image info) s"
    "sorted_wrt (\<lambda>s t. sec_range s \<inter> sec_range t = {}) (take (unat (section_count info)) (sections info))"
proof -
  let ?n = "unat (section_count info)"
  have n: "?n \<le> length (sections info)" using wf by (simp add: image_wf_def)
  have so: "section_ok info fsize i" if "i < ?n" for i using ok that by (auto simp: pe_validate_image_def split: if_splits)
  have nw: "unat (s_rva (sections info ! i) + virtual_size (sections info ! i)) = unat (s_rva (sections info ! i)) + unat (virtual_size (sections info ! i))"
    "unat (raw_size (sections info ! i)) \<le> unat (virtual_size (sections info ! i))" if "i < ?n" for i
    using small that by (simp_all add: unat_add_small word_le_nat_alt)
  have fits: "sec_fits d fsize (size_of_image info) (sections info ! i)" if i: "i < ?n" for i
  proof -
    let ?s = "sections info ! i"
    have "unat (raw_offset ?s) + unat (raw_size ?s) \<le> unat fsize" if "raw_size ?s > 0"
    proof -
      have o: "\<not> raw_offset ?s \<ge> fsize" "\<not> raw_size ?s > fsize - raw_offset ?s" using so [OF i] that by (auto simp: section_ok_def Let_def)
      then have "unat (fsize - raw_offset ?s) = unat fsize - unat (raw_offset ?s)" by (intro unat_sub_le) (simp add: not_le less_imp_le)
      with o show ?thesis unfolding word_less_nat_alt word_le_nat_alt by linarith
    qed
    moreover have "\<not> s_rva ?s + virtual_size ?s > size_of_image info" using so [OF i] by (auto simp: section_ok_def Let_def)
    then have "unat (s_rva ?s) + unat (raw_size ?s) \<le> unat (size_of_image info)" using nw [OF i] unfolding word_less_nat_alt by linarith
    ultimately show ?thesis by (simp add: sec_fits_def)
  qed
  then show "\<forall>s \<in> set (take ?n (sections info)). sec_fits d fsize (size_of_image info) s"
    using n by (auto simp: in_set_conv_nth)
  have disj: "sec_range (sections info ! j) \<inter> sec_range (sections info ! i) = {}" if "j < i" "i < ?n" for i j
  proof -
    let ?s = "sections info ! i" and ?t = "sections info ! j"
    have "\<not> (s_rva ?s < s_rva ?t + virtual_size ?t \<and> s_rva ?t < s_rva ?s + virtual_size ?s)"
      using so [OF that(2)] that(1) by (auto simp: section_ok_def Let_def)
    then have "unat (s_rva ?t) + unat (virtual_size ?t) \<le> unat (s_rva ?s) \<or> unat (s_rva ?s) + unat (virtual_size ?s) \<le> unat (s_rva ?t)"
      using nw(1) [OF that(2)] nw(1) [of j] that unfolding word_less_nat_alt by linarith
    then show ?thesis using nw(2) [OF that(2)] nw(2) [of j] that unfolding sec_range_def by fastforce
  qed
  then show "sorted_wrt (\<lambda>s t. sec_range s \<inter> sec_range t = {}) (take ?n (sections info))"
    using n by (simp add: sorted_wrt_iff_nth_less)
qed

lemma kmalloc_block:
  assumes inv: "heap_inv h L" and sz: "sz \<noteq> 0"
  obtains (failed) h' where "kmalloc sz h = Inr (0, h')" "heap_inv h' L"
  | (block) a h' where "kmalloc sz h = Inr (user_ptr h' a, h')" "a \<notin> L" "heap_inv h' (insert a L)" "user_ptr h' a \<noteq> 0" "ksize (user_ptr h' a) h' = sz"
  using inv sz
proof (cases rule: kmalloc_cases)
  case (fits s n)
  have geo: "heap_geometry h" using inv by (simp add: heap_inv_def)
  have up: "user_ptr (heap_take s sz h) (s, n, sz) = block_addr h s + HEADER_SIZE" by (simp add: user_ptr_def [of h])
  have "(s, n, sz) \<notin> L" using fits(3,9) by (force simp: blocks_of_def)
  moreover have "s < unat (total_blocks h)" using fits by simp
  moreover from fits(8) have "ksize (user_ptr (heap_take s sz h) (s, n, sz)) (heap_take s sz h) = sz"
    by (cases rule: region_layout [where a = "(s, n, sz)"]) auto
  ultimately show thesis using fits(1,8) user_ptr_simps(1) [OF geo, of s] up by (intro block [of "heap_take s sz h" "(s, n, sz)"]) simp_all
qed blast

text \<open>The bytes of a section in memory.\<close>

definition section_loaded :: "u8 list \<Rightarrow> pe_loaded_image \<Rightarrow> (addr \<Rightarrow> u8) \<Rightarrow> pe_section_info \<Rightarrow> bool" where
  "section_loaded d img m s \<longleftrightarrow>
     get_bytes m (li_base img + ucast (s_rva s)) (unat (raw_size s)) = take (unat (raw_size s)) (drop (unat (raw_offset s)) d)"

lemma loaded_frame:
  assumes fits: "\<forall>s \<in> set ss. sec_fits d fsize isize s" and len: "length d = unat fsize" and hc: "unat hc \<le> unat isize" "unat hc \<le> length d"
    and dis: "sorted_wrt (\<lambda>s t. sec_range s \<inter> sec_range t = {}) ss"
  obtains m1 m2 where "copy_file d 0 hc mem isize 0 (put_bytes m mem (replicate (unat isize) 0)) = Inr m1"
    "load_sections d fsize isize mem ss m1 = Inr (True, m2)"
    "\<forall>x. (\<forall>k < unat isize. x \<noteq> mem + of_nat k) \<longrightarrow> m2 x = m x"
    "\<forall>s \<in> set ss. get_bytes m2 (mem + ucast (s_rva s)) (unat (raw_size s)) = sec_bytes d s"
proof -
  let ?m0 = "put_bytes m mem (replicate (unat isize) 0)"
  let ?m1 = "put_bytes ?m0 mem (take (unat hc) d)"
  have c: "copy_file d 0 hc mem isize 0 ?m0 = Inr ?m1" using hc by (simp add: copy_file_def)
  obtain m2 where m2: "load_sections d fsize isize mem ss ?m1 = Inr (True, m2)"
    "\<forall>k < 2 ^ 64. (\<forall>s \<in> set ss. k \<notin> sec_range s) \<longrightarrow> m2 (mem + of_nat k) = ?m1 (mem + of_nat k)"
    "\<forall>s \<in> set ss. \<forall>k < unat (raw_size s). m2 (mem + of_nat (unat (s_rva s) + k)) = sec_bytes d s ! k"
    using load_sections_spec [OF fits len, of mem ?m1] dis by blast
  have "m2 x = m x" if x: "\<forall>k < unat isize. x \<noteq> mem + of_nat k" for x
  proof -
    have xe: "x = mem + of_nat (unat (x - mem))" by simp
    have big: "unat isize \<le> unat (x - mem)" using x xe by (metis not_le)
    have "unat (x - mem) < 2 ^ LENGTH(64)" by (rule unsigned_less)
    then have "unat (x - mem) < 2 ^ 64" by simp
    moreover have "\<forall>s \<in> set ss. unat (x - mem) \<notin> sec_range s" using fits big by (auto simp: sec_fits_def sec_range_def)
    ultimately have "m2 (mem + of_nat (unat (x - mem))) = ?m1 (mem + of_nat (unat (x - mem)))" using m2(2) by blast
    then have "m2 x = ?m1 x" by (simp only: xe [symmetric])
    moreover have "?m1 x = ?m0 x" by (rule put_bytes_frame) (metis hc(1) length_take min_less_iff_conj order_less_le_trans x)
    moreover have "?m0 x = m x" by (rule put_bytes_frame) (use x in simp)
    ultimately show ?thesis by simp
  qed
  moreover have "get_bytes m2 (mem + ucast (s_rva s)) (unat (raw_size s)) = sec_bytes d s" if s: "s \<in> set ss" for s
  proof -
    have "length (sec_bytes d s) = unat (raw_size s)"
      using fits s len by (cases "raw_size s = 0") (auto simp: sec_bytes_def sec_fits_def word_neq_0_conv)
    moreover have "mem + ucast (s_rva s) + of_nat k = mem + of_nat (unat (s_rva s) + k)" for k by (simp add: add.assoc)
    ultimately show ?thesis using m2(3) s by (intro nth_equalityI) (simp_all add: get_bytes_def add.assoc)
  qed
  ultimately show thesis using c m2(1) that by blast
qed

section \<open>Properties\<close>


definition pe_load_example :: pe_image_info where
  "pe_load_example = pe_image_info0\<lparr>valid := True, size_of_image := 0x4000, size_of_headers := 0x400, section_alignment := 0x1000,
     section_count := 2, sections := [pe_section0\<lparr>s_rva := 0x1000, virtual_size := 0x1000, raw_size := 0x200, raw_offset := 0x400\<rparr>,
       pe_section0\<lparr>s_rva := 0x2000, virtual_size := 0x800\<rparr>] @ replicate 14 pe_section0\<rparr>"


section \<open>Relocation of a block\<close>

lemma rd64_le64: "rd64 (le64 w) 0 = w"
proof -
  have r: "rd32 (le64 w) 0 = ucast w" "rd32 (le64 w) 4 = ucast (drop_bit 32 w)"
    using join32 [of "ucast w"] join32 [of "ucast (drop_bit 32 w)"] by (simp_all add: le64_def le32_def rd32_def)
  have "push_bit 32 (ucast (ucast (drop_bit 32 w) :: u32)) OR ucast (ucast w :: u32) = w"
  proof (rule bit_word_eqI)
    fix n assume "n < LENGTH(64)"
    then consider "n < 32" | "32 \<le> n" "n < 64" by fastforce
    then show "bit (push_bit 32 (ucast (ucast (drop_bit 32 w) :: u32)) OR ucast (ucast w :: u32) :: u64) n = bit w n"
      by cases (auto simp: bit_simps)
  qed
  then show ?thesis by (simp add: rd64_def r)
qed

fun reloc_list :: "pe_loaded_image \<Rightarrow> u64 \<Rightarrow> u32 \<Rightarrow> u16 list \<Rightarrow> (addr \<Rightarrow> u8) \<Rightarrow> (addr \<Rightarrow> u8) res" where
  "reloc_list img delta page [] m = Inr m"
| "reloc_list img delta page (e # es) m = rbind (apply_reloc img delta page e m) (reloc_list img delta page es)"

lemma reloc_entries_list:
  assumes "unat pos + 2 * n \<le> unat eend" "unat pos + 2 * n \<le> unat fsize" "length d = unat fsize"
  shows "reloc_entries d fsize img delta page eend n pos m =
    rbind (reloc_list img delta page (map (\<lambda>k. rd16 d (unat pos + 2 * k)) [0..<n]) m) (\<lambda>m'. Inr (pos + of_nat (2 * n), m'))"
  using assms(1,2)
proof (induction n arbitrary: pos m)
  case (Suc n)
  have "unat fsize < 2 ^ LENGTH(32)" by (rule unsigned_less)
  then have p2: "unat (pos + 2) = unat pos + 2" using Suc.prems by (subst unat_add_small) simp_all
  then have le: "pos + 2 \<le> eend" using Suc.prems by (simp add: word_le_nat_alt)
  have rd: "read_file d fsize pos 2 = Inr (take 2 (drop (unat pos) d))" using Suc.prems assms(3) by (simp add: read_file_def view_def)
  have e: "rd16 (take 2 (drop (unat pos) d)) 0 = rd16 d (unat pos)" using Suc.prems assms(3) by (simp add: rd16_def)
  have l: "map (\<lambda>k. rd16 d (unat pos + 2 * k)) [0..<Suc n] = rd16 d (unat pos) # map (\<lambda>k. rd16 d (unat (pos + 2) + 2 * k)) [0..<n]"
    unfolding upt_conv_Cons [OF zero_less_Suc] map_Suc_upt [symmetric] p2 by (simp add: o_def)
  have IH: "reloc_entries d fsize img delta page eend n (pos + 2) m1 =
      rbind (reloc_list img delta page (map (\<lambda>k. rd16 d (unat (pos + 2) + 2 * k)) [0..<n]) m1) (\<lambda>m'. Inr (pos + 2 + of_nat (2 * n), m'))" for m1
    using Suc.prems p2 by (intro Suc.IH) simp_all
  show ?case unfolding reloc_entries.simps l using le rd e IH
    by (cases "apply_reloc img delta page (rd16 d (unat pos)) m") (simp_all add: algebra_simps)
qed simp

definition dir64 :: "u16 \<Rightarrow> bool" where
  "dir64 e \<longleftrightarrow> drop_bit 12 e AND 0xF = PE_REL_BASED_DIR64"

definition fix_off :: "u32 \<Rightarrow> u16 \<Rightarrow> nat" where
  "fix_off page e = unat page + unat (e AND 0xFFF)"

text \<open>The 64-bit field at an offset of the image.\<close>

definition field64 :: "pe_loaded_image \<Rightarrow> (addr \<Rightarrow> u8) \<Rightarrow> nat \<Rightarrow> u64" where
  "field64 img m off = rd64 (get_bytes m (li_base img + of_nat off) 8) 0"

lemma get_bytes_cong: "(\<And>k. k < n \<Longrightarrow> m (a + of_nat k) = m' (a + of_nat k)) \<Longrightarrow> get_bytes m a n = get_bytes m' a n"
  by (simp add: get_bytes_def)

lemma patch64:
  assumes "off + 8 \<le> unat (mapped_size img)"
  obtains m' where "patch_bytes img off 8 (\<lambda>b. le64 (rd64 b 0 + delta)) m = Inr m'"
    "field64 img m' off = field64 img m off + delta"
    "\<forall>k < 2 ^ 64. (k < off \<or> off + 8 \<le> k) \<longrightarrow> m' (li_base img + of_nat k) = m (li_base img + of_nat k)"
proof -
  have "unat (mapped_size img) < 2 ^ LENGTH(32)" by (rule unsigned_less)
  then have b: "off + 8 \<le> 2 ^ 64" using assms by simp
  let ?v = "le64 (rd64 (get_bytes m (li_base img + of_nat off) 8) 0 + delta)"
  let ?m = "put_bytes m (li_base img + of_nat off) ?v"
  have len: "length ?v = 8" by (simp add: le64_def le32_def)
  have "field64 img ?m off = field64 img m off + delta"
    using get_put_bytes [of ?v m "li_base img + of_nat off"] len by (simp add: field64_def rd64_le64)
  moreover have "\<forall>k < 2 ^ 64. (k < off \<or> off + 8 \<le> k) \<longrightarrow> ?m (li_base img + of_nat k) = m (li_base img + of_nat k)"
    using put_bytes_rel [of off ?v] b len by auto
  ultimately show thesis using assms that by (simp add: patch_bytes_def)
qed

lemma apply_reloc_simps:
  "drop_bit 12 e AND 0xF = PE_REL_BASED_ABSOLUTE \<Longrightarrow> apply_reloc img delta page e m = Inr m"
  "dir64 e \<Longrightarrow> apply_reloc img delta page e m = patch_bytes img (fix_off page e) 8 (\<lambda>b. le64 (rd64 b 0 + delta)) m"
  by (simp_all add: apply_reloc_def dir64_def fix_off_def Let_def PE_REL_BASED_ABSOLUTE_def PE_REL_BASED_DIR64_def)

text \<open>Two fields do not overlap.\<close>

definition apart :: "u32 \<Rightarrow> u16 \<Rightarrow> u16 \<Rightarrow> bool" where
  "apart page e f \<longleftrightarrow> (dir64 e \<and> dir64 f \<longrightarrow> fix_off page e + 8 \<le> fix_off page f \<or> fix_off page f + 8 \<le> fix_off page e)"

definition touched :: "u32 \<Rightarrow> u16 list \<Rightarrow> nat \<Rightarrow> bool" where
  "touched page es k \<longleftrightarrow> (\<exists>e \<in> set es. dir64 e \<and> fix_off page e \<le> k \<and> k < fix_off page e + 8)"

lemma field64_cong:
  assumes "\<And>k. off \<le> k \<Longrightarrow> k < off + 8 \<Longrightarrow> m (li_base img + of_nat k) = m' (li_base img + of_nat k)"
  shows "field64 img m off = field64 img m' off"
proof -
  have "get_bytes m (li_base img + of_nat off) 8 = get_bytes m' (li_base img + of_nat off) 8"
  proof (rule get_bytes_cong)
    fix k :: nat assume "k < 8"
    then have "m (li_base img + of_nat (off + k)) = m' (li_base img + of_nat (off + k))" by (intro assms) simp_all
    then show "m (li_base img + of_nat off + of_nat k) = m' (li_base img + of_nat off + of_nat k)" by (simp add: add.assoc)
  qed
  then show ?thesis by (simp add: field64_def)
qed

lemma reloc_list_dir64:
  assumes "\<forall>e \<in> set es. drop_bit 12 e AND 0xF = PE_REL_BASED_ABSOLUTE \<or> dir64 e \<and> fix_off page e + 8 \<le> unat (mapped_size img)"
    "sorted_wrt (apart page) es"
  shows "\<exists>m'. reloc_list img delta page es m = Inr m' \<and>
    (\<forall>k < 2 ^ 64. \<not> touched page es k \<longrightarrow> m' (li_base img + of_nat k) = m (li_base img + of_nat k)) \<and>
    (\<forall>e \<in> set es. dir64 e \<longrightarrow> field64 img m' (fix_off page e) = field64 img m (fix_off page e) + delta)"
  using assms
proof (induction es arbitrary: m)
  case (Cons e es)
  have b: "unat (mapped_size img) < 2 ^ LENGTH(32)" by (rule unsigned_less)
  show ?case
  proof (cases "dir64 e")
    case False
    then have "apply_reloc img delta page e m = Inr m" using Cons.prems by (auto simp: apply_reloc_simps)
    then show ?thesis using Cons.IH [of m] Cons.prems False by (simp add: touched_def)
  next
    case True
    then have fit: "fix_off page e + 8 \<le> unat (mapped_size img)"
      using Cons.prems(1) by (auto simp: dir64_def PE_REL_BASED_ABSOLUTE_def PE_REL_BASED_DIR64_def)
    obtain m1 where m1: "patch_bytes img (fix_off page e) 8 (\<lambda>b. le64 (rd64 b 0 + delta)) m = Inr m1"
      "field64 img m1 (fix_off page e) = field64 img m (fix_off page e) + delta"
      "\<forall>k < 2 ^ 64. (k < fix_off page e \<or> fix_off page e + 8 \<le> k) \<longrightarrow> m1 (li_base img + of_nat k) = m (li_base img + of_nat k)"
      using patch64 [OF fit] by blast
    obtain m2 where m2: "reloc_list img delta page es m1 = Inr m2"
      "\<forall>k < 2 ^ 64. \<not> touched page es k \<longrightarrow> m2 (li_base img + of_nat k) = m1 (li_base img + of_nat k)"
      "\<forall>f \<in> set es. dir64 f \<longrightarrow> field64 img m2 (fix_off page f) = field64 img m1 (fix_off page f) + delta"
      using Cons.IH [of m1] Cons.prems by auto
    have small: "k < 2 ^ 64" if "k < fix_off page f + 8" "f \<in> set (e # es)" "dir64 f" for f k
    proof -
      have "fix_off page f + 8 \<le> unat (mapped_size img)"
        using Cons.prems(1) that by (auto simp: dir64_def PE_REL_BASED_ABSOLUTE_def PE_REL_BASED_DIR64_def)
      then show ?thesis using that(1) b by simp
    qed
    have "\<not> touched page es k" if "fix_off page e \<le> k" "k < fix_off page e + 8" for k
      using Cons.prems(2) True that by (fastforce simp: touched_def apart_def)
    then have own: "field64 img m2 (fix_off page e) = field64 img m (fix_off page e) + delta"
      using m2(2) m1(2) small [of _ e] True field64_cong [of "fix_off page e" m2 img m1] by simp
    have other: "field64 img m2 (fix_off page f) = field64 img m (fix_off page f) + delta" if f: "f \<in> set es" "dir64 f" for f
    proof -
      have ap: "fix_off page e + 8 \<le> fix_off page f \<or> fix_off page f + 8 \<le> fix_off page e" using Cons.prems(2) True f by (auto simp: apart_def)
      have "field64 img m1 (fix_off page f) = field64 img m (fix_off page f)"
      proof (rule field64_cong)
        fix k assume k: "fix_off page f \<le> k" "k < fix_off page f + 8"
        then have "k < 2 ^ 64" using small [of k f] f by simp
        moreover have "k < fix_off page e \<or> fix_off page e + 8 \<le> k" using ap k by linarith
        ultimately show "m1 (li_base img + of_nat k) = m (li_base img + of_nat k)" using m1(3) by blast
      qed
      then show ?thesis using m2(3) f by simp
    qed
    have "m2 (li_base img + of_nat k) = m (li_base img + of_nat k)" if "k < 2 ^ 64" "\<not> touched page (e # es) k" for k
      using m2(2) m1(3) that True by (auto simp: touched_def not_less)
    then show ?thesis using m1(1) m2(1) True own other by (intro exI [of _ m2]) (simp add: apply_reloc_simps)
  qed
qed simp

lemma rd32_view: "i + 4 \<le> n \<Longrightarrow> rd32 (take n (drop off d)) i = rd32 d (off + i)" if "off + n \<le> length d"
  using that by (simp add: rd32_def add.assoc)

text \<open>A table of one block whose \<open>n\<close> entries fill it.\<close>

lemma reloc_one_block:
  assumes len: "length d = unat fsize" and off: "unat off + unat sz \<le> unat fsize"
    and blk: "unat sz = 8 + 2 * n" "rd32 d (unat off + 4) = sz"
  shows "reloc_blocks d fsize img delta (off + sz) off m =
    reloc_list img delta (rd32 d (unat off)) (map (\<lambda>k. rd16 d (unat off + 8 + 2 * k)) [0..<n]) m"
proof -
  have fb: "unat fsize < 2 ^ LENGTH(32)" by (rule unsigned_less)
  have e: "unat (off + sz) = unat off + unat sz" "unat (off + 8) = unat off + 8" using fb off blk by (simp_all add: unat_add_small)
  have rf: "read_file d fsize off 8 = Inr (take 8 (drop (unat off) d))" using off blk len by (simp add: read_file_def view_def)
  have r: "rd32 (take 8 (drop (unat off) d)) 0 = rd32 d (unat off)" "rd32 (take 8 (drop (unat off) d)) 4 = sz"
    using off blk len by (simp_all add: rd32_view)
  have lt: "\<not> sz < 8" using blk by (simp add: word_less_nat_alt)
  then have "unat (sz - 8) = 2 * n" using blk by (subst unat_sub) (simp_all add: word_le_nat_alt word_less_nat_alt)
  then have cnt: "unat ((sz - 8) div 2) = n" by (simp add: unat_div)
  have pe: "off + 8 + of_nat (2 * n) = off + sz"
  proof -
    have "of_nat (8 + 2 * n) = sz" by (simp only: blk(1) [symmetric]) simp
    then show ?thesis by (simp add: add.assoc)
  qed
  have last: "reloc_blocks d fsize img delta (off + sz) (off + sz) m' = Inr m'" for m' by (subst reloc_blocks.simps) simp
  have q: "unat (off + 8) + 2 * n \<le> unat (off + sz)" "unat (off + 8) + 2 * n \<le> unat fsize" using e blk(1) off by simp_all
  have "reloc_entries d fsize img delta (rd32 d (unat off)) (off + sz) n (off + 8) m =
      rbind (reloc_list img delta (rd32 d (unat off)) (map (\<lambda>k. rd16 d (unat off + 8 + 2 * k)) [0..<n]) m) (\<lambda>m'. Inr (off + sz, m'))"
    using reloc_entries_list [OF q len, of img delta "rd32 d (unat off)" m] by (simp only: pe e(2))
  then show ?thesis
    by (subst reloc_blocks.simps) (cases "reloc_list img delta (rd32 d (unat off)) (map (\<lambda>k. rd16 d (unat off + 8 + 2 * k)) [0..<n]) m",
      simp_all add: rf r lt cnt e(1) blk(1) Let_def last del: reloc_blocks.simps)
qed


definition reloc_file :: "u8 list" where
  "reloc_file = replicate 8 0 @ [0x10, 0, 0, 0, 12, 0, 0, 0, 0x04, 0xA0, 0, 0] @ replicate 12 0"

definition reloc_info :: "u32 \<Rightarrow> pe_image_info" where
  "reloc_info sz = pe_image_info0\<lparr>size_of_headers := 32, image_base := 0x400000, has_relocs := True,
     data_dirs := (data_dirs pe_image_info0)[5 := \<lparr>d_rva = 8, d_size = sz\<rparr>]\<rparr>"

definition reloc_img :: "u32 \<Rightarrow> pe_loaded_image" where
  "reloc_img sz = pe_loaded0\<lparr>li_base := 0x1000, mapped_size := sz, li_loaded := True\<rparr>"

lemma reloc_info_simps [simp]:
  "has_relocs (reloc_info sz)" "image_base (reloc_info sz) = 0x400000" "data_dirs (reloc_info sz) ! PE_DIR_ENTRY_BASERELOC = \<lparr>d_rva = 8, d_size = sz\<rparr>"
  "pe_rva_to_offset (reloc_info sz) 8 = Some 8" "li_base (reloc_img n) = 0x1000" "mapped_size (reloc_img n) = n"
  by (simp_all add: reloc_info_def reloc_img_def pe_image_info0_def PE_DIR_ENTRY_BASERELOC_def PE_MAX_DATA_DIRECTORIES_def pe_rva_to_offset_def)


text \<open>
  The relocation loop trusts the file: an entry of the table may name a field outside the
  image, which the code patches nevertheless, so a file that passes the parser makes the loader
  write outside the memory it allocated.
\<close>

theorem pe_relocation_escapes:
  assumes len: "length d = unat fsize" and img: "li_base img \<noteq> 0" "has_relocs info" "li_base img \<noteq> image_base info"
    and dir: "data_dirs info ! PE_DIR_ENTRY_BASERELOC = \<lparr>d_rva = r, d_size = sz\<rparr>" "r \<noteq> 0"
    and off: "pe_rva_to_offset info r = Some off" "unat off + unat sz \<le> unat fsize"
    and blk: "unat sz = 10" "rd32 d (unat off + 4) = sz" and e: "dir64 (rd16 d (unat off + 8))"
    and out: "unat (mapped_size img) < fix_off (rd32 d (unat off)) (rd16 d (unat off + 8)) + 8"
  shows "pe_apply_relocations (Some d) fsize info img s = Inl Fault"
proof -
  have nz: "sz \<noteq> 0" using blk(1) by auto
  have "unat (fsize - off) = unat fsize - unat off" using off(2) by (intro unat_sub_le) (simp add: word_le_nat_alt)
  then have rng: "\<not> off > fsize" "\<not> sz > fsize - off" using off(2) by (simp_all add: word_less_nat_alt)
  have one: "unat sz = 8 + 2 * 1" using blk(1) by simp
  have "reloc_blocks d fsize img (li_base img - image_base info) (off + sz) off (lbytes s) = Inl Fault"
    unfolding reloc_one_block [OF len off(2) one blk(2)] using e out by (simp add: apply_reloc_simps patch_bytes_def)
  then show ?thesis using img dir off(1) nz rng by (simp add: pe_apply_relocations_def Let_def del: reloc_blocks.simps)
qed

theorem pe_relocation_escapes_witness:
  "pe_apply_relocations (Some (reloc_file[12 := 10])) 32 (reloc_info 10) (reloc_img 16) \<lparr>lheap = boot_heap, lbytes = (\<lambda>_. 0)\<rparr> = Inl Fault"
proof (rule pe_relocation_escapes [where r = 8 and off = 8 and sz = 10])
  show "length (reloc_file[12 := 10]) = unat (32 :: u32)" by (simp add: reloc_file_def)
  show "dir64 (rd16 (reloc_file[12 := 10]) (unat (8 :: u32) + 8))" "rd32 (reloc_file[12 := 10]) (unat (8 :: u32) + 4) = 10"
    "unat (mapped_size (reloc_img 16)) < fix_off (rd32 (reloc_file[12 := 10]) (unat (8 :: u32))) (rd16 (reloc_file[12 := 10]) (unat (8 :: u32) + 8)) + 8" by code_simp+
qed simp_all

end
