(* ===== verification/Modules.thy ===== *)
theory Modules
  imports Pe
begin

text \<open>
  Dynamic linking of Windows executables: the registry of modules and their exports
  (\<^verbatim>\<open>src/compat/module_registry.c\<close>) and the parser and resolver of import tables
  (\<^verbatim>\<open>src/compat/import_resolver.c\<close>). Names are C strings without their terminator; the tables have the
  fixed sizes of the code. A read outside the file is \<open>Fault\<close>.
\<close>

section \<open>The registry\<close>

definition COMPAT_MAX_MODULES :: nat where "COMPAT_MAX_MODULES = 32"
definition COMPAT_MAX_EXPORTS :: nat where "COMPAT_MAX_EXPORTS = 512"
definition COMPAT_MAX_DLL_NAME :: nat where "COMPAT_MAX_DLL_NAME = 64"
definition COMPAT_MAX_FUNC_NAME :: nat where "COMPAT_MAX_FUNC_NAME = 256"

record compat_export_entry =
  ex_name :: "u8 list"
  ex_ordinal :: u16
  ex_address :: u64
  ex_used :: bool

record compat_module =
  dll_name :: "u8 list"
  exports :: "compat_export_entry list"
  export_count :: u32
  base_address :: u64
  m_loaded :: bool

definition compat_export0 :: compat_export_entry where
  "compat_export0 = \<lparr>ex_name = [], ex_ordinal = 0, ex_address = 0, ex_used = False\<rparr>"

definition compat_module0 :: compat_module where
  "compat_module0 = \<lparr>dll_name = [], exports = replicate COMPAT_MAX_EXPORTS compat_export0, export_count = 0, base_address = 0, m_loaded = False\<rparr>"

record module_registry =
  g_modules :: "compat_module list"
  g_mr_init :: bool

definition module_registry_init :: "module_registry \<Rightarrow> module_registry" where
  "module_registry_init g = (if g_mr_init g then g else \<lparr>g_modules = replicate COMPAT_MAX_MODULES compat_module0, g_mr_init = True\<rparr>)"

definition ascii_tolower :: "u8 \<Rightarrow> u8" where
  "ascii_tolower c = (if 65 \<le> c \<and> c \<le> 90 then c + 32 else c)"

text \<open>Two terminated strings; the terminator compares as a character.\<close>

fun stricmp_loop :: "u8 list \<Rightarrow> u8 list \<Rightarrow> int" where
  "stricmp_loop (a # as) (b # bs) =
     (if ascii_tolower a \<noteq> ascii_tolower b then sint (ascii_tolower a) - sint (ascii_tolower b) else stricmp_loop as bs)"
| "stricmp_loop [] [] = 0"
| "stricmp_loop (a # as) [] = sint (ascii_tolower a)"
| "stricmp_loop [] (b # bs) = - sint (ascii_tolower b)"

definition stricmp :: "u8 list option \<Rightarrow> u8 list option \<Rightarrow> int" where
  "stricmp a b = (case (a, b) of (Some x, Some y) \<Rightarrow> stricmp_loop x y | _ \<Rightarrow> -1)"

text \<open>Names match when they are equal up to case, or when both have a dot and agree before it.\<close>

definition same_module :: "u8 list \<Rightarrow> u8 list \<Rightarrow> bool" where
  "same_module m n \<longleftrightarrow> stricmp (Some m) (Some n) = 0 \<or>
     (case (first_idx (\<lambda>c. c = 46) m, first_idx (\<lambda>c. c = 46) n) of
        (Some len1, Some len2) \<Rightarrow> len1 = len2 \<and> take len1 m = take len1 n
      | _ \<Rightarrow> False)"

definition find_module :: "u8 list option \<Rightarrow> module_registry \<Rightarrow> nat option" where
  "find_module name g = (case name of None \<Rightarrow> None | Some n \<Rightarrow> first_idx (\<lambda>m. m_loaded m \<and> same_module (dll_name m) n) (g_modules g))"

definition find_free_module :: "module_registry \<Rightarrow> nat option" where
  "find_free_module g = first_idx (\<lambda>m. \<not> m_loaded m) (g_modules g)"

definition module_registry_register :: "u8 list option \<Rightarrow> u64 \<Rightarrow> module_registry \<Rightarrow> int \<times> module_registry" where
  "module_registry_register name base g =
     (case name of None \<Rightarrow> (-1, g)
      | Some n \<Rightarrow>
        case find_module name g of Some _ \<Rightarrow> (0, g)
        | None \<Rightarrow>
          case find_free_module g of None \<Rightarrow> (-1, g)
          | Some slot \<Rightarrow> (0, g\<lparr>g_modules := (g_modules g)[slot := compat_module0\<lparr>dll_name := take (COMPAT_MAX_DLL_NAME - 1) n,
              base_address := base, m_loaded := True, export_count := 0\<rparr>]\<rparr>))"

definition add_export :: "u8 list option \<Rightarrow> u16 \<Rightarrow> u64 \<Rightarrow> compat_module \<Rightarrow> compat_module" where
  "add_export func ordinal address m =
     (let j = unat (export_count m); e = exports m ! j;
          name = (case func of None \<Rightarrow> ex_name e | Some f \<Rightarrow> take (COMPAT_MAX_FUNC_NAME - 1) f)
      in m\<lparr>exports := (exports m)[j := \<lparr>ex_name = name, ex_ordinal = ordinal, ex_address = address, ex_used = True\<rparr>],
           export_count := export_count m + 1\<rparr>)"

definition module_registry_add_export :: "u8 list option \<Rightarrow> u8 list option \<Rightarrow> u16 \<Rightarrow> u64 \<Rightarrow> module_registry \<Rightarrow> int \<times> module_registry" where
  "module_registry_add_export name func ordinal address g =
     (case find_module name g of None \<Rightarrow> (-1, g)
      | Some i \<Rightarrow>
        if export_count (g_modules g ! i) \<ge> of_nat COMPAT_MAX_EXPORTS then (-1, g)
        else (0, g\<lparr>g_modules := (g_modules g)[i := add_export func ordinal address (g_modules g ! i)]\<rparr>))"

definition export_match :: "u8 list option \<Rightarrow> u16 \<Rightarrow> compat_export_entry \<Rightarrow> bool" where
  "export_match func ordinal e \<longleftrightarrow> ex_used e \<and>
     (func \<noteq> None \<and> stricmp (Some (ex_name e)) func = 0 \<or> ordinal \<noteq> 0 \<and> ex_ordinal e = ordinal)"

definition export_lookup :: "u8 list option \<Rightarrow> u16 \<Rightarrow> compat_module \<Rightarrow> u64 option" where
  "export_lookup func ordinal m =
     map_option (\<lambda>j. ex_address (exports m ! j)) (first_idx (export_match func ordinal) (take (unat (export_count m)) (exports m)))"

text \<open>The loop over all modules but the one that was searched first.\<close>

fun lookup_others :: "u8 list option \<Rightarrow> u16 \<Rightarrow> nat option \<Rightarrow> nat \<Rightarrow> compat_module list \<Rightarrow> u64 option" where
  "lookup_others func ordinal skip i [] = None"
| "lookup_others func ordinal skip i (m # ms) =
     (if \<not> m_loaded m \<or> skip = Some i then lookup_others func ordinal skip (Suc i) ms
      else case export_lookup func ordinal m of Some a \<Rightarrow> Some a | None \<Rightarrow> lookup_others func ordinal skip (Suc i) ms)"

definition module_registry_lookup :: "u8 list option \<Rightarrow> u8 list option \<Rightarrow> u16 \<Rightarrow> module_registry \<Rightarrow> u64 option" where
  "module_registry_lookup name func ordinal g =
     (case find_module name g of None \<Rightarrow> lookup_others func ordinal None 0 (g_modules g)
      | Some i \<Rightarrow>
        case export_lookup func ordinal (g_modules g ! i) of Some a \<Rightarrow> Some a
        | None \<Rightarrow> lookup_others func ordinal (Some i) 0 (g_modules g))"

definition module_registry_load_stubs :: "module_registry \<Rightarrow> int \<times> module_registry" where
  "module_registry_load_stubs g =
     (0, fold (\<lambda>n g. snd (module_registry_register (Some (cstr n)) 0 g))
           [''kernel32.dll'', ''ntdll.dll'', ''user32.dll'', ''gdi32.dll'', ''advapi32.dll'', ''shell32.dll''] g)"

section \<open>Import tables\<close>

definition COMPAT_MAX_IMPORTS :: nat where "COMPAT_MAX_IMPORTS = 256"

record compat_import_entry =
  imp_dll :: "u8 list"
  func_name :: "u8 list"
  imp_ordinal :: u16
  by_ordinal :: bool
  resolved_addr :: u64
  resolved :: bool

text \<open>The entries in use; the counter of the table is their number.\<close>

type_synonym compat_import_table = "compat_import_entry list"

record pe_import_descriptor =
  import_lookup_table_rva :: u32
  name_rva :: u32
  import_address_table_rva :: u32

definition parse_import_descriptor :: "u8 list \<Rightarrow> pe_import_descriptor" where
  "parse_import_descriptor b = \<lparr>import_lookup_table_rva = rd32 b 0, name_rva = rd32 b 12, import_address_table_rva = rd32 b 16\<rparr>"

text \<open>\<open>strncpy\<close> of at most \<open>n\<close> characters out of the file.\<close>

fun copy_str :: "u8 list \<Rightarrow> nat \<Rightarrow> u8 list res" where
  "copy_str d 0 = Inr []"
| "copy_str [] (Suc n) = Inl Fault"
| "copy_str (c # d) (Suc n) = (if c = 0 then Inr [] else rbind (copy_str d n) (\<lambda>s. Inr (c # s)))"

definition file_str :: "u8 list \<Rightarrow> nat \<Rightarrow> nat \<Rightarrow> u8 list res" where
  "file_str d off n = copy_str (drop off d) n"

definition import_entry :: "u8 list \<Rightarrow> pe_image_info \<Rightarrow> u8 list \<Rightarrow> u64 \<Rightarrow> compat_import_entry res" where
  "import_entry d info dll w =
     (let ie = \<lparr>imp_dll = take (COMPAT_MAX_DLL_NAME - 1) dll, func_name = [], imp_ordinal = 0, by_ordinal = False, resolved_addr = 0, resolved = False\<rparr> in
      if bit w 63 then Inr (ie\<lparr>by_ordinal := True, imp_ordinal := ucast (w AND 0xFFFF)\<rparr>)
      else case pe_rva_to_offset info (ucast w) of
        None \<Rightarrow> Inr ie
      | Some hn_off \<Rightarrow> rbind (view d (unat hn_off) 2) (\<lambda>hint. rbind (file_str d (unat hn_off + 2) (COMPAT_MAX_FUNC_NAME - 1)) (\<lambda>f. Inr (ie\<lparr>func_name := f\<rparr>))))"

fun slot_loop :: "u8 list \<Rightarrow> u32 \<Rightarrow> pe_image_info \<Rightarrow> u8 list \<Rightarrow> u32 \<Rightarrow> nat \<Rightarrow> nat \<Rightarrow> compat_import_table \<Rightarrow> compat_import_table res" where
  "slot_loop d fsize info dll ilt_off 0 slot t = Inr t"
| "slot_loop d fsize info dll ilt_off (Suc n) slot t =
     (if ilt_off + 8 > fsize then Inr t
      else rbind (view d (unat ilt_off + slot * 8) 8) (\<lambda>b.
        if rd64 b 0 = 0 then Inr t
        else if length t \<ge> COMPAT_MAX_IMPORTS then Inr t
        else rbind (import_entry d info dll (rd64 b 0)) (\<lambda>ie. slot_loop d fsize info dll ilt_off n (Suc slot) (t @ [ie]))))"

definition descriptor_dll :: "u8 list \<Rightarrow> pe_image_info \<Rightarrow> u32 \<Rightarrow> u8 list res" where
  "descriptor_dll d info rva =
     (if rva = 0 then Inr []
      else case pe_rva_to_offset info rva of None \<Rightarrow> Inr [] | Some off \<Rightarrow> file_str d (unat off) (COMPAT_MAX_DLL_NAME - 1))"

definition import_descriptor :: "u8 list \<Rightarrow> u32 \<Rightarrow> pe_image_info \<Rightarrow> pe_import_descriptor \<Rightarrow> compat_import_table \<Rightarrow> compat_import_table res" where
  "import_descriptor d fsize info desc t =
     rbind (descriptor_dll d info (name_rva desc)) (\<lambda>dll.
       let ilt_rva = (if import_lookup_table_rva desc = 0 then import_address_table_rva desc else import_lookup_table_rva desc) in
       case pe_rva_to_offset info ilt_rva of None \<Rightarrow> Inr t | Some ilt_off \<Rightarrow> slot_loop d fsize info dll ilt_off 4096 0 t)"

text \<open>
  The loop over the descriptors. The bound \<open>pos + 20\<close> is computed in 64 bits, so \<open>pos\<close> never wraps
  around.
\<close>

function desc_loop :: "u8 list \<Rightarrow> u32 \<Rightarrow> pe_image_info \<Rightarrow> nat \<Rightarrow> nat \<Rightarrow> compat_import_table \<Rightarrow> compat_import_table res" where
  "desc_loop d fsize info pos end t =
     (if pos + 20 \<le> end then
        rbind (view d pos 20) (\<lambda>b.
          let desc = parse_import_descriptor b in
          if import_lookup_table_rva desc = 0 \<and> name_rva desc = 0 then Inr t
          else rbind (import_descriptor d fsize info desc t) (desc_loop d fsize info (pos + 20) end))
      else Inr t)"
  by pat_completeness auto
termination by (relation "measure (\<lambda>(d, fsize, info, pos, end, t). end - pos)") auto

definition import_resolver_parse :: "u8 list option \<Rightarrow> u32 \<Rightarrow> pe_image_info \<Rightarrow> (int \<times> compat_import_table) res" where
  "import_resolver_parse file_data fsize info =
     (case file_data of None \<Rightarrow> Inr (-1, [])
      | Some d \<Rightarrow>
        if \<not> has_imports info then Inr (0, [])
        else
          let import_rva = d_rva (data_dirs info ! PE_DIR_ENTRY_IMPORT); import_size = d_size (data_dirs info ! PE_DIR_ENTRY_IMPORT) in
          if import_rva = 0 \<or> import_size = 0 then Inr (0, [])
          else case pe_rva_to_offset info import_rva of None \<Rightarrow> Inr (-1, [])
            | Some import_off \<Rightarrow> rbind (desc_loop d fsize info (unat import_off) (unat (import_off + import_size)) []) (\<lambda>t. Inr (0, t)))"

definition resolve_entry :: "module_registry \<Rightarrow> compat_import_entry \<Rightarrow> compat_import_entry" where
  "resolve_entry g ie =
     (case module_registry_lookup (Some (imp_dll ie)) (if by_ordinal ie then None else Some (func_name ie)) (if by_ordinal ie then imp_ordinal ie else 0) g of
        Some a \<Rightarrow> ie\<lparr>resolved_addr := a, resolved := True\<rparr> | None \<Rightarrow> ie)"

definition import_resolver_resolve :: "module_registry \<Rightarrow> compat_import_table \<Rightarrow> int \<times> compat_import_table" where
  "import_resolver_resolve g t =
     (let t1 = map (resolve_entry g) t;
          failed = length (filter (\<lambda>ie. module_registry_lookup (Some (imp_dll ie)) (if by_ordinal ie then None else Some (func_name ie))
            (if by_ordinal ie then imp_ordinal ie else 0) g = None) t)
      in (if failed = 0 then 0 else -1, t1))"

definition import_resolver_lazy_resolve :: "u8 list option \<Rightarrow> u8 list option \<Rightarrow> module_registry \<Rightarrow> u64 option" where
  "import_resolver_lazy_resolve dll func g = module_registry_lookup dll func 0 g"

section \<open>Names and exports\<close>

lemma ascii_tolower_0: "ascii_tolower c = 0 \<longleftrightarrow> c = 0"
proof (cases "65 \<le> c \<and> c \<le> 90")
  case True
  then have "unat (c + 32) = unat c + 32" by (subst unat_add_small) (auto simp: word_le_nat_alt)
  then have "c + 32 \<noteq> 0" by (metis add_is_0 unat_0 zero_neq_numeral)
  with True show ?thesis by (auto simp: ascii_tolower_def)
qed (auto simp: ascii_tolower_def)

lemma stricmp_eq: "plain a \<Longrightarrow> plain b \<Longrightarrow> stricmp_loop a b = 0 \<longleftrightarrow> map ascii_tolower a = map ascii_tolower b"
  by (induction a b rule: stricmp_loop.induct) (auto simp: ascii_tolower_0 signed_eq_0_iff dest: signed_word_eqI)

lemma stricmp_Some [simp]: "stricmp (Some a) (Some b) = stricmp_loop a b"
  by (simp add: stricmp_def)

definition registry_wf :: "module_registry \<Rightarrow> bool" where
  "registry_wf g \<longleftrightarrow> length (g_modules g) = COMPAT_MAX_MODULES \<and>
     (\<forall>m\<in>set (g_modules g). length (exports m) = COMPAT_MAX_EXPORTS \<and> unat (export_count m) \<le> COMPAT_MAX_EXPORTS)"

definition module_wf :: "compat_module \<Rightarrow> bool" where
  "module_wf m \<longleftrightarrow> length (exports m) = COMPAT_MAX_EXPORTS \<and> unat (export_count m) \<le> COMPAT_MAX_EXPORTS"

lemma first_idx_append:
  "first_idx P (xs @ ys) = (case first_idx P xs of Some i \<Rightarrow> Some i | None \<Rightarrow> map_option (\<lambda>i. length xs + i) (first_idx P ys))"
  by (induction xs; cases "first_idx P ys") (auto split: option.splits)

lemma add_export_facts:
  assumes "module_wf m" "unat (export_count m) < COMPAT_MAX_EXPORTS"
  shows "unat (export_count (add_export f r a m)) = Suc (unat (export_count m))"
    and "module_wf (add_export f r a m)"
    and "take (Suc (unat (export_count m))) (exports (add_export (Some f') r a m)) =
      take (unat (export_count m)) (exports m) @ [\<lparr>ex_name = take (COMPAT_MAX_FUNC_NAME - 1) f', ex_ordinal = r, ex_address = a, ex_used = True\<rparr>]"
    and "dll_name (add_export f r a m) = dll_name m" "m_loaded (add_export f r a m) = m_loaded m"
proof -
  have c: "unat (export_count m + 1) = Suc (unat (export_count m))"
    using assms by (subst unat_add_small) (auto simp: COMPAT_MAX_EXPORTS_def)
  then show "unat (export_count (add_export f r a m)) = Suc (unat (export_count m))" "module_wf (add_export f r a m)"
    using assms by (simp_all add: add_export_def module_wf_def Let_def)
  show "dll_name (add_export f r a m) = dll_name m" "m_loaded (add_export f r a m) = m_loaded m"
    by (simp_all add: add_export_def Let_def)
  show "take (Suc (unat (export_count m))) (exports (add_export (Some f') r a m)) =
      take (unat (export_count m)) (exports m) @ [\<lparr>ex_name = take (COMPAT_MAX_FUNC_NAME - 1) f', ex_ordinal = r, ex_address = a, ex_used = True\<rparr>]"
    using assms by (simp add: add_export_def Let_def module_wf_def take_Suc_conv_app_nth nth_append)
qed

lemma export_lookup_add:
  assumes m: "module_wf m" "unat (export_count m) < COMPAT_MAX_EXPORTS"
  shows "export_lookup q o' (add_export (Some f) r a m) =
    (case export_lookup q o' m of Some b \<Rightarrow> Some b
     | None \<Rightarrow> if export_match q o' \<lparr>ex_name = take (COMPAT_MAX_FUNC_NAME - 1) f, ex_ordinal = r, ex_address = a, ex_used = True\<rparr> then Some a else None)"
proof -
  let ?n = "unat (export_count m)" and ?m = "add_export (Some f) r a m"
  let ?e = "\<lparr>ex_name = take (COMPAT_MAX_FUNC_NAME - 1) f, ex_ordinal = r, ex_address = a, ex_used = True\<rparr>"
  have l: "?n < length (exports m)" using m by (simp add: module_wf_def)
  have t: "take (unat (export_count ?m)) (exports ?m) = take ?n (exports m) @ [?e]"
    unfolding add_export_facts(1) [OF m] by (rule add_export_facts(3) [OF m])
  have nth: "exports ?m ! j = (if j = ?n then ?e else exports m ! j)" for j
    using l by (simp add: add_export_def Let_def nth_list_update)
  show ?thesis
    using first_idx_less [of "export_match q o'" "take ?n (exports m)"] l
    by (auto simp: export_lookup_def t first_idx_append nth split: option.splits)
qed

lemma find_module_keep:
  assumes "i < length (g_modules g)" "dll_name m = dll_name (g_modules g ! i)" "m_loaded m = m_loaded (g_modules g ! i)"
  shows "find_module n (g\<lparr>g_modules := (g_modules g)[i := m]\<rparr>) = find_module n g"
proof (cases n)
  case (Some s)
  have "map (\<lambda>m. (dll_name m, m_loaded m)) ((g_modules g)[i := m]) = map (\<lambda>m. (dll_name m, m_loaded m)) (g_modules g)"
    using assms by (intro nth_equalityI) (auto simp: nth_list_update)
  then have "first_idx (\<lambda>(a, b). b \<and> same_module a s) (map (\<lambda>m. (dll_name m, m_loaded m)) ((g_modules g)[i := m])) =
      first_idx (\<lambda>(a, b). b \<and> same_module a s) (map (\<lambda>m. (dll_name m, m_loaded m)) (g_modules g))" by simp
  then show ?thesis by (simp add: Some find_module_def first_idx_map)
qed (simp add: find_module_def)

text \<open>
  An export that is added to a module is found: under every name of that module and under the
  function's name in any letter case, the lookup returns its address, while every lookup that a
  module answered before from its own table is answered as before.
\<close>

theorem module_export_found:
  assumes wf: "registry_wf g" and i: "find_module (Some n) g = Some i" and room: "unat (export_count (g_modules g ! i)) < COMPAT_MAX_EXPORTS"
    and f: "plain f" "length f < COMPAT_MAX_FUNC_NAME" and new: "\<forall>f'. map ascii_tolower f' = map ascii_tolower f \<longrightarrow> export_lookup (Some f') 0 (g_modules g ! i) = None"
  shows "\<exists>g'. module_registry_add_export (Some n) (Some f) r a g = (0, g') \<and> registry_wf g' \<and>
      (\<forall>n' f'. find_module (Some n') g = Some i \<and> plain f' \<and> map ascii_tolower f' = map ascii_tolower f \<longrightarrow>
         module_registry_lookup (Some n') (Some f') 0 g' = Some a) \<and>
      (\<forall>n' q o' j b. find_module n' g = Some j \<and> export_lookup q o' (g_modules g ! j) = Some b \<longrightarrow>
         module_registry_lookup n' q o' g' = Some b)"
proof -
  let ?m = "g_modules g ! i"
  let ?m' = "add_export (Some f) r a ?m"
  let ?g = "g\<lparr>g_modules := (g_modules g)[i := ?m']\<rparr>"
  have il: "i < length (g_modules g)" using i by (simp add: find_module_def first_idx_less)
  then have mw: "module_wf ?m" using wf by (simp add: registry_wf_def module_wf_def)
  have find: "find_module q ?g = find_module q g" for q
    using add_export_facts(4,5) [OF mw room] by (intro find_module_keep il) auto
  have "module_registry_add_export (Some n) (Some f) r a g = (0, ?g)"
    using i room by (simp add: module_registry_add_export_def word_le_nat_alt COMPAT_MAX_EXPORTS_def)
  moreover have "registry_wf ?g"
    using wf add_export_facts(2) [OF mw room] by (auto simp: registry_wf_def module_wf_def dest!: set_update_subset_insert [THEN subsetD])
  moreover have "module_registry_lookup (Some n') (Some f') 0 ?g = Some a"
    if "find_module (Some n') g = Some i" "plain f'" "map ascii_tolower f' = map ascii_tolower f" for n' f'
  proof -
    have "export_lookup (Some f') 0 ?m' = Some a"
      using that new f by (simp add: export_lookup_add [OF mw room] export_match_def stricmp_eq COMPAT_MAX_FUNC_NAME_def)
    then show ?thesis using that il by (simp add: module_registry_lookup_def find)
  qed
  moreover have "module_registry_lookup n' q o' ?g = Some b"
    if "find_module n' g = Some j" "export_lookup q o' (g_modules g ! j) = Some b" for n' q o' j b
    using that il by (cases "j = i") (simp_all add: module_registry_lookup_def find export_lookup_add [OF mw room])
  ultimately show ?thesis by blast
qed

datatype reg_cmd = RegisterModule "u8 list option" u64 | AddExport "u8 list option" "u8 list option" u16 u64

fun reg_step :: "reg_cmd \<Rightarrow> module_registry \<Rightarrow> module_registry" where
  "reg_step (RegisterModule n base) g = snd (module_registry_register n base g)"
| "reg_step (AddExport n f r a) g = snd (module_registry_add_export n f r a g)"

lemma module_wf0: "module_wf (compat_module0\<lparr>dll_name := n, base_address := b, m_loaded := l, export_count := 0\<rparr>)"
  by (simp add: module_wf_def compat_module0_def)

lemma registry_wf_alt: "registry_wf g \<longleftrightarrow> length (g_modules g) = COMPAT_MAX_MODULES \<and> (\<forall>m\<in>set (g_modules g). module_wf m)"
  by (simp add: registry_wf_def module_wf_def)

lemma registry_wf_update: "registry_wf g \<Longrightarrow> module_wf m \<Longrightarrow> registry_wf (g\<lparr>g_modules := (g_modules g)[i := m]\<rparr>)"
  by (auto simp: registry_wf_alt dest!: set_update_subset_insert [THEN subsetD])

lemma add_export_wf: "module_wf m \<Longrightarrow> export_count m < of_nat COMPAT_MAX_EXPORTS \<Longrightarrow> module_wf (add_export f r a m)"
  by (intro add_export_facts(2)) (simp_all add: word_less_nat_alt COMPAT_MAX_EXPORTS_def)

lemma reg_step_wf: "registry_wf g \<Longrightarrow> registry_wf (reg_step c g)"
proof (cases c)
  case (AddExport n f r a)
  assume g: "registry_wf g"
  show ?thesis
  proof (cases "find_module n g")
    case (Some i)
    then have "i < length (g_modules g)" by (auto simp: find_module_def first_idx_less split: option.splits)
    then have "module_wf (g_modules g ! i)" using g by (simp add: registry_wf_alt)
    then show ?thesis using g AddExport Some
      by (simp add: module_registry_add_export_def registry_wf_update add_export_wf not_le)
  qed (use g AddExport in \<open>simp add: module_registry_add_export_def\<close>)
qed (auto simp: module_registry_register_def registry_wf_update module_wf0 split: option.splits)

text \<open>
  C35. The registry stays well formed: after start-up, whatever modules are registered and whatever
  exports are added, there are always 32 module slots with 512 export slots each, no counter ever
  exceeds its table, and so no search or insertion leaves the arrays.
\<close>

theorem registry_stays_wf:
  "registry_wf (fold reg_step cs (module_registry_init \<lparr>g_modules = ms, g_mr_init = False\<rparr>))"
proof -
  have "registry_wf (module_registry_init \<lparr>g_modules = ms, g_mr_init = False\<rparr>)"
    by (simp add: registry_wf_def module_registry_init_def compat_module0_def)
  then show ?thesis by (induction cs rule: rev_induct) (simp_all add: reg_step_wf)
qed

definition registry1 :: module_registry where
  "registry1 = \<lparr>g_modules = compat_module0\<lparr>dll_name := cstr ''kernel32.dll'', m_loaded := True\<rparr> # replicate 31 compat_module0, g_mr_init = True\<rparr>"

lemma registry1_find: "find_module (Some (cstr ''KERNEL32.DLL'')) registry1 = Some 0"
  by (simp add: find_module_def registry1_def same_module_def cstr_def ascii_tolower_def)

theorem module_export_found_witness:
  "\<exists>g'. module_registry_add_export (Some (cstr ''KERNEL32.DLL'')) (Some (cstr ''Sleep'')) 5 0x1234 registry1 = (0, g') \<and>
     module_registry_lookup (Some (cstr ''KERNEL32.DLL'')) (Some (cstr ''SLEEP'')) 0 g' = Some 0x1234"
proof -
  have wf: "registry_wf registry1"
    by (simp add: registry_wf_def registry1_def compat_module0_def COMPAT_MAX_MODULES_def)
  have room: "unat (export_count (g_modules registry1 ! 0)) < COMPAT_MAX_EXPORTS"
    by (simp add: registry1_def compat_module0_def COMPAT_MAX_EXPORTS_def)
  have f: "plain (cstr ''Sleep'')" "length (cstr ''Sleep'') < COMPAT_MAX_FUNC_NAME"
    by (simp_all add: cstr_def COMPAT_MAX_FUNC_NAME_def)
  have new: "\<forall>f'. map ascii_tolower f' = map ascii_tolower (cstr ''Sleep'') \<longrightarrow> export_lookup (Some f') 0 (g_modules registry1 ! 0) = None"
    by (simp add: export_lookup_def registry1_def compat_module0_def)
  have q: "plain (cstr ''SLEEP'')" "map ascii_tolower (cstr ''SLEEP'') = map ascii_tolower (cstr ''Sleep'')"
    by (simp_all add: cstr_def ascii_tolower_def)
  from module_export_found [OF wf registry1_find room f new, where r = 5 and a = "0x1234"] registry1_find q show ?thesis by blast
qed

section \<open>Reading an import directory\<close>

text \<open>
  What a file says: the string at an offset, what a word of a lookup table denotes, and the list of
  modules with their imports that a directory describes.
\<close>

datatype import = ByName "u8 list" | ByOrdinal u16

definition str_in :: "u8 list \<Rightarrow> nat \<Rightarrow> u8 list \<Rightarrow> bool" where
  "str_in d off s \<longleftrightarrow> plain s \<and> (\<exists>r. drop off d = s @ 0 # r)"

fun denotes :: "u8 list \<Rightarrow> pe_image_info \<Rightarrow> u64 \<Rightarrow> import \<Rightarrow> bool" where
  "denotes d info w (ByOrdinal n) \<longleftrightarrow> bit w 63 \<and> ucast (w AND 0xFFFF) = n"
| "denotes d info w (ByName f) \<longleftrightarrow> \<not> bit w 63 \<and>
     (\<exists>off. pe_rva_to_offset info (ucast w) = Some off \<and> unat off + 2 \<le> length d \<and> str_in d (unat off + 2) f)"

definition word_at :: "u8 list \<Rightarrow> nat \<Rightarrow> u64" where
  "word_at d off = rd64 (take 8 (drop off d)) 0"

fun lookup_table :: "u8 list \<Rightarrow> pe_image_info \<Rightarrow> nat \<Rightarrow> import list \<Rightarrow> bool" where
  "lookup_table d info off [] \<longleftrightarrow> off + 8 \<le> length d \<and> word_at d off = 0"
| "lookup_table d info off (x # xs) \<longleftrightarrow> off + 8 \<le> length d \<and> word_at d off \<noteq> 0 \<and> denotes d info (word_at d off) x \<and> lookup_table d info (off + 8) xs"

definition desc_at :: "u8 list \<Rightarrow> nat \<Rightarrow> pe_import_descriptor" where
  "desc_at d pos = parse_import_descriptor (take 20 (drop pos d))"

definition ilt_rva_of :: "pe_import_descriptor \<Rightarrow> u32" where
  "ilt_rva_of desc = (if import_lookup_table_rva desc = 0 then import_address_table_rva desc else import_lookup_table_rva desc)"

definition desc_denotes :: "u8 list \<Rightarrow> pe_image_info \<Rightarrow> pe_import_descriptor \<Rightarrow> u8 list \<Rightarrow> import list \<Rightarrow> bool" where
  "desc_denotes d info desc dll xs \<longleftrightarrow>
     (\<exists>noff. name_rva desc \<noteq> 0 \<and> pe_rva_to_offset info (name_rva desc) = Some noff \<and> str_in d (unat noff) dll) \<and>
     (\<exists>off. pe_rva_to_offset info (ilt_rva_of desc) = Some off \<and> length xs < 4096 \<and> lookup_table d info (unat off) xs)"

fun import_dir :: "u8 list \<Rightarrow> pe_image_info \<Rightarrow> nat \<Rightarrow> (u8 list \<times> import list) list \<Rightarrow> bool" where
  "import_dir d info pos [] \<longleftrightarrow> pos + 20 \<le> length d \<and> import_lookup_table_rva (desc_at d pos) = 0 \<and> name_rva (desc_at d pos) = 0"
| "import_dir d info pos ((dll, xs) # ms) \<longleftrightarrow> pos + 20 \<le> length d \<and> desc_denotes d info (desc_at d pos) dll xs \<and> import_dir d info (pos + 20) ms"

fun entry_for :: "u8 list \<Rightarrow> import \<Rightarrow> compat_import_entry" where
  "entry_for dll (ByName f) = \<lparr>imp_dll = take 63 dll, func_name = take 255 f, imp_ordinal = 0, by_ordinal = False, resolved_addr = 0, resolved = False\<rparr>"
| "entry_for dll (ByOrdinal n) = \<lparr>imp_dll = take 63 dll, func_name = [], imp_ordinal = n, by_ordinal = True, resolved_addr = 0, resolved = False\<rparr>"

definition entries_for :: "(u8 list \<times> import list) list \<Rightarrow> compat_import_table" where
  "entries_for ms = concat (map (\<lambda>(dll, xs). map (entry_for dll) xs) ms)"

lemma copy_str_spec: "plain s \<Longrightarrow> copy_str (s @ 0 # r) n = Inr (take n s)"
proof (induction s arbitrary: n)
  case Nil
  then show ?case by (cases n) auto
next
  case (Cons c s)
  then show ?case by (cases n) auto
qed

lemma file_str_spec: "str_in d off s \<Longrightarrow> file_str d off n = Inr (take n s)"
  by (auto simp: str_in_def file_str_def copy_str_spec)

lemma import_entry_spec: "denotes d info w x \<Longrightarrow> import_entry d info (take 63 dll) w = Inr (entry_for dll x)"
  by (cases x) (auto simp: import_entry_def Let_def file_str_spec view_ok COMPAT_MAX_DLL_NAME_def COMPAT_MAX_FUNC_NAME_def)

lemma slot_loop_spec:
  assumes "lookup_table d info (unat ilt_off + slot * 8) xs" "length xs < n" "length t + length xs \<le> COMPAT_MAX_IMPORTS"
    and "\<not> ilt_off + 8 > fsize"
  shows "slot_loop d fsize info (take 63 dll) ilt_off n slot t = Inr (t @ map (entry_for dll) xs)"
  using assms
proof (induction xs arbitrary: n slot t)
  case Nil
  then obtain k where "n = Suc k" by (cases n) auto
  with Nil show ?case by (simp add: view_ok word_at_def)
next
  case (Cons x xs)
  then obtain k where k: "n = Suc k" by (cases n) auto
  have "slot_loop d fsize info (take 63 dll) ilt_off k (Suc slot) (t @ [entry_for dll x]) = Inr ((t @ [entry_for dll x]) @ map (entry_for dll) xs)"
    using Cons.prems k by (intro Cons.IH) (simp_all add: algebra_simps)
  moreover have "import_entry d info (take 63 dll) (word_at d (unat ilt_off + slot * 8)) = Inr (entry_for dll x)"
    using Cons.prems by (intro import_entry_spec) simp
  ultimately show ?case using Cons.prems by (simp add: k view_ok word_at_def)
qed

lemma lookup_table_start: "lookup_table d info off xs \<Longrightarrow> off + 8 \<le> length d"
  by (cases xs) auto

lemma import_descriptor_spec:
  assumes "desc_denotes d info desc dll xs" "length t + length xs \<le> COMPAT_MAX_IMPORTS" "length d = unat fsize"
  shows "import_descriptor d fsize info desc t = Inr (t @ map (entry_for dll) xs)"
proof -
  from assms(1) obtain noff off where n: "name_rva desc \<noteq> 0" "pe_rva_to_offset info (name_rva desc) = Some noff" "str_in d (unat noff) dll"
    and o: "pe_rva_to_offset info (ilt_rva_of desc) = Some off" "length xs < 4096" "lookup_table d info (unat off) xs"
    by (auto simp: desc_denotes_def)
  have "unat off + 8 \<le> unat fsize" using lookup_table_start [OF o(3)] assms(3) by simp
  moreover have "unat fsize < 2 ^ LENGTH(32)" by (rule unsigned_less)
  ultimately have "\<not> off + 8 > fsize" by (subst word_less_nat_alt, subst unat_add_small) auto
  then have "slot_loop d fsize info (take 63 dll) off 4096 0 t = Inr (t @ map (entry_for dll) xs)"
    using o assms(2) by (intro slot_loop_spec) simp_all
  then show ?thesis using n o(1)
    by (simp add: import_descriptor_def descriptor_dll_def file_str_spec COMPAT_MAX_DLL_NAME_def ilt_rva_of_def Let_def)
qed

lemma desc_loop_spec:
  assumes "import_dir d info pos ms" "length t + length (entries_for ms) \<le> COMPAT_MAX_IMPORTS" "length d = unat fsize"
    and "pos + 20 * (length ms + 1) \<le> stop"
  shows "desc_loop d fsize info pos stop t = Inr (t @ entries_for ms)"
  using assms
proof (induction ms arbitrary: pos t)
  case Nil
  then show ?case by (subst desc_loop.simps) (simp add: view_ok desc_at_def entries_for_def)
next
  case (Cons m ms)
  obtain dll xs where m: "m = (dll, xs)" by (cases m)
  have dn: "desc_denotes d info (desc_at d pos) dll xs" using Cons.prems(1) by (simp add: m)
  then have nn: "\<not> (import_lookup_table_rva (desc_at d pos) = 0 \<and> name_rva (desc_at d pos) = 0)" by (auto simp: desc_denotes_def)
  have "import_descriptor d fsize info (desc_at d pos) t = Inr (t @ map (entry_for dll) xs)"
    using Cons.prems by (intro import_descriptor_spec [OF dn]) (simp_all add: m entries_for_def)
  moreover have "desc_loop d fsize info (pos + 20) stop (t @ map (entry_for dll) xs) = Inr ((t @ map (entry_for dll) xs) @ entries_for ms)"
    using Cons.prems by (intro Cons.IH) (simp_all add: m entries_for_def)
  ultimately show ?case using Cons.prems nn
    by (subst desc_loop.simps) (auto simp: view_ok m entries_for_def Let_def simp flip: desc_at_def simp del: desc_loop.simps)
qed

text \<open>The address an import is bound to.\<close>

fun target :: "module_registry \<Rightarrow> u8 list \<Rightarrow> import \<Rightarrow> u64 option" where
  "target g dll (ByName f) = module_registry_lookup (Some (take 63 dll)) (Some (take 255 f)) 0 g"
| "target g dll (ByOrdinal n) = module_registry_lookup (Some (take 63 dll)) None n g"

definition targets :: "module_registry \<Rightarrow> (u8 list \<times> import list) list \<Rightarrow> u64 option list" where
  "targets g ms = concat (map (\<lambda>(dll, xs). map (target g dll) xs) ms)"

definition bound_to :: "compat_import_entry \<Rightarrow> u64 option" where
  "bound_to e = (if resolved e then Some (resolved_addr e) else None)"

lemma resolve_entry_bound: "bound_to (resolve_entry g (entry_for dll x)) = target g dll x"
  by (cases x) (auto simp: resolve_entry_def bound_to_def split: option.splits)

lemma resolve_targets: "map bound_to (map (resolve_entry g) (entries_for ms)) = targets g ms"
  by (induction ms) (auto simp: entries_for_def targets_def resolve_entry_bound)

lemma target_None: "target g dll x = None \<longleftrightarrow>
    module_registry_lookup (Some (imp_dll (entry_for dll x))) (if by_ordinal (entry_for dll x) then None else Some (func_name (entry_for dll x)))
      (if by_ordinal (entry_for dll x) then imp_ordinal (entry_for dll x) else 0) g = None"
  by (cases x) auto

lemma resolve_status: "fst (import_resolver_resolve g (entries_for ms)) = 0 \<longleftrightarrow> None \<notin> set (targets g ms)"
proof -
  let ?fails = "\<lambda>ie. module_registry_lookup (Some (imp_dll ie)) (if by_ordinal ie then None else Some (func_name ie))
            (if by_ordinal ie then imp_ordinal ie else 0) g = None"
  have "filter ?fails (entries_for ms) = [] \<longleftrightarrow> (\<forall>(dll, xs)\<in>set ms. \<forall>x\<in>set xs. \<not> ?fails (entry_for dll x))"
    by (auto simp: entries_for_def filter_empty_conv)
  also have "\<dots> \<longleftrightarrow> (\<forall>(dll, xs)\<in>set ms. \<forall>x\<in>set xs. target g dll x \<noteq> None)"
    by (simp only: target_None [symmetric])
  also have "\<dots> \<longleftrightarrow> None \<notin> set (targets g ms)" by (force simp: targets_def)
  finally show ?thesis by (simp add: import_resolver_resolve_def Let_def)
qed

text \<open>
  C9. Imports are linked completely: when the import directory of a file lists modules with their
  functions, by name or by ordinal and at most 256 in all, the parser returns exactly these imports
  in order, and the resolver binds each of them to the address the registry has for it and
  succeeds precisely when there is one for every import.
\<close>

theorem imports_linked:
  assumes size: "length d = unat fsize" and has: "has_imports info" and rva: "d_rva (data_dirs info ! PE_DIR_ENTRY_IMPORT) \<noteq> 0"
    and off: "pe_rva_to_offset info (d_rva (data_dirs info ! PE_DIR_ENTRY_IMPORT)) = Some off"
    and fits: "unat off + unat (d_size (data_dirs info ! PE_DIR_ENTRY_IMPORT)) < 2 ^ 32"
      "20 * (length ms + 1) \<le> unat (d_size (data_dirs info ! PE_DIR_ENTRY_IMPORT))"
    and dir: "import_dir d info (unat off) ms" and few: "sum_list (map (length \<circ> snd) ms) \<le> COMPAT_MAX_IMPORTS"
  shows "\<exists>t r t'. import_resolver_parse (Some d) fsize info = Inr (0, t) \<and> t = entries_for ms \<and>
     import_resolver_resolve g t = (r, t') \<and> map bound_to t' = targets g ms \<and> (r = 0 \<longleftrightarrow> None \<notin> set (targets g ms))"
proof -
  let ?sz = "d_size (data_dirs info ! PE_DIR_ENTRY_IMPORT)"
  have nz: "?sz \<noteq> 0" using fits(2) by (metis add_is_0 le_zero_eq mult_is_0 one_neq_zero unat_0 zero_neq_numeral)
  have sum: "unat (off + ?sz) = unat off + unat ?sz" using fits(1) by (intro unat_add_small) simp
  have "length (entries_for ms) = sum_list (map (length \<circ> snd) ms)"
    by (simp add: entries_for_def length_concat o_def case_prod_beta)
  then have "desc_loop d fsize info (unat off) (unat off + unat ?sz) [] = Inr (entries_for ms)"
    using desc_loop_spec [OF dir, where t = "[]" and fsize = fsize] size few fits(2) by simp
  then have "import_resolver_parse (Some d) fsize info = Inr (0, entries_for ms)"
    using has rva nz off by (simp add: import_resolver_parse_def Let_def sum del: desc_loop.simps)
  then show ?thesis using resolve_status [of g ms] resolve_targets [of g ms]
    by (auto simp: import_resolver_resolve_def Let_def)
qed

text \<open>
  A file of 96 bytes whose addresses are file offsets: a descriptor at 8, its lookup table at 56, the name of the
  module at 72 and that of the function, behind its hint, at 80.
\<close>

definition import_image :: "u32 \<Rightarrow> pe_image_info" where
  "import_image hdr = pe_image_info0\<lparr>size_of_headers := hdr, has_imports := True,
     data_dirs := [\<lparr>d_rva = 0, d_size = 0\<rparr>, \<lparr>d_rva = 8, d_size = 40\<rparr>]\<rparr>"

definition import_file :: "u8 list" where
  "import_file = replicate 8 0 @ [56, 0, 0, 0] @ replicate 8 0 @ [72, 0, 0, 0] @ replicate 24 0 @ replicate 8 0 @
     [80, 0, 0, 0, 0, 0, 0, 0] @ replicate 8 0 @ cstr ''a.dll'' @ [0, 0, 0] @ [1, 0] @ cstr ''Run'' @ replicate 11 0"

lemma import_file_eq: "import_file = [0,0,0,0,0,0,0,0, 56,0,0,0, 0,0,0,0,0,0,0,0, 72,0,0,0, 0,0,0,0,0,0,0,0,0,0,0,0,0,0,0,0,0,0,0,0,0,0,0,0,
   0,0,0,0,0,0,0,0, 80,0,0,0,0,0,0,0, 0,0,0,0,0,0,0,0, 97,46,100,108,108,0,0,0, 1,0,82,117,110,0,0,0,0,0,0,0,0,0,0,0]"
  by (simp add: import_file_def cstr_def numeral_eq_Suc)

lemma import_file_parts:
  "desc_at import_file 8 = \<lparr>import_lookup_table_rva = 56, name_rva = 72, import_address_table_rva = 0\<rparr>"
  "desc_at import_file 28 = \<lparr>import_lookup_table_rva = 0, name_rva = 0, import_address_table_rva = 0\<rparr>"
  "word_at import_file 56 = 80" "word_at import_file 64 = 0" "length import_file = 96"
  "drop 72 import_file = cstr ''a.dll'' @ 0 # [0, 0, 1, 0, 82, 117, 110, 0, 0, 0, 0, 0, 0, 0, 0, 0, 0, 0]"
  "drop 82 import_file = cstr ''Run'' @ 0 # replicate 10 0"
  by (code_simp)+

lemma import_image_offset: "rva < hdr \<Longrightarrow> pe_rva_to_offset (import_image hdr) rva = Some rva"
  by (simp add: pe_rva_to_offset_def import_image_def)

lemma import_file_dir: "import_dir import_file (import_image 96) 8 [(cstr ''a.dll'', [ByName (cstr ''Run'')])]"
proof -
  have s: "str_in import_file 72 (cstr ''a.dll'')" "str_in import_file 82 (cstr ''Run'')"
    unfolding str_in_def import_file_parts by (auto simp: cstr_def)
  have "denotes import_file (import_image 96) 80 (ByName (cstr ''Run''))"
    using s(2) by (simp add: import_image_offset import_file_parts)
  then have "lookup_table import_file (import_image 96) 56 [ByName (cstr ''Run'')]"
    by (simp add: import_file_parts del: denotes.simps)
  then have "desc_denotes import_file (import_image 96) (desc_at import_file 8) (cstr ''a.dll'') [ByName (cstr ''Run'')]"
    using s(1) by (simp add: desc_denotes_def import_file_parts(1) ilt_rva_of_def import_image_offset del: lookup_table.simps)
  then show ?thesis by (simp add: import_file_parts)
qed

theorem imports_linked_witness:
  "\<exists>t r t'. import_resolver_parse (Some import_file) 96 (import_image 96) = Inr (0, t) \<and>
     t = [\<lparr>imp_dll = cstr ''a.dll'', func_name = cstr ''Run'', imp_ordinal = 0, by_ordinal = False, resolved_addr = 0, resolved = False\<rparr>] \<and>
     import_resolver_resolve registry1 t = (r, t') \<and> map bound_to t' = targets registry1 [(cstr ''a.dll'', [ByName (cstr ''Run'')])] \<and>
     (r = 0 \<longleftrightarrow> None \<notin> set (targets registry1 [(cstr ''a.dll'', [ByName (cstr ''Run'')])]))"
proof -
  let ?i = "import_image 96"
  have d: "d_rva (data_dirs ?i ! PE_DIR_ENTRY_IMPORT) = 8" "d_size (data_dirs ?i ! PE_DIR_ENTRY_IMPORT) = 40"
    by (simp_all add: import_image_def PE_DIR_ENTRY_IMPORT_def)
  have e: "entries_for [(cstr ''a.dll'', [ByName (cstr ''Run'')])] =
      [\<lparr>imp_dll = cstr ''a.dll'', func_name = cstr ''Run'', imp_ordinal = 0, by_ordinal = False, resolved_addr = 0, resolved = False\<rparr>]"
    by (simp add: entries_for_def cstr_def)
  have off: "pe_rva_to_offset ?i (d_rva (data_dirs ?i ! PE_DIR_ENTRY_IMPORT)) = Some 8" by (simp add: d import_image_offset)
  have dir: "import_dir import_file ?i (unat (8 :: u32)) [(cstr ''a.dll'', [ByName (cstr ''Run'')])]"
    using import_file_dir by simp
  have "\<exists>t r t'. import_resolver_parse (Some import_file) 96 ?i = Inr (0, t) \<and> t = entries_for [(cstr ''a.dll'', [ByName (cstr ''Run'')])] \<and>
     import_resolver_resolve registry1 t = (r, t') \<and> map bound_to t' = targets registry1 [(cstr ''a.dll'', [ByName (cstr ''Run'')])] \<and>
     (r = 0 \<longleftrightarrow> None \<notin> set (targets registry1 [(cstr ''a.dll'', [ByName (cstr ''Run'')])]))"
    by (rule imports_linked [OF _ _ _ off _ _ dir])
      (simp_all only: d import_file_parts, simp_all add: import_image_def COMPAT_MAX_IMPORTS_def)
  then show ?thesis unfolding e .
qed

text \<open>
  The end of a lookup table is not checked: when the table of a module runs up to the end of the
  file without a zero word, the parser goes on reading behind the file.
\<close>

theorem import_table_overrun:
  assumes "unat ilt_off + 8 \<le> length d" "length d = unat fsize" "unat ilt_off + 8 * k = length d" "k < n" "length t + k < COMPAT_MAX_IMPORTS"
    and "\<forall>j<k. word_at d (unat ilt_off + 8 * j) \<noteq> 0 \<and> bit (word_at d (unat ilt_off + 8 * j)) 63"
  shows "slot_loop d fsize info dll ilt_off n 0 t = Inl Fault"
proof -
  have "unat fsize < 2 ^ LENGTH(32)" by (rule unsigned_less)
  then have chk: "\<not> ilt_off + 8 > fsize" using assms(1,2) by (subst word_less_nat_alt, subst unat_add_small) auto
  have "slot_loop d fsize info dll ilt_off m s u = Inl Fault" if "s \<le> k" "k - s < m" "length u + (k - s) < COMPAT_MAX_IMPORTS" for m s u
    using that
  proof (induction m arbitrary: s u)
    case (Suc m)
    show ?case
    proof (cases "s = k")
      case True
      then show ?thesis using chk assms(3) by (simp add: view_def)
    next
      case False
      then have "word_at d (unat ilt_off + 8 * s) \<noteq> 0" "bit (word_at d (unat ilt_off + 8 * s)) 63" "unat ilt_off + 8 * s + 8 \<le> length d"
        using assms(3,6) Suc.prems by auto
      moreover have "slot_loop d fsize info dll ilt_off m (Suc s) (u @ [ie]) = Inl Fault" for ie
        using Suc.prems False by (intro Suc.IH) auto
      ultimately show ?thesis using Suc.prems chk by (simp add: view_ok word_at_def import_entry_def Let_def mult.commute)
    qed
  qed simp
  then show ?thesis using assms(4,5) by simp
qed

theorem import_table_overrun_witness:
  "slot_loop [7, 0, 0, 0, 0, 0, 0, 0x80] 8 pe_image_info0 (cstr ''a.dll'') 0 4096 0 [] = Inl Fault"
proof (rule import_table_overrun [where k = 1])
  have "word_at [7, 0, 0, 0, 0, 0, 0, 0x80] 0 = 0x8000000000000007" by code_simp
  then show "\<forall>j<1. word_at [7, 0, 0, 0, 0, 0, 0, 0x80] (unat (0 :: u32) + 8 * j) \<noteq> 0 \<and> bit (word_at [7, 0, 0, 0, 0, 0, 0, 0x80] (unat (0 :: u32) + 8 * j)) 63"
    by simp
qed (simp_all add: COMPAT_MAX_IMPORTS_def)

end
