(* ===== verification/Compat.thy ===== *)
theory Compat
  imports PeLoader Modules
begin

text \<open>
  The run-time services for Windows programs under \<^verbatim>\<open>src/compat\<close>: memory regions (\<^verbatim>\<open>mem_mapper.c\<close>,
  \<^verbatim>\<open>stack_init.c\<close>), threads and their local storage (\<^verbatim>\<open>pe_threads.c\<close>, \<^verbatim>\<open>tls_manager.c\<close>), synchronisation
  objects (\<^verbatim>\<open>sync_mapper.c\<close>), processes (\<^verbatim>\<open>compat_process.c\<close>), the path and memory policy
  (\<^verbatim>\<open>exe_sandbox.c\<close>), exceptions (\<^verbatim>\<open>seh_bridge.c\<close>, \<^verbatim>\<open>exception_mapper.c\<close>) and exit handlers (\<^verbatim>\<open>safe_exit.c\<close>). Code that is
  called through a pointer, a thread's entry or a handler, is an argument.
\<close>

section \<open>Memory regions\<close>

definition COMPAT_PROT_READ :: u32 where "COMPAT_PROT_READ = 1"
definition COMPAT_PROT_WRITE :: u32 where "COMPAT_PROT_WRITE = 2"
definition COMPAT_PROT_EXEC :: u32 where "COMPAT_PROT_EXEC = 4"
definition COMPAT_MAX_MEM_REGIONS :: nat where "COMPAT_MAX_MEM_REGIONS = 64"

record compat_mem_region =
  r_base :: addr
  r_size :: u32
  r_prot :: u32
  r_used :: bool

definition compat_mem_region0 :: compat_mem_region where
  "compat_mem_region0 = \<lparr>r_base = 0, r_size = 0, r_prot = 0, r_used = False\<rparr>"

record mem_mapper =
  g_regions :: "compat_mem_region list"
  g_mem_initialized :: bool
  mm_mem :: loader

definition compat_mem_init :: "mem_mapper \<Rightarrow> mem_mapper" where
  "compat_mem_init s = (if g_mem_initialized s then s
     else s\<lparr>g_regions := replicate COMPAT_MAX_MEM_REGIONS compat_mem_region0, g_mem_initialized := True\<rparr>)"

definition find_free_slot :: "mem_mapper \<Rightarrow> nat option" where
  "find_free_slot s = first_idx (\<lambda>r. \<not> r_used r) (g_regions s)"

definition find_region :: "addr \<Rightarrow> mem_mapper \<Rightarrow> nat option" where
  "find_region a s = first_idx (\<lambda>r. r_used r \<and> r_base r = a) (g_regions s)"

definition compat_mmap_region :: "u32 \<Rightarrow> u32 \<Rightarrow> mem_mapper \<Rightarrow> (addr \<times> mem_mapper) res" where
  "compat_mmap_region sz prot s0 =
     (let s = compat_mem_init s0 in
      if sz = 0 then Inr (0, s)
      else case find_free_slot s of None \<Rightarrow> Inr (0, s)
        | Some slot \<Rightarrow>
          rbind (kmalloc (ucast sz) (lheap (mm_mem s))) (\<lambda>(mem, h).
            if mem = 0 then Inr (0, s\<lparr>mm_mem := (mm_mem s)\<lparr>lheap := h\<rparr>\<rparr>)
            else Inr (mem, s\<lparr>mm_mem := \<lparr>lheap = h, lbytes = put_bytes (lbytes (mm_mem s)) mem (replicate (unat sz) 0)\<rparr>,
              g_regions := (g_regions s)[slot := \<lparr>r_base = mem, r_size = sz, r_prot = prot, r_used = True\<rparr>]\<rparr>)))"

definition compat_munmap_region :: "addr \<Rightarrow> mem_mapper \<Rightarrow> mem_mapper res" where
  "compat_munmap_region a s =
     (if a = 0 then Inr s
      else rbind (kfree a (lheap (mm_mem s))) (\<lambda>h.
        let s1 = s\<lparr>mm_mem := (mm_mem s)\<lparr>lheap := h\<rparr>\<rparr> in
        case find_region a s of None \<Rightarrow> Inr s1
        | Some i \<Rightarrow> Inr (s1\<lparr>g_regions := (g_regions s)[i := compat_mem_region0]\<rparr>)))"

definition compat_protect_region :: "addr \<Rightarrow> u32 \<Rightarrow> u32 \<Rightarrow> mem_mapper \<Rightarrow> int \<times> mem_mapper" where
  "compat_protect_region a sz prot s =
     (if a = 0 then (-1, s)
      else case find_region a s of None \<Rightarrow> (-1, s)
        | Some i \<Rightarrow> (0, s\<lparr>g_regions := (g_regions s)[i := (g_regions s ! i)\<lparr>r_prot := prot\<rparr>]\<rparr>))"

definition compat_mem_find_region :: "addr \<Rightarrow> mem_mapper \<Rightarrow> compat_mem_region option" where
  "compat_mem_find_region a s = (if a = 0 then None else map_option ((!) (g_regions s)) (find_region a s))"

definition compat_mem_total_used :: "mem_mapper \<Rightarrow> u32" where
  "compat_mem_total_used s = sum_list (map r_size (filter r_used (g_regions s)))"

definition COMPAT_DEFAULT_STACK_SIZE :: u32 where "COMPAT_DEFAULT_STACK_SIZE = 1024 * 1024"

definition stack_top :: "addr \<Rightarrow> u32 \<Rightarrow> u64" where
  "stack_top base sz = (base + ucast sz) AND NOT 0xF"

definition compat_stack_prepare :: "addr \<Rightarrow> u32 \<Rightarrow> u64 option" where
  "compat_stack_prepare base sz = (if base = 0 \<or> sz < 64 then None else Some (stack_top base sz))"

definition compat_stack_allocate :: "u32 \<Rightarrow> mem_mapper \<Rightarrow> ((addr \<times> u64) option \<times> mem_mapper) res" where
  "compat_stack_allocate size0 s =
     (let sz = (if size0 = 0 then COMPAT_DEFAULT_STACK_SIZE else size0) in
      rbind (compat_mmap_region sz 3 s) (\<lambda>(stack, s1).
        if stack = 0 then Inr (None, s1) else Inr (Some (stack, stack_top stack sz), s1)))"

definition compat_stack_free :: "addr \<Rightarrow> mem_mapper \<Rightarrow> mem_mapper res" where
  "compat_stack_free base s = (if base \<noteq> 0 then compat_munmap_region base s else Inr s)"

section \<open>Threads and thread-local storage\<close>

definition COMPAT_MAX_THREADS :: nat where "COMPAT_MAX_THREADS = 32"
definition COMPAT_TLS_MAX_SLOTS :: nat where "COMPAT_TLS_MAX_SLOTS = 64"

datatype compat_thread_state = COMPAT_THREAD_IDLE | COMPAT_THREAD_RUNNING | COMPAT_THREAD_DONE | COMPAT_THREAD_ERROR

record compat_thread_entry =
  t_used :: bool
  t_tid :: u32
  t_pid :: u64
  t_state :: compat_thread_state
  t_entry :: addr
  t_arg :: u64
  tls_values :: "u64 list"
  start_time_ms :: u64

definition compat_thread0 :: compat_thread_entry where
  "compat_thread0 = \<lparr>t_used = False, t_tid = 0, t_pid = 0, t_state = COMPAT_THREAD_IDLE, t_entry = 0, t_arg = 0,
     tls_values = replicate COMPAT_TLS_MAX_SLOTS 0, start_time_ms = 0\<rparr>"

record compat_threads =
  g_threads :: "compat_thread_entry list"
  g_next_tid :: u32

definition compat_threads_init :: compat_threads where
  "compat_threads_init = \<lparr>g_threads = replicate COMPAT_MAX_THREADS compat_thread0, g_next_tid = 1\<rparr>"

definition find_thread :: "u32 \<Rightarrow> compat_threads \<Rightarrow> nat option" where
  "find_thread tid g = first_idx (\<lambda>t. t_used t \<and> t_tid t = tid) (g_threads g)"

definition upd_thread :: "nat \<Rightarrow> (compat_thread_entry \<Rightarrow> compat_thread_entry) \<Rightarrow> compat_threads \<Rightarrow> compat_threads" where
  "upd_thread i f g = g\<lparr>g_threads := (g_threads g)[i := f (g_threads g ! i)]\<rparr>"

text \<open>
  A thread runs to its end inside the call that creates it; \<open>call\<close> is what the code at an address
  does when it is called with an argument.
\<close>

definition compat_create_thread_pid :: "(addr \<Rightarrow> u64 \<Rightarrow> compat_threads \<Rightarrow> compat_threads) \<Rightarrow> u64 \<Rightarrow> addr \<Rightarrow> u64 \<Rightarrow> u64 \<Rightarrow> compat_threads \<Rightarrow>
    u32 option \<times> compat_threads" where
  "compat_create_thread_pid call ticks entry arg pid' g =
     (case first_idx (\<lambda>t. \<not> t_used t) (g_threads g) of None \<Rightarrow> (None, g)
      | Some i \<Rightarrow>
        let tid = g_next_tid g;
            g1 = upd_thread i (\<lambda>_. \<lparr>t_used = True, t_tid = tid, t_pid = pid', t_state = COMPAT_THREAD_RUNNING, t_entry = entry, t_arg = arg,
              tls_values = replicate COMPAT_TLS_MAX_SLOTS 0, start_time_ms = ticks * 10\<rparr>) (g\<lparr>g_next_tid := tid + 1\<rparr>);
            g2 = (if entry \<noteq> 0 then upd_thread i (\<lambda>t. t\<lparr>t_state := COMPAT_THREAD_DONE\<rparr>) (call entry arg g1) else g1)
        in (Some tid, g2))"

definition compat_create_thread :: "(addr \<Rightarrow> u64 \<Rightarrow> compat_threads \<Rightarrow> compat_threads) \<Rightarrow> u64 \<Rightarrow> addr \<Rightarrow> u64 \<Rightarrow> compat_threads \<Rightarrow>
    u32 option \<times> compat_threads" where
  "compat_create_thread call ticks entry arg g = compat_create_thread_pid call ticks entry arg 0 g"

definition compat_set_tls :: "u32 \<Rightarrow> u32 \<Rightarrow> u64 \<Rightarrow> compat_threads \<Rightarrow> int \<times> compat_threads" where
  "compat_set_tls tid slot value g =
     (case find_thread tid g of None \<Rightarrow> (-1, g)
      | Some i \<Rightarrow> if slot \<ge> of_nat COMPAT_TLS_MAX_SLOTS then (-1, g)
          else (0, upd_thread i (\<lambda>t. t\<lparr>tls_values := (tls_values t)[unat slot := value]\<rparr>) g))"

definition compat_get_tls :: "u32 \<Rightarrow> u32 \<Rightarrow> compat_threads \<Rightarrow> u64 option" where
  "compat_get_tls tid slot g =
     (case find_thread tid g of None \<Rightarrow> None
      | Some i \<Rightarrow> if slot \<ge> of_nat COMPAT_TLS_MAX_SLOTS then None else Some (tls_values (g_threads g ! i) ! unat slot))"

definition compat_wait_thread :: "u32 \<Rightarrow> u32 \<Rightarrow> compat_threads \<Rightarrow> int" where
  "compat_wait_thread tid timeout_ms g =
     (case find_thread tid g of None \<Rightarrow> -1 | Some i \<Rightarrow> if t_state (g_threads g ! i) = COMPAT_THREAD_DONE then 0 else -1)"

definition compat_thread_state_of :: "u32 \<Rightarrow> compat_threads \<Rightarrow> compat_thread_state option" where
  "compat_thread_state_of tid g = map_option (\<lambda>i. t_state (g_threads g ! i)) (find_thread tid g)"

definition compat_thread_count :: "compat_threads \<Rightarrow> u32" where
  "compat_thread_count g = of_nat (length (filter (\<lambda>t. t_used t \<and> t_state t \<noteq> COMPAT_THREAD_DONE) (g_threads g)))"

definition compat_thread_cleanup :: "u32 \<Rightarrow> compat_threads \<Rightarrow> compat_threads" where
  "compat_thread_cleanup tid g =
     (case find_thread tid g of None \<Rightarrow> g | Some i \<Rightarrow> upd_thread i (\<lambda>t. t\<lparr>t_used := False, t_state := COMPAT_THREAD_IDLE\<rparr>) g)"

definition compat_schedule_threads :: "compat_threads \<Rightarrow> compat_threads" where
  "compat_schedule_threads g =
     g\<lparr>g_threads := map (\<lambda>t. if t_used t \<and> t_state t = COMPAT_THREAD_RUNNING \<and> t_entry t \<noteq> 0 then t\<lparr>t_state := COMPAT_THREAD_RUNNING\<rparr> else t) (g_threads g)\<rparr>"

definition tls_set :: "u32 \<Rightarrow> u32 \<Rightarrow> u64 \<Rightarrow> compat_threads \<Rightarrow> int \<times> compat_threads" where
  "tls_set tid slot value g = compat_set_tls tid slot value g"

definition tls_get :: "u32 \<Rightarrow> u32 \<Rightarrow> compat_threads \<Rightarrow> u64 option" where
  "tls_get tid slot g = compat_get_tls tid slot g"

subsection \<open>The TLS directory of a program\<close>

definition COMPAT_TLS_CALLBACK_MAX :: nat where "COMPAT_TLS_CALLBACK_MAX = 16"

record pe_tls_directory64 =
  raw_data_start_va :: u32
  raw_data_end_va :: u32
  address_of_index :: u32
  address_of_callbacks :: u32
  size_of_zero_fill :: u32
  tls_characteristics :: u32

definition parse_tls_directory :: "u8 list \<Rightarrow> pe_tls_directory64" where
  "parse_tls_directory b = \<lparr>raw_data_start_va = rd32 b 0, raw_data_end_va = rd32 b 4, address_of_index = rd32 b 8, address_of_callbacks = rd32 b 12,
     size_of_zero_fill = rd32 b 16, tls_characteristics = rd32 b 20\<rparr>"

record compat_tls_info =
  tls_dir :: pe_tls_directory64
  callbacks :: "u64 list"
  callback_count :: u32
  tls_initialized :: bool

definition compat_tls_info0 :: compat_tls_info where
  "compat_tls_info0 = \<lparr>tls_dir = \<lparr>raw_data_start_va = 0, raw_data_end_va = 0, address_of_index = 0, address_of_callbacks = 0, size_of_zero_fill = 0,
     tls_characteristics = 0\<rparr>, callbacks = replicate COMPAT_TLS_CALLBACK_MAX 0, callback_count = 0, tls_initialized = False\<rparr>"

definition tls_manager_init :: "compat_tls_info \<times> compat_threads" where
  "tls_manager_init = (compat_tls_info0\<lparr>tls_initialized := True\<rparr>, compat_threads_init)"

fun callback_loop :: "u8 list \<Rightarrow> u32 \<Rightarrow> nat \<Rightarrow> u32 \<Rightarrow> compat_tls_info \<Rightarrow> compat_tls_info res" where
  "callback_loop d fsize 0 cb_off g = Inr g"
| "callback_loop d fsize (Suc n) cb_off g =
     (if cb_off + 8 > fsize then Inr g
      else rbind (view d (unat cb_off) 8) (\<lambda>b.
        if rd64 b 0 = 0 then Inr g
        else callback_loop d fsize n (cb_off + 8)
          (g\<lparr>callbacks := (callbacks g)[unat (callback_count g) := rd64 b 0], callback_count := callback_count g + 1\<rparr>)))"

definition tls_parse_directory :: "u8 list option \<Rightarrow> u32 \<Rightarrow> pe_image_info \<Rightarrow> compat_tls_info \<Rightarrow> (int \<times> compat_tls_info) res" where
  "tls_parse_directory file_data fsize info g =
     (case file_data of None \<Rightarrow> Inr (-1, g)
      | Some d \<Rightarrow>
        let tls_rva = d_rva (data_dirs info ! PE_DIR_ENTRY_TLS); tls_size = d_size (data_dirs info ! PE_DIR_ENTRY_TLS) in
        if \<not> has_tls info \<or> tls_rva = 0 \<or> tls_size < 24 then Inr (-1, g)
        else case pe_rva_to_offset info tls_rva of None \<Rightarrow> Inr (-1, g)
          | Some tls_off \<Rightarrow>
            if unat tls_off + 24 > unat fsize then Inr (-1, g)
            else rbind (view d (unat tls_off) 24) (\<lambda>b.
              let dir = parse_tls_directory b; g1 = g\<lparr>tls_dir := dir\<rparr> in
              if address_of_callbacks dir = 0 then Inr (0, g1)
              else case pe_rva_to_offset info (ucast (ucast (address_of_callbacks dir) - image_base info)) of
                None \<Rightarrow> Inr (0, g1)
              | Some cb_off \<Rightarrow> rbind (callback_loop d fsize COMPAT_TLS_CALLBACK_MAX cb_off (g1\<lparr>callback_count := 0\<rparr>)) (\<lambda>g2. Inr (0, g2))))"

text \<open>\<open>call\<close> is the effect of the callback at an address.\<close>

definition tls_execute_callbacks :: "(u64 \<Rightarrow> u32 \<Rightarrow> 's \<Rightarrow> 's) \<Rightarrow> u32 \<Rightarrow> compat_tls_info \<Rightarrow> 's \<Rightarrow> int \<times> 's" where
  "tls_execute_callbacks call reason g s =
     (if \<not> tls_initialized g then (-1, s)
      else (0, fold (\<lambda>cb s. if cb \<noteq> 0 then call cb reason s else s) (take (unat (callback_count g)) (callbacks g)) s))"

section \<open>Synchronisation objects\<close>

definition COMPAT_SYNC_EVENT :: int where "COMPAT_SYNC_EVENT = 1"
definition COMPAT_SYNC_MUTEX :: int where "COMPAT_SYNC_MUTEX = 2"
definition COMPAT_SYNC_SEMAPHORE :: int where "COMPAT_SYNC_SEMAPHORE = 3"
definition COMPAT_SYNC_THREAD :: int where "COMPAT_SYNC_THREAD = 4"
definition COMPAT_MAX_SYNC_OBJECTS :: nat where "COMPAT_MAX_SYNC_OBJECTS = 32"

record compat_sync_object =
  so_used :: bool
  so_id :: u32
  so_type :: int
  signaled :: bool
  manual_reset :: bool
  so_waiters :: u32

definition compat_sync_object0 :: compat_sync_object where
  "compat_sync_object0 = \<lparr>so_used = False, so_id = 0, so_type = 0, signaled = False, manual_reset = False, so_waiters = 0\<rparr>"

record compat_sync =
  g_sync_objs :: "compat_sync_object list"
  g_next_sync_id :: u32
  g_sync_init :: bool

definition compat_sync_boot :: compat_sync where
  "compat_sync_boot = \<lparr>g_sync_objs = replicate COMPAT_MAX_SYNC_OBJECTS compat_sync_object0, g_next_sync_id = 0x6000, g_sync_init = False\<rparr>"

definition compat_sync_init :: "compat_sync \<Rightarrow> int \<times> compat_sync" where
  "compat_sync_init g = (if g_sync_init g then (0, g)
     else (0, g\<lparr>g_sync_objs := replicate COMPAT_MAX_SYNC_OBJECTS compat_sync_object0, g_sync_init := True\<rparr>))"

definition compat_sync_create :: "int \<Rightarrow> bool \<Rightarrow> bool \<Rightarrow> compat_sync \<Rightarrow> u32 \<times> compat_sync" where
  "compat_sync_create ty initial manual g0 =
     (let g = (if g_sync_init g0 then g0 else snd (compat_sync_init g0)) in
      case first_idx (\<lambda>o'. \<not> so_used o') (g_sync_objs g) of None \<Rightarrow> (-1, g)
      | Some i \<Rightarrow> (g_next_sync_id g, g\<lparr>g_sync_objs := (g_sync_objs g)[i := \<lparr>so_used = True, so_id = g_next_sync_id g, so_type = ty,
          signaled = initial, manual_reset = manual, so_waiters = 0\<rparr>], g_next_sync_id := g_next_sync_id g + 1\<rparr>))"

definition find_sync :: "u32 \<Rightarrow> compat_sync \<Rightarrow> nat option" where
  "find_sync id' g = first_idx (\<lambda>o'. so_used o' \<and> so_id o' = id') (g_sync_objs g)"

definition set_signaled :: "nat \<Rightarrow> bool \<Rightarrow> compat_sync \<Rightarrow> compat_sync" where
  "set_signaled i b g = g\<lparr>g_sync_objs := (g_sync_objs g)[i := (g_sync_objs g ! i)\<lparr>signaled := b\<rparr>]\<rparr>"

definition compat_sync_signal :: "u32 \<Rightarrow> compat_sync \<Rightarrow> int \<times> compat_sync" where
  "compat_sync_signal id' g = (case find_sync id' g of None \<Rightarrow> (-1, g) | Some i \<Rightarrow> (0, set_signaled i True g))"

definition compat_sync_reset :: "u32 \<Rightarrow> compat_sync \<Rightarrow> int \<times> compat_sync" where
  "compat_sync_reset id' g = (case find_sync id' g of None \<Rightarrow> (-1, g) | Some i \<Rightarrow> (0, set_signaled i False g))"

definition compat_wait_for_object :: "u32 \<Rightarrow> u32 \<Rightarrow> compat_threads \<Rightarrow> compat_sync \<Rightarrow> int \<times> compat_sync" where
  "compat_wait_for_object id' timeout_ms ts g =
     (case find_sync id' g of
        Some i \<Rightarrow>
          if signaled (g_sync_objs g ! i)
          then (0, if manual_reset (g_sync_objs g ! i) then g else set_signaled i False g)
          else (-1, g)
      | None \<Rightarrow> (compat_wait_thread id' timeout_ms ts, g))"

definition compat_wait_for_multiple :: "u32 \<Rightarrow> u32 list \<Rightarrow> bool \<Rightarrow> u32 \<Rightarrow> int" where
  "compat_wait_for_multiple n ids wait_all timeout_ms = 0"

section \<open>Processes\<close>

definition COMPAT_MAX_PROCESSES :: nat where "COMPAT_MAX_PROCESSES = 8"
definition COMPAT_MAX_THREADS_PER_PROC :: nat where "COMPAT_MAX_THREADS_PER_PROC = 16"
definition COMPAT_PROCESS_NAME_LEN :: nat where "COMPAT_PROCESS_NAME_LEN = 64"

text \<open>The fields of a thread and a process that the code uses; it never touches the table of handles.\<close>

record compat_process_thread =
  pt_used :: bool
  pt_tid :: u32
  pt_pid :: u64

definition compat_process_thread0 :: compat_process_thread where
  "compat_process_thread0 = \<lparr>pt_used = False, pt_tid = 0, pt_pid = 0\<rparr>"

record compat_process =
  cp_used :: bool
  cp_name :: "u8 list"
  cp_pid :: u64
  cp_image_base :: addr
  cp_entry_point :: u64
  cp_mapped_size :: u32
  cp_threads :: "compat_process_thread list"
  cp_thread_count :: u32
  cp_exit_code :: u32
  cp_exited :: bool
  create_time_ms :: u64

definition compat_process0 :: compat_process where
  "compat_process0 = \<lparr>cp_used = False, cp_name = [], cp_pid = 0, cp_image_base = 0, cp_entry_point = 0, cp_mapped_size = 0,
     cp_threads = replicate COMPAT_MAX_THREADS_PER_PROC compat_process_thread0, cp_thread_count = 0, cp_exit_code = 0, cp_exited = False, create_time_ms = 0\<rparr>"

record compat_processes =
  g_processes :: "compat_process list"
  g_next_pid :: u64
  g_proc_init :: bool

definition compat_process_init :: "compat_processes \<Rightarrow> compat_processes" where
  "compat_process_init g = (if g_proc_init g then g
     else \<lparr>g_processes = replicate COMPAT_MAX_PROCESSES compat_process0, g_next_pid = 1, g_proc_init = True\<rparr>)"

definition compat_process_create :: "u64 \<Rightarrow> u8 list option \<Rightarrow> addr \<Rightarrow> u64 \<Rightarrow> u32 \<Rightarrow> compat_processes \<Rightarrow> u64 option \<times> compat_processes" where
  "compat_process_create ticks name base entry mapped g =
     (case name of None \<Rightarrow> (None, g)
      | Some n \<Rightarrow>
        case first_idx (\<lambda>p. \<not> cp_used p) (g_processes g) of None \<Rightarrow> (None, g)
        | Some i \<Rightarrow> (Some (g_next_pid g), g\<lparr>g_processes := (g_processes g)[i := \<lparr>cp_used = True, cp_name = take (COMPAT_PROCESS_NAME_LEN - 1) n,
            cp_pid = g_next_pid g, cp_image_base = base, cp_entry_point = entry, cp_mapped_size = mapped,
            cp_threads = replicate COMPAT_MAX_THREADS_PER_PROC compat_process_thread0, cp_thread_count = 0, cp_exit_code = 0, cp_exited = False,
            create_time_ms = ticks * 10\<rparr>], g_next_pid := g_next_pid g + 1\<rparr>))"

definition compat_process_get :: "u64 \<Rightarrow> compat_processes \<Rightarrow> nat option" where
  "compat_process_get p' g = first_idx (\<lambda>p. cp_used p \<and> cp_pid p = p') (g_processes g)"

definition compat_process_exit :: "u64 \<Rightarrow> u32 \<Rightarrow> compat_processes \<Rightarrow> int \<times> compat_processes" where
  "compat_process_exit p' code g =
     (case compat_process_get p' g of None \<Rightarrow> (-1, g)
      | Some i \<Rightarrow> (0, g\<lparr>g_processes := (g_processes g)[i := (g_processes g ! i)\<lparr>cp_exit_code := code, cp_exited := True\<rparr>]\<rparr>))"

definition compat_process_add_thread :: "u64 \<Rightarrow> u32 \<Rightarrow> compat_processes \<Rightarrow> int \<times> compat_processes" where
  "compat_process_add_thread p' tid g =
     (case compat_process_get p' g of None \<Rightarrow> (-1, g)
      | Some i \<Rightarrow>
        let pr = g_processes g ! i in
        case first_idx (\<lambda>t. \<not> pt_used t) (cp_threads pr) of None \<Rightarrow> (-1, g)
        | Some j \<Rightarrow> (0, g\<lparr>g_processes := (g_processes g)[i := pr\<lparr>cp_threads := (cp_threads pr)[j := \<lparr>pt_used = True, pt_tid = tid, pt_pid = p'\<rparr>],
            cp_thread_count := cp_thread_count pr + 1\<rparr>]\<rparr>))"

definition compat_process_count :: "compat_processes \<Rightarrow> u32" where
  "compat_process_count g = of_nat (length (filter cp_used (g_processes g)))"

definition compat_process_list :: "compat_processes \<Rightarrow> int" where
  "compat_process_list g = int (length (filter cp_used (g_processes g)))"

section \<open>The sandbox\<close>

definition COMPAT_SANDBOX_DEFAULT_MEM_MB :: u32 where "COMPAT_SANDBOX_DEFAULT_MEM_MB = 256"
definition COMPAT_SANDBOX_DEFAULT_CPU_PCT :: u32 where "COMPAT_SANDBOX_DEFAULT_CPU_PCT = 50"

record compat_sandbox =
  max_memory_mb :: u32
  max_cpu_percent :: u32
  deny_kernel_paths :: bool
  deny_exec :: bool
  audit_enabled :: bool
  whitelist_paths :: "u8 list list"
  whitelist_count :: u32

definition sandbox_init :: compat_sandbox where
  "sandbox_init = \<lparr>max_memory_mb = COMPAT_SANDBOX_DEFAULT_MEM_MB, max_cpu_percent = COMPAT_SANDBOX_DEFAULT_CPU_PCT, deny_kernel_paths = True,
     deny_exec = True, audit_enabled = True, whitelist_paths = replicate 8 [], whitelist_count = 0\<rparr>"

text \<open>\<open>strncmp(path, p, strlen(p)) == 0\<close> for strings.\<close>

fun has_prefix :: "u8 list \<Rightarrow> u8 list \<Rightarrow> bool" where
  "has_prefix s [] = True"
| "has_prefix [] (c # p) = False"
| "has_prefix (a # s) (c # p) = (a = c \<and> has_prefix s p)"

definition sandbox_check_path :: "compat_sandbox \<Rightarrow> u8 list option \<Rightarrow> int" where
  "sandbox_check_path sb path =
     (case path of None \<Rightarrow> -1
      | Some p \<Rightarrow>
        if list_ex (has_prefix p) (take (unat (whitelist_count sb)) (whitelist_paths sb)) then 0
        else if \<not> deny_kernel_paths sb then 0
        else if has_prefix p (cstr ''/kernel'') then -1
        else if has_prefix p (cstr ''/etc'') then -1
        else if has_prefix p (cstr ''/boot'') then -1
        else if has_prefix p (cstr ''/system'') \<and> deny_exec sb then -1
        else 0)"

definition sandbox_check_memory :: "compat_sandbox \<Rightarrow> u32 \<Rightarrow> int" where
  "sandbox_check_memory sb mem_mb = (if mem_mb \<le> max_memory_mb sb then 0 else -1)"

definition sandbox_add_whitelist_path :: "u8 list option \<Rightarrow> compat_sandbox \<Rightarrow> int \<times> compat_sandbox" where
  "sandbox_add_whitelist_path path sb =
     (case path of None \<Rightarrow> (-1, sb)
      | Some p \<Rightarrow>
        if whitelist_count sb \<ge> 8 then (-1, sb)
        else (0, sb\<lparr>whitelist_paths := (whitelist_paths sb)[unat (whitelist_count sb) := take 63 p], whitelist_count := whitelist_count sb + 1\<rparr>))"

record compat_sandbox_stats =
  total_mem_allocated_mb :: u32
  peak_mem_mb :: u32
  total_cpu_ticks :: u32
  path_denials :: u32
  memory_violations :: u32

definition sandbox_stats_init :: compat_sandbox_stats where
  "sandbox_stats_init = \<lparr>total_mem_allocated_mb = 0, peak_mem_mb = 0, total_cpu_ticks = 0, path_denials = 0, memory_violations = 0\<rparr>"

definition sandbox_stats_record_path_denial :: "compat_sandbox_stats \<Rightarrow> compat_sandbox_stats" where
  "sandbox_stats_record_path_denial st = st\<lparr>path_denials := path_denials st + 1\<rparr>"

section \<open>Exceptions and exit handlers\<close>

definition COMPAT_EX_DIVIDE_BY_ZERO :: u32 where "COMPAT_EX_DIVIDE_BY_ZERO = 0xC0000094"
definition COMPAT_EX_ACCESS_VIOLATION :: u32 where "COMPAT_EX_ACCESS_VIOLATION = 0xC0000005"
definition COMPAT_EX_ILLEGAL_INSTRUCTION :: u32 where "COMPAT_EX_ILLEGAL_INSTRUCTION = 0xC000001D"
definition COMPAT_EX_STACK_OVERFLOW :: u32 where "COMPAT_EX_STACK_OVERFLOW = 0xC00000FD"
definition COMPAT_EX_INTEGER_OVERFLOW :: u32 where "COMPAT_EX_INTEGER_OVERFLOW = 0xC0000095"
definition COMPAT_EX_PRIV_INSTRUCTION :: u32 where "COMPAT_EX_PRIV_INSTRUCTION = 0xC0000096"
definition COMPAT_EX_PAGE_FAULT :: u32 where "COMPAT_EX_PAGE_FAULT = 0xC0000005"
definition COMPAT_EX_BREAKPOINT :: u32 where "COMPAT_EX_BREAKPOINT = 0xC0000092"
definition COMPAT_EX_DATATYPE_MISALIGNMENT :: u32 where "COMPAT_EX_DATATYPE_MISALIGNMENT = 0xC0000235"

record compat_exception_record =
  ex_code :: u32
  ex_addr :: u64
  ex_flags :: u32
  ex_handled :: u32

record seh =
  g_handler :: addr
  g_last_exception :: compat_exception_record

definition seh_bridge_init :: seh where
  "seh_bridge_init = \<lparr>g_handler = 0, g_last_exception = \<lparr>ex_code = 0, ex_addr = 0, ex_flags = 0, ex_handled = 0\<rparr>\<rparr>"

definition seh_map_cpu_exception :: "u32 \<Rightarrow> u64 \<Rightarrow> u32" where
  "seh_map_cpu_exception v a =
     (if v = 0 then COMPAT_EX_DIVIDE_BY_ZERO
      else if v = 1 then COMPAT_EX_BREAKPOINT
      else if v = 4 then COMPAT_EX_INTEGER_OVERFLOW
      else if v = 6 then COMPAT_EX_ILLEGAL_INSTRUCTION
      else if v = 11 then COMPAT_EX_DATATYPE_MISALIGNMENT
      else if v = 12 then COMPAT_EX_STACK_OVERFLOW
      else if v = 13 then COMPAT_EX_PRIV_INSTRUCTION
      else if v = 14 then (if a \<noteq> 0 then COMPAT_EX_ACCESS_VIOLATION else COMPAT_EX_PAGE_FAULT)
      else COMPAT_EX_ILLEGAL_INSTRUCTION)"

definition seh_register_handler :: "addr \<Rightarrow> seh \<Rightarrow> seh" where
  "seh_register_handler handler g = g\<lparr>g_handler := handler\<rparr>"

text \<open>\<open>call\<close> is the effect of the handler at an address, which may raise again.\<close>

definition seh_raise :: "(addr \<Rightarrow> u32 \<Rightarrow> u64 \<Rightarrow> seh \<times> 's \<Rightarrow> seh \<times> 's) \<Rightarrow> u32 \<Rightarrow> u64 \<Rightarrow> seh \<times> 's \<Rightarrow> int \<times> seh \<times> 's" where
  "seh_raise call code a gs =
     (let g = (fst gs)\<lparr>g_last_exception := \<lparr>ex_code = code, ex_addr = a, ex_flags = 0, ex_handled = 0\<rparr>\<rparr> in
      if g_handler g \<noteq> 0 then
        (case call (g_handler g) code a (g, snd gs) of (g1, s1) \<Rightarrow> (0, g1\<lparr>g_last_exception := (g_last_exception g1)\<lparr>ex_handled := 1\<rparr>\<rparr>, s1))
      else (-1, g, snd gs))"

definition seh_raise_with_record :: "(addr \<Rightarrow> u32 \<Rightarrow> u64 \<Rightarrow> seh \<times> 's \<Rightarrow> seh \<times> 's) \<Rightarrow> compat_exception_record option \<Rightarrow> seh \<times> 's \<Rightarrow> int \<times> seh \<times> 's" where
  "seh_raise_with_record call r gs = (case r of None \<Rightarrow> (-1, gs) | Some e \<Rightarrow> seh_raise call (ex_code e) (ex_addr e) gs)"

definition seh_code_name :: "u32 \<Rightarrow> string" where
  "seh_code_name code =
     (if code = COMPAT_EX_DIVIDE_BY_ZERO then ''DIVIDE_BY_ZERO''
      else if code = COMPAT_EX_ACCESS_VIOLATION then ''ACCESS_VIOLATION''
      else if code = COMPAT_EX_ILLEGAL_INSTRUCTION then ''ILLEGAL_INSTRUCTION''
      else if code = COMPAT_EX_STACK_OVERFLOW then ''STACK_OVERFLOW''
      else if code = COMPAT_EX_INTEGER_OVERFLOW then ''INTEGER_OVERFLOW''
      else if code = COMPAT_EX_PRIV_INSTRUCTION then ''PRIV_INSTRUCTION''
      else if code = COMPAT_EX_BREAKPOINT then ''BREAKPOINT''
      else if code = COMPAT_EX_DATATYPE_MISALIGNMENT then ''DATATYPE_MISALIGNMENT''
      else ''UNKNOWN'')"

definition compat_exception_from_vector :: "u32 \<Rightarrow> u64 \<Rightarrow> u32" where
  "compat_exception_from_vector v a = seh_map_cpu_exception v a"

definition compat_exception_handler_dispatch :: "(addr \<Rightarrow> u32 \<Rightarrow> u64 \<Rightarrow> seh \<times> 's \<Rightarrow> seh \<times> 's) \<Rightarrow> u32 \<Rightarrow> u64 \<Rightarrow> seh \<times> 's \<Rightarrow> seh \<times> 's" where
  "compat_exception_handler_dispatch call v a gs = snd (seh_raise call (seh_map_cpu_exception v a) a gs)"

definition COMPAT_MAX_ATEXIT :: nat where "COMPAT_MAX_ATEXIT = 32"
definition COMPAT_MAX_CLEANUP_PATHS :: nat where "COMPAT_MAX_CLEANUP_PATHS = 16"

text \<open>The registered functions and paths in order; the counters of the code are their numbers.\<close>

record safe_exit =
  g_atexit_funcs :: "addr list"
  g_cleanup_paths :: "u8 list list"

definition compat_atexit :: "addr \<Rightarrow> safe_exit \<Rightarrow> int \<times> safe_exit" where
  "compat_atexit func g =
     (if func = 0 \<or> length (g_atexit_funcs g) \<ge> COMPAT_MAX_ATEXIT then (-1, g) else (0, g\<lparr>g_atexit_funcs := g_atexit_funcs g @ [func]\<rparr>))"

definition compat_register_cleanup_path :: "u8 list option \<Rightarrow> safe_exit \<Rightarrow> int \<times> safe_exit" where
  "compat_register_cleanup_path path g =
     (case path of None \<Rightarrow> (-1, g)
      | Some p \<Rightarrow> if length (g_cleanup_paths g) \<ge> COMPAT_MAX_CLEANUP_PATHS then (-1, g) else (0, g\<lparr>g_cleanup_paths := g_cleanup_paths g @ [take 63 p]\<rparr>))"

fun cleanup_loop :: "(addr \<Rightarrow> 's \<Rightarrow> 's) \<Rightarrow> addr list \<Rightarrow> nat \<Rightarrow> 's \<Rightarrow> 's" where
  "cleanup_loop call fs 0 s = s"
| "cleanup_loop call fs (Suc i) s = cleanup_loop call fs i (if fs ! i \<noteq> 0 then call (fs ! i) s else s)"

definition compat_cleanup_on_crash :: "(addr \<Rightarrow> 's \<Rightarrow> 's) \<Rightarrow> safe_exit \<Rightarrow> 's \<Rightarrow> 's" where
  "compat_cleanup_on_crash call g s = cleanup_loop call (g_atexit_funcs g) (length (g_atexit_funcs g)) s"

definition compat_exit_cleanup :: "(addr \<Rightarrow> 's \<Rightarrow> 's) \<Rightarrow> u32 \<Rightarrow> safe_exit \<Rightarrow> 's \<Rightarrow> 's" where
  "compat_exit_cleanup call code g s = compat_cleanup_on_crash call g s"

section \<open>Regions are live blocks of the heap\<close>

datatype mm_cmd = MapRegion u32 u32 | UnmapRegion nat | ProtectRegion nat u32

text \<open>A client's calls: regions are unmapped or protected by their number in the table.\<close>

fun mm_run :: "mm_cmd list \<Rightarrow> mem_mapper \<Rightarrow> mem_mapper res" where
  "mm_run [] s = Inr s"
| "mm_run (MapRegion sz prot # cs) s = rbind (compat_mmap_region sz prot s) (\<lambda>(a, s1). mm_run cs s1)"
| "mm_run (UnmapRegion i # cs) s =
     (if i < length (g_regions s) \<and> r_used (g_regions s ! i) then rbind (compat_munmap_region (r_base (g_regions s ! i)) s) (mm_run cs)
      else mm_run cs s)"
| "mm_run (ProtectRegion i prot # cs) s =
     (if i < length (g_regions s) \<and> r_used (g_regions s ! i)
      then mm_run cs (snd (compat_protect_region (r_base (g_regions s ! i)) (r_size (g_regions s ! i)) prot s))
      else mm_run cs s)"

definition in_use :: "mem_mapper \<Rightarrow> nat set" where
  "in_use s = {i. i < length (g_regions s) \<and> r_used (g_regions s ! i)}"

text \<open>\<open>f\<close> gives the heap block of every region in use; the blocks \<open>L\<close> belong to others.\<close>

definition backs :: "(nat \<Rightarrow> allocation) \<Rightarrow> allocation set \<Rightarrow> mem_mapper \<Rightarrow> bool" where
  "backs f L s \<longleftrightarrow> inj_on f (in_use s) \<and> f ` in_use s \<inter> L = {} \<and> heap_inv (lheap (mm_mem s)) (L \<union> f ` in_use s) \<and>
     (\<forall>i\<in>in_use s. user_ptr (lheap (mm_mem s)) (f i) = r_base (g_regions s ! i) \<and> snd (snd (f i)) = ucast (r_size (g_regions s ! i)))"

definition mm_inv :: "allocation set \<Rightarrow> mem_mapper \<Rightarrow> bool" where
  "mm_inv L s \<longleftrightarrow> g_mem_initialized s \<and> length (g_regions s) = COMPAT_MAX_MEM_REGIONS \<and> (\<exists>f. backs f L s)"

lemma in_use_update:
  "i < length (g_regions s) \<Longrightarrow> in_use (s\<lparr>g_regions := (g_regions s)[i := r]\<rparr>) = (if r_used r then insert i (in_use s) else in_use s - {i})"
  by (auto simp: in_use_def nth_list_update)

lemma in_use_mem [simp]: "in_use (s\<lparr>mm_mem := m\<rparr>) = in_use s"
  by (simp add: in_use_def)

lemma backs_same_heap:
  assumes "backs f L s" "in_use s' = in_use s" "heap_inv (lheap (mm_mem s')) (L \<union> f ` in_use s)" "user_ptr (lheap (mm_mem s')) = user_ptr (lheap (mm_mem s))"
    and "\<And>i. i \<in> in_use s \<Longrightarrow> r_base (g_regions s' ! i) = r_base (g_regions s ! i) \<and> r_size (g_regions s' ! i) = r_size (g_regions s ! i)"
  shows "backs f L s'"
  using assms by (simp add: backs_def)

lemma backs_add:
  assumes f: "backs f L s" and i: "i < length (g_regions s)" "i \<notin> in_use s" and a: "a \<notin> L \<union> f ` in_use s"
    and h: "heap_inv h (insert a (L \<union> f ` in_use s))" "user_ptr h = user_ptr (lheap (mm_mem s))"
    and r: "r_used r" "r_base r = user_ptr h a" "ucast (r_size r) = snd (snd a)"
  shows "backs (f(i := a)) L (s\<lparr>mm_mem := \<lparr>lheap = h, lbytes = b\<rparr>, g_regions := (g_regions s)[i := r]\<rparr>)"
proof -
  let ?s = "s\<lparr>mm_mem := \<lparr>lheap = h, lbytes = b\<rparr>, g_regions := (g_regions s)[i := r]\<rparr>"
  have u: "in_use ?s = insert i (in_use s)"
    using i(1) r(1) in_use_update [of i "s\<lparr>mm_mem := \<lparr>lheap = h, lbytes = b\<rparr>\<rparr>" r] by simp
  have im: "(f(i := a)) ` insert i (in_use s) = insert a (f ` in_use s)" using i(2) by (auto simp: image_iff)
  have inj: "inj_on (f(i := a)) (insert i (in_use s))"
    using f i(2) a by (intro inj_on_fun_updI [THEN inj_on_insert [THEN iffD2, OF conjI]]) (auto simp: backs_def image_iff)
  have "r_base (g_regions ?s ! j) = user_ptr h ((f(i := a)) j) \<and> snd (snd ((f(i := a)) j)) = ucast (r_size (g_regions ?s ! j))"
    if "j \<in> insert i (in_use s)" for j
    using that f i r h(2) by (cases "j = i") (auto simp: backs_def)
  moreover have "L \<union> insert a (f ` in_use s) = insert a (L \<union> f ` in_use s)" by simp
  ultimately show ?thesis unfolding backs_def u im using f a h(1) inj by (simp add: backs_def)
qed

lemma backs_remove:
  assumes f: "backs f L s" and i: "i \<in> in_use s"
    and h: "heap_inv h (L \<union> f ` in_use s - {f i})" "user_ptr h = user_ptr (lheap (mm_mem s))" and r: "\<not> r_used r"
  shows "backs f L (s\<lparr>mm_mem := (mm_mem s)\<lparr>lheap := h\<rparr>, g_regions := (g_regions s)[i := r]\<rparr>)"
proof -
  let ?s = "s\<lparr>mm_mem := (mm_mem s)\<lparr>lheap := h\<rparr>, g_regions := (g_regions s)[i := r]\<rparr>"
  have u: "in_use ?s = in_use s - {i}"
    using i r in_use_update [of i "s\<lparr>mm_mem := (mm_mem s)\<lparr>lheap := h\<rparr>\<rparr>" r] by (simp add: in_use_def)
  have "f ` (in_use s - {i}) = f ` in_use s - {f i}"
    using f i by (auto simp: backs_def inj_on_def)
  then have "L \<union> f ` (in_use s - {i}) = L \<union> f ` in_use s - {f i}" using f i by (auto simp: backs_def)
  then show ?thesis using f h i by (auto simp: backs_def u inj_on_def)
qed

lemma unat_widen: "unat (ucast (w :: u32) :: u64) = unat w"
  using unsigned_less [of w, where 'a = nat] by (simp add: unsigned_ucast_eq take_bit_nat_eq_self)

lemma mmap_inv:
  assumes "mm_inv L s"
  shows "\<exists>a s'. compat_mmap_region sz prot s = Inr (a, s') \<and> mm_inv L s'"
proof -
  from assms obtain f where init: "g_mem_initialized s" and len: "length (g_regions s) = COMPAT_MAX_MEM_REGIONS" and f: "backs f L s"
    by (auto simp: mm_inv_def)
  have s: "compat_mem_init s = s" using init by (simp add: compat_mem_init_def)
  show ?thesis
  proof (cases "sz = 0 \<or> find_free_slot s = None")
    case True
    then show ?thesis using assms by (auto simp: compat_mmap_region_def s)
  next
    case False
    then obtain slot where slot: "find_free_slot s = Some slot" and nz: "(ucast sz :: u64) \<noteq> 0"
      by (metis not_None_eq unat_eq_zero unat_widen)
    have sl: "slot < length (g_regions s)" "slot \<notin> in_use s"
      using slot by (auto simp: find_free_slot_def in_use_def dest: first_idx_SomeD)
    have inv: "heap_inv (lheap (mm_mem s)) (L \<union> f ` in_use s)" using f by (simp add: backs_def)
    from inv nz show ?thesis
    proof (cases rule: kmalloc_cases)
      case failed
      have "backs f L (s\<lparr>mm_mem := (mm_mem s)\<lparr>lheap := heap_fail (lheap (mm_mem s))\<rparr>\<rparr>)"
        using failed by (intro backs_same_heap [OF f]) simp_all
      then show ?thesis using False slot failed(1) init len by (auto simp: compat_mmap_region_def s mm_inv_def)
    next
      case (fits b n)
      let ?h = "lheap (mm_mem s)" and ?a = "(b, n, ucast sz :: u64)"
      have "blocks_of ?a = {b..<b + n}" by (simp add: blocks_of_def)
      then have new: "?a \<notin> L \<union> f ` in_use s" using bspec [OF fits(9), of ?a] fits(3) by auto
      have ptr: "block_addr ?h b + HEADER_SIZE = user_ptr ?h ?a" by (simp add: user_ptr_def)
      have geo: "heap_geometry ?h" using inv by (simp add: heap_inv_def)
      have pnz: "user_ptr ?h ?a \<noteq> 0" using user_ptr_simps(1) [OF geo, of b] fits(3,5) unfolding ptr [symmetric] by simp
      let ?r = "\<lparr>r_base = user_ptr ?h ?a, r_size = sz, r_prot = prot, r_used = True\<rparr>"
      let ?s = "s\<lparr>mm_mem := \<lparr>lheap = heap_take b (ucast sz) ?h, lbytes = put_bytes (lbytes (mm_mem s)) (user_ptr ?h ?a) (replicate (unat sz) 0)\<rparr>,
        g_regions := (g_regions s)[slot := ?r]\<rparr>"
      have "backs (f(slot := ?a)) L ?s"
        using fits(8) by (intro backs_add [OF f sl new]) simp_all
      moreover have "compat_mmap_region sz prot s = Inr (user_ptr ?h ?a, ?s)"
        using False slot fits(1) pnz by (simp add: compat_mmap_region_def s ptr)
      ultimately show ?thesis using init len by (auto simp: mm_inv_def)
    qed
  qed
qed

lemma region_nonnull:
  assumes f: "backs f L s" and i: "i \<in> in_use s"
  shows "r_base (g_regions s ! i) \<noteq> 0"
proof -
  let ?h = "lheap (mm_mem s)"
  have "0 < unat (user_ptr ?h (f i))"
    using region_inside [of ?h "L \<union> f ` in_use s" "f i"] f i by (auto simp: backs_def)
  then show ?thesis using f i by (auto simp: backs_def)
qed

lemma munmap_inv:
  assumes "mm_inv L s" and i: "i \<in> in_use s"
  shows "\<exists>s'. compat_munmap_region (r_base (g_regions s ! i)) s = Inr s' \<and> mm_inv L s'"
proof -
  from assms(1) obtain f where init: "g_mem_initialized s" and len: "length (g_regions s) = COMPAT_MAX_MEM_REGIONS" and f: "backs f L s"
    by (auto simp: mm_inv_def)
  let ?a = "r_base (g_regions s ! i)"
  obtain j where j: "find_region ?a s = Some j"
    using i first_idx_exists [of "g_regions s ! i" "g_regions s" "\<lambda>r. r_used r \<and> r_base r = ?a"] by (auto simp: find_region_def in_use_def)
  then have ju: "j \<in> in_use s" "r_base (g_regions s ! j) = ?a" by (auto simp: find_region_def in_use_def dest: first_idx_SomeD)
  have inv: "heap_inv (lheap (mm_mem s)) (L \<union> f ` in_use s)" using f by (simp add: backs_def)
  obtain h where h: "kfree ?a (lheap (mm_mem s)) = Inr h" "heap_inv h (L \<union> f ` in_use s - {f j})" "user_ptr h = user_ptr (lheap (mm_mem s))"
    using kheap.fr_outcome [OF inv, of "f j"] f ju by (auto simp: backs_def)
  have "backs f L (s\<lparr>mm_mem := (mm_mem s)\<lparr>lheap := h\<rparr>, g_regions := (g_regions s)[j := compat_mem_region0]\<rparr>)"
    by (rule backs_remove [OF f ju(1) h(2,3)]) (simp add: compat_mem_region0_def)
  then show ?thesis using h(1) j region_nonnull [OF f i] init len by (auto simp: compat_munmap_region_def mm_inv_def Let_def)
qed

lemma protect_inv:
  assumes "mm_inv L s"
  shows "mm_inv L (snd (compat_protect_region a sz prot s))"
proof (cases "a = 0 \<or> find_region a s = None")
  case False
  then obtain j where j: "find_region a s = Some j" by blast
  then have ju: "j \<in> in_use s" by (auto simp: find_region_def in_use_def dest: first_idx_SomeD)
  from assms obtain f where init: "g_mem_initialized s" and len: "length (g_regions s) = COMPAT_MAX_MEM_REGIONS" and f: "backs f L s"
    by (auto simp: mm_inv_def)
  let ?s = "s\<lparr>g_regions := (g_regions s)[j := (g_regions s ! j)\<lparr>r_prot := prot\<rparr>]\<rparr>"
  have "in_use ?s = in_use s" using ju by (auto simp: in_use_def nth_list_update)
  then have "backs f L ?s"
    using f ju by (intro backs_same_heap [OF f]) (auto simp: backs_def in_use_def nth_list_update)
  then show ?thesis using False j init len by (auto simp: compat_protect_region_def mm_inv_def)
qed (use assms in \<open>auto simp: compat_protect_region_def\<close>)

lemma mm_run_inv: "mm_inv L s \<Longrightarrow> \<exists>s'. mm_run cs s = Inr s' \<and> mm_inv L s'"
proof (induction cs s rule: mm_run.induct)
  case (2 sz prot cs s)
  from mmap_inv [OF 2(2), of sz prot] obtain a s' where "compat_mmap_region sz prot s = Inr (a, s')" "mm_inv L s'" by blast
  with 2(1) show ?case by auto
next
  case (3 i cs s)
  show ?case
  proof (cases "i \<in> in_use s")
    case True
    from munmap_inv [OF 3(3) True] obtain s' where "compat_munmap_region (r_base (g_regions s ! i)) s = Inr s'" "mm_inv L s'" by blast
    with 3(1) True show ?thesis by (simp add: in_use_def)
  qed (use 3 in \<open>auto simp: in_use_def\<close>)
next
  case (4 i prot cs s)
  then show ?case using protect_inv [OF 4(3)] by auto
qed auto



section \<open>Synchronisation objects are events\<close>

text \<open>
  The abstract view: a map from identifiers to events, each with its state and its kind. A wait
  on an event succeeds when it is signalled and consumes the signal unless the event is reset by
  hand; identifiers are handed out in sequence from \<open>0x6000\<close>, at most 32 of them.
\<close>

record event =
  ev_set :: bool
  ev_manual :: bool

record events =
  ev_map :: "u32 \<rightharpoonup> event"
  ev_count :: nat

datatype sync_cmd = SyncCreate int bool bool | SyncSignal u32 | SyncReset u32 | SyncWait u32 u32

fun event_step :: "compat_threads \<Rightarrow> sync_cmd \<Rightarrow> events \<Rightarrow> int \<times> events" where
  "event_step ts (SyncCreate ty initial manual) e =
     (if ev_count e < 32 then (0x6000 + int (ev_count e),
        \<lparr>ev_map = (ev_map e)(0x6000 + of_nat (ev_count e) \<mapsto> \<lparr>ev_set = initial, ev_manual = manual\<rparr>), ev_count = Suc (ev_count e)\<rparr>)
      else (2 ^ 32 - 1, e))"
| "event_step ts (SyncSignal x) e =
     (case ev_map e x of None \<Rightarrow> (-1, e) | Some v \<Rightarrow> (0, e\<lparr>ev_map := (ev_map e)(x \<mapsto> v\<lparr>ev_set := True\<rparr>)\<rparr>))"
| "event_step ts (SyncReset x) e =
     (case ev_map e x of None \<Rightarrow> (-1, e) | Some v \<Rightarrow> (0, e\<lparr>ev_map := (ev_map e)(x \<mapsto> v\<lparr>ev_set := False\<rparr>)\<rparr>))"
| "event_step ts (SyncWait x ms) e =
     (case ev_map e x of None \<Rightarrow> (compat_wait_thread x ms ts, e)
      | Some v \<Rightarrow> if ev_set v then (0, e\<lparr>ev_map := (ev_map e)(x \<mapsto> v\<lparr>ev_set := ev_manual v\<rparr>)\<rparr>) else (-1, e))"

fun sync_step :: "compat_threads \<Rightarrow> sync_cmd \<Rightarrow> compat_sync \<Rightarrow> int \<times> compat_sync" where
  "sync_step ts (SyncCreate ty initial manual) g = (case compat_sync_create ty initial manual g of (r, g1) \<Rightarrow> (uint r, g1))"
| "sync_step ts (SyncSignal x) g = compat_sync_signal x g"
| "sync_step ts (SyncReset x) g = compat_sync_reset x g"
| "sync_step ts (SyncWait x ms) g = compat_wait_for_object x ms ts g"

fun run_cmds :: "('c \<Rightarrow> 's \<Rightarrow> int \<times> 's) \<Rightarrow> 'c list \<Rightarrow> 's \<Rightarrow> int list \<times> 's" where
  "run_cmds step [] s = ([], s)"
| "run_cmds step (c # cs) s = (case step c s of (r, s1) \<Rightarrow> case run_cmds step cs s1 of (rs, s2) \<Rightarrow> (r # rs, s2))"

locale step_refinement =
  fixes inv :: "'s \<Rightarrow> bool" and abs :: "'s \<Rightarrow> 'a" and step :: "'c \<Rightarrow> 's \<Rightarrow> int \<times> 's" and astep :: "'c \<Rightarrow> 'a \<Rightarrow> int \<times> 'a"
  assumes sim: "inv s \<Longrightarrow> step c s = (r, s') \<Longrightarrow> inv s' \<and> astep c (abs s) = (r, abs s')"
begin

lemma run_sim: "inv s \<Longrightarrow> run_cmds step cs s = (rs, s') \<Longrightarrow> inv s' \<and> run_cmds astep cs (abs s) = (rs, abs s')"
proof (induction cs arbitrary: s rs)
  case (Cons c cs)
  obtain r s1 where st: "step c s = (r, s1)" by fastforce
  from Cons.prems(2) st obtain rs2 where rn: "run_cmds step cs s1 = (rs2, s')" "rs = r # rs2" by (auto split: prod.splits)
  from sim [OF Cons.prems(1) st] Cons.IH [OF _ rn(1)] rn(2) show ?case by auto
qed auto

end

definition sync_inv :: "compat_sync \<Rightarrow> bool" where
  "sync_inv g \<longleftrightarrow> g_sync_init g \<and> length (g_sync_objs g) = 32 \<and>
     (\<exists>n\<le>32. g_next_sync_id g = 0x6000 + of_nat n \<and> (\<forall>i<32. so_used (g_sync_objs g ! i) \<longleftrightarrow> i < n) \<and>
        (\<forall>i<n. so_id (g_sync_objs g ! i) = 0x6000 + of_nat i))"

definition event_of :: "compat_sync_object \<Rightarrow> event" where
  "event_of o' = \<lparr>ev_set = signaled o', ev_manual = manual_reset o'\<rparr>"

definition sync_abs :: "compat_sync \<Rightarrow> events" where
  "sync_abs g = \<lparr>ev_map = (\<lambda>x. map_option (\<lambda>i. event_of (g_sync_objs g ! i)) (find_sync x g)), ev_count = n_used so_used (g_sync_objs g)\<rparr>"

text \<open>What the invariant gives: where an identifier is found.\<close>

lemma sync_id_inj: "i < 32 \<Longrightarrow> j < 32 \<Longrightarrow> (0x6000 + of_nat i :: u32) = 0x6000 + of_nat j \<longleftrightarrow> i = j"
  by (simp add: word_of_nat_eq_iff take_bit_nat_eq_self)

lemma find_sync_iff:
  assumes "length (g_sync_objs g) = 32" "n \<le> 32" "\<forall>i<32. so_used (g_sync_objs g ! i) \<longleftrightarrow> i < n" "\<forall>i<n. so_id (g_sync_objs g ! i) = 0x6000 + of_nat i"
  shows "find_sync x g = Some i \<longleftrightarrow> i < n \<and> x = 0x6000 + of_nat i"
proof
  assume "find_sync x g = Some i"
  then show "i < n \<and> x = 0x6000 + of_nat i" using assms by (auto simp: find_sync_def first_idx_Some_iff)
next
  assume i: "i < n \<and> x = 0x6000 + of_nat i"
  have "so_id (g_sync_objs g ! j) \<noteq> x" if "j < i" for j
    using that i assms(2,4) sync_id_inj [of i j] by auto
  then show "find_sync x g = Some i" using i assms by (auto simp: find_sync_def first_idx_Some_iff)
qed

lemma find_sync_None:
  assumes "sync_inv g" "find_sync x g = None" "i < 32" "so_used (g_sync_objs g ! i)"
  shows "so_id (g_sync_objs g ! i) \<noteq> x"
  using assms by (auto simp: find_sync_def first_idx_None_iff sync_inv_def)

lemma set_signaled_inv: "sync_inv g \<Longrightarrow> i < 32 \<Longrightarrow> sync_inv (set_signaled i b g)"
proof -
  assume a: "sync_inv g" "i < 32"
  let ?os = "(g_sync_objs g)[i := (g_sync_objs g ! i)\<lparr>signaled := b\<rparr>]"
  have "so_used (?os ! j) = so_used (g_sync_objs g ! j)" "so_id (?os ! j) = so_id (g_sync_objs g ! j)" for j
    using a by (auto simp: sync_inv_def nth_list_update)
  with a(1) show ?thesis by (simp add: sync_inv_def set_signaled_def)
qed

lemma find_sync_signaled: "i < length (g_sync_objs g) \<Longrightarrow> find_sync x (set_signaled i b g) = find_sync x g"
proof -
  assume i: "i < length (g_sync_objs g)"
  let ?k = "\<lambda>o'. (so_used o', so_id o')"
  have "map ?k ((g_sync_objs g)[i := (g_sync_objs g ! i)\<lparr>signaled := b\<rparr>]) = map ?k (g_sync_objs g)"
    using i by (intro nth_equalityI) (auto simp: nth_list_update)
  then have "first_idx (\<lambda>(u, y). u \<and> y = x) (map ?k ((g_sync_objs g)[i := (g_sync_objs g ! i)\<lparr>signaled := b\<rparr>])) =
      first_idx (\<lambda>(u, y). u \<and> y = x) (map ?k (g_sync_objs g))" by simp
  then show ?thesis by (simp add: find_sync_def set_signaled_def first_idx_map)
qed

lemma sync_abs_signaled:
  assumes g: "sync_inv g" and x: "find_sync x g = Some i"
  shows "sync_abs (set_signaled i b g) = (sync_abs g)\<lparr>ev_map := (ev_map (sync_abs g))(x \<mapsto> (event_of (g_sync_objs g ! i))\<lparr>ev_set := b\<rparr>)\<rparr>"
proof -
  from g obtain n where n: "length (g_sync_objs g) = 32" "n \<le> 32" "\<forall>i<32. so_used (g_sync_objs g ! i) \<longleftrightarrow> i < n"
    "\<forall>i<n. so_id (g_sync_objs g ! i) = 0x6000 + of_nat i" by (auto simp: sync_inv_def)
  have i: "i < n" "x = 0x6000 + of_nat i" using x find_sync_iff [OF n] by auto
  have other: "j \<noteq> i" if "find_sync y g = Some j" "y \<noteq> x" for y j using that find_sync_iff [OF n] i by auto
  have "n_used so_used (g_sync_objs (set_signaled i b g)) = n_used so_used (g_sync_objs g)"
    using i n unfolding set_signaled_def by (simp add: n_used_update_same)
  moreover have "map_option (\<lambda>j. event_of (g_sync_objs (set_signaled i b g) ! j)) (find_sync y g) =
      ((\<lambda>y. map_option (\<lambda>j. event_of (g_sync_objs g ! j)) (find_sync y g))(x \<mapsto> (event_of (g_sync_objs g ! i))\<lparr>ev_set := b\<rparr>)) y" for y
    using i n x other [of y] by (cases "find_sync y g") (auto simp: set_signaled_def event_of_def nth_list_update)
  ultimately show ?thesis using i n find_sync_signaled [of i g _ b] by (simp add: sync_abs_def fun_eq_iff)
qed

lemma n_used_prefix:
  assumes "length xs = m" "n \<le> m" "\<forall>i<m. u (xs ! i) \<longleftrightarrow> i < n"
  shows "n_used u xs = n" "first_idx (\<lambda>x. \<not> u x) xs = (if n < m then Some n else None)"
proof -
  have "filter u xs = take n xs"
  proof -
    have "filter u (take n xs) = take n xs" using assms by (intro filter_True) (auto simp: in_set_conv_nth)
    moreover have "filter u (drop n xs) = []" using assms by (auto simp: filter_empty_conv in_set_conv_nth)
    ultimately show ?thesis by (metis append_Nil2 append_take_drop_id filter_append)
  qed
  then show "n_used u xs = n" using assms by (simp add: n_used_def)
  show "first_idx (\<lambda>x. \<not> u x) xs = (if n < m then Some n else None)"
    using assms by (auto simp: first_idx_Some_iff first_idx_None_iff in_set_conv_nth)
qed

lemma sync_create_sim:
  assumes g: "sync_inv g" and c: "compat_sync_create ty initial manual g = (r, g')"
  shows "sync_inv g' \<and> event_step ts (SyncCreate ty initial manual) (sync_abs g) = (uint r, sync_abs g')"
proof -
  from g obtain n where n: "length (g_sync_objs g) = 32" "n \<le> 32" "\<forall>i<32. so_used (g_sync_objs g ! i) \<longleftrightarrow> i < n"
    "\<forall>i<n. so_id (g_sync_objs g ! i) = 0x6000 + of_nat i" and nx: "g_next_sync_id g = 0x6000 + of_nat n" and init: "g_sync_init g" by (auto simp: sync_inv_def)
  note fr = n_used_prefix [OF n(1-3)]
  show ?thesis
  proof (cases "n < 32")
    case False
    moreover have "uint (-1 :: u32) = 2 ^ 32 - 1" by (simp add: unsigned_minus_1_eq_mask mask_eq_exp_minus_1)
    ultimately show ?thesis using c fr init g by (auto simp: compat_sync_create_def sync_abs_def)
  next
    case True
    let ?o = "\<lparr>so_used = True, so_id = g_next_sync_id g, so_type = ty, signaled = initial, manual_reset = manual, so_waiters = 0\<rparr>"
    let ?g = "g\<lparr>g_sync_objs := (g_sync_objs g)[n := ?o], g_next_sync_id := g_next_sync_id g + 1\<rparr>"
    have rg: "r = 0x6000 + of_nat n" "g' = ?g" using c fr init True nx by (auto simp: compat_sync_create_def)
    have n': "length (g_sync_objs ?g) = 32" "Suc n \<le> 32" "\<forall>i<32. so_used (g_sync_objs ?g ! i) \<longleftrightarrow> i < Suc n"
      "\<forall>i<Suc n. so_id (g_sync_objs ?g ! i) = 0x6000 + of_nat i"
      using n True nx by (auto simp: nth_list_update less_Suc_eq)
    have "sync_inv ?g" unfolding sync_inv_def using n' init nx by (intro conjI exI [of _ "Suc n"]) simp_all
    moreover have "uint (0x6000 + of_nat n :: u32) = 0x6000 + int n"
      using True by (subst uint_add_lem [THEN iffD1]) (simp_all add: unsigned_of_nat take_bit_nat_eq_self)
    moreover have "ev_map (sync_abs ?g) = (ev_map (sync_abs g))(r \<mapsto> \<lparr>ev_set = initial, ev_manual = manual\<rparr>)"
    proof
      fix y
      have "find_sync y ?g = Some i \<longleftrightarrow> (if y = r then i = n else find_sync y g = Some i)" for i
        using find_sync_iff [OF n'] find_sync_iff [OF n] sync_id_inj [of n i] True rg(1) by (auto simp: less_Suc_eq)
      then have "find_sync y ?g = (if y = r then Some n else find_sync y g)" by (metis (full_types) option.exhaust)
      moreover have "i \<noteq> n" if "find_sync y g = Some i" for i using that find_sync_iff [OF n] by auto
      ultimately show "ev_map (sync_abs ?g) y = ((ev_map (sync_abs g))(r \<mapsto> \<lparr>ev_set = initial, ev_manual = manual\<rparr>)) y"
        using n True by (cases "find_sync y g") (auto simp: sync_abs_def event_of_def)
    qed
    ultimately show ?thesis using True rg fr n_used_prefix [OF n'(1-3)] by (simp add: sync_abs_def)
  qed
qed

interpretation sync_events: step_refinement sync_inv sync_abs "sync_step ts" "event_step ts" for ts
proof
  fix g c r g' assume g: "sync_inv g" and st: "sync_step ts c g = (r, g')"
  have len: "length (g_sync_objs g) = 32" using g by (simp add: sync_inv_def)
  have lt: "i < 32" if "find_sync x g = Some i" for x i using that first_idx_less len by (fastforce simp: find_sync_def)
  have m: "ev_map (sync_abs g) x = map_option (\<lambda>i. event_of (g_sync_objs g ! i)) (find_sync x g)" for x by (simp add: sync_abs_def)
  show "sync_inv g' \<and> event_step ts c (sync_abs g) = (r, sync_abs g')"
  proof (cases c)
    case (SyncCreate ty initial manual)
    then show ?thesis using st sync_create_sim [OF g] by (auto split: prod.splits)
  next
    case (SyncSignal x)
    then show ?thesis using st g lt
      by (auto simp: compat_sync_signal_def m sync_abs_signaled set_signaled_inv split: option.splits)
  next
    case (SyncReset x)
    then show ?thesis using st g lt
      by (auto simp: compat_sync_reset_def m sync_abs_signaled set_signaled_inv split: option.splits)
  next
    case (SyncWait x ms)
    have keep: "(ev_map (sync_abs g))(x \<mapsto> event_of (g_sync_objs g ! i)) = ev_map (sync_abs g)" if "find_sync x g = Some i" for i
      using that by (auto simp: m)
    show ?thesis
    proof (cases "find_sync x g")
      case (Some i)
      let ?o = "g_sync_objs g ! i"
      have "signaled ?o \<Longrightarrow> manual_reset ?o \<Longrightarrow> (event_of ?o)\<lparr>ev_set := True\<rparr> = event_of ?o" by (simp add: event_of_def)
      then show ?thesis using SyncWait Some st g lt [OF Some] keep [OF Some]
        by (auto simp: compat_wait_for_object_def m sync_abs_signaled set_signaled_inv event_of_def split: if_splits)
    qed (use SyncWait st g in \<open>auto simp: compat_wait_for_object_def sync_abs_def\<close>)
  qed
qed

text \<open>
  C24. The synchronisation objects implement events: from start-up, every sequence of creations,
  signals, resets and waits returns what a map from identifiers to events returns, where a wait
  consumes the signal of an event that is not reset by hand, identifiers are never given out twice and
  the 33rd creation fails.
\<close>

theorem sync_objects_are_events:
  "\<exists>rs g. run_cmds (sync_step ts) cs (snd (compat_sync_init compat_sync_boot)) = (rs, g) \<and>
     run_cmds (event_step ts) cs \<lparr>ev_map = Map.empty, ev_count = 0\<rparr> = (rs, sync_abs g)"
proof -
  let ?g = "snd (compat_sync_init compat_sync_boot)"
  have o: "g_sync_objs ?g = replicate 32 compat_sync_object0"
    by (simp add: compat_sync_init_def compat_sync_boot_def COMPAT_MAX_SYNC_OBJECTS_def)
  have inv: "sync_inv ?g" unfolding sync_inv_def o
    by (auto simp: compat_sync_init_def compat_sync_boot_def compat_sync_object0_def intro!: exI [of _ 0])
  have "n_used so_used (replicate 32 compat_sync_object0) = 0" by (rule n_used_prefix [of _ 32]) (simp_all add: compat_sync_object0_def)
  moreover have "find_sync x ?g = None" for x unfolding find_sync_def o by (simp add: first_idx_None_iff compat_sync_object0_def)
  ultimately have abs: "sync_abs ?g = \<lparr>ev_map = Map.empty, ev_count = 0\<rparr>" by (simp add: sync_abs_def o fun_eq_iff)
  obtain rs g where "run_cmds (sync_step ts) cs ?g = (rs, g)" by fastforce
  then show ?thesis using sync_events.run_sim [OF inv] abs by auto
qed

section \<open>Threads\<close>

definition threads_wf :: "compat_threads \<Rightarrow> bool" where
  "threads_wf g \<longleftrightarrow> (\<forall>t\<in>set (g_threads g). length (tls_values t) = COMPAT_TLS_MAX_SLOTS)"

lemma find_thread_keep:
  assumes "i < length (g_threads g)" "t_used t = t_used (g_threads g ! i)" "t_tid t = t_tid (g_threads g ! i)"
  shows "find_thread x (g\<lparr>g_threads := (g_threads g)[i := t]\<rparr>) = find_thread x g"
proof -
  let ?k = "\<lambda>t. (t_used t, t_tid t)"
  have "map ?k ((g_threads g)[i := t]) = map ?k (g_threads g)" using assms by (intro nth_equalityI) (auto simp: nth_list_update)
  then have "first_idx (\<lambda>(u, y). u \<and> y = x) (map ?k ((g_threads g)[i := t])) = first_idx (\<lambda>(u, y). u \<and> y = x) (map ?k (g_threads g))" by simp
  then show ?thesis by (simp add: find_thread_def first_idx_map)
qed

text \<open>
  Thread-local storage: a value that a thread stores in one of its 64 slots is read back from
  that slot, and no other slot of this or any other thread changes; every other slot number and
  every unknown thread is refused.
\<close>

theorem tls_set_get:
  assumes wf: "threads_wf g"
  shows "if find_thread tid g \<noteq> None \<and> unat slot < 64
    then \<exists>g'. compat_set_tls tid slot v g = (0, g') \<and> threads_wf g' \<and> compat_get_tls tid slot g' = Some v \<and>
      (\<forall>tid' slot'. (tid', slot') \<noteq> (tid, slot) \<longrightarrow> compat_get_tls tid' slot' g' = compat_get_tls tid' slot' g)
    else compat_set_tls tid slot v g = (-1, g) \<and> compat_get_tls tid slot g = None"
proof (cases "find_thread tid g \<noteq> None \<and> unat slot < 64")
  case True
  then obtain i where i: "find_thread tid g = Some i" and sl: "\<not> slot \<ge> of_nat COMPAT_TLS_MAX_SLOTS"
    by (auto simp: COMPAT_TLS_MAX_SLOTS_def word_le_nat_alt)
  have il: "i < length (g_threads g)" using i first_idx_less by (fastforce simp: find_thread_def)
  let ?t = "(g_threads g ! i)\<lparr>tls_values := (tls_values (g_threads g ! i))[unat slot := v]\<rparr>"
  let ?g = "g\<lparr>g_threads := (g_threads g)[i := ?t]\<rparr>"
  have find: "find_thread x ?g = find_thread x g" for x using il by (intro find_thread_keep) simp_all
  have len: "length (tls_values (g_threads g ! i)) = 64" using wf il by (simp add: threads_wf_def COMPAT_TLS_MAX_SLOTS_def)
  have "threads_wf ?g" using wf il by (auto simp: threads_wf_def dest!: set_update_subset_insert [THEN subsetD])
  moreover have "compat_set_tls tid slot v g = (0, ?g)" using i sl by (simp add: compat_set_tls_def upd_thread_def)
  moreover have "compat_get_tls tid slot ?g = Some v" using i sl il len True by (simp add: compat_get_tls_def find)
  moreover have "compat_get_tls tid' slot' ?g = compat_get_tls tid' slot' g" if ne: "(tid', slot') \<noteq> (tid, slot)" for tid' slot'
  proof (cases "find_thread tid' g")
    case (Some j)
    have "j \<noteq> i \<or> unat slot' \<noteq> unat slot"
      using ne Some i first_idx_hit [of "\<lambda>t. t_used t \<and> t_tid t = tid'" "g_threads g" j] first_idx_hit [of "\<lambda>t. t_used t \<and> t_tid t = tid" "g_threads g" i]
      by (auto simp: find_thread_def word_unat_eq_iff)
    then have "tls_values ((g_threads g)[i := ?t] ! j) ! unat slot' = tls_values (g_threads g ! j) ! unat slot'"
      using il by (auto simp: nth_list_update)
    then show ?thesis by (simp add: compat_get_tls_def find Some)
  qed (simp add: compat_get_tls_def find)
  ultimately have "\<exists>g'. compat_set_tls tid slot v g = (0, g') \<and> threads_wf g' \<and> compat_get_tls tid slot g' = Some v \<and>
      (\<forall>tid' slot'. (tid', slot') \<noteq> (tid, slot) \<longrightarrow> compat_get_tls tid' slot' g' = compat_get_tls tid' slot' g)" by blast
  with True show ?thesis by simp
next
  case False
  then show ?thesis
    by (auto simp: compat_set_tls_def compat_get_tls_def COMPAT_TLS_MAX_SLOTS_def word_le_nat_alt split: option.splits)
qed

theorem tls_set_get_witness:
  "\<exists>g'. compat_set_tls 1 5 77 (snd (compat_create_thread (\<lambda>_ _ g. g) 0 0x1000 0 compat_threads_init)) = (0, g') \<and> compat_get_tls 1 5 g' = Some 77"
proof -
  let ?g = "snd (compat_create_thread (\<lambda>_ _ g. g) 0 0x1000 0 compat_threads_init)"
  let ?t = "\<lparr>t_used = True, t_tid = 1, t_pid = 0, t_state = COMPAT_THREAD_DONE, t_entry = 0x1000, t_arg = 0, tls_values = replicate COMPAT_TLS_MAX_SLOTS 0, start_time_ms = 0\<rparr>"
  have "replicate COMPAT_MAX_THREADS compat_thread0 = compat_thread0 # replicate 31 compat_thread0"
    by (simp add: COMPAT_MAX_THREADS_def numeral_eq_Suc)
  then have g: "g_threads ?g = ?t # replicate 31 compat_thread0"
    by (simp add: compat_create_thread_def compat_create_thread_pid_def compat_threads_init_def compat_thread0_def upd_thread_def Let_def)
  have "threads_wf ?g" unfolding threads_wf_def g by (simp add: compat_thread0_def)
  from tls_set_get [OF this, where tid = 1 and slot = 5 and v = 77] show ?thesis by (auto simp: find_thread_def g)
qed

section \<open>The sandbox and the file system\<close>

text \<open>
  The path policy can be bypassed: a path under \<open>/kernel\<close> is refused, but the same path with a
  second slash in front is accepted, and the file system resolves both to the same file.
\<close>

theorem sandbox_bypass:
  assumes "has_prefix p (cstr ''/kernel'')"
  shows "sandbox_check_path (snd (sandbox_add_whitelist_path (Some (cstr ''/apps'')) sandbox_init)) (Some p) = -1 \<and>
    sandbox_check_path (snd (sandbox_add_whitelist_path (Some (cstr ''/apps'')) sandbox_init)) (Some (47 # p)) = 0 \<and>
    lookup_path (Some (47 # p)) v = lookup_path (Some p) v"
proof -
  from assms obtain q where p: "p = 47 # 107 # q" and r: "has_prefix q (cstr ''ernel'')"
    by (cases p; cases "tl p") (auto simp: cstr_def)
  define sb where "sb = snd (sandbox_add_whitelist_path (Some (cstr ''/apps'')) sandbox_init)"
  have sbs: "take (unat (whitelist_count sb)) (whitelist_paths sb) = [cstr ''/apps'']" "deny_kernel_paths sb"
    unfolding sb_def by code_simp+
  have "take_comp (VFS_MAX_NAME_LEN - 1) (47 # 107 # q) = ([], 47 # 107 # q)" by (simp only: One_nat_def name_len take_comp.simps if_True simp_thms)
  then have "lookup_loop v (root_inode v) (47 # 107 # q) = lookup_loop v (root_inode v) (107 # q)"
    by (subst lookup_loop.simps) (simp del: lookup_loop.simps)
  then have "lookup_path (Some (47 # p)) v = lookup_path (Some p) v" by (simp add: lookup_path_def p)
  moreover have "sandbox_check_path sb (Some p) = -1" using r by (simp add: sandbox_check_path_def sbs p cstr_def)
  moreover have "sandbox_check_path sb (Some (47 # p)) = 0" by (simp add: sandbox_check_path_def sbs p cstr_def)
  ultimately show ?thesis by (simp add: sb_def)
qed

theorem sandbox_bypass_witness:
  "sandbox_check_path (snd (sandbox_add_whitelist_path (Some (cstr ''/apps'')) sandbox_init)) (Some (cstr ''//kernel/config'')) = 0"
proof -
  have "has_prefix (cstr ''/kernel/config'') (cstr ''/kernel'')" by (simp add: cstr_def)
  from sandbox_bypass [OF this] show ?thesis by (simp add: cstr_def)
qed

end
