(* ===== verification/Syscall.thy ===== *)
theory Syscall
  imports Ipc Vfs Bytes Console
begin

text \<open>
  The system-call interface: the dispatcher of \<^verbatim>\<open>src/kernel/syscall.c\<close> and the handlers there and in
  \<^verbatim>\<open>src/services/syscall_layer4.c\<close>, on top of the file system, the pipes, the scheduler, the security state and the
  console. Arguments are 64-bit words; pointers among them refer to the same memory as the contents of
  files. The set-up of the machine registers is left out.
\<close>

section \<open>State\<close>

definition SYS_PRINT :: u64 where "SYS_PRINT = 0"
definition SYS_EXIT :: u64 where "SYS_EXIT = 1"
definition SYS_GET_TICK :: u64 where "SYS_GET_TICK = 2"
definition SYS_OPEN :: u64 where "SYS_OPEN = 3"
definition SYS_READ :: u64 where "SYS_READ = 4"
definition SYS_WRITE :: u64 where "SYS_WRITE = 5"
definition SYS_CLOSE :: u64 where "SYS_CLOSE = 6"
definition SYS_MOUNT :: u64 where "SYS_MOUNT = 7"
definition SYS_PIPE :: u64 where "SYS_PIPE = 8"
definition SYS_KILL :: u64 where "SYS_KILL = 9"
definition SYS_SETUID :: u64 where "SYS_SETUID = 10"
definition SYS_CHMOD :: u64 where "SYS_CHMOD = 11"
definition SYS_EXEC_APP :: u64 where "SYS_EXEC_APP = 12"
definition SYS_HTTP_REQUEST :: u64 where "SYS_HTTP_REQUEST = 14"
definition SYS_LIST_PROCS :: u64 where "SYS_LIST_PROCS = 15"
definition MAX_SYSCALLS :: u64 where "MAX_SYSCALLS = 16"

lemmas syscall_numbers = SYS_PRINT_def SYS_EXIT_def SYS_GET_TICK_def SYS_OPEN_def SYS_READ_def SYS_WRITE_def SYS_CLOSE_def
  SYS_MOUNT_def SYS_PIPE_def SYS_KILL_def SYS_SETUID_def SYS_CHMOD_def SYS_EXEC_APP_def SYS_HTTP_REQUEST_def SYS_LIST_PROCS_def MAX_SYSCALLS_def

record syscall_stats =
  total_calls :: u64
  invalid_calls :: u64
  stub_calls :: u64

record kernel =
  kvfs :: vfs
  kipc :: ipc_state
  ksched :: sched
  kconsole :: console
  kstats :: syscall_stats

text \<open>The string at an address, and a store to memory.\<close>

partial_function (option) read_cstr :: "(addr \<Rightarrow> u8) \<Rightarrow> addr \<Rightarrow> u8 list option" where
  "read_cstr m a = (if m a = 0 then Some [] else Option.bind (read_cstr m (a + 1)) (\<lambda>s. Some (m a # s)))"

definition user_str :: "kernel \<Rightarrow> u64 \<Rightarrow> u8 list res" where
  "user_str k p = (case read_cstr (vbytes (kvfs k)) p of None \<Rightarrow> Inl Spin | Some s \<Rightarrow> Inr s)"

definition store_user :: "u64 \<Rightarrow> u8 list \<Rightarrow> kernel \<Rightarrow> kernel" where
  "store_user p bs k = k\<lparr>kvfs := (kvfs k)\<lparr>vbytes := put_bytes (vbytes (kvfs k)) p bs\<rparr>\<rparr>"

definition int_arg :: "u64 \<Rightarrow> int" where
  "int_arg w = sint (ucast w :: u32)"

definition ret :: "int \<Rightarrow> u64" where
  "ret r = word_of_int r"

definition is_pipe_fd :: "int \<Rightarrow> bool" where
  "is_pipe_fd fd \<longleftrightarrow> fd \<ge> 100 \<and> fd < 300"

section \<open>Handlers\<close>

fun print_loop :: "(addr \<Rightarrow> u8) \<Rightarrow> nat \<Rightarrow> addr \<Rightarrow> console \<Rightarrow> console" where
  "print_loop m 0 a c = c"
| "print_loop m (Suc n) a c = (if m a = 0 then c else print_loop m n (a + 1) (emit_char (m a) c))"

definition sys_print :: "u64 \<Rightarrow> u64 \<Rightarrow> kernel \<Rightarrow> (u64 \<times> kernel) res" where
  "sys_print str_ptr len k = Inr (0, k\<lparr>kconsole := print_loop (vbytes (kvfs k)) (unat len) str_ptr (kconsole k)\<rparr>)"

definition sys_exit :: "u64 \<Rightarrow> kernel \<Rightarrow> (u64 \<times> kernel) res" where
  "sys_exit code k = rbind (thread_exit (ksched k)) (\<lambda>s. Inr (code, k\<lparr>ksched := s\<rparr>))"

definition sys_get_tick :: "kernel \<Rightarrow> (u64 \<times> kernel) res" where
  "sys_get_tick k = Inr (timer_ticks (ksched k), k)"

definition sys_open :: "u64 \<Rightarrow> u64 \<Rightarrow> kernel \<Rightarrow> (u64 \<times> kernel) res" where
  "sys_open path_ptr flags k =
     (if path_ptr = 0 then Inr (ret (-1), k)
      else rbind (user_str k path_ptr) (\<lambda>path.
        rbind (vfs_open (Some path) (ucast flags) (kvfs k)) (\<lambda>(r, v). Inr (ret r, k\<lparr>kvfs := v\<rparr>))))"

definition sys_read :: "u64 \<Rightarrow> u64 \<Rightarrow> u64 \<Rightarrow> kernel \<Rightarrow> (u64 \<times> kernel) res" where
  "sys_read fd buf_ptr len k =
     (if buf_ptr = 0 then Inr (ret (-1), k)
      else if is_pipe_fd (int_arg fd) then
        rbind (pipe_read (int_arg fd) False (ucast len) (kipc k)) (\<lambda>(r, bs, i). Inr (ret r, store_user buf_ptr bs (k\<lparr>kipc := i\<rparr>)))
      else (case vfs_read (int_arg fd) False (ucast len) (kvfs k) of (r, bs, v) \<Rightarrow> Inr (ret r, store_user buf_ptr bs (k\<lparr>kvfs := v\<rparr>))))"

definition sys_write :: "u64 \<Rightarrow> u64 \<Rightarrow> u64 \<Rightarrow> kernel \<Rightarrow> (u64 \<times> kernel) res" where
  "sys_write fd buf_ptr len k =
     (if buf_ptr = 0 then Inr (ret (-1), k)
      else let bs = get_bytes (vbytes (kvfs k)) buf_ptr (unat (ucast len :: u32)) in
        if is_pipe_fd (int_arg fd) then
          rbind (pipe_write (int_arg fd) (Some bs) (ucast len) (kipc k)) (\<lambda>(r, i). Inr (ret r, k\<lparr>kipc := i\<rparr>))
        else rbind (vfs_write (int_arg fd) (Some bs) (ucast len) (kvfs k)) (\<lambda>(r, v). Inr (ret r, k\<lparr>kvfs := v\<rparr>)))"

definition sys_close :: "u64 \<Rightarrow> kernel \<Rightarrow> (u64 \<times> kernel) res" where
  "sys_close fd k =
     (if is_pipe_fd (int_arg fd) then (case pipe_close (int_arg fd) (kipc k) of (r, i) \<Rightarrow> Inr (ret r, k\<lparr>kipc := i\<rparr>))
      else rbind (vfs_close (int_arg fd) (kvfs k)) (\<lambda>(r, v). Inr (ret r, k\<lparr>kvfs := v\<rparr>)))"

text \<open>The mount callbacks of the registered file systems are an argument, as in \<open>vfs_mount\<close>.\<close>

definition sys_mount :: "(nat \<Rightarrow> addr \<Rightarrow> vfs \<Rightarrow> int \<times> vfs) \<Rightarrow> u64 \<Rightarrow> u64 \<Rightarrow> u64 \<Rightarrow> kernel \<Rightarrow> (u64 \<times> kernel) res" where
  "sys_mount callback fs_ptr dev_ptr path_ptr k =
     (if fs_ptr = 0 \<or> path_ptr = 0 then Inr (ret (-1), k)
      else rbind (user_str k fs_ptr) (\<lambda>fs. rbind (user_str k path_ptr) (\<lambda>path.
        rbind (vfs_mount callback (Some fs) (Some path) (kvfs k)) (\<lambda>(r, v). Inr (ret r, k\<lparr>kvfs := v\<rparr>)))))"

definition sys_pipe :: "u64 \<Rightarrow> kernel \<Rightarrow> (u64 \<times> kernel) res" where
  "sys_pipe pipefd_ptr k =
     (if pipefd_ptr = 0 then Inr (ret (-1), k)
      else case pipe_create False (kipc k) of
        (r, Some (rd, wr), i) \<Rightarrow> Inr (ret r, store_user pipefd_ptr (le32 (word_of_int rd) @ le32 (word_of_int wr)) (k\<lparr>kipc := i\<rparr>))
      | (r, None, i) \<Rightarrow> Inr (ret r, k\<lparr>kipc := i\<rparr>))"

definition sys_kill :: "u64 \<Rightarrow> u64 \<Rightarrow> kernel \<Rightarrow> (u64 \<times> kernel) res" where
  "sys_kill target sig k = Inr (ret (signal_send (ucast target) (ucast sig)), k)"

definition sys_setuid :: "u64 \<Rightarrow> kernel \<Rightarrow> (u64 \<times> kernel) res" where
  "sys_setuid uid k =
     (case security_set_uid (ucast uid) (vsec (kvfs k)) of (r, s) \<Rightarrow> Inr (ret r, k\<lparr>kvfs := (kvfs k)\<lparr>vsec := s\<rparr>\<rparr>))"

definition log_msg :: "string \<Rightarrow> kernel \<Rightarrow> kernel res" where
  "log_msg msg k = rbind (kprintf (cstr msg @ [10]) [] (kconsole k)) (\<lambda>(_, c). Inr (k\<lparr>kconsole := c\<rparr>))"

definition sys_chmod :: "u64 \<Rightarrow> u64 \<Rightarrow> kernel \<Rightarrow> (u64 \<times> kernel) res" where
  "sys_chmod path_ptr mode k = rbind (log_msg ''sys_chmod: stub'' k) (\<lambda>k1. Inr (0, k1))"

definition count_stub :: "kernel \<Rightarrow> kernel" where
  "count_stub k = k\<lparr>kstats := (kstats k)\<lparr>stub_calls := stub_calls (kstats k) + 1\<rparr>\<rparr>"

definition sys_exec_app_stub :: "kernel \<Rightarrow> (u64 \<times> kernel) res" where
  "sys_exec_app_stub k = rbind (log_msg ''sys_exec_app: not implemented yet'' (count_stub k)) (\<lambda>k1. Inr (ret (-1), k1))"

definition sys_http_request_stub :: "kernel \<Rightarrow> (u64 \<times> kernel) res" where
  "sys_http_request_stub k = rbind (log_msg ''sys_http_request: not implemented yet'' (count_stub k)) (\<lambda>k1. Inr (ret (-1), k1))"

definition sys_list_procs_stub :: "kernel \<Rightarrow> (u64 \<times> kernel) res" where
  "sys_list_procs_stub k = rbind (log_msg ''sys_list_procs: not implemented yet'' (count_stub k)) (\<lambda>k1. Inr (ret (-1), k1))"

section \<open>Dispatch\<close>

text \<open>The table; a number without an entry has a null pointer there.\<close>

definition syscall_table :: "(nat \<Rightarrow> addr \<Rightarrow> vfs \<Rightarrow> int \<times> vfs) \<Rightarrow> u64 \<Rightarrow> (u64 \<Rightarrow> u64 \<Rightarrow> u64 \<Rightarrow> kernel \<Rightarrow> (u64 \<times> kernel) res) option" where
  "syscall_table callback num =
     (if num = SYS_PRINT then Some (\<lambda>a b c. sys_print a b)
      else if num = SYS_EXIT then Some (\<lambda>a b c. sys_exit a)
      else if num = SYS_GET_TICK then Some (\<lambda>a b c. sys_get_tick)
      else if num = SYS_OPEN then Some (\<lambda>a b c. sys_open a b)
      else if num = SYS_READ then Some sys_read
      else if num = SYS_WRITE then Some sys_write
      else if num = SYS_CLOSE then Some (\<lambda>a b c. sys_close a)
      else if num = SYS_MOUNT then Some (sys_mount callback)
      else if num = SYS_PIPE then Some (\<lambda>a b c. sys_pipe a)
      else if num = SYS_KILL then Some (\<lambda>a b c. sys_kill a b)
      else if num = SYS_SETUID then Some (\<lambda>a b c. sys_setuid a)
      else if num = SYS_CHMOD then Some (\<lambda>a b c. sys_chmod a b)
      else if num = SYS_EXEC_APP then Some (\<lambda>a b c. sys_exec_app_stub)
      else if num = SYS_HTTP_REQUEST then Some (\<lambda>a b c. sys_http_request_stub)
      else if num = SYS_LIST_PROCS then Some (\<lambda>a b c. sys_list_procs_stub)
      else None)"

definition syscall_dispatcher :: "(nat \<Rightarrow> addr \<Rightarrow> vfs \<Rightarrow> int \<times> vfs) \<Rightarrow> u64 \<Rightarrow> u64 \<Rightarrow> u64 \<Rightarrow> u64 \<Rightarrow> kernel \<Rightarrow> (u64 \<times> kernel) res" where
  "syscall_dispatcher callback num a1 a2 a3 k0 =
     (let k = k0\<lparr>kstats := (kstats k0)\<lparr>total_calls := total_calls (kstats k0) + 1\<rparr>\<rparr>;
          invalid = Inr (ret (-1), k\<lparr>kstats := (kstats k)\<lparr>invalid_calls := invalid_calls (kstats k) + 1\<rparr>\<rparr>)
      in if num \<ge> MAX_SYSCALLS then invalid
         else case syscall_table callback num of None \<Rightarrow> invalid | Some f \<Rightarrow> f a1 a2 a3 k)"

definition syscall_get_stats :: "kernel \<Rightarrow> syscall_stats" where
  "syscall_get_stats k = kstats k"

section \<open>Pipes through system calls\<close>

lemma int_arg_small:
  assumes "0 \<le> fd" "fd < 2 ^ 31"
  shows "int_arg (word_of_int fd) = fd"
proof -
  have "ucast (word_of_int fd :: u64) = (word_of_int fd :: u32)" by (rule bit_word_eqI) (auto simp: bit_simps)
  then show ?thesis using assms by (simp add: int_arg_def signed_of_int signed_take_bit_int_eq_self)
qed

lemma ucast_of_int_small:
  assumes "0 \<le> x" "x < 2 ^ 32"
  shows "ucast (word_of_int x :: u32) = (word_of_int x :: u64)"
  using assms by (simp add: word_uint_eq_iff unsigned_ucast_eq unsigned_of_int take_bit_int_eq_self)

lemma dispatch_table:
  assumes "num < MAX_SYSCALLS" "syscall_table callback num = Some f"
  shows "syscall_dispatcher callback num a1 a2 a3 k = f a1 a2 a3 (k\<lparr>kstats := (kstats k)\<lparr>total_calls := total_calls (kstats k) + 1\<rparr>\<rparr>)"
  using assms by (simp add: syscall_dispatcher_def Let_def not_le [symmetric])

lemma store_user_simps [simp]: "kipc (store_user p bs k) = kipc k" "vbytes (kvfs (store_user p bs k)) = put_bytes (vbytes (kvfs k)) p bs"
  by (simp_all add: store_user_def)

text \<open>
  C7. Pipes work across the system-call interface: \<open>SYS_PIPE\<close> stores two descriptors in user memory, \<open>SYS_WRITE\<close> to
  the second accepts up to 4096 bytes from a user buffer, and \<open>SYS_READ\<close> from the first then
  delivers exactly those bytes into another user buffer.
\<close>

theorem syscall_pipe_transfer:
  assumes wf: "ipc_wf (kipc k)" and free: "fst (pipe_create False (kipc k)) = 0"
    and p: "p \<noteq> 0" "a \<noteq> 0" "b \<noteq> 0" and n: "0 < n" "n \<le> RING_BUFFER_SIZE"
  shows "\<exists>r w k1 k2 k3. syscall_dispatcher cb SYS_PIPE p x y k = Inr (0, k1) \<and>
      get_bytes (vbytes (kvfs k1)) p 8 = le32 r @ le32 w \<and>
      syscall_dispatcher cb SYS_WRITE (ucast w) a (of_nat n) k1 = Inr (of_nat n, k2) \<and>
      syscall_dispatcher cb SYS_READ (ucast r) b (of_nat n) k2 = Inr (of_nat n, k3) \<and>
      get_bytes (vbytes (kvfs k3)) b n = get_bytes (vbytes (kvfs k1)) a n"
proof -
  have n32: "n < 2 ^ 32" "n < 2 ^ 64" using n by (simp_all add: RING_BUFFER_SIZE_def)
  obtain f i1 where c: "pipe_create False (kipc k) = (0, f, i1)" using free by (metis prod.collapse)
  then obtain rd wr where c': "pipe_create False (kipc k) = (0, Some (rd, wr), i1)"
    by (auto simp: pipe_create_def split: option.splits prod.splits if_splits)
  from pipe_create_open [OF wf c'] obtain i where
    i: "rd = int i + 100" "wr = int i + 200" "pipe_open i i1" "pipe_stream i i1 = []" by blast
  have i32: "i < 32" using i(3) by (simp add: pipe_open_def IPC_MAX_PIPES_def)
  let ?tick = "\<lambda>k. k\<lparr>kstats := (kstats k)\<lparr>total_calls := total_calls (kstats k) + 1\<rparr>\<rparr>"
  define r w :: u32 where "r = word_of_int rd" and "w = word_of_int wr"
  have fd: "int_arg (ucast r) = int i + 100" "int_arg (ucast w) = int i + 200"
  proof -
    have "ucast r = (word_of_int rd :: u64)" "ucast w = (word_of_int wr :: u64)"
      using i32 i unfolding r_def w_def by (intro ucast_of_int_small; simp)+
    moreover have "int_arg (word_of_int rd) = rd" "int_arg (word_of_int wr) = wr" using i32 i by (intro int_arg_small; simp)+
    ultimately show "int_arg (ucast r) = int i + 100" "int_arg (ucast w) = int i + 200" unfolding i by metis+
  qed
  define k1 where "k1 = store_user p (le32 r @ le32 w) ((?tick k)\<lparr>kipc := i1\<rparr>)"
  have pipe: "syscall_dispatcher cb SYS_PIPE p x y k = Inr (0, k1)"
    using p c' by (simp add: dispatch_table syscall_table_def syscall_numbers sys_pipe_def ret_def k1_def r_def w_def)
  have mem1: "get_bytes (vbytes (kvfs k1)) p 8 = le32 r @ le32 w"
  proof -
    have l: "length (le32 r @ le32 w) = 8" by (simp add: le32_def)
    then show ?thesis using get_put_bytes [of "le32 r @ le32 w" "vbytes (kvfs k)" p] by (simp only: k1_def store_user_simps) simp
  qed
  let ?bs = "get_bytes (vbytes (kvfs k1)) a n"
  have len: "length ?bs = n" by (simp add: get_bytes_def)
  have un: "(ucast (of_nat n :: u64) :: u32) = of_nat n" "unat (of_nat n :: u32) = n"
    using n32 by (simp_all add: unsigned_of_nat take_bit_nat_eq_self unat_of_nat_small)
  obtain i2 where w2: "pipe_put i i1 ?bs = Inr (int n, i2)" "pipe_open i i2" "pipe_stream i i2 = ?bs"
    using pipe_queue.wr_fits [OF i(3), of ?bs] i(4) n len by fastforce
  have "pipe_write (int i + 200) (Some ?bs) (of_nat n) i1 = Inr (int n, i2)" using w2(1) len by (simp add: pipe_put_def)
  then have wrt: "syscall_dispatcher cb SYS_WRITE (ucast w) a (of_nat n) k1 = Inr (of_nat n, (?tick k1)\<lparr>kipc := i2\<rparr>)"
    using p i32 un fd by (simp add: dispatch_table syscall_table_def syscall_numbers sys_write_def ret_def is_pipe_fd_def Let_def) (simp add: k1_def)
  let ?k2 = "(?tick k1)\<lparr>kipc := i2\<rparr>"
  have nz: "(of_nat n :: u32) \<noteq> 0" using un n by (metis less_not_refl unat_0)
  obtain i3 where "pipe_take i i2 (of_nat n) = Inr (int n, ?bs, i3)"
    using pipe_queue.rd_prefix [OF w2(2) nz] w2(3) un(2) len by auto
  then have rdp: "pipe_read (int i + 100) False (of_nat n) i2 = Inr (int n, ?bs, i3)" by (simp add: pipe_take_def)
  let ?k3 = "store_user b ?bs ((?tick ?k2)\<lparr>kipc := i3\<rparr>)"
  have read: "syscall_dispatcher cb SYS_READ (ucast r) b (of_nat n) ?k2 = Inr (of_nat n, ?k3)"
    using p i32 un fd rdp by (simp add: dispatch_table syscall_table_def syscall_numbers sys_read_def ret_def is_pipe_fd_def)
  have "get_bytes (vbytes (kvfs ?k3)) b n = ?bs" using get_put_bytes [of ?bs _ b] len n32 by simp
  then show ?thesis using pipe mem1 wrt read by blast
qed

definition kernel0 :: kernel where
  "kernel0 = \<lparr>kvfs = vfs0, kipc = ipc_init, ksched = sched0, kconsole = \<lparr>con_vga = \<lparr>vga_buffer = (\<lambda>_. 0), vga_color = 7, cursor_pos = 0\<rparr>,
     con_serial = []\<rparr>, kstats = \<lparr>total_calls = 0, invalid_calls = 0, stub_calls = 0\<rparr>\<rparr>"

theorem syscall_pipe_transfer_witness:
  "\<exists>r w k1 k2 k3. syscall_dispatcher (\<lambda>_ _ v. (0, v)) SYS_PIPE 0x1000 0 0 kernel0 = Inr (0, k1) \<and>
      syscall_dispatcher (\<lambda>_ _ v. (0, v)) SYS_WRITE (ucast (w :: u32)) 0x2000 (of_nat 64) k1 = Inr (of_nat 64, k2) \<and>
      syscall_dispatcher (\<lambda>_ _ v. (0, v)) SYS_READ (ucast (r :: u32)) 0x3000 (of_nat 64) k2 = Inr (of_nat 64, k3) \<and>
      get_bytes (vbytes (kvfs k3)) 0x3000 64 = get_bytes (vbytes (kvfs k1)) 0x2000 64"
proof -
  have wf: "ipc_wf (kipc kernel0)" and free: "fst (pipe_create False (kipc kernel0)) = 0"
    using create_init by (simp_all add: kernel0_def)
  have nz: "(0x1000 :: u64) \<noteq> 0" "(0x2000 :: u64) \<noteq> 0" "(0x3000 :: u64) \<noteq> 0" by simp_all
  have n: "0 < (64 :: nat)" "64 \<le> RING_BUFFER_SIZE" by (simp_all add: RING_BUFFER_SIZE_def)
  from syscall_pipe_transfer [OF wf free nz n, of "\<lambda>_ _ v. (0, v)" 0 0] show ?thesis by blast
qed

section \<open>Users\<close>

text \<open>What the file system does never touches the security state.\<close>

lemma vsec_basic [simp]:
  "vsec (upd_inode a f v) = vsec v" "vsec (upd_file i g v) = vsec v" "vsec (link_child p c v) = vsec v"
  by (simp_all add: upd_inode_def upd_file_def link_child_def Let_def)

lemma vsec_alloc: "alloc_inode ty v = Inr (p, v') \<Longrightarrow> vsec v' = vsec v"
  by (auto simp: alloc_inode_def rbind_Inr_iff split: if_splits prod.splits)

lemma vsec_copy: "copy_in data len dst v = Inr v' \<Longrightarrow> vsec v' = vsec v"
  by (auto simp: copy_in_def split: option.splits if_splits)

lemma vsec_free_fd: "free_fd i v = Inr v' \<Longrightarrow> vsec v' = vsec v"
  by (auto simp: free_fd_def free_inode_def rbind_Inr_iff Let_def split: if_splits)

lemma vsec_open: "vfs_open path flags v = Inr (r, v') \<Longrightarrow> vsec v' = vsec v"
  by (auto simp: vfs_open_def alloc_fd_def rbind_Inr_iff Let_def split: if_splits prod.splits option.splits)

lemma vsec_read: "vfs_read fd nb len v = (r, bs, v') \<Longrightarrow> vsec v' = vsec v"
  by (auto simp: vfs_read_def Let_def split: if_splits)

lemma vsec_write: "vfs_write fd buf len v = Inr (r, v') \<Longrightarrow> vsec v' = vsec v"
  by (auto simp: vfs_write_def rbind_Inr_iff Let_def split: if_splits dest!: vsec_copy)

lemma vsec_close: "vfs_close fd v = Inr (r, v') \<Longrightarrow> vsec v' = vsec v"
  by (auto simp: vfs_close_def rbind_Inr_iff split: if_splits dest!: vsec_free_fd)

lemma vsec_mkdir: "vfs_mkdir path v = Inr (r, v') \<Longrightarrow> vsec v' = vsec v"
  by (auto simp: vfs_mkdir_def rbind_Inr_iff Let_def split: if_splits prod.splits option.splits list.splits dest!: vsec_alloc)

lemma vsec_mount:
  assumes "\<And>f m v. vsec (snd (callback f m v)) = vsec v"
  shows "vfs_mount callback fs path v = Inr (r, v') \<Longrightarrow> vsec v' = vsec v"
  using assms by (auto simp: vfs_mount_def rbind_Inr_iff Let_def split: if_splits prod.splits option.splits dest!: vsec_mkdir)
     (metis snd_conv)+


text \<open>One system call, and a sequence of them.\<close>

type_synonym syscall = "u64 \<times> u64 \<times> u64 \<times> u64"

fun sys_run :: "(nat \<Rightarrow> addr \<Rightarrow> vfs \<Rightarrow> int \<times> vfs) \<Rightarrow> syscall list \<Rightarrow> kernel \<Rightarrow> kernel res" where
  "sys_run cb [] k = Inr k"
| "sys_run cb ((num, a, b, c) # cs) k = rbind (syscall_dispatcher cb num a b c k) (\<lambda>(r, k1). sys_run cb cs k1)"

definition ksec :: "kernel \<Rightarrow> security" where
  "ksec k = vsec (kvfs k)"

lemma ksec_simps [simp]:
  "ksec (k\<lparr>kipc := i\<rparr>) = ksec k" "ksec (k\<lparr>kconsole := c\<rparr>) = ksec k" "ksec (k\<lparr>kstats := t\<rparr>) = ksec k"
  "ksec (k\<lparr>ksched := d\<rparr>) = ksec k" "ksec (k\<lparr>kvfs := v\<rparr>) = vsec v" "ksec (store_user p bs k) = ksec k" "ksec (count_stub k) = ksec k"
  by (simp_all add: ksec_def store_user_def count_stub_def)

lemma ksec_log: "log_msg m k = Inr k' \<Longrightarrow> ksec k' = ksec k"
  by (auto simp: log_msg_def rbind_Inr_iff)

lemma ksec_setuid:
  "current_uid (ksec k) \<noteq> ROOT_UID \<Longrightarrow> sys_setuid u k = Inr (r, k') \<Longrightarrow> ksec k' = ksec k"
  by (auto simp: sys_setuid_def security_set_uid_def ksec_def split: if_splits)

lemma ksec_files:
  "sys_open a b k = Inr (r, k') \<Longrightarrow> ksec k' = ksec k"
  "sys_read a b c k = Inr (r, k') \<Longrightarrow> ksec k' = ksec k"
  "sys_write a b c k = Inr (r, k') \<Longrightarrow> ksec k' = ksec k"
  "sys_close a k = Inr (r, k') \<Longrightarrow> ksec k' = ksec k"
  "sys_pipe a k = Inr (r, k') \<Longrightarrow> ksec k' = ksec k"
  subgoal by (auto simp: sys_open_def rbind_Inr_iff split: if_splits dest!: vsec_open simp: ksec_def)
  subgoal by (auto simp: sys_read_def rbind_Inr_iff split: if_splits prod.splits dest!: vsec_read simp: ksec_def store_user_def)
  subgoal by (auto simp: sys_write_def rbind_Inr_iff Let_def split: if_splits dest!: vsec_write simp: ksec_def)
  subgoal by (auto simp: sys_close_def rbind_Inr_iff split: if_splits prod.splits dest!: vsec_close simp: ksec_def)
  subgoal by (auto simp: sys_pipe_def split: if_splits prod.splits option.splits)
  done

lemma ksec_mount:
  assumes "\<And>f m v. vsec (snd (callback f m v)) = vsec v" and "sys_mount callback a b c k = Inr (r, k')"
  shows "ksec k' = ksec k"
  using assms by (auto simp: sys_mount_def rbind_Inr_iff split: if_splits dest!: vsec_mount [OF assms(1)] simp: ksec_def)

lemma ksec_misc:
  "sys_print a b k = Inr (r, k') \<Longrightarrow> ksec k' = ksec k"
  "sys_exit a k = Inr (r, k') \<Longrightarrow> ksec k' = ksec k"
  "sys_get_tick k = Inr (r, k') \<Longrightarrow> ksec k' = ksec k"
  "sys_kill a b k = Inr (r, k') \<Longrightarrow> ksec k' = ksec k"
  "sys_chmod a b k = Inr (r, k') \<Longrightarrow> ksec k' = ksec k"
  "sys_exec_app_stub k = Inr (r, k') \<Longrightarrow> ksec k' = ksec k"
  "sys_http_request_stub k = Inr (r, k') \<Longrightarrow> ksec k' = ksec k"
  "sys_list_procs_stub k = Inr (r, k') \<Longrightarrow> ksec k' = ksec k"
  by (auto simp: sys_print_def sys_exit_def sys_get_tick_def sys_kill_def sys_chmod_def sys_exec_app_stub_def
      sys_http_request_stub_def sys_list_procs_stub_def rbind_Inr_iff dest!: ksec_log)

lemma ksec_dispatcher:
  assumes cb: "\<And>f m v. vsec (snd (callback f m v)) = vsec v" and u: "current_uid (ksec k) \<noteq> ROOT_UID"
    and d: "syscall_dispatcher callback num a b c k = Inr (r, k')"
  shows "ksec k' = ksec k"
proof (cases "num \<ge> MAX_SYSCALLS \<or> syscall_table callback num = None")
  case True
  then show ?thesis using d by (auto simp: syscall_dispatcher_def Let_def split: if_splits)
next
  case False
  define k1 where "k1 = k\<lparr>kstats := (kstats k)\<lparr>total_calls := total_calls (kstats k) + 1\<rparr>\<rparr>"
  have k1: "ksec k1 = ksec k" by (simp add: k1_def)
  from False obtain f where f: "syscall_table callback num = Some f" by blast
  then have "f a b c k1 = Inr (r, k')" using d False by (simp add: dispatch_table k1_def)
  moreover have "current_uid (ksec k1) \<noteq> ROOT_UID" using u k1 by simp
  moreover note f
  ultimately have "ksec k' = ksec k1"
    by (auto simp: syscall_table_def dest: ksec_files ksec_misc ksec_setuid ksec_mount [OF cb] split: if_splits)
  then show ?thesis using k1 by simp
qed


definition kernel_user :: kernel where
  "kernel_user = kernel0\<lparr>kvfs := (kvfs kernel0)\<lparr>vsec := (vsec (kvfs kernel0))\<lparr>current_uid := 1000\<rparr>\<rparr>\<rparr>"


end
