(* ===== verification/Win32.thy ===== *)
theory Win32
  imports Compat Syscall
begin

text \<open>
  The Windows API offered to programs: \<^verbatim>\<open>src/compat/win32_stubs.c\<close>, the call counters of
  \<^verbatim>\<open>src/compat/api_log.c\<close> and the calls by name of \<^verbatim>\<open>src/compat/syscall_bridge.c\<close>, on top of the system calls, the
  heap, the threads and the synchronisation objects. Pointers are addresses of the memory of
  \<open>Syscall\<close>. The log line of each call is left out; what a call prints on its own account is modelled.
\<close>

section \<open>State\<close>

definition INVALID_HANDLE_VALUE :: u64 where "INVALID_HANDLE_VALUE = -1"
definition GENERIC_READ :: u32 where "GENERIC_READ = 0x80000000"
definition GENERIC_WRITE :: u32 where "GENERIC_WRITE = 0x40000000"
definition PAGE_READWRITE :: u32 where "PAGE_READWRITE = 4"
definition WAIT_OBJECT_0 :: u32 where "WAIT_OBJECT_0 = 0"
definition WAIT_TIMEOUT :: u32 where "WAIT_TIMEOUT = 0x102"
definition ERROR_FILE_NOT_FOUND :: u32 where "ERROR_FILE_NOT_FOUND = 2"
definition ERROR_ACCESS_DENIED :: u32 where "ERROR_ACCESS_DENIED = 5"
definition ERROR_INVALID_HANDLE :: u32 where "ERROR_INVALID_HANDLE = 6"
definition ERROR_NOT_ENOUGH_MEM :: u32 where "ERROR_NOT_ENOUGH_MEM = 8"
definition ERROR_INVALID_PARAMETER :: u32 where "ERROR_INVALID_PARAMETER = 87"

record win32 =
  w_kernel :: kernel
  g_last_error :: u32
  g_total_calls :: u32
  g_failed_calls :: u32
  w_threads :: compat_threads
  w_sync :: compat_sync

definition compat_api_log_reset :: "win32 \<Rightarrow> win32" where
  "compat_api_log_reset s = s\<lparr>g_total_calls := 0, g_failed_calls := 0\<rparr>"

definition compat_api_log_call :: "int \<Rightarrow> win32 \<Rightarrow> win32" where
  "compat_api_log_call status s =
     s\<lparr>g_total_calls := g_total_calls s + 1, g_failed_calls := (if status \<noteq> 0 then g_failed_calls s + 1 else g_failed_calls s)\<rparr>"

definition compat_api_log_total_calls :: "win32 \<Rightarrow> u32" where
  "compat_api_log_total_calls s = g_total_calls s"

definition compat_api_log_failed_calls :: "win32 \<Rightarrow> u32" where
  "compat_api_log_failed_calls s = g_failed_calls s"

definition log_api :: "bool \<Rightarrow> win32 \<Rightarrow> win32" where
  "log_api ok s = compat_api_log_call (if ok then 0 else -1) s"

definition win32_stubs_init :: "win32 \<Rightarrow> win32" where
  "win32_stubs_init s = (compat_api_log_reset s)\<lparr>g_last_error := 0\<rparr>"

definition w32_GetLastError :: "win32 \<Rightarrow> u32" where
  "w32_GetLastError s = g_last_error s"

definition w32_SetLastError :: "u32 \<Rightarrow> win32 \<Rightarrow> win32" where
  "w32_SetLastError err s = s\<lparr>g_last_error := err\<rparr>"

text \<open>Stores of results through pointers that may be null.\<close>

definition w32_mem :: "win32 \<Rightarrow> addr \<Rightarrow> u8" where
  "w32_mem s = vbytes (kvfs (w_kernel s))"

definition w32_store :: "u64 \<Rightarrow> u8 list \<Rightarrow> win32 \<Rightarrow> win32" where
  "w32_store p bs s = s\<lparr>w_kernel := store_user p bs (w_kernel s)\<rparr>"

definition out32 :: "u64 \<Rightarrow> u32 \<Rightarrow> win32 \<Rightarrow> win32" where
  "out32 p v s = (if p \<noteq> 0 then w32_store p (le32 v) s else s)"

definition out64 :: "u64 \<Rightarrow> u64 \<Rightarrow> win32 \<Rightarrow> win32" where
  "out64 p v s = (if p \<noteq> 0 then w32_store p (le64 v) s else s)"

definition w32_fail :: "u32 \<Rightarrow> win32 \<Rightarrow> win32" where
  "w32_fail err s = log_api False (s\<lparr>g_last_error := err\<rparr>)"

definition w32_ticks :: "win32 \<Rightarrow> u64" where
  "w32_ticks s = timer_ticks (ksched (w_kernel s))"

section \<open>Processes and threads\<close>

definition w32_GetCurrentProcess :: "win32 \<Rightarrow> u64 \<times> win32" where
  "w32_GetCurrentProcess s = (0xFFFF0001, log_api True s)"

definition w32_GetCurrentThread :: "win32 \<Rightarrow> u64 \<times> win32" where
  "w32_GetCurrentThread s = (0xFFFF0002, log_api True s)"

definition w32_GetCurrentProcessId :: "win32 \<Rightarrow> u32 \<times> win32" where
  "w32_GetCurrentProcessId s = (1, log_api True s)"

definition w32_GetCurrentThreadId :: "win32 \<Rightarrow> u32 \<times> win32" where
  "w32_GetCurrentThreadId s = (1, log_api True s)"

text \<open>Text printed by a call itself.\<close>

definition w32_print :: "u8 list \<Rightarrow> karg list \<Rightarrow> win32 \<Rightarrow> win32 res" where
  "w32_print format args s =
     rbind (kprintf format args (kconsole (w_kernel s))) (\<lambda>(_, c). Inr (s\<lparr>w_kernel := (w_kernel s)\<lparr>kconsole := c\<rparr>\<rparr>))"

definition w32_ExitProcess :: "u32 \<Rightarrow> win32 \<Rightarrow> win32 res" where
  "w32_ExitProcess code s = w32_print (cstr ''[compat] ExitProcess(%u)'' @ [10]) [ArgInt (ucast code)] (log_api True s)"

definition w32_ExitThread :: "u32 \<Rightarrow> win32 \<Rightarrow> win32 res" where
  "w32_ExitThread code s = w32_print (cstr ''[compat] ExitThread(%u)'' @ [10]) [ArgInt (ucast code)] (log_api True s)"

text \<open>\<open>call\<close> is the code of the thread, as in \<open>compat_create_thread\<close>.\<close>

definition w32_CreateThread :: "(addr \<Rightarrow> u64 \<Rightarrow> compat_threads \<Rightarrow> compat_threads) \<Rightarrow> addr \<Rightarrow> u64 \<Rightarrow> u64 \<Rightarrow> win32 \<Rightarrow> u64 \<times> win32" where
  "w32_CreateThread call entry param tid s =
     (case compat_create_thread call (w32_ticks s) entry param (w_threads s) of
        (Some t, ts) \<Rightarrow> (ucast t, log_api True (out32 tid t (s\<lparr>w_threads := ts\<rparr>)))
      | (None, ts) \<Rightarrow> (INVALID_HANDLE_VALUE, log_api False ((out32 tid 0 (s\<lparr>w_threads := ts\<rparr>))\<lparr>g_last_error := ERROR_NOT_ENOUGH_MEM\<rparr>)))"

definition w32_TerminateThread :: "u64 \<Rightarrow> u32 \<Rightarrow> win32 \<Rightarrow> bool \<times> win32" where
  "w32_TerminateThread h code s = (True, log_api True s)"

definition w32_SuspendThread :: "u64 \<Rightarrow> win32 \<Rightarrow> u32 \<times> win32" where
  "w32_SuspendThread h s = (0, log_api True s)"

definition w32_ResumeThread :: "u64 \<Rightarrow> win32 \<Rightarrow> u32 \<times> win32" where
  "w32_ResumeThread h s = (0, log_api True s)"

definition w32_GetExitCodeThread :: "u64 \<Rightarrow> u64 \<Rightarrow> win32 \<Rightarrow> bool \<times> win32" where
  "w32_GetExitCodeThread h code s = (True, log_api True (out32 code 0 s))"

section \<open>Files\<close>

definition w32_CreateFileA :: "u64 \<Rightarrow> u32 \<Rightarrow> win32 \<Rightarrow> (u64 \<times> win32) res" where
  "w32_CreateFileA path access s =
     (let flags0 = (if access AND GENERIC_WRITE \<noteq> 0 then VFS_O_WRONLY else VFS_O_RDONLY);
          flags = (if access AND (GENERIC_READ OR GENERIC_WRITE) = GENERIC_READ OR GENERIC_WRITE then VFS_O_RDWR else flags0)
      in rbind (sys_open path (ucast flags) (w_kernel s)) (\<lambda>(fd, k).
        let s1 = s\<lparr>w_kernel := k\<rparr> in
        if fd = -1 then Inr (INVALID_HANDLE_VALUE, w32_fail ERROR_FILE_NOT_FOUND s1) else Inr (fd, log_api True s1)))"

definition w32_ReadFile :: "u64 \<Rightarrow> u64 \<Rightarrow> u32 \<Rightarrow> u64 \<Rightarrow> win32 \<Rightarrow> (bool \<times> win32) res" where
  "w32_ReadFile h buf len read_out s =
     rbind (sys_read h buf (ucast len) (w_kernel s)) (\<lambda>(n, k).
       let s1 = out32 read_out (if n = -1 then 0 else ucast n) (s\<lparr>w_kernel := k\<rparr>) in
       if n = -1 then Inr (False, w32_fail ERROR_ACCESS_DENIED s1) else Inr (True, log_api True s1))"

definition w32_WriteFile :: "u64 \<Rightarrow> u64 \<Rightarrow> u32 \<Rightarrow> u64 \<Rightarrow> win32 \<Rightarrow> (bool \<times> win32) res" where
  "w32_WriteFile h buf len written_out s =
     rbind (sys_write h buf (ucast len) (w_kernel s)) (\<lambda>(n, k).
       let s1 = out32 written_out (if n = -1 then 0 else ucast n) (s\<lparr>w_kernel := k\<rparr>) in
       if n = -1 then Inr (False, w32_fail ERROR_ACCESS_DENIED s1) else Inr (True, log_api True s1))"

definition w32_CloseHandle :: "u64 \<Rightarrow> win32 \<Rightarrow> (bool \<times> win32) res" where
  "w32_CloseHandle h s =
     (if h = INVALID_HANDLE_VALUE \<or> h = 0xFFFF0001 \<or> h = 0xFFFF0002 then Inr (True, log_api True s)
      else rbind (sys_close h (w_kernel s)) (\<lambda>(rc, k).
        let s1 = s\<lparr>w_kernel := k\<rparr> in
        if rc = -1 then Inr (False, w32_fail ERROR_INVALID_HANDLE s1) else Inr (True, log_api True s1)))"

definition w32_DeleteFileA :: "u64 \<Rightarrow> win32 \<Rightarrow> bool \<times> win32" where
  "w32_DeleteFileA path s = (True, log_api True s)"

definition w32_MoveFileA :: "u64 \<Rightarrow> u64 \<Rightarrow> win32 \<Rightarrow> bool \<times> win32" where
  "w32_MoveFileA old new s = (True, log_api True s)"

definition w32_CopyFileA :: "u64 \<Rightarrow> u64 \<Rightarrow> bool \<Rightarrow> win32 \<Rightarrow> bool \<times> win32" where
  "w32_CopyFileA src dst fail_if_exists s = (True, log_api True s)"

definition w32_GetFileSize :: "u64 \<Rightarrow> u64 \<Rightarrow> win32 \<Rightarrow> u32 \<times> win32" where
  "w32_GetFileSize h high s = (0, log_api True s)"

definition w32_SetFilePointer :: "u64 \<Rightarrow> u32 \<Rightarrow> u64 \<Rightarrow> u32 \<Rightarrow> win32 \<Rightarrow> bool \<times> win32" where
  "w32_SetFilePointer h dist high way s = (True, log_api True s)"

section \<open>Console\<close>

definition w32_GetStdHandle :: "u32 \<Rightarrow> win32 \<Rightarrow> u64 \<times> win32" where
  "w32_GetStdHandle std_handle s = (ucast (0x1000 + std_handle), log_api True s)"

definition w32_SetStdHandle :: "u32 \<Rightarrow> u64 \<Rightarrow> win32 \<Rightarrow> bool \<times> win32" where
  "w32_SetStdHandle std_handle h s = (True, log_api True s)"

definition w32_WriteConsoleA :: "u64 \<Rightarrow> u64 \<Rightarrow> u32 \<Rightarrow> u64 \<Rightarrow> win32 \<Rightarrow> bool \<times> win32" where
  "w32_WriteConsoleA h buf len written_out s =
     (if buf = 0 then (False, w32_fail ERROR_INVALID_PARAMETER s)
      else (True, log_api True (out32 written_out len
        (s\<lparr>w_kernel := (w_kernel s)\<lparr>kconsole := print_loop (w32_mem s) (unat len) buf (kconsole (w_kernel s))\<rparr>\<rparr>))))"

definition w32_ReadConsoleA :: "u64 \<Rightarrow> u64 \<Rightarrow> u32 \<Rightarrow> u64 \<Rightarrow> win32 \<Rightarrow> bool \<times> win32" where
  "w32_ReadConsoleA h buf len read_out s = (True, log_api True (out32 read_out 0 s))"

definition w32_AllocConsole :: "win32 \<Rightarrow> bool \<times> win32" where
  "w32_AllocConsole s = (True, log_api True s)"

definition w32_FreeConsole :: "win32 \<Rightarrow> bool \<times> win32" where
  "w32_FreeConsole s = (True, log_api True s)"

section \<open>Memory\<close>

definition w32_kmalloc :: "u64 \<Rightarrow> win32 \<Rightarrow> (addr \<times> win32) res" where
  "w32_kmalloc n s =
     rbind (kmalloc n (vheap (kvfs (w_kernel s)))) (\<lambda>(p, h). Inr (p, s\<lparr>w_kernel := (w_kernel s)\<lparr>kvfs := (kvfs (w_kernel s))\<lparr>vheap := h\<rparr>\<rparr>\<rparr>))"

definition w32_kfree :: "addr \<Rightarrow> win32 \<Rightarrow> win32 res" where
  "w32_kfree p s =
     rbind (kfree p (vheap (kvfs (w_kernel s)))) (\<lambda>h. Inr (s\<lparr>w_kernel := (w_kernel s)\<lparr>kvfs := (kvfs (w_kernel s))\<lparr>vheap := h\<rparr>\<rparr>\<rparr>))"

definition w32_VirtualAlloc :: "addr \<Rightarrow> u64 \<Rightarrow> u32 \<Rightarrow> u32 \<Rightarrow> win32 \<Rightarrow> (addr \<times> win32) res" where
  "w32_VirtualAlloc a n ty protect s =
     (if n = 0 then Inr (0, w32_fail ERROR_INVALID_PARAMETER s)
      else rbind (w32_kmalloc n s) (\<lambda>(p, s1).
        if p = 0 then Inr (0, w32_fail ERROR_NOT_ENOUGH_MEM s1)
        else Inr (p, log_api True (w32_store p (replicate (unat n) 0) s1))))"

definition w32_VirtualFree :: "addr \<Rightarrow> u64 \<Rightarrow> u32 \<Rightarrow> win32 \<Rightarrow> (bool \<times> win32) res" where
  "w32_VirtualFree a n ty s =
     (if a = 0 then Inr (False, w32_fail ERROR_INVALID_PARAMETER s)
      else rbind (w32_kfree a s) (\<lambda>s1. Inr (True, log_api True s1)))"

definition w32_VirtualProtect :: "addr \<Rightarrow> u64 \<Rightarrow> u32 \<Rightarrow> u64 \<Rightarrow> win32 \<Rightarrow> bool \<times> win32" where
  "w32_VirtualProtect a n new_prot old_prot s = (True, log_api True (out32 old_prot PAGE_READWRITE s))"

definition w32_HeapAlloc :: "u64 \<Rightarrow> u32 \<Rightarrow> u64 \<Rightarrow> win32 \<Rightarrow> (addr \<times> win32) res" where
  "w32_HeapAlloc hp flags n s =
     rbind (w32_kmalloc n s) (\<lambda>(p, s1).
       if p = 0 then Inr (0, w32_fail ERROR_NOT_ENOUGH_MEM s1)
       else Inr (p, log_api True (if flags AND 8 \<noteq> 0 then w32_store p (replicate (unat n) 0) s1 else s1)))"

definition w32_HeapFree :: "u64 \<Rightarrow> u32 \<Rightarrow> addr \<Rightarrow> win32 \<Rightarrow> (bool \<times> win32) res" where
  "w32_HeapFree hp flags mem s =
     (if mem = 0 then Inr (False, w32_fail ERROR_INVALID_PARAMETER s)
      else rbind (w32_kfree mem s) (\<lambda>s1. Inr (True, log_api True s1)))"

definition w32_GetProcessHeap :: "win32 \<Rightarrow> u64 \<times> win32" where
  "w32_GetProcessHeap s = (1, log_api True s)"

definition w32_HeapSetInformation :: "u64 \<Rightarrow> u64 \<Rightarrow> u64 \<Rightarrow> u64 \<Rightarrow> win32 \<Rightarrow> bool \<times> win32" where
  "w32_HeapSetInformation h ty info len s = (True, log_api True s)"

definition w32_HeapCreate :: "u32 \<Rightarrow> u64 \<Rightarrow> u64 \<Rightarrow> win32 \<Rightarrow> u64 \<times> win32" where
  "w32_HeapCreate options initial mx s = (0x5001, log_api True s)"

definition w32_HeapDestroy :: "u64 \<Rightarrow> win32 \<Rightarrow> bool \<times> win32" where
  "w32_HeapDestroy h s = (True, log_api True s)"

definition w32_HeapReAlloc :: "u64 \<Rightarrow> u32 \<Rightarrow> addr \<Rightarrow> u64 \<Rightarrow> win32 \<Rightarrow> addr \<times> win32" where
  "w32_HeapReAlloc h flags mem n s = (mem, log_api True s)"

definition w32_HeapSize :: "u64 \<Rightarrow> u32 \<Rightarrow> addr \<Rightarrow> win32 \<Rightarrow> u64 \<times> win32" where
  "w32_HeapSize h flags mem s = (0, log_api True s)"

definition w32_HeapValidate :: "u64 \<Rightarrow> u32 \<Rightarrow> addr \<Rightarrow> win32 \<Rightarrow> bool \<times> win32" where
  "w32_HeapValidate h flags mem s = (True, log_api True s)"

section \<open>Modules and synchronisation\<close>

definition w32_GetModuleHandleA :: "u64 \<Rightarrow> win32 \<Rightarrow> u64 \<times> win32" where
  "w32_GetModuleHandleA name s = (1, log_api True s)"

definition w32_GetModuleHandleW :: "u64 \<Rightarrow> win32 \<Rightarrow> u64 \<times> win32" where
  "w32_GetModuleHandleW name s = (1, log_api True s)"

definition w32_FreeLibrary :: "u64 \<Rightarrow> win32 \<Rightarrow> bool \<times> win32" where
  "w32_FreeLibrary md s = (True, log_api True s)"

definition w32_WaitForSingleObject :: "u64 \<Rightarrow> u32 \<Rightarrow> win32 \<Rightarrow> u32 \<times> win32" where
  "w32_WaitForSingleObject h timeout_ms s =
     (case compat_wait_for_object (ucast h) timeout_ms (w_threads s) (w_sync s) of
        (rc, y) \<Rightarrow> (if rc = 0 then WAIT_OBJECT_0 else WAIT_TIMEOUT, log_api (rc = 0) (s\<lparr>w_sync := y\<rparr>)))"

definition w32_WaitForMultipleObjects :: "u32 \<Rightarrow> u64 \<Rightarrow> bool \<Rightarrow> u32 \<Rightarrow> win32 \<Rightarrow> u32 \<times> win32" where
  "w32_WaitForMultipleObjects n handles wait_all timeout_ms s = (WAIT_OBJECT_0, log_api True s)"

definition w32_CreateMutexA :: "u64 \<Rightarrow> bool \<Rightarrow> u64 \<Rightarrow> win32 \<Rightarrow> u64 \<times> win32" where
  "w32_CreateMutexA attr owned name s = (0x2001, log_api True s)"

definition w32_ReleaseMutex :: "u64 \<Rightarrow> win32 \<Rightarrow> bool \<times> win32" where
  "w32_ReleaseMutex h s = (True, log_api True s)"

definition w32_CreateEventA :: "u64 \<Rightarrow> bool \<Rightarrow> bool \<Rightarrow> u64 \<Rightarrow> win32 \<Rightarrow> u64 \<times> win32" where
  "w32_CreateEventA attr manual initial name s = (0x3001, log_api True s)"

definition w32_SetEvent :: "u64 \<Rightarrow> win32 \<Rightarrow> bool \<times> win32" where
  "w32_SetEvent h s = (True, log_api True s)"

definition w32_ResetEvent :: "u64 \<Rightarrow> win32 \<Rightarrow> bool \<times> win32" where
  "w32_ResetEvent h s = (True, log_api True s)"

definition w32_CreateSemaphoreA :: "u64 \<Rightarrow> u32 \<Rightarrow> u32 \<Rightarrow> u64 \<Rightarrow> win32 \<Rightarrow> u64 \<times> win32" where
  "w32_CreateSemaphoreA attr initial mx name s = (0x4001, log_api True s)"

definition w32_ReleaseSemaphore :: "u64 \<Rightarrow> u32 \<Rightarrow> u64 \<Rightarrow> win32 \<Rightarrow> bool \<times> win32" where
  "w32_ReleaseSemaphore h rel prev s = (True, log_api True (out32 prev 0 s))"

section \<open>Time\<close>

text \<open>
  The busy wait: \<open>tick\<close> gives what the \<open>n\<close>-th reading of the timer returns. The loop leaves when enough
  ticks have passed or when its guard is used up.
\<close>

function sleep_loop :: "(nat \<Rightarrow> u64) \<Rightarrow> u64 \<Rightarrow> u64 \<Rightarrow> u64 \<Rightarrow> nat \<Rightarrow> nat" where
  "sleep_loop tick start needed guard n =
     (if tick n - start < needed then (if guard = 0 then n else sleep_loop tick start needed (guard - 1) (Suc n)) else n)"
  by pat_completeness auto
termination
  by (relation "measure (\<lambda>(tick, start, needed, guard, n). unat guard)") (auto simp: unat_minus_one unat_gt_0)

declare sleep_loop.simps [simp del]

text \<open>The number of timer readings after the first and the state; only the call is recorded.\<close>

definition w32_Sleep :: "(nat \<Rightarrow> u64) \<Rightarrow> u32 \<Rightarrow> win32 \<Rightarrow> nat \<times> win32" where
  "w32_Sleep tick ms s =
     (let start = tick 0; needed = ucast (ms div 10 + 1); guard = ucast ms * 20000 + 50000
      in (sleep_loop tick start needed guard 1, log_api True s))"

definition w32_GetTickCount :: "win32 \<Rightarrow> u32 \<times> win32" where
  "w32_GetTickCount s = (ucast (w32_ticks s * 10), log_api True s)"

definition w32_GetTickCount64 :: "win32 \<Rightarrow> u32 \<times> win32" where
  "w32_GetTickCount64 s = (ucast (w32_ticks s * 10), log_api True s)"

definition w32_QueryPerformanceCounter :: "u64 \<Rightarrow> win32 \<Rightarrow> bool \<times> win32" where
  "w32_QueryPerformanceCounter counter s = (True, log_api True (out64 counter (w32_ticks s) s))"

definition w32_QueryPerformanceFrequency :: "u64 \<Rightarrow> win32 \<Rightarrow> bool \<times> win32" where
  "w32_QueryPerformanceFrequency freq s = (True, log_api True (out64 freq 100 s))"

definition w32_GetSystemTime :: "u64 \<Rightarrow> win32 \<Rightarrow> win32" where
  "w32_GetSystemTime sys_time s = log_api True s"

section \<open>Environment, memory blocks and strings\<close>

definition w32_GetEnvironmentVariableA :: "u64 \<Rightarrow> u64 \<Rightarrow> u32 \<Rightarrow> win32 \<Rightarrow> u32 \<times> win32" where
  "w32_GetEnvironmentVariableA name buf n s =
     (0, log_api True (if buf \<noteq> 0 \<and> n > 0 then w32_store buf [0] s else s))"

definition w32_SetEnvironmentVariableA :: "u64 \<Rightarrow> u64 \<Rightarrow> win32 \<Rightarrow> bool \<times> win32" where
  "w32_SetEnvironmentVariableA name val s = (True, log_api True s)"

definition w32_GetCommandLineA :: "u64 \<Rightarrow> u32 \<Rightarrow> win32 \<Rightarrow> u32 \<times> win32" where
  "w32_GetCommandLineA buf n s =
     (0, log_api True (if buf \<noteq> 0 \<and> n > 0 then w32_store buf [0] s else s))"

text \<open>The loop of \<open>memcpy\<close>, which copies upwards.\<close>

fun copy_up :: "nat \<Rightarrow> addr \<Rightarrow> addr \<Rightarrow> (addr \<Rightarrow> u8) \<Rightarrow> addr \<Rightarrow> u8" where
  "copy_up 0 dst src m = m"
| "copy_up (Suc n) dst src m = copy_up n (dst + 1) (src + 1) (m(dst := m src))"

definition w32_set_mem :: "(addr \<Rightarrow> u8) \<Rightarrow> win32 \<Rightarrow> win32" where
  "w32_set_mem m s = s\<lparr>w_kernel := (w_kernel s)\<lparr>kvfs := (kvfs (w_kernel s))\<lparr>vbytes := m\<rparr>\<rparr>\<rparr>"

definition w32_RtlMoveMemory :: "addr \<Rightarrow> addr \<Rightarrow> u64 \<Rightarrow> win32 \<Rightarrow> win32" where
  "w32_RtlMoveMemory dst src len s = log_api True (w32_set_mem (copy_up (unat len) dst src (w32_mem s)) s)"

definition w32_RtlFillMemory :: "addr \<Rightarrow> u64 \<Rightarrow> u8 \<Rightarrow> win32 \<Rightarrow> win32" where
  "w32_RtlFillMemory dst len val s = log_api True (w32_store dst (replicate (unat len) val) s)"

definition w32_RtlZeroMemory :: "addr \<Rightarrow> u64 \<Rightarrow> win32 \<Rightarrow> win32" where
  "w32_RtlZeroMemory dst len s = log_api True (w32_store dst (replicate (unat len) 0) s)"

definition w32_str :: "addr \<Rightarrow> win32 \<Rightarrow> u8 list res" where
  "w32_str p s = user_str (w_kernel s) p"

text \<open>\<open>strcmp\<close> of the strings at two addresses.\<close>

definition w32_strcmp :: "addr \<Rightarrow> addr \<Rightarrow> win32 \<Rightarrow> int res" where
  "w32_strcmp a b s = rbind (w32_str a s) (\<lambda>x. rbind (w32_str b s) (\<lambda>y. strcmp (x @ [0]) (y @ [0])))"

definition w32_lstrcmpA :: "addr \<Rightarrow> addr \<Rightarrow> win32 \<Rightarrow> (int \<times> win32) res" where
  "w32_lstrcmpA a b s = rbind (w32_strcmp a b s) (\<lambda>r. Inr (r, log_api True s))"

definition w32_lstrcmpiA :: "addr \<Rightarrow> addr \<Rightarrow> win32 \<Rightarrow> (int \<times> win32) res" where
  "w32_lstrcmpiA a b s = rbind (w32_strcmp a b s) (\<lambda>r. Inr (r, log_api True s))"

definition w32_lstrlenA :: "addr \<Rightarrow> win32 \<Rightarrow> (int \<times> win32) res" where
  "w32_lstrlenA p s = (if p = 0 then Inr (0, log_api True s) else rbind (w32_str p s) (\<lambda>x. Inr (sint (of_nat (length x) :: u32), log_api True s)))"

text \<open>\<open>strncpy\<close> writes all 4096 bytes of the target, padding with zeros.\<close>

definition w32_lstrcpyA :: "addr \<Rightarrow> addr \<Rightarrow> win32 \<Rightarrow> (addr \<times> win32) res" where
  "w32_lstrcpyA dst src s =
     (if dst = 0 \<or> src = 0 then Inr (dst, log_api True s)
      else rbind (w32_str src s) (\<lambda>x. Inr (dst, w32_store dst (take 4096 x @ replicate (4096 - length x) 0) (log_api True s))))"

definition w32_lstrcatA :: "addr \<Rightarrow> addr \<Rightarrow> win32 \<Rightarrow> (addr \<times> win32) res" where
  "w32_lstrcatA dst src s =
     (if dst = 0 \<or> src = 0 then Inr (dst, log_api True s)
      else rbind (w32_str dst s) (\<lambda>d. rbind (w32_str src s) (\<lambda>x.
        Inr (dst, w32_store (dst + of_nat (length d)) (take 4096 x @ [0]) (log_api True s)))))"

section \<open>Messages\<close>

definition w32_MessageBoxA :: "u64 \<Rightarrow> u8 list option \<Rightarrow> u8 list option \<Rightarrow> u32 \<Rightarrow> win32 \<Rightarrow> (int \<times> win32) res" where
  "w32_MessageBoxA wnd txt caption ty s =
     rbind (w32_print (cstr ''[compat-msgbox] %s: %s'' @ [10])
       [ArgStr (Some (case caption of Some c \<Rightarrow> c | None \<Rightarrow> cstr ''Message'')), ArgStr (Some (case txt of Some t \<Rightarrow> t | None \<Rightarrow> []))] s)
       (\<lambda>s1. Inr (1, log_api True s1))"

definition w32_OutputDebugStringA :: "u8 list option \<Rightarrow> win32 \<Rightarrow> win32 res" where
  "w32_OutputDebugStringA msg s =
     (case msg of None \<Rightarrow> Inr (log_api True s)
      | Some m \<Rightarrow> rbind (w32_print (cstr ''[compat-dbg] %s'' @ [10]) [ArgStr (Some m)] s) (\<lambda>s1. Inr (log_api True s1)))"

definition w32_DebugBreak :: "win32 \<Rightarrow> (bool \<times> win32) res" where
  "w32_DebugBreak s = rbind (w32_print (cstr ''[compat] DebugBreak called'' @ [10]) [] (log_api True s)) (\<lambda>s1. Inr (True, s1))"

section \<open>Calls by name\<close>

definition COMPAT_MAX_API_ENTRIES :: nat where "COMPAT_MAX_API_ENTRIES = 64"

text \<open>The registered entries in order; the counter of the code is their number.\<close>

record compat_api_entry =
  api_name :: "u8 list"
  api_func :: addr

definition compat_syscall_bridge_init :: "compat_api_entry list" where
  "compat_syscall_bridge_init = []"

definition compat_syscall_bridge_register :: "u8 list option \<Rightarrow> addr \<Rightarrow> compat_api_entry list \<Rightarrow> int \<times> compat_api_entry list" where
  "compat_syscall_bridge_register name func t =
     (case name of None \<Rightarrow> (-1, t)
      | Some n \<Rightarrow> if func = 0 \<or> length t \<ge> COMPAT_MAX_API_ENTRIES then (-1, t) else (0, t @ [\<lparr>api_name = n, api_func = func\<rparr>]))"

definition opt_str :: "addr \<Rightarrow> win32 \<Rightarrow> u8 list option res" where
  "opt_str p s = (if p = 0 then Inr None else rbind (w32_str p s) (\<lambda>x. Inr (Some x)))"

text \<open>\<open>call\<close> is the code of a registered function and \<open>tick\<close> the timer of \<open>Sleep\<close>.\<close>

definition compat_call_api_by_name :: "(addr \<Rightarrow> u64 \<Rightarrow> u64 \<Rightarrow> u64 \<Rightarrow> u64 \<Rightarrow> win32 \<Rightarrow> (u64 \<times> win32) res) \<Rightarrow> (nat \<Rightarrow> u64) \<Rightarrow> compat_api_entry list \<Rightarrow>
    u8 list option \<Rightarrow> u64 \<Rightarrow> u64 \<Rightarrow> u64 \<Rightarrow> u64 \<Rightarrow> win32 \<Rightarrow> (u64 \<times> win32) res" where
  "compat_call_api_by_name call tick t name a1 a2 a3 a4 s =
     (case name of None \<Rightarrow> Inr (-1, s)
      | Some n \<Rightarrow>
        case first_idx (\<lambda>e. api_name e = n) t of Some i \<Rightarrow> call (api_func (t ! i)) a1 a2 a3 a4 s
        | None \<Rightarrow>
          if n = cstr ''GetTickCount'' then (case w32_GetTickCount s of (r, s1) \<Rightarrow> Inr (ucast r, s1))
          else if n = cstr ''GetCurrentProcess'' then Inr (w32_GetCurrentProcess s)
          else if n = cstr ''GetCurrentThread'' then Inr (w32_GetCurrentThread s)
          else if n = cstr ''GetLastError'' then Inr (ucast (w32_GetLastError s), s)
          else if n = cstr ''GetProcessHeap'' then Inr (w32_GetProcessHeap s)
          else if n = cstr ''SetLastError'' then Inr (0, w32_SetLastError (ucast a1) s)
          else if n = cstr ''Sleep'' then Inr (0, snd (w32_Sleep tick (ucast a1) s))
          else if n = cstr ''DebugBreak'' then rbind (w32_DebugBreak s) (\<lambda>(_, s1). Inr (0, s1))
          else if n = cstr ''WaitForSingleObject'' then (case w32_WaitForSingleObject a1 (ucast a2) s of (r, s1) \<Rightarrow> Inr (ucast r, s1))
          else if n = cstr ''MessageBoxA'' then
            rbind (opt_str a2 s) (\<lambda>x. rbind (opt_str a3 s) (\<lambda>c. rbind (w32_MessageBoxA a1 x c (ucast a4) s) (\<lambda>(r, s1). Inr (ret r, s1))))
          else Inr (-1, s))"

section \<open>Properties\<close>

lemma sleep_loop_spec:
  "sleep_loop tick start needed guard n \<le> n + unat guard \<and> n \<le> sleep_loop tick start needed guard n \<and>
   (\<forall>k. n \<le> k \<and> k < sleep_loop tick start needed guard n \<longrightarrow> tick k - start < needed) \<and>
   (tick (sleep_loop tick start needed guard n) - start < needed \<longrightarrow> sleep_loop tick start needed guard n = n + unat guard)"
proof (induction tick start needed guard n rule: sleep_loop.induct)
  case (1 tick start needed guard n)
  show ?case
  proof (cases "tick n - start < needed \<and> guard \<noteq> 0")
    case True
    then have e: "sleep_loop tick start needed guard n = sleep_loop tick start needed (guard - 1) (Suc n)"
      by (subst sleep_loop.simps) simp
    have u: "unat guard = Suc (unat (guard - 1))" using True by (simp add: unat_minus_one unat_gt_0 Suc_diff_Suc)
    note ih = 1 [OF conjunct1 [OF True] conjunct2 [OF True]]
    have "tick k - start < needed" if "n \<le> k \<and> k < sleep_loop tick start needed (guard - 1) (Suc n)" for k
      using that True ih by (cases "k = n") auto
    then show ?thesis using ih unfolding e u by auto
  next
    case False
    then have "sleep_loop tick start needed guard n = n" by (subst sleep_loop.simps) auto
    then show ?thesis using False by auto
  qed
qed

text \<open>
  \<open>Sleep\<close> always returns: even when the timer stands still, the loop ends after at most
  \<open>ms * 20000 + 50001\<close> readings of the timer, and it ends earlier exactly at the first reading that shows
  \<open>ms div 10 + 1\<close> ticks.
\<close>

theorem w32_Sleep_returns:
  "fst (w32_Sleep tick ms s) \<le> 1 + unat ms * 20000 + 50000 \<and>
   (\<forall>k. 1 \<le> k \<and> k < fst (w32_Sleep tick ms s) \<longrightarrow> unat (tick k - tick 0) < unat ms div 10 + 1) \<and>
   (unat (tick (fst (w32_Sleep tick ms s)) - tick 0) < unat ms div 10 + 1 \<longrightarrow> fst (w32_Sleep tick ms s) = 1 + unat ms * 20000 + 50000)"
proof -
  let ?guard = "ucast ms * 20000 + 50000 :: u64" and ?needed = "ucast (ms div 10 + 1) :: u64"
  have ms: "unat ms < 2 ^ 32" using unsigned_less [of ms, where 'a = nat] by simp
  have m: "unat (ucast ms * 20000 :: u64) = unat ms * 20000"
    using ms by (subst unat_mult_lem [THEN iffD1]) (simp_all add: unat_widen)
  then have g: "unat ?guard = unat ms * 20000 + 50000" using ms by (subst unat_add_small) (simp_all add: m)
  have d: "unat (ms div 10 + 1) = unat ms div 10 + 1"
    using ms by (subst unat_add_small) (auto simp: unat_div intro: le_less_trans [OF add_right_mono [OF div_le_dividend]])
  have n: "unat ?needed = unat ms div 10 + 1" by (simp only: unat_widen d)
  have w: "(x < ?needed) = (unat x < unat ms div 10 + 1)" for x :: u64 by (simp only: word_less_nat_alt n)
  show ?thesis
    using sleep_loop_spec [of tick "tick 0" ?needed ?guard 1] unfolding w g by (simp add: w32_Sleep_def Let_def)
qed

definition win0 :: "kernel \<Rightarrow> win32" where
  "win0 k = \<lparr>w_kernel = k, g_last_error = 0, g_total_calls = 0, g_failed_calls = 0, w_threads = compat_threads_init,
     w_sync = snd (compat_sync_init compat_sync_boot)\<rparr>"

theorem w32_Sleep_returns_witness: "fst (w32_Sleep (\<lambda>_. 7) 5 (win0 kernel0)) = 150001"
  using w32_Sleep_returns [of "\<lambda>_. 7" 5 "win0 kernel0"] by simp

lemma vfs_close_live:
  assumes inv: "vfs_inv v N" and fd: "fd_open fd v"
  obtains t where "vfs_close fd v = Inr (0, t)" "\<not> fd_open fd t" "vfs_inv t N"
proof -
  from vfs_close_inv [OF inv] obtain r t where c: "vfs_close fd v = Inr (r, t)" "vfs_inv t N" by blast
  then obtain s1 where s1: "r = 0" "t = upd_file (nat fd) (\<lambda>_. vfs_file0) s1"
    using fd by (auto simp: vfs_close_def free_fd_def fd_open_def rbind_Inr_iff nat_less_iff)
  have "length (open_files t) = VFS_MAX_OPEN_FILES" using c(2) by (auto simp: vfs_inv_def vfs_core_def fds_ok_def)
  then have "\<not> fd_open fd t" unfolding s1(2) by (auto simp: fd_open_def upd_file_def vfs_file0_def nat_less_iff)
  with that c s1(1) show thesis by blast
qed

text \<open>
  Handles of different kinds are confused: the handle of a thread is its number, and closing it
  with \<open>CloseHandle\<close>, as every program does, closes the file that happens to have that descriptor and
  reports success.
\<close>

theorem thread_handle_closes_file:
  assumes inv: "vfs_inv (kvfs (w_kernel s)) N" and t: "w32_CreateThread call entry param 0 s = (h, s1)" "h \<noteq> INVALID_HANDLE_VALUE"
    and fd: "fd_open (int (unat h)) (kvfs (w_kernel s))"
  shows "\<exists>s2. w32_CloseHandle h s1 = Inr (True, s2) \<and> \<not> fd_open (int (unat h)) (kvfs (w_kernel s2))"
proof -
  have k: "w_kernel s1 = w_kernel s"
    using t by (auto simp: w32_CreateThread_def out32_def log_api_def compat_api_log_call_def split: prod.splits option.splits)
  have u: "unat h < 64" using fd unfolding fd_open_def VFS_MAX_OPEN_FILES_def by linarith
  then have hs: "h \<noteq> 0xFFFF0001" "h \<noteq> 0xFFFF0002" "h = word_of_int (int (unat h))" by auto
  have ia: "int_arg h = int (unat h)" by (subst hs(3), intro int_arg_small) (use u in \<open>simp_all only: of_nat_less_iff [where 'a = int, symmetric]\<close>, simp_all)
  obtain v where v: "vfs_close (int (unat h)) (kvfs (w_kernel s)) = Inr (0, v)" "\<not> fd_open (int (unat h)) v"
    using vfs_close_live [OF inv fd] by blast
  have "sys_close h (w_kernel s) = Inr (0, (w_kernel s)\<lparr>kvfs := v\<rparr>)"
  proof -
    have "\<not> is_pipe_fd (int (unat h))" using u unfolding is_pipe_fd_def by linarith
    then show ?thesis using v(1) by (simp only: sys_close_def ia ret_def) (simp only: if_False rbind_simps prod.case, simp)
  qed
  then have "w32_CloseHandle h s1 = Inr (True, log_api True (s1\<lparr>w_kernel := (w_kernel s)\<lparr>kvfs := v\<rparr>\<rparr>))"
    using t(2) hs by (simp add: w32_CloseHandle_def k)
  then show ?thesis using v(2) by (simp add: log_api_def compat_api_log_call_def)
qed

lemma open_root:
  assumes "lock_free (vfs_lock v)" "root_inode v \<noteq> 0" "current_uid (vsec v) = ROOT_UID" "open_files v = fs @ f # gs" "\<forall>g\<in>set fs. vf_used g" "\<not> vf_used f"
  shows "\<exists>t g. vfs_open (Some [47]) 0 v = Inr (int (length fs), t) \<and> open_files t = fs @ g # gs \<and> vf_used g \<and> root_inode t = root_inode v \<and> vsec t = vsec v"
proof -
  have i: "first_idx (\<lambda>f. \<not> vf_used f) (fs @ f # gs) = Some (length fs)"
    using assms(5,6) by (auto simp: first_idx_Some_iff nth_append)
  show ?thesis using assms(1-4)
    by (simp add: vfs_open_def lookup_path_def security_check_def alloc_fd_def i Let_def upd_file_def upd_inode_def)
qed

lemma vfs_two_open: "\<exists>v. vfs_inv v {0x800010} \<and> fd_open 1 v"
proof -
  have lf: "lock_free (vfs_lock v)" if "vfs_inv v N" for v N using that by (simp add: vfs_inv_def vfs_core_def)
  have root: "root_inode vfs1 \<noteq> 0" "current_uid (vsec vfs1) = ROOT_UID" by (simp_all add: vfs1_simps security_init_def)
  have of1: "open_files vfs1 = [] @ vfs_file0 # vfs_file0 # replicate 62 vfs_file0" by (simp add: vfs1_simps numeral_eq_Suc)
  obtain t g where t: "vfs_open (Some [47]) 0 vfs1 = Inr (0, t)" "open_files t = [] @ g # vfs_file0 # replicate 62 vfs_file0" "vf_used g"
    "root_inode t = root_inode vfs1" "vsec t = vsec vfs1"
    using open_root [OF lf [OF vfs1_inv] root of1] by (auto simp: vfs_file0_def)
  have ti: "vfs_inv t {0x800010}" using vfs_open_inv [OF vfs1_inv, of "Some [47]" 0] t(1) by auto
  have of2: "open_files t = [g] @ vfs_file0 # replicate 62 vfs_file0" using t(2) by simp
  obtain t' g' where t': "vfs_open (Some [47]) 0 t = Inr (1, t')" "open_files t' = [g] @ g' # replicate 62 vfs_file0" "vf_used g'"
    using open_root [OF lf [OF ti] _ _ of2] t(3-5) root by (auto simp: vfs_file0_def)
  have "vfs_inv t' {0x800010}" using vfs_open_inv [OF ti, of "Some [47]" 0] t'(1) by auto
  moreover have "fd_open 1 t'" using t'(2,3) by (simp add: fd_open_def VFS_MAX_OPEN_FILES_def)
  ultimately show ?thesis by blast
qed

theorem thread_handle_closes_file_witness:
  "\<exists>v s1 s2. fd_open 1 v \<and> w32_CreateThread (\<lambda>_ _ g. g) 0x1000 0 0 (win0 (kernel0\<lparr>kvfs := v\<rparr>)) = (1, s1) \<and>
     w32_CloseHandle 1 s1 = Inr (True, s2) \<and> \<not> fd_open 1 (kvfs (w_kernel s2))"
proof -
  obtain v where v: "vfs_inv v {0x800010}" "fd_open 1 v" using vfs_two_open by blast
  let ?s = "win0 (kernel0\<lparr>kvfs := v\<rparr>)"
  have "replicate COMPAT_MAX_THREADS compat_thread0 = compat_thread0 # replicate 31 compat_thread0"
    by (simp add: COMPAT_MAX_THREADS_def numeral_eq_Suc)
  then obtain s1 where t: "w32_CreateThread (\<lambda>_ _ g. g) 0x1000 0 0 ?s = (1, s1)"
    by (simp add: w32_CreateThread_def compat_create_thread_def compat_create_thread_pid_def compat_threads_init_def compat_thread0_def win0_def Let_def)
  have "\<exists>s2. w32_CloseHandle 1 s1 = Inr (True, s2) \<and> \<not> fd_open (int (unat (1 :: u64))) (kvfs (w_kernel s2))"
    using v by (intro thread_handle_closes_file [OF _ t]) (simp_all add: win0_def INVALID_HANDLE_VALUE_def)
  then show ?thesis using v t by auto
qed

text \<open>
  Events do not work: the handle that \<open>CreateEventA\<close> returns belongs to no synchronisation object, so a
  wait on it times out even right after \<open>SetEvent\<close>, unless a thread happens to have that number.
\<close>

theorem event_never_signaled:
  assumes inv: "sync_inv (w_sync s)" and th: "find_thread 0x3001 (w_threads s) = None"
  shows "\<exists>h s1 s2 s3. w32_CreateEventA 0 manual initial 0 s = (h, s1) \<and> w32_SetEvent h s1 = (True, s2) \<and>
     w32_WaitForSingleObject h ms s2 = (WAIT_TIMEOUT, s3)"
proof -
  from inv obtain n where n: "length (g_sync_objs (w_sync s)) = 32" "n \<le> 32" "\<forall>i<32. so_used (g_sync_objs (w_sync s) ! i) \<longleftrightarrow> i < n"
    "\<forall>i<n. so_id (g_sync_objs (w_sync s) ! i) = 0x6000 + of_nat i" by (auto simp: sync_inv_def)
  have ne: "(0x3001 :: u32) \<noteq> 0x6000 + of_nat i" if "i < 32" for i
  proof -
    have "unat (0x6000 + of_nat i :: u32) = 0x6000 + i" using that by (subst unat_add_small) (simp_all add: unsigned_of_nat take_bit_nat_eq_self)
    moreover have "unat (0x3001 :: u32) = 0x3001" by simp
    ultimately have "unat (0x3001 :: u32) \<noteq> unat (0x6000 + of_nat i :: u32)" by linarith
    then show ?thesis by metis
  qed
  have "find_sync 0x3001 (w_sync s) \<noteq> Some i" for i
    using find_sync_iff [OF n, of "0x3001" i] n(2) ne [of i] less_le_trans [of i n 32] by blast
  then have "find_sync 0x3001 (w_sync s) = None" by (metis option.exhaust)
  then show ?thesis using th
    by (simp add: w32_CreateEventA_def w32_SetEvent_def w32_WaitForSingleObject_def compat_wait_for_object_def compat_wait_thread_def
        log_api_def compat_api_log_call_def)
qed

theorem event_never_signaled_witness:
  "\<exists>h s1 s2 s3. w32_CreateEventA 0 True True 0 (win0 kernel0) = (h, s1) \<and> w32_SetEvent h s1 = (True, s2) \<and>
     w32_WaitForSingleObject h 1000 s2 = (WAIT_TIMEOUT, s3)"
proof (rule event_never_signaled)
  show "sync_inv (w_sync (win0 kernel0))"
    by (auto simp: win0_def sync_inv_def compat_sync_init_def compat_sync_boot_def compat_sync_object0_def COMPAT_MAX_SYNC_OBJECTS_def intro!: exI [of _ 0])
  show "find_thread 0x3001 (w_threads (win0 kernel0)) = None"
    by (auto simp: win0_def find_thread_def compat_threads_init_def compat_thread0_def first_idx_None_iff)
qed

end
