(* ===== verification/Gfx.thy ===== *)
theory Gfx
  imports Heap
begin

text \<open>
  Drawing: the surface of \<^verbatim>\<open>src/gui/gfx_backend.c\<close> with its clipping and blending, and the shapes of
  \<^verbatim>\<open>src/gui/gfx_utils.c\<close> built on it. The two buffers are maps from pixel numbers to colours; an access
  outside the allocated \<open>width * height\<close> pixels is \<open>Fault\<close>. Coordinates have type \<open>int\<close>, whose overflow C leaves
  undefined, and are mathematical integers here; division truncates towards zero.
\<close>

section \<open>The surface\<close>

definition GFX_TARGET_WIDTH :: u32 where "GFX_TARGET_WIDTH = 1600"
definition GFX_TARGET_HEIGHT :: u32 where "GFX_TARGET_HEIGHT = 900"
definition MAX_COMPOSITOR_LAYERS :: nat where "MAX_COMPOSITOR_LAYERS = 16"

definition ARGB_A :: "u32 \<Rightarrow> u32" where "ARGB_A c = drop_bit 24 c AND 0xFF"
definition ARGB_R :: "u32 \<Rightarrow> u32" where "ARGB_R c = drop_bit 16 c AND 0xFF"
definition ARGB_G :: "u32 \<Rightarrow> u32" where "ARGB_G c = drop_bit 8 c AND 0xFF"
definition ARGB_B :: "u32 \<Rightarrow> u32" where "ARGB_B c = c AND 0xFF"
definition ARGB :: "u8 \<Rightarrow> u8 \<Rightarrow> u8 \<Rightarrow> u8 \<Rightarrow> u32" where
  "ARGB r g b a = push_bit 24 (ucast a) OR push_bit 16 (ucast r) OR push_bit 8 (ucast g) OR ucast b"

record compositor_layer =
  l_pixels :: "nat \<Rightarrow> u32"
  l_width :: int
  l_height :: int
  has_alpha :: bool

record gfx =
  gs_width :: u32
  gs_height :: u32
  front_buffer :: addr
  back_buffer :: addr
  gs_initialized :: bool
  front_pixels :: "nat \<Rightarrow> u32"
  back_pixels :: "nat \<Rightarrow> u32"
  composite_layers :: "compositor_layer list"
  gheap :: heap

definition n_pixels :: "gfx \<Rightarrow> nat" where
  "n_pixels g = unat (gs_width g) * unat (gs_height g)"

definition blend_channel :: "u8 \<Rightarrow> u8 \<Rightarrow> u8 \<Rightarrow> u8" where
  "blend_channel a fg bg = ucast ((ucast fg * ucast a + ucast bg * (255 - ucast a)) div 255 :: u32)"

definition alpha_blend :: "u32 \<Rightarrow> u32 \<Rightarrow> u32" where
  "alpha_blend fg bg =
     (let a = ucast (ARGB_A fg) :: u8 in
      if a = 255 then fg else if a = 0 then bg
      else ARGB (blend_channel a (ucast (ARGB_R fg)) (ucast (ARGB_R bg))) (blend_channel a (ucast (ARGB_G fg)) (ucast (ARGB_G bg)))
        (blend_channel a (ucast (ARGB_B fg)) (ucast (ARGB_B bg))) 255)"

definition surface_off :: "gfx \<Rightarrow> gfx" where
  "surface_off g = g\<lparr>gs_width := 0, gs_height := 0, front_buffer := 0, back_buffer := 0, gs_initialized := False\<rparr>"

definition gfx_init :: "u32 \<Rightarrow> u32 \<Rightarrow> gfx \<Rightarrow> (int \<times> gfx) res" where
  "gfx_init width0 height0 g =
     (let (width, height) = (if width0 = 0 \<or> height0 = 0 then (GFX_TARGET_WIDTH, GFX_TARGET_HEIGHT) else (width0, height0));
          pixels = ucast width * ucast height :: u64
      in if pixels > 16 * 1024 * 1024 then Inr (-1, g)
         else rbind (kmalloc (pixels * 4) (gheap g)) (\<lambda>(fb, h1). rbind (kmalloc (pixels * 4) h1) (\<lambda>(bb, h2).
           if fb = 0 \<or> bb = 0 then
             rbind (if fb \<noteq> 0 then kfree fb h2 else Inr h2) (\<lambda>h3. rbind (if bb \<noteq> 0 then kfree bb h3 else Inr h3) (\<lambda>h4.
               Inr (-1, surface_off (g\<lparr>gheap := h4\<rparr>))))
           else Inr (0, \<lparr>gs_width = width, gs_height = height, front_buffer = fb, back_buffer = bb, gs_initialized = True,
             front_pixels = (\<lambda>_. 0), back_pixels = (\<lambda>_. 0), composite_layers = [], gheap = h2\<rparr>))))"

definition gfx_shutdown :: "gfx \<Rightarrow> gfx res" where
  "gfx_shutdown g =
     rbind (if front_buffer g \<noteq> 0 then kfree (front_buffer g) (gheap g) else Inr (gheap g)) (\<lambda>h1.
       rbind (if back_buffer g \<noteq> 0 then kfree (back_buffer g) h1 else Inr h1) (\<lambda>h2. Inr (surface_off (g\<lparr>gheap := h2\<rparr>))))"

text \<open>A loop over a list of steps, and one write to the back buffer.\<close>

fun mfold :: "('a \<Rightarrow> 's \<Rightarrow> 's res) \<Rightarrow> 'a list \<Rightarrow> 's \<Rightarrow> 's res" where
  "mfold f [] s = Inr s"
| "mfold f (x # xs) s = rbind (f x s) (mfold f xs)"

definition px_update :: "(u32 \<Rightarrow> u32) \<Rightarrow> nat \<Rightarrow> gfx \<Rightarrow> gfx res" where
  "px_update f i g = (if i < n_pixels g then Inr (g\<lparr>back_pixels := (back_pixels g)(i := f (back_pixels g i))\<rparr>) else Inl Fault)"

definition px_index :: "gfx \<Rightarrow> int \<Rightarrow> int \<Rightarrow> nat" where
  "px_index g x y = unat (word_of_int y * gs_width g + word_of_int x)"

definition gfx_clear :: "u32 \<Rightarrow> gfx \<Rightarrow> gfx res" where
  "gfx_clear color g = (if \<not> gs_initialized g then Inr g else mfold (px_update (\<lambda>_. color)) [0..<n_pixels g] g)"

definition draw_with :: "(u32 \<Rightarrow> u32) \<Rightarrow> int \<Rightarrow> int \<Rightarrow> gfx \<Rightarrow> gfx res" where
  "draw_with f x y g =
     (if \<not> gs_initialized g then Inr g
      else if x < 0 \<or> y < 0 then Inr g
      else if x \<ge> uint (gs_width g) \<or> y \<ge> uint (gs_height g) then Inr g
      else px_update f (px_index g x y) g)"

definition gfx_draw_pixel :: "int \<Rightarrow> int \<Rightarrow> u32 \<Rightarrow> gfx \<Rightarrow> gfx res" where
  "gfx_draw_pixel x y color = draw_with (\<lambda>_. color) x y"

definition gfx_draw_pixel_blend :: "int \<Rightarrow> int \<Rightarrow> u32 \<Rightarrow> gfx \<Rightarrow> gfx res" where
  "gfx_draw_pixel_blend x y color = draw_with (alpha_blend color) x y"

definition fill_with :: "(u32 \<Rightarrow> u32) \<Rightarrow> int \<Rightarrow> int \<Rightarrow> int \<Rightarrow> int \<Rightarrow> gfx \<Rightarrow> gfx res" where
  "fill_with f x y w h g =
     (if \<not> gs_initialized g \<or> w \<le> 0 \<or> h \<le> 0 then Inr g
      else let x0 = (if x < 0 then 0 else x); y0 = (if y < 0 then 0 else y);
               x1 = (if x + w > uint (gs_width g) then uint (gs_width g) else x + w);
               y1 = (if y + h > uint (gs_height g) then uint (gs_height g) else y + h)
           in mfold (\<lambda>yy s. mfold (\<lambda>xx. px_update f (px_index g x0 yy + nat xx)) [0..x1 - x0 - 1] s) [y0..y1 - 1] g)"

definition gfx_fill_rect :: "int \<Rightarrow> int \<Rightarrow> int \<Rightarrow> int \<Rightarrow> u32 \<Rightarrow> gfx \<Rightarrow> gfx res" where
  "gfx_fill_rect x y w h color = fill_with (\<lambda>_. color) x y w h"

definition gfx_fill_rect_blend :: "int \<Rightarrow> int \<Rightarrow> int \<Rightarrow> int \<Rightarrow> u32 \<Rightarrow> gfx \<Rightarrow> gfx res" where
  "gfx_fill_rect_blend x y w h color = fill_with (alpha_blend color) x y w h"

text \<open>Rows are copied upwards from index to index; nothing is clipped.\<close>

definition px_copy :: "nat \<Rightarrow> nat \<Rightarrow> gfx \<Rightarrow> gfx res" where
  "px_copy dst src g = (if src < n_pixels g then px_update (\<lambda>_. back_pixels g src) dst g else Inl Fault)"

definition gfx_copy_rect :: "int \<Rightarrow> int \<Rightarrow> int \<Rightarrow> int \<Rightarrow> int \<Rightarrow> int \<Rightarrow> gfx \<Rightarrow> gfx res" where
  "gfx_copy_rect dx dy sx sy w h g =
     (if \<not> gs_initialized g \<or> w \<le> 0 \<or> h \<le> 0 then Inr g
      else mfold (\<lambda>yy s. mfold (\<lambda>k. px_copy (px_index g dx (dy + yy) + k) (px_index g sx (sy + yy) + k)) [0..<nat w] s) [0..h - 1] g)"

text \<open>The hardware frame buffer, when there is one: its size, its pitch in bytes and its contents.\<close>

record fb =
  fb_initialized :: bool
  fb_base :: addr
  fb_width :: u32
  fb_height :: u32
  fb_pitch :: u32
  fb_bpp :: u32
  fb_pixels :: "nat \<Rightarrow> u32"

definition gfx_swap_buffers :: "gfx \<Rightarrow> fb \<Rightarrow> gfx \<times> fb" where
  "gfx_swap_buffers g b =
     (if \<not> gs_initialized g then (g, b)
      else let g1 = g\<lparr>front_pixels := (\<lambda>i. if i < n_pixels g then back_pixels g i else front_pixels g i)\<rparr> in
        if \<not> fb_initialized b \<or> fb_base b = 0 \<or> fb_bpp b \<noteq> 32 then (g1, b)
        else let copy_w = min (gs_width g) (fb_width b); copy_h = min (gs_height g) (fb_height b); stride = fb_pitch b div 4
             in (g1, b\<lparr>fb_pixels := fold (\<lambda>y. fold (\<lambda>x m. m(unat (of_nat y * stride) + x := front_pixels g1 (unat (of_nat y * gs_width g) + x)))
                  [0..<unat copy_w]) [0..<unat copy_h] (fb_pixels b)\<rparr>))"

definition gfx_compositor_begin :: "gfx \<Rightarrow> int \<times> gfx" where
  "gfx_compositor_begin g = (0, g\<lparr>composite_layers := []\<rparr>)"

definition gfx_compositor_add_layer :: "(nat \<Rightarrow> u32) \<Rightarrow> int \<Rightarrow> int \<Rightarrow> bool \<Rightarrow> gfx \<Rightarrow> int \<times> gfx" where
  "gfx_compositor_add_layer pixels width height alpha g =
     (if length (composite_layers g) \<ge> MAX_COMPOSITOR_LAYERS then (-1, g)
      else (int (length (composite_layers g)),
        g\<lparr>composite_layers := composite_layers g @ [\<lparr>l_pixels = pixels, l_width = width, l_height = height, has_alpha = alpha\<rparr>]\<rparr>))"

definition composite_pixel :: "compositor_layer \<Rightarrow> int \<Rightarrow> int \<Rightarrow> gfx \<Rightarrow> gfx res" where
  "composite_pixel l y x g =
     (let fg = l_pixels l (unat (word_of_int y * word_of_int (l_width l) + word_of_int x :: u32)) in
      if has_alpha l then gfx_draw_pixel_blend x y fg g
      else if ARGB_A fg > 0 then gfx_draw_pixel x y fg g else Inr g)"

definition gfx_compositor_composite :: "gfx \<Rightarrow> gfx res" where
  "gfx_compositor_composite g =
     (if \<not> gs_initialized g \<or> composite_layers g = [] then Inr g
      else mfold (\<lambda>l s.
        let cw = (if l_width l < uint (gs_width g) then l_width l else uint (gs_width g));
            ch = (if l_height l < uint (gs_height g) then l_height l else uint (gs_height g))
        in mfold (\<lambda>y. mfold (composite_pixel l y) [0..cw - 1]) [0..ch - 1] s) (composite_layers g) g)"

definition gfx_get_width :: "gfx \<Rightarrow> u32" where "gfx_get_width g = gs_width g"
definition gfx_get_height :: "gfx \<Rightarrow> u32" where "gfx_get_height g = gs_height g"

section \<open>Shapes\<close>

definition cdiv :: "int \<Rightarrow> int \<Rightarrow> int" where
  "cdiv a b = sgn a * sgn b * (\<bar>a\<bar> div \<bar>b\<bar>)"

text \<open>\<open>f1; f2\<close>.\<close>

definition seq :: "('s \<Rightarrow> 's res) \<Rightarrow> ('s \<Rightarrow> 's res) \<Rightarrow> 's \<Rightarrow> 's res" where
  "seq f1 f2 s = rbind (f1 s) f2"

definition clamp_radius :: "int \<Rightarrow> int \<Rightarrow> int \<Rightarrow> int" where
  "clamp_radius radius w h =
     (let r = (if radius > cdiv w 2 then cdiv w 2 else radius) in if r > cdiv h 2 then cdiv h 2 else r)"

definition line_len :: "int \<Rightarrow> int \<Rightarrow> int" where
  "line_len radius py = fold (\<lambda>px l. if px * px + py * py \<le> radius * radius then px + 1 else l) [0..radius - 1] 0"

text \<open>The rounded rectangle with the operations for rectangles and for single pixels.\<close>

definition rounded_with :: "(int \<Rightarrow> int \<Rightarrow> int \<Rightarrow> int \<Rightarrow> gfx \<Rightarrow> gfx res) \<Rightarrow> (int \<Rightarrow> int \<Rightarrow> gfx \<Rightarrow> gfx res) \<Rightarrow> int \<Rightarrow> int \<Rightarrow> int \<Rightarrow> int \<Rightarrow> int \<Rightarrow> gfx \<Rightarrow> gfx res" where
  "rounded_with fill dot x y w h r =
     seq (fill (x + r) y (w - 2 * r) h)
     (seq (fill x (y + r) r (h - 2 * r))
     (seq (fill (x + w - r) (y + r) r (h - 2 * r))
     (seq (mfold (\<lambda>py. let l = line_len r py in if l > 0 then seq (fill x (y + py) l 1) (fill (x + w - l) (y + h - py - 1) l 1) else Inr) [0..r - 1])
          (mfold (\<lambda>py. case find (\<lambda>px. px * px + py * py \<le> r * r) [0..r - 1] of
             Some px \<Rightarrow> seq (dot (x + w - px - 1) (y + py)) (dot (x + px) (y + h - py - 1)) | None \<Rightarrow> Inr) [0..r - 1]))))"

definition gfx_fill_rect_rounded :: "int \<Rightarrow> int \<Rightarrow> int \<Rightarrow> int \<Rightarrow> int \<Rightarrow> u32 \<Rightarrow> gfx \<Rightarrow> gfx res" where
  "gfx_fill_rect_rounded x y w h radius color =
     (if radius \<le> 0 then gfx_fill_rect x y w h color
      else rounded_with (\<lambda>x y w h. gfx_fill_rect x y w h color) (\<lambda>x y. gfx_fill_rect x y 1 1 color) x y w h (clamp_radius radius w h))"

definition gfx_fill_rect_rounded_blend :: "int \<Rightarrow> int \<Rightarrow> int \<Rightarrow> int \<Rightarrow> int \<Rightarrow> u32 \<Rightarrow> gfx \<Rightarrow> gfx res" where
  "gfx_fill_rect_rounded_blend x y w h radius color =
     (if ARGB_A color = 255 then gfx_fill_rect_rounded x y w h radius color
      else if radius \<le> 0 then gfx_fill_rect_blend x y w h color
      else rounded_with (\<lambda>x y w h. gfx_fill_rect_blend x y w h color) (\<lambda>x y. gfx_draw_pixel_blend x y color) x y w h (clamp_radius radius w h))"

definition stroke_corner :: "int \<Rightarrow> int \<Rightarrow> int \<Rightarrow> int \<Rightarrow> int \<Rightarrow> u32 \<Rightarrow> int \<Rightarrow> int \<Rightarrow> gfx \<Rightarrow> gfx res" where
  "stroke_corner x y w h r color dx dy =
     seq (gfx_draw_pixel (x + r - 1 - dx) (y + r - 1 - dy) color)
     (seq (gfx_draw_pixel (x + w - r + dx) (y + r - 1 - dy) color)
     (seq (gfx_draw_pixel (x + r - 1 - dx) (y + h - r + dy) color)
          (gfx_draw_pixel (x + w - r + dx) (y + h - r + dy) color)))"

definition gfx_stroke_rect_rounded :: "int \<Rightarrow> int \<Rightarrow> int \<Rightarrow> int \<Rightarrow> int \<Rightarrow> int \<Rightarrow> u32 \<Rightarrow> gfx \<Rightarrow> gfx res" where
  "gfx_stroke_rect_rounded x y w h radius thickness color =
     (if thickness \<le> 0 then Inr
      else if radius \<le> 0 then
        mfold (\<lambda>t. seq (gfx_fill_rect (x + t) (y + t) (w - 2 * t) 1 color)
          (seq (gfx_fill_rect (x + t) (y + h - 1 - t) (w - 2 * t) 1 color)
          (seq (gfx_fill_rect (x + t) (y + t) 1 (h - 2 * t) color)
               (gfx_fill_rect (x + w - 1 - t) (y + t) 1 (h - 2 * t) color)))) [0..thickness - 1]
      else let r = clamp_radius radius w h in
        seq (gfx_fill_rect (x + r) y (w - 2 * r) thickness color)
        (seq (gfx_fill_rect (x + r) (y + h - thickness) (w - 2 * r) thickness color)
        (seq (gfx_fill_rect x (y + r) thickness (h - 2 * r) color)
        (seq (gfx_fill_rect (x + w - thickness) (y + r) thickness (h - 2 * r) color)
          (mfold (\<lambda>t. let cur = r - t in
             if cur \<le> 0 then Inr
             else mfold (\<lambda>dy. case find (\<lambda>dx. dx * dx + dy * dy < cur * cur) [0..cur - 1] of
               Some dx \<Rightarrow> stroke_corner x y w h r color dx dy | None \<Rightarrow> Inr) [0..cur - 1]) [0..thickness - 1])))))"

definition gfx_draw_shadow :: "int \<Rightarrow> int \<Rightarrow> int \<Rightarrow> int \<Rightarrow> int \<Rightarrow> u32 \<Rightarrow> int \<Rightarrow> gfx \<Rightarrow> gfx res" where
  "gfx_draw_shadow x y w h blur0 shadow_color opacity0 =
     (let opacity = (if opacity0 > 255 then 255 else if opacity0 < 0 then 0 else opacity0);
          blur = (if blur0 \<le> 0 then 1 else blur0)
      in mfold (\<lambda>i. let cur = word_of_int (cdiv (opacity * (blur - i + 1)) (blur * 2)) :: u8;
                        c = (shadow_color AND 0x00FFFFFF) OR push_bit 24 (ucast cur)
           in if cur < 5 then Inr
              else seq (gfx_fill_rect_blend (x + w + i - 1) (y + i) 1 (h - i + 1) c)
                (seq (gfx_fill_rect_blend (x + i) (y + h + i - 1) (w - i + 1) 1 c)
                     (gfx_draw_pixel_blend (x + w + i - 1) (y + h + i - 1) c))) (rev [1..blur]))"

definition gfx_draw_line :: "int \<Rightarrow> int \<Rightarrow> int \<Rightarrow> int \<Rightarrow> u32 \<Rightarrow> int \<Rightarrow> gfx \<Rightarrow> gfx res" where
  "gfx_draw_line x1 y1 x2 y2 color thickness =
     (if thickness \<le> 0 then Inr
      else let dx = x2 - x1; dy = y2 - y1; steps0 = (if dx > dy then dx else dy); steps = (if steps0 < 0 then - steps0 else steps0)
           in if steps = 0 then gfx_fill_rect x1 y1 thickness thickness color
              else mfold (\<lambda>i. gfx_fill_rect (x1 + cdiv (dx * i) steps) (y1 + cdiv (dy * i) steps) thickness thickness color) [0..steps])"

text \<open>A row of the circle: the inner loops over \<open>x\<close> and over the end of a run.\<close>

function run_end :: "int \<Rightarrow> int \<Rightarrow> int \<Rightarrow> int" where
  "run_end r y e = (if e \<le> r \<and> e * e + y * y \<le> r * r then run_end r y (e + 1) else e)"
  by pat_completeness auto
termination by (relation "measure (\<lambda>(r, y, e). nat (r + 1 - e))") auto

declare run_end.simps [simp del]

lemma run_end_ge: "e \<le> run_end r y e"
  by (induction r y e rule: run_end.induct) (subst run_end.simps, auto)

lemma run_end_less: "- run_end r y x < 1 - x"
  using run_end_ge [of x r y] by linarith

function circle_row :: "int \<Rightarrow> int \<Rightarrow> int \<Rightarrow> u32 \<Rightarrow> int \<Rightarrow> int \<Rightarrow> gfx \<Rightarrow> gfx res" where
  "circle_row cx cy r color y x g =
     (if x \<le> r then
        (if x * x + y * y \<le> r * r then
           rbind (gfx_fill_rect (cx + x) (cy + y) (run_end r y x - x) 1 color g) (circle_row cx cy r color y (run_end r y x + 1))
         else circle_row cx cy r color y (x + 1) g)
      else Inr g)"
  by pat_completeness auto
termination
  by (relation "measure (\<lambda>(cx, cy, r, color, y, x, g). nat (r + 1 - x))") 
    (auto simp: run_end_less)

declare circle_row.simps [simp del]

definition gfx_fill_circle :: "int \<Rightarrow> int \<Rightarrow> int \<Rightarrow> u32 \<Rightarrow> gfx \<Rightarrow> gfx res" where
  "gfx_fill_circle cx cy radius color = mfold (\<lambda>y. circle_row cx cy radius color y (- radius)) [- radius..radius]"

definition gfx_stroke_circle :: "int \<Rightarrow> int \<Rightarrow> int \<Rightarrow> int \<Rightarrow> u32 \<Rightarrow> gfx \<Rightarrow> gfx res" where
  "gfx_stroke_circle cx cy radius thickness color =
     mfold (\<lambda>t. let r = radius - t in
       mfold (\<lambda>y. mfold (\<lambda>x. if (r - 1) * (r - 1) \<le> x * x + y * y \<and> x * x + y * y \<le> r * r then gfx_draw_pixel (cx + x) (cy + y) color else Inr)
         [- r..r]) [- r..r]) [0..thickness - 1]"

definition gfx_pixel_blend :: "int \<Rightarrow> int \<Rightarrow> u32 \<Rightarrow> u8 \<Rightarrow> gfx \<Rightarrow> gfx res" where
  "gfx_pixel_blend x y color alpha =
     (if alpha = 255 then gfx_draw_pixel x y color
      else if alpha > 0 then gfx_draw_pixel_blend x y ((color AND 0x00FFFFFF) OR push_bit 24 (ucast alpha))
      else Inr)"

definition gfx_draw_window :: "int \<Rightarrow> int \<Rightarrow> int \<Rightarrow> int \<Rightarrow> u32 \<Rightarrow> u32 \<Rightarrow> int \<Rightarrow> gfx \<Rightarrow> gfx res" where
  "gfx_draw_window x y w h bg_color shadow_color corner_radius =
     seq (gfx_draw_shadow x y w h 8 shadow_color 80)
     (seq (gfx_fill_rect_rounded_blend x y w h corner_radius bg_color)
          (gfx_stroke_rect_rounded x y w h corner_radius 1 shadow_color))"

section \<open>Clipping\<close>

definition surface_ok :: "gfx \<Rightarrow> bool" where
  "surface_ok g \<longleftrightarrow> gs_initialized g \<and> n_pixels g \<le> 2 ^ 24 \<and> 0 < unat (gs_width g) \<and> 0 < unat (gs_height g)"

definition on_surface :: "gfx \<Rightarrow> int \<Rightarrow> int \<Rightarrow> bool" where
  "on_surface g x y \<longleftrightarrow> 0 \<le> x \<and> x < uint (gs_width g) \<and> 0 \<le> y \<and> y < uint (gs_height g)"

definition pixel :: "gfx \<Rightarrow> int \<Rightarrow> int \<Rightarrow> u32" where
  "pixel g x y = back_pixels g (nat y * unat (gs_width g) + nat x)"

text \<open>What a drawing call may change: the pixels of the back buffer, and of these only those in a region.\<close>

definition paints :: "(u32 \<Rightarrow> u32) \<Rightarrow> (int \<Rightarrow> int \<Rightarrow> bool) \<Rightarrow> (gfx \<Rightarrow> gfx res) \<Rightarrow> bool" where
  "paints f R op \<longleftrightarrow> (\<forall>g. surface_ok g \<longrightarrow> (\<exists>m. op g = Inr (g\<lparr>back_pixels := m\<rparr>) \<and>
     (\<forall>x y. on_surface g x y \<longrightarrow> pixel (g\<lparr>back_pixels := m\<rparr>) x y = (if R x y then f (pixel g x y) else pixel g x y))))"

lemma px_index_eq:
  assumes "surface_ok g" "on_surface g x y"
  shows "px_index g x y = nat y * unat (gs_width g) + nat x" "nat y * unat (gs_width g) + nat x < n_pixels g"
proof -
  let ?w = "unat (gs_width g)" and ?h = "unat (gs_height g)"
  have xy: "nat x < ?w" "nat y < ?h" "0 \<le> x" "0 \<le> y" using assms(2) by (auto simp: on_surface_def nat_less_iff)
  have "nat y * ?w + nat x < nat y * ?w + ?w" using xy by simp
  also have "\<dots> \<le> ?h * ?w" using xy(2) mult_le_mono1 [of "Suc (nat y)" ?h ?w] by simp
  finally show lt: "nat y * ?w + nat x < n_pixels g" by (simp add: n_pixels_def mult.commute)
  then have small: "nat y * ?w + nat x < 2 ^ 32" using assms(1) by (simp add: surface_ok_def)
  have e: "word_of_int y * gs_width g + word_of_int x = (of_nat (nat y * ?w + nat x) :: u32)"
    using xy by (simp add: of_nat_nat)
  show "px_index g x y = nat y * ?w + nat x" unfolding px_index_def e by (rule unat_of_nat_small) (use small in simp)
qed

lemma px_inj:
  assumes "on_surface g x y" "on_surface g x' y'" "nat y * unat (gs_width g) + nat x = nat y' * unat (gs_width g) + nat x'"
  shows "x = x' \<and> y = y'"
proof -
  let ?w = "unat (gs_width g)"
  have xy: "nat x < ?w" "nat x' < ?w" "0 \<le> x" "0 \<le> y" "0 \<le> x'" "0 \<le> y'" using assms(1,2) by (auto simp: on_surface_def nat_less_iff)
  have "nat x = (nat y * ?w + nat x) mod ?w" "nat x' = (nat y' * ?w + nat x') mod ?w" using xy(1,2) by simp_all
  then have "nat x = nat x'" using assms(3) by simp
  moreover from this have "nat y * ?w = nat y' * ?w" using assms(3) by simp
  then have "nat y = nat y'" using xy(1) by (auto simp del: mult_cancel2 simp: mult_right_cancel)
  ultimately show ?thesis using xy by (simp add: eq_nat_nat_iff)
qed

lemma back_simps [simp]:
  "n_pixels (g\<lparr>back_pixels := m\<rparr>) = n_pixels g" "surface_ok (g\<lparr>back_pixels := m\<rparr>) = surface_ok g"
  "on_surface (g\<lparr>back_pixels := m\<rparr>) = on_surface g" "px_index (g\<lparr>back_pixels := m\<rparr>) = px_index g"
  by (simp_all add: n_pixels_def surface_ok_def on_surface_def px_index_def fun_eq_iff)

lemma mfold_append: "mfold f (xs @ ys) s = rbind (mfold f xs s) (mfold f ys)"
  by (induction xs arbitrary: s) (auto simp: rbind_def split: sum.splits)

lemma mfold_mfold: "mfold (\<lambda>y s. mfold (f y) (xs y) s) ys s = mfold (\<lambda>(y, x). f y x) (concat (map (\<lambda>y. map (Pair y) (xs y)) ys)) s"
proof (induction ys arbitrary: s)
  case (Cons y ys)
  have m: "mfold (\<lambda>(y, x). f y x) (map (Pair y) zs) s = mfold (f y) zs s" for zs s
    by (induction zs arbitrary: s) (auto simp: rbind_def split: sum.splits)
  from Cons show ?case by (simp add: mfold_append m rbind_def split: sum.splits)
qed simp

lemma mfold_px:
  assumes "distinct (map idx ks)" "\<forall>k\<in>set ks. idx k < n_pixels g"
  shows "mfold (\<lambda>k. px_update f (idx k)) ks g = Inr (g\<lparr>back_pixels := (\<lambda>i. if i \<in> idx ` set ks then f (back_pixels g i) else back_pixels g i)\<rparr>)"
  using assms
proof (induction ks arbitrary: g)
  case (Cons k ks)
  let ?g = "g\<lparr>back_pixels := (back_pixels g)(idx k := f (back_pixels g (idx k)))\<rparr>"
  have "mfold (\<lambda>k. px_update f (idx k)) ks ?g = Inr (?g\<lparr>back_pixels := (\<lambda>i. if i \<in> idx ` set ks then f (back_pixels ?g i) else back_pixels ?g i)\<rparr>)"
    using Cons.prems by (intro Cons.IH) auto
  moreover have "(\<lambda>i. if i \<in> idx ` set ks then f (back_pixels ?g i) else back_pixels ?g i) =
      (\<lambda>i. if i \<in> idx ` set (k # ks) then f (back_pixels g i) else back_pixels g i)"
    using Cons.prems(1) by (auto simp: fun_eq_iff)
  moreover have "px_update f (idx k) g = Inr ?g" using Cons.prems(2) by (simp add: px_update_def)
  ultimately show ?case by simp
qed simp

lemma paints_draw: "paints f (\<lambda>px py. px = x \<and> py = y) (draw_with f x y)"
  unfolding paints_def
proof (intro allI impI)
  fix g assume g: "surface_ok g"
  show "\<exists>m. draw_with f x y g = Inr (g\<lparr>back_pixels := m\<rparr>) \<and> (\<forall>px py. on_surface g px py \<longrightarrow>
      pixel (g\<lparr>back_pixels := m\<rparr>) px py = (if px = x \<and> py = y then f (pixel g px py) else pixel g px py))"
  proof (cases "on_surface g x y")
    case True
    let ?i = "nat y * unat (gs_width g) + nat x"
    have "draw_with f x y g = Inr (g\<lparr>back_pixels := (back_pixels g)(?i := f (back_pixels g ?i))\<rparr>)"
      using True g px_index_eq [OF g True] by (simp add: draw_with_def px_update_def on_surface_def surface_ok_def not_le)
    moreover have "pixel (g\<lparr>back_pixels := (back_pixels g)(?i := f (back_pixels g ?i))\<rparr>) px py = (if px = x \<and> py = y then f (pixel g px py) else pixel g px py)"
      if "on_surface g px py" for px py
      using px_inj [OF that True] by (auto simp: pixel_def)
    ultimately show ?thesis by blast
  next
    case False
    then have "draw_with f x y g = Inr (g\<lparr>back_pixels := back_pixels g\<rparr>)" by (auto simp: draw_with_def on_surface_def)
    with False show ?thesis by (intro exI [of _ "back_pixels g"]) auto
  qed
qed

definition rect_list :: "int \<Rightarrow> int \<Rightarrow> int \<Rightarrow> (int \<times> int) list" where
  "rect_list a c d = concat (map (\<lambda>yy. map (Pair yy) [0..a]) [c..d])"

lemma rect_list_facts: "(yy, xx) \<in> set (rect_list a c d) \<longleftrightarrow> c \<le> yy \<and> yy \<le> d \<and> 0 \<le> xx \<and> xx \<le> a" "distinct (rect_list a c d)"
proof -
  have "rect_list a c d = List.product [c..d] [0..a]" by (simp add: rect_list_def product_concat_map)
  then show "(yy, xx) \<in> set (rect_list a c d) \<longleftrightarrow> c \<le> yy \<and> yy \<le> d \<and> 0 \<le> xx \<and> xx \<le> a" "distinct (rect_list a c d)"
    by (auto simp: distinct_product)
qed

lemma rect_paint:
  assumes g: "surface_ok g" and b: "0 \<le> x0" "0 \<le> y0" "x1 \<le> uint (gs_width g)" "y1 \<le> uint (gs_height g)"
  shows "\<exists>m. mfold (\<lambda>yy s. mfold (\<lambda>xx. px_update f (px_index g x0 yy + nat xx)) [0..x1 - x0 - 1] s) [y0..y1 - 1] g = Inr (g\<lparr>back_pixels := m\<rparr>) \<and>
    (\<forall>px py. on_surface g px py \<longrightarrow> pixel (g\<lparr>back_pixels := m\<rparr>) px py =
       (if x0 \<le> px \<and> px < x1 \<and> y0 \<le> py \<and> py < y1 then f (pixel g px py) else pixel g px py))"
proof -
  let ?ks = "rect_list (x1 - x0 - 1) y0 (y1 - 1)"
  let ?idx = "\<lambda>k. px_index g x0 (fst k) + nat (snd k)"
  let ?lin = "\<lambda>k. nat (fst k) * unat (gs_width g) + nat (x0 + snd k)"
  note ks = rect_list_facts(1) [of _ _ "x1 - x0 - 1" y0 "y1 - 1"]
  have on: "on_surface g (x0 + snd k) (fst k)" "on_surface g x0 (fst k)" "0 \<le> snd k" if "k \<in> set ?ks" for k
    using that ks [of "fst k" "snd k"] b by (auto simp: on_surface_def)
  have idx: "?idx k = ?lin k" if "k \<in> set ?ks" for k
    using px_index_eq(1) [OF g on(2) [OF that]] on(3) [OF that] b(1) by (simp add: nat_add_distrib)
  have inj: "k = l" if "k \<in> set ?ks" "l \<in> set ?ks" "?idx k = ?idx l" for k l
    using px_inj [OF on(1) on(1), OF that(1,2)] that(3) idx [OF that(1)] idx [OF that(2)] by (simp add: prod_eq_iff)
  have d: "distinct (map ?idx ?ks)" using rect_list_facts(2) inj by (auto simp: distinct_map inj_on_def)
  have bd: "\<forall>k\<in>set ?ks. ?idx k < n_pixels g" using px_index_eq(2) [OF g on(1)] idx by simp
  let ?m = "\<lambda>i. if i \<in> ?idx ` set ?ks then f (back_pixels g i) else back_pixels g i"
  have run: "mfold (\<lambda>yy s. mfold (\<lambda>xx. px_update f (px_index g x0 yy + nat xx)) [0..x1 - x0 - 1] s) [y0..y1 - 1] g = Inr (g\<lparr>back_pixels := ?m\<rparr>)"
    using mfold_px [OF d bd, of f] by (simp add: mfold_mfold rect_list_def case_prod_unfold)
  have "nat py * unat (gs_width g) + nat px \<in> ?idx ` set ?ks \<longleftrightarrow> x0 \<le> px \<and> px < x1 \<and> y0 \<le> py \<and> py < y1" if p: "on_surface g px py" for px py
  proof
    assume "nat py * unat (gs_width g) + nat px \<in> ?idx ` set ?ks"
    then obtain k where k: "k \<in> set ?ks" "nat py * unat (gs_width g) + nat px = ?lin k" using idx by auto
    from px_inj [OF p on(1) [OF k(1)] k(2)] ks [of "fst k" "snd k"] k(1) show "x0 \<le> px \<and> px < x1 \<and> y0 \<le> py \<and> py < y1" by auto
  next
    assume r: "x0 \<le> px \<and> px < x1 \<and> y0 \<le> py \<and> py < y1"
    then have k: "(py, px - x0) \<in> set ?ks" unfolding ks by auto
    from imageI [OF k, of ?idx] show "nat py * unat (gs_width g) + nat px \<in> ?idx ` set ?ks" unfolding idx [OF k] by simp
  qed
  then show ?thesis using run by (intro exI [of _ ?m]) (auto simp: pixel_def)
qed

lemma paints_fill: "paints f (\<lambda>px py. x \<le> px \<and> px < x + w \<and> y \<le> py \<and> py < y + h) (fill_with f x y w h)"
  unfolding paints_def
proof (intro allI impI)
  fix g assume g: "surface_ok g"
  let ?R = "\<lambda>px py. x \<le> px \<and> px < x + w \<and> y \<le> py \<and> py < y + h"
  define x0 where "x0 = (if x < 0 then 0 else x)"
  define y0 where "y0 = (if y < 0 then 0 else y)"
  define x1 where "x1 = (if x + w > uint (gs_width g) then uint (gs_width g) else x + w)"
  define y1 where "y1 = (if y + h > uint (gs_height g) then uint (gs_height g) else y + h)"
  show "\<exists>m. fill_with f x y w h g = Inr (g\<lparr>back_pixels := m\<rparr>) \<and> (\<forall>px py. on_surface g px py \<longrightarrow>
      pixel (g\<lparr>back_pixels := m\<rparr>) px py = (if ?R px py then f (pixel g px py) else pixel g px py))"
  proof (cases "w \<le> 0 \<or> h \<le> 0")
    case True
    then show ?thesis by (intro exI [of _ "back_pixels g"]) (auto simp: fill_with_def)
  next
    case False
    have "fill_with f x y w h g = mfold (\<lambda>yy s. mfold (\<lambda>xx. px_update f (px_index g x0 yy + nat xx)) [0..x1 - x0 - 1] s) [y0..y1 - 1] g"
      using False g by (simp add: fill_with_def surface_ok_def Let_def x0_def y0_def x1_def y1_def)
    moreover have "x0 \<le> px \<and> px < x1 \<and> y0 \<le> py \<and> py < y1 \<longleftrightarrow> ?R px py" if "on_surface g px py" for px py
      using that by (auto simp: on_surface_def x0_def y0_def x1_def y1_def)
    ultimately show ?thesis using rect_paint [OF g, of x0 y0 x1 y1 f] by (simp add: x0_def y0_def x1_def y1_def)
  qed
qed

section \<open>Shapes are made of clipped rectangles\<close>

text \<open>Drawing calls that change nothing but pixels, whatever pixels these are.\<close>

definition draws :: "(gfx \<Rightarrow> gfx res) \<Rightarrow> bool" where
  "draws op \<longleftrightarrow> (\<forall>g. surface_ok g \<longrightarrow> (\<exists>m. op g = Inr (g\<lparr>back_pixels := m\<rparr>)))"

lemma draws_paints: "paints f R op \<Longrightarrow> draws op"
  by (auto simp: paints_def draws_def)

lemma draws_Inr [intro]: "draws Inr"
  unfolding draws_def
proof (intro allI impI)
  show "\<exists>m. Inr g = Inr (g\<lparr>back_pixels := m\<rparr>)" for g :: gfx by (rule exI [of _ "back_pixels g"]) simp
qed

lemma drawsE: "draws op \<Longrightarrow> surface_ok g \<Longrightarrow> \<exists>m. op g = Inr (g\<lparr>back_pixels := m\<rparr>)"
  by (simp add: draws_def)

lemma draws_bind:
  assumes "draws f1" "draws f2" "surface_ok g"
  shows "\<exists>m. rbind (f1 g) f2 = Inr (g\<lparr>back_pixels := m\<rparr>)"
proof -
  obtain m1 where 1: "f1 g = Inr (g\<lparr>back_pixels := m1\<rparr>)" using drawsE [OF assms(1,3)] by blast
  obtain m2 where "f2 (g\<lparr>back_pixels := m1\<rparr>) = Inr (g\<lparr>back_pixels := m1\<rparr>\<lparr>back_pixels := m2\<rparr>)"
    using drawsE [OF assms(2), of "g\<lparr>back_pixels := m1\<rparr>"] assms(3) by auto
  with 1 show ?thesis by auto
qed

lemma draws_seq [intro]: "draws f1 \<Longrightarrow> draws f2 \<Longrightarrow> draws (seq f1 f2)"
  using draws_bind by (simp add: draws_def seq_def)

lemma draws_mfold [intro]: "(\<And>x. x \<in> set xs \<Longrightarrow> draws (f x)) \<Longrightarrow> draws (mfold f xs)"
proof (induction xs)
  case Nil
  then show ?case using draws_Inr by (simp add: draws_def)
next
  case (Cons x xs)
  then have "draws (f x)" "draws (mfold f xs)" by simp_all
  then show ?case using draws_bind by (simp add: draws_def)
qed

lemma draws_if [intro]: "draws f1 \<Longrightarrow> draws f2 \<Longrightarrow> draws (if b then f1 else f2)"
  by simp

lemma draws_find [intro]: "(\<And>x. draws (f x)) \<Longrightarrow> draws (case find P xs of Some x \<Rightarrow> f x | None \<Rightarrow> Inr)"
  using draws_Inr by (simp split: option.splits)

lemma draws_basic [intro]:
  "draws (gfx_draw_pixel x y c)" "draws (gfx_draw_pixel_blend x y c)" "draws (gfx_fill_rect x y w h c)" "draws (gfx_fill_rect_blend x y w h c)"
  unfolding gfx_draw_pixel_def gfx_draw_pixel_blend_def gfx_fill_rect_def gfx_fill_rect_blend_def
  by (rule draws_paints [OF paints_draw] draws_paints [OF paints_fill])+

lemma draws_rounded_with:
  assumes "\<And>x y w h. draws (fill x y w h)" "\<And>x y. draws (dot x y)"
  shows "draws (rounded_with fill dot x y w h r)"
  unfolding rounded_with_def Let_def using assms by (intro draws_seq draws_mfold draws_if draws_find draws_Inr)

lemma draws_rounded [intro]: "draws (gfx_fill_rect_rounded x y w h r c)" "draws (gfx_fill_rect_rounded_blend x y w h r c)"
  unfolding gfx_fill_rect_rounded_blend_def gfx_fill_rect_rounded_def by (intro draws_if draws_basic draws_rounded_with)+

lemma draws_stroke_rect [intro]: "draws (gfx_stroke_rect_rounded x y w h r t c)"
  unfolding gfx_stroke_rect_rounded_def stroke_corner_def Let_def by (intro draws_seq draws_mfold draws_if draws_find draws_basic draws_Inr)

lemma draws_shadow [intro]: "draws (gfx_draw_shadow x y w h b c opa)"
  unfolding gfx_draw_shadow_def Let_def by (intro draws_seq draws_mfold draws_if draws_basic draws_Inr)

lemma draws_line [intro]: "draws (gfx_draw_line x1 y1 x2 y2 c t)"
  unfolding gfx_draw_line_def Let_def by (intro draws_mfold draws_if draws_basic draws_Inr)

lemma draws_stroke_circle [intro]: "draws (gfx_stroke_circle cx cy r t c)"
  unfolding gfx_stroke_circle_def Let_def by (intro draws_mfold draws_if draws_basic draws_Inr)

lemma draws_window [intro]: "draws (gfx_draw_window x y w h bg sh r)"
  unfolding gfx_draw_window_def by (intro draws_seq draws_shadow draws_rounded draws_stroke_rect)

text \<open>
  The number of steps of a line is the larger of the two differences, not of their sizes: a line that goes straight up
  or straight to the left has zero steps and is drawn as one dot.
\<close>

lemma gfx_draw_line_up:
  assumes "y2 < y1" "0 < t"
  shows "gfx_draw_line x y1 x y2 c t = gfx_fill_rect x y1 t t c"
  using assms by (simp add: gfx_draw_line_def)

text \<open>Copying is not clipped: a column read left of the surface is an access outside the buffer.\<close>

lemma gfx_copy_rect_unclipped:
  assumes "surface_ok g"
  shows "gfx_copy_rect 0 0 (- 1) 0 1 1 g = Inl Fault"
proof -
  have "unat (- 1 :: u32) = 2 ^ 32 - 1" by (simp add: unsigned_minus_1_eq_mask mask_eq_exp_minus_1)
  then have "n_pixels g < unat (- 1 :: u32)" using assms by (simp add: surface_ok_def)
  then show ?thesis using assms by (simp add: gfx_copy_rect_def surface_ok_def px_copy_def px_index_def rbind_def)
qed

section \<open>Circles\<close>

lemma paints_Inr: "paints f (\<lambda>_ _. False) Inr"
  unfolding paints_def
proof (intro allI impI)
  show "\<exists>m. Inr g = Inr (g\<lparr>back_pixels := m\<rparr>) \<and> (\<forall>x y. on_surface g x y \<longrightarrow> pixel (g\<lparr>back_pixels := m\<rparr>) x y = (if False then f (pixel g x y) else pixel g x y))" for g
    by (rule exI [of _ "back_pixels g"]) simp
qed

lemma paints_bind:
  assumes "paints (\<lambda>_. c) R1 f1" "paints (\<lambda>_. c) R2 f2"
  shows "paints (\<lambda>_. c) (\<lambda>x y. R1 x y \<or> R2 x y) (\<lambda>g. rbind (f1 g) f2)"
  unfolding paints_def
proof (intro allI impI)
  fix g assume g: "surface_ok g"
  obtain m1 where 1: "f1 g = Inr (g\<lparr>back_pixels := m1\<rparr>)"
    "\<forall>x y. on_surface g x y \<longrightarrow> pixel (g\<lparr>back_pixels := m1\<rparr>) x y = (if R1 x y then c else pixel g x y)"
    using assms(1) g unfolding paints_def by blast
  have g1: "surface_ok (g\<lparr>back_pixels := m1\<rparr>)" using g by simp
  obtain m2 where 2: "f2 (g\<lparr>back_pixels := m1\<rparr>) = Inr (g\<lparr>back_pixels := m1\<rparr>\<lparr>back_pixels := m2\<rparr>)"
    "\<forall>x y. on_surface (g\<lparr>back_pixels := m1\<rparr>) x y \<longrightarrow>
      pixel (g\<lparr>back_pixels := m1\<rparr>\<lparr>back_pixels := m2\<rparr>) x y = (if R2 x y then c else pixel (g\<lparr>back_pixels := m1\<rparr>) x y)"
    using assms(2) [unfolded paints_def, rule_format, OF g1] by auto
  show "\<exists>m. rbind (f1 g) f2 = Inr (g\<lparr>back_pixels := m\<rparr>) \<and> (\<forall>x y. on_surface g x y \<longrightarrow>
      pixel (g\<lparr>back_pixels := m\<rparr>) x y = (if R1 x y \<or> R2 x y then c else pixel g x y))"
    using 1 2 by (intro exI [of _ m2]) simp
qed

lemma paints_mfold:
  assumes "\<And>k. k \<in> set ks \<Longrightarrow> paints (\<lambda>_. c) (R k) (f k)"
  shows "paints (\<lambda>_. c) (\<lambda>x y. \<exists>k\<in>set ks. R k x y) (mfold f ks)"
  using assms
proof (induction ks)
  case Nil
  then show ?case using paints_Inr [of "\<lambda>_. c"] by (simp add: paints_def)
next
  case (Cons k ks)
  have "paints (\<lambda>_. c) (\<lambda>x y. R k x y \<or> (\<exists>k\<in>set ks. R k x y)) (\<lambda>g. rbind (f k g) (mfold f ks))"
    using Cons by (intro paints_bind) auto
  moreover have "mfold f (k # ks) = (\<lambda>g. rbind (f k g) (mfold f ks))" by (rule ext) simp
  moreover have "(\<lambda>x y. \<exists>k\<in>set (k # ks). R k x y) = (\<lambda>x y. R k x y \<or> (\<exists>k\<in>set ks. R k x y))" by simp
  ultimately show ?case by (simp only:)
qed

lemma run_end_spec:
  "(\<forall>e'. e \<le> e' \<and> e' < run_end r y e \<longrightarrow> e' \<le> r \<and> e' * e' + y * y \<le> r * r) \<and>
   \<not> (run_end r y e \<le> r \<and> run_end r y e * run_end r y e + y * y \<le> r * r)"
proof (induction r y e rule: run_end.induct)
  case (1 r y e)
  show ?case
  proof (cases "e \<le> r \<and> e * e + y * y \<le> r * r")
    case True
    then have "run_end r y e = run_end r y (e + 1)" by (subst run_end.simps) simp
    moreover have "e \<le> e' \<longleftrightarrow> e' = e \<or> e + 1 \<le> e'" for e' by auto
    ultimately show ?thesis using 1 [OF True] True by metis
  qed (subst run_end.simps, auto simp: run_end.simps [of r y e])
qed

definition row_part :: "int \<Rightarrow> int \<Rightarrow> int \<Rightarrow> int \<Rightarrow> int \<Rightarrow> int \<Rightarrow> int \<Rightarrow> bool" where
  "row_part cx cy r y x px py \<longleftrightarrow> py = cy + y \<and> x \<le> px - cx \<and> px - cx \<le> r \<and> (px - cx) * (px - cx) + y * y \<le> r * r"

lemma paints_cong: "paints f R op \<Longrightarrow> (\<And>x y. R x y = R' x y) \<Longrightarrow> (\<And>g. op g = op' g) \<Longrightarrow> paints f R' op'"
  by (simp add: paints_def)

lemma paints_row: "paints (\<lambda>_. c) (row_part cx cy r y x) (circle_row cx cy r c y x)"
proof (induction "nat (r + 1 - x)" arbitrary: x rule: less_induct)
  case less
  note step = circle_row.simps [of cx cy r c y x]
  show ?case
  proof (cases "x \<le> r")
    case False
    then show ?thesis by (intro paints_cong [OF paints_Inr]) (auto simp: row_part_def step)
  next
    case True
    show ?thesis
    proof (cases "x * x + y * y \<le> r * r")
      case False
      have p: "paints (\<lambda>_. c) (row_part cx cy r y (x + 1)) (circle_row cx cy r c y (x + 1))" using True by (intro less) auto
      have "row_part cx cy r y (x + 1) px py = row_part cx cy r y x px py" for px py
        using False by (cases "px - cx = x") (auto simp: row_part_def)
      moreover have "circle_row cx cy r c y (x + 1) g = circle_row cx cy r c y x g" for g using True False by (simp add: step)
      ultimately show ?thesis by (rule paints_cong [OF p])
    next
      case inside: True
      let ?e = "run_end r y x"
      note e = run_end_spec [of x r y] and ge = run_end_ge [of x r y]
      have "paints (\<lambda>_. c) (row_part cx cy r y (?e + 1)) (circle_row cx cy r c y (?e + 1))" using True ge by (intro less) auto
      from paints_bind [OF paints_fill this]
      have p: "paints (\<lambda>_. c) (\<lambda>px py. (cx + x \<le> px \<and> px < cx + x + (?e - x) \<and> cy + y \<le> py \<and> py < cy + y + 1) \<or> row_part cx cy r y (?e + 1) px py)
        (\<lambda>g. rbind (fill_with (\<lambda>_. c) (cx + x) (cy + y) (?e - x) 1 g) (circle_row cx cy r c y (?e + 1)))" .
      have "(cx + x \<le> px \<and> px < cx + x + (?e - x) \<and> cy + y \<le> py \<and> py < cy + y + 1) \<or> row_part cx cy r y (?e + 1) px py \<longleftrightarrow>
          row_part cx cy r y x px py" for px py
      proof (cases "px - cx < ?e")
        case True
        then show ?thesis using e by (auto simp: row_part_def)
      next
        case False
        then show ?thesis using e ge by (cases "px - cx = ?e") (auto simp: row_part_def)
      qed
      moreover have "rbind (fill_with (\<lambda>_. c) (cx + x) (cy + y) (?e - x) 1 g) (circle_row cx cy r c y (?e + 1)) = circle_row cx cy r c y x g" for g
        using True inside by (simp add: step gfx_fill_rect_def)
      ultimately show ?thesis by (rule paints_cong [OF p])
    qed
  qed
qed

definition small_surface :: gfx where
  "small_surface = \<lparr>gs_width = 4, gs_height = 4, front_buffer = 0x1000, back_buffer = 0x2000, gs_initialized = True,
     front_pixels = (\<lambda>_. 0), back_pixels = (\<lambda>_. 0), composite_layers = [], gheap = kernel_heap\<rparr>"



end
