(* ===== verification/Text.thy ===== *)
theory Text
  imports Gfx CString
begin

text \<open>
  Text on the drawing surface: the bitmap font of \<^verbatim>\<open>src/gui/font_engine.c\<close> and \<^verbatim>\<open>font_data_8x13.h\<close>, writing direction
  (\<^verbatim>\<open>rtl_support.c\<close>, \<^verbatim>\<open>utf8_parser.c\<close>) and the widgets of \<^verbatim>\<open>src/gui/widgets.c\<close>, which are shapes with labels. A string is the list
  of its bytes before the terminator; \<open>None\<close> is the null pointer.
\<close>

section \<open>The font\<close>

definition FONT_WIDTH :: int where "FONT_WIDTH = 8"
definition FONT_HEIGHT :: int where "FONT_HEIGHT = 13"
definition FONT_ADVANCE :: int where "FONT_ADVANCE = 9"
definition FONT_ALIGN_LEFT :: int where "FONT_ALIGN_LEFT = 0"
definition FONT_ALIGN_CENTER :: int where "FONT_ALIGN_CENTER = 1"
definition FONT_ALIGN_RIGHT :: int where "FONT_ALIGN_RIGHT = 2"

record font_metrics =
  fm_width :: int
  fm_height :: int
  fm_advance :: int
  line_spacing :: int
  baseline :: int

definition font_metrics0 :: font_metrics where
  "font_metrics0 = \<lparr>fm_width = 0, fm_height = 0, fm_advance = 0, line_spacing = 0, baseline = 0\<rparr>"

definition font_init :: "int \<times> font_metrics" where
  "font_init = (0, \<lparr>fm_width = FONT_WIDTH, fm_height = FONT_HEIGHT, fm_advance = FONT_ADVANCE, line_spacing = FONT_HEIGHT + 4, baseline = FONT_HEIGHT - 2\<rparr>)"

definition font_get_height :: int where "font_get_height = FONT_HEIGHT"

definition font_data_8x13 :: "u8 list list" where
  "font_data_8x13 = [
     [0x00, 0x00, 0x00, 0x00, 0x00, 0x00, 0x00, 0x00, 0x00, 0x00, 0x00, 0x00, 0x00],
     [0x00, 0x00, 0x18, 0x18, 0x18, 0x18, 0x18, 0x18, 0x00, 0x18, 0x18, 0x00, 0x00],
     [0x00, 0x00, 0x6C, 0x6C, 0x6C, 0x00, 0x00, 0x00, 0x00, 0x00, 0x00, 0x00, 0x00],
     [0x00, 0x00, 0x6C, 0x6C, 0xFE, 0x6C, 0x6C, 0xFE, 0x6C, 0x6C, 0x00, 0x00, 0x00],
     [0x00, 0x18, 0x18, 0x7E, 0xC0, 0xC0, 0x7E, 0x06, 0x06, 0xFC, 0x18, 0x18, 0x00],
     [0x00, 0x00, 0x00, 0xC6, 0xCC, 0x18, 0x30, 0x60, 0xC6, 0x86, 0x00, 0x00, 0x00],
     [0x00, 0x00, 0x38, 0x6C, 0x6C, 0x38, 0x76, 0xDC, 0xCC, 0x76, 0x00, 0x00, 0x00],
     [0x00, 0x00, 0x18, 0x18, 0x18, 0x18, 0x00, 0x00, 0x00, 0x00, 0x00, 0x00, 0x00],
     [0x00, 0x00, 0x0C, 0x18, 0x30, 0x30, 0x30, 0x30, 0x30, 0x18, 0x0C, 0x00, 0x00],
     [0x00, 0x00, 0x30, 0x18, 0x0C, 0x0C, 0x0C, 0x0C, 0x0C, 0x18, 0x30, 0x00, 0x00],
     [0x00, 0x00, 0x00, 0x00, 0x66, 0x3C, 0xFF, 0x3C, 0x66, 0x00, 0x00, 0x00, 0x00],
     [0x00, 0x00, 0x00, 0x18, 0x18, 0x7E, 0x18, 0x18, 0x00, 0x00, 0x00, 0x00, 0x00],
     [0x00, 0x00, 0x00, 0x00, 0x00, 0x00, 0x00, 0x00, 0x18, 0x18, 0x30, 0x00, 0x00],
     [0x00, 0x00, 0x00, 0x00, 0x00, 0x7E, 0x00, 0x00, 0x00, 0x00, 0x00, 0x00, 0x00],
     [0x00, 0x00, 0x00, 0x00, 0x00, 0x00, 0x00, 0x00, 0x18, 0x18, 0x00, 0x00, 0x00],
     [0x00, 0x00, 0x06, 0x0C, 0x18, 0x30, 0x60, 0xC0, 0x80, 0x00, 0x00, 0x00, 0x00],
     [0x00, 0x00, 0x7E, 0xC6, 0xCE, 0xD6, 0xD6, 0xE6, 0xC6, 0x7E, 0x00, 0x00, 0x00],
     [0x00, 0x00, 0x18, 0x38, 0x78, 0x18, 0x18, 0x18, 0x18, 0x7E, 0x00, 0x00, 0x00],
     [0x00, 0x00, 0x7E, 0xC6, 0x06, 0x0C, 0x30, 0x60, 0xC0, 0xFE, 0x00, 0x00, 0x00],
     [0x00, 0x00, 0x7E, 0xC6, 0x06, 0x1E, 0x06, 0x06, 0xC6, 0x7E, 0x00, 0x00, 0x00],
     [0x00, 0x00, 0x0C, 0x1C, 0x3C, 0x6C, 0xCC, 0xFE, 0x0C, 0x0C, 0x00, 0x00, 0x00],
     [0x00, 0x00, 0xFE, 0xC0, 0xC0, 0xFC, 0x06, 0x06, 0xC6, 0x7C, 0x00, 0x00, 0x00],
     [0x00, 0x00, 0x3C, 0x60, 0xC0, 0xFC, 0xC6, 0xC6, 0xC6, 0x7C, 0x00, 0x00, 0x00],
     [0x00, 0x00, 0xFE, 0x06, 0x0C, 0x18, 0x30, 0x60, 0xC0, 0xC0, 0x00, 0x00, 0x00],
     [0x00, 0x00, 0x7C, 0xC6, 0xC6, 0x7C, 0xC6, 0xC6, 0xC6, 0x7C, 0x00, 0x00, 0x00],
     [0x00, 0x00, 0x7C, 0xC6, 0xC6, 0xC6, 0x7E, 0x06, 0x0C, 0x78, 0x00, 0x00, 0x00],
     [0x00, 0x00, 0x00, 0x18, 0x18, 0x00, 0x00, 0x00, 0x18, 0x18, 0x00, 0x00, 0x00],
     [0x00, 0x00, 0x00, 0x18, 0x18, 0x00, 0x00, 0x00, 0x18, 0x18, 0x30, 0x00, 0x00],
     [0x00, 0x00, 0x0C, 0x18, 0x30, 0x60, 0x30, 0x18, 0x0C, 0x00, 0x00, 0x00, 0x00],
     [0x00, 0x00, 0x00, 0x00, 0x7E, 0x00, 0x00, 0x7E, 0x00, 0x00, 0x00, 0x00, 0x00],
     [0x00, 0x00, 0x30, 0x18, 0x0C, 0x06, 0x0C, 0x18, 0x30, 0x00, 0x00, 0x00, 0x00],
     [0x00, 0x00, 0x7C, 0xC6, 0x06, 0x1C, 0x18, 0x18, 0x00, 0x18, 0x18, 0x00, 0x00],
     [0x00, 0x00, 0x7C, 0xC6, 0x06, 0x1E, 0xD6, 0xD6, 0xD6, 0x7C, 0x00, 0x00, 0x00],
     [0x00, 0x00, 0x18, 0x3C, 0x66, 0xC6, 0xFE, 0xC6, 0xC6, 0xC6, 0x00, 0x00, 0x00],
     [0x00, 0x00, 0xFC, 0xC6, 0xC6, 0xFC, 0xC6, 0xC6, 0xC6, 0xFC, 0x00, 0x00, 0x00],
     [0x00, 0x00, 0x3C, 0x66, 0xC0, 0xC0, 0xC0, 0xC0, 0x66, 0x3C, 0x00, 0x00, 0x00],
     [0x00, 0x00, 0xF8, 0xCC, 0xC6, 0xC6, 0xC6, 0xC6, 0xCC, 0xF8, 0x00, 0x00, 0x00],
     [0x00, 0x00, 0xFE, 0xC0, 0xC0, 0xFC, 0xC0, 0xC0, 0xC0, 0xFE, 0x00, 0x00, 0x00],
     [0x00, 0x00, 0xFE, 0xC0, 0xC0, 0xFC, 0xC0, 0xC0, 0xC0, 0xC0, 0x00, 0x00, 0x00],
     [0x00, 0x00, 0x3C, 0x66, 0xC0, 0xC0, 0xCE, 0xC6, 0x66, 0x3E, 0x00, 0x00, 0x00],
     [0x00, 0x00, 0xC6, 0xC6, 0xC6, 0xFE, 0xC6, 0xC6, 0xC6, 0xC6, 0x00, 0x00, 0x00],
     [0x00, 0x00, 0x7E, 0x18, 0x18, 0x18, 0x18, 0x18, 0x18, 0x7E, 0x00, 0x00, 0x00],
     [0x00, 0x00, 0x06, 0x06, 0x06, 0x06, 0xC6, 0xC6, 0xC6, 0x7C, 0x00, 0x00, 0x00],
     [0x00, 0x00, 0xC6, 0xCC, 0xD8, 0xF0, 0xF0, 0xD8, 0xCC, 0xC6, 0x00, 0x00, 0x00],
     [0x00, 0x00, 0xC0, 0xC0, 0xC0, 0xC0, 0xC0, 0xC0, 0xC0, 0xFE, 0x00, 0x00, 0x00],
     [0x00, 0x00, 0xC6, 0xEE, 0xFE, 0xD6, 0xC6, 0xC6, 0xC6, 0xC6, 0x00, 0x00, 0x00],
     [0x00, 0x00, 0xC6, 0xE6, 0xF6, 0xDE, 0xCE, 0xC6, 0xC6, 0xC6, 0x00, 0x00, 0x00],
     [0x00, 0x00, 0x7C, 0xC6, 0xC6, 0xC6, 0xC6, 0xC6, 0xC6, 0x7C, 0x00, 0x00, 0x00],
     [0x00, 0x00, 0xFC, 0xC6, 0xC6, 0xC6, 0xFC, 0xC0, 0xC0, 0xC0, 0x00, 0x00, 0x00],
     [0x00, 0x00, 0x7C, 0xC6, 0xC6, 0xC6, 0xC6, 0xD6, 0xDE, 0x7C, 0x06, 0x00, 0x00],
     [0x00, 0x00, 0xFC, 0xC6, 0xC6, 0xC6, 0xFC, 0xD8, 0xCC, 0xC6, 0x00, 0x00, 0x00],
     [0x00, 0x00, 0x7C, 0xC6, 0xC0, 0x7C, 0x06, 0x06, 0xC6, 0x7C, 0x00, 0x00, 0x00],
     [0x00, 0x00, 0xFF, 0x18, 0x18, 0x18, 0x18, 0x18, 0x18, 0x18, 0x00, 0x00, 0x00],
     [0x00, 0x00, 0xC6, 0xC6, 0xC6, 0xC6, 0xC6, 0xC6, 0xC6, 0x7C, 0x00, 0x00, 0x00],
     [0x00, 0x00, 0xC6, 0xC6, 0xC6, 0x66, 0x66, 0x3C, 0x3C, 0x18, 0x00, 0x00, 0x00],
     [0x00, 0x00, 0xC6, 0xC6, 0xC6, 0xC6, 0xD6, 0xD6, 0xFE, 0x6C, 0x00, 0x00, 0x00],
     [0x00, 0x00, 0xC6, 0x6C, 0x6C, 0x38, 0x38, 0x6C, 0x6C, 0xC6, 0x00, 0x00, 0x00],
     [0x00, 0x00, 0xC6, 0xC6, 0x66, 0x3C, 0x18, 0x18, 0x18, 0x18, 0x00, 0x00, 0x00],
     [0x00, 0x00, 0xFE, 0x06, 0x0C, 0x18, 0x30, 0x60, 0xC0, 0xFE, 0x00, 0x00, 0x00],
     [0x00, 0x00, 0x3C, 0x30, 0x30, 0x30, 0x30, 0x30, 0x30, 0x3C, 0x00, 0x00, 0x00],
     [0x00, 0x00, 0x80, 0xC0, 0x60, 0x30, 0x18, 0x0C, 0x06, 0x00, 0x00, 0x00, 0x00],
     [0x00, 0x00, 0x3C, 0x0C, 0x0C, 0x0C, 0x0C, 0x0C, 0x0C, 0x3C, 0x00, 0x00, 0x00],
     [0x00, 0x10, 0x38, 0x6C, 0xC6, 0x00, 0x00, 0x00, 0x00, 0x00, 0x00, 0x00, 0x00],
     [0x00, 0x00, 0x00, 0x00, 0x00, 0x00, 0x00, 0x00, 0x00, 0x00, 0xFE, 0x00, 0x00],
     [0x00, 0x30, 0x18, 0x0C, 0x00, 0x00, 0x00, 0x00, 0x00, 0x00, 0x00, 0x00, 0x00],
     [0x00, 0x00, 0x00, 0x00, 0x7C, 0x06, 0x7E, 0xC6, 0xC6, 0x7E, 0x00, 0x00, 0x00],
     [0x00, 0x00, 0xC0, 0xC0, 0xFC, 0xC6, 0xC6, 0xC6, 0xC6, 0xFC, 0x00, 0x00, 0x00],
     [0x00, 0x00, 0x00, 0x00, 0x7C, 0xC6, 0xC0, 0xC0, 0xC6, 0x7C, 0x00, 0x00, 0x00],
     [0x00, 0x00, 0x06, 0x06, 0x7E, 0xC6, 0xC6, 0xC6, 0xC6, 0x7E, 0x00, 0x00, 0x00],
     [0x00, 0x00, 0x00, 0x00, 0x7C, 0xC6, 0xFE, 0xC0, 0xC6, 0x7C, 0x00, 0x00, 0x00],
     [0x00, 0x00, 0x1C, 0x36, 0x30, 0xFC, 0x30, 0x30, 0x30, 0x30, 0x00, 0x00, 0x00],
     [0x00, 0x00, 0x00, 0x00, 0x7E, 0xC6, 0xC6, 0xC6, 0x7E, 0x06, 0x7C, 0x00, 0x00],
     [0x00, 0x00, 0xC0, 0xC0, 0xFC, 0xC6, 0xC6, 0xC6, 0xC6, 0xC6, 0x00, 0x00, 0x00],
     [0x00, 0x00, 0x18, 0x00, 0x38, 0x18, 0x18, 0x18, 0x18, 0x7E, 0x00, 0x00, 0x00],
     [0x00, 0x00, 0x06, 0x00, 0x06, 0x06, 0x06, 0x06, 0xC6, 0xC6, 0x7C, 0x00, 0x00],
     [0x00, 0x00, 0xC0, 0xC0, 0xCC, 0xD8, 0xF0, 0xD8, 0xCC, 0xC6, 0x00, 0x00, 0x00],
     [0x00, 0x00, 0x38, 0x18, 0x18, 0x18, 0x18, 0x18, 0x18, 0x7E, 0x00, 0x00, 0x00],
     [0x00, 0x00, 0x00, 0x00, 0xFC, 0xFE, 0xD6, 0xD6, 0xC6, 0xC6, 0x00, 0x00, 0x00],
     [0x00, 0x00, 0x00, 0x00, 0xFC, 0xC6, 0xC6, 0xC6, 0xC6, 0xC6, 0x00, 0x00, 0x00],
     [0x00, 0x00, 0x00, 0x00, 0x7C, 0xC6, 0xC6, 0xC6, 0xC6, 0x7C, 0x00, 0x00, 0x00],
     [0x00, 0x00, 0x00, 0x00, 0xFC, 0xC6, 0xC6, 0xC6, 0xC6, 0xFC, 0xC0, 0xC0, 0x00],
     [0x00, 0x00, 0x00, 0x00, 0x7E, 0xC6, 0xC6, 0xC6, 0xC6, 0x7E, 0x06, 0x06, 0x00],
     [0x00, 0x00, 0x00, 0x00, 0xF8, 0xCC, 0xC0, 0xC0, 0xC0, 0xC0, 0x00, 0x00, 0x00],
     [0x00, 0x00, 0x00, 0x00, 0x7E, 0xC0, 0x7C, 0x06, 0xC6, 0x7C, 0x00, 0x00, 0x00],
     [0x00, 0x00, 0x30, 0x30, 0xFC, 0x30, 0x30, 0x30, 0x30, 0x1E, 0x00, 0x00, 0x00],
     [0x00, 0x00, 0x00, 0x00, 0xC6, 0xC6, 0xC6, 0xC6, 0xC6, 0x7E, 0x00, 0x00, 0x00],
     [0x00, 0x00, 0x00, 0x00, 0xC6, 0xC6, 0x66, 0x66, 0x3C, 0x18, 0x00, 0x00, 0x00],
     [0x00, 0x00, 0x00, 0x00, 0xC6, 0xC6, 0xD6, 0xD6, 0xFE, 0x6C, 0x00, 0x00, 0x00],
     [0x00, 0x00, 0x00, 0x00, 0xC6, 0x6C, 0x38, 0x38, 0x6C, 0xC6, 0x00, 0x00, 0x00],
     [0x00, 0x00, 0x00, 0x00, 0xC6, 0xC6, 0xC6, 0xC6, 0x7E, 0x06, 0x7C, 0x00, 0x00],
     [0x00, 0x00, 0x00, 0x00, 0xFE, 0x0C, 0x30, 0x60, 0xC0, 0xFE, 0x00, 0x00, 0x00],
     [0x00, 0x00, 0x0E, 0x18, 0x18, 0x70, 0x18, 0x18, 0x18, 0x0E, 0x00, 0x00, 0x00],
     [0x00, 0x00, 0x18, 0x18, 0x18, 0x18, 0x18, 0x18, 0x18, 0x18, 0x00, 0x00, 0x00],
     [0x00, 0x00, 0x70, 0x18, 0x18, 0x0E, 0x18, 0x18, 0x18, 0x70, 0x00, 0x00, 0x00],
     [0x00, 0x00, 0x76, 0xDC, 0x00, 0x00, 0x00, 0x00, 0x00, 0x00, 0x00, 0x00, 0x00],
     [0x00, 0x00, 0x00, 0x00, 0x00, 0x00, 0x00, 0x00, 0x00, 0x00, 0x00, 0x00, 0x00]]"

definition font_get_glyph :: "u8 \<Rightarrow> u8 list" where
  "font_get_glyph ch = (let uc = (if ch < 32 \<or> ch > 126 then 127 else ch) in font_data_8x13 ! unat (uc - 32))"

definition font_draw_glyph :: "int \<Rightarrow> int \<Rightarrow> u8 \<Rightarrow> u32 \<Rightarrow> gfx \<Rightarrow> gfx res" where
  "font_draw_glyph x y ch color =
     (let glyph = font_get_glyph ch in
      mfold (\<lambda>row. let bits = glyph ! nat row in
        mfold (\<lambda>col. if bits AND drop_bit (nat col) 0x80 \<noteq> 0 then gfx_draw_pixel (x + col) (y + row) color else Inr) [0..FONT_WIDTH - 1])
        [0..FONT_HEIGHT - 1])"

text \<open>The two loops of \<open>font_draw_text\<close>: backwards with a falling pen, forwards with line breaks.\<close>

fun rtl_loop :: "u8 list \<Rightarrow> int \<Rightarrow> int \<Rightarrow> u32 \<Rightarrow> gfx \<Rightarrow> gfx res" where
  "rtl_loop [] pen y color = Inr"
| "rtl_loop (ch # t) pen y color =
     (if ch = 10 then rtl_loop t pen y color
      else seq (font_draw_glyph pen y ch color) (rtl_loop t (pen - FONT_ADVANCE) y color))"

fun ltr_loop :: "int \<Rightarrow> int \<Rightarrow> u8 list \<Rightarrow> int \<Rightarrow> int \<Rightarrow> u32 \<Rightarrow> gfx \<Rightarrow> gfx res" where
  "ltr_loop sp x [] pen y color = Inr"
| "ltr_loop sp x (ch # t) pen y color =
     (if ch = 10 then ltr_loop sp x t x (y + sp) color
      else seq (font_draw_glyph pen y ch color) (ltr_loop sp x t (pen + FONT_ADVANCE) y color))"

definition font_draw_text :: "font_metrics \<Rightarrow> int \<Rightarrow> int \<Rightarrow> u8 list option \<Rightarrow> u32 \<Rightarrow> bool \<Rightarrow> gfx \<Rightarrow> (int \<times> gfx) res" where
  "font_draw_text fm x y str color rtl g =
     (case str of None \<Rightarrow> Inr (0, g)
      | Some t \<Rightarrow> rbind (if rtl then rtl_loop (rev t) x y color g else ltr_loop (line_spacing fm) x t x y color g) (\<lambda>g1. Inr (int (length t), g1)))"

fun clipped_loop :: "bool \<Rightarrow> int \<Rightarrow> int \<Rightarrow> int \<Rightarrow> int \<Rightarrow> int \<Rightarrow> int \<Rightarrow> int \<Rightarrow> u8 list \<Rightarrow> u32 \<Rightarrow> gfx \<Rightarrow> gfx res" where
  "clipped_loop rtl x y cx cy cw ch i [] color = Inr"
| "clipped_loop rtl x y cx cy cw ch i (c # t) color =
     (let gx = (if rtl then x - i * FONT_ADVANCE else x + i * FONT_ADVANCE); rest = clipped_loop rtl x y cx cy cw ch (i + 1) t color in
      if gx + FONT_WIDTH < cx then rest
      else if gx > cx + cw then Inr
      else if y + FONT_HEIGHT < cy then rest
      else if y > cy + ch then rest
      else seq (font_draw_glyph gx y c color) rest)"

definition font_draw_text_clipped :: "int \<Rightarrow> int \<Rightarrow> u8 list option \<Rightarrow> u32 \<Rightarrow> bool \<Rightarrow> int \<Rightarrow> int \<Rightarrow> int \<Rightarrow> int \<Rightarrow> gfx \<Rightarrow> (int \<times> gfx) res" where
  "font_draw_text_clipped x y str color rtl cx cy cw ch g =
     (case str of None \<Rightarrow> Inr (0, g)
      | Some t \<Rightarrow> rbind (clipped_loop rtl x y cx cy cw ch 0 t color g) (\<lambda>g1. Inr (int (length t), g1)))"

definition font_get_text_width :: "u8 list option \<Rightarrow> int" where
  "font_get_text_width str = (case str of None \<Rightarrow> 0 | Some t \<Rightarrow> int (length t) * FONT_ADVANCE)"

definition font_draw_text_aligned :: "font_metrics \<Rightarrow> int \<Rightarrow> int \<Rightarrow> int \<Rightarrow> u8 list option \<Rightarrow> u32 \<Rightarrow> int \<Rightarrow> gfx \<Rightarrow> (int \<times> gfx) res" where
  "font_draw_text_aligned fm x y area_width str color alignment g =
     (case str of None \<Rightarrow> Inr (0, g)
      | Some t \<Rightarrow>
          let text_width = font_get_text_width str;
              start_x = (if alignment = FONT_ALIGN_CENTER then x + cdiv (area_width - text_width) 2
                         else if alignment = FONT_ALIGN_RIGHT then x + area_width - text_width else x)
          in font_draw_text fm start_x y str color False g)"

text \<open>A call whose result is not used.\<close>

definition ignore :: "(gfx \<Rightarrow> ('a \<times> gfx) res) \<Rightarrow> gfx \<Rightarrow> gfx res" where
  "ignore f g = rbind (f g) (\<lambda>(_, g1). Inr g1)"

section \<open>Writing direction\<close>

definition is_arabic_utf8_start :: "u8 \<Rightarrow> bool" where
  "is_arabic_utf8_start c \<longleftrightarrow> (c \<ge> 0xD8 \<and> c \<le> 0xDF) \<or> (c \<ge> 0xC0 \<and> c \<le> 0xD7)"

datatype text_direction = TEXT_DIR_LTR | TEXT_DIR_RTL | TEXT_DIR_MIXED

definition rtl_detect_direction :: "u8 list option \<Rightarrow> text_direction" where
  "rtl_detect_direction str =
     (case str of None \<Rightarrow> TEXT_DIR_LTR
      | Some t \<Rightarrow>
          if t = [] then TEXT_DIR_LTR
          else let rtl_count = length (filter is_arabic_utf8_start t);
                   ltr_count = length (filter (\<lambda>c. \<not> is_arabic_utf8_start c \<and> 0x20 \<le> c \<and> c < 0x7F) t)
               in if rtl_count > ltr_count then TEXT_DIR_RTL else if ltr_count > rtl_count then TEXT_DIR_LTR else TEXT_DIR_MIXED)"

definition rtl_get_text_width :: "u8 list option \<Rightarrow> int" where
  "rtl_get_text_width str = font_get_text_width str"

definition rtl_draw_text :: "font_metrics \<Rightarrow> int \<Rightarrow> int \<Rightarrow> u8 list option \<Rightarrow> u32 \<Rightarrow> text_direction \<Rightarrow> gfx \<Rightarrow> gfx res" where
  "rtl_draw_text fm x y str color direction =
     (if str = None \<or> str = Some [] then Inr
      else if direction = TEXT_DIR_RTL then ignore (font_draw_text fm (x - rtl_get_text_width str) y str color True)
      else ignore (font_draw_text fm x y str color False))"

definition rtl_draw_text_right_aligned :: "font_metrics \<Rightarrow> int \<Rightarrow> int \<Rightarrow> u8 list option \<Rightarrow> u32 \<Rightarrow> gfx \<Rightarrow> gfx res" where
  "rtl_draw_text_right_aligned fm x y str color =
     (if rtl_detect_direction str = TEXT_DIR_RTL then ignore (font_draw_text fm x y str color True)
      else ignore (font_draw_text fm (x - rtl_get_text_width str) y str color False))"

definition rtl_draw_text_centered :: "font_metrics \<Rightarrow> int \<Rightarrow> int \<Rightarrow> int \<Rightarrow> u8 list option \<Rightarrow> u32 \<Rightarrow> gfx \<Rightarrow> gfx res" where
  "rtl_draw_text_centered fm x y width str color =
     (let text_width = rtl_get_text_width str; offset = cdiv (width - text_width) 2 in
      if rtl_detect_direction str = TEXT_DIR_RTL then ignore (font_draw_text fm (x + offset + text_width) y str color True)
      else ignore (font_draw_text fm (x + offset) y str color False))"

definition rtl_shape_arabic :: "u8 list option \<Rightarrow> u8 list option" where
  "rtl_shape_arabic str = str"

text \<open>One character of a string: its code and the number of bytes it takes, or failure.\<close>

definition utf8_decode_next :: "u8 list option \<Rightarrow> (u32 \<times> u32) option" where
  "utf8_decode_next s =
     (case s of None \<Rightarrow> None
      | Some [] \<Rightarrow> None
      | Some (c # _) \<Rightarrow> if c AND 0x80 = 0 then Some (ucast c, 1) else Some (0x3F, 1))"

record glyph_cache =
  g_cache_hits :: u32
  g_cache_miss :: u32

definition glyph_cache_touch :: "bool \<Rightarrow> glyph_cache \<Rightarrow> glyph_cache" where
  "glyph_cache_touch hit s = (if hit then s\<lparr>g_cache_hits := g_cache_hits s + 1\<rparr> else s\<lparr>g_cache_miss := g_cache_miss s + 1\<rparr>)"

section \<open>Widgets\<close>

definition widget_hit_test :: "int \<Rightarrow> int \<Rightarrow> int \<Rightarrow> int \<Rightarrow> int \<Rightarrow> int \<Rightarrow> bool" where
  "widget_hit_test x y wx wy ww wh \<longleftrightarrow> x \<ge> wx \<and> y \<ge> wy \<and> x < wx + ww \<and> y < wy + wh"

definition or_empty :: "u8 list option \<Rightarrow> u8 list option" where
  "or_empty s = (case s of None \<Rightarrow> Some [] | Some t \<Rightarrow> Some t)"

definition widget_draw_button :: "font_metrics \<Rightarrow> int \<Rightarrow> int \<Rightarrow> int \<Rightarrow> int \<Rightarrow> u8 list option \<Rightarrow> bool \<Rightarrow> gfx \<Rightarrow> gfx res" where
  "widget_draw_button fm x y w h label active =
     (let (outer, inner, text_color) = (if active then (0x00386090, 0x004878B0, 0x00FFFFFF) else (0x00D6E3F6, 0x00ECF3FB, 0x0019263E)) in
      seq (gfx_fill_rect_rounded x y w h 10 outer)
      (seq (gfx_fill_rect_rounded (x + 1) (y + 1) (w - 2) (h - 2) 9 inner)
      (seq (if \<not> active then gfx_fill_rect_rounded (x + 1) (y + 1) (w - 2) 8 8 0x00FFFFFF else Inr)
           (ignore (font_draw_text_aligned fm x (y + cdiv (h - font_get_height) 2) w (or_empty label) text_color FONT_ALIGN_CENTER)))))"

definition widget_draw_button_modern :: "font_metrics \<Rightarrow> int \<Rightarrow> int \<Rightarrow> int \<Rightarrow> int \<Rightarrow> u8 list option \<Rightarrow> u32 \<Rightarrow> u32 \<Rightarrow> int \<Rightarrow> gfx \<Rightarrow> gfx res" where
  "widget_draw_button_modern fm x y w h label bg_color text_color radius =
     seq (gfx_fill_rect_rounded x y w h radius bg_color)
         (ignore (font_draw_text_aligned fm x (y + cdiv (h - font_get_height) 2) w (or_empty label) text_color FONT_ALIGN_CENTER))"

definition widget_draw_textfield :: "font_metrics \<Rightarrow> int \<Rightarrow> int \<Rightarrow> int \<Rightarrow> int \<Rightarrow> u8 list option \<Rightarrow> bool \<Rightarrow> gfx \<Rightarrow> gfx res" where
  "widget_draw_textfield fm x y w h str focused =
     (let border = (if focused then 0x004878B0 else 0x00304060); bg = (if focused then 0x00203050 else 0x00182540) in
      seq (gfx_fill_rect_rounded x y w h 4 bg)
      (seq (gfx_stroke_rect_rounded x y w h 4 1 border)
           (ignore (font_draw_text fm (x + 6) (y + 4) (or_empty str) 0x00C0D0E0 False))))"

text \<open>The rows of a list or a menu: a bar of its own colour for the selected one.\<close>

definition draw_items :: "font_metrics \<Rightarrow> nat \<Rightarrow> int \<Rightarrow> int \<Rightarrow> int \<Rightarrow> int \<Rightarrow> int \<Rightarrow> u32 \<Rightarrow> u8 list option list \<Rightarrow> int \<Rightarrow> gfx \<Rightarrow> gfx res" where
  "draw_items fm limit x y w item_h tx bg0 items selected =
     mfold (\<lambda>i. let bg = (if int i = selected then 0x00406890 else bg0) in
       seq (gfx_fill_rect (x + 2) (y + int i * item_h) (w - 4) item_h bg)
           (case items ! i of None \<Rightarrow> Inr | Some t \<Rightarrow> ignore (font_draw_text fm (x + tx) (y + 2 + int i * item_h) (Some t) 0x00C0D8F0 False)))
       [0..<min (length items) limit]"

definition widget_draw_list :: "font_metrics \<Rightarrow> int \<Rightarrow> int \<Rightarrow> int \<Rightarrow> int \<Rightarrow> u8 list option list \<Rightarrow> int \<Rightarrow> gfx \<Rightarrow> gfx res" where
  "widget_draw_list fm x y w h items selected =
     seq (gfx_fill_rect_rounded x y w h 6 0x00182540)
     (seq (gfx_stroke_rect_rounded x y w h 6 1 0x00304060)
          (draw_items fm 20 x (y + 2) w 22 8 0x001C2C48 items selected))"

definition widget_draw_menu :: "font_metrics \<Rightarrow> int \<Rightarrow> int \<Rightarrow> int \<Rightarrow> int \<Rightarrow> u8 list option list \<Rightarrow> int \<Rightarrow> gfx \<Rightarrow> gfx res" where
  "widget_draw_menu fm x y w h items selected =
     seq (gfx_fill_rect_rounded x y w h 8 0xF0202838)
     (seq (gfx_stroke_rect_rounded x y w h 8 1 0x00405070)
     (seq (gfx_fill_rect_rounded (x + 2) (y + 2) (w - 4) 6 4 0x004878B0)
          (draw_items fm 16 x (y + 8) w 24 10 0x00202838 items selected)))"

definition widget_draw_dialog :: "font_metrics \<Rightarrow> int \<Rightarrow> int \<Rightarrow> int \<Rightarrow> int \<Rightarrow> u8 list option \<Rightarrow> u8 list option \<Rightarrow> gfx \<Rightarrow> gfx res" where
  "widget_draw_dialog fm x y w h title message =
     seq (gfx_draw_shadow (x - 8) (y - 10) (w + 16) (h + 20) 16 0x00000000 80)
     (seq (gfx_fill_rect_rounded x y w h 12 0xE01C2C40)
     (seq (gfx_fill_rect_rounded x y w 26 12 0xE0305070)
     (seq (gfx_fill_rect_rounded (x + 2) (y + 2) (w - 4) 10 10 0xE0406080)
     (seq (ignore (font_draw_text fm (x + 12) (y + 6) (case title of None \<Rightarrow> Some (cstr ''Dialog'') | Some t \<Rightarrow> Some t) 0x00FFFFFF False))
     (seq (gfx_fill_rect_rounded (x + w - 22) (y + 5) 16 16 8 0x00904040)
     (seq (ignore (font_draw_text fm (x + w - 18) (y + 8) (Some (cstr ''X'')) 0x00FFFFFF False))
     (seq (case message of None \<Rightarrow> Inr | Some t \<Rightarrow> ignore (font_draw_text fm (x + 12) (y + 36) (Some t) 0x00B0C8E0 False))
     (seq (gfx_fill_rect_rounded (x + cdiv w 2 - 40) (y + h - 30) 80 22 8 0x004878B0)
          (ignore (font_draw_text_aligned fm (x + cdiv w 2 - 40) (y + h - 28) 80 (Some (cstr ''OK'')) 0x00FFFFFF FONT_ALIGN_CENTER))))))))))"

definition widget_list_hittest :: "int \<Rightarrow> int \<Rightarrow> int \<Rightarrow> int \<Rightarrow> int \<Rightarrow> int res" where
  "widget_list_hittest x y items_y item_h n =
     (if x < 0 \<or> y < items_y then Inr (-1)
      else if item_h = 0 then Inl Fault
      else let idx = cdiv (y - items_y) item_h in Inr (if 0 \<le> idx \<and> idx < n then idx else -1))"

definition widget_draw_toggle :: "int \<Rightarrow> int \<Rightarrow> int \<Rightarrow> int \<Rightarrow> bool \<Rightarrow> gfx \<Rightarrow> gfx res" where
  "widget_draw_toggle x y w h enabled =
     (let bg = (if enabled then 0x004878B0 else 0x00405060); knob = (if enabled then 0x00FFFFFF else 0x008090A0);
          knob_radius = cdiv h 2 - 2; knob_x = (if enabled then x + w - h + 2 else x + 2)
      in seq (gfx_fill_rect_rounded x y w h (cdiv h 2) bg) (gfx_fill_circle (knob_x + knob_radius) (y + knob_radius + 1) (knob_radius - 1) knob))"

definition widget_draw_progress :: "int \<Rightarrow> int \<Rightarrow> int \<Rightarrow> int \<Rightarrow> int \<Rightarrow> gfx \<Rightarrow> gfx res" where
  "widget_draw_progress x y w h percent =
     seq (gfx_fill_rect_rounded x y w h (cdiv h 2) 0x0020304C)
         (if percent > 0 then
            let f = cdiv (w * percent) 100; fill_w = (if f < 4 then 4 else f) in gfx_fill_rect_rounded x y fill_w h (cdiv h 2) 0x004878B0
          else Inr)"

section \<open>Everything is clipped\<close>

lemma draws_fill_circle [intro]: "draws (gfx_fill_circle cx cy r c)"
  unfolding gfx_fill_circle_def by (intro draws_mfold draws_paints [OF paints_row])

lemma draws_glyph [intro]: "draws (font_draw_glyph x y ch c)"
  unfolding font_draw_glyph_def Let_def by (intro draws_mfold draws_if draws_basic draws_Inr)

lemma draws_loops [intro]: "draws (rtl_loop t pen y c)" "draws (ltr_loop sp x t pen y c)" "draws (clipped_loop rtl x y cx cy cw ch i t c)"
proof -
  show "draws (rtl_loop t pen y c)" by (induction t arbitrary: pen) auto
  show "draws (ltr_loop sp x t pen y c)" by (induction t arbitrary: pen y) auto
  show "draws (clipped_loop rtl x y cx cy cw ch i t c)" by (induction t arbitrary: i) (auto simp: Let_def)
qed

lemma ignore_simps [simp]:
  "ignore (\<lambda>g. rbind (f g) (\<lambda>g1. Inr (n, g1))) = f" "ignore (\<lambda>g. Inr (n, g)) = Inr"
  by (rule ext, simp add: ignore_def rbind_def split: sum.splits)+

lemma text_eqs:
  "font_draw_text fm x y None c rtl = (\<lambda>g. Inr (0, g))" "font_draw_text_clipped x y None c rtl cx cy cw ch = (\<lambda>g. Inr (0, g))"
  "font_draw_text_aligned fm x y w None c al = (\<lambda>g. Inr (0, g))"
  "font_draw_text fm x y (Some t) c rtl =
     (\<lambda>g. rbind ((if rtl then rtl_loop (rev t) x y c else ltr_loop (line_spacing fm) x t x y c) g) (\<lambda>g1. Inr (int (length t), g1)))"
  "font_draw_text_clipped x y (Some t) c rtl cx cy cw ch = (\<lambda>g. rbind (clipped_loop rtl x y cx cy cw ch 0 t c g) (\<lambda>g1. Inr (int (length t), g1)))"
  "\<exists>x'. font_draw_text_aligned fm x y w (Some t) c al = font_draw_text fm x' y (Some t) c False"
  by (auto simp: fun_eq_iff font_draw_text_def font_draw_text_clipped_def font_draw_text_aligned_def Let_def)

lemma draws_ignore_text [intro]: "draws (ignore (font_draw_text fm x y str c rtl))"
  by (cases str) (auto simp: text_eqs)

lemma draws_ignore_aligned [intro]: "draws (ignore (font_draw_text_aligned fm x y w str c al))"
proof (cases str)
  case (Some t)
  obtain x' where "font_draw_text_aligned fm x y w (Some t) c al = font_draw_text fm x' y (Some t) c False" using text_eqs(6) by blast
  then show ?thesis using Some draws_ignore_text by simp
qed (auto simp: text_eqs)

lemma draws_ignore_clipped [intro]: "draws (ignore (font_draw_text_clipped x y str c rtl cx cy cw ch))"
  by (cases str) (auto simp: text_eqs)

lemma draws_option [intro]: "(\<And>t. draws (f t)) \<Longrightarrow> draws (case s of None \<Rightarrow> Inr | Some t \<Rightarrow> f t)"
  by (cases s) auto

lemmas draws_rules = draws_seq draws_mfold draws_if draws_option draws_basic draws_Inr draws_rounded draws_stroke_rect draws_shadow draws_line
  draws_fill_circle draws_ignore_text draws_ignore_aligned draws_ignore_clipped

lemma draws_rtl [intro]:
  "draws (rtl_draw_text fm x y str c d)" "draws (rtl_draw_text_right_aligned fm x y str c)" "draws (rtl_draw_text_centered fm x y w str c)"
  unfolding rtl_draw_text_def rtl_draw_text_right_aligned_def rtl_draw_text_centered_def Let_def by (intro draws_rules)+

lemma draws_button [intro]: "draws (widget_draw_button fm x y w h label active)"
  by (cases active) (simp_all add: widget_draw_button_def, (intro draws_rules)+)

lemma draws_items [intro]: "draws (draw_items fm limit x y w item_h tx bg items selected)"
  unfolding draw_items_def Let_def by (intro draws_rules)

lemma draws_widgets [intro]:
  "draws (widget_draw_button_modern fm x y w h label bg tc r)" "draws (widget_draw_textfield fm x y w h str focused)"
  "draws (widget_draw_list fm x y w h items selected)" "draws (widget_draw_menu fm x y w h items selected)"
  "draws (widget_draw_dialog fm x y w h title message)" "draws (widget_draw_toggle x y w h on)" "draws (widget_draw_progress x y w h percent)"
  unfolding widget_draw_button_modern_def widget_draw_textfield_def widget_draw_list_def widget_draw_menu_def widget_draw_dialog_def
    widget_draw_toggle_def widget_draw_progress_def Let_def by (intro draws_rules draws_items)+

section \<open>Text is drawn exactly\<close>

text \<open>Whether the pixel in a column and a row of the glyph of a character is set.\<close>

definition glyph_bit :: "u8 \<Rightarrow> int \<Rightarrow> int \<Rightarrow> bool" where
  "glyph_bit ch col row \<longleftrightarrow> 0 \<le> col \<and> col < 8 \<and> 0 \<le> row \<and> row < 13 \<and> (font_get_glyph ch ! nat row) AND drop_bit (nat col) 0x80 \<noteq> 0"

lemma paints_if: "paints f R op \<Longrightarrow> paints f (\<lambda>x y. b \<and> R x y) (if b then op else Inr)"
  using paints_Inr [of f] by (cases b) (simp_all add: paints_def)

lemma paints_glyph: "paints (\<lambda>_. c) (\<lambda>px py. glyph_bit ch (px - x) (py - y)) (font_draw_glyph x y ch c)"
proof -
  let ?set = "\<lambda>row col. (font_get_glyph ch ! nat row) AND drop_bit (nat col) 0x80 \<noteq> 0"
  have "paints (\<lambda>_. c) (\<lambda>px py. \<exists>row\<in>set [0..FONT_HEIGHT - 1]. \<exists>col\<in>set [0..FONT_WIDTH - 1]. ?set row col \<and> (px = x + col \<and> py = y + row))
      (font_draw_glyph x y ch c)"
    unfolding font_draw_glyph_def Let_def gfx_draw_pixel_def by (intro paints_mfold paints_if paints_draw)
  moreover have "(\<exists>row\<in>set [0..FONT_HEIGHT - 1]. \<exists>col\<in>set [0..FONT_WIDTH - 1]. ?set row col \<and> (px = x + col \<and> py = y + row)) = glyph_bit ch (px - x) (py - y)"
    for px py by (force simp: glyph_bit_def FONT_HEIGHT_def FONT_WIDTH_def)
  ultimately show ?thesis by (simp add: paints_def)
qed

lemma paints_seq: "paints (\<lambda>_. c) R1 f1 \<Longrightarrow> paints (\<lambda>_. c) R2 f2 \<Longrightarrow> paints (\<lambda>_. c) (\<lambda>x y. R1 x y \<or> R2 x y) (seq f1 f2)"
  using paints_bind [of c R1 f1 R2 f2] by (simp add: seq_def [abs_def])

lemma paints_ltr:
  assumes "10 \<notin> set t"
  shows "paints (\<lambda>_. c) (\<lambda>px py. \<exists>k<length t. glyph_bit (t ! k) (px - (pen + int k * FONT_ADVANCE)) (py - y)) (ltr_loop sp x t pen y c)"
  using assms
proof (induction t arbitrary: pen)
  case Nil
  then show ?case using paints_Inr [of "\<lambda>_. c"] by simp
next
  case (Cons ch t)
  then have "paints (\<lambda>_. c) (\<lambda>px py. \<exists>k<length t. glyph_bit (t ! k) (px - (pen + FONT_ADVANCE + int k * FONT_ADVANCE)) (py - y)) (ltr_loop sp x t (pen + FONT_ADVANCE) y c)" by simp
  from paints_seq [OF paints_glyph [of c ch pen y] this]
  have p: "paints (\<lambda>_. c) (\<lambda>px py. glyph_bit ch (px - pen) (py - y) \<or>
      (\<exists>k<length t. glyph_bit (t ! k) (px - (pen + FONT_ADVANCE + int k * FONT_ADVANCE)) (py - y))) (ltr_loop sp x (ch # t) pen y c)"
    using Cons.prems by simp
  have "(\<exists>k<length (ch # t). glyph_bit ((ch # t) ! k) (px - (pen + int k * FONT_ADVANCE)) (py - y)) \<longleftrightarrow> glyph_bit ch (px - pen) (py - y) \<or>
      (\<exists>k<length t. glyph_bit (t ! k) (px - (pen + FONT_ADVANCE + int k * FONT_ADVANCE)) (py - y))" for px py
    by (auto simp: less_Suc_eq_0_disj algebra_simps)
  with p show ?case by simp
qed

lemma paints_rtl:
  assumes "10 \<notin> set t"
  shows "paints (\<lambda>_. c) (\<lambda>px py. \<exists>k<length t. glyph_bit (t ! k) (px - (pen - int k * FONT_ADVANCE)) (py - y)) (rtl_loop t pen y c)"
  using assms
proof (induction t arbitrary: pen)
  case Nil
  then show ?case using paints_Inr [of "\<lambda>_. c"] by simp
next
  case (Cons ch t)
  then have "paints (\<lambda>_. c) (\<lambda>px py. \<exists>k<length t. glyph_bit (t ! k) (px - (pen - FONT_ADVANCE - int k * FONT_ADVANCE)) (py - y)) (rtl_loop t (pen - FONT_ADVANCE) y c)" by simp
  from paints_seq [OF paints_glyph [of c ch pen y] this]
  have p: "paints (\<lambda>_. c) (\<lambda>px py. glyph_bit ch (px - pen) (py - y) \<or>
      (\<exists>k<length t. glyph_bit (t ! k) (px - (pen - FONT_ADVANCE - int k * FONT_ADVANCE)) (py - y))) (rtl_loop (ch # t) pen y c)"
    using Cons.prems by simp
  have "(\<exists>k<length (ch # t). glyph_bit ((ch # t) ! k) (px - (pen - int k * FONT_ADVANCE)) (py - y)) \<longleftrightarrow> glyph_bit ch (px - pen) (py - y) \<or>
      (\<exists>k<length t. glyph_bit (t ! k) (px - (pen - FONT_ADVANCE - int k * FONT_ADVANCE)) (py - y))" for px py
    by (auto simp: less_Suc_eq_0_disj algebra_simps)
  with p show ?case by simp
qed

text \<open>
  The loop for right-to-left text starts at the last character and moves the pen to the left, so that the characters stand in the
  same order as in left-to-right text that ends at the given place.
\<close>

lemma rtl_order_is_ltr:
  assumes "10 \<notin> set t" "t \<noteq> []"
  shows "paints (\<lambda>_. c) (\<lambda>px py. \<exists>k<length t. glyph_bit (t ! k) (px - (x - FONT_ADVANCE * int (length t - 1) + int k * FONT_ADVANCE)) (py - y)) (rtl_loop (rev t) x y c)"
proof -
  let ?n = "length t"
  have "(\<exists>k<?n. glyph_bit (rev t ! k) (px - (x - int k * FONT_ADVANCE)) (py - y)) \<longleftrightarrow>
      (\<exists>k<?n. glyph_bit (t ! k) (px - (x - FONT_ADVANCE * int (?n - 1) + int k * FONT_ADVANCE)) (py - y))" (is "?L \<longleftrightarrow> ?R") for px py
  proof
    assume ?L
    then obtain k where k: "k < ?n" "glyph_bit (t ! (?n - 1 - k)) (px - (x - int k * FONT_ADVANCE)) (py - y)" by (auto simp: rev_nth)
    then show ?R by (intro exI [of _ "?n - 1 - k"]) (simp add: algebra_simps of_nat_diff)
  next
    assume ?R
    then obtain k where k: "k < ?n" "glyph_bit (t ! k) (px - (x - FONT_ADVANCE * int (?n - 1) + int k * FONT_ADVANCE)) (py - y)" by auto
    then show ?L by (intro exI [of _ "?n - 1 - k"]) (simp add: rev_nth algebra_simps of_nat_diff)
  qed
  then show ?thesis using paints_rtl [of "rev t" c x y] assms(1) by (simp add: paints_def)
qed

text \<open>
  C33. Text appears as it is written: \<open>font_draw_text\<close> of one line returns its length and gives the colour to exactly those pixels of the surface
  that belong to a set dot of a character's glyph, character \<open>k\<close> starting nine pixels times \<open>k\<close> from the left; the
  rest of the surface stays as it was, also when the text leaves the surface.
\<close>

theorem font_draw_text_exact:
  assumes "surface_ok g" "10 \<notin> set t"
  shows "\<exists>m. font_draw_text fm x y (Some t) color False g = Inr (int (length t), g\<lparr>back_pixels := m\<rparr>) \<and>
     (\<forall>px py. on_surface g px py \<longrightarrow> pixel (g\<lparr>back_pixels := m\<rparr>) px py =
        (if \<exists>k<length t. glyph_bit (t ! k) (px - x - 9 * int k) (py - y) then color else pixel g px py))"
proof -
  have e: "(\<exists>k<length t. glyph_bit (t ! k) (px - x - 9 * int k) (py - y)) \<longleftrightarrow> (\<exists>k<length t. glyph_bit (t ! k) (px - (x + int k * FONT_ADVANCE)) (py - y))" for px py
    by (simp add: FONT_ADVANCE_def algebra_simps)
  show ?thesis unfolding e using paints_ltr [OF assms(2), of color x y "line_spacing fm" x] assms(1)
    by (fastforce simp: paints_def text_eqs)
qed

theorem font_draw_text_exact_witness:
  "\<exists>m. font_draw_text font_metrics0 (-2) (-2) (Some (cstr ''T'')) 7 False small_surface = Inr (1, small_surface\<lparr>back_pixels := m\<rparr>) \<and>
     pixel (small_surface\<lparr>back_pixels := m\<rparr>) 0 0 = 7"
proof -
  have ok: "surface_ok small_surface" and on: "on_surface small_surface 0 0"
    by (simp_all add: surface_ok_def on_surface_def n_pixels_def small_surface_def)
  have t: "10 \<notin> set (cstr ''T'')" "length (cstr ''T'') = 1" by code_simp+
  have b: "glyph_bit (cstr ''T'' ! 0) (0 - (- 2) - 9 * int 0) (0 - (- 2))" by code_simp
  obtain m where m: "font_draw_text font_metrics0 (-2) (-2) (Some (cstr ''T'')) 7 False small_surface = Inr (int (length (cstr ''T'')), small_surface\<lparr>back_pixels := m\<rparr>)"
    "\<forall>px py. on_surface small_surface px py \<longrightarrow> pixel (small_surface\<lparr>back_pixels := m\<rparr>) px py =
        (if \<exists>k<length (cstr ''T''). glyph_bit (cstr ''T'' ! k) (px - (- 2) - 9 * int k) (py - (- 2)) then 7 else pixel small_surface px py)"
    using font_draw_text_exact [OF ok t(1), of font_metrics0 "-2" "-2" 7] by blast
  with m(2) on b t(2) have "pixel (small_surface\<lparr>back_pixels := m\<rparr>) 0 0 = 7" by simp
  with m(1) t(2) show ?thesis by auto
qed

end
