(* ===== verification/Desktop.thy ===== *)
theory Desktop
  imports Text Wm
begin

text \<open>
  The desktop shell of \<^verbatim>\<open>src/desktop\<close>: registered applications, recent launches, start menu and panel, with their reaction to
  clicks; the task bar of \<^verbatim>\<open>src/gui/taskbar.c\<close>; and the drawing of desktop, panel, menu and windows (\<^verbatim>\<open>src/gui/wm_core.c\<close>).
\<close>

section \<open>Applications and sessions\<close>

definition DESKTOP_MAX_APPS :: nat where "DESKTOP_MAX_APPS = 8"
definition DESKTOP_APP_NAME_MAX :: nat where "DESKTOP_APP_NAME_MAX = 32"
definition MENU_W :: int where "MENU_W = 400"
definition ROW_H :: int where "ROW_H = 36"
definition PANEL_H :: int where "PANEL_H = 48"
definition TASKBAR_H :: int where "TASKBAR_H = 48"
definition ICON_HEIGHT :: int where "ICON_HEIGHT = 32"
definition ICON_PADDING :: int where "ICON_PADDING = 8"
definition TIMER_FREQUENCY :: u64 where "TIMER_FREQUENCY = 100"

record desktop_app =
  app_id :: "u8 list"
  app_label :: "u8 list"
  app_title :: "u8 list"

text \<open>The globals of the four files, with the windows. The registered applications are the first \<open>g_app_count\<close> entries of the table.\<close>

record desktop =
  g_apps :: "desktop_app list"
  g_recent :: "u8 list list"
  g_recent_pos :: nat
  g_open :: bool
  dwm :: wm

definition desktop_app_registry_init :: "desktop \<Rightarrow> int \<times> desktop" where
  "desktop_app_registry_init s = (0, s\<lparr>g_apps := [
     \<lparr>app_id = cstr ''terminal'', app_label = cstr ''Terminal'', app_title = cstr ''Madar Terminal''\<rparr>,
     \<lparr>app_id = cstr ''files'', app_label = cstr ''Files'', app_title = cstr ''Madar Files''\<rparr>,
     \<lparr>app_id = cstr ''settings'', app_label = cstr ''Settings'', app_title = cstr ''Madar Settings''\<rparr>,
     \<lparr>app_id = cstr ''tasks'', app_label = cstr ''Tasks'', app_title = cstr ''Madar Task Manager''\<rparr>]\<rparr>)"

definition desktop_app_count :: "desktop \<Rightarrow> int" where
  "desktop_app_count s = int (length (g_apps s))"

definition desktop_app_get :: "int \<Rightarrow> desktop \<Rightarrow> desktop_app option" where
  "desktop_app_get i s = (if i < 0 \<or> i \<ge> desktop_app_count s then None else Some (g_apps s ! nat i))"

definition desktop_app_find :: "u8 list option \<Rightarrow> desktop \<Rightarrow> desktop_app option" where
  "desktop_app_find idn s = (case idn of None \<Rightarrow> None | Some i \<Rightarrow> find (\<lambda>a. app_id a = i) (g_apps s))"

definition desktop_session_init :: "desktop \<Rightarrow> int \<times> desktop" where
  "desktop_session_init s = (0, s\<lparr>g_recent := replicate 5 [], g_recent_pos := 0\<rparr>)"

definition desktop_session_note_launch :: "u8 list option \<Rightarrow> desktop \<Rightarrow> desktop" where
  "desktop_session_note_launch idn s =
     (case idn of None \<Rightarrow> s
      | Some i \<Rightarrow> s\<lparr>g_recent := (g_recent s)[g_recent_pos s := take (DESKTOP_APP_NAME_MAX - 1) i], g_recent_pos := (g_recent_pos s + 1) mod 5\<rparr>)"

definition desktop_session_recent :: "int \<Rightarrow> desktop \<Rightarrow> u8 list option" where
  "desktop_session_recent i s =
     (if i < 0 \<or> i \<ge> 5 then None
      else let p0 = int (g_recent_pos s) - 1 - i; p = (if p0 < 0 then p0 + 5 else p0) in
        if g_recent s ! nat p \<noteq> [] then Some (g_recent s ! nat p) else None)"

definition desktop_session_open_count :: "desktop \<Rightarrow> int" where
  "desktop_session_open_count s = wm_get_count (g_windows (dwm s))"

section \<open>Start menu, panel and clicks\<close>

definition desktop_start_menu_init :: "desktop \<Rightarrow> int \<times> desktop" where
  "desktop_start_menu_init s = (0, s\<lparr>g_open := False\<rparr>)"

definition desktop_start_menu_toggle :: "desktop \<Rightarrow> desktop" where
  "desktop_start_menu_toggle s = s\<lparr>g_open := \<not> g_open s\<rparr>"

definition desktop_start_menu_close :: "desktop \<Rightarrow> desktop" where
  "desktop_start_menu_close s = s\<lparr>g_open := False\<rparr>"

definition desktop_start_menu_is_open :: "desktop \<Rightarrow> bool" where
  "desktop_start_menu_is_open s = g_open s"

definition desktop_app_launch :: "u8 list option \<Rightarrow> desktop \<Rightarrow> int \<times> desktop" where
  "desktop_app_launch idn s =
     (case desktop_app_find idn s of None \<Rightarrow> (-1, s)
      | Some app \<Rightarrow>
          let slot = desktop_session_open_count s;
              (wid, w1) = wm_create (Some (app_title app)) (110 + slot * 28) (95 + slot * 24) 360 220 (dwm s)
          in if wid < 0 then (-1, s\<lparr>dwm := w1\<rparr>)
             else let (_, w2) = wm_raise (word_of_int wid) w1
                  in (wid, desktop_start_menu_close (desktop_session_note_launch idn (s\<lparr>dwm := w2\<rparr>))))"

definition menu_y :: "desktop \<Rightarrow> int" where
  "menu_y s = gfx_height (dwm s) - PANEL_H - 80 - desktop_app_count s * ROW_H"

definition menu_x :: int where "menu_x = 18"

text \<open>The row of the menu under a coordinate: the rows are 36 pixels apart and 32 high.\<close>

definition menu_row :: "int \<Rightarrow> int \<Rightarrow> int \<Rightarrow> int option" where
  "menu_row app_start_y rows y = find (\<lambda>i. y \<ge> app_start_y + i * ROW_H \<and> y < app_start_y + i * ROW_H + ROW_H - 4) [0..rows - 1]"

definition desktop_start_menu_handle_click :: "int \<Rightarrow> int \<Rightarrow> desktop \<Rightarrow> int \<times> desktop" where
  "desktop_start_menu_handle_click x y s =
     (if \<not> g_open s then (-1, s)
      else let rows = desktop_app_count s; left = menu_x; top = menu_y s; bottom = top + 110 + rows * ROW_H in
        if x < left \<or> x \<ge> left + MENU_W \<or> y < top \<or> y \<ge> bottom then (-1, desktop_start_menu_close s)
        else case menu_row (top + 72) rows y of None \<Rightarrow> (0, s)
          | Some i \<Rightarrow> (case desktop_app_get i s of None \<Rightarrow> (-1, s)
              | Some app \<Rightarrow> let (r, s1) = desktop_app_launch (Some (app_id app)) (desktop_start_menu_close s) in (if r < 0 then -1 else 0, s1)))"

definition desktop_panel_handle_click :: "int \<Rightarrow> int \<Rightarrow> desktop \<Rightarrow> int \<times> desktop" where
  "desktop_panel_handle_click x y s =
     (if (word_of_int y :: u32) < word_of_int (gfx_height (dwm s)) - 48 then (-1, s)
      else let cx = cdiv (gfx_width (dwm s) - 480) 2 in
        if x \<ge> cx \<and> x < cx + 56 then (0, desktop_start_menu_toggle s) else (0, s))"

definition desktop_shell_init :: "desktop \<Rightarrow> int \<times> desktop" where
  "desktop_shell_init s =
     (let (r1, s1) = desktop_session_init s in if r1 \<noteq> 0 then (-1, s1)
      else let (r2, s2) = desktop_app_registry_init s1 in if r2 \<noteq> 0 then (-1, s2)
      else let (r3, s3) = desktop_start_menu_init s2 in if r3 \<noteq> 0 then (-1, s3) else (0, s3))"

definition desktop_shell_handle_click :: "int \<Rightarrow> int \<Rightarrow> desktop \<Rightarrow> int \<times> desktop" where
  "desktop_shell_handle_click x y s =
     (let (r1, s1) = desktop_start_menu_handle_click x y s in
      if r1 = 0 then (0, s1)
      else let (r2, s2) = desktop_panel_handle_click x y s1 in
        if r2 = 0 then (0, s2) else (-1, desktop_start_menu_close s2))"

definition desktop_shell_selftest :: "desktop \<Rightarrow> int \<times> desktop" where
  "desktop_shell_selftest s =
     (if desktop_app_count s < 4 then (-1, s)
      else if \<exists>i\<in>set [cstr ''terminal'', cstr ''files'', cstr ''settings'', cstr ''tasks'']. desktop_app_find (Some i) s = None then (-1, s)
      else let s1 = desktop_start_menu_toggle s in
        if \<not> desktop_start_menu_is_open s1 then (-1, s1)
        else let s2 = desktop_start_menu_close s1 in
          if desktop_start_menu_is_open s2 then (-1, s2) else (0, s2))"

definition taskbar_click :: "int \<Rightarrow> int \<Rightarrow> wm \<Rightarrow> int \<times> u32 option" where
  "taskbar_click x y s =
     (if (word_of_int y :: u32) < word_of_int (gfx_height s) - 48 then (-1, None)
      else let icon_index = cdiv (x - ICON_PADDING) (ICON_HEIGHT + ICON_PADDING) in
        if 0 \<le> icon_index \<and> icon_index < wm_get_count (g_windows s) then
          (case wm_get_by_id (word_of_int (icon_index + 1)) s of Some k \<Rightarrow> (0, Some (w_id (g_windows s ! k))) | None \<Rightarrow> (-1, None))
        else (-1, None))"

section \<open>Drawing\<close>

definition ticks_to_time_str :: "u64 \<Rightarrow> u8 list" where
  "ticks_to_time_str ticks =
     (let total_seconds = ticks div TIMER_FREQUENCY; hours = (total_seconds div 3600) mod 24; minutes = (total_seconds div 60) mod 60
      in [ucast (48 + hours div 10), ucast (48 + hours mod 10), 58, ucast (48 + minutes div 10), ucast (48 + minutes mod 10)])"

definition button_row :: "font_metrics \<Rightarrow> int \<Rightarrow> int \<Rightarrow> (int \<times> string) list \<Rightarrow> gfx \<Rightarrow> gfx res" where
  "button_row fm cx y bs = mfold (\<lambda>(dx, label). widget_draw_button fm (cx + dx) (y + 10) 48 26 (Some (cstr label)) False) bs"

text \<open>What the panel draws on a surface of the given size.\<close>

definition panel_ops :: "font_metrics \<Rightarrow> u64 \<Rightarrow> desktop \<Rightarrow> u32 \<Rightarrow> u32 \<Rightarrow> gfx \<Rightarrow> gfx res" where
  "panel_ops fm ticks s w h =
     (let y = uint (h - 48); cx = cdiv (uint w - 480) 2; c = wm_get_count (g_windows (dwm s)); clock_x = uint w - 90 - 16 in
        seq (gfx_fill_rect 0 y (uint w) PANEL_H 0x00101524)
        (seq (gfx_fill_rect 0 y (uint w) 1 0x004A6A9B)
        (seq (gfx_draw_shadow (cx - 16) (y + 3) (480 + 32) 40 14 0x00000000 72)
        (seq (gfx_fill_rect_rounded_blend (cx - 14) (y + 5) (480 + 28) 36 18 0xCC283752)
        (seq (gfx_fill_rect_rounded_blend (cx - 12) (y + 7) (480 + 24) 32 16 0xCC344868)
        (seq (gfx_fill_rect_rounded_blend (cx - 10) (y + 8) (480 + 20) 8 14 0xCC6B87B4)
        (seq (widget_draw_button fm cx (y + 10) 56 26 (Some (cstr ''START'')) (desktop_start_menu_is_open s))
        (seq (button_row fm cx y [(66, ''TERM''), (122, ''FILES''), (178, ''EDGE''), (234, ''SET''), (290, ''TASKS''), (350, ''LAUNCH''), (406, ''CLIP'')])
        (seq (ignore (font_draw_text fm 12 (y + 18) (Some (cstr ''MADAR OS'')) 0x00E0EEFF False))
        (seq (if c > 0 then
                seq (ignore (font_draw_text fm 88 (y + 18) (Some [word_of_int (48 + c)]) 0x00FFFFFF False))
                    (ignore (font_draw_text fm 100 (y + 18) (Some (cstr ''windows'')) 0x009AACCC False))
              else Inr)
        (seq (gfx_fill_rect_rounded_blend clock_x (y + 8) 90 30 10 0xCC1C2A44)
             (ignore (font_draw_text_aligned fm clock_x (y + 16) 90 (Some (ticks_to_time_str ticks)) 0x00FFFFFF FONT_ALIGN_CENTER)))))))))))))"

definition desktop_panel_draw :: "font_metrics \<Rightarrow> u64 \<Rightarrow> desktop \<Rightarrow> gfx \<Rightarrow> gfx res" where
  "desktop_panel_draw fm ticks s g = (if gs_height g < 48 then Inr g else panel_ops fm ticks s (gs_width g) (gs_height g) g)"

definition menu_item_draw :: "font_metrics \<Rightarrow> int \<Rightarrow> int \<Rightarrow> desktop_app \<Rightarrow> gfx \<Rightarrow> gfx res" where
  "menu_item_draw fm x row_y app =
     seq (gfx_fill_rect_rounded_blend (x + 16) row_y (MENU_W - 32) (ROW_H - 4) 8 0x30000000)
     (seq (gfx_stroke_rect_rounded (x + 16) row_y (MENU_W - 32) (ROW_H - 4) 8 1 0x10B0C0D0)
     (seq (gfx_fill_rect_rounded (x + 22) (row_y + 4) 20 20 6 0x40486888)
          (ignore (font_draw_text fm (x + 52) (row_y + 8) (Some (app_label app)) 0x00203048 False))))"

definition desktop_start_menu_draw :: "font_metrics \<Rightarrow> desktop \<Rightarrow> gfx \<Rightarrow> gfx res" where
  "desktop_start_menu_draw fm s =
     (if \<not> g_open s then Inr
      else let rows = desktop_app_count s; x = menu_x; y = menu_y s; h = 110 + rows * ROW_H in
        seq (gfx_draw_shadow (x - 8) (y - 10) (MENU_W + 16) (h + 20) 20 0x00000000 80)
        (seq (gfx_fill_rect_rounded x y MENU_W h 20 0xF0EAF0F8)
        (seq (gfx_fill_rect_rounded (x + 3) (y + 3) (MENU_W - 6) (h - 6) 18 0xF0E0E8F0)
        (seq (gfx_fill_rect_rounded (x + 16) (y + 12) (MENU_W - 32) 28 10 0xD0D0DFEC)
        (seq (gfx_fill_rect_rounded (x + 18) (y + 14) (MENU_W - 36) 24 8 0xE0E5EDF5)
        (seq (ignore (font_draw_text fm (x + 28) (y + 20) (Some (cstr ''Search apps, settings, docs'')) 0x00607088 False))
        (seq (ignore (font_draw_text fm (x + 20) (y + 52) (Some (cstr ''Pinned'')) 0x00304058 False))
        (seq (mfold (\<lambda>i. case desktop_app_get i s of None \<Rightarrow> Inr | Some app \<Rightarrow> menu_item_draw fm x (y + 72 + i * ROW_H) app) [0..rows - 1])
        (seq (gfx_fill_rect_rounded (x + 16) (y + h - 24) (MENU_W - 32) 18 8 0x20B0C0D0)
             (ignore (font_draw_text_aligned fm (x + 16) (y + h - 22) (MENU_W - 32) (Some (cstr ''Madar OS - All apps'')) 0x00708098 FONT_ALIGN_CENTER)))))))))))"

definition desktop_shell_draw :: "font_metrics \<Rightarrow> u64 \<Rightarrow> desktop \<Rightarrow> gfx \<Rightarrow> gfx res" where
  "desktop_shell_draw fm ticks s = seq (desktop_start_menu_draw fm s) (desktop_panel_draw fm ticks s)"

definition desktop_ops :: "font_metrics \<Rightarrow> u32 \<Rightarrow> u32 \<Rightarrow> gfx \<Rightarrow> gfx res" where
  "desktop_ops fm w h =
     (let wi = uint w;
          row = (\<lambda>y :: u32. if y < h div 4 then 0x000C1831 else if y < h div 2 then 0x00101F3A else if y < (3 * h) div 4 then 0x00142646 else 0x000D1830)
      in seq (gfx_clear 0x00101825)
         (seq (mfold (\<lambda>y. gfx_fill_rect 0 (int y) wi 1 (row (of_nat y))) [0..<unat h])
         (seq (gfx_fill_circle (uint ((w * 18) div 100)) (uint ((h * 16) div 100)) (uint (w div 6)) 0x00112346)
         (seq (gfx_fill_circle (uint ((w * 78) div 100)) (uint ((h * 18) div 100)) (uint (w div 5)) 0x00142F66)
         (seq (gfx_fill_circle (uint ((w * 68) div 100)) (uint ((h * 72) div 100)) (uint (w div 4)) 0x000E2148)
         (seq (gfx_fill_circle (uint ((w * 38) div 100)) (uint ((h * 82) div 100)) (uint (w div 4)) 0x00152349)
         (seq (gfx_draw_shadow (wi - 320) 22 280 68 16 0x00000000 64)
         (seq (gfx_fill_rect_rounded_blend (wi - 318) 24 276 64 20 0xA0374F7B)
         (seq (gfx_fill_rect_rounded_blend (wi - 316) 26 272 60 18 0xA0466395)
         (seq (gfx_fill_rect_rounded_blend (wi - 314) 28 268 14 16 0xA0738FBD)
         (seq (ignore (font_draw_text fm (wi - 280) 46 (Some (cstr ''MADAR OS'')) 0x00F7FBFF False))
              (ignore (font_draw_text fm (wi - 280) 64 (Some (cstr ''Fluent glass shell'')) 0x00D5E6FF False)))))))))))))"

definition desktop_shell_draw_desktop :: "font_metrics \<Rightarrow> gfx \<Rightarrow> gfx res" where
  "desktop_shell_draw_desktop fm g = desktop_ops fm (gs_width g) (gs_height g) g"

text \<open>Windows.\<close>

definition draw_minimize_glyph :: "int \<Rightarrow> int \<Rightarrow> int \<Rightarrow> u32 \<Rightarrow> gfx \<Rightarrow> gfx res" where
  "draw_minimize_glyph x y sz color =
     (let width = (if cdiv sz 3 < 10 then 10 else cdiv sz 3) in gfx_fill_rect (x + cdiv (sz - width) 2) (y + cdiv sz 2 + 4) width 2 color)"

definition draw_maximize_glyph :: "int \<Rightarrow> int \<Rightarrow> int \<Rightarrow> u32 \<Rightarrow> gfx \<Rightarrow> gfx res" where
  "draw_maximize_glyph x y sz color =
     (let box = (if cdiv sz 3 < 10 then 10 else cdiv sz 3) in gfx_stroke_rect_rounded (x + cdiv (sz - box) 2) (y + cdiv (sz - box) 2) box box 2 1 color)"

definition draw_close_glyph :: "int \<Rightarrow> int \<Rightarrow> int \<Rightarrow> u32 \<Rightarrow> gfx \<Rightarrow> gfx res" where
  "draw_close_glyph x y sz color =
     (let pad = cdiv sz 3 in
      seq (gfx_draw_line (x + pad) (y + pad) (x + sz - pad) (y + sz - pad) color 2)
          (gfx_draw_line (x + sz - pad) (y + pad) (x + pad) (y + sz - pad) color 2))"

definition draw_window :: "font_metrics \<Rightarrow> wm \<Rightarrow> wm_window \<Rightarrow> gfx \<Rightarrow> gfx res" where
  "draw_window fm s w =
     (let active = (z_index w = max_z (- 1) (g_windows s)); th = 34; radius = (if w_state w = WM_MAXIMIZED then 8 else corner_radius w);
          bs = (if th > 28 then th - 8 else th - 4); button_y = w_y w + cdiv (th - bs) 2;
          close_x = w_x w + w_w w - bs - 10; maximize_x = close_x - bs; minimize_x = maximize_x - bs;
          border_color = (if is_glass w then (if active then 0x804A6A9B else 0x60304060) else (if active then 0x00C9D7EA else 0x00D2DBE6))
      in seq (gfx_draw_shadow (w_x w - 6) (w_y w - 8) (w_w w + 12) (w_h w + 16) 16 0x00000000 (if active then 92 else 56))
         (seq (if is_glass w then
                 seq (gfx_fill_rect_rounded_blend (w_x w) (w_y w) (w_w w) (w_h w) radius 0xB0101825)
                     (gfx_fill_rect_rounded_blend (w_x w + 1) (w_y w + 1) (w_w w - 2) (th + 12) (radius - 1) 0xD0151E30)
               else
                 seq (gfx_fill_rect_rounded (w_x w) (w_y w) (w_w w) (w_h w) radius (if active then 0xF0F8FBFF else 0xF0F0F4F9))
                 (seq (gfx_fill_rect_rounded (w_x w + 1) (w_y w + 1) (w_w w - 2) (th + 12) (radius - 1) (if active then 0xF0FCFEFF else 0xF0EDF2F8))
                      (gfx_fill_rect_rounded (w_x w + 1) (w_y w + 1) (w_w w - 2) 12 (radius - 2) 0x00FFFFFF)))
         (seq (gfx_stroke_rect_rounded (w_x w) (w_y w) (w_w w) (w_h w) radius 1 border_color)
         (seq (gfx_fill_rect (w_x w + 1) (w_y w + th) (w_w w - 2) 1 0x00DDE6F0)
         (seq (ignore (font_draw_text fm (w_x w + 18) (w_y w + cdiv (th - font_get_height) 2) (Some (w_title w)) (if active then 0x00162032 else 0x006A7A8C) False))
         (seq (gfx_fill_rect_rounded minimize_x button_y bs bs 6 0x00EEF4FB)
         (seq (gfx_fill_rect_rounded maximize_x button_y bs bs 6 0x00EEF4FB)
         (seq (gfx_fill_rect_rounded close_x button_y bs bs 6 (if active then 0x00E24A59 else 0x00E07C87))
         (seq (draw_minimize_glyph minimize_x button_y bs 0x00465C7B)
         (seq (draw_maximize_glyph maximize_x button_y bs 0x00465C7B)
              (draw_close_glyph close_x button_y bs 0x00FFFFFF)))))))))))"

text \<open>\<open>wm_draw_all\<close> is the list of windows in the order in which they are painted.\<close>

definition wm_paint_all :: "font_metrics \<Rightarrow> wm \<Rightarrow> gfx \<Rightarrow> gfx res" where
  "wm_paint_all fm s = mfold (draw_window fm s) (wm_draw_all s)"

section \<open>Every frame is clipped to the surface\<close>

text \<open>A drawing call that first reads the size of the surface changes nothing but pixels either.\<close>

lemma draws_pointwise: "(\<And>g. surface_ok g \<Longrightarrow> \<exists>f. draws f \<and> op g = f g) \<Longrightarrow> draws op"
  unfolding draws_def by metis

lemma draws_clear [intro]: "draws (gfx_clear c)"
proof -
  have "\<exists>m. gfx_clear c g = Inr (g\<lparr>back_pixels := m\<rparr>)" if "surface_ok g" for g
    using that mfold_px [of "\<lambda>k. k" "[0..<n_pixels g]" g "\<lambda>_. c"] by (auto simp: gfx_clear_def surface_ok_def)
  then show ?thesis by (simp add: draws_def)
qed

lemma draws_button_row [intro]: "draws (button_row fm cx y bs)"
  unfolding button_row_def by (rule draws_mfold) (auto simp: case_prod_unfold)

lemma draws_panel_ops [intro]: "draws (panel_ops fm ticks s w h)"
  unfolding panel_ops_def Let_def by (intro draws_rules draws_button draws_button_row)

lemma draws_panel [intro]: "draws (desktop_panel_draw fm ticks s)"
proof (rule draws_pointwise)
  show "\<exists>f. draws f \<and> desktop_panel_draw fm ticks s g = f g" for g
    by (rule exI [of _ "if gs_height g < 48 then Inr else panel_ops fm ticks s (gs_width g) (gs_height g)"]) (auto simp: desktop_panel_draw_def)
qed

lemma draws_start_menu [intro]: "draws (desktop_start_menu_draw fm s)"
  unfolding desktop_start_menu_draw_def menu_item_draw_def Let_def by (intro draws_rules)

lemma draws_desktop_ops [intro]: "draws (desktop_ops fm w h)"
  unfolding desktop_ops_def Let_def by (intro draws_rules draws_clear)

lemma draws_desktop [intro]: "draws (desktop_shell_draw_desktop fm)"
proof (rule draws_pointwise)
  show "\<exists>f. draws f \<and> desktop_shell_draw_desktop fm g = f g" for g
    by (rule exI [of _ "desktop_ops fm (gs_width g) (gs_height g)"]) (auto simp: desktop_shell_draw_desktop_def)
qed

lemma draws_glyphs [intro]: "draws (draw_minimize_glyph x y n c)" "draws (draw_maximize_glyph x y n c)" "draws (draw_close_glyph x y n c)"
  unfolding draw_minimize_glyph_def draw_maximize_glyph_def draw_close_glyph_def Let_def by (intro draws_rules)+

lemma draws_window_frame [intro]: "draws (draw_window fm s w)"
  unfolding draw_window_def Let_def by (intro draws_rules draws_glyphs)

lemma draws_windows [intro]: "draws (wm_paint_all fm s)"
  unfolding wm_paint_all_def by (intro draws_mfold draws_window_frame)

lemma draws_shell [intro]: "draws (desktop_shell_draw fm ticks s)"
  unfolding desktop_shell_draw_def by (intro draws_seq draws_start_menu draws_panel)

section \<open>Clicks\<close>

lemma launch_windows:
  assumes "desktop_app_launch idn s = (r, s1)"
  shows "g_apps s1 = g_apps s" "dwm s1 = dwm s \<or> (\<exists>t x y w1 i. dwm s1 = snd (wm_raise i w1) \<and> w1 = snd (wm_create t x y 360 220 (dwm s)) \<or> dwm s1 = snd (wm_create t x y 360 220 (dwm s)))"
proof -
  show "g_apps s1 = g_apps s" using assms
    by (auto simp: desktop_app_launch_def Let_def desktop_start_menu_close_def desktop_session_note_launch_def split: option.splits prod.splits if_splits)
  show "dwm s1 = dwm s \<or> (\<exists>t x y w1 i. dwm s1 = snd (wm_raise i w1) \<and> w1 = snd (wm_create t x y 360 220 (dwm s)) \<or> dwm s1 = snd (wm_create t x y 360 220 (dwm s)))"
    using assms
    by (auto simp: desktop_app_launch_def Let_def desktop_start_menu_close_def desktop_session_note_launch_def split: option.splits prod.splits if_splits)
      (metis snd_conv)+
qed

text \<open>A click that the shell leaves to others lies above the panel, so that the task bar, which covers the same rows, never gets one.\<close>

lemma shell_shadows_taskbar:
  assumes "desktop_shell_handle_click x y s = (r, s1)" "r \<noteq> 0" "dwm s1 = dwm s"
  shows "taskbar_click x y (dwm s1) = (-1, None)"
proof -
  obtain r1 t where 1: "desktop_start_menu_handle_click x y s = (r1, t)" by force
  from assms(1,2) 1 have p: "fst (desktop_panel_handle_click x y t) \<noteq> 0" "dwm s1 = dwm (snd (desktop_panel_handle_click x y t))"
    by (auto simp: desktop_shell_handle_click_def Let_def desktop_start_menu_close_def split: prod.splits if_splits)
  then have "(word_of_int y :: u32) < word_of_int (gfx_height (dwm t)) - 48" "dwm s1 = dwm t"
    by (auto simp: desktop_panel_handle_click_def Let_def split: if_splits)
  then show ?thesis by (simp add: taskbar_click_def)
qed

text \<open>
  A click on the start button while the menu is open closes the menu, because it lies outside the menu, and then reaches the
  panel, which opens it again.
\<close>

lemma start_button_keeps_menu_open:
  assumes "g_open s" "gfx_width (dwm s) = 1600" "gfx_height (dwm s) = 900"
  shows "desktop_shell_handle_click 570 870 s = (0, s)"
proof -
  have "desktop_start_menu_handle_click 570 870 s = (-1, s\<lparr>g_open := False\<rparr>)"
    using assms(1) by (simp add: desktop_start_menu_handle_click_def menu_x_def MENU_W_def Let_def desktop_start_menu_close_def)
  moreover have "desktop_panel_handle_click 570 870 (s\<lparr>g_open := False\<rparr>) = (0, s\<lparr>g_open := True\<rparr>)"
    using assms(2,3) by (simp add: desktop_panel_handle_click_def Let_def cdiv_def desktop_start_menu_toggle_def)
  moreover have "s\<lparr>g_open := True\<rparr> = s" using assms(1) by (cases s) simp
  ultimately show ?thesis by (simp add: desktop_shell_handle_click_def)
qed

end
