(* ===== verification/Theme.thy ===== *)
theory Theme
  imports Desktop
begin

text \<open>
  Themes (\<^verbatim>\<open>src/gui/theme.c\<close>, \<^verbatim>\<open>style.c\<close>), the buttons of \<^verbatim>\<open>widgets_modern.c\<close>, animations (\<^verbatim>\<open>animation.c\<close>), the frame
  statistics of \<^verbatim>\<open>perf_monitor.c\<close> and the drawing of the task bar (\<^verbatim>\<open>taskbar.c\<close>), which uses the theme's colours.
\<close>

section \<open>Palettes\<close>

datatype ui_state = UI_STATE_NORMAL | UI_STATE_HOVER | UI_STATE_ACTIVE | UI_STATE_FOCUSED | UI_STATE_DISABLED

record theme_palette =
  bg_primary :: u32
  bg_secondary :: u32
  bg_surface :: u32
  text_primary :: u32
  text_secondary :: u32
  text_disabled :: u32
  accent :: u32
  accent_light :: u32
  accent_dark :: u32
  button_normal :: u32
  button_hover :: u32
  button_active :: u32
  button_disabled :: u32
  window_bg :: u32
  window_titlebar :: u32
  window_titlebar_active :: u32
  window_titlebar_text :: u32
  window_border :: u32
  window_shadow :: u32
  taskbar_bg :: u32
  taskbar_icon_normal :: u32
  taskbar_icon_hover :: u32
  taskbar_icon_active :: u32
  taskbar_indicator :: u32
  border_light :: u32
  border_dark :: u32
  c_warning :: u32
  c_error :: u32
  c_success :: u32

record theme_spacing =
  sp_radius :: int
  shadow_blur :: int
  shadow_offset_x :: int
  shadow_offset_y :: int
  padding_small :: int
  padding_medium :: int
  padding_large :: int
  border_width :: int
  sp_title_height :: int
  taskbar_height :: int
  button_height :: int

record theme =
  theme_name :: "u8 list"
  is_dark :: bool
  colors :: theme_palette
  spacing :: theme_spacing

definition theme_spacing0 :: theme_spacing where
  "theme_spacing0 = \<lparr>sp_radius = 12, shadow_blur = 8, shadow_offset_x = 0, shadow_offset_y = 2, padding_small = 4, padding_medium = 8,
     padding_large = 12, border_width = 1, sp_title_height = 32, taskbar_height = 48, button_height = 32\<rparr>"

definition g_theme_dark :: theme where
  "g_theme_dark = \<lparr>theme_name = cstr ''dark'', is_dark = True,
     colors = \<lparr>bg_primary = 0x001C1C1C, bg_secondary = 0x00262626, bg_surface = 0x002D2D2D,
       text_primary = 0x00E7E7E7, text_secondary = 0x00ABABAB, text_disabled = 0x00666666,
       accent = 0x000078D4, accent_light = 0x005BA3E8, accent_dark = 0x00004A90E2,
       button_normal = 0x003D3D3D, button_hover = 0x004D4D4D, button_active = 0x000078D4, button_disabled = 0x00262626,
       window_bg = 0x001E1E1E, window_titlebar = 0x00262626, window_titlebar_active = 0x001E1E1E, window_titlebar_text = 0x00E7E7E7,
       window_border = 0x00404040, window_shadow = 0x00000000,
       taskbar_bg = 0x00151515, taskbar_icon_normal = 0x00A0A0A0, taskbar_icon_hover = 0x00E7E7E7, taskbar_icon_active = 0x000078D4,
       taskbar_indicator = 0x000078D4, border_light = 0x00404040, border_dark = 0x00000000,
       c_warning = 0x00FFB900, c_error = 0x00E74856, c_success = 0x0010893E\<rparr>,
     spacing = theme_spacing0\<rparr>"

definition g_theme_light :: theme where
  "g_theme_light = \<lparr>theme_name = cstr ''light'', is_dark = False,
     colors = \<lparr>bg_primary = 0x00FFFFFF, bg_secondary = 0x00F9F9F9, bg_surface = 0x00F8F8F8,
       text_primary = 0x00202020, text_secondary = 0x00717171, text_disabled = 0x00AAAAAA,
       accent = 0x000078D4, accent_light = 0x005BA3E8, accent_dark = 0x00004A90E2,
       button_normal = 0x00E8E8E8, button_hover = 0x00D8D8D8, button_active = 0x000078D4, button_disabled = 0x00F2F2F2,
       window_bg = 0x00FFFFFF, window_titlebar = 0x00F6F6F6, window_titlebar_active = 0x00FFFFFF, window_titlebar_text = 0x00202020,
       window_border = 0x00D9D9D9, window_shadow = 0x00000000,
       taskbar_bg = 0x00F9F9F9, taskbar_icon_normal = 0x00717171, taskbar_icon_hover = 0x00202020, taskbar_icon_active = 0x000078D4,
       taskbar_indicator = 0x000078D4, border_light = 0x00E0E0E0, border_dark = 0x00999999,
       c_warning = 0x00FFB900, c_error = 0x00E74856, c_success = 0x0010893E\<rparr>,
     spacing = theme_spacing0\<rparr>"

text \<open>The current theme; nothing is chosen before the first use.\<close>

type_synonym current_theme = "theme option"

definition theme_init :: "current_theme \<Rightarrow> current_theme" where "theme_init g = Some g_theme_dark"
definition theme_set_dark :: "current_theme \<Rightarrow> current_theme" where "theme_set_dark g = Some g_theme_dark"
definition theme_set_light :: "current_theme \<Rightarrow> current_theme" where "theme_set_light g = Some g_theme_light"
definition theme_get_dark :: theme where "theme_get_dark = g_theme_dark"
definition theme_get_light :: theme where "theme_get_light = g_theme_light"

definition theme_get :: "current_theme \<Rightarrow> theme \<times> current_theme" where
  "theme_get g = (let g1 = (if g = None then theme_init g else g) in (the g1, g1))"

definition theme_get_color :: "u8 list option \<Rightarrow> current_theme \<Rightarrow> u32 \<times> current_theme" where
  "theme_get_color name g =
     (let (t, g1) = theme_get g; c = colors t in
      (case name of None \<Rightarrow> text_primary c
       | Some n \<Rightarrow> if n = cstr ''bg_primary'' then bg_primary c
           else if n = cstr ''text_primary'' then text_primary c
           else if n = cstr ''accent'' then accent c
           else if n = cstr ''button'' then button_normal c
           else text_primary c, g1))"

definition rgb :: "u8 \<Rightarrow> u8 \<Rightarrow> u8 \<Rightarrow> u32" where
  "rgb r g b = push_bit 16 (ucast r) OR push_bit 8 (ucast g) OR ucast b"

definition chan :: "nat \<Rightarrow> u32 \<Rightarrow> u8" where
  "chan sh c = ucast (drop_bit sh c AND 0xFF)"

definition blend_chan :: "int \<Rightarrow> u8 \<Rightarrow> u8 \<Rightarrow> u8" where
  "blend_chan p c1 c2 = word_of_int (uint c1 + cdiv ((uint c2 - uint c1) * p) 100)"

definition theme_blend :: "u32 \<Rightarrow> u32 \<Rightarrow> int \<Rightarrow> u32" where
  "theme_blend color1 color2 p0 =
     (let p1 = (if p0 < 0 then 0 else p0); p = (if p1 > 100 then 100 else p1)
      in rgb (blend_chan p (chan 16 color1) (chan 16 color2)) (blend_chan p (chan 8 color1) (chan 8 color2)) (blend_chan p (chan 0 color1) (chan 0 color2)))"

definition theme_darken :: "u32 \<Rightarrow> int \<Rightarrow> u32" where
  "theme_darken color amount =
     (let d = (\<lambda>c :: u8. if uint c > amount then word_of_int (uint c - amount) else 0)
      in rgb (d (chan 16 color)) (d (chan 8 color)) (d (chan 0 color)))"

definition theme_lighten :: "u32 \<Rightarrow> int \<Rightarrow> u32" where
  "theme_lighten color amount =
     (let d = (\<lambda>c :: u8. if uint c < 255 - amount then word_of_int (uint c + amount) else 255)
      in rgb (d (chan 16 color)) (d (chan 8 color)) (d (chan 0 color)))"

definition theme_get_button_color :: "ui_state \<Rightarrow> current_theme \<Rightarrow> u32 \<times> current_theme" where
  "theme_get_button_color state g =
     (let (t, g1) = theme_get g; c = colors t in
      (case state of UI_STATE_HOVER \<Rightarrow> button_hover c | UI_STATE_ACTIVE \<Rightarrow> button_active c | UI_STATE_DISABLED \<Rightarrow> button_disabled c
       | UI_STATE_FOCUSED \<Rightarrow> accent c | UI_STATE_NORMAL \<Rightarrow> button_normal c, g1))"

definition theme_get_text_color :: "ui_state \<Rightarrow> current_theme \<Rightarrow> u32 \<times> current_theme" where
  "theme_get_text_color state g =
     (let (t, g1) = theme_get g in (if state = UI_STATE_DISABLED then text_disabled (colors t) else text_primary (colors t), g1))"

definition theme_get_window_titlebar_color :: "bool \<Rightarrow> current_theme \<Rightarrow> u32 \<times> current_theme" where
  "theme_get_window_titlebar_color is_focused g =
     (let (t, g1) = theme_get g in (if is_focused then window_titlebar_active (colors t) else window_titlebar (colors t), g1))"

definition gui_style_bg :: u32 where "gui_style_bg = 0x00101012"
definition gui_style_fg :: u32 where "gui_style_fg = 0x00FFFFFF"

section \<open>Buttons\<close>

record widget_state =
  hovered :: bool
  ws_active :: bool
  focused :: bool
  disabled :: bool

text \<open>The handler of a button is a function of the program; its number in some table stands for it.\<close>

record modern_button =
  mb_x :: int
  mb_y :: int
  mb_width :: int
  mb_height :: int
  mb_label :: "u8 list"
  mb_state :: ui_state
  mb_on_click :: "nat option"
  internal_state :: widget_state

definition widgets_init :: "current_theme \<Rightarrow> current_theme" where
  "widgets_init g = theme_init g"

definition widgets_modern_init :: "current_theme \<Rightarrow> current_theme" where
  "widgets_modern_init g = theme_init g"

text \<open>There is one button in static storage, and every creation fills it anew.\<close>

definition button_create :: "int \<Rightarrow> int \<Rightarrow> int \<Rightarrow> int \<Rightarrow> u8 list \<Rightarrow> modern_button \<Rightarrow> modern_button" where
  "button_create x y w h label btn = \<lparr>mb_x = x, mb_y = y, mb_width = w, mb_height = h, mb_label = label, mb_state = UI_STATE_NORMAL, mb_on_click = None,
     internal_state = \<lparr>hovered = False, ws_active = False, focused = False, disabled = False\<rparr>\<rparr>"

definition button_is_hovered :: "modern_button \<Rightarrow> int \<Rightarrow> int \<Rightarrow> bool" where
  "button_is_hovered btn x y \<longleftrightarrow> x \<ge> mb_x btn \<and> x < mb_x btn + mb_width btn \<and> y \<ge> mb_y btn \<and> y < mb_y btn + mb_height btn"

definition button_handle_mouse_over :: "int \<Rightarrow> int \<Rightarrow> modern_button \<Rightarrow> modern_button" where
  "button_handle_mouse_over x y btn = btn\<lparr>internal_state := (internal_state btn)\<lparr>hovered := button_is_hovered btn x y\<rparr>\<rparr>"

definition button_handle_click :: "(nat \<Rightarrow> 's \<Rightarrow> 's) \<Rightarrow> modern_button \<Rightarrow> int \<Rightarrow> int \<Rightarrow> 's \<Rightarrow> 's" where
  "button_handle_click call btn x y s =
     (if button_is_hovered btn x y then (case mb_on_click btn of Some f \<Rightarrow> call f s | None \<Rightarrow> s) else s)"

definition button_render :: "font_metrics \<Rightarrow> theme \<Rightarrow> modern_button \<Rightarrow> gfx \<Rightarrow> gfx res" where
  "button_render fm t btn =
     (let bg = fst (theme_get_button_color (mb_state btn) (Some t)); tx = fst (theme_get_text_color (mb_state btn) (Some t));
          r = sp_radius (spacing t); text_width = 8 * int (length (mb_label btn))
      in seq (gfx_fill_rect_rounded (mb_x btn) (mb_y btn) (mb_width btn) (mb_height btn) r bg)
         (seq (if focused (internal_state btn)
               then gfx_stroke_rect_rounded (mb_x btn) (mb_y btn) (mb_width btn) (mb_height btn) r 2 (accent (colors t))
               else gfx_stroke_rect_rounded (mb_x btn) (mb_y btn) (mb_width btn) (mb_height btn) r 1 (border_light (colors t)))
           (ignore (font_draw_text fm (mb_x btn + cdiv (mb_width btn - text_width) 2) (mb_y btn + cdiv (mb_height btn - 12) 2) (Some (mb_label btn)) tx False))))"

definition widget_update_state :: "bool \<Rightarrow> bool \<Rightarrow> widget_state \<Rightarrow> widget_state" where
  "widget_update_state h a st = st\<lparr>hovered := h, ws_active := a\<rparr>"

definition widget_get_ui_state :: "widget_state \<Rightarrow> ui_state" where
  "widget_get_ui_state st =
     (if disabled st then UI_STATE_DISABLED else if focused st then UI_STATE_FOCUSED else if ws_active st then UI_STATE_ACTIVE
      else if hovered st then UI_STATE_HOVER else UI_STATE_NORMAL)"

section \<open>Task bar\<close>

definition taskbar_init :: "current_theme \<Rightarrow> current_theme" where
  "taskbar_init g = theme_init g"

definition icon_label :: "u8 list \<Rightarrow> u8 list" where
  "icon_label ttl = [ttl ! 0, if length ttl > 1 then ttl ! 1 else 32]"

text \<open>The icons of the windows with identifiers 1 to 20, and the place for the next one.\<close>

fun draw_icons :: "font_metrics \<Rightarrow> theme \<Rightarrow> wm \<Rightarrow> int \<Rightarrow> nat list \<Rightarrow> int \<Rightarrow> gfx \<Rightarrow> gfx res" where
  "draw_icons fm t s icon_y [] icon_x = Inr"
| "draw_icons fm t s icon_y (i # is) icon_x =
     (case wm_get_by_id (of_nat (i + 1)) s of None \<Rightarrow> draw_icons fm t s icon_y is icon_x
      | Some k \<Rightarrow>
          seq (gfx_fill_rect_rounded icon_x icon_y 36 36 6 (taskbar_icon_normal (colors t)))
          (seq (if w_title (g_windows s ! k) \<noteq> []
                then ignore (font_draw_text fm (icon_x + 8) (icon_y + 10) (Some (icon_label (w_title (g_windows s ! k)))) (text_primary (colors t)) False) else Inr)
               (draw_icons fm t s icon_y is (icon_x + 36 + 8))))"

definition taskbar_ops :: "font_metrics \<Rightarrow> theme \<Rightarrow> wm \<Rightarrow> u32 \<Rightarrow> u32 \<Rightarrow> gfx \<Rightarrow> gfx res" where
  "taskbar_ops fm t s w h =
     (let top = sint (h - 48); icon_y = top + cdiv (TASKBAR_H - 36) 2
      in seq (gfx_fill_rect 0 top (sint w) TASKBAR_H (taskbar_bg (colors t)))
         (seq (gfx_fill_rect 0 top (sint w) 1 (border_light (colors t)))
         (seq (draw_icons fm t s icon_y [0..<min 20 (nat (wm_get_count (g_windows s)))] 12)
              (ignore (font_draw_text fm (sint (w - 80)) (icon_y + 10) (Some (cstr ''12:00'')) (text_primary (colors t)) False)))))"

definition taskbar_draw :: "font_metrics \<Rightarrow> theme \<Rightarrow> wm \<Rightarrow> gfx \<Rightarrow> gfx res" where
  "taskbar_draw fm t s g =
     (if gfx_get_height g < 48 then Inr g else taskbar_ops fm t s (gfx_get_width g) (gfx_get_height g) g)"

section \<open>Animations and statistics\<close>

datatype animation_type = ANIM_NONE | ANIM_FADE_IN | ANIM_FADE_OUT | ANIM_SLIDE_LEFT | ANIM_SLIDE_RIGHT | ANIM_SLIDE_UP | ANIM_SLIDE_DOWN | ANIM_SCALE | ANIM_COLOR_CHANGE
datatype easing_type = EASE_LINEAR | EASE_IN_QUAD | EASE_OUT_QUAD | EASE_IN_OUT_QUAD

record animation =
  anim_type :: animation_type
  easing :: easing_type
  start_time :: u32
  duration :: u32
  progress_int :: u32
  anim_active :: bool
  value_from :: int
  value_to :: int
  color_from :: u32
  color_to :: u32

definition animation_init :: u32 where "animation_init = 0"

definition animation_create :: "animation_type \<Rightarrow> u32 \<Rightarrow> u32 \<Rightarrow> animation" where
  "animation_create ty duration_ms g_frame_time =
     \<lparr>anim_type = ty, easing = EASE_OUT_QUAD, start_time = g_frame_time, duration = duration_ms, progress_int = 0, anim_active = True,
      value_from = 0, value_to = 1000, color_from = 0, color_to = 0x00FFFFFF\<rparr>"

definition animation_update :: "u32 \<Rightarrow> animation \<Rightarrow> animation" where
  "animation_update g_frame_time a =
     (if \<not> anim_active a then a
      else let elapsed = g_frame_time - start_time a in
        if elapsed \<ge> duration a then a\<lparr>progress_int := 1000, anim_active := False\<rparr>
        else if duration a > 0 then a\<lparr>progress_int := elapsed * 1000 div duration a\<rparr> else a)"

definition animation_get_progress_int :: "animation \<Rightarrow> int" where
  "animation_get_progress_int a =
     (let t = sint (progress_int a) in
      case easing a of EASE_OUT_QUAD \<Rightarrow> (let inv = 1000 - t in 1000 - cdiv (inv * inv) 1000) | _ \<Rightarrow> t)"

definition animation_is_finished :: "animation \<Rightarrow> bool" where
  "animation_is_finished a = (\<not> anim_active a)"

record perf =
  g_start_tick :: u64
  g_frames :: u32
  g_events :: u32

definition perf_monitor_init :: "u64 \<Rightarrow> perf" where
  "perf_monitor_init ticks = \<lparr>g_start_tick = ticks, g_frames = 0, g_events = 0\<rparr>"

definition perf_monitor_frame :: "u32 \<Rightarrow> perf \<Rightarrow> perf" where
  "perf_monitor_frame evs p = p\<lparr>g_frames := g_frames p + 1, g_events := g_events p + evs\<rparr>"

text \<open>The frames per second it reports.\<close>

definition perf_monitor_report :: "u64 \<Rightarrow> perf \<Rightarrow> u64" where
  "perf_monitor_report ticks p =
     (let dt = ticks - g_start_tick p; dt1 = (if dt = 0 then 1 else dt) in ucast (g_frames p) * 100 div dt1)"

section \<open>Colours\<close>

lemma chan_rgb [simp]: "chan 16 (rgb r g b) = r" "chan 8 (rgb r g b) = g" "chan 0 (rgb r g b) = b"
proof -
  have ff: "(0xFF :: u32) = mask 8" by (simp add: mask_eq_exp_minus_1)
  have far: "\<not> bit x (8 + n)" "\<not> bit x (16 + n)" for x :: u8 and n using bit_imp_le_length [of x] by fastforce+
  show "chan 16 (rgb r g b) = r" "chan 8 (rgb r g b) = g" "chan 0 (rgb r g b) = b"
    unfolding chan_def rgb_def ff by (rule bit_word_eqI, auto simp: bit_simps far)+
qed

text \<open>A blended channel lies between the two channels; the ends of the scale are the two colours.\<close>

lemma cdiv_between:
  assumes "0 \<le> p" "p \<le> 100"
  shows "min a b \<le> a + cdiv ((b - a) * p) 100" "a + cdiv ((b - a) * p) 100 \<le> max a b"
proof -
  have pos: "0 \<le> (n * p) div 100 \<and> (n * p) div 100 \<le> n" if "0 \<le> n" for n :: int
  proof -
    have "n * p \<le> n * 100" using that assms by (intro mult_left_mono) auto
    then have "(n * p) div 100 \<le> (n * 100) div 100" by (rule zdiv_mono1) simp
    moreover have "0 \<le> n * p" using that assms by simp
    ultimately show ?thesis by (simp add: pos_imp_zdiv_nonneg_iff)
  qed
  have "cdiv ((b - a) * p) 100 = (if a \<le> b then ((b - a) * p) div 100 else - (((a - b) * p) div 100))"
  proof (cases "a \<le> b \<or> p = 0")
    case True
    then have "0 \<le> (b - a) * p" using assms by auto
    then show ?thesis using True by (auto simp: cdiv_def sgn_if)
  next
    case False
    then have "(b - a) * p < 0" "\<bar>(b - a) * p\<bar> = (a - b) * p" using assms by (auto simp: mult_neg_pos abs_mult)
    then show ?thesis using False by (simp add: cdiv_def)
  qed
  with pos [of "b - a"] pos [of "a - b"] show "min a b \<le> a + cdiv ((b - a) * p) 100" "a + cdiv ((b - a) * p) 100 \<le> max a b" by auto
qed

lemma blend_chan_between:
  assumes "0 \<le> p" "p \<le> 100"
  shows "min (uint c1) (uint c2) \<le> uint (blend_chan p c1 c2)" "uint (blend_chan p c1 c2) \<le> max (uint c1) (uint c2)"
proof -
  note b = cdiv_between [OF assms, of "uint c1" "uint c2"]
  have "0 \<le> uint c1 + cdiv ((uint c2 - uint c1) * p) 100" "uint c1 + cdiv ((uint c2 - uint c1) * p) 100 < 2 ^ 8"
    using b uint_bounded [of c1] uint_bounded [of c2] uint_nonnegative [of c1] uint_nonnegative [of c2] by (simp_all only: min_def max_def split: if_splits) simp_all
  moreover have "uint (word_of_int z :: u8) = z" if "0 \<le> z" "z < 2 ^ 8" for z using that by (simp add: uint_word_of_int)
  ultimately have "uint (blend_chan p c1 c2) = uint c1 + cdiv ((uint c2 - uint c1) * p) 100" unfolding blend_chan_def by blast
  with b show "min (uint c1) (uint c2) \<le> uint (blend_chan p c1 c2)" "uint (blend_chan p c1 c2) \<le> max (uint c1) (uint c2)" by simp_all
qed

lemma theme_blend_ends:
  "p \<le> 0 \<Longrightarrow> theme_blend c d p = rgb (chan 16 c) (chan 8 c) (chan 0 c)"
  "100 \<le> p \<Longrightarrow> theme_blend c d p = rgb (chan 16 d) (chan 8 d) (chan 0 d)"
proof -
  have "cdiv 0 100 = 0" "cdiv (z * 100) 100 = z" for z by (auto simp: cdiv_def sgn_if abs_mult)
  then have "blend_chan 0 a b = a" "blend_chan 100 a b = b" for a b by (simp_all add: blend_chan_def del: left_diff_distrib' left_diff_distrib left_diff_distrib_numeral)
  then show "p \<le> 0 \<Longrightarrow> theme_blend c d p = rgb (chan 16 c) (chan 8 c) (chan 0 c)"
    "100 \<le> p \<Longrightarrow> theme_blend c d p = rgb (chan 16 d) (chan 8 d) (chan 0 d)" by (auto simp: theme_blend_def Let_def)
qed

section \<open>Drawing stays on the surface\<close>

lemma draws_button_render [intro]: "draws (button_render fm t btn)"
  unfolding button_render_def Let_def by (intro draws_rules draws_rounded draws_stroke_rect draws_ignore_text)

lemma draws_icons [intro]: "draws (draw_icons fm t s y is x)"
proof (induction "is" arbitrary: x)
  case (Cons i "is")
  then show ?case by (cases "wm_get_by_id (of_nat (i + 1)) s") (auto intro!: draws_seq draws_if draws_rounded draws_ignore_text)
qed auto

lemma draws_taskbar_ops [intro]: "draws (taskbar_ops fm t s w h)"
  unfolding taskbar_ops_def Let_def by (intro draws_seq draws_basic draws_icons draws_ignore_text)

lemma draws_taskbar [intro]: "draws (taskbar_draw fm t s)"
proof (rule draws_pointwise)
  fix g
  show "\<exists>f. draws f \<and> taskbar_draw fm t s g = f g"
    by (cases "gfx_get_height g < 48") (auto simp: taskbar_draw_def)
qed

section \<open>Progress\<close>

text \<open>
  Before its end the progress of an animation is the part of its duration that has passed, in thousandths, as long as the product with
  1000 fits into 32 bits.
\<close>

lemma animation_progress:
  assumes "anim_active a" "start_time a \<le> now" "now - start_time a < duration a" "unat (now - start_time a) * 1000 < 2 ^ 32"
  shows "unat (progress_int (animation_update now a)) = unat (now - start_time a) * 1000 div unat (duration a)"
    "unat (progress_int (animation_update now a)) < 1000" "anim_active (animation_update now a)"
proof -
  let ?e = "now - start_time a"
  have d: "0 < unat (duration a)" "unat ?e < unat (duration a)" using assms(3) by (auto simp: word_less_nat_alt)
  have "unat (x * 1000) = unat x * 1000" if "unat x * 1000 < 2 ^ 32" for x :: u32 using that by (simp add: unat_word_ariths)
  note m = this [OF assms(4)]
  show e: "unat (progress_int (animation_update now a)) = unat ?e * 1000 div unat (duration a)"
    using assms(1,3) d m by (simp add: animation_update_def Let_def not_le unat_div_distrib word_gt_0 word_unat_eq_iff)
  show "unat (progress_int (animation_update now a)) < 1000" unfolding e using d by (simp add: div_less_iff_less_mult)
  show "anim_active (animation_update now a)" using assms(1,3) by (simp add: animation_update_def Let_def not_le)
qed

text \<open>A second button replaces the first: the result does not depend on what the storage held.\<close>

lemma button_create_replaces: "button_create x y w h l b1 = button_create x y w h l b2"
  by (simp add: button_create_def)

end
