(* ===== verification/Ata.thy ===== *)
theory Ata
  imports Fat32
begin

text \<open>
  The disk driver of \<^verbatim>\<open>src/drivers/ata.c\<close> and the writing half of \<^verbatim>\<open>src/services/disk_io.c\<close>. The drive behind the
  ports is hardware: the four port instructions are an argument, functions on a drive state of any type. What the driver relies on,
  the transfer protocol of the ATA standard, is the predicate \<open>pio_drive\<close>.
\<close>

section \<open>Registers and constants\<close>

definition ATA_PRIMARY_IO :: u16 where "ATA_PRIMARY_IO = 0x1F0"
definition ATA_PRIMARY_CTRL :: u16 where "ATA_PRIMARY_CTRL = 0x3F6"
definition ATA_PRIMARY_DMA_BASE :: u16 where "ATA_PRIMARY_DMA_BASE = 0xC000"
definition DMA_CHANNEL_SELECT :: u16 where "DMA_CHANNEL_SELECT = 0x0B"
definition DMA_MODE_REGISTER :: u16 where "DMA_MODE_REGISTER = 0x0B"
definition DMA_CLEAR_FF :: u16 where "DMA_CLEAR_FF = 0x0C"
definition DMA_UNMASK_ALL :: u16 where "DMA_UNMASK_ALL = 0x0F"
definition ATA_REG_DATA :: u16 where "ATA_REG_DATA = 0"
definition ATA_REG_SECTOR_CNT :: u16 where "ATA_REG_SECTOR_CNT = 2"
definition ATA_REG_SECTOR_NUM :: u16 where "ATA_REG_SECTOR_NUM = 3"
definition ATA_REG_CYL_LOW :: u16 where "ATA_REG_CYL_LOW = 4"
definition ATA_REG_CYL_HIGH :: u16 where "ATA_REG_CYL_HIGH = 5"
definition ATA_REG_HEAD :: u16 where "ATA_REG_HEAD = 6"
definition ATA_REG_COMMAND :: u16 where "ATA_REG_COMMAND = 7"
definition ATA_REG_STATUS :: u16 where "ATA_REG_STATUS = 7"
definition ATA_STATUS_ERR :: u8 where "ATA_STATUS_ERR = 0x01"
definition ATA_STATUS_DRQ :: u8 where "ATA_STATUS_DRQ = 0x08"
definition ATA_STATUS_BSY :: u8 where "ATA_STATUS_BSY = 0x80"
definition ATA_CMD_READ_SECTORS :: u8 where "ATA_CMD_READ_SECTORS = 0x20"
definition ATA_CMD_WRITE_SECTORS :: u8 where "ATA_CMD_WRITE_SECTORS = 0x30"
definition ATA_CMD_IDENTIFY :: u8 where "ATA_CMD_IDENTIFY = 0xEC"
definition ATA_SECTOR_SIZE :: nat where "ATA_SECTOR_SIZE = 512"
definition ATA_MAX_SECTORS_PER_OP :: u16 where "ATA_MAX_SECTORS_PER_OP = 256"
definition ATA_TIMEOUT_READY :: nat where "ATA_TIMEOUT_READY = 100000"
definition ATA_TIMEOUT_DRQ :: nat where "ATA_TIMEOUT_DRQ = 100000"
definition ATA_RETRY_COUNT :: nat where "ATA_RETRY_COUNT = 3"
definition ATA_ERR_NOT_PRESENT :: int where "ATA_ERR_NOT_PRESENT = -1"
definition ATA_ERR_DRQ_TIMEOUT :: int where "ATA_ERR_DRQ_TIMEOUT = -3"
definition ATA_ERR_DEVICE_ERROR :: int where "ATA_ERR_DEVICE_ERROR = -4"
definition ATA_ERR_INVALID_PARAMS :: int where "ATA_ERR_INVALID_PARAMS = -5"

lemmas ata_regs = ATA_PRIMARY_IO_def ATA_REG_DATA_def ATA_REG_SECTOR_CNT_def ATA_REG_SECTOR_NUM_def ATA_REG_CYL_LOW_def
  ATA_REG_CYL_HIGH_def ATA_REG_HEAD_def ATA_REG_COMMAND_def ATA_REG_STATUS_def

section \<open>State\<close>

record ata_device =
  primary :: bool
  slave :: bool
  io_base :: u16
  ctrl_base :: u16
  dma_base :: u16
  present :: bool
  dma_capable :: bool
  max_lba :: u32
  total_sectors :: u32
  last_error :: u32
  operations :: u32
  errors :: u32

record ata_prd_entry =
  physical_addr :: u32
  byte_count :: u16
  prd_flags :: u16

text \<open>The driver's globals and the drive.\<close>

record 'd ata =
  ata0 :: ata_device
  prd_table :: "ata_prd_entry list"
  hw :: 'd

definition ata0_boot :: ata_device where
  "ata0_boot = \<lparr>primary = True, slave = False, io_base = ATA_PRIMARY_IO, ctrl_base = ATA_PRIMARY_CTRL, dma_base = ATA_PRIMARY_DMA_BASE,
     present = False, dma_capable = False, max_lba = 0, total_sectors = 0, last_error = 0, operations = 0, errors = 0\<rparr>"

definition ata_boot :: "'d \<Rightarrow> 'd ata" where
  "ata_boot d = \<lparr>ata0 = ata0_boot, prd_table = replicate 16 \<lparr>physical_addr = 0, byte_count = 0, prd_flags = 0\<rparr>, hw = d\<rparr>"

record 'd ports =
  p_inb :: "u16 \<Rightarrow> 'd \<Rightarrow> u8 \<times> 'd"
  p_inw :: "u16 \<Rightarrow> 'd \<Rightarrow> u16 \<times> 'd"
  p_outb :: "u16 \<Rightarrow> u8 \<Rightarrow> 'd \<Rightarrow> 'd"
  p_outw :: "u16 \<Rightarrow> u16 \<Rightarrow> 'd \<Rightarrow> 'd"

definition io_inb :: "'d ports \<Rightarrow> u16 \<Rightarrow> 'd ata \<Rightarrow> u8 \<times> 'd ata" where
  "io_inb io port s = (let (v, d) = p_inb io port (hw s) in (v, s\<lparr>hw := d\<rparr>))"

definition io_inw :: "'d ports \<Rightarrow> u16 \<Rightarrow> 'd ata \<Rightarrow> u16 \<times> 'd ata" where
  "io_inw io port s = (let (v, d) = p_inw io port (hw s) in (v, s\<lparr>hw := d\<rparr>))"

definition io_outb :: "'d ports \<Rightarrow> u16 \<Rightarrow> u8 \<Rightarrow> 'd ata \<Rightarrow> 'd ata" where
  "io_outb io port v s = s\<lparr>hw := p_outb io port v (hw s)\<rparr>"

definition io_outw :: "'d ports \<Rightarrow> u16 \<Rightarrow> u16 \<Rightarrow> 'd ata \<Rightarrow> 'd ata" where
  "io_outw io port v s = s\<lparr>hw := p_outw io port v (hw s)\<rparr>"

section \<open>Commands and polling\<close>

definition ata_channel_base :: "u8 \<Rightarrow> u16" where
  "ata_channel_base channel = (if channel = 0 then ATA_PRIMARY_IO else 0)"

definition ata_write_command :: "'d ports \<Rightarrow> u8 \<Rightarrow> u8 \<Rightarrow> u8 \<Rightarrow> u8 \<Rightarrow> 'd ata \<Rightarrow> 'd ata" where
  "ata_write_command io channel slv reg dat s =
     (let base = ata_channel_base channel in if base = 0 then s else io_outb io (base + ucast reg) dat s)"

definition ata_read_command :: "'d ports \<Rightarrow> u8 \<Rightarrow> u8 \<Rightarrow> u8 \<Rightarrow> 'd ata \<Rightarrow> u8 \<times> 'd ata" where
  "ata_read_command io channel slv reg s =
     (let base = ata_channel_base channel in if base = 0 then (0xFF, s) else io_inb io (base + ucast reg) s)"

fun poll_ready :: "'d ports \<Rightarrow> u16 \<Rightarrow> nat \<Rightarrow> 'd ata \<Rightarrow> 'd ata" where
  "poll_ready io base 0 s = s"
| "poll_ready io base (Suc n) s =
     (let (st, s1) = io_inb io (base + ATA_REG_STATUS) s in if st AND ATA_STATUS_BSY = 0 then s1 else poll_ready io base n s1)"

definition ata_wait_ready :: "'d ports \<Rightarrow> u8 \<Rightarrow> u8 \<Rightarrow> 'd ata \<Rightarrow> 'd ata" where
  "ata_wait_ready io channel slv s =
     (let base = ata_channel_base channel in if base = 0 then s else poll_ready io base ATA_TIMEOUT_READY s)"

fun poll_drq :: "'d ports \<Rightarrow> u16 \<Rightarrow> nat \<Rightarrow> 'd ata \<Rightarrow> int \<times> 'd ata" where
  "poll_drq io base 0 s = (ATA_ERR_DRQ_TIMEOUT, s)"
| "poll_drq io base (Suc n) s =
     (let (st, s1) = io_inb io (base + ATA_REG_STATUS) s in
      if st AND ATA_STATUS_ERR \<noteq> 0 then (ATA_ERR_DEVICE_ERROR, s1)
      else if st AND ATA_STATUS_BSY = 0 \<and> st AND ATA_STATUS_DRQ \<noteq> 0 then (0, s1)
      else poll_drq io base n s1)"

definition ata_wait_drq :: "'d ports \<Rightarrow> u16 \<Rightarrow> 'd ata \<Rightarrow> int \<times> 'd ata" where
  "ata_wait_drq io base s = poll_drq io base ATA_TIMEOUT_DRQ s"

section \<open>Identification and set-up\<close>

text \<open>Words from the data register, stored low byte first from offset \<open>k\<close> of a buffer.\<close>

fun read_words :: "'d ports \<Rightarrow> u16 \<Rightarrow> nat \<Rightarrow> nat \<Rightarrow> (nat \<Rightarrow> u8) \<Rightarrow> 'd ata \<Rightarrow> (nat \<Rightarrow> u8) \<times> 'd ata" where
  "read_words io base 0 k buf s = (buf, s)"
| "read_words io base (Suc n) k buf s =
     (let (w, s1) = io_inw io (base + ATA_REG_DATA) s
      in read_words io base n (k + 2) (buf(k := ucast (w AND 0xFF), k + 1 := ucast (drop_bit 8 w))) s1)"

fun write_words :: "'d ports \<Rightarrow> u16 \<Rightarrow> nat \<Rightarrow> nat \<Rightarrow> (nat \<Rightarrow> u8) \<Rightarrow> 'd ata \<Rightarrow> 'd ata" where
  "write_words io base 0 k buf s = s"
| "write_words io base (Suc n) k buf s =
     write_words io base n (k + 2) buf (io_outw io (base + ATA_REG_DATA) (ucast (buf k) OR push_bit 8 (ucast (buf (k + 1)))) s)"

definition set_capacity :: "u32 \<Rightarrow> 'd ata \<Rightarrow> 'd ata" where
  "set_capacity n s = s\<lparr>ata0 := (ata0 s)\<lparr>max_lba := n, total_sectors := n\<rparr>\<rparr>"

definition ata_identify_device :: "'d ports \<Rightarrow> u8 \<Rightarrow> u8 \<Rightarrow> 'd ata \<Rightarrow> u8 \<times> 'd ata" where
  "ata_identify_device io channel slv s =
     (let base = ata_channel_base channel in
      if base = 0 then (1, s)
      else let s1 = ata_wait_ready io channel slv s;
               s2 = io_outb io (base + ATA_REG_HEAD) (0xA0 OR push_bit 4 (slv AND 1)) s1;
               s3 = io_outb io (base + ATA_REG_SECTOR_CNT) 0 s2;
               s4 = io_outb io (base + ATA_REG_SECTOR_NUM) 0 s3;
               s5 = io_outb io (base + ATA_REG_CYL_LOW) 0 s4;
               s6 = io_outb io (base + ATA_REG_CYL_HIGH) 0 s5;
               s7 = io_outb io (base + ATA_REG_COMMAND) ATA_CMD_IDENTIFY s6;
               (st, s8) = io_inb io (base + ATA_REG_STATUS) s7
           in if st = 0 then (1, s8)
              else let (err, s9) = ata_wait_drq io base s8 in
                if err \<noteq> 0 then (1, s9)
                else let (idd, s10) = read_words io base 256 0 (\<lambda>_. 0) s9;
                         max_lba_28bit = push_bit 8 (ucast (idd 201)) OR ucast (idd 200) :: u32
                  in if idd 167 AND 0x04 \<noteq> 0
                     then (0, set_capacity (push_bit 24 (ucast (idd 203)) OR push_bit 16 (ucast (idd 202)) OR push_bit 8 (ucast (idd 201)) OR ucast (idd 200)) s10)
                     else (0, set_capacity max_lba_28bit s10))"

definition ata_build_prd_table :: "addr \<Rightarrow> u32 \<Rightarrow> 'd ata \<Rightarrow> int \<times> 'd ata" where
  "ata_build_prd_table buffer n s =
     (if buffer = 0 \<or> n = 0 \<or> n > 4096 * 16 then (ATA_ERR_INVALID_PARAMS, s)
      else (0, s\<lparr>prd_table := (prd_table s)[0 := \<lparr>physical_addr = ucast buffer, byte_count = (if n > 65536 then 0 else ucast n), prd_flags = 0x8000\<rparr>]\<rparr>))"

definition ata_init_dma_controller :: "'d ports \<Rightarrow> 'd ata \<Rightarrow> 'd ata" where
  "ata_init_dma_controller io s = io_outb io DMA_UNMASK_ALL 0 (io_outb io DMA_MODE_REGISTER 0x08 (io_outb io DMA_CLEAR_FF 0 s))"

definition ata_setup_dma_address :: "'d ports \<Rightarrow> u32 \<Rightarrow> u32 \<Rightarrow> 'd ata \<Rightarrow> 'd ata" where
  "ata_setup_dma_address io phys n s =
     (let s1 = io_outb io DMA_CHANNEL_SELECT 0x04 s;
          s2 = io_outb io DMA_CLEAR_FF 0 s1;
          s3 = io_outb io 0x00 (ucast (phys AND 0xFF)) s2;
          s4 = io_outb io 0x00 (ucast (drop_bit 8 phys AND 0xFF)) s3;
          s5 = io_outb io 0x01 (ucast (n AND 0xFF)) s4
      in io_outb io 0x01 (ucast (drop_bit 8 n AND 0xFF)) s5)"

section \<open>Transfers\<close>

definition select_sector :: "'d ports \<Rightarrow> u16 \<Rightarrow> u32 \<Rightarrow> u8 \<Rightarrow> 'd ata \<Rightarrow> 'd ata" where
  "select_sector io base lba cmd s =
     (let s1 = io_outb io (base + ATA_REG_HEAD) (ucast (0xE0 OR (drop_bit 24 lba AND 0x0F))) s;
          s2 = io_outb io (base + ATA_REG_SECTOR_CNT) 1 s1;
          s3 = io_outb io (base + ATA_REG_SECTOR_NUM) (ucast (lba AND 0xFF)) s2;
          s4 = io_outb io (base + ATA_REG_CYL_LOW) (ucast (drop_bit 8 lba AND 0xFF)) s3;
          s5 = io_outb io (base + ATA_REG_CYL_HIGH) (ucast (drop_bit 16 lba AND 0xFF)) s4
      in io_outb io (base + ATA_REG_COMMAND) cmd s5)"

definition note_error :: "int \<Rightarrow> 'd ata \<Rightarrow> 'd ata" where
  "note_error err s = s\<lparr>ata0 := (ata0 s)\<lparr>last_error := word_of_int err, errors := errors (ata0 s) + 1\<rparr>\<rparr>"

definition note_success :: "'d ata \<Rightarrow> 'd ata" where
  "note_success s = s\<lparr>ata0 := (ata0 s)\<lparr>operations := operations (ata0 s) + 1\<rparr>\<rparr>"

fun read_sectors_loop :: "'d ports \<Rightarrow> u32 \<Rightarrow> nat list \<Rightarrow> (nat \<Rightarrow> u8) \<Rightarrow> 'd ata \<Rightarrow> int \<times> (nat \<Rightarrow> u8) \<times> 'd ata" where
  "read_sectors_loop io lba [] buf s = (0, buf, s)"
| "read_sectors_loop io lba (i # js) buf s =
     (let s1 = select_sector io ATA_PRIMARY_IO (lba + of_nat i) ATA_CMD_READ_SECTORS (ata_wait_ready io 0 0 s);
          (err, s2) = ata_wait_drq io ATA_PRIMARY_IO s1
      in if err \<noteq> 0 then (err, buf, note_error err s2)
         else let (buf1, s3) = read_words io ATA_PRIMARY_IO (ATA_SECTOR_SIZE div 2) (i * ATA_SECTOR_SIZE) buf s2
              in read_sectors_loop io lba js buf1 s3)"

definition ata_pio_read_sectors :: "'d ports \<Rightarrow> u32 \<Rightarrow> u16 \<Rightarrow> bool \<Rightarrow> (nat \<Rightarrow> u8) \<Rightarrow> 'd ata \<Rightarrow> int \<times> (nat \<Rightarrow> u8) \<times> 'd ata" where
  "ata_pio_read_sectors io lba n null buf s =
     (if null \<or> n = 0 \<or> n > ATA_MAX_SECTORS_PER_OP then (ATA_ERR_INVALID_PARAMS, buf, s)
      else let (err, buf1, s1) = read_sectors_loop io lba [0..<unat n] buf s
           in if err \<noteq> 0 then (err, buf1, s1) else (0, buf1, note_success s1))"

fun write_sectors_loop :: "'d ports \<Rightarrow> u32 \<Rightarrow> nat list \<Rightarrow> (nat \<Rightarrow> u8) \<Rightarrow> 'd ata \<Rightarrow> int \<times> 'd ata" where
  "write_sectors_loop io lba [] buf s = (0, s)"
| "write_sectors_loop io lba (i # js) buf s =
     (let s1 = select_sector io ATA_PRIMARY_IO (lba + of_nat i) ATA_CMD_WRITE_SECTORS (ata_wait_ready io 0 0 s);
          (err, s2) = ata_wait_drq io ATA_PRIMARY_IO s1
      in if err \<noteq> 0 then (err, note_error err s2)
         else write_sectors_loop io lba js buf (write_words io ATA_PRIMARY_IO (ATA_SECTOR_SIZE div 2) (i * ATA_SECTOR_SIZE) buf s2))"

definition ata_pio_write_sectors :: "'d ports \<Rightarrow> u32 \<Rightarrow> u16 \<Rightarrow> bool \<Rightarrow> (nat \<Rightarrow> u8) \<Rightarrow> 'd ata \<Rightarrow> int \<times> 'd ata" where
  "ata_pio_write_sectors io lba n null buf s =
     (if null \<or> n = 0 \<or> n > ATA_MAX_SECTORS_PER_OP then (ATA_ERR_INVALID_PARAMS, s)
      else let (err, s1) = write_sectors_loop io lba [0..<unat n] buf s
           in if err \<noteq> 0 then (err, s1) else (0, note_success s1))"

definition ata_init :: "'d ports \<Rightarrow> 'd ata \<Rightarrow> 'd ata" where
  "ata_init io s =
     (let (r, s1) = ata_identify_device io 0 0 s in
      if r = 0 then
        let s2 = ata_init_dma_controller io (s1\<lparr>ata0 := (ata0 s1)\<lparr>present := True\<rparr>\<rparr>)
        in s2\<lparr>ata0 := (ata0 s2)\<lparr>dma_capable := True\<rparr>\<rparr>
      else s1\<lparr>ata0 := (ata0 s1)\<lparr>present := False\<rparr>\<rparr>)"

definition ata_read_sector :: "'d ports \<Rightarrow> u32 \<Rightarrow> bool \<Rightarrow> (nat \<Rightarrow> u8) \<Rightarrow> 'd ata \<Rightarrow> int \<times> (nat \<Rightarrow> u8) \<times> 'd ata" where
  "ata_read_sector io lba null buf s =
     (if \<not> present (ata0 s) then (ATA_ERR_NOT_PRESENT, buf, s) else ata_pio_read_sectors io lba 1 null buf s)"

definition ata_write_sector :: "'d ports \<Rightarrow> u32 \<Rightarrow> bool \<Rightarrow> (nat \<Rightarrow> u8) \<Rightarrow> 'd ata \<Rightarrow> int \<times> 'd ata" where
  "ata_write_sector io lba null buf s =
     (if \<not> present (ata0 s) then (ATA_ERR_NOT_PRESENT, s) else ata_pio_write_sectors io lba 1 null buf s)"

definition give_up :: "'d ata \<Rightarrow> 'd ata" where
  "give_up s = s\<lparr>ata0 := (ata0 s)\<lparr>errors := errors (ata0 s) + 1\<rparr>\<rparr>"

fun read_retry :: "'d ports \<Rightarrow> u32 \<Rightarrow> u16 \<Rightarrow> bool \<Rightarrow> nat \<Rightarrow> (nat \<Rightarrow> u8) \<Rightarrow> 'd ata \<Rightarrow> int \<times> (nat \<Rightarrow> u8) \<times> 'd ata" where
  "read_retry io lba n null 0 buf s = (ATA_ERR_DEVICE_ERROR, buf, give_up s)"
| "read_retry io lba n null (Suc r) buf s =
     (let (err, buf1, s1) = ata_pio_read_sectors io lba n null buf s
      in if err = 0 then (0, buf1, s1) else read_retry io lba n null r buf1 s1)"

definition ata_read_sectors :: "'d ports \<Rightarrow> u32 \<Rightarrow> u16 \<Rightarrow> bool \<Rightarrow> (nat \<Rightarrow> u8) \<Rightarrow> 'd ata \<Rightarrow> int \<times> (nat \<Rightarrow> u8) \<times> 'd ata" where
  "ata_read_sectors io lba n null buf s =
     (if \<not> present (ata0 s) then (ATA_ERR_NOT_PRESENT, buf, s)
      else if n = 0 then (ATA_ERR_INVALID_PARAMS, buf, s)
      else read_retry io lba n null ATA_RETRY_COUNT buf s)"

fun write_retry :: "'d ports \<Rightarrow> u32 \<Rightarrow> u16 \<Rightarrow> bool \<Rightarrow> nat \<Rightarrow> (nat \<Rightarrow> u8) \<Rightarrow> 'd ata \<Rightarrow> int \<times> 'd ata" where
  "write_retry io lba n null 0 buf s = (ATA_ERR_DEVICE_ERROR, give_up s)"
| "write_retry io lba n null (Suc r) buf s =
     (let (err, s1) = ata_pio_write_sectors io lba n null buf s
      in if err = 0 then (0, s1) else write_retry io lba n null r buf s1)"

definition ata_write_sectors :: "'d ports \<Rightarrow> u32 \<Rightarrow> u16 \<Rightarrow> bool \<Rightarrow> (nat \<Rightarrow> u8) \<Rightarrow> 'd ata \<Rightarrow> int \<times> 'd ata" where
  "ata_write_sectors io lba n null buf s =
     (if \<not> present (ata0 s) then (ATA_ERR_NOT_PRESENT, s)
      else if n = 0 then (ATA_ERR_INVALID_PARAMS, s)
      else write_retry io lba n null ATA_RETRY_COUNT buf s)"

definition ata_dma_read_sectors :: "'d ports \<Rightarrow> u32 \<Rightarrow> u16 \<Rightarrow> bool \<Rightarrow> (nat \<Rightarrow> u8) \<Rightarrow> 'd ata \<Rightarrow> int \<times> (nat \<Rightarrow> u8) \<times> 'd ata" where
  "ata_dma_read_sectors io lba n null buf s =
     (if \<not> dma_capable (ata0 s) then ata_read_sectors io lba n null buf s else ata_read_sectors io lba n null buf s)"

definition ata_dma_write_sectors :: "'d ports \<Rightarrow> u32 \<Rightarrow> u16 \<Rightarrow> bool \<Rightarrow> (nat \<Rightarrow> u8) \<Rightarrow> 'd ata \<Rightarrow> int \<times> 'd ata" where
  "ata_dma_write_sectors io lba n null buf s =
     (if \<not> dma_capable (ata0 s) then ata_write_sectors io lba n null buf s else ata_write_sectors io lba n null buf s)"

definition ata_test_read_write :: "'d ports \<Rightarrow> 'd ata \<Rightarrow> int \<times> 'd ata" where
  "ata_test_read_write io s =
     (if \<not> present (ata0 s) then (-1, s)
      else let (result, buf, s1) = ata_read_sector io 0 False (\<lambda>_. 0) s in (if result = 0 then 0 else -1, s1))"

section \<open>The disk layer on the driver\<close>

definition disk_io_init :: int where "disk_io_init = 0"

definition ata_io_read_sector :: "'d ports \<Rightarrow> u32 \<Rightarrow> bool \<Rightarrow> (nat \<Rightarrow> u8) \<Rightarrow> 'd ata \<Rightarrow> int \<times> (nat \<Rightarrow> u8) \<times> 'd ata" where
  "ata_io_read_sector io lba null buf s = (if null then (-1, buf, s) else ata_read_sector io lba False buf s)"

definition disk_io_write_sector :: "'d ports \<Rightarrow> u32 \<Rightarrow> bool \<Rightarrow> (nat \<Rightarrow> u8) \<Rightarrow> 'd ata \<Rightarrow> int \<times> 'd ata" where
  "disk_io_write_sector io lba null buf s = (if null then (-1, s) else ata_write_sector io lba False buf s)"

text \<open>\<open>buffer + i * SECTOR_SIZE\<close> is the part of the buffer that starts \<open>512 * i\<close> bytes further.\<close>

definition at_offset :: "nat \<Rightarrow> (nat \<Rightarrow> u8) \<Rightarrow> nat \<Rightarrow> u8" where
  "at_offset k buf j = buf (k + j)"

definition put_at :: "nat \<Rightarrow> (nat \<Rightarrow> u8) \<Rightarrow> (nat \<Rightarrow> u8) \<Rightarrow> nat \<Rightarrow> u8" where
  "put_at k part buf j = (if k \<le> j then part (j - k) else buf j)"

fun io_read_loop :: "'d ports \<Rightarrow> u32 \<Rightarrow> nat list \<Rightarrow> (nat \<Rightarrow> u8) \<Rightarrow> 'd ata \<Rightarrow> int \<times> (nat \<Rightarrow> u8) \<times> 'd ata" where
  "io_read_loop io lba [] buf s = (0, buf, s)"
| "io_read_loop io lba (i # js) buf s =
     (let (r, part, s1) = ata_read_sector io (lba + of_nat i) False (at_offset (unat (of_nat i * 512 :: u32)) buf) s;
          buf1 = put_at (unat (of_nat i * 512 :: u32)) part buf
      in if r \<noteq> 0 then (-1, buf1, s1) else io_read_loop io lba js buf1 s1)"

definition ata_io_read_sectors :: "'d ports \<Rightarrow> u32 \<Rightarrow> u32 \<Rightarrow> bool \<Rightarrow> (nat \<Rightarrow> u8) \<Rightarrow> 'd ata \<Rightarrow> int \<times> (nat \<Rightarrow> u8) \<times> 'd ata" where
  "ata_io_read_sectors io lba n null buf s =
     (if null \<or> n = 0 then (-1, buf, s) else io_read_loop io lba [0..<unat n] buf s)"

fun io_write_loop :: "'d ports \<Rightarrow> u32 \<Rightarrow> nat list \<Rightarrow> (nat \<Rightarrow> u8) \<Rightarrow> 'd ata \<Rightarrow> int \<times> 'd ata" where
  "io_write_loop io lba [] buf s = (0, s)"
| "io_write_loop io lba (i # js) buf s =
     (let (r, s1) = ata_write_sector io (lba + of_nat i) False (at_offset (unat (of_nat i * 512 :: u32)) buf) s
      in if r \<noteq> 0 then (-1, s1) else io_write_loop io lba js buf s1)"

definition disk_io_write_sectors :: "'d ports \<Rightarrow> u32 \<Rightarrow> u32 \<Rightarrow> bool \<Rightarrow> (nat \<Rightarrow> u8) \<Rightarrow> 'd ata \<Rightarrow> int \<times> 'd ata" where
  "disk_io_write_sectors io lba n null buf s =
     (if null \<or> n = 0 then (-1, s) else io_write_loop io lba [0..<unat n] buf s)"

section \<open>The protocol of the drive\<close>

text \<open>
  What an observer sees of a drive: its contents, the registers last written, the transfer in progress and for how many
  further readings of the status register it stays busy.
\<close>

datatype phase = Idle | Sending "u16 list" | Receiving nat "u16 list"

record 'd drive =
  media :: "'d \<Rightarrow> nat \<Rightarrow> u8 list"
  task_file :: "'d \<Rightarrow> u16 \<Rightarrow> u8"
  phase_of :: "'d \<Rightarrow> phase"
  busy :: "'d \<Rightarrow> nat"

definition sector_bytes :: "u16 list \<Rightarrow> u8 list" where
  "sector_bytes ws = concat (map le16 ws)"

definition lba28 :: "(u16 \<Rightarrow> u8) \<Rightarrow> nat" where
  "lba28 t = unat (t 6 AND 0x0F) * 2 ^ 24 + unat (t 5) * 2 ^ 16 + unat (t 4) * 2 ^ 8 + unat (t 3)"

text \<open>One sector of the master drive in LBA mode.\<close>

definition addressed :: "(u16 \<Rightarrow> u8) \<Rightarrow> bool" where
  "addressed t \<longleftrightarrow> t 2 = 1 \<and> t 6 AND 0xF0 = 0xE0"

definition status_law :: "'d ports \<Rightarrow> 'd drive \<Rightarrow> bool" where
  "status_law io v \<longleftrightarrow> (\<forall>d. case p_inb io 0x1F7 d of (st, d') \<Rightarrow>
     media v d' = media v d \<and> task_file v d' = task_file v d \<and> phase_of v d' = phase_of v d \<and> busy v d' = busy v d - 1 \<and>
     (st AND 0x80 \<noteq> 0 \<longleftrightarrow> 0 < busy v d) \<and> st AND 0x01 = 0 \<and> (phase_of v d \<noteq> Idle \<and> busy v d = 0 \<longrightarrow> st AND 0x08 \<noteq> 0))"

definition register_law :: "'d ports \<Rightarrow> 'd drive \<Rightarrow> bool" where
  "register_law io v \<longleftrightarrow> (\<forall>d r x. phase_of v d = Idle \<and> busy v d = 0 \<and> 2 \<le> r \<and> r \<le> 6 \<longrightarrow>
     (let d' = p_outb io (0x1F0 + r) x d in media v d' = media v d \<and> task_file v d' = (task_file v d)(r := x) \<and> phase_of v d' = Idle \<and> busy v d' = 0))"

definition command_law :: "'d ports \<Rightarrow> 'd drive \<Rightarrow> bool" where
  "command_law io v \<longleftrightarrow> (\<forall>d. phase_of v d = Idle \<and> busy v d = 0 \<and> addressed (task_file v d) \<longrightarrow>
     media v (p_outb io 0x1F7 0x20 d) = media v d \<and> media v (p_outb io 0x1F7 0x30 d) = media v d \<and>
     (\<exists>ws. phase_of v (p_outb io 0x1F7 0x20 d) = Sending ws \<and> sector_bytes ws = media v d (lba28 (task_file v d))) \<and>
     phase_of v (p_outb io 0x1F7 0x30 d) = Receiving (lba28 (task_file v d)) [])"

definition data_in_law :: "'d ports \<Rightarrow> 'd drive \<Rightarrow> bool" where
  "data_in_law io v \<longleftrightarrow> (\<forall>d w ws. phase_of v d = Sending (w # ws) \<and> busy v d = 0 \<longrightarrow> (case p_inw io 0x1F0 d of (x, d') \<Rightarrow>
     x = w \<and> media v d' = media v d \<and> phase_of v d' = (if ws = [] then Idle else Sending ws) \<and> (ws \<noteq> [] \<longrightarrow> busy v d' = 0)))"

definition data_out_law :: "'d ports \<Rightarrow> 'd drive \<Rightarrow> bool" where
  "data_out_law io v \<longleftrightarrow> (\<forall>d n ws w. phase_of v d = Receiving n ws \<and> busy v d = 0 \<longrightarrow> (let d' = p_outw io 0x1F0 w d in
     if length ws = 255 then media v d' = (media v d)(n := sector_bytes (ws @ [w])) \<and> phase_of v d' = Idle
     else media v d' = media v d \<and> phase_of v d' = Receiving n (ws @ [w]) \<and> busy v d' = 0))"

text \<open>A drive without faults that is never busy for longer than the driver waits.\<close>

definition pio_drive :: "'d ports \<Rightarrow> 'd drive \<Rightarrow> bool" where
  "pio_drive io v \<longleftrightarrow> status_law io v \<and> register_law io v \<and> command_law io v \<and> data_in_law io v \<and> data_out_law io v \<and>
     (\<forall>d. busy v d < 100000) \<and> (\<forall>d n. length (media v d n) = 512)"

section \<open>The driver on such a drive\<close>

lemma length_sector_bytes [simp]: "length (sector_bytes ws) = 2 * length ws"
  by (induction ws) (simp_all add: sector_bytes_def le16_def)

lemma sector_bytes_Cons: "sector_bytes (w # ws) = ucast w # ucast (drop_bit 8 w) # sector_bytes ws"
  by (simp add: sector_bytes_def le16_def)

lemma sector_bytes_append: "sector_bytes (xs @ ys) = sector_bytes xs @ sector_bytes ys"
  by (simp add: sector_bytes_def)

text \<open>The drive as it was, but no longer busy.\<close>

definition settled :: "'d drive \<Rightarrow> 'd \<Rightarrow> 'd \<Rightarrow> bool" where
  "settled v d d' \<longleftrightarrow> media v d' = media v d \<and> task_file v d' = task_file v d \<and> phase_of v d' = phase_of v d \<and> busy v d' = 0"

lemma poll_ready_settles:
  assumes "status_law io v" "busy v (hw s) < n"
  shows "\<exists>d. poll_ready io ATA_PRIMARY_IO n s = s\<lparr>hw := d\<rparr> \<and> settled v (hw s) d"
  using assms(2)
proof (induction n arbitrary: s)
  case (Suc n)
  obtain st d where p: "p_inb io 0x1F7 (hw s) = (st, d)" by fastforce
  have q: "media v d = media v (hw s)" "task_file v d = task_file v (hw s)" "phase_of v d = phase_of v (hw s)" "busy v d = busy v (hw s) - 1"
    "(st AND 0x80 \<noteq> 0) = (0 < busy v (hw s))"
    using assms(1) p by (auto simp: status_law_def dest!: spec [of _ "hw s"])
  show ?case
  proof (cases "busy v (hw s) = 0")
    case True
    with p q show ?thesis by (auto simp: io_inb_def ata_regs ATA_STATUS_BSY_def settled_def)
  next
    case False
    then have "busy v (hw (s\<lparr>hw := d\<rparr>)) < n" using Suc.prems q by simp
    from Suc.IH [OF this] obtain d2 where "poll_ready io ATA_PRIMARY_IO n (s\<lparr>hw := d\<rparr>) = s\<lparr>hw := d2\<rparr>" "settled v d d2" by auto
    with p q False show ?thesis by (auto simp: io_inb_def ata_regs ATA_STATUS_BSY_def settled_def)
  qed
qed simp

lemma poll_drq_settles:
  assumes "status_law io v" "busy v (hw s) < n" "phase_of v (hw s) \<noteq> Idle"
  shows "\<exists>d. poll_drq io ATA_PRIMARY_IO n s = (0, s\<lparr>hw := d\<rparr>) \<and> settled v (hw s) d"
  using assms(2,3)
proof (induction n arbitrary: s)
  case (Suc n)
  obtain st d where p: "p_inb io 0x1F7 (hw s) = (st, d)" by fastforce
  have q: "media v d = media v (hw s)" "task_file v d = task_file v (hw s)" "phase_of v d = phase_of v (hw s)" "busy v d = busy v (hw s) - 1"
    "(st AND 0x80 \<noteq> 0) = (0 < busy v (hw s))" "st AND 1 = 0" "busy v (hw s) = 0 \<Longrightarrow> st AND 8 \<noteq> 0"
    using assms(1) p Suc.prems(2) by (auto simp: status_law_def dest!: spec [of _ "hw s"])
  note defs = io_inb_def ata_regs ATA_STATUS_BSY_def ATA_STATUS_ERR_def ATA_STATUS_DRQ_def settled_def
  show ?case
  proof (cases "busy v (hw s) = 0")
    case True
    with p q show ?thesis by (auto simp: defs)
  next
    case False
    then have "busy v (hw (s\<lparr>hw := d\<rparr>)) < n" "phase_of v (hw (s\<lparr>hw := d\<rparr>)) \<noteq> Idle" using Suc.prems q by simp_all
    from Suc.IH [OF this] obtain d2 where "poll_drq io ATA_PRIMARY_IO n (s\<lparr>hw := d\<rparr>) = (0, s\<lparr>hw := d2\<rparr>)" "settled v d d2" by auto
    with p q False show ?thesis by (auto simp: defs)
  qed
qed simp

lemma wait_ready_settles:
  assumes "pio_drive io v"
  shows "\<exists>d. ata_wait_ready io 0 0 s = s\<lparr>hw := d\<rparr> \<and> settled v (hw s) d"
  using poll_ready_settles [of io v s ATA_TIMEOUT_READY] assms
  by (simp add: ata_wait_ready_def ata_channel_base_def pio_drive_def ATA_TIMEOUT_READY_def) (simp add: ATA_PRIMARY_IO_def)

lemma wait_drq_settles:
  assumes "pio_drive io v" "phase_of v (hw s) \<noteq> Idle"
  shows "\<exists>d. ata_wait_drq io ATA_PRIMARY_IO s = (0, s\<lparr>hw := d\<rparr>) \<and> settled v (hw s) d"
  using poll_drq_settles [of io v s ATA_TIMEOUT_DRQ] assms
  by (simp add: ata_wait_drq_def pio_drive_def ATA_TIMEOUT_DRQ_def)

text \<open>The four address registers hold the sector number, as long as it has 28 bits.\<close>

lemma low_byte: "unat (ucast (w AND 0xFF :: u32) :: u8) = unat w mod 256"
proof -
  have m: "(0xFF :: u32) = mask 8" by (simp add: mask_eq_exp_minus_1)
  have "ucast (w AND 0xFF :: u32) = (ucast w :: u8)" unfolding m by (rule bit_word_eqI) (simp add: bit_simps)
  then show ?thesis by (simp add: unsigned_ucast_eq take_bit_eq_mod)
qed

lemma unat_shifted: "unat (drop_bit n (w :: u32)) = unat w div 2 ^ n"
  unfolding unat_drop_bit_eq by (rule drop_bit_eq_div)

lemma head_low: "unat ((ucast (0xE0 OR (w AND 0x0F) :: u32) :: u8) AND 0x0F) = unat w mod 16"
proof -
  have m: "(0x0F :: u32) = mask 4" "(0x0F :: u8) = mask 4" by (simp_all add: mask_eq_exp_minus_1)
  have "(ucast (0xE0 OR (w AND 0x0F) :: u32) :: u8) AND 0x0F = take_bit 4 (ucast w)"
    unfolding m by (rule bit_word_eqI) (auto simp: bit_simps less_Suc_eq numeral_eq_Suc)
  then have "unat ((ucast (0xE0 OR (w AND 0x0F) :: u32) :: u8) AND 0x0F) = take_bit 4 (unat (ucast w :: u8))"
    by (simp only: unsigned_take_bit_eq)
  then show ?thesis by (simp add: unsigned_ucast_eq take_bit_eq_mod mod_mod_cancel)
qed

lemma split28:
  assumes "(x::nat) < 2 ^ 28"
  shows "(x div 2 ^ 24) mod 16 * 2 ^ 24 + (x div 2 ^ 16) mod 256 * 2 ^ 16 + (x div 2 ^ 8) mod 256 * 2 ^ 8 + x mod 256 = x"
proof -
  define a where "a = x div 2 ^ 8"
  define b where "b = x div 2 ^ 16"
  define c where "c = x div 2 ^ 24"
  have "b = a div 256" "c = b div 256" by (simp_all add: a_def b_def c_def div_mult2_eq [symmetric])
  then have split: "x = 256 * a + x mod 256" "a = 256 * b + a mod 256" "b = 256 * c + b mod 256" by (simp_all add: a_def)
  have "x < 268435456" using assms by simp
  then have "c < 16" using split by linarith
  have "c * 16777216 + b mod 256 * 65536 + a mod 256 * 256 + x mod 256 = x" using split by linarith
  with \<open>c < 16\<close> show ?thesis unfolding a_def [symmetric] b_def [symmetric] c_def [symmetric] by simp
qed

lemma head_high: "(ucast (0xE0 OR (w AND 0x0F) :: u32) :: u8) AND 0xF0 = 0xE0"
proof -
  have m: "(0x0F :: u32) = mask 4" by (simp add: mask_eq_exp_minus_1)
  show ?thesis unfolding m by (rule bit_word_eqI) (auto simp: bit_simps less_Suc_eq numeral_eq_Suc)
qed

definition address_regs :: "u32 \<Rightarrow> (u16 \<Rightarrow> u8) \<Rightarrow> u16 \<Rightarrow> u8" where
  "address_regs lba t = t(6 := ucast (0xE0 OR (drop_bit 24 lba AND 0x0F)), 2 := 1, 3 := ucast (lba AND 0xFF),
     4 := ucast (drop_bit 8 lba AND 0xFF), 5 := ucast (drop_bit 16 lba AND 0xFF))"

lemma address_regs_lba: "unat lba < 2 ^ 28 \<Longrightarrow> lba28 (address_regs lba t) = unat lba"
  by (simp add: lba28_def address_regs_def head_low low_byte unat_shifted split28 del: power_numeral)

lemma address_regs_addressed: "addressed (address_regs lba t)"
  by (simp add: addressed_def address_regs_def head_high)

text \<open>Registers other than the command register can be written in any order.\<close>

lemma registers_write:
  assumes "register_law io v" "phase_of v (hw s) = Idle" "busy v (hw s) = 0" "\<forall>(r, x)\<in>set rs. 2 \<le> r \<and> r \<le> 6"
  shows "\<exists>d. fold (\<lambda>(r, x). io_outb io (0x1F0 + r) x) rs s = s\<lparr>hw := d\<rparr> \<and> media v d = media v (hw s) \<and>
    task_file v d = fold (\<lambda>(r, x) t. t(r := x)) rs (task_file v (hw s)) \<and> phase_of v d = Idle \<and> busy v d = 0"
  using assms(2-)
proof (induction rs arbitrary: s)
  case Nil
  then show ?case by (intro exI [of _ "hw s"]) simp
next
  case (Cons rx rs)
  obtain r x where rx: "rx = (r, x)" by force
  let ?d = "p_outb io (0x1F0 + r) x (hw s)"
  have d: "media v ?d = media v (hw s)" "task_file v ?d = (task_file v (hw s))(r := x)" "phase_of v ?d = Idle" "busy v ?d = 0"
    using assms(1) Cons.prems rx by (auto simp: register_law_def Let_def)
  have o: "io_outb io (0x1F0 + r) x s = s\<lparr>hw := ?d\<rparr>" by (simp add: io_outb_def)
  have f: "fold (\<lambda>(r, x). io_outb io (0x1F0 + r) x) (rx # rs) s = fold (\<lambda>(r, x). io_outb io (0x1F0 + r) x) rs (s\<lparr>hw := ?d\<rparr>)"
    "fold (\<lambda>(r, x) t. t(r := x)) (rx # rs) (task_file v (hw s)) = fold (\<lambda>(r, x) t. t(r := x)) rs (task_file v ?d)"
    by (simp_all only: rx fold_simps prod.case o d(2))
  have "\<exists>d. fold (\<lambda>(r, x). io_outb io (0x1F0 + r) x) rs (s\<lparr>hw := ?d\<rparr>) = s\<lparr>hw := ?d\<rparr>\<lparr>hw := d\<rparr> \<and> media v d = media v (hw (s\<lparr>hw := ?d\<rparr>)) \<and>
    task_file v d = fold (\<lambda>(r, x) t. t(r := x)) rs (task_file v (hw (s\<lparr>hw := ?d\<rparr>))) \<and> phase_of v d = Idle \<and> busy v d = 0"
    using d Cons.prems by (intro Cons.IH) auto
  then show ?case unfolding f by (simp add: d(1))
qed

lemma select_prepares:
  assumes "pio_drive io v" "phase_of v (hw s) = Idle" "busy v (hw s) = 0"
  shows "\<exists>d. select_sector io ATA_PRIMARY_IO lba cmd s = s\<lparr>hw := p_outb io 0x1F7 cmd d\<rparr> \<and> media v d = media v (hw s) \<and>
    task_file v d = address_regs lba (task_file v (hw s)) \<and> phase_of v d = Idle \<and> busy v d = 0"
proof -
  let ?rs = "[(6, ucast (0xE0 OR (drop_bit 24 lba AND 0x0F))), (2, 1), (3, ucast (lba AND 0xFF)), (4, ucast (drop_bit 8 lba AND 0xFF)),
    (5, ucast (drop_bit 16 lba AND 0xFF))] :: (u16 \<times> u8) list"
  have r: "register_law io v" using assms(1) by (simp add: pio_drive_def)
  have "\<forall>(r, x)\<in>set ?rs. 2 \<le> r \<and> r \<le> 6" by simp
  from registers_write [OF r assms(2,3) this] obtain d where
    d: "fold (\<lambda>(r, x). io_outb io (0x1F0 + r) x) ?rs s = s\<lparr>hw := d\<rparr>" "media v d = media v (hw s)"
    "task_file v d = fold (\<lambda>(r, x) t. t(r := x)) ?rs (task_file v (hw s))" "phase_of v d = Idle" "busy v d = 0" by blast
  have "select_sector io ATA_PRIMARY_IO lba cmd s = io_outb io 0x1F7 cmd (fold (\<lambda>(r, x). io_outb io (0x1F0 + r) x) ?rs s)"
    by (simp add: select_sector_def Let_def ata_regs)
  also have "\<dots> = s\<lparr>hw := p_outb io 0x1F7 cmd d\<rparr>" unfolding d(1) by (simp add: io_outb_def)
  finally show ?thesis using d by (intro exI [of _ d]) (simp add: address_regs_def)
qed

text \<open>Words in and out of the data register.\<close>

definition put_bytes_at :: "nat \<Rightarrow> u8 list \<Rightarrow> (nat \<Rightarrow> u8) \<Rightarrow> nat \<Rightarrow> u8" where
  "put_bytes_at k bs buf j = (if k \<le> j \<and> j < k + length bs then bs ! (j - k) else buf j)"

lemma put_bytes_at_Cons2: "put_bytes_at (k + 2) bs (buf(k := a, k + 1 := b)) = put_bytes_at k (a # b # bs) buf"
proof
  fix j
  consider "j < k" | "j = k" | "j = k + 1" | "k + 2 \<le> j" by linarith
  then show "put_bytes_at (k + 2) bs (buf(k := a, k + 1 := b)) j = put_bytes_at k (a # b # bs) buf j"
  proof cases
    case 4
    then obtain m where "j = k + 2 + m" using le_Suc_ex by blast
    then show ?thesis by (simp add: put_bytes_at_def)
  qed (simp_all add: put_bytes_at_def)
qed

lemma read_words_gets:
  assumes "data_in_law io v" "phase_of v (hw s) = Sending ws" "busy v (hw s) = 0" "ws \<noteq> []"
  shows "\<exists>d. read_words io ATA_PRIMARY_IO (length ws) k buf s = (put_bytes_at k (sector_bytes ws) buf, s\<lparr>hw := d\<rparr>) \<and>
    media v d = media v (hw s) \<and> phase_of v d = Idle"
  using assms(2-)
proof (induction ws arbitrary: k buf s)
  case (Cons w ws)
  obtain x d where p: "p_inw io 0x1F0 (hw s) = (x, d)" by force
  have q: "x = w" "media v d = media v (hw s)" "phase_of v d = (if ws = [] then Idle else Sending ws)" "ws \<noteq> [] \<Longrightarrow> busy v d = 0"
    using assms(1) Cons.prems p unfolding data_in_law_def by fastforce+
  have b: "ucast (w AND 0xFF) = (ucast w :: u8)"
  proof -
    have m: "(0xFF :: u16) = mask 8" by (simp add: mask_eq_exp_minus_1)
    show ?thesis unfolding m by (rule bit_word_eqI) (simp add: bit_simps)
  qed
  define b1 where "b1 = buf(k := ucast w :: u8, k + 1 := ucast (drop_bit 8 w))"
  have run: "read_words io ATA_PRIMARY_IO (length (w # ws)) k buf s = read_words io ATA_PRIMARY_IO (length ws) (k + 2) b1 (s\<lparr>hw := d\<rparr>)"
    using p q(1) by (simp add: io_inw_def ata_regs b b1_def)
  show ?case
  proof (cases "ws = []")
    case True
    have "put_bytes_at k (sector_bytes [w]) buf = put_bytes_at (k + 2) [] b1"
      unfolding b1_def put_bytes_at_Cons2 by (simp add: sector_bytes_def le16_def)
    then have "put_bytes_at k (sector_bytes [w]) buf = b1" by (auto simp: put_bytes_at_def fun_eq_iff)
    with True run q show ?thesis by auto
  next
    case False
    with Cons.IH [of "s\<lparr>hw := d\<rparr>" "k + 2" b1] q obtain d2 where
      "read_words io ATA_PRIMARY_IO (length ws) (k + 2) b1 (s\<lparr>hw := d\<rparr>) = (put_bytes_at (k + 2) (sector_bytes ws) b1, s\<lparr>hw := d2\<rparr>)"
      "media v d2 = media v d" "phase_of v d2 = Idle" by auto
    with run q show ?thesis using put_bytes_at_Cons2 [of k "sector_bytes ws" buf "ucast w"]
      by (intro exI [of _ d2]) (simp add: sector_bytes_Cons b1_def)
  qed
qed simp

lemma word_bytes: "le16 (ucast a OR push_bit 8 (ucast b) :: u16) = [a, b]"
proof -
  have "ucast (ucast a OR push_bit 8 (ucast b) :: u16) = a" "ucast (drop_bit 8 (ucast a OR push_bit 8 (ucast b) :: u16)) = b"
    by (rule bit_word_eqI, auto simp: bit_simps dest: bit_imp_le_length)+
  then show ?thesis by (simp add: le16_def)
qed

lemma write_words_puts:
  assumes "data_out_law io v" "phase_of v (hw s) = Receiving n ws" "busy v (hw s) = 0" "length ws + m = 256" "0 < m"
  shows "\<exists>d. write_words io ATA_PRIMARY_IO m k buf s = s\<lparr>hw := d\<rparr> \<and> phase_of v d = Idle \<and>
    media v d = (media v (hw s))(n := sector_bytes ws @ map (\<lambda>j. buf (k + j)) [0..<2 * m])"
  using assms(2-)
proof (induction m arbitrary: k ws s)
  case (Suc m)
  define w where "w = (ucast (buf k) OR push_bit 8 (ucast (buf (k + 1))) :: u16)"
  define d where "d = p_outw io 0x1F0 w (hw s)"
  have run: "write_words io ATA_PRIMARY_IO (Suc m) k buf s = write_words io ATA_PRIMARY_IO m (k + 2) buf (s\<lparr>hw := d\<rparr>)"
    by (simp add: io_outw_def ata_regs w_def d_def)
  have law: "if length ws = 255 then media v d = (media v (hw s))(n := sector_bytes (ws @ [w])) \<and> phase_of v d = Idle
     else media v d = media v (hw s) \<and> phase_of v d = Receiving n (ws @ [w]) \<and> busy v d = 0"
    using assms(1) Suc.prems unfolding data_out_law_def d_def Let_def by blast
  have sb: "sector_bytes (ws @ [w]) = sector_bytes ws @ [buf k, buf (k + 1)]"
    by (simp add: sector_bytes_def w_def word_bytes)
  have bytes: "map (\<lambda>j. buf (k + j)) [0..<2 * Suc m] = [buf k, buf (k + 1)] @ map (\<lambda>j. buf (k + 2 + j)) [0..<2 * m]"
    by (simp add: upt_conv_Cons comp_def flip: map_Suc_upt del: upt_Suc)
  show ?case
  proof (cases "m = 0")
    case True
    then show ?thesis unfolding bytes using law Suc.prems run sb by (intro exI [of _ d]) simp
  next
    case False
    then have "length ws \<noteq> 255" using Suc.prems by simp
    then have q: "media v d = media v (hw s)" "phase_of v d = Receiving n (ws @ [w])" "busy v d = 0" using law by auto
    have "phase_of v (hw (s\<lparr>hw := d\<rparr>)) = Receiving n (ws @ [w])" "busy v (hw (s\<lparr>hw := d\<rparr>)) = 0" "length (ws @ [w]) + m = 256" "0 < m"
      using q Suc.prems False by simp_all
    from Suc.IH [OF this, of "k + 2"] obtain d2 where
      "write_words io ATA_PRIMARY_IO m (k + 2) buf (s\<lparr>hw := d\<rparr>) = s\<lparr>hw := d2\<rparr>" "phase_of v d2 = Idle"
      "media v d2 = (media v (hw (s\<lparr>hw := d\<rparr>)))(n := sector_bytes (ws @ [w]) @ map (\<lambda>j. buf (k + 2 + j)) [0..<2 * m])"
      unfolding ata.update_convs by (auto simp del: fun_upd_apply)
    then show ?thesis unfolding run bytes sb using q by (intro exI [of _ d2]) simp
  qed
qed simp

text \<open>One sector in each direction.\<close>

lemma read_sector_step:
  assumes io: "pio_drive io v" and idle: "phase_of v (hw s) = Idle" and lba: "unat lba < 2 ^ 28"
  shows "\<exists>d1 d2. ata_wait_drq io ATA_PRIMARY_IO (select_sector io ATA_PRIMARY_IO lba ATA_CMD_READ_SECTORS (ata_wait_ready io 0 0 s)) = (0, s\<lparr>hw := d1\<rparr>) \<and>
    read_words io ATA_PRIMARY_IO 256 k buf (s\<lparr>hw := d1\<rparr>) = (put_bytes_at k (media v (hw s) (unat lba)) buf, s\<lparr>hw := d2\<rparr>) \<and>
    media v d2 = media v (hw s) \<and> phase_of v d2 = Idle"
proof -
  obtain da where a: "ata_wait_ready io 0 0 s = s\<lparr>hw := da\<rparr>" "settled v (hw s) da" using wait_ready_settles [OF io] by blast
  have "phase_of v (hw (s\<lparr>hw := da\<rparr>)) = Idle" "busy v (hw (s\<lparr>hw := da\<rparr>)) = 0" using a(2) idle by (simp_all add: settled_def)
  from select_prepares [OF io this, of lba ATA_CMD_READ_SECTORS] obtain db where
    b: "select_sector io ATA_PRIMARY_IO lba ATA_CMD_READ_SECTORS (s\<lparr>hw := da\<rparr>) = s\<lparr>hw := p_outb io 0x1F7 0x20 db\<rparr>"
    "media v db = media v (hw s)" "task_file v db = address_regs lba (task_file v da)" "phase_of v db = Idle" "busy v db = 0"
    using a(2) by (auto simp: ATA_CMD_READ_SECTORS_def settled_def)
  define dc where "dc = p_outb io 0x1F7 0x20 db"
  have "addressed (task_file v db)" "lba28 (task_file v db) = unat lba" using b(3) address_regs_addressed address_regs_lba [OF lba] by simp_all
  then obtain ws where c: "media v dc = media v (hw s)" "phase_of v dc = Sending ws" "sector_bytes ws = media v (hw s) (unat lba)"
    using io b(2,4,5) unfolding pio_drive_def command_law_def dc_def by fastforce
  have len: "length ws = 256" "ws \<noteq> []"
  proof -
    have "2 * length ws = 512" using c(3) io length_sector_bytes [of ws] by (simp add: pio_drive_def)
    then show "length ws = 256" "ws \<noteq> []" by auto
  qed
  obtain d1 where 1: "ata_wait_drq io ATA_PRIMARY_IO (s\<lparr>hw := dc\<rparr>) = (0, s\<lparr>hw := d1\<rparr>)" "settled v dc d1"
    using wait_drq_settles [OF io, of "s\<lparr>hw := dc\<rparr>"] c(2) by auto
  have "data_in_law io v" using io by (simp add: pio_drive_def)
  from read_words_gets [OF this _ _ len(2), of "s\<lparr>hw := d1\<rparr>" k buf] obtain d2 where
    "read_words io ATA_PRIMARY_IO 256 k buf (s\<lparr>hw := d1\<rparr>) = (put_bytes_at k (sector_bytes ws) buf, s\<lparr>hw := d2\<rparr>)"
    "media v d2 = media v d1" "phase_of v d2 = Idle" using 1(2) c(2) len by (auto simp: settled_def)
  with 1 a(1) b(1) c show ?thesis by (intro exI [of _ d1] exI [of _ d2]) (simp add: dc_def settled_def)
qed

lemma write_sector_step:
  assumes io: "pio_drive io v" and idle: "phase_of v (hw s) = Idle" and lba: "unat lba < 2 ^ 28"
  shows "\<exists>d1 d2. ata_wait_drq io ATA_PRIMARY_IO (select_sector io ATA_PRIMARY_IO lba ATA_CMD_WRITE_SECTORS (ata_wait_ready io 0 0 s)) = (0, s\<lparr>hw := d1\<rparr>) \<and>
    write_words io ATA_PRIMARY_IO 256 k buf (s\<lparr>hw := d1\<rparr>) = s\<lparr>hw := d2\<rparr> \<and>
    media v d2 = (media v (hw s))(unat lba := map (\<lambda>j. buf (k + j)) [0..<512]) \<and> phase_of v d2 = Idle"
proof -
  obtain da where a: "ata_wait_ready io 0 0 s = s\<lparr>hw := da\<rparr>" "settled v (hw s) da" using wait_ready_settles [OF io] by blast
  have "phase_of v (hw (s\<lparr>hw := da\<rparr>)) = Idle" "busy v (hw (s\<lparr>hw := da\<rparr>)) = 0" using a(2) idle by (simp_all add: settled_def)
  from select_prepares [OF io this, of lba ATA_CMD_WRITE_SECTORS] obtain db where
    b: "select_sector io ATA_PRIMARY_IO lba ATA_CMD_WRITE_SECTORS (s\<lparr>hw := da\<rparr>) = s\<lparr>hw := p_outb io 0x1F7 0x30 db\<rparr>"
    "media v db = media v (hw s)" "task_file v db = address_regs lba (task_file v da)" "phase_of v db = Idle" "busy v db = 0"
    using a(2) by (auto simp: ATA_CMD_WRITE_SECTORS_def settled_def)
  define dc where "dc = p_outb io 0x1F7 0x30 db"
  have "addressed (task_file v db)" "lba28 (task_file v db) = unat lba" using b(3) address_regs_addressed address_regs_lba [OF lba] by simp_all
  then have c: "media v dc = media v (hw s)" "phase_of v dc = Receiving (unat lba) []"
    using io b(2,4,5) unfolding pio_drive_def command_law_def dc_def by auto
  obtain d1 where 1: "ata_wait_drq io ATA_PRIMARY_IO (s\<lparr>hw := dc\<rparr>) = (0, s\<lparr>hw := d1\<rparr>)" "settled v dc d1"
    using wait_drq_settles [OF io, of "s\<lparr>hw := dc\<rparr>"] c(2) by auto
  have "data_out_law io v" using io by (simp add: pio_drive_def)
  from write_words_puts [OF this, of "s\<lparr>hw := d1\<rparr>" "unat lba" "[]" 256 k buf] obtain d2 where
    "write_words io ATA_PRIMARY_IO 256 k buf (s\<lparr>hw := d1\<rparr>) = s\<lparr>hw := d2\<rparr>" "phase_of v d2 = Idle"
    "media v d2 = (media v d1)(unat lba := map (\<lambda>j. buf (k + j)) [0..<512])"
    using 1(2) c(2) by (auto simp: settled_def sector_bytes_def)
  with 1 a(1) b(1) c show ?thesis by (intro exI [of _ d1] exI [of _ d2]) (simp add: dc_def settled_def)
qed

text \<open>A run of sectors.\<close>

lemma put_bytes_at_append:
  assumes "length bs = 512"
  shows "put_bytes_at (a * 512) bs buf j = (if j div 512 = a then bs ! (j mod 512) else buf j)"
proof -
  have "a * 512 \<le> j \<and> j < a * 512 + 512 \<longleftrightarrow> j div 512 = a"
  proof
    assume "a * 512 \<le> j \<and> j < a * 512 + 512"
    then show "j div 512 = a" by (intro div_nat_eqI) auto
  next
    assume "j div 512 = a"
    then show "a * 512 \<le> j \<and> j < a * 512 + 512" using div_mult_mod_eq [of j 512] mod_less_divisor [of 512 j] by linarith
  qed
  moreover have "j - a * 512 = j mod 512" if "j div 512 = a" using that by (simp add: minus_div_mult_eq_mod [symmetric])
  ultimately show ?thesis using assms by (auto simp: put_bytes_at_def)
qed

lemma sector_number:
  assumes "unat (lba :: u32) + b \<le> 2 ^ 28" "a < b"
  shows "unat (lba + of_nat a) = unat lba + a" "unat lba + a < 2 ^ 28"
proof -
  show "unat lba + a < 2 ^ 28" using assms by linarith
  then have "unat (of_nat a :: u32) = a" "unat lba + a < 2 ^ 32" by (auto intro!: unat_of_nat_small)
  then show "unat (lba + of_nat a) = unat lba + a" using unat_add_small [of lba "of_nat a"] by simp
qed

lemma read_loop_gets:
  assumes io: "pio_drive io v" and b: "unat lba + b \<le> 2 ^ 28" and "a \<le> b" "phase_of v (hw s) = Idle"
  shows "\<exists>d. read_sectors_loop io lba [a..<b] buf s =
      (0, \<lambda>j. if a \<le> j div 512 \<and> j div 512 < b then media v (hw s) (unat lba + j div 512) ! (j mod 512) else buf j, s\<lparr>hw := d\<rparr>) \<and>
    media v d = media v (hw s) \<and> phase_of v d = Idle"
  using assms(3,4)
proof (induction "b - a" arbitrary: a buf s)
  case 0
  then show ?case by (intro exI [of _ "hw s"]) (auto simp: fun_eq_iff)
next
  case (Suc n)
  then have ab: "a < b" by simp
  note sn = sector_number [OF b ab]
  have lt: "unat (lba + of_nat a) < 2 ^ 28" unfolding sn(1) by (rule sn(2))
  from read_sector_step [OF io Suc.prems(2) lt, of "a * 512" buf] obtain d1 d2 where
    st: "ata_wait_drq io ATA_PRIMARY_IO (select_sector io ATA_PRIMARY_IO (lba + of_nat a) ATA_CMD_READ_SECTORS (ata_wait_ready io 0 0 s)) = (0, s\<lparr>hw := d1\<rparr>)"
    "read_words io ATA_PRIMARY_IO 256 (a * 512) buf (s\<lparr>hw := d1\<rparr>) = (put_bytes_at (a * 512) (media v (hw s) (unat lba + a)) buf, s\<lparr>hw := d2\<rparr>)"
    "media v d2 = media v (hw s)" "phase_of v d2 = Idle" unfolding sn(1) by blast
  define b1 where "b1 = put_bytes_at (a * 512) (media v (hw s) (unat lba + a)) buf"
  have run: "read_sectors_loop io lba [a..<b] buf s = read_sectors_loop io lba [Suc a..<b] b1 (s\<lparr>hw := d2\<rparr>)"
    using ab st(1,2) by (simp add: upt_conv_Cons ATA_SECTOR_SIZE_def b1_def)
  have "n = b - Suc a" "Suc a \<le> b" "phase_of v (hw (s\<lparr>hw := d2\<rparr>)) = Idle" using Suc.hyps(2) ab st(4) by simp_all
  from Suc.hyps(1) [OF this, of b1] obtain d where
    d: "read_sectors_loop io lba [Suc a..<b] b1 (s\<lparr>hw := d2\<rparr>) =
      (0, \<lambda>j. if Suc a \<le> j div 512 \<and> j div 512 < b then media v d2 (unat lba + j div 512) ! (j mod 512) else b1 j, s\<lparr>hw := d\<rparr>)"
    "media v d = media v d2" "phase_of v d = Idle" by (auto cong: if_cong)
  have b1: "b1 j = (if j div 512 = a then media v (hw s) (unat lba + a) ! (j mod 512) else buf j)" for j
    unfolding b1_def by (rule put_bytes_at_append) (use io in \<open>simp add: pio_drive_def\<close>)
  have "(\<lambda>j. if Suc a \<le> j div 512 \<and> j div 512 < b then media v d2 (unat lba + j div 512) ! (j mod 512) else b1 j) =
      (\<lambda>j. if a \<le> j div 512 \<and> j div 512 < b then media v (hw s) (unat lba + j div 512) ! (j mod 512) else buf j)"
    using ab by (auto simp: b1 st(3) fun_eq_iff)
  with run d st(3) show ?case by (intro exI [of _ d]) simp
qed

lemma write_loop_puts:
  assumes io: "pio_drive io v" and b: "unat lba + b \<le> 2 ^ 28" and "a \<le> b" "phase_of v (hw s) = Idle"
  shows "\<exists>d. write_sectors_loop io lba [a..<b] buf s = (0, s\<lparr>hw := d\<rparr>) \<and> phase_of v d = Idle \<and>
    media v d = (\<lambda>n. if unat lba + a \<le> n \<and> n < unat lba + b then map (\<lambda>j. buf ((n - unat lba) * 512 + j)) [0..<512] else media v (hw s) n)"
  using assms(3,4)
proof (induction "b - a" arbitrary: a s)
  case 0
  then show ?case by (intro exI [of _ "hw s"]) (auto simp: fun_eq_iff)
next
  case (Suc n)
  then have ab: "a < b" by simp
  note sn = sector_number [OF b ab]
  have lt: "unat (lba + of_nat a) < 2 ^ 28" unfolding sn(1) by (rule sn(2))
  from write_sector_step [OF io Suc.prems(2) lt, of "a * 512" buf] obtain d1 d2 where
    st: "ata_wait_drq io ATA_PRIMARY_IO (select_sector io ATA_PRIMARY_IO (lba + of_nat a) ATA_CMD_WRITE_SECTORS (ata_wait_ready io 0 0 s)) = (0, s\<lparr>hw := d1\<rparr>)"
    "write_words io ATA_PRIMARY_IO 256 (a * 512) buf (s\<lparr>hw := d1\<rparr>) = s\<lparr>hw := d2\<rparr>" "phase_of v d2 = Idle"
    "media v d2 = (media v (hw s))(unat lba + a := map (\<lambda>j. buf (a * 512 + j)) [0..<512])" unfolding sn(1) by blast
  have run: "write_sectors_loop io lba [a..<b] buf s = write_sectors_loop io lba [Suc a..<b] buf (s\<lparr>hw := d2\<rparr>)"
    using ab st(1,2) by (simp add: upt_conv_Cons ATA_SECTOR_SIZE_def)
  have "n = b - Suc a" "Suc a \<le> b" "phase_of v (hw (s\<lparr>hw := d2\<rparr>)) = Idle" using Suc.hyps(2) ab st(3) by simp_all
  from Suc.hyps(1) [OF this] obtain d where d: "write_sectors_loop io lba [Suc a..<b] buf (s\<lparr>hw := d2\<rparr>) = (0, s\<lparr>hw := d\<rparr>)" "phase_of v d = Idle"
    "media v d = (\<lambda>n. if unat lba + Suc a \<le> n \<and> n < unat lba + b then map (\<lambda>j. buf ((n - unat lba) * 512 + j)) [0..<512] else media v d2 n)" by (auto cong: if_cong)
  have "media v d = (\<lambda>n. if unat lba + a \<le> n \<and> n < unat lba + b then map (\<lambda>j. buf ((n - unat lba) * 512 + j)) [0..<512] else media v (hw s) n)"
    unfolding d(3) st(4) using ab by (auto simp: fun_eq_iff)
  with run d show ?case by (intro exI [of _ d]) simp
qed

section \<open>Sectors are transferred\<close>

text \<open>Neither call needs a second attempt on such a drive.\<close>

lemma ata_read_sectors_gets:
  assumes io: "pio_drive io v" and s: "present (ata0 s)" "phase_of v (hw s) = Idle"
    and n: "0 < unat n" "unat n \<le> 256" and lba: "unat lba + unat n \<le> 2 ^ 28"
  shows "\<exists>d. ata_read_sectors io lba n False buf s =
      (0, \<lambda>j. if j div 512 < unat n then media v (hw s) (unat lba + j div 512) ! (j mod 512) else buf j, note_success (s\<lparr>hw := d\<rparr>)) \<and>
    media v d = media v (hw s) \<and> phase_of v d = Idle"
proof -
  have g: "n \<noteq> 0" "\<not> n > ATA_MAX_SECTORS_PER_OP" using n by (auto simp: ATA_MAX_SECTORS_PER_OP_def word_less_nat_alt)
  from read_loop_gets [OF io lba, of 0 s buf] s(2) show ?thesis
    using g s(1) by (auto simp: ata_read_sectors_def ATA_RETRY_COUNT_def numeral_3_eq_3 ata_pio_read_sectors_def)
qed

lemma ata_write_sectors_puts:
  assumes io: "pio_drive io v" and s: "present (ata0 s)" "phase_of v (hw s) = Idle"
    and n: "0 < unat n" "unat n \<le> 256" and lba: "unat lba + unat n \<le> 2 ^ 28"
  shows "\<exists>d. ata_write_sectors io lba n False buf s = (0, note_success (s\<lparr>hw := d\<rparr>)) \<and> phase_of v d = Idle \<and>
    media v d = (\<lambda>k. if unat lba \<le> k \<and> k < unat lba + unat n then map (\<lambda>j. buf ((k - unat lba) * 512 + j)) [0..<512] else media v (hw s) k)"
proof -
  have g: "n \<noteq> 0" "\<not> n > ATA_MAX_SECTORS_PER_OP" using n by (auto simp: ATA_MAX_SECTORS_PER_OP_def word_less_nat_alt)
  from write_loop_puts [OF io lba, of 0 s buf] s(2) show ?thesis
    using g s(1) by (auto simp: ata_write_sectors_def ATA_RETRY_COUNT_def numeral_3_eq_3 ata_pio_write_sectors_def)
qed

lemma ata_read_sector_gets:
  assumes io: "pio_drive io v" and s: "present (ata0 s)" "phase_of v (hw s) = Idle" and lba: "unat lba < 2 ^ 28"
  shows "\<exists>d. ata_read_sector io lba False buf s =
      (0, \<lambda>j. if j < 512 then media v (hw s) (unat lba) ! j else buf j, note_success (s\<lparr>hw := d\<rparr>)) \<and>
    media v d = media v (hw s) \<and> phase_of v d = Idle"
proof -
  have b: "unat lba + 1 \<le> 2 ^ 28" using lba by simp
  have f: "(\<lambda>j. if j div 512 < 1 then media v (hw s) (unat lba + j div 512) ! (j mod 512) else buf j) =
      (\<lambda>j. if j < 512 then media v (hw s) (unat lba) ! j else buf j)" by (auto simp: fun_eq_iff div_eq_0_iff)
  from read_loop_gets [OF io b, of 0 s buf] s(2) obtain d where
    "read_sectors_loop io lba [0..<1] buf s = (0, \<lambda>j. if j < 512 then media v (hw s) (unat lba) ! j else buf j, s\<lparr>hw := d\<rparr>)"
    "media v d = media v (hw s)" "phase_of v d = Idle" unfolding f [symmetric] by auto
  then show ?thesis using s(1) by (auto simp: ata_read_sector_def ata_pio_read_sectors_def ATA_MAX_SECTORS_PER_OP_def)
qed

text \<open>
  What the file systems see: reading through the disk layer returns what the disk of the FAT32 reader returns, when that disk is the
  contents of the drive.
\<close>

definition drive_disk :: "'d drive \<Rightarrow> 'd \<Rightarrow> disk" where
  "drive_disk v d lba = Some (media v d (unat lba))"

lemma read_run_drive: "read_run (drive_disk v d) lba n = Some (concat (map (\<lambda>i. media v d (unat (lba + of_nat i))) [0..<n]))"
proof (induction n arbitrary: lba)
  case (Suc n)
  have "[0..<Suc n] = 0 # map Suc [0..<n]" by (simp add: upt_conv_Cons map_Suc_upt del: upt_Suc)
  moreover have "drive_disk v d lba = Some (media v d (unat lba))" by (simp add: drive_disk_def)
  ultimately show ?case by (simp add: Suc comp_def add.assoc del: upt_Suc)
qed simp

lemma concat_sectors:
  assumes "\<And>i. i < n \<Longrightarrow> length (f i) = 512"
  shows "concat (map f [0..<n]) = map (\<lambda>j. f (j div 512) ! (j mod 512)) [0..<n * 512]"
  using assms
proof (induction n)
  case (Suc n)
  have "map (\<lambda>j. f (j div 512) ! (j mod 512)) [n * 512..<n * 512 + 512] = f n"
    by (rule nth_equalityI) (auto simp: Suc.prems)
  moreover have "[0..<Suc n * 512] = [0..<n * 512] @ [n * 512..<n * 512 + 512]"
    using upt_add_eq_append [of 0 "n * 512" 512] by (simp add: add.commute)
  ultimately show ?case using Suc by simp
qed simp

lemma io_read_gets:
  assumes io: "pio_drive io v" and b: "unat lba + b \<le> 2 ^ 28" "b < 2 ^ 23" and "a \<le> b" "present (ata0 s)" "phase_of v (hw s) = Idle"
  shows "\<exists>s1. io_read_loop io lba [a..<b] buf s =
      (0, \<lambda>j. if a \<le> j div 512 \<and> j div 512 < b then media v (hw s) (unat lba + j div 512) ! (j mod 512) else buf j, s1) \<and>
    media v (hw s1) = media v (hw s) \<and> phase_of v (hw s1) = Idle \<and> present (ata0 s1)"
  using assms(4-)
proof (induction "b - a" arbitrary: a buf s)
  case 0
  then show ?case by (intro exI [of _ s]) (auto simp: fun_eq_iff)
next
  case (Suc n)
  then have ab: "a < b" by simp
  note sn = sector_number [OF b(1) ab]
  have lt: "unat (lba + of_nat a) < 2 ^ 28" unfolding sn(1) by (rule sn(2))
  have off: "unat (of_nat a * 512 :: u32) = a * 512"
  proof -
    have "a * 512 < 2 ^ 32" using ab b(2) by simp
    then have "unat (of_nat (a * 512) :: u32) = a * 512" by (intro unat_of_nat_small) simp
    then show ?thesis by simp
  qed
  from ata_read_sector_gets [OF io Suc.prems(2,3) lt, of "at_offset (a * 512) buf"] obtain d where
    d: "ata_read_sector io (lba + of_nat a) False (at_offset (a * 512) buf) s =
      (0, \<lambda>j. if j < 512 then media v (hw s) (unat lba + a) ! j else at_offset (a * 512) buf j, note_success (s\<lparr>hw := d\<rparr>))"
    "media v d = media v (hw s)" "phase_of v d = Idle" unfolding sn(1) by blast
  define s1 where "s1 = note_success (s\<lparr>hw := d\<rparr>)"
  define b1 where "b1 = put_bytes_at (a * 512) (media v (hw s) (unat lba + a)) buf"
  have len: "length (media v (hw s) (unat lba + a)) = 512" using io by (simp add: pio_drive_def)
  have "put_at (a * 512) (\<lambda>j. if j < 512 then media v (hw s) (unat lba + a) ! j else at_offset (a * 512) buf j) buf = b1"
    by (auto simp: put_at_def at_offset_def b1_def put_bytes_at_def len fun_eq_iff)
  then have run: "io_read_loop io lba [a..<b] buf s = io_read_loop io lba [Suc a..<b] b1 s1"
    using ab d(1) by (simp add: upt_conv_Cons off s1_def)
  have "n = b - Suc a" "Suc a \<le> b" "present (ata0 s1)" "phase_of v (hw s1) = Idle"
    using Suc.hyps(2) Suc.prems(2) ab d(3) by (simp_all add: s1_def note_success_def)
  from Suc.hyps(1) [OF this, of b1] obtain s2 where
    s2: "io_read_loop io lba [Suc a..<b] b1 s1 =
      (0, \<lambda>j. if Suc a \<le> j div 512 \<and> j div 512 < b then media v (hw s1) (unat lba + j div 512) ! (j mod 512) else b1 j, s2)"
    "media v (hw s2) = media v (hw s1)" "phase_of v (hw s2) = Idle" "present (ata0 s2)" by auto
  have b1: "b1 j = (if j div 512 = a then media v (hw s) (unat lba + a) ! (j mod 512) else buf j)" for j
    unfolding b1_def by (rule put_bytes_at_append) (rule len)
  have m: "media v (hw s1) = media v (hw s)" using d(2) by (simp add: s1_def note_success_def)
  have "(\<lambda>j. if Suc a \<le> j div 512 \<and> j div 512 < b then media v (hw s1) (unat lba + j div 512) ! (j mod 512) else b1 j) =
      (\<lambda>j. if a \<le> j div 512 \<and> j div 512 < b then media v (hw s) (unat lba + j div 512) ! (j mod 512) else buf j)"
    using ab by (auto simp: b1 m fun_eq_iff)
  with run s2 m show ?case by (intro exI [of _ s2]) simp
qed

text \<open>A drive in software that follows the protocol: it is busy for one reading of the status after every command.\<close>

record sim =
  sim_disk :: "nat \<Rightarrow> u8 list"
  sim_regs :: "u16 \<Rightarrow> u8"
  sim_phase :: phase
  sim_busy :: bool

definition sim_sector :: "sim \<Rightarrow> nat \<Rightarrow> u8 list" where
  "sim_sector d n = take 512 (sim_disk d n @ replicate 512 0)"

definition sim_words :: "u8 list \<Rightarrow> u16 list" where
  "sim_words bs = map (\<lambda>i. ucast (bs ! (2 * i)) OR push_bit 8 (ucast (bs ! (2 * i + 1)))) [0..<256]"

definition sim_ports :: "sim ports" where
  "sim_ports = \<lparr>
     p_inb = (\<lambda>port d. (if sim_busy d then 0x80 else 0x48, d\<lparr>sim_busy := False\<rparr>)),
     p_inw = (\<lambda>port d. case sim_phase d of
        Sending (w # ws) \<Rightarrow> (w, d\<lparr>sim_phase := (if ws = [] then Idle else Sending ws)\<rparr>) | _ \<Rightarrow> (0xFFFF, d)),
     p_outb = (\<lambda>port x d.
        if port = 0x1F7 then
          (if x = 0x20 then d\<lparr>sim_phase := Sending (sim_words (sim_sector d (lba28 (sim_regs d)))), sim_busy := True\<rparr>
           else if x = 0x30 then d\<lparr>sim_phase := Receiving (lba28 (sim_regs d)) [], sim_busy := True\<rparr> else d)
        else d\<lparr>sim_regs := (sim_regs d)(port - 0x1F0 := x)\<rparr>),
     p_outw = (\<lambda>port w d. case sim_phase d of
        Receiving n ws \<Rightarrow> if length ws = 255 then d\<lparr>sim_disk := (sim_disk d)(n := sector_bytes (ws @ [w])), sim_phase := Idle\<rparr>
          else d\<lparr>sim_phase := Receiving n (ws @ [w])\<rparr> | _ \<Rightarrow> d)\<rparr>"

definition sim_view :: "sim drive" where
  "sim_view = \<lparr>media = sim_sector, task_file = sim_regs, phase_of = sim_phase, busy = (\<lambda>d. if sim_busy d then 1 else 0)\<rparr>"

lemmas sim_defs = sim_ports_def sim_view_def

lemma sim_words_bytes: "length bs = 512 \<Longrightarrow> sector_bytes (sim_words bs) = bs"
proof -
  assume l: "length bs = 512"
  have "sector_bytes (sim_words bs) = concat (map (\<lambda>i. [bs ! (2 * i), bs ! (2 * i + 1)]) [0..<256])"
    by (simp add: sector_bytes_def sim_words_def word_bytes comp_def)
  also have "concat (map (\<lambda>i. [bs ! (2 * i), bs ! (2 * i + 1)]) [0..<n]) = take (2 * n) bs" if "2 * n \<le> 512" for n
    using that by (induction n) (simp_all add: take_Suc_conv_app_nth l)
  from this [of 256] have "concat (map (\<lambda>i. [bs ! (2 * i), bs ! (2 * i + 1)]) [0..<256]) = bs" using l by simp
  finally show ?thesis .
qed

lemma length_sim_sector: "length (sim_sector d n) = 512"
  by (simp add: sim_sector_def)

lemma sim_status_law: "status_law sim_ports sim_view"
  by (auto simp: status_law_def sim_defs sim_sector_def)

lemma sim_register_law: "register_law sim_ports sim_view"
proof -
  have "(0x1F0 + r :: u16) \<noteq> 0x1F7" if "r \<le> 6" for r :: u16
  proof
    assume "0x1F0 + r = 0x1F7"
    then have "r = 7" by (simp add: algebra_simps eq_diff_eq [symmetric])
    with that show False by simp
  qed
  then show ?thesis by (auto simp: register_law_def sim_defs sim_sector_def fun_eq_iff Let_def)
qed

lemma sim_command_law: "command_law sim_ports sim_view"
  using sim_words_bytes [OF length_sim_sector] by (auto simp: command_law_def sim_defs sim_sector_def)

lemma sim_data_laws: "data_in_law sim_ports sim_view" "data_out_law sim_ports sim_view"
  by (auto simp: data_in_law_def data_out_law_def sim_defs sim_sector_def Let_def fun_eq_iff)

lemma sim_drive: "pio_drive sim_ports sim_view"
  by (simp add: pio_drive_def sim_status_law sim_register_law sim_command_law sim_data_laws)
    (simp add: sim_view_def length_sim_sector)

definition sim_ata :: "sim ata" where
  "sim_ata = \<lparr>ata0 = ata0_boot\<lparr>present := True\<rparr>, prd_table = [],
     hw = \<lparr>sim_disk = (\<lambda>_. []), sim_regs = (\<lambda>_. 0), sim_phase = Idle, sim_busy = False\<rparr>\<rparr>"

lemma sim_ata_ready: "present (ata0 sim_ata)" "phase_of sim_view (hw sim_ata) = Idle"
  by (simp_all add: sim_ata_def sim_view_def)

text \<open>
  C19. What is written to the disk is read back: on a drive that follows the transfer protocol, \<open>ata_write_sectors\<close> of up to
  256 sectors below the 28-bit limit succeeds, a following \<open>ata_read_sectors\<close> of the same sectors succeeds and returns the same
  bytes, and no other sector of the drive changes.
\<close>

theorem ata_write_read:
  assumes "pio_drive io v" "present (ata0 s)" "phase_of v (hw s) = Idle"
    and "0 < unat n" "unat n \<le> 256" "unat lba + unat n \<le> 2 ^ 28"
  shows "\<exists>s1 out s2. ata_write_sectors io lba n False dat s = (0, s1) \<and> ata_read_sectors io lba n False buf s1 = (0, out, s2) \<and>
     (\<forall>j<unat n * 512. out j = dat j) \<and>
     (\<forall>k. k < unat lba \<or> unat lba + unat n \<le> k \<longrightarrow> media v (hw s2) k = media v (hw s) k)"
proof -
  obtain d where w: "ata_write_sectors io lba n False dat s = (0, note_success (s\<lparr>hw := d\<rparr>))" "phase_of v d = Idle"
    "media v d = (\<lambda>k. if unat lba \<le> k \<and> k < unat lba + unat n then map (\<lambda>j. dat ((k - unat lba) * 512 + j)) [0..<512] else media v (hw s) k)"
    using ata_write_sectors_puts [OF assms] by blast
  define s1 where "s1 = note_success (s\<lparr>hw := d\<rparr>)"
  have s1: "present (ata0 s1)" "phase_of v (hw s1) = Idle" "hw s1 = d" using assms(2) w(2) by (simp_all add: s1_def note_success_def)
  obtain d2 where r: "ata_read_sectors io lba n False buf s1 =
      (0, \<lambda>j. if j div 512 < unat n then media v d (unat lba + j div 512) ! (j mod 512) else buf j, note_success (s1\<lparr>hw := d2\<rparr>))"
    "media v d2 = media v d" using ata_read_sectors_gets [OF assms(1) s1(1,2) assms(4-6)] unfolding s1(3) by blast
  have "media v d (unat lba + j div 512) ! (j mod 512) = dat j" "j div 512 < unat n" if "j < unat n * 512" for j
    using that by (auto simp: w(3) less_mult_imp_div_less)
  then show ?thesis using w(1) r w(3) unfolding s1_def [symmetric] by (auto simp: note_success_def)
qed

theorem ata_write_read_witness:
  "\<exists>s1 out s2. ata_write_sectors sim_ports 5 2 False (\<lambda>j. of_nat j) sim_ata = (0, s1) \<and> ata_read_sectors sim_ports 5 2 False (\<lambda>_. 0) s1 = (0, out, s2) \<and>
     out 700 = of_nat 700"
  using ata_write_read [OF sim_drive sim_ata_ready, of 2 5 "\<lambda>j. of_nat j" "\<lambda>_. 0"] by fastforce

text \<open>
  C18. The driver implements the disk of the file systems: below the 28-bit limit, reading a run of sectors through the disk layer
  and the driver succeeds, fills the buffer with exactly what the disk of the FAT32 reader returns for them, and leaves the drive's
  contents as they were, so that every later reading is answered from the same disk.
\<close>

theorem ata_implements_disk:
  assumes "pio_drive io v" "present (ata0 s)" "phase_of v (hw s) = Idle"
    and "n \<noteq> 0" "unat n < 2 ^ 23" "unat lba + unat n \<le> 2 ^ 28"
  shows "\<exists>out s1. ata_io_read_sectors io lba n False buf s = (0, out, s1) \<and>
     disk_io_read_sectors (drive_disk v (hw s)) lba n = Some (map out [0..<unat n * 512]) \<and>
     drive_disk v (hw s1) = drive_disk v (hw s) \<and> present (ata0 s1) \<and> phase_of v (hw s1) = Idle"
proof -
  define out where "out = (\<lambda>j. if 0 \<le> j div 512 \<and> j div 512 < unat n then media v (hw s) (unat lba + j div 512) ! (j mod 512) else buf j)"
  obtain s1 where s1: "io_read_loop io lba [0..<unat n] buf s = (0, out, s1)"
    "media v (hw s1) = media v (hw s)" "phase_of v (hw s1) = Idle" "present (ata0 s1)"
    using io_read_gets [OF assms(1,6,5) _ assms(2,3), of 0 buf] unfolding out_def by blast
  have "concat (map (\<lambda>i. media v (hw s) (unat (lba + of_nat i))) [0..<unat n]) = concat (map (\<lambda>i. media v (hw s) (unat lba + i)) [0..<unat n])"
    using sector_number(1) [OF assms(6)] by (intro arg_cong [where f = concat] map_cong) auto
  also have "\<dots> = map (\<lambda>j. media v (hw s) (unat lba + j div 512) ! (j mod 512)) [0..<unat n * 512]"
    by (rule concat_sectors) (use assms(1) in \<open>simp add: pio_drive_def\<close>)
  also have "\<dots> = map out [0..<unat n * 512]" by (auto simp: out_def less_mult_imp_div_less)
  finally have "disk_io_read_sectors (drive_disk v (hw s)) lba n = Some (map out [0..<unat n * 512])"
    using assms(4) by (simp add: disk_io_read_sectors_def read_run_drive)
  then show ?thesis using s1 assms(4) by (intro exI [of _ out] exI [of _ s1]) (simp add: ata_io_read_sectors_def drive_disk_def fun_eq_iff)
qed

theorem ata_implements_disk_witness:
  "\<exists>out s1. ata_io_read_sectors sim_ports 5 3 False (\<lambda>_. 1) sim_ata = (0, out, s1) \<and>
     disk_io_read_sectors (drive_disk sim_view (hw sim_ata)) 5 3 = Some (map out [0..<1536])"
  using ata_implements_disk [OF sim_drive sim_ata_ready, of 3 5 "\<lambda>_. 1"] by fastforce

text \<open>
  Sector numbers have 28 bits on the wire: a larger number is cut, not refused, and addresses another sector.
\<close>

lemma select_sector_aliases: "select_sector io base (lba + 0x10000000) cmd s = select_sector io base lba cmd s"
proof -
  let ?x = "lba + 0x10000000"
  have "unat ?x mod 2 ^ 28 = unat lba mod 2 ^ 28" by (simp add: unat_word_ariths mod_mod_cancel)
  then have "unat (take_bit 28 ?x) = unat (take_bit 28 lba)" by (simp only: unsigned_take_bit_eq take_bit_nat_def)
  then have t: "take_bit 28 ?x = take_bit 28 lba" by (simp only: word_unat_eq_iff)
  have b: "bit ?x n = bit lba n" if "n < 28" for n
    using that arg_cong [OF t, where f = "\<lambda>w. bit w n"] by (simp only: bit_take_bit_iff simp_thms)
  have m: "(0xFF :: u32) = mask 8" "(0x0F :: u32) = mask 4" by (simp_all add: mask_eq_exp_minus_1)
  have "?x AND 0xFF = lba AND 0xFF" "drop_bit 8 ?x AND 0xFF = drop_bit 8 lba AND 0xFF" "drop_bit 16 ?x AND 0xFF = drop_bit 16 lba AND 0xFF"
    "drop_bit 24 ?x AND 0x0F = drop_bit 24 lba AND 0x0F"
    unfolding m by (rule bit_word_eqI, auto simp only: bit_and_iff bit_mask_iff bit_drop_bit_eq comp_def b)+
  then show ?thesis by (simp only: select_sector_def)
qed

lemma ata_sector_aliases: "ata_pio_write_sectors io (lba + 0x10000000) n null buf s = ata_pio_write_sectors io lba n null buf s"
proof -
  have "write_sectors_loop io (lba + 0x10000000) is buf s = write_sectors_loop io lba is buf s" for "is"
    using select_sector_aliases [of io ATA_PRIMARY_IO "lba + of_nat i" for i] by (induction "is" arbitrary: s) (auto simp: ac_simps split: prod.splits)
  then show ?thesis by (simp add: ata_pio_write_sectors_def)
qed

end
