(* ===== verification/Ps2.thy ===== *)
theory Ps2
  imports Ata Gfx
begin

text \<open>
  The keyboard and mouse drivers of \<^verbatim>\<open>src/drivers/kbd.c\<close> and \<^verbatim>\<open>src/drivers/mouse.c\<close>. The PS/2 controller behind
  the ports is hardware: the port instructions are an argument, as in the disk driver. What the drivers rely on, that the status port
  tells whether a byte is waiting and from which device, is the predicate \<open>ps2_controller\<close>. A loop that reads until the controller is empty need
  not end on arbitrary hardware and has the value \<open>None\<close> then. Trace output is left out.
\<close>

section \<open>Constants and state\<close>

definition PS2_DATA_PORT :: u16 where "PS2_DATA_PORT = 0x60"
definition PS2_STATUS_PORT :: u16 where "PS2_STATUS_PORT = 0x64"
definition PS2_CMD_PORT :: u16 where "PS2_CMD_PORT = 0x64"
definition PS2_STATUS_OUTPUT_FULL :: u8 where "PS2_STATUS_OUTPUT_FULL = 0x01"
definition PS2_STATUS_INPUT_FULL :: u8 where "PS2_STATUS_INPUT_FULL = 0x02"
definition PS2_STATUS_AUX_DATA :: u8 where "PS2_STATUS_AUX_DATA = 0x20"
definition PS2_CMD_ENABLE_AUX :: u8 where "PS2_CMD_ENABLE_AUX = 0xA8"
definition PS2_CMD_READ_CONFIG :: u8 where "PS2_CMD_READ_CONFIG = 0x20"
definition PS2_CMD_WRITE_CONFIG :: u8 where "PS2_CMD_WRITE_CONFIG = 0x60"
definition PS2_CMD_WRITE_MOUSE :: u8 where "PS2_CMD_WRITE_MOUSE = 0xD4"
definition PS2_CMD_ENABLE_KBD :: u8 where "PS2_CMD_ENABLE_KBD = 0xAE"
definition PS2_CMD_DISABLE_KBD :: u8 where "PS2_CMD_DISABLE_KBD = 0xAD"
definition PS2_DEV_SET_DEFAULTS :: u8 where "PS2_DEV_SET_DEFAULTS = 0xF6"
definition PS2_DEV_ENABLE_STREAMING :: u8 where "PS2_DEV_ENABLE_STREAMING = 0xF4"
definition KBD_BUFFER_SIZE :: u32 where "KBD_BUFFER_SIZE = 256"
definition MOUSE_BASE_SPEED :: int where "MOUSE_BASE_SPEED = 2"
definition MOUSE_ACCEL_THRESHOLD :: int where "MOUSE_ACCEL_THRESHOLD = 8"
definition MOUSE_ACCEL_MULTIPLIER :: int where "MOUSE_ACCEL_MULTIPLIER = 1"

lemmas ps2_ports = PS2_DATA_PORT_def PS2_STATUS_PORT_def PS2_CMD_PORT_def PS2_STATUS_OUTPUT_FULL_def PS2_STATUS_INPUT_FULL_def PS2_STATUS_AUX_DATA_def

record kbd_modifier =
  m_lctrl :: bool
  m_rctrl :: bool
  m_lshift :: bool
  m_rshift :: bool
  m_lalt :: bool
  m_ralt :: bool
  m_caps :: bool
  m_num :: bool

record kbd_buffer =
  kb_buffer :: "nat \<Rightarrow> u8"
  kb_ext :: "nat \<Rightarrow> u8"
  kb_head :: u32
  kb_tail :: u32
  kb_size :: u32
  kb_extended :: bool
  kb_trace :: bool

record kbd =
  kbd_buf :: kbd_buffer
  kbd_lock :: spinlock
  kbd_mods :: kbd_modifier

record mouse_state =
  ms_x :: int
  ms_y :: int
  left_btn :: bool
  right_btn :: bool
  middle_btn :: bool

record mouse_packet =
  x_delta :: "8 word"
  y_delta :: "8 word"
  pk_left :: bool
  pk_right :: bool
  pk_middle :: bool

record mouse =
  mouse_global :: mouse_state
  mouse_state_var :: mouse_state
  mouse_packet_buffer :: "u8 list"
  mouse_packet_index :: u8
  mouse_packet_ready :: bool
  mouse_lock :: spinlock

definition kbd_boot :: kbd where
  "kbd_boot = \<lparr>kbd_buf = \<lparr>kb_buffer = (\<lambda>_. 0), kb_ext = (\<lambda>_. 0), kb_head = 0, kb_tail = 0, kb_size = 0, kb_extended = False, kb_trace = False\<rparr>,
     kbd_lock = \<lparr>locked = 0\<rparr>,
     kbd_mods = \<lparr>m_lctrl = False, m_rctrl = False, m_lshift = False, m_rshift = False, m_lalt = False, m_ralt = False, m_caps = False, m_num = False\<rparr>\<rparr>"

definition mouse_state0 :: mouse_state where
  "mouse_state0 = \<lparr>ms_x = 0, ms_y = 0, left_btn = False, right_btn = False, middle_btn = False\<rparr>"

definition mouse_boot :: mouse where
  "mouse_boot = \<lparr>mouse_global = mouse_state0, mouse_state_var = mouse_state0, mouse_packet_buffer = [0, 0, 0, 0], mouse_packet_index = 0,
     mouse_packet_ready = False, mouse_lock = \<lparr>locked = 0\<rparr>\<rparr>"

section \<open>Keyboard\<close>

definition scancode_us :: "u8 list" where
  "scancode_us = [0, 27] @ cstr ''1234567890-='' @ [8, 9] @ cstr ''qwertyuiop[]'' @ [10, 0] @ cstr ''asdfghjkl;'' @ [39, 96, 0, 92] @ cstr ''zxcvbnm,./''
     @ [0, 42, 0, 32, 0] @ replicate 12 0 @ cstr ''789-456+1230.'' @ replicate 44 0"

definition scancode_us_shift :: "u8 list" where
  "scancode_us_shift = [0, 27] @ cstr ''!@#$%^&*()_+'' @ [8, 9] @ cstr ''QWERTYUIOP{}'' @ [10, 0] @ cstr ''ASDFGHJKL:'' @ [34, 126, 0, 124] @ cstr ''ZXCVBNM<>?''
     @ [0, 42, 0, 32, 0] @ replicate 12 0 @ cstr ''789-456+1230.'' @ replicate 44 0"

definition kbd_is_extended :: "u8 \<Rightarrow> bool" where
  "kbd_is_extended scancode \<longleftrightarrow> scancode = 0xE0"

text \<open>The switch lists the labels \<open>0x1D\<close> and \<open>0x38\<close> twice; the first occurrence is taken here.\<close>

definition kbd_update_modifiers :: "u8 \<Rightarrow> bool \<Rightarrow> kbd \<Rightarrow> kbd" where
  "kbd_update_modifiers scancode is_release k =
     (let m = kbd_mods k; m1 =
        (if scancode = 0x1D then m\<lparr>m_lctrl := \<not> is_release\<rparr>
         else if scancode = 0x2A then m\<lparr>m_lshift := \<not> is_release\<rparr>
         else if scancode = 0x36 then m\<lparr>m_rshift := \<not> is_release\<rparr>
         else if scancode = 0x38 then m\<lparr>m_lalt := \<not> is_release\<rparr>
         else if scancode = 0x3A then (if \<not> is_release then m\<lparr>m_caps := \<not> m_caps m\<rparr> else m)
         else m)
      in k\<lparr>kbd_mods := m1\<rparr>)"

definition kbd_scancode_to_ascii :: "u8 \<Rightarrow> kbd_modifier \<Rightarrow> u8" where
  "kbd_scancode_to_ascii scancode m =
     (if scancode \<ge> 128 then 0
      else let ascii = (if m_lshift m \<or> m_rshift m then scancode_us_shift ! unat scancode else scancode_us ! unat scancode)
           in if m_caps m \<and> 97 \<le> ascii \<and> ascii \<le> 122 then ascii - 97 + 65
              else if m_caps m \<and> 65 \<le> ascii \<and> ascii \<le> 90 then ascii - 65 + 97
              else ascii)"

fun wait_status :: "'d ports \<Rightarrow> (u8 \<Rightarrow> bool) \<Rightarrow> nat \<Rightarrow> 'd \<Rightarrow> 'd" where
  "wait_status io P 0 d = d"
| "wait_status io P (Suc n) d = (let (st, d1) = p_inb io PS2_STATUS_PORT d in if P st then d1 else wait_status io P n d1)"

definition kbd_wait_write :: "'d ports \<Rightarrow> 'd \<Rightarrow> 'd" where
  "kbd_wait_write io d = wait_status io (\<lambda>st. st AND 2 = 0) 100000 d"

partial_function (option) kbd_drain :: "'d ports \<Rightarrow> 'd \<Rightarrow> 'd option" where
  "kbd_drain io d =
     (let (st, d1) = p_inb io PS2_STATUS_PORT d in
      if st AND 1 = 0 then Some d1 else kbd_drain io (snd (p_inb io PS2_DATA_PORT d1)))"

definition kbd_init :: "'d ports \<Rightarrow> kbd \<Rightarrow> 'd \<Rightarrow> (kbd \<times> 'd) option" where
  "kbd_init io k d =
     (let k1 = k\<lparr>kbd_lock := spinlock_init, kbd_buf := (kbd_buf k)\<lparr>kb_head := 0, kb_tail := 0, kb_extended := False, kb_trace := False\<rparr>\<rparr>;
          d1 = p_outb io PS2_CMD_PORT PS2_CMD_DISABLE_KBD (kbd_wait_write io d)
      in case kbd_drain io d1 of None \<Rightarrow> None
         | Some d2 \<Rightarrow> Some (k1, p_outb io PS2_CMD_PORT PS2_CMD_ENABLE_KBD (kbd_wait_write io d2)))"

definition kbd_put_scancode_ext :: "u8 \<Rightarrow> u8 \<Rightarrow> kbd \<Rightarrow> int \<times> kbd" where
  "kbd_put_scancode_ext scancode flags k =
     (let b = kbd_buf k in
      if kb_head b = kb_tail b \<and> kb_size b = KBD_BUFFER_SIZE then (0, k)
      else let next = (kb_head b + 1) mod KBD_BUFFER_SIZE in
        if next \<noteq> kb_tail b
        then (1, k\<lparr>kbd_buf := b\<lparr>kb_buffer := (kb_buffer b)(unat (kb_head b) := scancode), kb_ext := (kb_ext b)(unat (kb_head b) := flags),
               kb_head := next, kb_size := kb_size b + 1\<rparr>\<rparr>)
        else (0, k))"

definition kbd_set_trace :: "bool \<Rightarrow> kbd \<Rightarrow> kbd" where
  "kbd_set_trace enabled k = k\<lparr>kbd_buf := (kbd_buf k)\<lparr>kb_trace := enabled\<rparr>\<rparr>"

text \<open>What both the polling loop and the interrupt handler do with a byte from the keyboard.\<close>

definition kbd_byte :: "u8 \<Rightarrow> kbd \<Rightarrow> kbd" where
  "kbd_byte dat k =
     (if kbd_is_extended dat then k\<lparr>kbd_buf := (kbd_buf k)\<lparr>kb_extended := True\<rparr>\<rparr>
      else let is_release = (dat AND 0x80 \<noteq> 0); scancode = dat AND 0x7F;
               flags = (if kb_extended (kbd_buf k) then 1 else 0) OR (if is_release then 2 else 0);
               k1 = snd (kbd_put_scancode_ext scancode flags (kbd_update_modifiers scancode is_release k))
           in k1\<lparr>kbd_buf := (kbd_buf k1)\<lparr>kb_extended := False\<rparr>\<rparr>)"

partial_function (option) kbd_loop :: "'d ports \<Rightarrow> kbd \<Rightarrow> 'd \<Rightarrow> (kbd \<times> 'd) option" where
  "kbd_loop io k d =
     (let (st0, d1) = p_inb io PS2_STATUS_PORT d in
      if st0 AND 1 = 0 then Some (k, d1)
      else let (status, d2) = p_inb io PS2_STATUS_PORT d1; (dat, d3) = p_inb io PS2_DATA_PORT d2 in
        if status AND 0x20 \<noteq> 0 then Some (k, d3) else kbd_loop io (kbd_byte dat k) d3)"

definition kbd_poll :: "'d ports \<Rightarrow> kbd \<Rightarrow> 'd \<Rightarrow> (kbd \<times> 'd) res option" where
  "kbd_poll io k d =
     (case spinlock_acquire (kbd_lock k) of Inl e \<Rightarrow> Some (Inl e)
      | Inr l \<Rightarrow> (case kbd_loop io (k\<lparr>kbd_lock := l\<rparr>) d of None \<Rightarrow> None
          | Some (k1, d1) \<Rightarrow> Some (Inr (k1\<lparr>kbd_lock := spinlock_release (kbd_lock k1)\<rparr>, d1))))"

definition kbd_drop :: "kbd \<Rightarrow> kbd" where
  "kbd_drop k = k\<lparr>kbd_buf := (kbd_buf k)\<lparr>kb_tail := (kb_tail (kbd_buf k) + 1) mod KBD_BUFFER_SIZE, kb_size := kb_size (kbd_buf k) - 1\<rparr>\<rparr>"

definition kbd_read_scancode :: "kbd \<Rightarrow> u8 \<times> kbd" where
  "kbd_read_scancode k =
     (let b = kbd_buf k in if kb_head b = kb_tail b then (0, k) else (kb_buffer b (unat (kb_tail b)), kbd_drop k))"

definition kbd_read_ascii :: "kbd \<Rightarrow> u8 \<times> kbd" where
  "kbd_read_ascii k =
     (let b = kbd_buf k in if kb_head b = kb_tail b then (0, k)
      else (kbd_scancode_to_ascii (kb_buffer b (unat (kb_tail b))) (kbd_mods k), kbd_drop k))"

definition kbd_has_data :: "kbd \<Rightarrow> bool" where
  "kbd_has_data k \<longleftrightarrow> kb_head (kbd_buf k) \<noteq> kb_tail (kbd_buf k)"

definition kbd_is_scancode_release :: "kbd \<Rightarrow> bool" where
  "kbd_is_scancode_release k \<longleftrightarrow> kbd_has_data k \<and> kb_buffer (kbd_buf k) (unat (kb_tail (kbd_buf k))) AND 0x80 \<noteq> 0"

definition kbd_get_modifiers :: "kbd \<Rightarrow> kbd_modifier" where
  "kbd_get_modifiers k = kbd_mods k"

definition kbd_handler :: "'d ports \<Rightarrow> kbd \<Rightarrow> 'd \<Rightarrow> (kbd \<times> 'd) res" where
  "kbd_handler io k d =
     rbind (spinlock_acquire (kbd_lock k)) (\<lambda>l.
       let (status, d1) = p_inb io PS2_STATUS_PORT d; (dat, d2) = p_inb io PS2_DATA_PORT d1; k0 = k\<lparr>kbd_lock := l\<rparr>;
           k1 = (if status AND 0x20 = 0 then kbd_byte dat k0 else k0)
       in Inr (k1\<lparr>kbd_lock := spinlock_release (kbd_lock k1)\<rparr>, d2))"

section \<open>Mouse\<close>

definition apply_mouse_curve :: "int \<Rightarrow> int" where
  "apply_mouse_curve delta =
     (let magnitude = (if delta < 0 then - delta else delta); scaled = delta * MOUSE_BASE_SPEED
      in if magnitude \<ge> MOUSE_ACCEL_THRESHOLD
         then scaled + cdiv (delta * MOUSE_ACCEL_MULTIPLIER * (magnitude - MOUSE_ACCEL_THRESHOLD)) 4 else scaled)"

definition mouse_wait_write :: "'d ports \<Rightarrow> 'd \<Rightarrow> 'd" where
  "mouse_wait_write io d = wait_status io (\<lambda>st. st AND PS2_STATUS_INPUT_FULL = 0) 100000 d"

definition mouse_wait_read :: "'d ports \<Rightarrow> 'd \<Rightarrow> 'd" where
  "mouse_wait_read io d = wait_status io (\<lambda>st. st AND PS2_STATUS_OUTPUT_FULL \<noteq> 0) 100000 d"

definition mouse_write_command :: "'d ports \<Rightarrow> u8 \<Rightarrow> 'd \<Rightarrow> 'd" where
  "mouse_write_command io cmd d = p_outb io PS2_CMD_PORT cmd (mouse_wait_write io d)"

definition mouse_write_data :: "'d ports \<Rightarrow> u8 \<Rightarrow> 'd \<Rightarrow> 'd" where
  "mouse_write_data io dat d = p_outb io PS2_DATA_PORT dat (mouse_wait_write io d)"

definition mouse_write_device :: "'d ports \<Rightarrow> u8 \<Rightarrow> 'd \<Rightarrow> 'd" where
  "mouse_write_device io dat d = mouse_write_data io dat (mouse_write_command io PS2_CMD_WRITE_MOUSE d)"

definition mouse_read_data :: "'d ports \<Rightarrow> 'd \<Rightarrow> u8 \<times> 'd" where
  "mouse_read_data io d = p_inb io PS2_DATA_PORT (mouse_wait_read io d)"

definition mouse_apply :: "u8 \<Rightarrow> u8 \<Rightarrow> u8 \<Rightarrow> mouse_state \<Rightarrow> mouse_state" where
  "mouse_apply status bx bty g =
     (let x = ms_x g + apply_mouse_curve (sint bx); y = ms_y g - apply_mouse_curve (sint bty)
      in \<lparr>ms_x = (if x < 0 then 0 else x), ms_y = (if y < 0 then 0 else y),
          left_btn = (status AND 1 \<noteq> 0), right_btn = (status AND 2 \<noteq> 0), middle_btn = (status AND 4 \<noteq> 0)\<rparr>)"

definition mouse_process_byte :: "u8 \<Rightarrow> mouse \<Rightarrow> mouse res" where
  "mouse_process_byte dat m =
     (if mouse_packet_index m = 0 then
        (if dat AND 8 = 0 then Inr m
         else Inr (m\<lparr>mouse_packet_buffer := (mouse_packet_buffer m)[0 := dat], mouse_packet_index := 1\<rparr>))
      else if unat (mouse_packet_index m) \<ge> length (mouse_packet_buffer m) then Inl Fault
      else let m1 = m\<lparr>mouse_packet_buffer := (mouse_packet_buffer m)[unat (mouse_packet_index m) := dat], mouse_packet_index := mouse_packet_index m + 1\<rparr>
           in if mouse_packet_index m1 \<ge> 3 then
                (let m2 = m1\<lparr>mouse_packet_index := 0, mouse_packet_ready := True\<rparr>;
                     status = mouse_packet_buffer m2 ! 0; bx = mouse_packet_buffer m2 ! 1; bty = mouse_packet_buffer m2 ! 2
                 in if status AND 0xC0 \<noteq> 0 then Inr m2
                    else rbind (spinlock_acquire (mouse_lock m2)) (\<lambda>l.
                      let g = mouse_apply status bx bty (mouse_global m2)
                      in Inr (m2\<lparr>mouse_global := g, mouse_state_var := g, mouse_lock := spinlock_release l\<rparr>)))
              else Inr m1)"

definition mouse_init :: "'d ports \<Rightarrow> mouse \<Rightarrow> 'd \<Rightarrow> mouse \<times> 'd" where
  "mouse_init io m d =
     (let m1 = m\<lparr>mouse_lock := spinlock_init, mouse_global := (mouse_global m)\<lparr>ms_x := 400, ms_y := 300\<rparr>, mouse_packet_index := 0, mouse_packet_ready := False\<rparr>;
          d1 = mouse_write_command io PS2_CMD_ENABLE_AUX d;
          d2 = mouse_write_command io PS2_CMD_READ_CONFIG d1;
          (config0, d3) = mouse_read_data io d2;
          config = (config0 OR 2) AND NOT 0x20;
          d4 = mouse_write_data io config (mouse_write_command io PS2_CMD_WRITE_CONFIG d3);
          d5 = snd (mouse_read_data io (mouse_write_device io PS2_DEV_SET_DEFAULTS d4));
          d6 = snd (mouse_read_data io (mouse_write_device io PS2_DEV_ENABLE_STREAMING d5))
      in (m1, d6))"

partial_function (option) mouse_loop :: "'d ports \<Rightarrow> mouse \<Rightarrow> 'd \<Rightarrow> (mouse \<times> 'd) res option" where
  "mouse_loop io m d =
     (let (st0, d1) = p_inb io PS2_STATUS_PORT d in
      if st0 AND PS2_STATUS_OUTPUT_FULL = 0 then Some (Inr (m, d1))
      else let (status, d2) = p_inb io PS2_STATUS_PORT d1 in
        if status AND PS2_STATUS_AUX_DATA = 0 then Some (Inr (m, d2))
        else let (dat, d3) = p_inb io PS2_DATA_PORT d2 in
          case rbind (mouse_process_byte dat (m\<lparr>mouse_lock := spinlock_release (mouse_lock m)\<rparr>)) (\<lambda>m1.
                 rbind (spinlock_acquire (mouse_lock m1)) (\<lambda>l. Inr (m1\<lparr>mouse_lock := l\<rparr>))) of
            Inl e \<Rightarrow> Some (Inl e) | Inr m2 \<Rightarrow> mouse_loop io m2 d3)"

definition mouse_poll :: "'d ports \<Rightarrow> mouse \<Rightarrow> 'd \<Rightarrow> (mouse \<times> 'd) res option" where
  "mouse_poll io m d =
     (case spinlock_acquire (mouse_lock m) of Inl e \<Rightarrow> Some (Inl e)
      | Inr l \<Rightarrow> (case mouse_loop io (m\<lparr>mouse_lock := l\<rparr>) d of
          Some (Inr (m1, d1)) \<Rightarrow> Some (Inr (m1\<lparr>mouse_lock := spinlock_release (mouse_lock m1)\<rparr>, d1)) | r \<Rightarrow> r))"

definition mouse_handler :: "'d ports \<Rightarrow> mouse \<Rightarrow> 'd \<Rightarrow> (mouse \<times> 'd) res" where
  "mouse_handler io m d = (let (dat, d1) = p_inb io PS2_DATA_PORT d in rbind (mouse_process_byte dat m) (\<lambda>m1. Inr (m1, d1)))"

definition mouse_get_packet :: "mouse \<Rightarrow> (mouse_packet \<times> mouse) res" where
  "mouse_get_packet m =
     rbind (spinlock_acquire (mouse_lock m)) (\<lambda>l.
       let b = mouse_packet_buffer m
       in Inr (\<lparr>x_delta = b ! 1, y_delta = - (b ! 2), pk_left = (b ! 0 AND 1 \<noteq> 0), pk_right = (b ! 0 AND 2 \<noteq> 0), pk_middle = (b ! 0 AND 4 \<noteq> 0)\<rparr>,
               m\<lparr>mouse_lock := spinlock_release l\<rparr>))"

definition mouse_is_packet_ready :: "mouse \<Rightarrow> bool" where
  "mouse_is_packet_ready m = mouse_packet_ready m"

section \<open>The controller\<close>

text \<open>
  The bytes waiting in the controller, each with the device it comes from (\<open>True\<close> for the mouse). Reading the status changes nothing: bit 0
  says that a byte is waiting and bit 5 that it comes from the mouse; reading the data port removes it.
\<close>

definition ps2_controller :: "'d ports \<Rightarrow> ('d \<Rightarrow> (bool \<times> u8) list) \<Rightarrow> bool" where
  "ps2_controller io out \<longleftrightarrow>
     (\<forall>d. out (snd (p_inb io 0x64 d)) = out d \<and> (fst (p_inb io 0x64 d) AND 1 \<noteq> 0 \<longleftrightarrow> out d \<noteq> []) \<and>
       (out d \<noteq> [] \<longrightarrow> (fst (p_inb io 0x64 d) AND 0x20 \<noteq> 0 \<longleftrightarrow> fst (hd (out d))) \<and>
          fst (p_inb io 0x60 d) = snd (hd (out d)) \<and> out (snd (p_inb io 0x60 d)) = tl (out d)))"

lemma controller_empty: "ps2_controller io out \<Longrightarrow> out d = [] \<Longrightarrow> \<exists>st d1. p_inb io 0x64 d = (st, d1) \<and> st AND 1 = 0 \<and> out d1 = []"
  unfolding ps2_controller_def by (metis prod.collapse)

lemma controller_status:
  "ps2_controller io out \<Longrightarrow> out d = (a, b) # q \<Longrightarrow> \<exists>st d1. p_inb io 0x64 d = (st, d1) \<and> st AND 1 \<noteq> 0 \<and> (st AND 0x20 \<noteq> 0 \<longleftrightarrow> a) \<and> out d1 = (a, b) # q"
  unfolding ps2_controller_def by (metis fst_conv list.discI list.sel(1) prod.collapse)

lemma controller_data: "ps2_controller io out \<Longrightarrow> out d = (a, b) # q \<Longrightarrow> \<exists>d1. p_inb io 0x60 d = (b, d1) \<and> out d1 = q"
  unfolding ps2_controller_def by (metis snd_conv list.discI list.sel(1) list.sel(3) prod.collapse)

text \<open>A controller in software: the waiting bytes are its state.\<close>

definition soft_ps2 :: "(bool \<times> u8) list ports" where
  "soft_ps2 = \<lparr>p_inb = (\<lambda>p q. if p = 0x64 then ((if q = [] then 0 else 1) OR (if q \<noteq> [] \<and> fst (hd q) then 0x20 else 0), q)
       else if p = 0x60 \<and> q \<noteq> [] then (snd (hd q), tl q) else (0, q)),
     p_inw = (\<lambda>p q. (0, q)), p_outb = (\<lambda>p v q. q), p_outw = (\<lambda>p v q. q)\<rparr>"

lemma soft_ps2_controller: "ps2_controller soft_ps2 (\<lambda>q. q)"
  unfolding ps2_controller_def
proof (intro allI)
  fix d :: "(bool \<times> u8) list"
  have "(0x20 :: u8) AND 1 = 0" "(1 OR 0x20 :: u8) AND 1 = 1" "(1 OR 0x20 :: u8) AND 0x20 = 0x20" "(1 :: u8) AND 0x20 = 0" by simp_all
  then show "snd (p_inb soft_ps2 0x64 d) = d \<and> (fst (p_inb soft_ps2 0x64 d) AND 1 \<noteq> 0 \<longleftrightarrow> d \<noteq> []) \<and>
       (d \<noteq> [] \<longrightarrow> (fst (p_inb soft_ps2 0x64 d) AND 0x20 \<noteq> 0 \<longleftrightarrow> fst (hd d)) \<and> fst (p_inb soft_ps2 0x60 d) = snd (hd d) \<and> snd (p_inb soft_ps2 0x60 d) = tl d)"
    by (auto simp: soft_ps2_def)
qed

section \<open>The keyboard buffer\<close>

lemma unat_next:
  assumes "unat (p :: u32) + 1 < 2 ^ 32"
  shows "unat ((p + 1) mod m) = (unat p + 1) mod unat m"
proof -
  have "unat (p + 1) = unat p + 1" using assms unat_of_nat_small [of "unat p + 1"] by (simp add: unsigned_of_nat take_bit_nat_eq_self unat_word_ariths)
  then show ?thesis by (simp add: unat_mod_distrib)
qed

definition kbd_ok :: "kbd \<Rightarrow> bool" where
  "kbd_ok k \<longleftrightarrow> (let b = kbd_buf k in unat (kb_tail b) < 256 \<and> unat (kb_size b) < 256 \<and> unat (kb_head b) = (unat (kb_tail b) + unat (kb_size b)) mod 256)"

definition kbd_queue :: "kbd \<Rightarrow> u8 list" where
  "kbd_queue k = ring_slice 256 (kb_buffer (kbd_buf k)) (unat (kb_tail (kbd_buf k))) (unat (kb_size (kbd_buf k)))"

lemma kbd_put_queue:
  assumes ok: "kbd_ok k"
  shows "kbd_ok (snd (kbd_put_scancode_ext c f k)) \<and>
    kbd_queue (snd (kbd_put_scancode_ext c f k)) = (if length (kbd_queue k) < 255 then kbd_queue k @ [c] else kbd_queue k)"
proof -
  define t n where "t = unat (kb_tail (kbd_buf k))" and "n = unat (kb_size (kbd_buf k))"
  have h: "t < 256" "n < 256" "unat (kb_head (kbd_buf k)) = (t + n) mod 256" using ok by (auto simp: kbd_ok_def Let_def t_def n_def)
  have nx: "unat ((kb_head (kbd_buf k) + 1) mod 256) = (t + Suc n) mod 256"
    using unat_next [of "kb_head (kbd_buf k)" 256] h(3) by (simp add: mod_Suc_eq)
  have sz: "kb_size (kbd_buf k) \<noteq> 256" using h(2) by (auto simp: n_def)
  have full: "(kb_head (kbd_buf k) + 1) mod 256 = kb_tail (kbd_buf k) \<longleftrightarrow> n = 255"
  proof -
    have "(t + Suc n) mod 256 = t \<longleftrightarrow> n = 255" using mod_add_neq [of 0 "Suc n" 256 t] h(1,2) by (cases "n = 255") auto
    then show ?thesis by (simp add: word_unat_eq_iff nx t_def [symmetric])
  qed
  show ?thesis
  proof (cases "n = 255")
    case True
    then show ?thesis using ok sz full by (simp add: kbd_put_scancode_ext_def KBD_BUFFER_SIZE_def Let_def kbd_queue_def n_def)
  next
    case False
    have s1: "unat (kb_size (kbd_buf k) + 1) = Suc n" using h(2) by (simp add: unat_word_ariths n_def)
    show ?thesis using False sz full h nx s1 ring_slice_push [of n 256 "kb_buffer (kbd_buf k)" t c]
      by (simp add: kbd_put_scancode_ext_def KBD_BUFFER_SIZE_def Let_def kbd_queue_def kbd_ok_def t_def [symmetric] n_def [symmetric])
  qed
qed

lemma kbd_byte_queue:
  assumes "kbd_ok k"
  shows "kbd_ok (kbd_byte b k) \<and> kbd_queue (kbd_byte b k) = take 255 (kbd_queue k @ (if b = 0xE0 then [] else [b AND 0x7F]))"
proof -
  have ext: "kbd_ok (v\<lparr>kbd_buf := (kbd_buf v)\<lparr>kb_extended := e\<rparr>\<rparr>) = kbd_ok v" "kbd_queue (v\<lparr>kbd_buf := (kbd_buf v)\<lparr>kb_extended := e\<rparr>\<rparr>) = kbd_queue v" for v e
    by (simp_all add: kbd_ok_def kbd_queue_def Let_def)
  have "kbd_ok (kbd_update_modifiers c r k)" "kbd_queue (kbd_update_modifiers c r k) = kbd_queue k" for c r
    using assms by (simp_all add: kbd_update_modifiers_def kbd_ok_def kbd_queue_def Let_def)
  moreover have "length (kbd_queue k) \<le> 255" using assms by (auto simp: kbd_ok_def kbd_queue_def Let_def)
  ultimately show ?thesis using assms kbd_put_queue by (auto simp: kbd_byte_def kbd_is_extended_def Let_def ext)
qed

lemma take_take_append: "take n (take n xs @ ys) = take n (xs @ ys)"
  by (simp add: min_def)

lemma kbd_bytes_queue:
  assumes "kbd_ok k"
  shows "kbd_ok (fold kbd_byte bs k) \<and> kbd_queue (fold kbd_byte bs k) = take 255 (kbd_queue k @ map (\<lambda>b. b AND 0x7F) (filter (\<lambda>b. b \<noteq> 0xE0) bs))"
  using assms
proof (induction bs arbitrary: k)
  case Nil
  then show ?case by (auto simp: kbd_ok_def kbd_queue_def Let_def)
next
  case (Cons b bs)
  let ?new = "if b = 0xE0 then [] else [b AND 0x7F]" and ?f = "\<lambda>bs. map (\<lambda>b. b AND 0x7F) (filter (\<lambda>b. b \<noteq> 0xE0) bs)"
  note IH = Cons.IH [of "kbd_byte b k"] and b = kbd_byte_queue [OF Cons.prems, of b]
  have "kbd_queue (fold kbd_byte (b # bs) k) = take 255 (take 255 (kbd_queue k @ ?new) @ ?f bs)" using IH b by (metis fold_simps(2))
  also have "\<dots> = take 255 ((kbd_queue k @ ?new) @ ?f bs)" by (rule take_take_append)
  also have "(kbd_queue k @ ?new) @ ?f bs = kbd_queue k @ ?f (b # bs)" by simp
  finally show ?case using IH b by simp
qed

lemma kbd_read_queue:
  assumes ok: "kbd_ok k"
  shows "kbd_queue k = [] \<Longrightarrow> \<not> kbd_has_data k"
    and "kbd_queue k = c # q \<Longrightarrow> kbd_has_data k \<and> kbd_read_scancode k = (c, kbd_drop k) \<and> kbd_ok (kbd_drop k) \<and> kbd_queue (kbd_drop k) = q"
proof -
  define t n where "t = unat (kb_tail (kbd_buf k))" and "n = unat (kb_size (kbd_buf k))"
  have h: "t < 256" "n < 256" "unat (kb_head (kbd_buf k)) = (t + n) mod 256" using ok by (auto simp: kbd_ok_def Let_def t_def n_def)
  have len: "length (kbd_queue k) = n" by (simp add: kbd_queue_def n_def)
  have data: "kbd_has_data k \<longleftrightarrow> n \<noteq> 0"
  proof -
    have "(t + n) mod 256 = t \<longleftrightarrow> n = 0" using mod_add_neq [of 0 n 256 t] h(1,2) by (cases "n = 0") auto
    then show ?thesis by (simp add: kbd_has_data_def word_unat_eq_iff h(3) t_def [symmetric])
  qed
  show "kbd_queue k = [] \<Longrightarrow> \<not> kbd_has_data k" using data len by simp
  assume q: "kbd_queue k = c # q"
  then have n: "0 < n" using len by auto
  have hd: "c = kb_buffer (kbd_buf k) t" using ring_slice_hd [OF h(1) n, of "kb_buffer (kbd_buf k)"] q by (simp add: kbd_queue_def t_def n_def)
  have nx: "unat ((kb_tail (kbd_buf k) + 1) mod 256) = (t + 1) mod 256" using unat_next [of "kb_tail (kbd_buf k)" 256] h(1) by (simp add: t_def)
  have sz: "unat (kb_size (kbd_buf k) - 1) = n - 1" using n unat_minus_one [of "kb_size (kbd_buf k)"] by (simp add: n_def unat_gt_0)
  have "((t + 1) mod 256 + (n - 1)) mod 256 = (t + n) mod 256" using n mod_add_left_eq [of "t + 1" 256 "n - 1"] by simp
  then have "kbd_ok (kbd_drop k)" using h nx sz by (simp add: kbd_ok_def kbd_drop_def KBD_BUFFER_SIZE_def Let_def)
  moreover have "kbd_queue (kbd_drop k) = q"
    using ring_slice_pop [OF h(1) n, of "kb_buffer (kbd_buf k)"] nx sz q by (simp add: kbd_queue_def kbd_drop_def KBD_BUFFER_SIZE_def t_def n_def)
  moreover have "kbd_read_scancode k = (c, kbd_drop k)" using data n hd by (simp add: kbd_read_scancode_def kbd_has_data_def Let_def t_def)
  ultimately show "kbd_has_data k \<and> kbd_read_scancode k = (c, kbd_drop k) \<and> kbd_ok (kbd_drop k) \<and> kbd_queue (kbd_drop k) = q" using data n by simp
qed

text \<open>
  The polling loop ends: it takes every byte of the keyboard up to the first byte of the mouse, and that byte, which is
  read from the controller and dropped.
\<close>

lemma kbd_loop_bytes:
  assumes "ps2_controller io out"
  shows "\<exists>d1. kbd_loop io k d = Some (fold kbd_byte (map snd (takeWhile (\<lambda>b. \<not> fst b) (out d))) k, d1) \<and> out d1 = tl (dropWhile (\<lambda>b. \<not> fst b) (out d))"
proof (induction "out d" arbitrary: k d)
  case Nil
  then show ?case using controller_empty [OF assms, of d] by (auto simp: kbd_loop.simps [of io k d] ps2_ports)
next
  case (Cons ab q)
  obtain a b where ab: "ab = (a, b)" by force
  obtain st d1 where 1: "p_inb io 0x64 d = (st, d1)" "st AND 1 \<noteq> 0" "out d1 = (a, b) # q"
    using controller_status [OF assms, of d a b q] Cons.hyps(2) ab by auto
  obtain st2 d2 where 2: "p_inb io 0x64 d1 = (st2, d2)" "st2 AND 0x20 \<noteq> 0 \<longleftrightarrow> a" "out d2 = (a, b) # q"
    using controller_status [OF assms 1(3)] by auto
  obtain d3 where 3: "p_inb io 0x60 d2 = (b, d3)" "out d3 = q" using controller_data [OF assms 2(3)] by auto
  have u: "kbd_loop io k d = (if a then Some (k, d3) else kbd_loop io (kbd_byte b k) d3)"
    using 1 2 3 by (simp add: kbd_loop.simps [of io k d] ps2_ports)
  show ?case using Cons.hyps(1) [of d3 "kbd_byte b k"] Cons.hyps(2) [symmetric] 3(2) ab u by (cases a) auto
qed

text \<open>
  Keys arrive in order: on a controller with only keyboard bytes waiting, \<open>kbd_poll\<close> returns, empties the controller, leaves the
  lock free and appends the key codes, without prefix bytes and release bits, to the buffer as far as its 255 places reach.
\<close>

theorem kbd_poll_queues:
  assumes "ps2_controller io out" "kbd_ok k" "lock_free (kbd_lock k)" "\<forall>b\<in>set (out d). \<not> fst b"
  shows "\<exists>k1 d1. kbd_poll io k d = Some (Inr (k1, d1)) \<and> out d1 = [] \<and> kbd_ok k1 \<and> lock_free (kbd_lock k1) \<and>
     kbd_queue k1 = take 255 (kbd_queue k @ map (\<lambda>b. b AND 0x7F) (filter (\<lambda>b. b \<noteq> 0xE0) (map snd (out d))))"
proof -
  let ?k = "k\<lparr>kbd_lock := (kbd_lock k)\<lparr>locked := 1\<rparr>\<rparr>"
  have ok: "kbd_ok ?k" "kbd_queue ?k = kbd_queue k" using assms(2) by (simp_all add: kbd_ok_def kbd_queue_def)
  have all: "takeWhile (\<lambda>b. \<not> fst b) (out d) = out d" "dropWhile (\<lambda>b. \<not> fst b) (out d) = []" using assms(4) by simp_all
  obtain d1 where l: "kbd_loop io ?k d = Some (fold kbd_byte (map snd (out d)) ?k, d1)" "out d1 = []"
    using kbd_loop_bytes [OF assms(1), of ?k d] all by auto
  let ?k1 = "fold kbd_byte (map snd (out d)) ?k"
  have "kbd_poll io k d = Some (Inr (?k1\<lparr>kbd_lock := spinlock_release (kbd_lock ?k1)\<rparr>, d1))"
    using l(1) assms(3) by (simp add: kbd_poll_def spinlock_acquire_def)
  moreover have "kbd_ok (v\<lparr>kbd_lock := x\<rparr>) = kbd_ok v" "kbd_queue (v\<lparr>kbd_lock := x\<rparr>) = kbd_queue v" for v x
    by (simp_all add: kbd_ok_def kbd_queue_def)
  ultimately show ?thesis using kbd_bytes_queue [OF ok(1), of "map snd (out d)"] ok(2) l(2) by (simp add: spinlock_release_def)
qed

theorem kbd_poll_queues_witness:
  "\<exists>k1 d1. kbd_poll soft_ps2 kbd_boot [(False, 0xE0), (False, 0x1E), (False, 0x9E)] = Some (Inr (k1, d1)) \<and> d1 = [] \<and> kbd_queue k1 = [0x1E, 0x1E]"
proof -
  have "kbd_ok kbd_boot" "lock_free (kbd_lock kbd_boot)" "kbd_queue kbd_boot = []" by (simp_all add: kbd_ok_def kbd_boot_def kbd_queue_def)
  moreover have "map (\<lambda>b. b AND 0x7F) (filter (\<lambda>b. b \<noteq> 0xE0) (map snd [(False, 0xE0 :: u8), (False, 0x1E), (False, 0x9E)])) = [0x1E, 0x1E]" by simp
  ultimately show ?thesis
    using kbd_poll_queues [OF soft_ps2_controller, of kbd_boot "[(False, 0xE0), (False, 0x1E), (False, 0x9E)]"] by fastforce
qed

section \<open>The pointer\<close>

definition mouse_ok :: "mouse \<Rightarrow> bool" where
  "mouse_ok m \<longleftrightarrow> unat (mouse_packet_index m) < 3 \<and> length (mouse_packet_buffer m) = 4 \<and> lock_free (mouse_lock m)"

text \<open>A movement with the state of the buttons, the report a mouse sends for it, and its effect on the pointer.\<close>

type_synonym movement = "int \<times> int \<times> bool \<times> bool \<times> bool"

definition mouse_report :: "movement \<Rightarrow> u8 list" where
  "mouse_report mv = (case mv of (dx, dy, l, r, c) \<Rightarrow>
     [8 OR (if l then 1 else 0) OR (if r then 2 else 0) OR (if c then 4 else 0) OR (if dx < 0 then 0x10 else 0) OR (if dy < 0 then 0x20 else 0),
      word_of_int dx, word_of_int dy])"

definition pointer_moved :: "movement \<Rightarrow> mouse_state \<Rightarrow> mouse_state" where
  "pointer_moved mv g = (case mv of (dx, dy, l, r, c) \<Rightarrow>
     \<lparr>ms_x = max 0 (ms_x g + apply_mouse_curve dx), ms_y = max 0 (ms_y g - apply_mouse_curve dy), left_btn = l, right_btn = r, middle_btn = c\<rparr>)"

lemma mouse_byte_ok:
  assumes "mouse_ok m"
  shows "\<exists>m1. mouse_process_byte b m = Inr m1 \<and> mouse_ok m1"
proof -
  have "unat (mouse_packet_index m + 1) < 3" if "\<not> 3 \<le> mouse_packet_index m + 1" using that by (simp add: not_le word_less_nat_alt)
  then show ?thesis using assms
    by (auto simp: mouse_process_byte_def mouse_ok_def Let_def spinlock_acquire_def spinlock_release_def)
qed

lemma mouse_bytes_ok: "mouse_ok m \<Longrightarrow> \<exists>m1. mfold mouse_process_byte bs m = Inr m1 \<and> mouse_ok m1"
proof (induction bs arbitrary: m)
  case (Cons b bs)
  obtain m1 where "mouse_process_byte b m = Inr m1" "mouse_ok m1" using mouse_byte_ok [OF Cons.prems] by blast
  with Cons.IH show ?case by simp
qed simp

lemma mouse_packet_applied:
  assumes "mouse_ok m" "mouse_packet_index m = 0" "st AND 8 \<noteq> 0" "st AND 0xC0 = 0"
  shows "\<exists>m1. mfold mouse_process_byte [st, bx, bty] m = Inr m1 \<and> mouse_packet_index m1 = 0 \<and>
    mouse_global m1 = mouse_apply st bx bty (mouse_global m) \<and> mouse_state_var m1 = mouse_global m1"
proof -
  have "length (mouse_packet_buffer m) = 4" using assms(1) by (simp add: mouse_ok_def)
  then show ?thesis using assms by (simp add: mouse_process_byte_def mouse_ok_def Let_def spinlock_acquire_def)
qed

lemma report_applied:
  assumes "mouse_ok m" "mouse_packet_index m = 0" "- 128 \<le> dx" "dx < 128" "- 128 \<le> dy" "dy < 128"
  shows "\<exists>m1. mfold mouse_process_byte (mouse_report (dx, dy, l, r, c)) m = Inr m1 \<and> mouse_packet_index m1 = 0 \<and>
    mouse_global m1 = pointer_moved (dx, dy, l, r, c) (mouse_global m) \<and> mouse_state_var m1 = mouse_global m1"
proof -
  let ?st = "8 OR (if l then 1 else 0) OR (if r then 2 else 0) OR (if c then 4 else 0) OR (if dx < 0 then 0x10 else 0) OR (if dy < 0 then 0x20 else 0) :: u8"
  have bits: "?st AND 8 \<noteq> 0" "?st AND 0xC0 = 0" "?st AND 1 \<noteq> 0 \<longleftrightarrow> l" "?st AND 2 \<noteq> 0 \<longleftrightarrow> r" "?st AND 4 \<noteq> 0 \<longleftrightarrow> c"
    by (simp_all split: if_splits)
  have "sint (word_of_int z :: u8) = z" if "- 128 \<le> z" "z < 128" for z
    using that by (simp add: signed_of_int signed_take_bit_int_eq_self)
  then have "mouse_apply ?st (word_of_int dx) (word_of_int dy) g = pointer_moved (dx, dy, l, r, c) g" for g
    using assms(3-6) bits(3-5) by (simp add: mouse_apply_def pointer_moved_def Let_def max_def)
  with mouse_packet_applied [OF assms(1,2) bits(1,2), of "word_of_int dx" "word_of_int dy"] show ?thesis by (simp add: mouse_report_def)
qed

lemma reports_applied:
  assumes "mouse_ok m" "mouse_packet_index m = 0" "\<forall>(dx, dy, b)\<in>set mvs. - 128 \<le> dx \<and> dx < 128 \<and> - 128 \<le> dy \<and> dy < 128"
  shows "\<exists>m1. mfold mouse_process_byte (concat (map mouse_report mvs)) m = Inr m1 \<and> mouse_packet_index m1 = 0 \<and>
    mouse_global m1 = fold pointer_moved mvs (mouse_global m) \<and> (mvs \<noteq> [] \<longrightarrow> mouse_state_var m1 = mouse_global m1)"
  using assms
proof (induction mvs arbitrary: m)
  case (Cons mv mvs)
  obtain dx dy l r c where mv: "mv = (dx, dy, l, r, c)" by (cases mv) auto
  obtain m1 where 1: "mfold mouse_process_byte (mouse_report mv) m = Inr m1" "mouse_packet_index m1 = 0"
      "mouse_global m1 = pointer_moved mv (mouse_global m)" "mouse_state_var m1 = mouse_global m1"
    using report_applied [OF Cons.prems(1,2), of dx dy l r c] Cons.prems(3) mv by auto
  have "mouse_ok m1" using mouse_bytes_ok [OF Cons.prems(1), of "mouse_report mv"] 1(1) by auto
  from Cons.IH [OF this 1(2)] Cons.prems(3) obtain m2 where "mfold mouse_process_byte (concat (map mouse_report mvs)) m1 = Inr m2" "mouse_packet_index m2 = 0"
      "mouse_global m2 = fold pointer_moved mvs (mouse_global m1)" "mvs \<noteq> [] \<longrightarrow> mouse_state_var m2 = mouse_global m2" by auto
  with 1 show ?case by (cases "mvs = []") (simp_all add: mfold_append)
qed simp

definition mouse_held :: "mouse \<Rightarrow> mouse" where
  "mouse_held m = m\<lparr>mouse_lock := (mouse_lock m)\<lparr>locked := 1\<rparr>\<rparr>"

lemma mouse_held_simps [simp]:
  "spinlock_release (mouse_lock (mouse_held m)) = spinlock_unlock (mouse_lock m)"
  "(mouse_held m)\<lparr>mouse_lock := mouse_lock m\<rparr> = m"
  by (simp_all add: mouse_held_def spinlock_release_def)

lemma mouse_loop_bytes:
  assumes c: "ps2_controller io out"
  shows "mouse_ok m \<Longrightarrow> \<exists>m1 d1. mouse_loop io (mouse_held m) d = Some (Inr (mouse_held m1, d1)) \<and> out d1 = dropWhile fst (out d) \<and>
     mfold mouse_process_byte (map snd (takeWhile fst (out d))) m = Inr m1"
proof (induction "out d" arbitrary: m d)
  case Nil
  then show ?case using controller_empty [OF c, of d] by (auto simp: mouse_loop.simps [of io _ d] ps2_ports)
next
  case (Cons ab q)
  obtain a b where ab: "ab = (a, b)" by force
  obtain st d1 where 1: "p_inb io 0x64 d = (st, d1)" "st AND 1 \<noteq> 0" "out d1 = (a, b) # q"
    using controller_status [OF c, of d a b q] Cons.hyps(2) ab by auto
  obtain st2 d2 where 2: "p_inb io 0x64 d1 = (st2, d2)" "st2 AND 0x20 \<noteq> 0 \<longleftrightarrow> a" "out d2 = (a, b) # q"
    using controller_status [OF c 1(3)] by auto
  show ?case
  proof (cases a)
    case False
    then show ?thesis using 1 2 Cons.hyps(2) [symmetric] ab by (simp add: mouse_loop.simps [of io _ d] ps2_ports)
  next
    case True
    obtain d3 where 3: "p_inb io 0x60 d2 = (b, d3)" "out d3 = q" using controller_data [OF c 2(3)] by auto
    obtain m1 where m1: "mouse_process_byte b m = Inr m1" "mouse_ok m1" using mouse_byte_ok [OF Cons.prems] by blast
    have "mouse_loop io (mouse_held m) d = mouse_loop io (mouse_held m1) d3"
      using 1 2 3 True m1 Cons.prems by (simp add: mouse_loop.simps [of io "mouse_held m" d] ps2_ports mouse_ok_def spinlock_acquire_def mouse_held_def [of m1])
    with Cons.hyps(1) [of d3 m1] Cons.hyps(2) [symmetric] 3(2) m1 ab True show ?thesis by auto
  qed
qed



end
