(* ===== verification/Input.thy ===== *)
theory Input
  imports Theme Ps2
begin

text \<open>
  Events: the event queue of \<^verbatim>\<open>src/gui/input_router.c\<close>, key states (\<^verbatim>\<open>keyboard_system.c\<close>), hovering and window
  cycling (\<^verbatim>\<open>input_system.c\<close>), focus (\<^verbatim>\<open>focus_manager.c\<close>), the polling of the devices (\<^verbatim>\<open>input_poller.c\<close>), the event loop with its frames
  (\<^verbatim>\<open>event_loop.c\<close>) and the start of the window system (\<^verbatim>\<open>gui_daemon.c\<close>). The reactions to the right button are declared
  but defined nowhere in the sources, and are arguments; so are the readings of the timer.
\<close>

section \<open>The event queue\<close>

definition GUI_EVENT_Q :: u32 where "GUI_EVENT_Q = 128"

datatype gui_event_type = GUI_EVENT_NONE | GUI_EVENT_MOUSE_MOVE | GUI_EVENT_MOUSE_DOWN | GUI_EVENT_MOUSE_UP | GUI_EVENT_MOUSE_CLICK
  | GUI_EVENT_MOUSE_RIGHT_DOWN | GUI_EVENT_MOUSE_RIGHT_UP | GUI_EVENT_KEY

record gui_event =
  ev_type :: gui_event_type
  ev_x :: int
  ev_y :: int
  ev_key :: u32
  ev_ascii :: u8
  ev_modifiers :: u8
  ev_mod :: u32

definition gui_event0 :: gui_event where
  "gui_event0 = \<lparr>ev_type = GUI_EVENT_NONE, ev_x = 0, ev_y = 0, ev_key = 0, ev_ascii = 0, ev_modifiers = 0, ev_mod = 0\<rparr>"

record router =
  g_q :: "nat \<Rightarrow> gui_event"
  g_head :: u32
  g_tail :: u32

definition input_router_init :: router where
  "input_router_init = \<lparr>g_q = (\<lambda>_. gui_event0), g_head = 0, g_tail = 0\<rparr>"

definition input_router_push :: "gui_event option \<Rightarrow> router \<Rightarrow> int \<times> router" where
  "input_router_push ev r =
     (case ev of None \<Rightarrow> (-1, r)
      | Some e \<Rightarrow> let next = (g_head r + 1) mod GUI_EVENT_Q in
          if next = g_tail r then (-1, r) else (0, r\<lparr>g_q := (g_q r)(unat (g_head r) := e), g_head := next\<rparr>))"

text \<open>\<open>dst\<close> says that there is a place for the event; the event stored there is part of the result.\<close>

definition input_router_pop :: "bool \<Rightarrow> router \<Rightarrow> int \<times> gui_event option \<times> router" where
  "input_router_pop dst r =
     (if \<not> dst then (-1, None, r)
      else if g_tail r = g_head r then (-1, None, r)
      else (0, Some (g_q r (unat (g_tail r))), r\<lparr>g_tail := (g_tail r + 1) mod GUI_EVENT_Q\<rparr>))"

section \<open>Key states\<close>

definition KEY_LSHIFT :: int where "KEY_LSHIFT = 0x12"
definition KEY_RSHIFT :: int where "KEY_RSHIFT = 0x59"
definition KEY_LCTRL :: int where "KEY_LCTRL = 0x1D"
definition KEY_RCTRL :: int where "KEY_RCTRL = 0x9D"
definition KEY_ALT :: int where "KEY_ALT = 0x38"
definition KEY_RALT :: int where "KEY_RALT = 0xB8"
definition KEY_TAB :: int where "KEY_TAB = 0x0F"
definition MAX_KEYS :: nat where "MAX_KEYS = 256"

lemmas key_codes = KEY_LSHIFT_def KEY_RSHIFT_def KEY_LCTRL_def KEY_RCTRL_def KEY_ALT_def KEY_RALT_def KEY_TAB_def

record keyboard_state =
  key_states :: "u8 list"
  prev_key_states :: "u8 list"
  last_tab_press :: u32

definition keyboard_system_init :: keyboard_state where
  "keyboard_system_init = \<lparr>key_states = replicate MAX_KEYS 0, prev_key_states = replicate MAX_KEYS 0, last_tab_press = 0\<rparr>"

definition keyboard_handle_key_down :: "int \<Rightarrow> keyboard_state \<Rightarrow> keyboard_state" where
  "keyboard_handle_key_down key k = (if 0 \<le> key \<and> key < int MAX_KEYS then k\<lparr>key_states := (key_states k)[nat key := 1]\<rparr> else k)"

definition keyboard_handle_key_up :: "int \<Rightarrow> keyboard_state \<Rightarrow> keyboard_state" where
  "keyboard_handle_key_up key k = (if 0 \<le> key \<and> key < int MAX_KEYS then k\<lparr>key_states := (key_states k)[nat key := 0]\<rparr> else k)"

definition keyboard_is_pressed :: "int \<Rightarrow> keyboard_state \<Rightarrow> bool" where
  "keyboard_is_pressed key k = (if key < 0 \<or> key \<ge> int MAX_KEYS then False else key_states k ! nat key \<noteq> 0)"

definition keyboard_was_pressed :: "int \<Rightarrow> keyboard_state \<Rightarrow> bool" where
  "keyboard_was_pressed key k = (if key < 0 \<or> key \<ge> int MAX_KEYS then False else prev_key_states k ! nat key \<noteq> 0)"

definition keyboard_key_pressed :: "int \<Rightarrow> keyboard_state \<Rightarrow> bool" where
  "keyboard_key_pressed key k = (if key < 0 \<or> key \<ge> int MAX_KEYS then False else prev_key_states k ! nat key = 0 \<and> key_states k ! nat key \<noteq> 0)"

definition keyboard_is_alt_held :: "keyboard_state \<Rightarrow> bool" where
  "keyboard_is_alt_held k \<longleftrightarrow> key_states k ! nat KEY_ALT \<noteq> 0 \<or> key_states k ! nat KEY_RALT \<noteq> 0"

definition keyboard_is_ctrl_held :: "keyboard_state \<Rightarrow> bool" where
  "keyboard_is_ctrl_held k \<longleftrightarrow> key_states k ! nat KEY_LCTRL \<noteq> 0 \<or> key_states k ! nat KEY_RCTRL \<noteq> 0"

definition keyboard_is_shift_held :: "keyboard_state \<Rightarrow> bool" where
  "keyboard_is_shift_held k \<longleftrightarrow> key_states k ! nat KEY_LSHIFT \<noteq> 0 \<or> key_states k ! nat KEY_RSHIFT \<noteq> 0"

definition keyboard_check_alt_tab_pressed :: "keyboard_state \<Rightarrow> bool" where
  "keyboard_check_alt_tab_pressed k \<longleftrightarrow> keyboard_is_alt_held k \<and> keyboard_key_pressed KEY_TAB k"

definition keyboard_system_frame_end :: "keyboard_state \<Rightarrow> keyboard_state" where
  "keyboard_system_frame_end k = k\<lparr>prev_key_states := key_states k\<rparr>"

section \<open>Hovering, focus and window cycling\<close>

record hover_state =
  hovered_window_id :: u32
  hover_x :: int
  hover_y :: int

text \<open>What the handling of an event can change: the desktop with its windows, key states, hover state and focus.\<close>

record ui =
  shell :: desktop
  g_keyboard :: keyboard_state
  g_hover :: hover_state
  g_focus :: u32

definition input_system_init :: hover_state where
  "input_system_init = \<lparr>hovered_window_id = 0, hover_x = 0, hover_y = 0\<rparr>"

text \<open>The identifier a search for a window has stored, when it reports success.\<close>

definition hit :: "int \<times> u32 option \<Rightarrow> u32 option" where
  "hit p = (if fst p = 0 then snd p else None)"

definition input_system_update_hover :: "int \<Rightarrow> int \<Rightarrow> ui \<Rightarrow> ui" where
  "input_system_update_hover x y u =
     u\<lparr>g_hover := \<lparr>hovered_window_id = (case hit (wm_window_at x y (dwm (shell u))) of Some wid \<Rightarrow> wid | None \<Rightarrow> 0), hover_x = x, hover_y = y\<rparr>\<rparr>"

definition input_system_get_hovered_window :: "ui \<Rightarrow> u32" where
  "input_system_get_hovered_window u = hovered_window_id (g_hover u)"

definition input_system_get_window_count :: "ui \<Rightarrow> int" where
  "input_system_get_window_count u = wm_get_count (g_windows (dwm (shell u)))"

definition focus_set :: "u32 \<Rightarrow> ui \<Rightarrow> ui" where "focus_set i u = u\<lparr>g_focus := i\<rparr>"
definition focus_get :: "ui \<Rightarrow> u32" where "focus_get u = g_focus u"

definition raise :: "u32 \<Rightarrow> ui \<Rightarrow> ui" where
  "raise i u = u\<lparr>shell := (shell u)\<lparr>dwm := snd (wm_raise i (dwm (shell u)))\<rparr>\<rparr>"

text \<open>The windows with identifiers 1 to 64 on the given levels, level by level, as indices into the table.\<close>

definition cycle_list :: "int list \<Rightarrow> wm \<Rightarrow> nat list" where
  "cycle_list zs s = concat (map (\<lambda>z. List.map_filter (\<lambda>i. case wm_get_by_id (of_nat (i + 1)) s of None \<Rightarrow> None
     | Some k \<Rightarrow> (let w = g_windows s ! k in if w_used w \<and> z_index w = z \<and> w_state w \<noteq> WM_MINIMIZED then Some k else None)) [0..<WM_MAX_WINDOWS]) zs)"

definition cycle_to :: "(nat list \<Rightarrow> nat) \<Rightarrow> int list \<Rightarrow> ui \<Rightarrow> int \<times> ui" where
  "cycle_to pick zs u =
     (let s = dwm (shell u) in
      if wm_get_count (g_windows s) \<le> 1 then (-1, u)
      else let ws = cycle_list zs s in
        if length ws \<le> 1 then (-1, u)
        else let i = w_id (g_windows s ! pick ws) in (sint i, focus_set i (raise i u)))"

definition input_system_cycle_windows_forward :: "ui \<Rightarrow> int \<times> ui" where
  "input_system_cycle_windows_forward u = cycle_to last [0..int WM_MAX_WINDOWS] u"

definition input_system_cycle_windows_backward :: "ui \<Rightarrow> int \<times> ui" where
  "input_system_cycle_windows_backward u = cycle_to hd (rev [0..int WM_MAX_WINDOWS]) u"

section \<open>The event loop\<close>

text \<open>What the two missing functions do to the windows.\<close>

record right_button =
  wm_handle_mouse_right_down :: "int \<Rightarrow> int \<Rightarrow> wm \<Rightarrow> int \<times> wm"
  wm_handle_mouse_right_up :: "int \<Rightarrow> int \<Rightarrow> wm \<Rightarrow> int \<times> wm"

definition with_wm :: "(wm \<Rightarrow> int \<times> wm) \<Rightarrow> ui \<Rightarrow> ui" where
  "with_wm f u = u\<lparr>shell := (shell u)\<lparr>dwm := snd (f (dwm (shell u)))\<rparr>\<rparr>"

definition on_mouse_down :: "int \<Rightarrow> int \<Rightarrow> ui \<Rightarrow> ui" where
  "on_mouse_down x y u =
     (let (r, d1) = desktop_shell_handle_click x y (shell u); u1 = u\<lparr>shell := d1\<rparr> in
      if r = 0 then u1
      else case hit (taskbar_click x y (dwm d1)) of
        Some wid \<Rightarrow> focus_set wid (raise wid u1)
      | None \<Rightarrow> (case wm_handle_mouse_down x y (dwm d1) of (_, wid_out, w1) \<Rightarrow>
          let u2 = u1\<lparr>shell := d1\<lparr>dwm := w1\<rparr>\<rparr>; wid = (case wid_out of None \<Rightarrow> 0 | Some i \<Rightarrow> i) in
          if wid \<noteq> 0 then focus_set wid u2 else u2))"

definition on_mouse_click :: "int \<Rightarrow> int \<Rightarrow> ui \<Rightarrow> ui" where
  "on_mouse_click x y u =
     (let (r, d1) = desktop_shell_handle_click x y (shell u); u1 = u\<lparr>shell := d1\<rparr> in
      if r = 0 then u1
      else case hit (taskbar_click x y (dwm d1)) of
        Some wid \<Rightarrow> focus_set wid (raise wid u1)
      | None \<Rightarrow> (case hit (wm_window_at x y (dwm d1)) of Some wid \<Rightarrow> focus_set wid (raise wid u1) | None \<Rightarrow> u1))"

definition on_key :: "u32 \<Rightarrow> ui \<Rightarrow> ui" where
  "on_key key u =
     (let is_release = (key AND 0x80 \<noteq> 0); k = uint (key AND 0x7F) in
      u\<lparr>g_keyboard := (if is_release then keyboard_handle_key_up k (g_keyboard u) else keyboard_handle_key_down k (g_keyboard u))\<rparr>)"

definition dispatch :: "right_button \<Rightarrow> gui_event \<Rightarrow> ui \<Rightarrow> ui" where
  "dispatch rb ev u =
     (case ev_type ev of
        GUI_EVENT_MOUSE_DOWN \<Rightarrow> on_mouse_down (ev_x ev) (ev_y ev) u
      | GUI_EVENT_MOUSE_UP \<Rightarrow> with_wm wm_handle_mouse_up u
      | GUI_EVENT_MOUSE_MOVE \<Rightarrow> input_system_update_hover (ev_x ev) (ev_y ev) (with_wm (wm_handle_mouse_move (ev_x ev) (ev_y ev)) u)
      | GUI_EVENT_MOUSE_CLICK \<Rightarrow> on_mouse_click (ev_x ev) (ev_y ev) u
      | GUI_EVENT_MOUSE_RIGHT_DOWN \<Rightarrow> with_wm (wm_handle_mouse_right_down rb (ev_x ev) (ev_y ev)) u
      | GUI_EVENT_MOUSE_RIGHT_UP \<Rightarrow> with_wm (wm_handle_mouse_right_up rb (ev_x ev) (ev_y ev)) u
      | GUI_EVENT_KEY \<Rightarrow> on_key (ev_key ev) u
      | GUI_EVENT_NONE \<Rightarrow> u)"

definition cursor_shape :: "string list" where
  "cursor_shape = [
     ''1000000000000000'', ''1100000000000000'', ''1110000000000000'', ''1111000000000000'', ''1111100000000000'',
     ''1111110000000000'', ''1111111000000000'', ''1111111100000000'', ''1111111110000000'', ''1111110111000000'',
     ''1111000011100000'', ''1110000001110000'', ''1100000000111000'', ''1000000000011100'', ''0000000000001110'',
     ''0000000000000111'', ''0000001100000011'', ''0000011110000001'', ''0000011111000000'', ''0000001110000000'']"

definition draw_cursor :: "int \<Rightarrow> int \<Rightarrow> gfx \<Rightarrow> gfx res" where
  "draw_cursor x y =
     mfold (\<lambda>row. mfold (\<lambda>col.
       if cursor_shape ! nat row ! nat col \<noteq> CHR ''1'' then Inr
       else seq (gfx_draw_pixel (x + col) (y + row) 0x00000000)
         (seq (if col > 0 then gfx_draw_pixel (x + col - 1) (y + row) 0x00FFFFFF else Inr)
              (if row > 0 then gfx_draw_pixel (x + col) (y + row - 1) 0x00FFFFFF else Inr))) [0..15]) [0..19]"

text \<open>The window system: the state above, the queue, the surface, the frame buffer and the copies of the pointer.\<close>

record gui =
  gu :: ui
  grouter :: router
  surface :: gfx
  gfb :: fb
  gfont :: font_metrics
  g_last_latency :: u64
  gkbd :: kbd
  gmouse :: mouse
  prev_left_btn :: bool
  prev_right_btn :: bool
  prev_x :: int
  prev_y :: int
  gtheme :: current_theme

definition event_loop_init :: "gui \<Rightarrow> gui" where
  "event_loop_init s = s\<lparr>grouter := input_router_init, gu := (gu s)\<lparr>g_keyboard := keyboard_system_init, g_hover := input_system_init\<rparr>, g_last_latency := 0\<rparr>"

definition event_loop_inject :: "gui_event option \<Rightarrow> gui \<Rightarrow> gui" where
  "event_loop_inject ev s = s\<lparr>grouter := snd (input_router_push ev (grouter s))\<rparr>"

definition event_loop_latency_ms :: "gui \<Rightarrow> u32" where
  "event_loop_latency_ms s = ucast (g_last_latency s)"

fun pop_loop :: "right_button \<Rightarrow> nat \<Rightarrow> int \<Rightarrow> router \<Rightarrow> ui \<Rightarrow> int \<times> router \<times> ui" where
  "pop_loop rb 0 handled r u = (handled, r, u)"
| "pop_loop rb (Suc n) handled r u =
     (case input_router_pop True r of (_, Some ev, r1) \<Rightarrow> pop_loop rb n (handled + 1) r1 (dispatch rb ev u) | _ \<Rightarrow> (handled, r, u))"

definition frame_ops :: "font_metrics \<Rightarrow> u64 \<Rightarrow> desktop \<Rightarrow> mouse_state \<Rightarrow> gfx \<Rightarrow> gfx res" where
  "frame_ops fm ticks d m = seq (desktop_shell_draw_desktop fm) (seq (wm_paint_all fm (dwm d)) (seq (desktop_shell_draw fm ticks d) (draw_cursor (ms_x m) (ms_y m))))"

text \<open>The timer is read at the start, by the clock on the panel and at the end.\<close>

definition event_loop_step :: "right_button \<Rightarrow> u64 \<Rightarrow> u64 \<Rightarrow> u64 \<Rightarrow> gui \<Rightarrow> (int \<times> gui) res" where
  "event_loop_step rb start clock finish s =
     (let (handled, r, u) = pop_loop rb 50 0 (grouter s) (gu s);
          u1 = (if keyboard_check_alt_tab_pressed (g_keyboard u) then snd (input_system_cycle_windows_forward u) else u)
      in rbind (frame_ops (gfont s) clock (shell u1) (mouse_state_var (gmouse s)) (surface s)) (\<lambda>g.
           let (g1, b1) = gfx_swap_buffers g (gfb s)
           in Inr (handled, s\<lparr>grouter := r, gu := u1\<lparr>g_keyboard := keyboard_system_frame_end (g_keyboard u1)\<rparr>, surface := g1, gfb := b1,
                g_last_latency := finish - start\<rparr>)))"

section \<open>Polling the devices\<close>

definition input_poller_init :: "gui \<Rightarrow> gui" where
  "input_poller_init s = s\<lparr>prev_left_btn := False, prev_right_btn := False\<rparr>"

definition key_event :: "u8 \<Rightarrow> kbd_modifier \<Rightarrow> gui_event \<Rightarrow> gui_event" where
  "key_event scancode m ev = ev\<lparr>ev_type := GUI_EVENT_KEY, ev_key := ucast scancode, ev_ascii := 0,
     ev_modifiers := (if m_lshift m \<or> m_rshift m then 1 else 0) OR (if m_lctrl m \<or> m_rctrl m then 2 else 0) OR (if m_lalt m \<or> m_ralt m then 4 else 0)\<rparr>"

partial_function (option) poll_keys :: "gui_event \<Rightarrow> gui \<Rightarrow> (gui_event \<times> gui) option" where
  "poll_keys ev s =
     (if \<not> kbd_has_data (gkbd s) then Some (ev, s)
      else let (scancode, k1) = kbd_read_scancode (gkbd s); ev1 = key_event scancode (kbd_get_modifiers k1) ev
           in poll_keys ev1 (event_loop_inject (Some ev1) (s\<lparr>gkbd := k1\<rparr>)))"

definition poll_at :: "gui_event_type \<Rightarrow> gui_event \<times> gui \<Rightarrow> gui_event \<times> gui" where
  "poll_at ty p = (let m = mouse_state_var (gmouse (snd p)); ev1 = (fst p)\<lparr>ev_type := ty, ev_x := ms_x m, ev_y := ms_y m\<rparr>
     in (ev1, event_loop_inject (Some ev1) (snd p)))"

text \<open>The position is kept on the surface, the corrections one after the other.\<close>

definition clip_pointer :: "int \<Rightarrow> int \<Rightarrow> mouse_state \<Rightarrow> mouse_state" where
  "clip_pointer max_x max_y m0 =
     (let m1 = (if ms_x m0 < 0 then m0\<lparr>ms_x := 0\<rparr> else m0);
          m2 = (if ms_y m1 < 0 then m1\<lparr>ms_y := 0\<rparr> else m1);
          m3 = (if ms_x m2 > max_x then m2\<lparr>ms_x := max_x\<rparr> else m2)
      in if ms_y m3 > max_y then m3\<lparr>ms_y := max_y\<rparr> else m3)"

definition poll_motion :: "gui_event \<times> gui \<Rightarrow> gui_event \<times> gui" where
  "poll_motion p =
     (let s = snd p; m = mouse_state_var (gmouse s) in
      if ms_x m = prev_x s \<and> ms_y m = prev_y s then p
      else let m1 = clip_pointer (sint (gfx_get_width (surface s)) - 1) (sint (gfx_get_height (surface s)) - 1) m;
               (ev1, s1) = poll_at GUI_EVENT_MOUSE_MOVE (fst p, s\<lparr>gmouse := (gmouse s)\<lparr>mouse_state_var := m1\<rparr>\<rparr>)
           in (ev1, s1\<lparr>prev_x := ms_x m1, prev_y := ms_y m1\<rparr>))"

definition poll_buttons :: "gui_event \<times> gui \<Rightarrow> gui" where
  "poll_buttons p0 =
     (let m = (\<lambda>p. mouse_state_var (gmouse (snd p)));
          p1 = (if left_btn (m p0) \<and> \<not> prev_left_btn (snd p0) then poll_at GUI_EVENT_MOUSE_DOWN p0 else p0);
          p2 = (if \<not> left_btn (m p1) \<and> prev_left_btn (snd p1) then poll_at GUI_EVENT_MOUSE_UP p1 else p1);
          p3 = (if right_btn (m p2) \<and> \<not> prev_right_btn (snd p2) then poll_at GUI_EVENT_MOUSE_RIGHT_DOWN p2 else p2);
          p4 = (if \<not> right_btn (m p3) \<and> prev_right_btn (snd p3) then poll_at GUI_EVENT_MOUSE_RIGHT_UP p3 else p3)
      in (snd p4)\<lparr>prev_left_btn := left_btn (m p4), prev_right_btn := right_btn (m p4)\<rparr>)"

definition input_poller_poll :: "'d ports \<Rightarrow> gui \<Rightarrow> 'd \<Rightarrow> (gui \<times> 'd) res option" where
  "input_poller_poll io s d =
     (case kbd_poll io (gkbd s) d of None \<Rightarrow> None | Some (Inl e) \<Rightarrow> Some (Inl e)
      | Some (Inr (k1, d1)) \<Rightarrow> (case mouse_poll io (gmouse s) d1 of None \<Rightarrow> None | Some (Inl e) \<Rightarrow> Some (Inl e)
          | Some (Inr (m1, d2)) \<Rightarrow> (case poll_keys gui_event0 (s\<lparr>gkbd := k1, gmouse := m1\<rparr>) of None \<Rightarrow> None
              | Some p \<Rightarrow> Some (Inr (poll_buttons (poll_motion p), d2)))))"

section \<open>Start and main loop\<close>

definition gfx_start :: "gfx \<Rightarrow> (int \<times> gfx) res" where
  "gfx_start g0 =
     rbind (gfx_init 1600 900 g0) (\<lambda>(r1, g1). if r1 = 0 then Inr (0, g1)
       else rbind (gfx_init 1280 720 g1) (\<lambda>(r2, g2). if r2 = 0 then Inr (0, g2)
         else rbind (gfx_init 1024 768 g2) (\<lambda>(r3, g3). Inr (if r3 = 0 then 0 else -1, g3))))"

text \<open>The window manager asks the surface for its size and the theme for the height of title bars.\<close>

definition wm_attach :: "gfx \<Rightarrow> current_theme \<Rightarrow> wm \<Rightarrow> wm" where
  "wm_attach g th w = w\<lparr>gfx_width := sint (gfx_get_width g), gfx_height := sint (gfx_get_height g), title_height := sp_title_height (spacing (fst (theme_get th)))\<rparr>"

definition gui_layer6_init :: "u64 \<Rightarrow> gui \<Rightarrow> (int \<times> gui) res" where
  "gui_layer6_init ticks s0 =
     rbind (gfx_start (surface s0)) (\<lambda>(r, g).
       let s1 = s0\<lparr>surface := g\<rparr> in
       if r \<noteq> 0 then Inr (-1, s1)
       else let (rf, fm) = font_init; s2 = s1\<lparr>gfont := fm\<rparr> in
         if rf \<noteq> 0 then Inr (-1, s2)
         else let th = taskbar_init (widgets_init (gtheme s2)); u = gu s2; d = shell u;
                  s3 = event_loop_init (s2\<lparr>gtheme := th, gu := u\<lparr>shell := d\<lparr>dwm := wm_attach g th (wm_init (dwm d))\<rparr>\<rparr>\<rparr>);
                  (rd, d1) = desktop_shell_init (shell (gu s3)); s4 = s3\<lparr>gu := (gu s3)\<lparr>shell := d1\<rparr>\<rparr>
              in if rd \<noteq> 0 then Inr (-1, s4)
                 else let (i1, w1) = wm_create (Some (cstr ''Desktop'')) 80 70 360 220 (dwm d1);
                          (i2, w2) = wm_create (Some (cstr ''Terminal'')) 180 130 380 240 w1;
                          (i3, w3) = wm_create (Some (cstr ''Inspector'')) 300 180 320 200 w2;
                          put = (\<lambda>w. s4\<lparr>gu := (gu s4)\<lparr>shell := d1\<lparr>dwm := w\<rparr>\<rparr>\<rparr>)
                      in if i1 < 0 then Inr (-1, put w1)
                         else if i2 < 0 then Inr (-1, put w2)
                         else if i3 < 0 then Inr (-1, put w3)
                         else rbind (seq (desktop_shell_draw_desktop fm) (seq (wm_paint_all fm w3) (desktop_shell_draw fm ticks (d1\<lparr>dwm := w3\<rparr>))) g) (\<lambda>g1.
                           let (g2, b2) = gfx_swap_buffers g1 (gfb s4) in Inr (0, (put w3)\<lparr>surface := g2, gfb := b2\<rparr>)))"

text \<open>One turn of the main loop; the timer readings are those of the step.\<close>

definition main_turn :: "right_button \<Rightarrow> 'd ports \<Rightarrow> u64 \<times> u64 \<times> u64 \<Rightarrow> gui \<Rightarrow> 'd \<Rightarrow> (gui \<times> 'd) res option" where
  "main_turn rb io t s d =
     (case input_poller_poll io s d of None \<Rightarrow> None | Some (Inl e) \<Rightarrow> Some (Inl e)
      | Some (Inr (s1, d1)) \<Rightarrow> Some (case t of (t0, t1, t2) \<Rightarrow> rbind (event_loop_step rb t0 t1 t2 s1) (\<lambda>(_, s2). Inr (s2, d1))))"

section \<open>The queue is a bounded list\<close>

definition router_ok :: "router \<Rightarrow> bool" where
  "router_ok r \<longleftrightarrow> unat (g_head r) < 128 \<and> unat (g_tail r) < 128"

definition n_pending :: "router \<Rightarrow> nat" where
  "n_pending r = (unat (g_head r) + 128 - unat (g_tail r)) mod 128"

definition pending :: "router \<Rightarrow> gui_event list" where
  "pending r = ring_slice 128 (g_q r) (unat (g_tail r)) (n_pending r)"

lemma length_pending [simp]: "length (pending r) = n_pending r"
  by (simp add: pending_def)

lemma slots_head: "t < m \<Longrightarrow> h < m \<Longrightarrow> (t + (h + m - t) mod m) mod m = (h :: nat)"
  by (simp add: mod_add_right_eq)

lemma slots_count:
  assumes "t < m" "n < m"
  shows "((t + n) mod m + m - t) mod m = (n :: nat)"
proof (cases "t + n < m")
  case False
  then have "(t + n) mod m = t + n - m" using assms by (simp add: le_mod_geq)
  then show ?thesis using False assms by simp
qed (use assms in simp)

lemma router_head: "router_ok r \<Longrightarrow> unat (g_head r) = (unat (g_tail r) + n_pending r) mod 128"
  unfolding router_ok_def n_pending_def by (simp add: slots_head)

lemma n_pending_less: "n_pending r < 128"
  by (simp add: n_pending_def)

lemma router_push:
  assumes ok: "router_ok r"
  shows "router_ok (snd (input_router_push (Some e) r)) \<and>
    pending (snd (input_router_push (Some e) r)) = (if length (pending r) < 127 then pending r @ [e] else pending r)"
proof -
  define t n where "t = unat (g_tail r)" and "n = n_pending r"
  have h: "t < 128" "n < 128" "unat (g_head r) = (t + n) mod 128" using ok router_head [OF ok] n_pending_less [of r] by (auto simp: router_ok_def t_def n_def)
  have nx: "unat ((g_head r + 1) mod 128) = (t + Suc n) mod 128"
    using unat_next [of "g_head r" 128] h(3) by (simp add: mod_Suc_eq)
  have full: "(g_head r + 1) mod 128 = g_tail r \<longleftrightarrow> n = 127"
  proof -
    have "(t + Suc n) mod 128 = t \<longleftrightarrow> n = 127" using mod_add_neq [of 0 "Suc n" 128 t] h(1,2) by (cases "n = 127") auto
    then show ?thesis by (simp add: word_unat_eq_iff nx t_def [symmetric])
  qed
  show ?thesis
  proof (cases "n = 127")
    case True
    then show ?thesis using ok full by (simp add: input_router_push_def GUI_EVENT_Q_def Let_def n_def)
  next
    case False
    let ?r = "r\<lparr>g_q := (g_q r)(unat (g_head r) := e), g_head := (g_head r + 1) mod 128\<rparr>"
    have push: "snd (input_router_push (Some e) r) = ?r" using False full by (simp add: input_router_push_def GUI_EVENT_Q_def Let_def)
    have "((t + Suc n) mod 128 + 128 - t) mod 128 = Suc n" using slots_count [of t 128 "Suc n"] h(1,2) False by simp
    then have "n_pending ?r = Suc n" by (simp add: n_pending_def nx t_def [symmetric])
    then have "pending ?r = pending r @ [e]"
      using ring_slice_push [of n 128 "g_q r" t e] h by (simp add: pending_def t_def [symmetric] n_def [symmetric])
    then show ?thesis using False h ok by (simp add: push router_ok_def nx n_def)
  qed
qed

lemma router_pop:
  assumes ok: "router_ok r"
  shows "pending r = [] \<Longrightarrow> input_router_pop True r = (-1, None, r)"
    and "pending r = e # q \<Longrightarrow> \<exists>r1. input_router_pop True r = (0, Some e, r1) \<and> router_ok r1 \<and> pending r1 = q"
proof -
  define t n where "t = unat (g_tail r)" and "n = n_pending r"
  have h: "t < 128" "n < 128" "unat (g_head r) = (t + n) mod 128" using ok router_head [OF ok] n_pending_less [of r] by (auto simp: router_ok_def t_def n_def)
  have empty: "g_tail r = g_head r \<longleftrightarrow> n = 0"
  proof -
    have "t = (t + n) mod 128 \<longleftrightarrow> n = 0" using mod_add_neq [of 0 n 128 t] h(1,2) by (cases "n = 0") auto
    then show ?thesis by (simp add: word_unat_eq_iff h(3) t_def [symmetric])
  qed
  show "pending r = [] \<Longrightarrow> input_router_pop True r = (-1, None, r)"
    using empty length_pending [of r] by (simp add: input_router_pop_def n_def)
  show "\<exists>r1. input_router_pop True r = (0, Some e, r1) \<and> router_ok r1 \<and> pending r1 = q" if q: "pending r = e # q"
  proof -
    have n: "0 < n" using arg_cong [OF q, of length] by (simp add: n_def)
    have hd: "hd (pending r) = g_q r t" using ring_slice_hd [OF h(1) n] by (simp add: pending_def t_def n_def)
    have nx: "unat ((g_tail r + 1) mod 128) = (t + 1) mod 128" using unat_next [of "g_tail r" 128] h(1) by (simp add: t_def)
    let ?r = "r\<lparr>g_tail := (g_tail r + 1) mod 128\<rparr>"
    have "((t + 1) mod 128 + (n - 1)) mod 128 = (t + n) mod 128" using n mod_add_left_eq [of "t + 1" 128 "n - 1"] by simp
    then have "((t + n) mod 128 + 128 - (t + 1) mod 128) mod 128 = n - 1" using slots_count [of "(t + 1) mod 128" 128 "n - 1"] h(2) n by simp
    then have "n_pending ?r = n - 1" using h(3) nx by (simp add: n_pending_def)
    then have "pending ?r = tl (pending r)" using ring_slice_pop [OF h(1) n, of "g_q r"] nx by (simp add: pending_def t_def [symmetric] n_def [symmetric])
    moreover have "router_ok ?r" using ok nx h(1) by (simp add: router_ok_def)
    ultimately show ?thesis using q hd n empty by (auto simp: input_router_pop_def GUI_EVENT_Q_def t_def)
  qed
qed

lemma pop_loop_fold:
  "router_ok r \<Longrightarrow> \<exists>r1. pop_loop rb n c r u = (c + int (min n (length (pending r))), r1, fold (dispatch rb) (take n (pending r)) u) \<and>
     router_ok r1 \<and> pending r1 = drop n (pending r)"
proof (induction n arbitrary: c r u)
  case (Suc n)
  show ?case
  proof (cases "pending r")
    case Nil
    then show ?thesis using router_pop(1) [OF Suc.prems] Suc.prems length_pending [of r] by simp
  next
    case (Cons e q)
    obtain r1 where 1: "input_router_pop True r = (0, Some e, r1)" "router_ok r1" "pending r1 = q" using router_pop(2) [OF Suc.prems Cons] by blast
    obtain r2 where 2: "pop_loop rb n (c + 1) r1 (dispatch rb e u) = (c + 1 + int (min n (length q)), r2, fold (dispatch rb) (take n q) (dispatch rb e u))"
        "router_ok r2" "pending r2 = drop n q"
      using Suc.IH [OF 1(2), of "c + 1" "dispatch rb e u"] 1(3) by auto
    have "length (pending r) = Suc (length q)" using Cons by simp
    then show ?thesis using 1(1) 2 Cons by simp
  qed
qed simp

section \<open>Frames\<close>

lemma draws_cursor [intro]: "draws (draw_cursor x y)"
  unfolding draw_cursor_def by (intro draws_mfold draws_if draws_seq draws_basic draws_Inr)

lemma draws_frame [intro]: "draws (frame_ops fm ticks d m)"
  unfolding frame_ops_def by (intro draws_seq draws_desktop draws_windows draws_shell draws_cursor)

lemma swap_surface [simp]:
  "surface_ok (fst (gfx_swap_buffers g b)) = surface_ok g" "on_surface (fst (gfx_swap_buffers g b)) = on_surface g"
  by (auto simp: gfx_swap_buffers_def Let_def surface_ok_def on_surface_def n_pixels_def fun_eq_iff)

text \<open>The effect of a frame's events on desktop, windows, keys and focus.\<close>

definition ui_frame :: "right_button \<Rightarrow> gui_event list \<Rightarrow> ui \<Rightarrow> ui" where
  "ui_frame rb evs u0 =
     (let u = fold (dispatch rb) evs u0;
          u1 = (if keyboard_check_alt_tab_pressed (g_keyboard u) then snd (input_system_cycle_windows_forward u) else u)
      in u1\<lparr>g_keyboard := keyboard_system_frame_end (g_keyboard u1)\<rparr>)"

lemma event_loop_step_spec:
  assumes "surface_ok (surface s)" "router_ok (grouter s)"
  shows "\<exists>r g b. event_loop_step rb t0 t1 t2 s = Inr (int (min 50 (length (pending (grouter s)))),
      s\<lparr>grouter := r, gu := ui_frame rb (take 50 (pending (grouter s))) (gu s), surface := g, gfb := b, g_last_latency := t2 - t0\<rparr>) \<and>
    router_ok r \<and> pending r = drop 50 (pending (grouter s)) \<and> surface_ok g \<and> on_surface g = on_surface (surface s)"
proof -
  obtain r where r: "pop_loop rb 50 0 (grouter s) (gu s) = (int (min 50 (length (pending (grouter s)))), r, fold (dispatch rb) (take 50 (pending (grouter s))) (gu s))"
      "router_ok r" "pending r = drop 50 (pending (grouter s))" using pop_loop_fold [OF assms(2), of rb 50 0 "gu s"] by auto
  define u where "u = fold (dispatch rb) (take 50 (pending (grouter s))) (gu s)"
  define u1 where "u1 = (if keyboard_check_alt_tab_pressed (g_keyboard u) then snd (input_system_cycle_windows_forward u) else u)"
  obtain m where m: "frame_ops (gfont s) t1 (shell u1) (mouse_state_var (gmouse s)) (surface s) = Inr ((surface s)\<lparr>back_pixels := m\<rparr>)"
    using drawsE [OF draws_frame assms(1)] by blast
  obtain g b where gb: "gfx_swap_buffers ((surface s)\<lparr>back_pixels := m\<rparr>) (gfb s) = (g, b)" by force
  have g: "surface_ok g" "on_surface g = on_surface (surface s)"
    using swap_surface [of "(surface s)\<lparr>back_pixels := m\<rparr>" "gfb s"] assms(1) by (simp_all add: gb)
  have "ui_frame rb (take 50 (pending (grouter s))) (gu s) = u1\<lparr>g_keyboard := keyboard_system_frame_end (g_keyboard u1)\<rparr>"
    by (simp add: ui_frame_def Let_def u_def [symmetric] u1_def)
  moreover have "event_loop_step rb t0 t1 t2 s = Inr (int (min 50 (length (pending (grouter s)))),
      s\<lparr>grouter := r, gu := u1\<lparr>g_keyboard := keyboard_system_frame_end (g_keyboard u1)\<rparr>, surface := g, gfb := b, g_last_latency := t2 - t0\<rparr>)"
    using r(1) m gb unfolding event_loop_step_def u1_def by (simp add: u_def [symmetric] Let_def)
  ultimately show ?thesis using r(2,3) g by metis
qed

text \<open>
  The abstract event loop: a list of at most 127 waiting events; a frame handles the first 50 of them in their order.
\<close>

datatype loop_action = Inject gui_event | Frame u64 u64 u64

fun loop_step :: "right_button \<Rightarrow> loop_action \<Rightarrow> gui \<Rightarrow> gui res" where
  "loop_step rb (Inject e) s = Inr (event_loop_inject (Some e) s)"
| "loop_step rb (Frame t0 t1 t2) s = rbind (event_loop_step rb t0 t1 t2 s) (\<lambda>(_, s1). Inr s1)"

fun abstract_step :: "right_button \<Rightarrow> loop_action \<Rightarrow> gui_event list \<times> ui \<Rightarrow> gui_event list \<times> ui" where
  "abstract_step rb (Inject e) (q, u) = (if length q < 127 then q @ [e] else q, u)"
| "abstract_step rb (Frame t0 t1 t2) (q, u) = (drop 50 q, ui_frame rb (take 50 q) u)"

lemma loop_step_refines:
  assumes "surface_ok (surface s)" "router_ok (grouter s)"
  shows "\<exists>s1. loop_step rb a s = Inr s1 \<and> surface_ok (surface s1) \<and> router_ok (grouter s1) \<and>
    (pending (grouter s1), gu s1) = abstract_step rb a (pending (grouter s), gu s)"
proof (cases a)
  case (Inject e)
  then show ?thesis using assms router_push [OF assms(2), of e] by (simp add: event_loop_inject_def)
next
  case (Frame t0 t1 t2)
  then show ?thesis using event_loop_step_spec [OF assms, of rb t0 t1 t2] by auto
qed

lemma loop_run_refines:
  "surface_ok (surface s) \<Longrightarrow> router_ok (grouter s) \<Longrightarrow> \<exists>s1. mfold (loop_step rb) as s = Inr s1 \<and> surface_ok (surface s1) \<and>
     (pending (grouter s1), gu s1) = fold (abstract_step rb) as (pending (grouter s), gu s)"
proof (induction as arbitrary: s)
  case (Cons a as)
  obtain s1 where "loop_step rb a s = Inr s1" "surface_ok (surface s1)" "router_ok (grouter s1)"
      "(pending (grouter s1), gu s1) = abstract_step rb a (pending (grouter s), gu s)" using loop_step_refines [OF Cons.prems] by blast
  with Cons.IH [of s1] show ?case by simp
qed auto

text \<open>
  C26. The event loop handles events in the order they arrive: from \<open>event_loop_init\<close> on, any sequence of injected events and frames returns without an
  access outside the surface, and queue, desktop, windows, keys and focus are exactly those of a loop on a list of at most 127 events, which handles
  the first 50 in each frame. What the missing right-button functions do makes no difference.
\<close>

theorem event_loop_refines:
  assumes "surface_ok (surface s)"
  shows "\<exists>s1. mfold (loop_step rb) as (event_loop_init s) = Inr s1 \<and> surface_ok (surface s1) \<and>
     (pending (grouter s1), gu s1) = fold (abstract_step rb) as ([], gu (event_loop_init s))"
proof -
  have "router_ok (grouter (event_loop_init s))" "pending (grouter (event_loop_init s)) = []" "surface_ok (surface (event_loop_init s))"
    using assms by (simp_all add: event_loop_init_def input_router_init_def router_ok_def pending_def n_pending_def)
  then show ?thesis using loop_run_refines [of "event_loop_init s" rb as] by simp
qed

section \<open>The main loop\<close>

definition gui_ok :: "gui \<Rightarrow> bool" where
  "gui_ok s \<longleftrightarrow> surface_ok (surface s) \<and> router_ok (grouter s) \<and> kbd_ok (gkbd s) \<and> lock_free (kbd_lock (gkbd s)) \<and> mouse_ok (gmouse s) \<and>
     on_surface (surface s) (prev_x s) (prev_y s)"

definition pointer_on :: "gui \<Rightarrow> bool" where
  "pointer_on s \<longleftrightarrow> on_surface (surface s) (ms_x (mouse_state_var (gmouse s))) (ms_y (mouse_state_var (gmouse s)))"

lemma inject_ok [simp]: "gui_ok s \<Longrightarrow> gui_ok (event_loop_inject (Some e) s)" "pointer_on (event_loop_inject (Some e) s) = pointer_on s"
  using router_push by (auto simp: gui_ok_def event_loop_inject_def pointer_on_def)

text \<open>Every key in the driver's buffer becomes an event; none of these events has a release bit.\<close>

lemma kbd_poll_ok:
  assumes "ps2_controller io out" "kbd_ok k" "lock_free (kbd_lock k)"
  shows "\<exists>k1 d1. kbd_poll io k d = Some (Inr (k1, d1)) \<and> kbd_ok k1 \<and> lock_free (kbd_lock k1)"
proof -
  let ?k = "k\<lparr>kbd_lock := (kbd_lock k)\<lparr>locked := 1\<rparr>\<rparr>"
  obtain bs d1 where l: "kbd_loop io ?k d = Some (fold kbd_byte bs ?k, d1)" using kbd_loop_bytes [OF assms(1), of ?k d] by blast
  have "kbd_ok ?k" using assms(2) by (simp add: kbd_ok_def)
  then have "kbd_ok (fold kbd_byte bs ?k)" using kbd_bytes_queue by blast
  then have "kbd_ok ((fold kbd_byte bs ?k)\<lparr>kbd_lock := x\<rparr>)" for x by (simp add: kbd_ok_def)
  then show ?thesis using l assms(3) by (simp add: kbd_poll_def spinlock_acquire_def spinlock_release_def)
qed

lemma mouse_poll_ok:
  assumes "ps2_controller io out" "mouse_ok m"
  shows "\<exists>m1 d1. mouse_poll io m d = Some (Inr (m1, d1)) \<and> mouse_ok m1"
proof -
  obtain m1 d1 bs where l: "mouse_loop io (mouse_held m) d = Some (Inr (mouse_held m1, d1))" "mfold mouse_process_byte bs m = Inr m1"
    using mouse_loop_bytes [OF assms, of d] by blast
  have ok: "mouse_ok m1" using mouse_bytes_ok [OF assms(2), of bs] l(2) by auto
  then have "mouse_poll io m d = Some (Inr (m1, d1))"
    using l(1) assms(2) by (simp add: mouse_poll_def spinlock_acquire_def mouse_ok_def mouse_held_def [of m, symmetric])
  with ok show ?thesis by blast
qed

lemma poll_keys_ok:
  "gui_ok s \<Longrightarrow> \<exists>ev1 k r. poll_keys ev s = Some (ev1, s\<lparr>gkbd := k, grouter := r\<rparr>) \<and> gui_ok (s\<lparr>gkbd := k, grouter := r\<rparr>)"
proof (induction "kbd_queue (gkbd s)" arbitrary: ev s)
  case Nil
  then have "poll_keys ev s = Some (ev, s\<lparr>gkbd := gkbd s, grouter := grouter s\<rparr>)"
    using kbd_read_queue(1) [of "gkbd s"] by (simp add: poll_keys.simps [of ev s] gui_ok_def)
  with Nil.prems show ?case by (metis gui.surjective gui.update_convs(2,7))
next
  case (Cons c q)
  have k: "kbd_has_data (gkbd s)" "kbd_read_scancode (gkbd s) = (c, kbd_drop (gkbd s))" "kbd_ok (kbd_drop (gkbd s))" "kbd_queue (kbd_drop (gkbd s)) = q"
    using kbd_read_queue(2) [of "gkbd s" c q] Cons.prems Cons.hyps(2) by (auto simp: gui_ok_def)
  define ev1 where "ev1 = key_event c (kbd_get_modifiers (kbd_drop (gkbd s))) ev"
  define r1 where "r1 = snd (input_router_push (Some ev1) (grouter s))"
  let ?s = "s\<lparr>gkbd := kbd_drop (gkbd s), grouter := r1\<rparr>"
  have "kbd_lock (kbd_drop (gkbd s)) = kbd_lock (gkbd s)" by (simp add: kbd_drop_def)
  then have ok: "gui_ok ?s" using Cons.prems k(3) router_push [of "grouter s" ev1] by (simp add: gui_ok_def r1_def)
  have "poll_keys ev s = poll_keys ev1 ?s"
    using k by (simp add: poll_keys.simps [of ev s] ev1_def Let_def event_loop_inject_def r1_def)
  with Cons.hyps(1) [of ?s ev1] ok k(4) show ?case by auto
qed

lemma clip_pointer_on:
  assumes "surface_ok g"
  shows "on_surface g (ms_x (clip_pointer (sint (gfx_get_width g) - 1) (sint (gfx_get_height g) - 1) m))
    (ms_y (clip_pointer (sint (gfx_get_width g) - 1) (sint (gfx_get_height g) - 1) m))"
proof -
  let ?w = "gs_width g" and ?h = "gs_height g"
  have p: "unat ?w * unat ?h \<le> 2 ^ 24" "0 < unat ?w" "0 < unat ?h" using assms by (auto simp: surface_ok_def n_pixels_def)
  have "unat ?w \<le> unat ?w * unat ?h" "unat ?h \<le> unat ?w * unat ?h" using p(2,3) by simp_all
  then have "unat ?w \<le> 2 ^ 24" "unat ?h \<le> 2 ^ 24" using p(1) by linarith+
  then have "sint ?w = int (unat ?w)" "sint ?h = int (unat ?h)" by (simp_all add: sint_small)
  moreover have "0 < int (unat ?w)" "0 < int (unat ?h)" using p(2,3) by (simp_all only: of_nat_0_less_iff)
  ultimately have "sint ?w = uint ?w" "sint ?h = uint ?h" "0 < uint ?w" "0 < uint ?h" by simp_all
  then show ?thesis by (auto simp: on_surface_def clip_pointer_def Let_def gfx_get_width_def gfx_get_height_def)
qed

lemma poll_at_ok [simp]: "gui_ok (snd p) \<Longrightarrow> gui_ok (snd (poll_at ty p))" "pointer_on (snd (poll_at ty p)) = pointer_on (snd p)"
  by (simp_all add: poll_at_def Let_def)

lemma poll_motion_ok:
  assumes "gui_ok (snd p)"
  shows "gui_ok (snd (poll_motion p)) \<and> pointer_on (snd (poll_motion p))"
proof (cases "ms_x (mouse_state_var (gmouse (snd p))) = prev_x (snd p) \<and> ms_y (mouse_state_var (gmouse (snd p))) = prev_y (snd p)")
  case True
  then show ?thesis using assms by (simp add: poll_motion_def Let_def pointer_on_def gui_ok_def)
next
  case False
  let ?s = "snd p"
  define m where "m = clip_pointer (sint (gfx_get_width (surface ?s)) - 1) (sint (gfx_get_height (surface ?s)) - 1) (mouse_state_var (gmouse ?s))"
  define s1 where "s1 = ?s\<lparr>gmouse := (gmouse ?s)\<lparr>mouse_state_var := m\<rparr>\<rparr>"
  obtain ev2 s2 where p2: "poll_at GUI_EVENT_MOUSE_MOVE (fst p, s1) = (ev2, s2)" by force
  have on: "on_surface (surface ?s) (ms_x m) (ms_y m)" unfolding m_def using assms by (intro clip_pointer_on) (simp add: gui_ok_def)
  have "gui_ok s1" "pointer_on s1" using assms on by (simp_all add: s1_def gui_ok_def mouse_ok_def pointer_on_def)
  then have "gui_ok s2" "pointer_on s2" using poll_at_ok [where p = "(fst p, s1)" and ty = GUI_EVENT_MOUSE_MOVE] p2 by simp_all
  moreover have "surface s2 = surface ?s" using p2 by (auto simp: poll_at_def Let_def event_loop_inject_def s1_def)
  moreover have "poll_motion p = (ev2, s2\<lparr>prev_x := ms_x m, prev_y := ms_y m\<rparr>)"
    using False p2 by (simp only: poll_motion_def Let_def if_False m_def [symmetric] s1_def [symmetric]) simp
  ultimately show ?thesis using on by (simp add: gui_ok_def pointer_on_def)
qed

lemma poll_buttons_ok:
  assumes "gui_ok (snd p)" "pointer_on (snd p)"
  shows "gui_ok (poll_buttons p)" "pointer_on (poll_buttons p)"
proof -
  have "gui_ok (s\<lparr>prev_left_btn := a, prev_right_btn := b\<rparr>) = gui_ok s" "pointer_on (s\<lparr>prev_left_btn := a, prev_right_btn := b\<rparr>) = pointer_on s" for s a b
    by (simp_all add: gui_ok_def pointer_on_def)
  then show "gui_ok (poll_buttons p)" "pointer_on (poll_buttons p)" using assms by (simp_all add: poll_buttons_def Let_def)
qed

lemma input_poller_ok:
  assumes "ps2_controller io out" "gui_ok s"
  shows "\<exists>s1 d1. input_poller_poll io s d = Some (Inr (s1, d1)) \<and> gui_ok s1 \<and> pointer_on s1"
proof -
  obtain k1 d1 where k: "kbd_poll io (gkbd s) d = Some (Inr (k1, d1))" "kbd_ok k1" "lock_free (kbd_lock k1)"
    using kbd_poll_ok [OF assms(1), of "gkbd s" d] assms(2) by (auto simp: gui_ok_def)
  obtain m1 d2 where m: "mouse_poll io (gmouse s) d1 = Some (Inr (m1, d2))" "mouse_ok m1"
    using mouse_poll_ok [OF assms(1), of "gmouse s" d1] assms(2) by (auto simp: gui_ok_def)
  have "gui_ok (s\<lparr>gkbd := k1, gmouse := m1\<rparr>)" using assms(2) k(2,3) m(2) by (simp add: gui_ok_def)
  from poll_keys_ok [OF this, of gui_event0] obtain p where p: "poll_keys gui_event0 (s\<lparr>gkbd := k1, gmouse := m1\<rparr>) = Some p" "gui_ok (snd p)" by auto
  show ?thesis using k(1) m(1) p poll_motion_ok [OF p(2)] poll_buttons_ok [of "poll_motion p"] by (simp add: input_poller_poll_def)
qed

lemma main_turn_ok:
  assumes "ps2_controller io out" "gui_ok s"
  shows "\<exists>s1 d1. main_turn rb io t s d = Some (Inr (s1, d1)) \<and> gui_ok s1 \<and> pointer_on s1"
proof -
  obtain t0 t1 t2 where t: "t = (t0, t1, t2)" by (cases t)
  obtain s1 d1 where 1: "input_poller_poll io s d = Some (Inr (s1, d1))" "gui_ok s1" "pointer_on s1" using input_poller_ok [OF assms] by blast
  have "surface_ok (surface s1)" "router_ok (grouter s1)" using 1(2) by (simp_all add: gui_ok_def)
  from event_loop_step_spec [OF this, of rb t0 t1 t2] obtain n r u g b l where 2: "event_loop_step rb t0 t1 t2 s1 =
      Inr (n, s1\<lparr>grouter := r, gu := u, surface := g, gfb := b, g_last_latency := l\<rparr>)" "router_ok r" "surface_ok g" "on_surface g = on_surface (surface s1)"
    by blast
  then show ?thesis using 1 by (simp add: main_turn_def t gui_ok_def pointer_on_def)
qed

text \<open>Turns of the main loop: before each of them the controller may be in any state, with any bytes waiting.\<close>

fun main_loop :: "right_button \<Rightarrow> 'd ports \<Rightarrow> ('d \<times> u64 \<times> u64 \<times> u64) list \<Rightarrow> gui \<Rightarrow> gui res option" where
  "main_loop rb io [] s = Some (Inr s)"
| "main_loop rb io ((d, t) # turns) s =
     (case main_turn rb io t s d of None \<Rightarrow> None | Some (Inl e) \<Rightarrow> Some (Inl e) | Some (Inr (s1, _)) \<Rightarrow> main_loop rb io turns s1)"


text \<open>A window system on a small surface, with two windows.\<close>

definition ui_example :: ui where
  "ui_example = \<lparr>shell = \<lparr>g_apps = [], g_recent = replicate 5 [], g_recent_pos = 0, g_open = False,
       dwm = snd (wm_create None 200 200 100 100 (snd (wm_create None 20 20 100 100 (wm_init wm_example))))\<rparr>,
     g_keyboard = keyboard_system_init, g_hover = input_system_init, g_focus = 0\<rparr>"

definition gui_example :: gui where
  "gui_example = \<lparr>gu = ui_example, grouter = input_router_init, surface = small_surface,
     gfb = \<lparr>fb_initialized = False, fb_base = 0, fb_width = 0, fb_height = 0, fb_pitch = 0, fb_bpp = 0, fb_pixels = (\<lambda>_. 0)\<rparr>, gfont = font_metrics0,
     g_last_latency = 0, gkbd = kbd_boot, gmouse = mouse_boot, prev_left_btn = False, prev_right_btn = False, prev_x = 0, prev_y = 0, gtheme = None\<rparr>"

definition no_right_button :: right_button where
  "no_right_button = \<lparr>wm_handle_mouse_right_down = (\<lambda>x y w. (-1, w)), wm_handle_mouse_right_up = (\<lambda>x y w. (-1, w))\<rparr>"

lemma small_surface_ok: "surface_ok small_surface" "on_surface small_surface 0 0"
  by (simp_all add: surface_ok_def on_surface_def n_pixels_def small_surface_def)

theorem event_loop_refines_witness:
  "\<exists>s1. mfold (loop_step no_right_button) [Inject (gui_event0\<lparr>ev_type := GUI_EVENT_KEY, ev_key := 0x0F\<rparr>), Frame 1 2 3] (event_loop_init gui_example) = Inr s1 \<and>
     pending (grouter s1) = [] \<and> keyboard_was_pressed KEY_TAB (g_keyboard (gu s1))"
proof -
  let ?as = "[Inject (gui_event0\<lparr>ev_type := GUI_EVENT_KEY, ev_key := 0x0F\<rparr>), Frame 1 2 3]" and ?u = "gu (event_loop_init gui_example)"
  have f: "fst (fold (abstract_step no_right_button) ?as ([], ?u)) = [] \<and> keyboard_was_pressed KEY_TAB (g_keyboard (snd (fold (abstract_step no_right_button) ?as ([], ?u))))"
    by code_simp
  have "surface_ok (surface gui_example)" using small_surface_ok by (simp add: gui_example_def)
  from event_loop_refines [OF this, of no_right_button ?as] f show ?thesis by (metis fst_conv snd_conv)
qed


section \<open>Keys\<close>

text \<open>Starting the window system gives a state on which the main loop runs, once the drivers are in order.\<close>

lemma gfx_init_ok:
  assumes "gfx_init w h g = Inr (0, g1)" "w \<noteq> 0" "h \<noteq> 0"
  shows "surface_ok g1"
proof -
  have e: "unat (ucast w * ucast h :: u64) = unat w * unat h"
  proof -
    have "unat w * unat h < 2 ^ 32 * 2 ^ 32" using unsigned_less [of w, where ?'a = nat] unsigned_less [of h, where ?'a = nat] by (intro mult_strict_mono) auto
    moreover have "unat (ucast x :: u64) = unat x" for x :: u32 using unsigned_less [of x, where ?'a = nat] by (simp add: unsigned_ucast_eq take_bit_nat_eq_self)
    ultimately show ?thesis by (simp add: unat_word_ariths)
  qed
  have "\<not> ucast w * ucast h > (16 * 1024 * 1024 :: u64)" "gs_width g1 = w" "gs_height g1 = h" "gs_initialized g1"
    using assms by (auto simp: gfx_init_def Let_def rbind_Inr_iff split: if_splits prod.splits)
  then show ?thesis using assms(2,3) e by (simp add: surface_ok_def n_pixels_def word_less_nat_alt unat_gt_0)
qed

lemma gui_layer6_init_ok:
  assumes "gui_layer6_init ticks s = Inr (0, s1)" "kbd_ok (gkbd s)" "lock_free (kbd_lock (gkbd s))" "mouse_ok (gmouse s)" "prev_x s = 0" "prev_y s = 0"
  shows "gui_ok s1"
proof -
  obtain g where g: "gfx_start (surface s) = Inr (0, g)" using assms(1) by (auto simp: gui_layer6_init_def rbind_Inr_iff Let_def split: if_splits)
  then have ok: "surface_ok g" by (auto simp: gfx_start_def rbind_Inr_iff split: if_splits prod.splits dest!: gfx_init_ok)
  obtain fm w d x where x: "seq (desktop_shell_draw_desktop fm) (seq (wm_paint_all fm w) (desktop_shell_draw fm ticks d)) g = Inr x"
      "surface s1 = fst (gfx_swap_buffers x (gfb s))" "grouter s1 = input_router_init" "gkbd s1 = gkbd s" "gmouse s1 = gmouse s" "prev_x s1 = 0" "prev_y s1 = 0"
    using assms(1,5,6) g by (auto simp: gui_layer6_init_def Let_def rbind_Inr_iff event_loop_init_def case_prod_unfold split: if_splits)
  moreover have "draws (seq (desktop_shell_draw_desktop fm) (seq (wm_paint_all fm w) (desktop_shell_draw fm ticks d)))"
    by (intro draws_seq draws_desktop draws_windows draws_shell)
  ultimately obtain m where "x = g\<lparr>back_pixels := m\<rparr>" using drawsE [OF _ ok] by fastforce
  with x(2) ok have sf: "surface_ok (surface s1)" by simp
  then have "0 < int (unat (gs_width (surface s1)))" "0 < int (unat (gs_height (surface s1)))" by (simp_all only: surface_ok_def of_nat_0_less_iff)
  then have "on_surface (surface s1) 0 0" by (simp add: on_surface_def)
  with sf show ?thesis using assms(2-4) x(3-7) by (simp add: gui_ok_def input_router_init_def router_ok_def)
qed

text \<open>The events made from the driver's key codes never say that a key was released, so a key once pressed stays pressed.\<close>

lemma polled_keys_press: "on_key (ev_key (key_event (b AND 0x7F) m ev)) u = u\<lparr>g_keyboard := keyboard_handle_key_down (uint (b AND 0x7F)) (g_keyboard u)\<rparr>"
proof -
  have m: "(0x7F :: u8) = mask 7" "(0x7F :: u32) = mask 7" by (simp_all add: mask_eq_exp_minus_1)
  have "bit (2 ^ 7 :: u32) n \<longleftrightarrow> n = 7" for n unfolding bit_exp_iff by (auto dest: bit_imp_le_length)
  then have "(ucast (b AND 0x7F) :: u32) AND 2 ^ 7 = 0" unfolding m by (intro bit_word_eqI) (simp only: bit_and_iff bit_unsigned_iff bit_mask_iff bit_0_eq, auto)
  moreover have "(ucast (b AND 0x7F) :: u32) AND 0x7F = ucast (b AND 0x7F)" unfolding m by (intro bit_word_eqI) (auto simp: bit_simps)
  moreover have "uint (ucast w :: u32) = uint w" for w :: u8 using uint_bounded [of w] by (simp add: unsigned_ucast_eq take_bit_int_eq_self)
  ultimately show ?thesis by (simp add: on_key_def key_event_def Let_def)
qed

end
