(* ===== verification/Acpi.thy ===== *)
theory Acpi
  imports CString Bytes
begin

text \<open>
  The ACPI tables of \<^verbatim>\<open>src/kernel/acpi.c\<close>. Physical memory is a function from addresses to bytes. Table addresses and lengths have
  32 bits and pointers 64, so that the pointer arithmetic of the code never wraps around; addresses are natural numbers here.
\<close>

type_synonym mem = "nat \<Rightarrow> u8"

definition mbytes :: "mem \<Rightarrow> nat \<Rightarrow> nat \<Rightarrow> u8 list" where
  "mbytes mem a n = map (\<lambda>i. mem (a + i)) [0..<n]"

definition mrd16 :: "mem \<Rightarrow> nat \<Rightarrow> u16" where "mrd16 mem a = rd16 (mbytes mem a 2) 0"
definition mrd32 :: "mem \<Rightarrow> nat \<Rightarrow> u32" where "mrd32 mem a = rd32 (mbytes mem a 4) 0"
definition mrd64 :: "mem \<Rightarrow> nat \<Rightarrow> u64" where "mrd64 mem a = rd64 (mbytes mem a 8) 0"

section \<open>State\<close>

definition ACPI_RSDP_SEARCH_START :: u32 where "ACPI_RSDP_SEARCH_START = 0xE0000"
definition ACPI_RSDP_SEARCH_END :: u32 where "ACPI_RSDP_SEARCH_END = 0xFFFFF"
definition ACPI_RSDP_SEARCH_STEP :: u32 where "ACPI_RSDP_SEARCH_STEP = 16"
definition ACPI_SIG_RSDP :: "u8 list" where "ACPI_SIG_RSDP = cstr ''RSD PTR ''"
definition ACPI_SIG_RSDT :: "u8 list" where "ACPI_SIG_RSDT = cstr ''RSDT''"
definition ACPI_SIG_FADT :: "u8 list" where "ACPI_SIG_FADT = cstr ''FACP''"
definition ACPI_SIG_MADT :: "u8 list" where "ACPI_SIG_MADT = cstr ''APIC''"

definition SIZEOF_HEADER :: nat where "SIZEOF_HEADER = 36"
definition SIZEOF_MADT :: nat where "SIZEOF_MADT = 44"

text \<open>The common header: only its signature and its length are read.\<close>

definition hdr_length :: "mem \<Rightarrow> nat \<Rightarrow> u32" where "hdr_length mem a = mrd32 mem (a + 4)"

record acpi_rsdp =
  rsdp_signature :: "u8 list"
  rsdp_checksum :: u8
  rsdp_oem_id :: "u8 list"
  rsdp_revision :: u8
  rsdt_addr :: u32
  rsdp_length :: u32
  xsdt_addr :: u64
  extended_checksum :: u8
  rsdp_reserved :: "u8 list"

definition rsdp_at :: "mem \<Rightarrow> nat \<Rightarrow> acpi_rsdp" where
  "rsdp_at mem a = \<lparr>rsdp_signature = mbytes mem a 8, rsdp_checksum = mem (a + 8), rsdp_oem_id = mbytes mem (a + 9) 6,
     rsdp_revision = mem (a + 15), rsdt_addr = mrd32 mem (a + 16), rsdp_length = mrd32 mem (a + 20), xsdt_addr = mrd64 mem (a + 24),
     extended_checksum = mem (a + 32), rsdp_reserved = mbytes mem (a + 33) 3\<rparr>"

definition rsdp0 :: acpi_rsdp where "rsdp0 = rsdp_at (\<lambda>_. 0) 0"

record acpi_info =
  acpi_valid :: bool
  acpi_revision :: u32
  cpu_count :: u32
  lapic_addr :: u32
  has_8259 :: bool
  sci_interrupt :: int

definition acpi_info0 :: acpi_info where
  "acpi_info0 = \<lparr>acpi_valid = False, acpi_revision = 0, cpu_count = 0, lapic_addr = 0, has_8259 = False, sci_interrupt = 0\<rparr>"

record acpi =
  g_rsdp :: acpi_rsdp
  g_fadt :: nat
  g_madt :: nat
  g_acpi_info :: acpi_info

section \<open>Searching\<close>

definition byte_sum :: "mem \<Rightarrow> nat \<Rightarrow> nat \<Rightarrow> u8" where
  "byte_sum mem a n = fold (\<lambda>b s. s + b) (mbytes mem a n) 0"

definition acpi_checksum_valid :: "mem \<Rightarrow> nat \<Rightarrow> u32 \<Rightarrow> bool" where
  "acpi_checksum_valid mem a len \<longleftrightarrow> byte_sum mem a (unat len) = 0"

definition sig_at :: "mem \<Rightarrow> nat \<Rightarrow> u8 list \<Rightarrow> bool" where
  "sig_at mem a sg \<longleftrightarrow> strncmp (mbytes mem a (length sg)) sg (length sg) = Inr 0"

text \<open>The addresses the search visits, and the conditions it continues on.\<close>

definition rsdp_addrs :: "nat list" where
  "rsdp_addrs = map (\<lambda>i. unat ACPI_RSDP_SEARCH_START + unat ACPI_RSDP_SEARCH_STEP * i)
     [0..<unat ((ACPI_RSDP_SEARCH_END - ACPI_RSDP_SEARCH_START) div ACPI_RSDP_SEARCH_STEP) + 1]"

definition rsdp_ok :: "mem \<Rightarrow> nat \<Rightarrow> bool" where
  "rsdp_ok mem a \<longleftrightarrow> sig_at mem a ACPI_SIG_RSDP \<and> byte_sum mem a 20 = 0 \<and>
     (rsdp_revision (rsdp_at mem a) \<ge> 2 \<longrightarrow> byte_sum mem a (unat (rsdp_length (rsdp_at mem a))) = 0)"

definition acpi_find_rsdp :: "mem \<Rightarrow> acpi \<Rightarrow> int \<times> acpi" where
  "acpi_find_rsdp mem s =
     (case find (rsdp_ok mem) rsdp_addrs of None \<Rightarrow> (-1, s) | Some a \<Rightarrow> (0, s\<lparr>g_rsdp := rsdp_at mem a\<rparr>))"

text \<open>The number of entries is computed with the 64 bits of \<open>sizeof\<close> and cut to 32.\<close>

definition entry_count :: "u32 \<Rightarrow> u32" where
  "entry_count len = ucast ((ucast len - of_nat SIZEOF_HEADER :: u64) div 4)"

definition rsdt_entry :: "mem \<Rightarrow> nat \<Rightarrow> nat \<Rightarrow> u32" where
  "rsdt_entry mem a i = mrd32 mem (a + SIZEOF_HEADER + 4 * i)"

definition acpi_find_table_addr :: "mem \<Rightarrow> u8 list \<Rightarrow> acpi \<Rightarrow> u32" where
  "acpi_find_table_addr mem sg s =
     (if rsdt_addr (g_rsdp s) = 0 then 0
      else let rsdt = unat (rsdt_addr (g_rsdp s)) in
        if \<not> sig_at mem rsdt ACPI_SIG_RSDT then 0
        else if \<not> acpi_checksum_valid mem rsdt (hdr_length mem rsdt) then 0
        else case find (\<lambda>i. sig_at mem (unat (rsdt_entry mem rsdt i)) sg) [0..<unat (entry_count (hdr_length mem rsdt))] of
          None \<Rightarrow> 0 | Some i \<Rightarrow> rsdt_entry mem rsdt i)"

section \<open>Tables\<close>

definition acpi_parse_fadt :: "mem \<Rightarrow> acpi \<Rightarrow> int \<times> acpi" where
  "acpi_parse_fadt mem s =
     (let fadt_addr = acpi_find_table_addr mem ACPI_SIG_FADT s in
      if fadt_addr = 0 then (-1, s)
      else let s1 = s\<lparr>g_fadt := unat fadt_addr\<rparr> in
        if \<not> acpi_checksum_valid mem (g_fadt s1) (hdr_length mem (g_fadt s1)) then (-1, s1)
        else (0, s1\<lparr>g_acpi_info := (g_acpi_info s1)\<lparr>sci_interrupt := uint (mrd16 mem (g_fadt s1 + 46))\<rparr>\<rparr>))"

text \<open>The loop over the interrupt controllers, from \<open>p\<close> to the end of the table.\<close>

function madt_loop :: "mem \<Rightarrow> nat \<Rightarrow> nat \<Rightarrow> u32 \<Rightarrow> u32" where
  "madt_loop mem p e cpus =
     (if p < e then
        let typ = mem p; len = mem (p + 1) in
        if len = 0 then cpus
        else madt_loop mem (p + unat len) e (if typ = 0 \<and> mrd32 mem (p + 4) AND 1 \<noteq> 0 then cpus + 1 else cpus)
      else cpus)"
  by pat_completeness auto
termination by (relation "measure (\<lambda>(mem, p, e, cpus). e - p)") (auto intro!: diff_less_mono2 simp: unat_pos)

declare madt_loop.simps [simp del]

definition acpi_parse_madt :: "mem \<Rightarrow> acpi \<Rightarrow> int \<times> acpi" where
  "acpi_parse_madt mem s =
     (let madt_addr = acpi_find_table_addr mem ACPI_SIG_MADT s in
      if madt_addr = 0 then (-1, s)
      else let s1 = s\<lparr>g_madt := unat madt_addr\<rparr>; m = g_madt s1 in
        if \<not> acpi_checksum_valid mem m (hdr_length mem m) then (-1, s1)
        else (0, s1\<lparr>g_acpi_info := (g_acpi_info s1)\<lparr>lapic_addr := mrd32 mem (m + 36), has_8259 := (mrd32 mem (m + 40) AND 1 \<noteq> 0),
          cpu_count := madt_loop mem (m + SIZEOF_MADT) (m + unat (hdr_length mem m)) 0\<rparr>\<rparr>))"

definition acpi_parse_tables :: "mem \<Rightarrow> acpi \<Rightarrow> int \<times> acpi" where
  "acpi_parse_tables mem s =
     (let (r1, s1) = acpi_parse_fadt mem s; (r2, s2) = acpi_parse_madt mem s1 in (if r1 \<noteq> 0 \<or> r2 \<noteq> 0 then -1 else 0, s2))"

definition acpi_init :: "mem \<Rightarrow> acpi \<Rightarrow> acpi" where
  "acpi_init mem s =
     (let s1 = s\<lparr>g_rsdp := rsdp0, g_acpi_info := acpi_info0\<rparr>; (r1, s2) = acpi_find_rsdp mem s1 in
      if r1 \<noteq> 0 then s2
      else let (r2, s3) = acpi_parse_tables mem s2 in
        if r2 \<noteq> 0 then s3
        else s3\<lparr>g_acpi_info := (g_acpi_info s3)\<lparr>acpi_valid := True, acpi_revision := ucast (rsdp_revision (g_rsdp s3))\<rparr>\<rparr>)"

definition acpi_get_info :: "acpi \<Rightarrow> acpi_info" where
  "acpi_get_info s = g_acpi_info s"

section \<open>Tables as the firmware lays them out\<close>

text \<open>A table: signature, length, 28 further bytes of header and a body; all its bytes sum up to zero.\<close>

definition acpi_table :: "mem \<Rightarrow> nat \<Rightarrow> u8 list \<Rightarrow> u8 list \<Rightarrow> bool" where
  "acpi_table mem a sg body \<longleftrightarrow> 36 + length body < 2 ^ 32 \<and> length sg = 4 \<and> mbytes mem a 4 = sg \<and>
     mbytes mem (a + 4) 4 = le32 (of_nat (36 + length body)) \<and> mbytes mem (a + 36) (length body) = body \<and>
     byte_sum mem a (36 + length body) = 0"

lemma length_mbytes [simp]: "length (mbytes mem a n) = n"
  by (simp add: mbytes_def)

lemma mbytes_nth [simp]: "i < n \<Longrightarrow> mbytes mem a n ! i = mem (a + i)"
  by (simp add: mbytes_def)

lemma mbytes_append: "mbytes mem a (n + k) = mbytes mem a n @ mbytes mem (a + n) k"
  by (rule nth_equalityI) (auto simp: nth_append)

lemma mbytes_appendD:
  assumes "mbytes mem a (length (xs @ ys)) = xs @ ys"
  shows "mbytes mem a (length xs) = xs" "mbytes mem (a + length xs) (length ys) = ys"
  using assms by (simp_all add: mbytes_append)

lemma length_le32 [simp]: "length (le32 w) = 4"
  by (simp add: le32_def)

lemma mrd32_le32: "mbytes mem a 4 = le32 w \<Longrightarrow> mrd32 mem a = w"
  using join32 [of w] by (simp add: mrd32_def rd32_def le32_def)

lemma strncmp_refl: "plain s \<Longrightarrow> strncmp s s (length s) = Inr 0"
  by (induction s) auto

lemma table_facts:
  assumes t: "acpi_table mem a sg body" and "plain sg"
  shows "sig_at mem a sg" "unat (hdr_length mem a) = 36 + length body" "acpi_checksum_valid mem a (hdr_length mem a)"
proof -
  show "sig_at mem a sg" using t strncmp_refl [OF assms(2)] by (simp add: sig_at_def acpi_table_def)
  have "hdr_length mem a = of_nat (36 + length body)" using t mrd32_le32 [of mem "a + 4" "of_nat (36 + length body)"]
    by (simp add: hdr_length_def acpi_table_def)
  then show "unat (hdr_length mem a) = 36 + length body"
    using t unat_of_nat_small [of "36 + length body", where 'a = 32] by (simp only: acpi_table_def) simp
  then show "acpi_checksum_valid mem a (hdr_length mem a)" using t by (simp add: acpi_checksum_valid_def acpi_table_def)
qed

lemma entry_count_table: "unat len = 36 + 4 * n \<Longrightarrow> unat (entry_count len) = n"
proof -
  assume l: "unat len = 36 + 4 * n"
  have lt: "unat len < 2 ^ 32" using unsigned_less [of len, where 'a = nat] by simp
  have w: "ucast len = (of_nat (36 + 4 * n) :: u64)" by (simp only: l [symmetric] of_nat_unat)
  have "(ucast len - of_nat SIZEOF_HEADER :: u64) = of_nat (4 * n)" unfolding w by (simp add: SIZEOF_HEADER_def)
  moreover have "unat (of_nat (4 * n) :: u64) = 4 * n" using l lt by (intro unat_of_nat_small) simp
  ultimately have "unat ((ucast len - of_nat SIZEOF_HEADER :: u64) div 4) = n" by (simp add: unat_div)
  then show ?thesis using l lt by (simp add: entry_count_def unsigned_ucast_eq take_bit_eq_mod)
qed

lemma rsdt_entries:
  assumes t: "acpi_table mem a sg (concat (map le32 ts))" and i: "i < length ts"
  shows "rsdt_entry mem a i = ts ! i"
proof -
  have len: "length (concat (map le32 xs)) = 4 * length xs" for xs by (induction xs) simp_all
  let ?pre = "concat (map le32 (take i ts))" and ?post = "concat (map le32 (drop (Suc i) ts))"
  have split: "concat (map le32 ts) = ?pre @ le32 (ts ! i) @ ?post"
    by (subst id_take_nth_drop [OF i]) simp
  have "mbytes mem (a + 36) (length (?pre @ le32 (ts ! i) @ ?post)) = ?pre @ le32 (ts ! i) @ ?post"
    using t unfolding split [symmetric] by (simp add: acpi_table_def)
  from mbytes_appendD(1) [OF mbytes_appendD(2) [OF this]]
  have "mbytes mem (a + 36 + 4 * i) 4 = le32 (ts ! i)" using i by (simp add: len)
  then show ?thesis by (simp add: rsdt_entry_def SIZEOF_HEADER_def mrd32_le32)
qed

lemma find_index: "find (\<lambda>i. P (xs ! i)) [0..<length xs] = first_idx P xs"
proof (induction xs)
  case (Cons x xs)
  have u: "[0..<length (x # xs)] = 0 # map Suc [0..<length xs]" by (simp add: upt_conv_Cons map_Suc_upt del: upt_Suc)
  have m: "find Q (map Suc ys) = map_option Suc (find (\<lambda>i. Q (Suc i)) ys)" for Q ys by (induction ys) auto
  show ?case unfolding u using Cons by (simp add: m)
qed simp

lemma first_idx_find: "find P xs = map_option ((!) xs) (first_idx P xs)"
  by (induction xs) (auto simp: option.map_comp comp_def)

text \<open>The search of a well-formed root table returns the first entry with the signature.\<close>

lemma find_table:
  assumes t: "acpi_table mem (unat (rsdt_addr (g_rsdp s))) ACPI_SIG_RSDT (concat (map le32 ts))" and nz: "rsdt_addr (g_rsdp s) \<noteq> 0"
  shows "acpi_find_table_addr mem sg s = (case find (\<lambda>x. sig_at mem (unat x) sg) ts of None \<Rightarrow> 0 | Some x \<Rightarrow> x)"
proof -
  let ?a = "unat (rsdt_addr (g_rsdp s))"
  have p: "plain ACPI_SIG_RSDT" by (simp add: ACPI_SIG_RSDT_def cstr_def)
  note f = table_facts [OF t p]
  have "length (concat (map le32 xs)) = 4 * length xs" for xs by (induction xs) simp_all
  then have n: "unat (entry_count (hdr_length mem ?a)) = length ts" using f(2) by (intro entry_count_table) simp
  have c: "find (\<lambda>i. sig_at mem (unat (rsdt_entry mem ?a i)) sg) [0..<length ts] = find (\<lambda>i. sig_at mem (unat (ts ! i)) sg) [0..<length ts]"
    by (rule find_cong) (simp_all add: rsdt_entries [OF t])
  have "first_idx (\<lambda>x. sig_at mem (unat x) sg) ts = Some i \<Longrightarrow> rsdt_entry mem ?a i = ts ! i" for i
    by (rule rsdt_entries [OF t first_idx_less])
  moreover have "acpi_find_table_addr mem sg s = (case first_idx (\<lambda>x. sig_at mem (unat x) sg) ts of None \<Rightarrow> 0 | Some i \<Rightarrow> rsdt_entry mem ?a i)"
    using nz f(1,3) by (simp add: acpi_find_table_addr_def Let_def n c find_index [where P = "\<lambda>x. sig_at mem (unat x) sg"])
  ultimately show ?thesis by (auto simp: first_idx_find [of _ ts] split: option.splits)
qed

section \<open>Interrupt controllers\<close>

datatype ics =
  Lapic u8 u8 u32
| Ioapic u8 u32 u32
| Iso u8 u8 u32 u16
| Other u8 "u8 list"

fun ics_bytes :: "ics \<Rightarrow> u8 list" where
  "ics_bytes (Lapic p i fl) = [0, 8, p, i] @ le32 fl"
| "ics_bytes (Ioapic i ad g) = [1, 12, i, 0] @ le32 ad @ le32 g"
| "ics_bytes (Iso b src g fl) = [2, 10, b, src] @ le32 g @ le16 fl"
| "ics_bytes (Other t bs) = [t, of_nat (2 + length bs)] @ bs"

fun ics_ok :: "ics \<Rightarrow> bool" where
  "ics_ok (Other t bs) \<longleftrightarrow> 2 < t \<and> 2 + length bs < 256"
| "ics_ok _ \<longleftrightarrow> True"

fun enabled_cpu :: "ics \<Rightarrow> bool" where
  "enabled_cpu (Lapic p i fl) \<longleftrightarrow> fl AND 1 \<noteq> 0"
| "enabled_cpu _ \<longleftrightarrow> False"

lemma ics_step:
  assumes ok: "ics_ok c" and st: "mbytes mem p (length (ics_bytes c)) = ics_bytes c"
  shows "unat (mem (p + 1)) = length (ics_bytes c)" "(mem p = 0 \<and> mrd32 mem (p + 4) AND 1 \<noteq> 0) = enabled_cpu c" "0 < length (ics_bytes c)"
proof -
  have l: "1 < length (ics_bytes c)" by (cases c) (simp_all add: le16_def)
  then show "0 < length (ics_bytes c)" by linarith
  have b: "mem (p + i) = ics_bytes c ! i" if "i < length (ics_bytes c)" for i
    using that arg_cong [OF st, where f = "\<lambda>xs. xs ! i"] by simp
  have 01: "mem p = ics_bytes c ! 0" "mem (p + 1) = ics_bytes c ! 1" using b [of 0] b [OF l] \<open>0 < length (ics_bytes c)\<close> by simp_all
  show "unat (mem (p + 1)) = length (ics_bytes c)"
  proof (cases c)
    case (Other t bs)
    then show ?thesis using ok 01(2) unat_of_nat_small [of "2 + length bs", where 'a = 8] by simp
  qed (use 01(2) in \<open>simp_all add: le16_def\<close>)
  show "(mem p = 0 \<and> mrd32 mem (p + 4) AND 1 \<noteq> 0) = enabled_cpu c"
  proof (cases c)
    case (Lapic q i fl)
    have "mbytes mem p (length ([0, 8, q, i] @ le32 fl)) = [0, 8, q, i] @ le32 fl" using st Lapic by simp
    from mbytes_appendD(2) [OF this] have "mbytes mem (p + 4) 4 = le32 fl" by (simp add: numeral_eq_Suc)
    then have "mrd32 mem (p + 4) = fl" by (rule mrd32_le32)
    then show ?thesis using 01(1) Lapic by simp
  next
    case (Other t bs)
    then show ?thesis using ok 01(1) by auto
  qed (use 01(1) in simp_all)
qed

text \<open>The loop counts the enabled processors of the list.\<close>

lemma madt_loop_counts:
  assumes "\<forall>c\<in>set cs. ics_ok c" "mbytes mem p (length (concat (map ics_bytes cs))) = concat (map ics_bytes cs)"
  shows "madt_loop mem p (p + length (concat (map ics_bytes cs))) n = n + of_nat (length (filter enabled_cpu cs))"
  using assms
proof (induction cs arbitrary: p n)
  case Nil
  then show ?case by (simp add: madt_loop.simps)
next
  case (Cons c cs)
  let ?rest = "concat (map ics_bytes cs)"
  have st: "mbytes mem p (length (ics_bytes c)) = ics_bytes c" "mbytes mem (p + length (ics_bytes c)) (length ?rest) = ?rest"
    using mbytes_appendD [of mem p "ics_bytes c" ?rest] Cons.prems(2) by simp_all
  have ok: "ics_ok c" "\<forall>c\<in>set cs. ics_ok c" using Cons.prems(1) by simp_all
  note step = ics_step [OF ok(1) st(1)]
  have nz: "mem (p + 1) \<noteq> 0" using step(1,3) by auto
  let ?n = "if enabled_cpu c then n + 1 else n"
  have "madt_loop mem p (p + length (concat (map ics_bytes (c # cs)))) n = madt_loop mem (p + length (ics_bytes c)) (p + length (ics_bytes c) + length ?rest) ?n"
    using nz step by (subst madt_loop.simps) (simp add: Let_def add.assoc)
  also have "\<dots> = ?n + of_nat (length (filter enabled_cpu cs))" by (rule Cons.IH [OF ok(2) st(2)])
  finally show ?case by (simp add: algebra_simps)
qed

section \<open>The information the kernel obtains\<close>

text \<open>A machine with one enabled processor out of two.\<close>

definition example_table :: "u8 list \<Rightarrow> u8 \<Rightarrow> u8 list \<Rightarrow> u8 list" where
  "example_table sg cs body = sg @ le32 (of_nat (36 + length body)) @ [cs] @ replicate 27 0 @ body"

definition example_ics :: "ics list" where
  "example_ics = [Lapic 0 0 1, Lapic 1 1 0, Ioapic 2 0xFEC00000 0]"

definition example_fadt :: "u8 list" where
  "example_fadt = replicate 10 0 @ [9, 0]"

definition example_regions :: "(nat \<times> u8 list) list" where
  "example_regions = [(0xE0000, ACPI_SIG_RSDP @ [209] @ replicate 7 0 @ le32 0x1000),
     (0x1000, example_table ACPI_SIG_RSDT 71 (concat (map le32 [0x2000, 0x3000]))),
     (0x2000, example_table ACPI_SIG_FADT 173 example_fadt),
     (0x3000, example_table ACPI_SIG_MADT 220 (le32 0xFEE00000 @ le32 1 @ concat (map ics_bytes example_ics)))]"

definition example_mem :: mem where
  "example_mem a = (case find (\<lambda>(b, xs). b \<le> a \<and> a < b + length xs) example_regions of Some (b, xs) \<Rightarrow> xs ! (a - b) | None \<Rightarrow> 0)"

lemma example_lengths:
  "length (ACPI_SIG_RSDP @ [209] @ replicate 7 0 @ le32 0x1000) = 20" "length (example_table ACPI_SIG_RSDT 71 (concat (map le32 [0x2000, 0x3000]))) = 44"
  "length (example_table ACPI_SIG_RSDT 71 (le32 0x2000 @ le32 0x3000)) = 44" "length (example_table ACPI_SIG_FADT 173 example_fadt) = 48"
  "length (example_table ACPI_SIG_MADT 220 (le32 0xFEE00000 @ le32 1 @ concat (map ics_bytes example_ics))) = 72"
  by code_simp+

lemma example_stored: "(b, xs) \<in> set example_regions \<Longrightarrow> mbytes example_mem b (length xs) = xs"
proof (rule nth_equalityI)
  fix i assume m: "(b, xs) \<in> set example_regions" and "i < length (mbytes example_mem b (length xs))"
  then have "i < length xs" by simp
  with m show "mbytes example_mem b (length xs) ! i = xs ! i"
    unfolding example_regions_def by (auto simp: example_mem_def example_regions_def example_lengths simp del: append_assoc append.simps length_append)
qed simp

lemma example_tableI:
  assumes "(a, example_table sg cs body) \<in> set example_regions" "length sg = 4" "length body < 1000"
    and "fold (\<lambda>b s. s + b) (example_table sg cs body) 0 = 0"
  shows "acpi_table example_mem a sg body"
proof -
  let ?t = "example_table sg cs body"
  have st: "mbytes example_mem a (length ?t) = ?t" using example_stored [OF assms(1)] .
  have l: "length ?t = 36 + length body" using assms(2) by (simp add: example_table_def)
  note p1 = mbytes_appendD [OF st [unfolded example_table_def]]
  note p2 = mbytes_appendD [OF p1(2)]
  note p3 = mbytes_appendD [OF p2(2)]
  note p4 = mbytes_appendD [OF p3(2)]
  have "byte_sum example_mem a (36 + length body) = 0" using st assms(4) by (simp add: byte_sum_def l)
  then show ?thesis using p1(1) p2(1) p4(2) assms(2,3) by (simp add: acpi_table_def add.commute)
qed

lemma example_tables:
  "acpi_table example_mem 0x1000 ACPI_SIG_RSDT (concat (map le32 [0x2000, 0x3000]))"
  "acpi_table example_mem 0x2000 ACPI_SIG_FADT example_fadt"
  "acpi_table example_mem 0x3000 ACPI_SIG_MADT (le32 0xFEE00000 @ le32 1 @ concat (map ics_bytes example_ics))"
  by (rule example_tableI, simp add: example_regions_def, code_simp, code_simp, code_simp)+

lemma example_rsdp: "find (rsdp_ok example_mem) rsdp_addrs = Some 0xE0000" "mrd32 example_mem (0xE0000 + 16) = 0x1000" "example_mem (0xE0000 + 15) = 0"
proof -
  let ?xs = "ACPI_SIG_RSDP @ [209] @ replicate 7 0 @ le32 0x1000"
  have st: "mbytes example_mem 0xE0000 20 = ?xs" using example_stored [of "0xE0000" ?xs] by (simp add: example_regions_def example_lengths del: append_assoc append.simps length_append)
  have n: "example_mem (0xE0000 + i) = ?xs ! i" if "i < 20" for i using that arg_cong [OF st, where f = "\<lambda>l. l ! i"] by simp
  have l8: "length ACPI_SIG_RSDP = 8" by code_simp
  have "mbytes example_mem 0xE0000 (length ACPI_SIG_RSDP) = ACPI_SIG_RSDP"
    using mbytes_appendD(1) [of example_mem "0xE0000" ACPI_SIG_RSDP "[209] @ replicate 7 0 @ le32 0x1000"] st by (simp add: l8)
  moreover have "strncmp ACPI_SIG_RSDP ACPI_SIG_RSDP 8 = Inr 0" by code_simp
  ultimately have "sig_at example_mem 0xE0000 ACPI_SIG_RSDP" by (simp add: sig_at_def l8)
  moreover have "byte_sum example_mem 0xE0000 20 = 0" unfolding byte_sum_def st by code_simp
  moreover show "example_mem (0xE0000 + 15) = 0"
  proof -
    have "?xs ! 15 = 0" by code_simp
    then show ?thesis using n [of 15] by simp
  qed
  ultimately have "rsdp_ok example_mem 0xE0000" by (simp add: rsdp_ok_def rsdp_at_def)
  moreover obtain xs where "rsdp_addrs = 0xE0000 # xs"
    by (simp add: rsdp_addrs_def ACPI_RSDP_SEARCH_START_def upt_conv_Cons del: upt_Suc)
  ultimately show "find (rsdp_ok example_mem) rsdp_addrs = Some 0xE0000" by (metis find.simps(2))
  have "mbytes example_mem (0xE0000 + length (ACPI_SIG_RSDP @ [209] @ replicate 7 0)) (length (le32 0x1000)) = le32 0x1000"
    by (rule mbytes_appendD(2)) (use st in \<open>simp add: l8\<close>)
  then have "mbytes example_mem (0xE0000 + 16) 4 = le32 0x1000" by (simp add: l8)
  then show "mrd32 example_mem (0xE0000 + 16) = 0x1000" by (rule mrd32_le32)
qed

text \<open>
  C29. On memory with well-formed tables (a root pointer in the search area, a root table that lists the fixed table and the interrupt
  table, all with correct checksums) \<open>acpi_init\<close> reports exactly what the tables say: the number of enabled processors, whatever
  other controllers the interrupt table lists and in which order, the address of the local controller, whether there is an 8259 and
  the system interrupt.
\<close>

theorem acpi_init_reports:
  assumes r: "find (rsdp_ok mem) rsdp_addrs = Some r" and nz: "mrd32 mem (r + 16) \<noteq> 0"
    and root: "acpi_table mem (unat (mrd32 mem (r + 16))) ACPI_SIG_RSDT (concat (map le32 ts))"
    and fadt: "find (\<lambda>x. sig_at mem (unat x) ACPI_SIG_FADT) ts = Some f" "f \<noteq> 0" "acpi_table mem (unat f) ACPI_SIG_FADT fbody"
    and madt: "find (\<lambda>x. sig_at mem (unat x) ACPI_SIG_MADT) ts = Some m" "m \<noteq> 0"
      "acpi_table mem (unat m) ACPI_SIG_MADT (le32 la @ le32 fl @ concat (map ics_bytes cs))" "\<forall>c\<in>set cs. ics_ok c"
  shows "acpi_get_info (acpi_init mem s) = \<lparr>acpi_valid = True, acpi_revision = ucast (mem (r + 15)),
     cpu_count = of_nat (length (filter enabled_cpu cs)), lapic_addr = la, has_8259 = (fl AND 1 \<noteq> 0),
     sci_interrupt = uint (mrd16 mem (unat f + 46))\<rparr>"
proof -
  have pl: "plain ACPI_SIG_FADT" "plain ACPI_SIG_MADT" by (simp_all add: ACPI_SIG_FADT_def ACPI_SIG_MADT_def cstr_def)
  note tf = table_facts [OF fadt(3) pl(1)] and tm = table_facts [OF madt(3) pl(2)]
  define s2 where "s2 = s\<lparr>g_rsdp := rsdp_at mem r, g_acpi_info := acpi_info0\<rparr>"
  have ra: "rsdt_addr (rsdp_at mem r) = mrd32 mem (r + 16)" by (simp add: rsdp_at_def)
  have look: "acpi_find_table_addr mem sg x = (case find (\<lambda>x. sig_at mem (unat x) sg) ts of None \<Rightarrow> 0 | Some x \<Rightarrow> x)"
    if "g_rsdp x = rsdp_at mem r" for sg x by (rule find_table) (simp_all add: that ra root nz)
  define s3 where "s3 = s2\<lparr>g_fadt := unat f, g_acpi_info := (g_acpi_info s2)\<lparr>sci_interrupt := uint (mrd16 mem (unat f + 46))\<rparr>\<rparr>"
  have 3: "acpi_parse_fadt mem s2 = (0, s3)"
    using fadt(1,2) tf look [of s2] by (simp add: acpi_parse_fadt_def Let_def s2_def s3_def)
  let ?cs = "concat (map ics_bytes cs)"
  have body: "mbytes mem (unat m + 36) (length (le32 la @ le32 fl @ ?cs)) = le32 la @ le32 fl @ ?cs" using madt(3) by (simp add: acpi_table_def)
  have la: "mrd32 mem (unat m + 36) = la" using mbytes_appendD(1) [OF body] by (simp add: mrd32_le32)
  have fl: "mrd32 mem (unat m + 40) = fl" using mbytes_appendD(1) [OF mbytes_appendD(2) [OF body]] by (simp add: mrd32_le32 add.commute)
  have "mbytes mem (unat m + 44) (length ?cs) = ?cs" using mbytes_appendD(2) [OF mbytes_appendD(2) [OF body]] by (simp add: add.commute)
  from madt_loop_counts [OF madt(4) this, of 0]
  have n: "madt_loop mem (unat m + 44) (unat m + unat (hdr_length mem (unat m))) 0 = of_nat (length (filter enabled_cpu cs))"
    by (simp add: tm(2) ac_simps)
  define s4 where "s4 = s3\<lparr>g_madt := unat m, g_acpi_info := (g_acpi_info s3)\<lparr>lapic_addr := la, has_8259 := (fl AND 1 \<noteq> 0),
      cpu_count := of_nat (length (filter enabled_cpu cs))\<rparr>\<rparr>"
  have 4: "acpi_parse_madt mem s3 = (0, s4)"
    using madt(1,2) tm(3) look [of s3] by (simp add: acpi_parse_madt_def Let_def s3_def s2_def SIZEOF_MADT_def la fl n s4_def)
  have "acpi_find_rsdp mem (s\<lparr>g_rsdp := rsdp0, g_acpi_info := acpi_info0\<rparr>) = (0, s2)" using r by (simp add: acpi_find_rsdp_def s2_def)
  then have "acpi_init mem s = s4\<lparr>g_acpi_info := (g_acpi_info s4)\<lparr>acpi_valid := True, acpi_revision := ucast (rsdp_revision (g_rsdp s4))\<rparr>\<rparr>"
    using 3 4 by (simp add: acpi_init_def acpi_parse_tables_def)
  then show ?thesis by (simp add: acpi_get_info_def s4_def s3_def s2_def acpi_info0_def rsdp_at_def)
qed

theorem acpi_init_reports_witness:
  "acpi_get_info (acpi_init example_mem \<lparr>g_rsdp = rsdp0, g_fadt = 0, g_madt = 0, g_acpi_info = acpi_info0\<rparr>) = \<lparr>acpi_valid = True, acpi_revision = 0,
     cpu_count = 1, lapic_addr = 0xFEE00000, has_8259 = True, sci_interrupt = uint (mrd16 example_mem (0x2000 + 46))\<rparr>"
proof -
  have "plain ACPI_SIG_FADT" "plain ACPI_SIG_MADT" by (simp_all add: ACPI_SIG_FADT_def ACPI_SIG_MADT_def cstr_def)
  then have sig: "sig_at example_mem 0x2000 ACPI_SIG_FADT" "sig_at example_mem 0x3000 ACPI_SIG_MADT"
    using example_tables(2,3) by (auto intro: table_facts)
  have "mbytes example_mem 0x2000 4 = ACPI_SIG_FADT" using example_tables(2) by (simp add: acpi_table_def)
  moreover have "strncmp ACPI_SIG_FADT ACPI_SIG_MADT 4 \<noteq> Inr 0" "length ACPI_SIG_MADT = 4" by code_simp+
  ultimately have "\<not> sig_at example_mem 0x2000 ACPI_SIG_MADT" by (simp add: sig_at_def)
  with sig have f: "find (\<lambda>x. sig_at example_mem (unat x) ACPI_SIG_FADT) [0x2000, 0x3000] = Some (0x2000 :: u32)"
    "find (\<lambda>x. sig_at example_mem (unat x) ACPI_SIG_MADT) [0x2000, 0x3000] = Some (0x3000 :: u32)" by simp_all
  have v: "length (filter enabled_cpu example_ics) = 1" by code_simp
  have ok: "\<forall>c\<in>set example_ics. ics_ok c" by (simp add: example_ics_def)
  have "acpi_table example_mem (unat (mrd32 example_mem (0xE0000 + 16))) ACPI_SIG_RSDT (concat (map le32 [0x2000, 0x3000]))"
    "mrd32 example_mem (0xE0000 + 16) \<noteq> 0" unfolding example_rsdp(2) using example_tables(1) by simp_all
  from acpi_init_reports [OF example_rsdp(1) this(2,1) f(1) _ _ f(2) _ _ ok] example_tables(2,3) show ?thesis
    by (simp add: v example_rsdp(3) [simplified])
qed

text \<open>A root table of length zero passes the checksum, and the number of its entries wraps around.\<close>

lemma empty_root_table: "acpi_checksum_valid mem a 0" "entry_count 0 = 0xFFFFFFF7"
proof -
  show "acpi_checksum_valid mem a 0" by (simp add: acpi_checksum_valid_def byte_sum_def mbytes_def)
  show "entry_count 0 = 0xFFFFFFF7" by code_simp
qed

end
