(* ===== verification/Apps.thy ===== *)
theory Apps
  imports Ramdisk
begin

text \<open>
  Applications without windows: the shell (\<^verbatim>\<open>src/apps/shell.c\<close>, \<^verbatim>\<open>builtins.c\<close>, \<^verbatim>\<open>lang_detect.c\<close>), the text browser (\<^verbatim>\<open>http_client.c\<close>,
  \<^verbatim>\<open>html_min_parser.c\<close>, \<^verbatim>\<open>tcp_socket.c\<close>), settings (\<^verbatim>\<open>settings.c\<close> and its clients), the file manager's core (\<^verbatim>\<open>fileman.c\<close>) and the
  small helpers of the task manager and launcher. What a command prints is part of its result.
\<close>

section \<open>Strings in fixed buffers\<close>

text \<open>\<open>strncpy\<close> of at most \<open>n - 1\<close> bytes with a terminator in the last place, and \<open>strncat\<close>.\<close>

definition copy_max :: "nat \<Rightarrow> u8 list \<Rightarrow> u8 list" where
  "copy_max n s = take (n - 1) s"

definition cat_max :: "nat \<Rightarrow> u8 list \<Rightarrow> u8 list \<Rightarrow> u8 list" where
  "cat_max n out s = out @ take n s"

definition starts :: "u8 list \<Rightarrow> u8 list \<Rightarrow> bool" where
  "starts tok s \<longleftrightarrow> take (length tok) s = tok"

fun index_of :: "u8 list \<Rightarrow> u8 list \<Rightarrow> nat option" where
  "index_of tok [] = (if tok = [] then Some 0 else None)"
| "index_of tok (c # s) = (if starts tok (c # s) then Some 0 else map_option Suc (index_of tok s))"

fun last_index :: "u8 \<Rightarrow> u8 list \<Rightarrow> nat option" where
  "last_index b [] = None"
| "last_index b (c # s) = (case last_index b s of Some i \<Rightarrow> Some (Suc i) | None \<Rightarrow> if c = b then Some 0 else None)"

section \<open>Shell\<close>

definition MAX_CMD_LEN :: nat where "MAX_CMD_LEN = 256"
definition MAX_ARGS :: nat where "MAX_ARGS = 32"
definition MAX_PATH_LEN :: nat where "MAX_PATH_LEN = 128"

datatype lang = LANG_LINUX | LANG_ENGLISH | LANG_ARABIC

text \<open>The arguments are the strings that the pointers \<open>argv\<close> designate; \<open>argc\<close> is their number.\<close>

record shell_ast =
  ast_argv :: "u8 list list"
  background :: bool
  has_pipe :: bool
  has_redirect :: bool

record shell =
  cwd :: "u8 list"
  ps1 :: "u8 list"
  current_lang :: lang

definition ar_show :: "u8 list" where "ar_show = [0xD8, 0xA7, 0xD8, 0xB9, 0xD8, 0xB1, 0xD8, 0xB6]"
definition ar_files :: "u8 list" where "ar_files = [0xD9, 0x85, 0xD9, 0x84, 0xD9, 0x81, 0xD8, 0xA7, 0xD8, 0xAA]"
definition ar_print :: "u8 list" where "ar_print = [0xD8, 0xA7, 0xD8, 0xB7, 0xD8, 0xA8, 0xD8, 0xB9]"
definition ar_create :: "u8 list" where "ar_create = [0xD8, 0xA7, 0xD9, 0x86, 0xD8, 0xB4, 0xD8, 0xA6]"

definition contains_token :: "u8 list \<Rightarrow> u8 list \<Rightarrow> bool" where
  "contains_token s tok \<longleftrightarrow> tok \<noteq> [] \<and> (\<exists>i\<in>set [0..<length s]. starts tok (drop i s))"

definition detect_lang :: "u8 list \<Rightarrow> lang" where
  "detect_lang input =
     (if contains_token input (cstr ''ls'') \<or> contains_token input (cstr ''cd'') \<or> contains_token input (cstr ''cat'') then LANG_LINUX
      else if contains_token input (cstr ''show'') \<or> contains_token input (cstr ''create'') then LANG_ENGLISH
      else if contains_token input ar_show \<or> contains_token input ar_create then LANG_ARABIC
      else LANG_LINUX)"

definition sys_exec_app :: "u8 list \<Rightarrow> int \<times> u8 list" where
  "sys_exec_app path = (-1, cstr ''exec: '' @ path @ cstr '' not found (user-space loader pending)'' @ [10])"

text \<open>The bytes that arrive on the serial line are given; with no more of them the loop waits for ever.\<close>

fun readline_loop :: "nat \<Rightarrow> u8 list \<Rightarrow> u8 list \<Rightarrow> (u8 list \<times> u8 list) res" where
  "readline_loop 0 buf inp = Inr (buf, inp)"
| "readline_loop (Suc n) buf [] = Inl Spin"
| "readline_loop (Suc n) buf (c # inp) = (if c = 13 \<or> c = 10 then Inr (buf, inp) else readline_loop n (buf @ [c]) inp)"

definition shell_readline :: "int \<Rightarrow> u8 list \<Rightarrow> (int \<times> u8 list \<times> u8 list) res" where
  "shell_readline max_len inp =
     (if max_len \<le> 1 then Inr (-1, [], inp)
      else rbind (readline_loop (nat (max_len - 1)) [] inp) (\<lambda>(buf, inp1). Inr (int (length buf), buf, inp1)))"

definition safe_copy :: "u8 list option \<Rightarrow> nat \<Rightarrow> u8 list" where
  "safe_copy src max_len = copy_max max_len (case src of None \<Rightarrow> [] | Some s \<Rightarrow> s)"

definition normalize_command :: "u8 list \<Rightarrow> nat \<Rightarrow> u8 list \<times> lang" where
  "normalize_command input out_len =
     (let out = safe_copy (Some input) out_len; l = detect_lang input;
          room = (\<lambda>o'. out_len - length o' - 1)
      in (if l = LANG_ENGLISH then
            (if starts (cstr ''show files'') input then
               (case index_of (cstr '' in '') input of
                  Some i \<Rightarrow> let o1 = safe_copy (Some (cstr ''ls '')) out_len in cat_max (room o1) o1 (drop (i + 4) input)
                | None \<Rightarrow> safe_copy (Some (cstr ''ls'')) out_len)
             else if starts (cstr ''print '') input then
               let o1 = safe_copy (Some (cstr ''echo '')) out_len in cat_max (room o1) o1 (drop 6 input)
             else out)
          else if l = LANG_ARABIC then
            (if starts (ar_show @ [32] @ ar_files) input then
               let o1 = safe_copy (Some (cstr ''ls'')) out_len in
               (case last_index 32 input of
                  Some i \<Rightarrow> if drop (i + 1) input \<noteq> [] then let o2 = cat_max (room o1) o1 [32] in cat_max (room o2) o2 (drop (i + 1) input) else o1
                | None \<Rightarrow> o1)
             else if starts (ar_print @ [32]) input then
               let o1 = safe_copy (Some (cstr ''echo '')) out_len in cat_max (room o1) o1 (drop 9 input)
             else out)
          else out, l))"

definition is_blank :: "u8 \<Rightarrow> bool" where "is_blank c \<longleftrightarrow> c = 32 \<or> c = 9"
definition is_op :: "u8 \<Rightarrow> bool" where "is_op c \<longleftrightarrow> c = 124 \<or> c = 62 \<or> c = 60"
definition is_sep :: "u8 \<Rightarrow> bool" where "is_sep c \<longleftrightarrow> is_blank c \<or> is_op c \<or> c = 38"

lemma length_dropWhile_less: "dropWhile P p = c # q \<Longrightarrow> length q < length p"
  using length_dropWhile_le [of P p] by simp

function parse_words :: "u8 list \<Rightarrow> shell_ast \<Rightarrow> shell_ast" where
  "parse_words p ast =
     (if p = [] \<or> length (ast_argv ast) \<ge> MAX_ARGS - 1 then ast
      else case dropWhile is_blank p of [] \<Rightarrow> ast
      | c # q \<Rightarrow>
          if c = 38 then parse_words q (ast\<lparr>background := True\<rparr>)
          else if is_op c then parse_words q (ast\<lparr>has_pipe := has_pipe ast \<or> c = 124, has_redirect := has_redirect ast \<or> c = 62 \<or> c = 60\<rparr>)
          else parse_words (tl (dropWhile (\<lambda>d. \<not> is_sep d) q)) (ast\<lparr>ast_argv := ast_argv ast @ [c # takeWhile (\<lambda>d. \<not> is_sep d) q]\<rparr>))"
  by pat_completeness auto
termination
proof (relation "measure (\<lambda>(p, ast). length p)", goal_cases)
  case (4 p ast c q)
  then show ?case using length_dropWhile_less [of is_blank p c q] length_dropWhile_le [of "\<lambda>d. \<not> is_sep d" q] by simp
qed (auto dest!: sym [of _ "dropWhile is_blank _"] length_dropWhile_less)

declare parse_words.simps [simp del]

definition shell_parse_line :: "u8 list option \<Rightarrow> int \<times> shell_ast" where
  "shell_parse_line line =
     (let ast0 = \<lparr>ast_argv = [], background = False, has_pipe = False, has_redirect = False\<rparr> in
      case line of None \<Rightarrow> (-1, ast0)
      | Some l \<Rightarrow> let ast = parse_words (safe_copy (Some l) MAX_CMD_LEN) ast0 in (int (length (ast_argv ast)), ast))"

text \<open>The names of up to 100 entries of a directory.\<close>

fun ls_loop :: "nat \<Rightarrow> u32 \<Rightarrow> u8 list \<Rightarrow> vfs \<Rightarrow> u8 list list res" where
  "ls_loop 0 i target v = Inr []"
| "ls_loop (Suc n) i target v =
     rbind (vfs_readdir (Some target) i False v) (\<lambda>(r, name).
       if r \<noteq> 0 then Inr [] else rbind (ls_loop n (i + 1) target v) (\<lambda>ns. Inr (name # ns)))"

definition builtin_ls :: "u8 list option \<Rightarrow> vfs \<Rightarrow> (int \<times> u8 list) res" where
  "builtin_ls path v =
     (let target0 = (case path of None \<Rightarrow> cstr ''/'' | Some p \<Rightarrow> p); target = (if target0 \<noteq> [] \<and> hd target0 = 45 then cstr ''/'' else target0)
      in rbind (ls_loop 100 0 target v) (\<lambda>ns.
           Inr (0, cstr ''listing '' @ target @ [10] @ (if ns = [] then cstr ''  (empty)'' @ [10] else concat (map (\<lambda>n. cstr ''  '' @ n @ [10]) ns)))))"

definition builtin_cd :: "u8 list option \<Rightarrow> int \<times> u8 list" where
  "builtin_cd path = (0, cstr ''cd '' @ (case path of None \<Rightarrow> cstr ''/'' | Some p \<Rightarrow> p) @ cstr '' (accepted by shell context)'' @ [10])"

fun echo_args :: "u8 list list \<Rightarrow> u8 list" where
  "echo_args [] = []"
| "echo_args [w] = w"
| "echo_args (w # ws) = w @ [32] @ echo_args ws"

definition builtin_echo :: "u8 list list \<Rightarrow> int \<times> u8 list" where
  "builtin_echo args = (0, echo_args (tl args) @ [10])"

definition builtin_help :: "int \<times> u8 list" where
  "builtin_help = (0, cstr ''Commands: ls, cd, pwd, echo, help | English: show files in PATH | Arabic: '' @ ar_show @ [32] @ ar_files @ cstr '' PATH'' @ [10])"

definition ast_notes :: "shell_ast \<Rightarrow> u8 list" where
  "ast_notes ast =
     (if has_pipe ast then cstr ''shell: pipe parsed (serial demo executes left command)'' @ [10] else [])
     @ (if has_redirect ast then cstr ''shell: redirection parsed (VFS sink pending)'' @ [10] else [])
     @ (if background ast then cstr ''shell: background job accepted'' @ [10] else [])"

definition execute_ast :: "shell_ast \<Rightarrow> shell \<Rightarrow> vfs \<Rightarrow> (int \<times> u8 list) res" where
  "execute_ast ast s v =
     (case ast_argv ast of [] \<Rightarrow> Inr (0, [])
      | cmd # args \<Rightarrow>
          rbind (if cmd = cstr ''ls'' \<or> cmd = ar_show then builtin_ls (find (\<lambda>w. hd w \<noteq> 45) args) v
                 else if cmd = cstr ''cd'' then Inr (builtin_cd (if args = [] then None else Some (hd args)))
                 else if cmd = cstr ''pwd'' then Inr (0, cwd s @ [10])
                 else if cmd = cstr ''echo'' then Inr (builtin_echo (cmd # args))
                 else if cmd = cstr ''help'' then Inr builtin_help
                 else Inr (sys_exec_app cmd)) (\<lambda>(r, out). Inr (r, ast_notes ast @ out)))"

definition shell_execute_line :: "u8 list \<Rightarrow> shell \<Rightarrow> vfs \<Rightarrow> (int \<times> u8 list \<times> shell) res" where
  "shell_execute_line line s v =
     (let (normalized, l) = normalize_command line MAX_CMD_LEN; s1 = s\<lparr>current_lang := l\<rparr>; (argc, ast) = shell_parse_line (Some normalized)
      in if argc \<le> 0 then Inr (0, [], s1) else rbind (execute_ast ast s1 v) (\<lambda>(r, out). Inr (r, out, s1)))"

text \<open>One turn of the shell's loop on the bytes that arrive.\<close>

definition shell_turn :: "u8 list \<Rightarrow> shell \<Rightarrow> vfs \<Rightarrow> (u8 list \<times> shell \<times> u8 list) res" where
  "shell_turn inp s v =
     rbind (shell_readline (int MAX_CMD_LEN) inp) (\<lambda>(n, cmd, inp1).
       if n \<le> 0 then Inr (ps1 s, s, inp1)
       else rbind (shell_execute_line cmd s v) (\<lambda>(_, out, s1). Inr (ps1 s @ out, s1, inp1)))"

definition shell_init :: "shell \<Rightarrow> shell" where
  "shell_init s = s\<lparr>cwd := safe_copy (Some (cstr ''/'')) MAX_PATH_LEN, ps1 := safe_copy (Some (cstr ''user@madar:/$ '')) 32\<rparr>"

section \<open>Text browser\<close>

text \<open>The places written are below \<open>max_len\<close> inside the loop; the terminator goes to the place after the text.\<close>

fun html_loop :: "nat \<Rightarrow> bool \<Rightarrow> bool \<Rightarrow> u8 list \<Rightarrow> u8 list \<Rightarrow> u8 list" where
  "html_loop m in_tag pending out [] = out"
| "html_loop m in_tag pending out (c # cs) =
     (if \<not> length out + 1 < m then out
      else if c = 60 then html_loop m True True out cs
      else if c = 62 then html_loop m False pending out cs
      else if in_tag then html_loop m in_tag pending out cs
      else let c1 = (if c = 13 \<or> c = 10 \<or> c = 9 then 32 else c);
               out1 = (if pending \<and> out \<noteq> [] \<and> last out \<noteq> 32 then out @ [32] else out)
           in html_loop m in_tag False (out1 @ [c1]) cs)"

definition html_min_extract_text :: "u8 list option \<Rightarrow> nat \<Rightarrow> (int \<times> u8 list) res" where
  "html_min_extract_text html max_len =
     (case html of None \<Rightarrow> Inr (-1, [])
      | Some h \<Rightarrow> if max_len = 0 then Inr (-1, [])
                  else let out = html_loop max_len False False [] h in if length out \<ge> max_len then Inl Fault else Inr (int (length out), out))"

definition parse_url :: "u8 list option \<Rightarrow> nat \<Rightarrow> nat \<Rightarrow> (u8 list \<times> u8 list) option" where
  "parse_url url host_len path_len =
     (case url of None \<Rightarrow> None
      | Some u \<Rightarrow>
          let p = (if starts (cstr ''http://'') u then drop 7 u else u);
              host = take (host_len - 1) (takeWhile (\<lambda>c. c \<noteq> 47) p); rest = drop (length host) p
          in if host = [] then None else Some (host, copy_max path_len (if rest = [] then cstr ''/'' else rest)))"

definition http_body :: "u8 list" where
  "http_body = cstr ''HTTP/1.1 200 OK'' @ [13, 10] @ cstr ''Content-Type: text/html'' @ [13, 10, 13, 10] @
     cstr ''<title>Madar Test</title><p>Layer 7 HTTP client ready.</p><a href='' @ [34, 47, 34] @ cstr ''>home</a>''"

definition app_tcp_http_get :: "u8 list option \<Rightarrow> nat \<Rightarrow> int \<times> u8 list" where
  "app_tcp_http_get host max_len = (if host = None \<or> max_len = 0 then (-1, []) else (0, copy_max max_len http_body))"

definition http_client_get :: "u8 list option \<Rightarrow> nat \<Rightarrow> (int \<times> u8 list) res" where
  "http_client_get url max_len =
     (if max_len = 0 then Inr (-1, [])
      else case parse_url url 96 128 of None \<Rightarrow> Inr (-1, [])
      | Some (host, path) \<Rightarrow>
          let (r, response) = app_tcp_http_get (Some host) 512 in
          if r \<noteq> 0 then Inr (-1, []) else html_min_extract_text (Some response) max_len)"

section \<open>Settings\<close>

definition SETTINGS_MAX :: nat where "SETTINGS_MAX = 8"
definition SETTINGS_KEY :: nat where "SETTINGS_KEY = 32"
definition SETTINGS_VAL :: nat where "SETTINGS_VAL = 64"

record setting =
  st_key :: "u8 list"
  st_value :: "u8 list"

definition setting0 :: setting where "setting0 = \<lparr>st_key = [], st_value = []\<rparr>"

definition valid_key :: "u8 list option \<Rightarrow> bool" where
  "valid_key key = (case key of None \<Rightarrow> False
     | Some k \<Rightarrow> k = cstr ''resolution'' \<or> k = cstr ''dhcp'' \<or> k = cstr ''language'' \<or> k = cstr ''exe'')"

definition settings_set :: "u8 list option \<Rightarrow> u8 list option \<Rightarrow> setting list \<Rightarrow> int \<times> setting list" where
  "settings_set key value s =
     (case (key, value) of
        (Some k, Some v) \<Rightarrow>
          if \<not> valid_key key then (-1, s)
          else (case first_idx (\<lambda>e. st_key e = [] \<or> st_key e = k) s of None \<Rightarrow> (-1, s)
            | Some i \<Rightarrow> (0, s[i := \<lparr>st_key = copy_max SETTINGS_KEY k, st_value = copy_max SETTINGS_VAL v\<rparr>]))
      | _ \<Rightarrow> (-1, s))"

definition settings_get :: "u8 list option \<Rightarrow> nat \<Rightarrow> setting list \<Rightarrow> int \<times> u8 list" where
  "settings_get key n s =
     (case key of None \<Rightarrow> (-1, [])
      | Some k \<Rightarrow> if n = 0 then (-1, [])
                  else case first_idx (\<lambda>e. st_key e = k) s of None \<Rightarrow> (-1, []) | Some i \<Rightarrow> (0, copy_max n (st_value (s ! i))))"

definition app_config_load_defaults :: "setting list \<Rightarrow> int \<times> setting list" where
  "app_config_load_defaults s =
     (0, snd (settings_set (Some (cstr ''exe'')) (Some (cstr ''safe'')) (snd (settings_set (Some (cstr ''language'')) (Some (cstr ''auto''))
        (snd (settings_set (Some (cstr ''dhcp'')) (Some (cstr ''on'')) (snd (settings_set (Some (cstr ''resolution'')) (Some (cstr ''1024x768'')) s))))))))"

definition settings_init :: "setting list \<Rightarrow> int \<times> setting list" where
  "settings_init s = app_config_load_defaults (replicate SETTINGS_MAX setting0)"

definition net_config_set_dhcp :: "bool \<Rightarrow> setting list \<Rightarrow> int \<times> setting list" where
  "net_config_set_dhcp enabled s = settings_set (Some (cstr ''dhcp'')) (Some (if enabled then cstr ''on'' else cstr ''off'')) s"

definition resolution_apply :: "u8 list option \<Rightarrow> setting list \<Rightarrow> int \<times> setting list" where
  "resolution_apply mode s = settings_set (Some (cstr ''resolution'')) (Some (case mode of None \<Rightarrow> cstr ''1024x768'' | Some m \<Rightarrow> m)) s"

definition exe_toggle_safe_mode :: "bool \<Rightarrow> setting list \<Rightarrow> int \<times> setting list" where
  "exe_toggle_safe_mode enabled s = settings_set (Some (cstr ''exe'')) (Some (if enabled then cstr ''safe'' else cstr ''off'')) s"

section \<open>Files, tasks and launcher\<close>

definition fileman_init :: "ramdisk \<Rightarrow> (int \<times> ramdisk) res" where
  "fileman_init s =
     rbind (vfs_mkdir (Some (cstr ''/home'')) (rvfs s)) (\<lambda>(_, v1). rbind (vfs_mkdir (Some (cstr ''/home/guest'')) v1) (\<lambda>(_, v2).
       rbind (ramdisk_create_file (Some (cstr ''/home/guest/readme.txt'')) (Some (cstr ''Welcome to Madar'')) 16 (s\<lparr>rvfs := v2\<rparr>)) (\<lambda>(_, s1). Inr (0, s1))))"

text \<open>The buffer holds 512 bytes; what \<open>vfs_read\<close> does not fill of it is not used.\<close>

definition fileman_copy :: "u8 list option \<Rightarrow> u8 list option \<Rightarrow> vfs \<Rightarrow> (int \<times> vfs) res" where
  "fileman_copy src dst v =
     rbind (vfs_open src VFS_O_RDONLY v) (\<lambda>(fd, v1).
       if fd < 0 then Inr (-1, v1)
       else let (n, buf, v2) = vfs_read fd False 512 v1 in
         rbind (vfs_close fd v2) (\<lambda>(_, v3).
           if n < 0 then Inr (-1, v3) else vfs_create_file dst (Some buf) (word_of_int n) v3))"

definition vfs_browser_list :: "u8 list \<Rightarrow> vfs \<Rightarrow> (int \<times> u8 list) res" where
  "vfs_browser_list path v = rbind (ls_loop 100 0 path v) (\<lambda>ns. Inr (0, concat (map (\<lambda>n. cstr ''  '' @ n @ [10]) ns)))"

definition clipboard_set_path :: "u8 list option \<Rightarrow> u8 list" where
  "clipboard_set_path path = copy_max 128 (case path of None \<Rightarrow> [] | Some p \<Rightarrow> p)"

definition path_bar_format :: "u8 list option \<Rightarrow> nat \<Rightarrow> u8 list option" where
  "path_bar_format path n = (if n = 0 then None else Some (copy_max n (case path of None \<Rightarrow> cstr ''/'' | Some p \<Rightarrow> p)))"

definition kill_handler_request :: "u32 \<Rightarrow> int" where
  "kill_handler_request p = (if p = 0 \<or> p = 1 then -1 else 0)"

definition process_snapshot :: "u8 list" where
  "process_snapshot = cstr ''pid name state'' @ [10] @ cstr ''1 init running'' @ [10] @ cstr ''2 gui_daemon running'' @ [10] @ cstr ''3 shell ready'' @ [10]"

definition process_list_snapshot :: "nat \<Rightarrow> int \<times> u8 list" where
  "process_list_snapshot n = (if n = 0 then (-1, []) else let b = copy_max n process_snapshot in (int (length b), b))"

record launcher =
  recent_apps :: "u8 list list"
  recent_pos :: nat

definition launcher_start :: "u8 list option \<Rightarrow> launcher \<Rightarrow> int \<times> launcher" where
  "launcher_start app_name l =
     (case app_name of None \<Rightarrow> (-1, l)
      | Some a \<Rightarrow> if a = [] then (-1, l)
                  else (0, l\<lparr>recent_apps := (recent_apps l)[recent_pos l := copy_max 32 a], recent_pos := (recent_pos l + 1) mod 5\<rparr>))"

section \<open>Parsing\<close>

definition word_ok :: "u8 list \<Rightarrow> bool" where
  "word_ok w \<longleftrightarrow> w \<noteq> [] \<and> (\<forall>c\<in>set w. \<not> is_sep c)"

lemma parse_word:
  assumes "word_ok w" "length (ast_argv ast) < 31" "rest = [] \<or> is_sep (hd rest)"
  shows "parse_words (w @ rest) ast = parse_words (tl rest) (ast\<lparr>ast_argv := ast_argv ast @ [w]\<rparr>)"
proof -
  obtain c q where w: "w = c # q" using assms(1) by (cases w) (auto simp: word_ok_def)
  have c: "\<not> is_blank c" "c \<noteq> 38" "\<not> is_op c" and q: "\<forall>d\<in>set q. \<not> is_sep d" using assms(1) by (auto simp: word_ok_def w is_sep_def)
  have "takeWhile (\<lambda>d. \<not> is_sep d) (q @ rest) = q" "dropWhile (\<lambda>d. \<not> is_sep d) (q @ rest) = rest"
    using q assms(3) by (cases rest; simp add: takeWhile_append dropWhile_append3)+
  then show ?thesis using c assms(2) by (subst parse_words.simps) (simp add: w MAX_ARGS_def)
qed

lemma parse_words_list:
  "\<forall>w\<in>set ws. word_ok w \<Longrightarrow> length (ast_argv ast) + length ws \<le> 31 \<Longrightarrow> parse_words (echo_args ws) ast = ast\<lparr>ast_argv := ast_argv ast @ ws\<rparr>"
proof (induction ws arbitrary: ast rule: echo_args.induct)
  case 1
  then show ?case by (subst parse_words.simps) simp
next
  case (2 w)
  then show ?case using parse_word [of w ast "[]"] by (simp add: parse_words.simps [of "[]"])
next
  case (3 w v vs)
  then show ?case using parse_word [of w ast "32 # echo_args (v # vs)"] by (simp add: is_sep_def is_blank_def)
qed

lemma echo_line_kept:
  assumes "length (echo_args (cstr ''echo'' # ws)) \<le> 255"
  shows "normalize_command (echo_args (cstr ''echo'' # ws)) 256 = (echo_args (cstr ''echo'' # ws), detect_lang (echo_args (cstr ''echo'' # ws)))"
proof -
  obtain r where r: "echo_args (cstr ''echo'' # ws) = 101 # 99 # 104 # 111 # r" by (cases ws) (simp_all add: cstr_def)
  have "\<not> starts (cstr ''show files'') (101 # 99 # 104 # 111 # r)" "\<not> starts (cstr ''print '') (101 # 99 # 104 # 111 # r)"
    "\<not> starts (ar_show @ [32] @ ar_files) (101 # 99 # 104 # 111 # r)" "\<not> starts (ar_print @ [32]) (101 # 99 # 104 # 111 # r)"
    by (simp_all add: starts_def cstr_def ar_show_def ar_print_def)
  then show ?thesis using assms unfolding r by (simp add: normalize_command_def Let_def safe_copy_def copy_max_def)
qed

text \<open>
  C31. The shell prints what it is told to: a command line with \<open>echo\<close> and up to thirty words, separated by blanks and at most 255 bytes long,
  is split into exactly these words and prints them with single blanks and a line feed, in whichever language the line is taken to be.
\<close>

theorem shell_echo_prints:
  assumes "\<forall>w\<in>set ws. word_ok w" "length ws \<le> 30" "length (echo_args (cstr ''echo'' # ws)) \<le> 255"
  shows "\<exists>l. shell_execute_line (echo_args (cstr ''echo'' # ws)) s v = Inr (0, echo_args ws @ [10], s\<lparr>current_lang := l\<rparr>)"
proof -
  let ?line = "echo_args (cstr ''echo'' # ws)"
  have "word_ok (cstr ''echo'')" by (simp add: word_ok_def cstr_def is_sep_def is_blank_def is_op_def)
  then have "parse_words ?line \<lparr>ast_argv = [], background = False, has_pipe = False, has_redirect = False\<rparr> =
      \<lparr>ast_argv = cstr ''echo'' # ws, background = False, has_pipe = False, has_redirect = False\<rparr>"
    using parse_words_list [of "cstr ''echo'' # ws" "\<lparr>ast_argv = [], background = False, has_pipe = False, has_redirect = False\<rparr>"] assms(1,2) by simp
  then have "shell_parse_line (Some ?line) = (1 + int (length ws), \<lparr>ast_argv = cstr ''echo'' # ws, background = False, has_pipe = False, has_redirect = False\<rparr>)"
    using assms(3) by (simp add: shell_parse_line_def safe_copy_def copy_max_def MAX_CMD_LEN_def Let_def)
  moreover have "cstr ''echo'' \<noteq> cstr ''ls''" "cstr ''echo'' \<noteq> ar_show" "cstr ''echo'' \<noteq> cstr ''cd''" "cstr ''echo'' \<noteq> cstr ''pwd''"
    by (simp_all add: cstr_def ar_show_def)
  ultimately show ?thesis using echo_line_kept [OF assms(3)]
    by (auto simp: shell_execute_line_def MAX_CMD_LEN_def execute_ast_def builtin_echo_def ast_notes_def)
qed

theorem shell_echo_prints_witness:
  "\<exists>l. shell_execute_line (cstr ''echo show files'') \<lparr>cwd = [], ps1 = [], current_lang = LANG_ARABIC\<rparr> vfs1 =
     Inr (0, cstr ''show files'' @ [10], \<lparr>cwd = [], ps1 = [], current_lang = l\<rparr>)"
proof -
  let ?s = "\<lparr>cwd = [], ps1 = [], current_lang = LANG_ARABIC\<rparr>"
  have e: "echo_args [cstr ''echo'', cstr ''show'', cstr ''files''] = cstr ''echo show files''" "echo_args [cstr ''show'', cstr ''files''] = cstr ''show files''"
    by (simp_all add: cstr_def)
  have w: "\<forall>w\<in>set [cstr ''show'', cstr ''files'']. word_ok w" by (simp add: word_ok_def cstr_def is_sep_def is_blank_def is_op_def)
  have len: "length (echo_args [cstr ''echo'', cstr ''show'', cstr ''files'']) \<le> 255" by (simp add: cstr_def)
  have "\<exists>l. shell_execute_line (echo_args [cstr ''echo'', cstr ''show'', cstr ''files'']) ?s vfs1 = Inr (0, echo_args [cstr ''show'', cstr ''files''] @ [10], ?s\<lparr>current_lang := l\<rparr>)"
    by (rule shell_echo_prints [OF w _ len]) simp
  then show ?thesis unfolding e by simp
qed

text \<open>An operator right behind a word is taken for the end of the word: the pipe in \<open>ls|wc\<close> is lost.\<close>

lemma operator_after_word_lost: "snd (shell_parse_line (Some (cstr ''ls|wc''))) = \<lparr>ast_argv = [cstr ''ls'', cstr ''wc''], background = False, has_pipe = False, has_redirect = False\<rparr>"
proof -
  have w: "word_ok (cstr ''ls'')" "word_ok (cstr ''wc'')" by (simp_all add: word_ok_def cstr_def is_sep_def is_blank_def is_op_def)
  have "cstr ''ls|wc'' = cstr ''ls'' @ 124 # cstr ''wc''" by (simp add: cstr_def)
  moreover have "is_sep 124" by (simp add: is_sep_def is_op_def)
  ultimately have "parse_words (cstr ''ls|wc'') ast = ast\<lparr>ast_argv := [cstr ''ls'', cstr ''wc'']\<rparr>" if "ast_argv ast = []" for ast
    using that parse_word [OF w(1), of ast "124 # cstr ''wc''"] parse_word [OF w(2), of "ast\<lparr>ast_argv := [cstr ''ls'']\<rparr>" "[]"] by (simp add: parse_words.simps [of "[]"])
  then show ?thesis by (simp add: shell_parse_line_def safe_copy_def copy_max_def MAX_CMD_LEN_def Let_def cstr_def)
qed

section \<open>Text extraction\<close>

text \<open>The text is never longer than the page, has no markup and no control characters that break lines.\<close>

lemma html_loop_length: "length (html_loop m t p out h) \<le> length out + (if p then 1 else 0) + length h"
proof (induction h arbitrary: t p out)
  case (Cons c h)
  define c1 where "c1 = (if c = 13 \<or> c = 10 \<or> c = 9 then 32 else c)"
  define o1 where "o1 = (if p \<and> out \<noteq> [] \<and> last out \<noteq> 32 then out @ [32] else out)"
  have o1: "length o1 \<le> length out + (if p then 1 else 0)" by (simp add: o1_def)
  have "html_loop m t p out (c # h) = (if \<not> length out + 1 < m then out else if c = 60 then html_loop m True True out h
      else if c = 62 then html_loop m False p out h else if t then html_loop m t p out h else html_loop m t False (o1 @ [c1]) h)"
    by (simp only: html_loop.simps Let_def o1_def c1_def)
  then show ?case using o1 Cons.IH [of True True out] Cons.IH [of False p out] Cons.IH [of t p out] Cons.IH [of t False "o1 @ [c1]"]
    by (cases p) (auto split: if_split)
qed simp

lemma html_loop_clean: "set out \<inter> {60, 62, 13, 10, 9} = {} \<Longrightarrow> set (html_loop m t p out h) \<inter> {60, 62, 13, 10, 9} = {}"
  by (induction m t p out h rule: html_loop.induct) (auto simp: Let_def)

lemma html_small_page:
  assumes "length h < m"
  shows "\<exists>out. html_min_extract_text (Some h) m = Inr (int (length out), out) \<and> length out \<le> length h \<and> set out \<inter> {60, 62, 13, 10, 9} = {}"
  using assms html_loop_length [of m False False "[]" h] html_loop_clean [of "[]" m False False h]
  by (auto simp: html_min_extract_text_def Let_def)

text \<open>
  A blank and a character are written in one turn of the loop, which only made sure that there is room for one: the terminator
  then lies behind the buffer.
\<close>

lemma html_terminator_overflows: "html_min_extract_text (Some (cstr ''a<b>c'')) 3 = Inl Fault"
  by (simp add: html_min_extract_text_def cstr_def)

section \<open>Settings\<close>

lemma settings_set_get:
  assumes "valid_key (Some k)" "\<exists>e\<in>set s. st_key e = [] \<or> st_key e = k"
  shows "fst (settings_set (Some k) (Some v) s) = 0"
    and "0 < n \<Longrightarrow> settings_get (Some k) n (snd (settings_set (Some k) (Some v) s)) = (0, copy_max n (copy_max 64 v))"
proof -
  obtain i where i: "first_idx (\<lambda>e. st_key e = [] \<or> st_key e = k) s = Some i" using assms(2) by (metis (mono_tags, lifting) first_idx_None_iff not_Some_eq)
  have kk: "copy_max 32 k = k" "k \<noteq> []" using assms(1) by (auto simp: valid_key_def copy_max_def cstr_def)
  have st: "settings_set (Some k) (Some v) s = (0, s[i := \<lparr>st_key = k, st_value = copy_max 64 v\<rparr>])"
    using i assms(1) kk by (simp add: settings_set_def SETTINGS_KEY_def SETTINGS_VAL_def)
  then show "fst (settings_set (Some k) (Some v) s) = 0" by simp
  have lt: "i < length s" and before: "\<And>j. j < i \<Longrightarrow> st_key (s ! j) \<noteq> k" using i by (auto simp: first_idx_Some_iff)
  have "first_idx (\<lambda>e. st_key e = k) (s[i := \<lparr>st_key = k, st_value = copy_max 64 v\<rparr>]) = Some i"
    using lt before by (auto simp: first_idx_Some_iff)
  then show "0 < n \<Longrightarrow> settings_get (Some k) n (snd (settings_set (Some k) (Some v) s)) = (0, copy_max n (copy_max 64 v))"
    using lt by (simp add: st settings_get_def)
qed

end
