(* ===== verification/Devices.thy ===== *)
theory Devices
  imports Ata Gfx Acpi
begin

text \<open>
  Interrupt controllers and tables (\<^verbatim>\<open>src/kernel/pic.c\<close>, \<^verbatim>\<open>idt.c\<close>, \<^verbatim>\<open>src/drivers/irq_manager.c\<close>), the PCI bus (\<^verbatim>\<open>pci.c\<close>), the
  network card (\<^verbatim>\<open>rtl8139.c\<close>) and the frame buffer (\<^verbatim>\<open>fb.c\<close>). The hardware is a set of port functions on an arbitrary state, as in the
  disk driver; the ring the card writes to and the memory the boot loader fills are given.
\<close>

record 'd bus_ports = "'d ports" +
  p_inl :: "u16 \<Rightarrow> 'd \<Rightarrow> u32 \<times> 'd"
  p_outl :: "u16 \<Rightarrow> u32 \<Rightarrow> 'd \<Rightarrow> 'd"

section \<open>Interrupt controller\<close>

definition PIC1_COMMAND :: u16 where "PIC1_COMMAND = 0x20"
definition PIC1_DATA :: u16 where "PIC1_DATA = 0x21"
definition PIC2_COMMAND :: u16 where "PIC2_COMMAND = 0xA0"
definition PIC2_DATA :: u16 where "PIC2_DATA = 0xA1"
definition PIC_EOI :: u8 where "PIC_EOI = 0x20"

lemmas pic_ports = PIC1_COMMAND_def PIC1_DATA_def PIC2_COMMAND_def PIC2_DATA_def

definition pic_init :: "'d ports \<Rightarrow> 'd \<Rightarrow> 'd" where
  "pic_init io d = fold (\<lambda>(p, v). p_outb io p v)
     [(PIC1_COMMAND, 0x11), (PIC2_COMMAND, 0x11), (PIC1_DATA, 0x20), (PIC2_DATA, 0x28), (PIC1_DATA, 0x04), (PIC2_DATA, 0x02),
      (PIC1_DATA, 0x01), (PIC2_DATA, 0x01), (PIC1_DATA, 0xFF), (PIC2_DATA, 0xFF)] d"

definition pic_send_eoi :: "'d ports \<Rightarrow> u8 \<Rightarrow> 'd \<Rightarrow> 'd" where
  "pic_send_eoi io irq d = p_outb io PIC1_COMMAND PIC_EOI (if irq \<ge> 8 then p_outb io PIC2_COMMAND PIC_EOI d else d)"

definition pic_port :: "u8 \<Rightarrow> u16" where
  "pic_port irq = (if irq < 8 then PIC1_DATA else PIC2_DATA)"

definition pic_mask_irq :: "'d ports \<Rightarrow> u8 \<Rightarrow> 'd \<Rightarrow> 'd" where
  "pic_mask_irq io irq d = (let (m, d1) = p_inb io (pic_port irq) d in p_outb io (pic_port irq) (m OR push_bit (unat irq mod 8) 1) d1)"

definition pic_unmask_irq :: "'d ports \<Rightarrow> u8 \<Rightarrow> 'd \<Rightarrow> 'd" where
  "pic_unmask_irq io irq d = (let (m, d1) = p_inb io (pic_port irq) d in p_outb io (pic_port irq) (m AND NOT (push_bit (unat irq mod 8) 1)) d1)"

section \<open>Interrupt table\<close>

definition IDT_ENTRIES :: nat where "IDT_ENTRIES = 256"

record idt_entry =
  offset_low :: u16
  selector :: u16
  ist :: u8
  type_attr :: u8
  offset_mid :: u16
  offset_high :: u32
  idt_zero :: u32

record idt_descriptor =
  idt_limit :: u16
  idt_base :: u64

definition idt_set_gate :: "u8 \<Rightarrow> u64 \<Rightarrow> u8 \<Rightarrow> idt_entry list \<Rightarrow> idt_entry list" where
  "idt_set_gate num handler ty idt = idt[unat num := \<lparr>offset_low = ucast (handler AND 0xFFFF), selector = 0x08, ist = 0, type_attr = ty,
     offset_mid = ucast (drop_bit 16 handler AND 0xFFFF), offset_high = ucast (drop_bit 32 handler AND 0xFFFFFFFF), idt_zero = 0\<rparr>]"

text \<open>The table at the address \<open>base\<close>, 16 bytes an entry; the descriptor is what \<open>lidt\<close> loads.\<close>

definition idt_init :: "u64 \<Rightarrow> idt_entry list \<Rightarrow> idt_descriptor \<times> idt_entry list" where
  "idt_init base idt = (\<lparr>idt_limit = of_nat (IDT_ENTRIES * 16 - 1), idt_base = base\<rparr>, fold (\<lambda>i. idt_set_gate (of_nat i) 0 0) [0..<IDT_ENTRIES] idt)"

section \<open>Interrupt handlers\<close>

definition IRQ_KEYBOARD :: u8 where "IRQ_KEYBOARD = 1"
definition IRQ_NETWORK :: u8 where "IRQ_NETWORK = 9"
definition IRQ_MOUSE :: u8 where "IRQ_MOUSE = 12"

text \<open>A handler is a function on the state \<open>'s\<close> of the rest of the system.\<close>

record 's irqs =
  irq_handlers :: "('s \<Rightarrow> 's) option list"
  irq_lock :: spinlock

definition irq_register_handler :: "u8 \<Rightarrow> ('s \<Rightarrow> 's) option \<Rightarrow> 's irqs \<Rightarrow> 's irqs res" where
  "irq_register_handler irq handler t =
     (if irq \<ge> 16 \<or> handler = None then Inr t
      else rbind (spinlock_acquire (irq_lock t)) (\<lambda>l. Inr (t\<lparr>irq_handlers := (irq_handlers t)[unat irq := handler], irq_lock := spinlock_release l\<rparr>)))"

definition irq_unregister_handler :: "u8 \<Rightarrow> 's irqs \<Rightarrow> 's irqs res" where
  "irq_unregister_handler irq t =
     (if irq \<ge> 16 then Inr t
      else rbind (spinlock_acquire (irq_lock t)) (\<lambda>l. Inr (t\<lparr>irq_handlers := (irq_handlers t)[unat irq := None], irq_lock := spinlock_release l\<rparr>)))"

definition irq_manager_init :: "('s \<Rightarrow> 's) \<Rightarrow> ('s \<Rightarrow> 's) \<Rightarrow> 's irqs \<Rightarrow> 's irqs res" where
  "irq_manager_init kbd_handler mouse_handler t =
     rbind (irq_register_handler IRQ_KEYBOARD (Some kbd_handler) (t\<lparr>irq_lock := spinlock_init, irq_handlers := replicate 16 None\<rparr>))
       (irq_register_handler IRQ_MOUSE (Some mouse_handler))"

definition irq_dispatch :: "u8 \<Rightarrow> 's irqs \<Rightarrow> 's \<Rightarrow> 's" where
  "irq_dispatch irq t s = (if irq \<ge> 16 then s else case irq_handlers t ! unat irq of None \<Rightarrow> s | Some h \<Rightarrow> h s)"

section \<open>PCI bus\<close>

definition PCI_CONFIG_ADDRESS :: u16 where "PCI_CONFIG_ADDRESS = 0xCF8"
definition PCI_CONFIG_DATA :: u16 where "PCI_CONFIG_DATA = 0xCFC"
definition PCI_VENDOR_ID :: u16 where "PCI_VENDOR_ID = 0"
definition PCI_CLASS :: u16 where "PCI_CLASS = 0x0A"
definition PCI_BAR0 :: u16 where "PCI_BAR0 = 0x10"

record pci_device =
  pci_bus :: u8
  pci_dev :: u8
  pci_function :: u8
  vendor_id :: u16
  device_id :: u16
  class_id :: u8
  pci_subclass :: u8
  bar0 :: u32
  pci_name :: "u8 list"

definition pci_address :: "u8 \<Rightarrow> u8 \<Rightarrow> u8 \<Rightarrow> u16 \<Rightarrow> u32" where
  "pci_address bus dev fn reg = push_bit 31 1 OR push_bit 16 (ucast bus) OR push_bit 11 (ucast dev) OR push_bit 8 (ucast fn) OR ucast (reg AND NOT 3)"

definition pci_read :: "'d bus_ports \<Rightarrow> u8 \<Rightarrow> u8 \<Rightarrow> u8 \<Rightarrow> u16 \<Rightarrow> 'd \<Rightarrow> u32 \<times> 'd" where
  "pci_read io bus dev fn reg d = p_inl io PCI_CONFIG_DATA (p_outl io PCI_CONFIG_ADDRESS (pci_address bus dev fn reg) d)"

text \<open>The slots still to look at and the devices found so far; the table holds 256 of them. Nothing writes the field \<open>pci_subclass\<close> of
  the zeroed table.\<close>

fun pci_scan :: "'d bus_ports \<Rightarrow> (u8 \<times> u8) list \<Rightarrow> pci_device list \<Rightarrow> 'd \<Rightarrow> pci_device list \<times> 'd" where
  "pci_scan io [] found d = (found, d)"
| "pci_scan io ((bus, dev) # slots) found d =
     (let (vendor_dev, d1) = pci_read io bus dev 0 PCI_VENDOR_ID d; vendor = ucast (vendor_dev AND 0xFFFF) in
      if vendor = (0xFFFF :: u16) then pci_scan io slots found d1
      else let (cls, d2) = pci_read io bus dev 0 PCI_CLASS d1; (bar, d3) = pci_read io bus dev 0 PCI_BAR0 d2;
               found1 = found @ [\<lparr>pci_bus = bus, pci_dev = dev, pci_function = 0, vendor_id = vendor, device_id = ucast (drop_bit 16 vendor_dev AND 0xFFFF),
                 class_id = ucast (drop_bit 16 cls), pci_subclass = 0, bar0 = bar, pci_name = cstr ''Generic Device''\<rparr>]
           in if length found1 \<ge> 256 then (found1, d3) else pci_scan io slots found1 d3)"

definition pci_slots :: "(u8 \<times> u8) list" where
  "pci_slots = concat (map (\<lambda>bus. map (\<lambda>dev. (of_nat bus, of_nat dev)) [0..<32]) [0..<256])"

definition pci_enumerate :: "'d bus_ports \<Rightarrow> 'd \<Rightarrow> pci_device list \<times> 'd" where
  "pci_enumerate io d = pci_scan io pci_slots [] d"

section \<open>Network card\<close>

definition RTL_REG_MAC0 :: u32 where "RTL_REG_MAC0 = 0"
definition RTL_REG_TXSTATUS :: u32 where "RTL_REG_TXSTATUS = 0x10"
definition RTL_REG_TXADDR :: u32 where "RTL_REG_TXADDR = 0x20"
definition RTL_REG_RXBUFADDR :: u32 where "RTL_REG_RXBUFADDR = 0x30"
definition RTL_REG_RXBUFPTR :: u32 where "RTL_REG_RXBUFPTR = 0x38"
definition RTL_REG_RXCONFIG :: u32 where "RTL_REG_RXCONFIG = 0x44"
definition RTL_REG_TXCONFIG :: u32 where "RTL_REG_TXCONFIG = 0x40"
definition RTL_REG_CMD :: u32 where "RTL_REG_CMD = 0x37"
definition RTL_REG_IMASK :: u32 where "RTL_REG_IMASK = 0x3C"
definition RTL_REG_ISTAT :: u32 where "RTL_REG_ISTAT = 0x3E"
definition RTL_CMD_RXENABLE :: u8 where "RTL_CMD_RXENABLE = 0x08"
definition RTL_CMD_TXENABLE :: u8 where "RTL_CMD_TXENABLE = 0x04"
definition RTL_CMD_RESET :: u8 where "RTL_CMD_RESET = 0x10"
definition RTL_RX_BUFFER_SIZE :: nat where "RTL_RX_BUFFER_SIZE = 0x2000"
definition RTL_TX_BUFFER_SIZE :: nat where "RTL_TX_BUFFER_SIZE = 0x2000"
definition RTL_MAX_PACKETS :: u8 where "RTL_MAX_PACKETS = 4"

record rtl8139 =
  rtl_iobase :: u32
  rtl_mem_addr :: u32
  rtl_mac :: "u8 list"
  tx_buffer_index :: u8

record rtl8139_stats =
  packets_sent :: u32
  packets_received :: u32
  tx_errors :: u32
  rx_errors :: u32

record rtl =
  rtl8139_global :: rtl8139
  rtl8139_dev :: rtl8139
  tx_ring :: "u8 list"
  rx_ring :: "u8 list"
  rx_offset :: u32
  rtl_stats :: rtl8139_stats

definition rtl8139_irq_handler :: "'d bus_ports \<Rightarrow> rtl \<Rightarrow> 'd \<Rightarrow> rtl \<times> 'd" where
  "rtl8139_irq_handler io s d =
     (let b = rtl_iobase (rtl8139_global s) in
      if b = 0 then (s, d)
      else let (status, d1) = p_inw io (ucast (b + RTL_REG_ISTAT)) d; d2 = p_outw io (ucast (b + RTL_REG_ISTAT)) status d1;
               up = (\<lambda>c n. if status AND c \<noteq> 0 then n + 1 else n); st = rtl_stats s
           in (s\<lparr>rtl_stats := st\<lparr>packets_received := up 1 (packets_received st), packets_sent := up 4 (packets_sent st), tx_errors := up 0x10 (tx_errors st),
                 rx_errors := up 0x20 (rx_errors st)\<rparr>\<rparr>, d2))"

fun rtl_wait_reset :: "'d bus_ports \<Rightarrow> u16 \<Rightarrow> nat \<Rightarrow> 'd \<Rightarrow> 'd" where
  "rtl_wait_reset io port 0 d = d"
| "rtl_wait_reset io port (Suc n) d = (let (v, d1) = p_inb io port d in if v AND RTL_CMD_RESET = 0 then d1 else rtl_wait_reset io port n d1)"

fun rtl_read_mac :: "'d bus_ports \<Rightarrow> u32 \<Rightarrow> nat list \<Rightarrow> 'd \<Rightarrow> u8 list \<times> 'd" where
  "rtl_read_mac io b [] d = ([], d)"
| "rtl_read_mac io b (i # is) d =
     (let (v, d1) = p_inb io (ucast (b + RTL_REG_MAC0 + of_nat i)) d; (vs, d2) = rtl_read_mac io b is d1 in (v # vs, d2))"

text \<open>\<open>rx_phys\<close> and \<open>tx_phys\<close> are the addresses of the two rings; the table of handlers is one on the driver's and the card's state.\<close>

definition rtl8139_init :: "'d bus_ports \<Rightarrow> u32 \<Rightarrow> u32 \<Rightarrow> u32 \<Rightarrow> (rtl \<times> 'd) irqs \<Rightarrow> rtl \<Rightarrow> 'd \<Rightarrow> ((rtl \<times> 'd) irqs \<times> rtl \<times> 'd) res" where
  "rtl8139_init io rx_phys iobase mem_addr irqs s d =
     (let port = (\<lambda>r. ucast (iobase + r) :: u16);
          d1 = rtl_wait_reset io (port RTL_REG_CMD) 1000 (p_outb io (port RTL_REG_CMD) RTL_CMD_RESET d);
          (mac, d2) = rtl_read_mac io iobase [0..<6] d1;
          d3 = p_outl io (port RTL_REG_RXBUFADDR) rx_phys (p_outb io (port 0x52) 0 d2);
          d4 = p_outb io (port RTL_REG_CMD) (RTL_CMD_RXENABLE OR RTL_CMD_TXENABLE) (p_outl io (port RTL_REG_RXCONFIG) 0x00000F00 d3);
          d5 = p_outw io (port RTL_REG_IMASK) 0x0035 (p_outl io (port RTL_REG_TXCONFIG) 0x03000000 d4);
          g = \<lparr>rtl_iobase = iobase, rtl_mem_addr = mem_addr, rtl_mac = mac, tx_buffer_index = 0\<rparr>
      in rbind (irq_register_handler IRQ_NETWORK (Some (\<lambda>(s', d'). rtl8139_irq_handler io s' d')) irqs) (\<lambda>irqs1.
           Inr (irqs1, s\<lparr>rtl8139_global := g, rtl8139_dev := g, rx_offset := 0, rx_ring := replicate (RTL_RX_BUFFER_SIZE + 16) 0\<rparr>, d5)))"

definition rtl8139_send_packet :: "'d bus_ports \<Rightarrow> u32 \<Rightarrow> u8 list option \<Rightarrow> u16 \<Rightarrow> rtl \<Rightarrow> 'd \<Rightarrow> (rtl \<times> 'd) res" where
  "rtl8139_send_packet io tx_phys data length0 s d =
     (let g = rtl8139_global s; b = rtl_iobase g in
      case data of None \<Rightarrow> Inr (s, d)
      | Some bytes \<Rightarrow>
          if length0 = 0 \<or> b = 0 then Inr (s, d)
          else let len = (if unat length0 > RTL_TX_BUFFER_SIZE then of_nat RTL_TX_BUFFER_SIZE else length0);
                   off = ucast (tx_buffer_index g) * 4 :: u32 in
            rbind (memcpy (tx_ring s) bytes (unat len)) (\<lambda>ring.
              let d1 = p_outl io (ucast (b + RTL_REG_TXADDR + off)) tx_phys d;
                  status = (ucast len AND 0x00001FFF) OR 0x00100000;
                  d2 = p_outl io (ucast (b + RTL_REG_TXSTATUS + off)) status d1
              in Inr (s\<lparr>tx_ring := ring, rtl8139_global := g\<lparr>tx_buffer_index := (tx_buffer_index g + 1) mod RTL_MAX_PACKETS\<rparr>,
                   rtl_stats := (rtl_stats s)\<lparr>packets_sent := packets_sent (rtl_stats s) + 1\<rparr>\<rparr>, d2)))"

text \<open>\<open>dst\<close> says that there is a buffer; the bytes copied there are part of the result.\<close>

definition rtl8139_recv_packet :: "'d bus_ports \<Rightarrow> bool \<Rightarrow> u16 \<Rightarrow> rtl \<Rightarrow> 'd \<Rightarrow> (u16 \<times> u8 list \<times> rtl \<times> 'd) res" where
  "rtl8139_recv_packet io dst max_length s d =
     (let b = rtl_iobase (rtl8139_global s); off = unat (rx_offset s); st = rtl_stats s in
      if \<not> dst \<or> b = 0 \<or> max_length = 0 then Inr (0, [], s, d)
      else if off + 4 > length (rx_ring s) then Inl Fault
      else if rd16 (rx_ring s) off AND 1 = 0 then Inr (0, [], s\<lparr>rx_offset := 0\<rparr>, d)
      else let len = (rd16 (rx_ring s) (off + 2) AND 0x3FFF) - 4 in
        if len > max_length \<or> unat len > RTL_RX_BUFFER_SIZE
        then Inr (0, [], s\<lparr>rtl_stats := st\<lparr>rx_errors := rx_errors st + 1\<rparr>, rx_offset := 0\<rparr>, p_outw io (ucast (b + RTL_REG_RXBUFPTR)) 0 d)
        else if off + 4 + unat len > length (rx_ring s) then Inl Fault
        else let off1 = (rx_offset s + ucast len + 4 + 3) AND NOT 3; off2 = (if unat off1 \<ge> RTL_RX_BUFFER_SIZE then 0 else off1)
             in Inr (len, take (unat len) (drop (off + 4) (rx_ring s)),
                  s\<lparr>rx_offset := off2, rtl_stats := st\<lparr>packets_received := packets_received st + 1\<rparr>\<rparr>, p_outw io (ucast (b + RTL_REG_RXBUFPTR)) (ucast off2) d))"

definition rtl8139_get_mac :: "rtl \<Rightarrow> u8 list" where "rtl8139_get_mac s = rtl_mac (rtl8139_global s)"
definition rtl8139_get_stats :: "rtl \<Rightarrow> rtl8139_stats \<times> u32" where "rtl8139_get_stats s = (rtl_stats s, ucast (tx_buffer_index (rtl8139_global s)))"

section \<open>Frame buffer\<close>

definition RES_1024x768 :: u32 where "RES_1024x768 = 2"
definition MULTIBOOT_TAG_TYPE_END :: u32 where "MULTIBOOT_TAG_TYPE_END = 0"
definition MULTIBOOT_TAG_TYPE_FRAMEBUFFER :: u32 where "MULTIBOOT_TAG_TYPE_FRAMEBUFFER = 8"

text \<open>The pixels are those from the base address on; the channel layout of the structure is never read or written.\<close>

record framebuffer = fb +
  resolution_id :: u32

definition resolution_table :: "(u32 \<times> u32) list" where
  "resolution_table = [(640, 480), (800, 600), (1024, 768), (1280, 1024), (1920, 1080)]"

definition fb_init :: "framebuffer \<Rightarrow> framebuffer" where
  "fb_init b = b\<lparr>fb_base := 0xB8000, fb_width := 80, fb_height := 25, fb_pitch := 160, fb_bpp := 16, fb_initialized := True, resolution_id := RES_1024x768\<rparr>"

text \<open>The search for the frame buffer's tag in the boot information: \<open>Some None\<close> when there is none.\<close>

partial_function (option) fb_find_tag :: "mem \<Rightarrow> nat \<Rightarrow> nat \<Rightarrow> nat option option" where
  "fb_find_tag mem p e =
     (if p + 8 \<le> e then
        (let ty = mrd32 mem p; sz = mrd32 mem (p + 4) in
         if ty = MULTIBOOT_TAG_TYPE_END then Some None
         else if ty = MULTIBOOT_TAG_TYPE_FRAMEBUFFER \<and> sz \<ge> 32 then Some (Some p)
         else if sz < 8 then Some None
         else fb_find_tag mem (p + unat ((sz + 7) AND NOT 7)) e)
      else Some None)"

definition fb_from_tag :: "mem \<Rightarrow> nat \<Rightarrow> framebuffer \<Rightarrow> int \<times> framebuffer" where
  "fb_from_tag mem a b =
     (let ok = (mem (a + 29) = 1 \<and> mem (a + 28) = 32); w = mrd32 mem (a + 20); h = mrd32 mem (a + 24);
          b1 = b\<lparr>fb_base := mrd64 mem (a + 8), fb_pitch := mrd32 mem (a + 16), fb_width := w, fb_height := h, fb_bpp := ucast (mem (a + 28)),
            fb_initialized := ok, resolution_id := (case first_idx (\<lambda>r. r = (w, h)) resolution_table of Some i \<Rightarrow> of_nat i | None \<Rightarrow> RES_1024x768)\<rparr>
      in if \<not> ok then (-1, b1\<lparr>fb_initialized := (fb_base b1 \<noteq> 0 \<and> w > 0 \<and> h > 0)\<rparr>) else (0, b1))"

definition fb_init_from_multiboot :: "mem \<Rightarrow> nat \<Rightarrow> framebuffer \<Rightarrow> (int \<times> framebuffer) option" where
  "fb_init_from_multiboot mem ptr b =
     (if ptr = 0 then Some (-1, b)
      else case fb_find_tag mem (ptr + 8) (ptr + unat (mrd32 mem ptr)) of None \<Rightarrow> None
      | Some None \<Rightarrow> Some (-1, b)
      | Some (Some a) \<Rightarrow> Some (fb_from_tag mem a b))"

definition fb_try_resolution :: "u32 \<Rightarrow> u32 \<Rightarrow> u32 \<Rightarrow> framebuffer \<Rightarrow> int \<times> framebuffer" where
  "fb_try_resolution width height bpp b =
     (if fb_base b = 0 then (-1, b)
      else if width > 0 \<and> height > 0 \<and> width \<le> 4096 \<and> height \<le> 4096
      then (0, b\<lparr>fb_width := width, fb_height := height, fb_bpp := bpp, fb_pitch := width * (bpp div 8), fb_initialized := True\<rparr>)
      else (-1, b))"

definition fb_set_resolution :: "u32 \<Rightarrow> framebuffer \<Rightarrow> int \<times> framebuffer" where
  "fb_set_resolution res_id b =
     (if unat res_id \<ge> length resolution_table then (-1, b)
      else fb_try_resolution (fst (resolution_table ! unat res_id)) (snd (resolution_table ! unat res_id)) 32 b)"

definition fb_put_pixel :: "int \<Rightarrow> int \<Rightarrow> u32 \<Rightarrow> framebuffer \<Rightarrow> framebuffer" where
  "fb_put_pixel x y color b =
     (if \<not> fb_initialized b then b
      else if x < 0 \<or> y < 0 \<or> x \<ge> sint (fb_width b) \<or> y \<ge> sint (fb_height b) then b
      else let offset = (word_of_int y * fb_pitch b + word_of_int x * (fb_bpp b div 8)) div 4
           in b\<lparr>fb_pixels := (fb_pixels b)(unat offset := color)\<rparr>)"

definition fb_clear :: "u32 \<Rightarrow> framebuffer \<Rightarrow> framebuffer" where
  "fb_clear color b =
     (if \<not> fb_initialized b then b
      else b\<lparr>fb_pixels := (\<lambda>i. if i < unat (fb_width b * fb_height b) then color else fb_pixels b i)\<rparr>)"

definition fb_draw_rect :: "int \<Rightarrow> int \<Rightarrow> int \<Rightarrow> int \<Rightarrow> u32 \<Rightarrow> framebuffer \<Rightarrow> framebuffer" where
  "fb_draw_rect x y width height color b =
     (if \<not> fb_initialized b then b
      else let b1 = fold (\<lambda>i c. let c1 = fb_put_pixel (x + i) y color c in
                 if y + height - 1 \<ge> 0 \<and> y + height - 1 < sint (fb_height c1) then fb_put_pixel (x + i) (y + height - 1) color c1 else c1) [0..width - 1] b
           in fold (\<lambda>i c. let c1 = fb_put_pixel x (y + i) color c in
                 if x + width - 1 \<ge> 0 \<and> x + width - 1 < sint (fb_width c1) then fb_put_pixel (x + width - 1) (y + i) color c1 else c1) [0..height - 1] b1)"

definition fb_draw_filled_rect :: "int \<Rightarrow> int \<Rightarrow> int \<Rightarrow> int \<Rightarrow> u32 \<Rightarrow> framebuffer \<Rightarrow> framebuffer" where
  "fb_draw_filled_rect x y width height color b =
     (if \<not> fb_initialized b then b
      else fold (\<lambda>row. fold (\<lambda>col c.
        if x + col \<ge> 0 \<and> x + col < sint (fb_width c) \<and> y + row \<ge> 0 \<and> y + row < sint (fb_height c) then fb_put_pixel (x + col) (y + row) color c else c)
        [0..width - 1]) [0..height - 1] b)"

section \<open>Interrupts reach their handlers\<close>

text \<open>The three parts of a gate are the handler's address.\<close>

definition gate_address :: "idt_entry \<Rightarrow> u64" where
  "gate_address e = push_bit 32 (ucast (offset_high e)) OR push_bit 16 (ucast (offset_mid e)) OR ucast (offset_low e)"

lemma idt_gate_address:
  assumes "length idt = IDT_ENTRIES"
  shows "gate_address (idt_set_gate num handler ty idt ! unat num) = handler"
proof -
  have "unat num < length idt" using assms unsigned_less [where ?'a = nat, of num] by (simp add: IDT_ENTRIES_def)
  moreover have "push_bit 32 (ucast (ucast (drop_bit 32 handler AND 0xFFFFFFFF) :: u32) :: u64) OR push_bit 16 (ucast (ucast (drop_bit 16 handler AND 0xFFFF) :: u16))
      OR ucast (ucast (handler AND 0xFFFF) :: u16) = handler"
  proof -
    have m: "0xFFFFFFFF = (mask 32 :: u64)" "0xFFFF = (mask 16 :: u64)" by (simp_all add: mask_eq_exp_minus_1)
    show ?thesis unfolding m
    proof (rule bit_word_eqI)
      fix n :: nat
      assume "n < LENGTH(64)"
      then consider "n < 16" | "16 \<le> n" "n < 32" | "32 \<le> n" "n < 64" by force
      then show "bit (push_bit 32 (ucast (ucast (drop_bit 32 handler AND mask 32) :: u32) :: u64) OR push_bit 16 (ucast (ucast (drop_bit 16 handler AND mask 16) :: u16))
          OR ucast (ucast (handler AND mask 16) :: u16)) n = bit handler n"
        by cases (auto simp: bit_simps)
    qed
  qed
  ultimately show ?thesis by (simp add: gate_address_def idt_set_gate_def)
qed

lemma idt_other_gate: "i \<noteq> unat num \<Longrightarrow> idt_set_gate num handler ty idt ! i = idt ! i"
  by (simp add: idt_set_gate_def)

text \<open>A data port of the controller holds the mask; masking and unmasking change one bit.\<close>

definition mask_register :: "'d ports \<Rightarrow> u16 \<Rightarrow> bool" where
  "mask_register io p \<longleftrightarrow> (\<forall>d v. fst (p_inb io p (p_outb io p v d)) = v)"

lemma pic_masked:
  assumes "mask_register io (pic_port irq)" "i < 8"
  shows "bit (fst (p_inb io (pic_port irq) (pic_mask_irq io irq d))) i \<longleftrightarrow> i = unat irq mod 8 \<or> bit (fst (p_inb io (pic_port irq) d)) i"
    and "bit (fst (p_inb io (pic_port irq) (pic_unmask_irq io irq d))) i \<longleftrightarrow> i \<noteq> unat irq mod 8 \<and> bit (fst (p_inb io (pic_port irq) d)) i"
  using assms by (auto simp: pic_mask_irq_def pic_unmask_irq_def mask_register_def bit_simps split: prod.split)

text \<open>An interrupt runs the handler registered last for it, and no other registration matters.\<close>

lemma irq_handler_runs:
  assumes "irq < 16" "length (irq_handlers t) = 16" "irq_register_handler irq (Some h) t = Inr t'"
  shows "irq_dispatch irq t' s = h s" and "other \<noteq> irq \<Longrightarrow> irq_dispatch other t' s = irq_dispatch other t s"
proof -
  have "unat irq < 16" using assms(1) by (simp add: word_less_nat_alt)
  then show "irq_dispatch irq t' s = h s" using assms
    by (auto simp: irq_register_handler_def irq_dispatch_def not_le [symmetric] rbind_def split: sum.splits)
  show "irq_dispatch other t' s = irq_dispatch other t s" if "other \<noteq> irq" using assms that word_unat_eq_iff [of other irq]
    by (auto simp: irq_register_handler_def irq_dispatch_def not_le [symmetric] rbind_def split: sum.splits)
qed

section \<open>Devices on the bus\<close>

text \<open>What the bus promises: the data port shows the register of the configuration space \<open>cfg\<close> whose address was written last.\<close>

definition pci_config :: "'d bus_ports \<Rightarrow> (u32 \<Rightarrow> u32) \<Rightarrow> bool" where
  "pci_config io cfg \<longleftrightarrow> (\<forall>a d. fst (p_inl io PCI_CONFIG_DATA (p_outl io PCI_CONFIG_ADDRESS a d)) = cfg a)"

text \<open>The register \<open>r\<close> of the first function of a slot; a slot without device answers with the vendor 0xFFFF.\<close>

definition slot_reg :: "(u32 \<Rightarrow> u32) \<Rightarrow> u8 \<times> u8 \<Rightarrow> u32 \<Rightarrow> u32" where
  "slot_reg cfg = (\<lambda>(bus, dev) r. cfg (0x80000000 + ucast bus * 0x10000 + ucast dev * 0x800 + r))"

definition pci_present :: "(u32 \<Rightarrow> u32) \<Rightarrow> u8 \<times> u8 \<Rightarrow> bool" where
  "pci_present cfg sl \<longleftrightarrow> (ucast (slot_reg cfg sl 0) :: u16) \<noteq> 0xFFFF"

definition pci_describe :: "(u32 \<Rightarrow> u32) \<Rightarrow> u8 \<times> u8 \<Rightarrow> pci_device" where
  "pci_describe cfg sl = \<lparr>pci_bus = fst sl, pci_dev = snd sl, pci_function = 0, vendor_id = ucast (slot_reg cfg sl 0),
     device_id = ucast (drop_bit 16 (slot_reg cfg sl 0)), class_id = ucast (drop_bit 16 (slot_reg cfg sl 8)), pci_subclass = 0, bar0 = slot_reg cfg sl 16,
     pci_name = cstr ''Generic Device''\<rparr>"

lemma bit_bounded:
  fixes w :: "'a :: len word"
  assumes "unat w < 2 ^ k" "bit w n"
  shows "n < k"
proof (rule ccontr)
  assume "\<not> n < k"
  then have "unat w < 2 ^ n" using assms(1) by (meson leI less_le_trans one_le_numeral power_increasing)
  moreover have "bit (unat w) n" using assms(2) by (simp add: bit_unsigned_iff)
  ultimately show False by (simp add: bit_iff_odd [of "unat w"])
qed

lemma pci_address_fields:
  assumes "unat dev < 32" "unat (reg AND NOT 3) < 256"
  shows "pci_address bus dev 0 reg = 0x80000000 + ucast bus * 0x10000 + ucast dev * 0x800 + ucast (reg AND NOT 3)"
proof -
  define r where "r = reg AND NOT 3"
  have bits: "\<And>n. bit bus n \<Longrightarrow> n < 8" "\<And>n. bit dev n \<Longrightarrow> n < 5" "\<And>n. bit r n \<Longrightarrow> n < 8"
    using bit_bounded [of bus 8] bit_bounded [of dev 5] bit_bounded [of r 8] assms unsigned_less [where ?'a = nat, of bus] by (auto simp: r_def)
  define top :: u32 where "top = push_bit 31 1"
  have top: "bit top n \<longleftrightarrow> n = 31" for n unfolding top_def by (simp only: bit_push_bit_iff bit_1_iff) (auto simp: not_le)
  have p: "0x80000000 = top" "\<And>x. x * 0x10000 = push_bit 16 (x :: u32)" "\<And>x. x * 0x800 = push_bit 11 (x :: u32)"
    by (simp_all add: push_bit_eq_mult mult.commute top_def)
  have "top + push_bit 16 (ucast bus) = top OR push_bit 16 (ucast bus)"
    by (rule disjunctive_add_eq_or) (rule bit_eqI, auto simp: bit_simps top dest!: bits)
  moreover have "(top OR push_bit 16 (ucast bus)) + push_bit 11 (ucast dev) = top OR push_bit 16 (ucast bus) OR push_bit 11 (ucast dev)"
    by (subst disjunctive_add_eq_or) (rule bit_eqI, auto simp: bit_simps top or.assoc dest!: bits)
  moreover have "(top OR push_bit 16 (ucast bus) OR push_bit 11 (ucast dev)) + ucast r = top OR push_bit 16 (ucast bus) OR push_bit 11 (ucast dev) OR ucast r"
    by (subst disjunctive_add_eq_or) (rule bit_eqI, auto simp: bit_simps top or.assoc dest!: bits)
  ultimately show ?thesis unfolding p by (simp add: pci_address_def r_def top_def)
qed

lemma pci_read_reg:
  assumes "pci_config io cfg" "unat dev < 32"
  shows "fst (pci_read io bus dev 0 PCI_VENDOR_ID d) = slot_reg cfg (bus, dev) 0" "fst (pci_read io bus dev 0 PCI_CLASS d) = slot_reg cfg (bus, dev) 8"
    "fst (pci_read io bus dev 0 PCI_BAR0 d) = slot_reg cfg (bus, dev) 16"
  using assms by (simp_all add: pci_read_def pci_config_def pci_address_fields slot_reg_def PCI_VENDOR_ID_def PCI_CLASS_def PCI_BAR0_def)

lemma pci_scan_found:
  assumes "pci_config io cfg" "\<forall>sl\<in>set slots. unat (snd sl) < 32" "length found < 256"
  shows "fst (pci_scan io slots found d) = take 256 (found @ map (pci_describe cfg) (filter (pci_present cfg) slots))"
  using assms(2,3)
proof (induction slots arbitrary: found d)
  case (Cons sl slots)
  obtain bus dev where sl: "sl = (bus, dev)" by (cases sl)
  have dev: "unat dev < 32" using Cons.prems(1) sl by simp
  have m: "ucast (x AND 0xFFFF) = (ucast x :: u16)" for x :: u32
  proof -
    have m16: "0xFFFF = (mask 16 :: u32)" by (simp add: mask_eq_exp_minus_1)
    show ?thesis unfolding m16 by (auto intro!: bit_word_eqI simp: bit_simps)
  qed
  obtain d1 where r1: "pci_read io bus dev 0 PCI_VENDOR_ID d = (slot_reg cfg sl 0, d1)" using pci_read_reg(1) [OF assms(1) dev, of bus d] sl by (metis prod.collapse)
  obtain d2 where r2: "pci_read io bus dev 0 PCI_CLASS d1 = (slot_reg cfg sl 8, d2)" using pci_read_reg(2) [OF assms(1) dev, of bus d1] sl by (metis prod.collapse)
  obtain d3 where r3: "pci_read io bus dev 0 PCI_BAR0 d2 = (slot_reg cfg sl 16, d3)" using pci_read_reg(3) [OF assms(1) dev, of bus d2] sl by (metis prod.collapse)
  have step: "pci_scan io (sl # slots) found d =
      (if pci_present cfg sl then if length found + 1 \<ge> 256 then (found @ [pci_describe cfg sl], d3) else pci_scan io slots (found @ [pci_describe cfg sl]) d3
       else pci_scan io slots found d1)"
    by (simp add: sl r1 [unfolded sl] r2 [unfolded sl] r3 [unfolded sl] m Let_def pci_present_def pci_describe_def)
  have rest: "\<forall>sl\<in>set slots. unat (snd sl) < 32" using Cons.prems(1) by simp
  show ?case
  proof (cases "length found + 1 \<ge> 256")
    case True
    then have "length found = 255" using Cons.prems(2) by simp
    then show ?thesis using Cons.IH [OF rest, of found d1] Cons.prems(2) unfolding step by auto
  next
    case False
    then show ?thesis using Cons.IH [OF rest, of found d1] Cons.IH [OF rest, of "found @ [pci_describe cfg sl]" d3] Cons.prems(2) unfolding step by auto
  qed
qed simp

lemma pci_slots_bus_device: "sl \<in> set pci_slots \<Longrightarrow> unat (snd sl) < 32"
  by (auto simp: pci_slots_def unat_of_nat)

lemma of_nat_u8_inj: "inj_on (of_nat :: nat \<Rightarrow> u8) {0..<256}"
  by (rule inj_onI) (simp add: of_nat_eq_iff word_unat_eq_iff unat_of_nat)

lemma pci_slots_product: "pci_slots = map (map_prod of_nat of_nat) (List.product [0..<256] [0..<32])"
  by (simp add: pci_slots_def product_concat_map map_concat comp_def)

lemma pci_slots_distinct: "distinct pci_slots"
proof -
  have "inj_on (map_prod of_nat of_nat :: nat \<times> nat \<Rightarrow> u8 \<times> u8) ({0..<256} \<times> {0..<32})"
    using map_prod_inj_on [OF of_nat_u8_inj inj_on_subset [OF of_nat_u8_inj]] by auto
  then show ?thesis by (simp add: pci_slots_product distinct_map distinct_product)
qed

text \<open>
  C30. The scan of the bus finds exactly the devices that are there: whatever the configuration space holds, the table lists the slots
  whose vendor is not 0xFFFF, in the order of bus and slot and each of them once, up to the 256 entries of the table, with the identification
  and base address their registers show.
\<close>

theorem pci_enumerate_finds:
  assumes "pci_config io cfg"
  shows "fst (pci_enumerate io d) = take 256 (map (pci_describe cfg) (filter (pci_present cfg) pci_slots))
    \<and> distinct (map (\<lambda>p. (pci_bus p, pci_dev p)) (fst (pci_enumerate io d)))"
proof -
  have "fst (pci_enumerate io d) = take 256 (map (pci_describe cfg) (filter (pci_present cfg) pci_slots))"
    using pci_scan_found [OF assms, of pci_slots "[]" d] pci_slots_bus_device by (simp add: pci_enumerate_def)
  moreover have "map (\<lambda>p. (pci_bus p, pci_dev p)) (map (pci_describe cfg) sls) = sls" for sls
    by (induction sls) (simp_all add: pci_describe_def)
  ultimately show ?thesis using pci_slots_distinct by (simp add: take_map distinct_take del: map_map)
qed

text \<open>A bus with one network card in slot 3.\<close>

definition cfg1 :: "u32 \<Rightarrow> u32" where
  "cfg1 a = (if a = 0x80001800 then 0x813910EC else if a = 0x80001808 then 0x02000010 else if a = 0x80001810 then 0xC001 else 0xFFFFFFFF)"

definition bus1 :: "u32 bus_ports" where
  "bus1 = \<lparr>p_inb = \<lambda>p d. (0, d), p_inw = \<lambda>p d. (0, d), p_outb = \<lambda>p v d. d, p_outw = \<lambda>p v d. d,
     p_inl = \<lambda>p d. (cfg1 d, d), p_outl = \<lambda>p v d. v\<rparr>"

lemma slot_arith: "b * 65536 + d * 2048 = 6144 + r \<longleftrightarrow> b = 0 \<and> d = 3 \<and> r = 0" if "r < 2048" for b d r :: nat
proof
  assume e: "b * 65536 + d * 2048 = 6144 + r"
  then have "b < 1" using that by linarith
  then have "d < 4" "2 < d" using e that by linarith+
  then show "b = 0 \<and> d = 3 \<and> r = 0" using e \<open>b < 1\<close> by simp
qed simp

lemma cfg1_slot:
  fixes bus dev :: u8 and r :: u32
  assumes "unat dev < 32" "unat r < 2048"
  shows "0x80000000 + ucast bus * 0x10000 + ucast dev * 0x800 = 0x80001800 + r \<longleftrightarrow> bus = 0 \<and> dev = 3 \<and> r = 0"
proof -
  have b: "unat bus < 256" using unsigned_less [where ?'a = nat, of bus] by simp
  have "0x80000000 + ucast bus * 0x10000 + ucast dev * 0x800 = 0x80001800 + r \<longleftrightarrow>
      unat (0x80000000 + ucast bus * 0x10000 + ucast dev * 0x800 :: u32) = unat (0x80001800 + r)" by (simp add: word_unat_eq_iff)
  also have "unat (0x80000000 + ucast bus * 0x10000 + ucast dev * 0x800 :: u32) = 0x80000000 + unat bus * 0x10000 + unat dev * 0x800"
    using b assms(1) by (simp add: unat_word_ariths unsigned_ucast_eq take_bit_nat_eq_self)
  also have "unat (0x80001800 + r) = 0x80001800 + unat r" using assms(2) by (simp add: unat_word_ariths)
  also have "0x80000000 + unat bus * 0x10000 + unat dev * 0x800 = 0x80001800 + unat r \<longleftrightarrow> unat bus = 0 \<and> unat dev = 3 \<and> unat r = 0"
    using assms(2) slot_arith [of "unat r" "unat bus" "unat dev"] by simp
  also have "\<dots> \<longleftrightarrow> bus = 0 \<and> dev = 3 \<and> r = 0" by (simp add: word_unat_eq_iff)
  finally show ?thesis .
qed

lemma cfg1_present: "sl \<in> set pci_slots \<Longrightarrow> pci_present cfg1 sl \<longleftrightarrow> sl = (0, 3)"
  using pci_slots_bus_device [of sl] cfg1_slot [of "snd sl" 0 "fst sl"] cfg1_slot [of "snd sl" 8 "fst sl"] cfg1_slot [of "snd sl" 16 "fst sl"]
  by (cases sl) (auto simp: pci_present_def slot_reg_def cfg1_def)

lemma filter_single: "distinct xs \<Longrightarrow> a \<in> set xs \<Longrightarrow> filter (\<lambda>x. x = a) xs = [a]"
  by (induction xs) (auto simp: filter_empty_conv)

theorem pci_enumerate_finds_witness:
  "pci_config bus1 cfg1 \<and> fst (pci_enumerate bus1 0) = [\<lparr>pci_bus = 0, pci_dev = 3, pci_function = 0, vendor_id = 0x10EC, device_id = 0x8139, class_id = 0,
     pci_subclass = 0, bar0 = 0xC001, pci_name = cstr ''Generic Device''\<rparr>]"
proof -
  have c: "pci_config bus1 cfg1" by (simp add: pci_config_def bus1_def)
  have "(0, 3) \<in> set pci_slots" by (auto simp: pci_slots_product intro!: image_eqI [of _ _ "(0, 3)"])
  then have "filter (pci_present cfg1) pci_slots = [(0, 3)]"
    using filter_single [OF pci_slots_distinct, of "(0, 3)"] cfg1_present by (simp cong: filter_cong)
  then show ?thesis using c pci_enumerate_finds [OF c, of 0] by (simp add: pci_describe_def slot_reg_def cfg1_def)
qed

section \<open>Packets and boot information\<close>

text \<open>
  A received packet is the bytes between the header and the checksum. The next packet is looked for behind the data and not
  behind the checksum, which the card stores too: the offset is four bytes short.
\<close>

lemma rtl_packet_received:
  assumes "rtl_iobase (rtl8139_global s) \<noteq> 0" "unat (rx_offset s) + 4 + length bytes < RTL_RX_BUFFER_SIZE" "length (rx_ring s) = RTL_RX_BUFFER_SIZE + 16"
    and "rd16 (rx_ring s) (unat (rx_offset s)) AND 1 \<noteq> 0" "rd16 (rx_ring s) (unat (rx_offset s) + 2) AND 0x3FFF = of_nat (length bytes) + 4"
    and "take (length bytes) (drop (unat (rx_offset s) + 4) (rx_ring s)) = bytes" "length bytes \<le> unat max_length" "max_length \<noteq> 0"
  shows "\<exists>s' d'. rtl8139_recv_packet io True max_length s d = Inr (of_nat (length bytes), bytes, s', d')
    \<and> packets_received (rtl_stats s') = packets_received (rtl_stats s) + 1"
proof -
  have l: "unat (of_nat (length bytes) :: u16) = length bytes" using assms(2) by (simp add: unat_of_nat RTL_RX_BUFFER_SIZE_def)
  then have "\<not> of_nat (length bytes) > max_length" using assms(7) by (simp add: word_less_nat_alt)
  then show ?thesis using assms l by (simp add: rtl8139_recv_packet_def Let_def RTL_RX_BUFFER_SIZE_def)
qed

lemma rtl_next_packet_short:
  assumes "rtl8139_recv_packet io True max_length s d = Inr (len, bytes, s', d')" "len \<noteq> 0"
  shows "rx_offset s' = (rx_offset s + ucast len + 7) AND NOT 3 \<or> rx_offset s' = 0"
  using assms by (auto simp: rtl8139_recv_packet_def Let_def add.assoc split: if_splits)

text \<open>The search for a tag ends when no tag claims to be so long that rounding its size up wraps around.\<close>

lemma tag_step_positive: "8 \<le> sz \<Longrightarrow> sz \<le> 0xFFFFFFF8 \<Longrightarrow> 0 < unat ((sz + 7) AND NOT 7 :: u32)"
proof -
  assume a: "8 \<le> sz" "sz \<le> 0xFFFFFFF8"
  have "unat sz \<le> 0xFFFFFFF8" "8 \<le> unat sz" using a by (simp_all add: word_le_nat_alt)
  then have u: "15 \<le> unat (sz + 7)" by (simp add: unat_word_ariths)
  have "unat ((sz + 7) AND 7) \<le> 7" using word_and_le2 [of 7 "sz + 7"] by (simp add: word_le_nat_alt and.commute)
  moreover have "sz + 7 = ((sz + 7) AND NOT 7) OR ((sz + 7) AND 7)" by (simp only: bit.conj_disj_distrib [symmetric] bit.disj_cancel_left and.right_neutral)
  ultimately have "(sz + 7) AND NOT 7 \<noteq> 0" using u by fastforce
  then show ?thesis by (simp add: unat_gt_0)
qed

lemma fb_find_tag_returns:
  assumes "\<forall>p. mrd32 mem (p + 4) \<le> 0xFFFFFFF8"
  shows "\<exists>r. fb_find_tag mem p e = Some r"
proof (induction "e - p" arbitrary: p rule: less_induct)
  case less
  let ?sz = "mrd32 mem (p + 4)"
  show ?case
  proof (cases "p + 8 \<le> e \<and> \<not> ?sz < 8")
    case True
    then have "0 < unat ((?sz + 7) AND NOT 7)" using tag_step_positive [of ?sz] assms by (simp add: not_less)
    then have "e - (p + unat ((?sz + 7) AND NOT 7)) < e - p" using True by linarith
    then show ?thesis using less [of "p + unat ((?sz + 7) AND NOT 7)"] by (subst fb_find_tag.simps) (simp add: Let_def)
  next
    case False
    then show ?thesis by (subst fb_find_tag.simps) (auto simp: Let_def)
  qed
qed

text \<open>Every mode of the table can be chosen once there is a frame buffer; its lines are then as long as the pixels of a line.\<close>

lemma fb_set_resolution_ok:
  assumes "fb_base b \<noteq> 0" "unat res_id < 5"
  shows "\<exists>b'. fb_set_resolution res_id b = (0, b') \<and> (fb_width b', fb_height b') = resolution_table ! unat res_id
    \<and> fb_pitch b' = 4 * fb_width b' \<and> fb_initialized b'"
proof -
  consider "unat res_id = 0" | "unat res_id = 1" | "unat res_id = 2" | "unat res_id = 3" | "unat res_id = 4" using assms(2) by linarith
  then show ?thesis using assms(1) by cases (simp_all add: fb_set_resolution_def fb_try_resolution_def resolution_table_def)
qed

end
