(* ===== verification/Spec2Isabelle.thy ===== *)
theory Spec2Isabelle
  imports Ipc Heap Sync Services Vfs Net Fat32 Ramdisk Wm Console Win32 Input Ata Acpi Apps Devices
begin

text \<open>
  A verification library for the Madar operating system, a 64-bit kernel with a window system, a small network
  stack and a loader for Windows executables.

  \<^bold>\<open>The program and its parts.\<close> The kernel (\<^verbatim>\<open>src/kernel\<close>) has spinlocks, a bump allocator for pages, a bitmap heap on
  top of it, mutexes, process control blocks on a doubly linked ready queue and a round-robin
  scheduler driven by the timer tick. The services (\<^verbatim>\<open>src/services\<close>) are pipes and message queues on ring buffers,
  a virtual file system with inodes on the heap, a RAM disk, a FAT32 reader, users and permissions, signals,
  a service manager with init, and ARP, IP, ICMP, TCP and UDP. The window manager
  (\<^verbatim>\<open>src/gui\<close>) keeps windows in a stack, and the compatibility layer (\<^verbatim>\<open>src/compat\<close>) parses, validates, loads and links Windows
  executables and offers them an API on top of the system calls. Every part keeps its state in global variables; the heap and the spinlock are
  shared by most of them.

  \<^bold>\<open>How the code is represented.\<close> A component's globals are one record, a structure is a record, and an operation is a
  function from the state to the result and the new state. Unsigned integers are words of their width and
  wrap around; \<open>int\<close> results and descriptors are integers. An operation that may fail to return normally has the result type
  \<open>res\<close>: \<open>Spin\<close> when it would wait or loop for ever, \<open>Panic\<close> for a failed kernel
  assertion, \<open>Fault\<close> for an access outside an object or a division by zero. A null pointer argument
  is \<open>None\<close> or a flag, a string is the list of its bytes before the terminator, and log lines are
  left out; only output that is a call's purpose goes to the modelled console. Addresses are 64-bit words; the structures behind pointers live in maps
  from addresses.

  \<^bold>\<open>Theories.\<close>
  \<^item> \<open>Prelude\<close>: widths, results, the first index with a property, lemmas on words and tables and the
    interface of fixed tables (\<open>slot_table\<close>).
  \<^item> \<open>Spinlock\<close> (\<^verbatim>\<open>kernel/spinlock.c\<close>, \<^verbatim>\<open>atomic.c\<close>): the operations and the interleaving of their atomic accesses as a step relation;
    mutual exclusion is proved in the locale \<open>lock_protocol\<close>, which the mutex uses too.
  \<^item> \<open>RingBuffer\<close>, \<open>Ipc\<close> (\<^verbatim>\<open>services/ring_buffer.c\<close>, \<^verbatim>\<open>ipc.c\<close>): the ring refines a bounded list of bytes (locale \<open>byte_queue\<close>); a pipe is such
    a queue again, and message queues are first in, first out.
  \<^item> \<open>Pmm\<close>, \<open>Heap\<close> (\<^verbatim>\<open>kernel/memory.c\<close>, \<^verbatim>\<open>heap.c\<close>): pages are disjoint; the bitmap heap finds the first fit, satisfies the contract
    \<open>allocator\<close>, and no two live allocations overlap whatever the order of the calls.
  \<^item> \<open>Sync\<close> (\<^verbatim>\<open>kernel/sync.c\<close>): the recursive mutex, sequentially and under interleaving, and its waiting loop.
  \<^item> \<open>Process\<close>, \<open>Scheduler\<close> (\<^verbatim>\<open>kernel/process.c\<close>, \<^verbatim>\<open>stack.c\<close>, \<^verbatim>\<open>thread.c\<close>, \<^verbatim>\<open>scheduler.c\<close>): the linked ready queue is a queue (locale \<open>thread_queue\<close>), the
    initial frame of a thread, the scheduler as a refinement of a scheduler on lists, round robin, and the
    absence of failed assertions in every sequence of thread operations.
  \<^item> \<open>CString\<close> (\<^verbatim>\<open>kernel/string.c\<close>): the string functions on bytes in memory.
  \<^item> \<open>Security\<close> (\<^verbatim>\<open>services/security.c\<close>, \<^verbatim>\<open>uid_table.c\<close>, \<^verbatim>\<open>signal.c\<close>): permission checks, user table, signals.
  \<^item> \<open>Services\<close> (\<^verbatim>\<open>services/service_mgr.c\<close>, \<^verbatim>\<open>config_parser.c\<close>, \<^verbatim>\<open>init.c\<close>): the service table, restarts with backoff, the parser.
  \<^item> \<open>Vfs\<close> (\<^verbatim>\<open>services/vfs.c\<close>): the tree of inodes, descriptors and the lock. The invariant describes the tree, the reference
    counts and which heap blocks belong to which inode; it gives the termination of every lookup.
  \<^item> \<open>Bytes\<close>, \<open>Net\<close> (\<^verbatim>\<open>services/net_utils.c\<close>, \<^verbatim>\<open>arp.c\<close>, \<^verbatim>\<open>ip.c\<close>, \<^verbatim>\<open>icmp.c\<close>, \<^verbatim>\<open>tcp.c\<close>, \<^verbatim>\<open>udp.c\<close>): packed structures as bytes, the checksum as one's
    complement arithmetic, and the path of a packet from one host to the next.
  \<^item> \<open>Fat32\<close>, \<open>Ramdisk\<close> (\<^verbatim>\<open>services/fat32.c\<close>, \<^verbatim>\<open>fat_dir.c\<close>, \<^verbatim>\<open>disk_io.c\<close>, \<^verbatim>\<open>ramdisk.c\<close>): reading along cluster chains and directories.
  \<^item> \<open>Ata\<close> (\<^verbatim>\<open>drivers/ata.c\<close>, \<^verbatim>\<open>services/disk_io.c\<close>): the disk driver on port instructions. On a drive that follows the transfer protocol
    (\<open>pio_drive\<close>) sectors are read back as written, and the driver implements the disk the FAT32 reader works on.
  \<^item> \<open>Acpi\<close> (\<^verbatim>\<open>kernel/acpi.c\<close>): the search for the firmware's tables in physical memory and their contents.
  \<^item> \<open>Wm\<close> (\<^verbatim>\<open>gui/wm_core.c\<close>, \<^verbatim>\<open>window_list.c\<close>, \<^verbatim>\<open>wm_events.c\<close>): the window table, stacking, hit tests, dragging.
  \<^item> \<open>Gfx\<close> (\<^verbatim>\<open>gui/gfx_backend.c\<close>, \<^verbatim>\<open>gfx_utils.c\<close>): the drawing surface and its shapes. Every drawing call is clipped to the surface (\<open>paints\<close>
    states which pixels a call changes), and circles are exact.
  \<^item> \<open>Text\<close> (\<^verbatim>\<open>gui/font_engine.c\<close>, \<^verbatim>\<open>rtl_support.c\<close>, \<^verbatim>\<open>widgets.c\<close>): the bitmap font, text and basic widgets; a line of text colours exactly
    the dots of its glyphs.
  \<^item> \<open>Desktop\<close> (\<^verbatim>\<open>src/desktop\<close>, \<^verbatim>\<open>gui/taskbar.c\<close>): applications, start menu and panel with their clicks, and the drawing of desktop and
    windows; no drawing leaves the surface (\<open>draws\<close>).
  \<^item> \<open>Theme\<close> (\<^verbatim>\<open>gui/theme.c\<close>, \<^verbatim>\<open>widgets_modern.c\<close>, \<^verbatim>\<open>animation.c\<close>): palettes and colour arithmetic, buttons, animations, the task bar.
  \<^item> \<open>Ps2\<close> (\<^verbatim>\<open>drivers/kbd.c\<close>, \<^verbatim>\<open>mouse.c\<close>): the keyboard and mouse drivers on the ports of the controller; key codes arrive in order
    and the pointer makes the movements reported.
  \<^item> \<open>Input\<close> (\<^verbatim>\<open>gui/event_loop.c\<close>, \<^verbatim>\<open>input_router.c\<close>, \<^verbatim>\<open>keyboard_system.c\<close>, \<^verbatim>\<open>input_system.c\<close>, \<^verbatim>\<open>input_poller.c\<close>, \<^verbatim>\<open>gui_daemon.c\<close>): the window system
    as a whole, from the devices through the event queue to the frames on the screen. The event loop refines a loop on a bounded list of
    events, and its main loop never stops or leaves the surface.
  \<^item> \<open>Pe\<close> (\<^verbatim>\<open>compat/pe_parser.c\<close>, \<^verbatim>\<open>pe_validator.c\<close>): parsing and validation of executables on raw bytes.
  \<^item> \<open>PeLoader\<close>, \<open>Modules\<close> (\<^verbatim>\<open>compat/pe_loader.c\<close>, \<^verbatim>\<open>module_registry.c\<close>, \<^verbatim>\<open>import_resolver.c\<close>): the layout of a loaded image in a block of the heap, the effect of
    relocations on its bytes, the registry of exports, and import tables against a description of what the file lists.
  \<^item> \<open>Compat\<close> (\<^verbatim>\<open>compat/mem_mapper.c\<close>, \<^verbatim>\<open>stack_init.c\<close>, \<^verbatim>\<open>pe_threads.c\<close>, \<^verbatim>\<open>tls_manager.c\<close>, \<^verbatim>\<open>sync_mapper.c\<close>, \<^verbatim>\<open>compat_process.c\<close>, \<^verbatim>\<open>exe_sandbox.c\<close>,
    \<^verbatim>\<open>seh_bridge.c\<close>, \<^verbatim>\<open>exception_mapper.c\<close>, \<^verbatim>\<open>safe_exit.c\<close>): the run-time tables of Windows programs; regions are live heap blocks, and synchronisation objects
    refine a map of events (locale \<open>step_refinement\<close>).
  \<^item> \<open>Console\<close> (\<^verbatim>\<open>kernel/vga.c\<close>, \<^verbatim>\<open>serial.c\<close>, \<^verbatim>\<open>kprintf.c\<close>): the text screen as a window on the lines printed, and formatted output.
  \<^item> \<open>Syscall\<close> (\<^verbatim>\<open>kernel/syscall.c\<close>, \<^verbatim>\<open>services/syscall_layer4.c\<close>): dispatcher and handlers on one kernel state that joins file system, pipes,
    scheduler, users and console; data passes through pipes unchanged, and no call changes the identity of a user.
  \<^item> \<open>Win32\<close> (\<^verbatim>\<open>compat/win32_stubs.c\<close>, \<^verbatim>\<open>api_log.c\<close>, \<^verbatim>\<open>syscall_bridge.c\<close>): the Windows API on top of \<open>Syscall\<close> and \<open>Compat\<close>.
  \<^item> \<open>Apps\<close> (\<^verbatim>\<open>apps/shell.c\<close>, \<^verbatim>\<open>builtins.c\<close>, \<^verbatim>\<open>lang_detect.c\<close>, \<^verbatim>\<open>http_client.c\<close>, \<^verbatim>\<open>html_min_parser.c\<close>, \<^verbatim>\<open>settings.c\<close>, \<^verbatim>\<open>fileman.c\<close> and smaller files): the shell from
    the bytes of a line to what it prints, text extraction from pages, the table of settings and the cores of the file manager, task list and launcher.
  \<^item> \<open>Devices\<close> (\<^verbatim>\<open>kernel/pic.c\<close>, \<^verbatim>\<open>idt.c\<close>, \<^verbatim>\<open>drivers/irq_manager.c\<close>, \<^verbatim>\<open>pci.c\<close>, \<^verbatim>\<open>rtl8139.c\<close>, \<^verbatim>\<open>fb.c\<close>): masks and gates of interrupts and their handlers, the scan of
    the bus against its configuration space, the network card's rings and the frame buffer of the boot loader.

  \<^bold>\<open>Loops.\<close> Loops over tables are structural recursions. Loops along links in memory (children of an inode, clusters of a
  file) need not end for arbitrary contents: they are partial functions with value \<open>None\<close> when they do
  not return, and the properties prove that they return under the invariants. No fuel is used.
  The waiting loop of the mutex takes the list of states that other threads leave behind at each yield.

  \<^bold>\<open>Parameters.\<close> The disk below FAT32 is a function from sector numbers to contents or an error; the mount callback of a file
  system is an argument of \<open>vfs_mount\<close>; the end of the kernel image, the tick counter and the screen size are
  arguments or fields of the state. No hypothesis restricts them beyond the size of a sector.
  The drive behind the ports of \<open>Ata\<close> is a set of port functions on an arbitrary state; \<open>pio_drive\<close> states the ATA protocol, and a drive
  in software shows that it can be met. In the same way \<open>ps2_controller\<close> states what the keyboard and mouse drivers expect of their controller, and \<open>pci_config\<close> what the scan expects of
  the bus. The
  reactions to the right mouse button, which are declared but defined nowhere, are arguments too.

  Code called through a pointer (thread entries, exception and exit handlers, registered functions) is an
  argument as well, and so are the readings of the timer in \<open>Sleep\<close>.

  \<^bold>\<open>Not modelled.\<close> Start-up, panic screens and assembly code, and the reports and self tests; the
  toolkit and the applications with windows (terminal, file manager, settings) are user interface. \<^verbatim>\<open>kernel/vmm.c\<close> is three drafts of one file in sequence with
  stray text between them, and uses types and macros that no header defines, so there is no one program to
  translate. \<^verbatim>\<open>compat/compatd.c\<close> runs a built-in demonstration over the modelled parts.
\<close>

end
